(* ===== verification/Prelude.thy ===== *)
theory Prelude
  imports Complex_Main
begin

text \<open>
  What the components share: results of calls that may throw, the JavaScript array
  operations the sources lean on, and the fact collections the component proofs use.

  \<^item> A call that can throw returns \<open>'e + 'a\<close>, with \<open>Inl\<close> for what was thrown.
    \<open>bind_res\<close> is the sequencing of two such calls and \<open>map_res\<close> is an
    \<open>Array.map\<close> whose callback may throw: the first throw ends it.
  \<^item> An optional field (\<open>T | undefined\<close>) is an \<open>option\<close>.
  \<^item> A JavaScript number that counts something is a \<open>nat\<close>; one that measures money or
    a rate is a \<open>real\<close>, so the rounding of IEEE doubles is not modelled.
\<close>

named_theorems res_simps \<open>evaluation of results\<close>
named_theorems inv_intros \<open>operations keep their component's invariant\<close>

subsection \<open>Results of calls that may throw\<close>

fun bind_res :: "'e + 'a \<Rightarrow> ('a \<Rightarrow> 'e + 'b) \<Rightarrow> 'e + 'b" where
  "bind_res (Inl e) f = Inl e"
| "bind_res (Inr x) f = f x"

fun map_res :: "('a \<Rightarrow> 'e + 'b) \<Rightarrow> 'a list \<Rightarrow> 'e + 'b list" where
  "map_res f [] = Inr []"
| "map_res f (x # xs) =
     bind_res (f x) (\<lambda>y. bind_res (map_res f xs) (\<lambda>ys. Inr (y # ys)))"

lemma bind_res_Inr_iff [res_simps]:
  "bind_res r f = Inr y \<longleftrightarrow> (\<exists>x. r = Inr x \<and> f x = Inr y)"
  by (cases r) auto

lemma bind_res_Inl_iff [res_simps]:
  "bind_res r f = Inl e \<longleftrightarrow> r = Inl e \<or> (\<exists>x. r = Inr x \<and> f x = Inl e)"
  by (cases r) auto

lemma map_res_Inr_iff:
  "map_res f xs = Inr ys \<longleftrightarrow> list_all2 (\<lambda>x y. f x = Inr y) xs ys"
  by (induction xs arbitrary: ys) (auto simp: res_simps list_all2_Cons1)

lemma map_res_Inr_length: "map_res f xs = Inr ys \<Longrightarrow> length ys = length xs"
  by (auto simp: map_res_Inr_iff dest: list_all2_lengthD)

lemma map_res_Inr_nth:
  "map_res f xs = Inr ys \<Longrightarrow> i < length xs \<Longrightarrow> f (xs ! i) = Inr (ys ! i)"
  by (auto simp: map_res_Inr_iff list_all2_conv_all_nth)

lemma map_res_Inl_ex: "map_res f xs = Inl e \<Longrightarrow> \<exists>x \<in> set xs. f x = Inl e"
  by (induction xs) (auto simp: res_simps)

lemma map_res_total: "(\<And>x. x \<in> set xs \<Longrightarrow> f x = Inr (g x)) \<Longrightarrow> map_res f xs = Inr (map g xs)"
  by (induction xs) auto

definition is_ok :: "'e + 'a \<Rightarrow> bool" where
  "is_ok r = (case r of Inl _ \<Rightarrow> False | Inr _ \<Rightarrow> True)"

lemma is_ok_simps [simp]: "is_ok (Inr x)" "\<not> is_ok (Inl e)"
  by (simp_all add: is_ok_def)

lemma is_okE: "is_ok r \<Longrightarrow> (\<And>x. r = Inr x \<Longrightarrow> P) \<Longrightarrow> P"
  by (cases r) auto

subsection \<open>Array operations\<close>

definition find_last :: "('a \<Rightarrow> bool) \<Rightarrow> 'a list \<Rightarrow> 'a option" where
  "find_last p xs = List.find p (rev xs)"

lemma find_last_append [simp]:
  "find_last p (xs @ [x]) = (if p x then Some x else find_last p xs)"
  by (simp add: find_last_def)

lemma find_last_Some: "find_last p xs = Some x \<Longrightarrow> x \<in> set xs \<and> p x"
  unfolding find_last_def by (auto simp: find_Some_iff) (metis nth_mem set_rev length_rev)

lemma find_last_None: "find_last p xs = None \<longleftrightarrow> (\<forall>x \<in> set xs. \<not> p x)"
  by (auto simp: find_last_def find_None_iff)

lemma find_Some_set: "List.find p xs = Some x \<Longrightarrow> x \<in> set xs \<and> p x"
  by (auto simp: find_Some_iff)

text \<open>\<open>Array.findIndex\<close>.\<close>

fun find_index :: "('a \<Rightarrow> bool) \<Rightarrow> 'a list \<Rightarrow> nat option" where
  "find_index p [] = None"
| "find_index p (x # xs) = (if p x then Some 0 else map_option Suc (find_index p xs))"

lemma find_index_Some: "find_index p xs = Some i \<Longrightarrow> i < length xs \<and> p (xs ! i)"
  by (induction xs arbitrary: i) (auto split: if_splits)

text \<open>\<open>Array.flatMap\<close> whose callback answers at most one element.\<close>

lemma map_filter_snoc [simp]:
  "List.map_filter f (xs @ [x]) = List.map_filter f xs @ (case f x of None \<Rightarrow> [] | Some y \<Rightarrow> [y])"
  by (simp add: List.map_filter_def split: option.splits)

lemma set_map_filter: "x \<in> set (List.map_filter f xs) \<longleftrightarrow> (\<exists>y \<in> set xs. f y = Some x)"
  by (auto simp: List.map_filter_def) force

text \<open>\<open>Array.reduce\<close> with an addition, and sums of what \<open>Array.toSorted\<close> answers.\<close>

lemma foldl_plus: "foldl (+) a xs = a + sum_list xs" for a :: "'a::monoid_add"
  by (induction xs arbitrary: a) (simp_all add: add.assoc)

lemma sum_list_insort: "sum_list (insort x xs) = x + sum_list xs" for x :: real
  by (induction xs) auto

lemma sum_list_sort: "sum_list (sort xs) = sum_list xs" for xs :: "real list"
  by (induction xs) (simp_all add: sum_list_insort)

subsection \<open>Strings\<close>

text \<open>\<open>Array.join\<close>.\<close>

fun join_with :: "string \<Rightarrow> string list \<Rightarrow> string" where
  "join_with sep [] = []"
| "join_with sep [x] = x"
| "join_with sep (x # y # xs) = x @ sep @ join_with sep (y # xs)"


text \<open>\<open>a[i] ?? d\<close>: an element, or the default where the array has none.\<close>

definition at_or :: "'a list \<Rightarrow> nat \<Rightarrow> 'a \<Rightarrow> 'a" where
  "at_or xs i d = (if i < length xs then xs ! i else d)"

text \<open>\<open>String.split\<close> by one character; its length is one more than the separators.\<close>

fun split_on :: "'a \<Rightarrow> 'a list \<Rightarrow> 'a list list" where
  "split_on c [] = [[]]"
| "split_on c (x # xs) =
     (if x = c then [] # split_on c xs
      else case split_on c xs of [] \<Rightarrow> [[x]] | p # ps \<Rightarrow> (x # p) # ps)"

lemma split_on_not_Nil [simp]: "split_on c xs \<noteq> []"
  by (cases xs) (auto split: list.splits)

lemma length_split_on: "length (split_on c xs) = Suc (count_list xs c)"
  by (induction xs) (auto split: list.splits)

text \<open>\<open>String.indexOf\<close>: where the needle first occurs.\<close>

fun starts_with :: "'a list \<Rightarrow> 'a list \<Rightarrow> bool" where
  "starts_with xs [] = True"
| "starts_with [] (y # ys) = False"
| "starts_with (x # xs) (y # ys) = (x = y \<and> starts_with xs ys)"

fun index_of :: "'a list \<Rightarrow> 'a list \<Rightarrow> nat option" where
  "index_of [] needle = (if needle = [] then Some 0 else None)"
| "index_of (x # xs) needle =
     (if starts_with (x # xs) needle then Some 0 else map_option Suc (index_of xs needle))"

lemma starts_with_iff: "starts_with xs ys \<longleftrightarrow> (\<exists>zs. xs = ys @ zs)"
  by (induction xs ys rule: starts_with.induct) auto

lemma starts_with_append [simp]: "starts_with (xs @ ys) xs"
  by (auto simp: starts_with_iff)

lemma index_of_Some:
  "index_of xs needle = Some i \<Longrightarrow> \<exists>us zs. xs = us @ needle @ zs \<and> length us = i"
proof (induction xs arbitrary: i)
  case (Cons x xs)
  show ?case
  proof (cases "starts_with (x # xs) needle")
    case True
    with Cons.prems show ?thesis by (auto simp: starts_with_iff)
  next
    case False
    with Cons.prems obtain j where "index_of xs needle = Some j" and i: "i = Suc j" by auto
    with Cons.IH obtain us zs where "xs = us @ needle @ zs" "length us = j" by blast
    with i show ?thesis by (intro exI [of _ "x # us"] exI [of _ zs]) auto
  qed
qed (auto split: if_splits)

lemma index_of_None_iff: "index_of xs needle = None \<longleftrightarrow> (\<nexists>us vs. xs = us @ needle @ vs)"
proof (induction xs)
  case (Cons x xs)
  have "(\<exists>us vs. x # xs = us @ needle @ vs) \<longleftrightarrow>
      starts_with (x # xs) needle \<or> (\<exists>us vs. xs = us @ needle @ vs)"
    by (auto simp: starts_with_iff Cons_eq_append_conv)
  with Cons.IH show ?case by auto
qed auto


text \<open>\<open>String.slice\<close> with bounds that are not negative.\<close>

definition slice :: "'a list \<Rightarrow> nat \<Rightarrow> nat \<Rightarrow> 'a list" where
  "slice xs s e = take (e - s) (drop s xs)"

lemma slice_infix: "slice (us @ vs @ ws) (length us) (length us + length vs) = vs"
  by (simp add: slice_def)

lemma slice_split: "\<exists>us ws. xs = us @ slice xs s e @ ws"
  by (metis append_take_drop_id slice_def)

end
