(* ===== verification/ClaudeEnvelope.thy ===== *)
theory ClaudeEnvelope
  imports JsonValue
begin

text \<open>
  What a provider call reports: \<open>claude-envelope-contract.ts\<close>, the readers of
  \<open>claude-metrics.ts\<close> and of \<open>claude-response.ts\<close> in \<open>src/src/benchmark\<close>.

  The parser of a session's output (the Zod schema of the envelope over \<open>JSON.parse\<close>)
  and the schema a caller reads the structured output with are parameters.
\<close>

record claude_usage =
  cache_creation_input_tokens :: nat
  cache_read_input_tokens :: nat
  input_tokens :: nat
  output_tokens :: nat

record claude_model_usage =
  mu_cache_creation_input_tokens :: nat
  mu_cache_read_input_tokens :: nat
  mu_context_window :: nat
  mu_cost_usd :: real
  mu_input_tokens :: nat
  mu_max_output_tokens :: nat
  mu_output_tokens :: nat

type_synonym model_usage = "(string \<times> claude_model_usage) list"

record call_metrics =
  m_api_duration_ms :: "nat option"
  m_cache_read_tokens :: nat
  m_cache_write_tokens :: nat
  m_cost_usd :: real
  m_duration_ms :: "nat option"
  m_input_tokens :: nat
  m_model_usage :: "model_usage option"
  m_output_tokens :: nat
  m_turns :: nat

record claude_envelope =
  duration_api_ms :: "nat option"
  duration_ms :: "nat option"
  errors :: "string list option"
  is_error :: "bool option"
  model_usage :: "model_usage option"
  num_turns :: "nat option"
  result :: "string option"
  session_id :: string
  structured_output :: "json option"
  terminal_reason :: "string option"
  total_cost_usd :: "real option"
  usage :: "claude_usage option"

text \<open>What the envelope's schema accepts beyond the field types.\<close>

definition envelope_valid :: "claude_envelope \<Rightarrow> bool" where
  "envelope_valid e \<longleftrightarrow> session_id e \<noteq> []
     \<and> (case total_cost_usd e of None \<Rightarrow> True | Some c \<Rightarrow> 0 \<le> c)"

text \<open>
  \<open>readClaudeCallMetrics\<close>: the schema of the metrics requires the cost, the four token
  counts and the turns, and leaves the durations and the usage per model optional.
\<close>

definition read_claude_call_metrics :: "claude_envelope \<Rightarrow> call_metrics option" where
  "read_claude_call_metrics e =
     (case (total_cost_usd e, usage e, num_turns e) of
        (Some cost, Some u, Some turns) \<Rightarrow>
          (if 0 \<le> cost
           then Some \<lparr>m_api_duration_ms = duration_api_ms e,
                      m_cache_read_tokens = cache_read_input_tokens u,
                      m_cache_write_tokens = cache_creation_input_tokens u,
                      m_cost_usd = cost,
                      m_duration_ms = duration_ms e,
                      m_input_tokens = input_tokens u,
                      m_model_usage = model_usage e,
                      m_output_tokens = output_tokens u,
                      m_turns = turns\<rparr>
           else None)
      | _ \<Rightarrow> None)"

lemma read_metrics_Some:
  "read_claude_call_metrics e = Some m \<Longrightarrow>
     total_cost_usd e = Some (m_cost_usd m) \<and> num_turns e = Some (m_turns m) \<and> 0 \<le> m_cost_usd m"
  by (auto simp: read_claude_call_metrics_def split: option.splits if_splits)

lemma read_metrics_None_iff:
  "envelope_valid e \<Longrightarrow>
     read_claude_call_metrics e = None
       \<longleftrightarrow> total_cost_usd e = None \<or> usage e = None \<or> num_turns e = None"
  by (auto simp: read_claude_call_metrics_def envelope_valid_def split: option.splits)

subsection \<open>Failures and structured output\<close>

definition stated_failure :: "claude_envelope \<Rightarrow> string option" where
  "stated_failure e =
     (if result e \<noteq> None \<and> result e \<noteq> Some [] then result e
      else let es = (case errors e of None \<Rightarrow> [] | Some xs \<Rightarrow> join_with ''; '' xs)
           in if es = [] then None else Some es)"

text \<open>
  What a call to the provider can throw: the session's own failure, carrying what the call
  reported and the message of the failed command when one failed, or any other error, of
  which only the message is kept.
\<close>

datatype call_failure =
    ClaudeSessionError claude_envelope "string option"
  | OtherError string

definition failure_message :: "call_failure \<Rightarrow> string" where
  "failure_message f =
     (case f of
        ClaudeSessionError e failure \<Rightarrow>
          (case stated_failure e of
             Some s \<Rightarrow> s
           | None \<Rightarrow> (case failure of Some m \<Rightarrow> m | None \<Rightarrow> ''Claude session failed''))
      | OtherError s \<Rightarrow> s)"

definition read_claude_envelope ::
  "(string \<Rightarrow> string + claude_envelope) \<Rightarrow> string \<Rightarrow> call_failure + claude_envelope" where
  "read_claude_envelope parse output =
     (case parse output of
        Inl e \<Rightarrow> Inl (OtherError e)
      | Inr envelope \<Rightarrow>
          if is_error envelope = Some True then Inl (ClaudeSessionError envelope None)
          else Inr envelope)"

text \<open>
  \<open>parseStructuredPayload\<close>: the structured output when the envelope has one, otherwise
  its result text read as JSON. (\<open>readStructuredOutput\<close> only reorders the issues of the
  error this throws, which the model keeps as a message.)
\<close>

definition parse_structured_payload ::
  "(string \<Rightarrow> string + json) \<Rightarrow> (json \<Rightarrow> string + 'a) \<Rightarrow> claude_envelope \<Rightarrow> string + 'a" where
  "parse_structured_payload json_parse schema e =
     (case structured_output e of
        Some j \<Rightarrow> schema j
      | None \<Rightarrow>
          (case result e of
             Some r \<Rightarrow>
               if r \<noteq> [] then bind_res (json_parse r) schema
               else Inl ''Claude response did not contain structured output''
           | None \<Rightarrow> Inl ''Claude response did not contain structured output''))"

lemma read_envelope_Inr:
  "read_claude_envelope parse output = Inr e \<longleftrightarrow> parse output = Inr e \<and> is_error e \<noteq> Some True"
  by (auto simp: read_claude_envelope_def split: sum.splits if_splits)

end
