(* ===== verification/SpendCeiling.thy ===== *)
theory SpendCeiling
  imports ClaudeEnvelope
begin

text \<open>
  The spend ceilings of \<open>src/src/benchmark/spend-ceiling.ts\<close>: what a run may still
  spend, what its calls have cost, and the sharing of one group ceiling by the
  repetitions of a confirmation.

  A ceiling object of the source is a closure over its own \<open>spentUsd\<close> and
  \<open>tokens\<close> that may point at the ceiling it sits \<open>within\<close>. The objects live in
  a store, so that two repetitions within one group share the group's cell; a
  ceiling is named by its index. \<open>createSpendCeiling\<close> can only point at a ceiling
  that exists already, which is the store's invariant \<open>store_wf\<close>.
\<close>

record run_tokens =
  in_tokens :: nat
  out_tokens :: nat

record ceiling =
  ceiling_usd :: real
  within_of :: "nat option"
  spent_usd :: real
  tokens :: run_tokens

type_synonym ceilings = "ceiling list"

text \<open>The error \<open>SpendCeilingReachedError\<close>, which is also what \<open>reached\<close> answers.\<close>

record ceiling_reached =
  reached_ceiling_usd :: real
  reached_spent_usd :: real

definition store_wf :: "ceilings \<Rightarrow> bool" where
  "store_wf st \<longleftrightarrow> (\<forall>i < length st. \<forall>j. within_of (st ! i) = Some j \<longrightarrow> j < i)"

subsection \<open>The operations of a ceiling\<close>

definition create_spend_ceiling :: "ceilings \<Rightarrow> real \<Rightarrow> nat option \<Rightarrow> ceilings \<times> nat" where
  "create_spend_ceiling st usd w =
     (st @ [\<lparr>ceiling_usd = usd, within_of = w, spent_usd = 0, tokens = \<lparr>in_tokens = 0, out_tokens = 0\<rparr>\<rparr>],
      length st)"

text \<open>
  The three methods that follow the link \<open>within\<close> recurse on it. The guard \<open>j < i\<close>
  holds in every store that \<open>create_spend_ceiling\<close> builds, so its other branch is
  never taken.
\<close>

fun budget_for :: "ceilings \<Rightarrow> nat \<Rightarrow> real \<Rightarrow> ceiling_reached + real" where
  "budget_for st i session_budget =
     (let c = st ! i; left_usd = ceiling_usd c - spent_usd c
      in if left_usd \<le> 0
         then Inl \<lparr>reached_ceiling_usd = ceiling_usd c, reached_spent_usd = spent_usd c\<rparr>
         else let budget = min session_budget left_usd
              in case within_of c of
                   None \<Rightarrow> Inr budget
                 | Some j \<Rightarrow> if j < i then budget_for st j budget else Inr budget)"

definition add_tokens :: "run_tokens \<Rightarrow> call_metrics \<Rightarrow> run_tokens" where
  "add_tokens t m =
     \<lparr>in_tokens = in_tokens t + m_input_tokens m + m_cache_read_tokens m + m_cache_write_tokens m,
      out_tokens = out_tokens t + m_output_tokens m\<rparr>"

definition charge_cell :: "ceiling \<Rightarrow> real \<Rightarrow> call_metrics option \<Rightarrow> ceiling" where
  "charge_cell c cost metrics =
     c\<lparr>spent_usd := spent_usd c + cost,
       tokens := (case metrics of None \<Rightarrow> tokens c | Some m \<Rightarrow> add_tokens (tokens c) m)\<rparr>"

fun charge :: "ceilings \<Rightarrow> nat \<Rightarrow> real \<Rightarrow> call_metrics option \<Rightarrow> ceilings" where
  "charge st i cost metrics =
     (let st' = st[i := charge_cell (st ! i) cost metrics]
      in case within_of (st ! i) of
           None \<Rightarrow> st'
         | Some j \<Rightarrow> if j < i then charge st' j cost metrics else st')"

fun reached :: "ceilings \<Rightarrow> nat \<Rightarrow> ceiling_reached option" where
  "reached st i =
     (let c = st ! i
      in if ceiling_usd c \<le> spent_usd c
         then Some \<lparr>reached_ceiling_usd = ceiling_usd c, reached_spent_usd = spent_usd c\<rparr>
         else case within_of c of
                None \<Rightarrow> None
              | Some j \<Rightarrow> if j < i then reached st j else None)"

declare budget_for.simps [simp del] charge.simps [simp del] reached.simps [simp del]

definition group_spend_ceiling_usd :: "real \<Rightarrow> nat \<Rightarrow> real" where
  "group_spend_ceiling_usd spend_ceiling reps = spend_ceiling * real reps"

text \<open>
  \<open>repSpendCeilings\<close> makes the group's ceiling at once and returns a function that
  makes one repetition's ceiling per call, all within the same group.
\<close>

definition rep_spend_ceilings :: "ceilings \<Rightarrow> real \<Rightarrow> nat \<Rightarrow> ceilings \<times> (ceilings \<Rightarrow> ceilings \<times> nat)" where
  "rep_spend_ceilings st spend_ceiling reps =
     (let (st', g) = create_spend_ceiling st (group_spend_ceiling_usd spend_ceiling reps) None
      in (st', \<lambda>s. create_spend_ceiling s spend_ceiling (Some g)))"

text \<open>The ceilings a charge to \<open>i\<close> reaches: \<open>i\<close>, the ceiling it is within, and so on.\<close>

fun chain :: "ceilings \<Rightarrow> nat \<Rightarrow> nat list" where
  "chain st i =
     i # (case within_of (st ! i) of None \<Rightarrow> [] | Some j \<Rightarrow> if j < i then chain st j else [])"

declare chain.simps [simp del]


definition left_usd :: "ceilings \<Rightarrow> nat \<Rightarrow> real" where
  "left_usd st k = ceiling_usd (st ! k) - spent_usd (st ! k)"

subsection \<open>The chain of ceilings a ceiling sits within\<close>

lemma chain_self [simp]: "i \<in> set (chain st i)"
  by (subst chain.simps) simp

lemma chain_le: "k \<in> set (chain st i) \<Longrightarrow> k \<le> i"
  by (induction st i rule: chain.induct)
     (subst (asm) (2) chain.simps, force split: option.splits if_splits)

lemma distinct_chain: "distinct (chain st i)"
proof (induction st i rule: chain.induct)
  case (1 st i)
  then show ?case
    by (subst chain.simps) (auto split: option.splits dest: chain_le)
qed

lemma chain_cong:
  "(\<And>k. k \<le> i \<Longrightarrow> within_of (st' ! k) = within_of (st ! k)) \<Longrightarrow> chain st' i = chain st i"
proof (induction st i rule: chain.induct)
  case (1 st i)
  then show ?case
    by (subst (1 2) chain.simps) (auto split: option.splits)
qed

lemma chain_root: "within_of (st ! i) = None \<Longrightarrow> chain st i = [i]"
  by (subst chain.simps) simp

lemma chain_within:
  "within_of (st ! i) = Some j \<Longrightarrow> j < i \<Longrightarrow> chain st i = i # chain st j"
  by (subst chain.simps) simp

text \<open>What \<open>budget_for\<close>, \<open>charge\<close> and \<open>reached\<close> do, in terms of the chain.\<close>

definition ceiling_reading :: "ceilings \<Rightarrow> nat \<Rightarrow> ceiling_reached" where
  "ceiling_reading st k =
     \<lparr>reached_ceiling_usd = ceiling_usd (st ! k), reached_spent_usd = spent_usd (st ! k)\<rparr>"

lemma budget_for_unfold:
  "budget_for st i b =
     (if left_usd st i \<le> 0 then Inl (ceiling_reading st i)
      else case within_of (st ! i) of
             None \<Rightarrow> Inr (min b (left_usd st i))
           | Some j \<Rightarrow> if j < i then budget_for st j (min b (left_usd st i))
                       else Inr (min b (left_usd st i)))"
  by (subst budget_for.simps) (simp add: left_usd_def ceiling_reading_def Let_def split: option.split)

lemma reached_unfold:
  "reached st i =
     (if left_usd st i \<le> 0 then Some (ceiling_reading st i)
      else case within_of (st ! i) of None \<Rightarrow> None
           | Some j \<Rightarrow> if j < i then reached st j else None)"
  by (subst reached.simps) (simp add: left_usd_def ceiling_reading_def Let_def split: option.split)

lemma budget_for_cases:
  "(if \<forall>k \<in> set (chain st i). 0 < left_usd st k
    then budget_for st i b = Inr (foldl min b (map (left_usd st) (chain st i)))
    else \<exists>k \<in> set (chain st i). left_usd st k \<le> 0 \<and> budget_for st i b = Inl (ceiling_reading st k))"
proof (induction i arbitrary: b rule: less_induct)
  case (less i)
  show ?case
  proof (cases "\<exists>j < i. within_of (st ! i) = Some j")
    case True
    then obtain j where j: "j < i" "within_of (st ! i) = Some j" by auto
    with less.IH [OF j(1), of "min b (left_usd st i)"] show ?thesis
      by (auto simp: chain_within budget_for_unfold [of st i b] split: if_splits)
  next
    case False
    then have "chain st i = [i]" by (subst chain.simps) (auto split: option.splits)
    with False show ?thesis by (auto simp: budget_for_unfold [of st i b] split: option.splits)
  qed
qed

lemma budget_for_Inr_iff:
  "budget_for st i b = Inr g \<longleftrightarrow>
     (\<forall>k \<in> set (chain st i). 0 < left_usd st k) \<and> g = foldl min b (map (left_usd st) (chain st i))"
  using budget_for_cases [of st i b] by (auto split: if_splits)

lemma budget_for_Inl:
  "budget_for st i b = Inl e \<Longrightarrow>
     \<exists>k \<in> set (chain st i). left_usd st k \<le> 0 \<and> e = ceiling_reading st k"
  using budget_for_cases [of st i b] by (auto split: if_splits)

lemma foldl_min_le: "foldl min b xs \<le> (b::real)"
proof (induction xs arbitrary: b)
  case (Cons x xs)
  then show ?case using Cons.IH [of "min b x"] by simp
qed simp

lemma foldl_min_le_mem: "x \<in> set xs \<Longrightarrow> foldl min b xs \<le> (x::real)"
proof (induction xs arbitrary: b)
  case (Cons y ys)
  then show ?case using foldl_min_le [of "min b y" ys] by auto
qed simp

lemma foldl_min_pos: "0 < b \<Longrightarrow> (\<And>x. x \<in> set xs \<Longrightarrow> 0 < x) \<Longrightarrow> 0 < foldl min (b::real) xs"
  by (induction xs arbitrary: b) auto

lemma length_charge [simp]: "length (charge st i cost m) = length st"
  by (induction st i cost m rule: charge.induct)
     (subst charge.simps, auto simp: Let_def split: option.splits)

lemma charge_cell_simps [simp]:
  "ceiling_usd (charge_cell c cost m) = ceiling_usd c"
  "within_of (charge_cell c cost m) = within_of c"
  "spent_usd (charge_cell c cost m) = spent_usd c + cost"
  by (simp_all add: charge_cell_def)

lemma nth_charge:
  "i < length st \<Longrightarrow> charge st i cost m ! k =
     (if k \<in> set (chain st i) then charge_cell (st ! k) cost m else st ! k)"
proof (induction st i cost m rule: charge.induct)
  case (1 st i cost m)
  show ?case
  proof (cases "within_of (st ! i)")
    case None
    with "1.prems" show ?thesis
      by (subst charge.simps) (auto simp: chain_root nth_list_update)
  next
    case (Some j)
    show ?thesis
    proof (cases "j < i")
      case True
      let ?st' = "st[i := charge_cell (st ! i) cost m]"
      have ch: "chain ?st' j = chain st j"
        using True by (intro chain_cong) (simp add: nth_list_update)
      have "charge st i cost m = charge ?st' j cost m"
        using Some True by (subst charge.simps) simp
      moreover have "i \<notin> set (chain st j)" using True chain_le by fastforce
      ultimately show ?thesis
        using "1.IH" [OF refl Some True] "1.prems" Some True
        by (auto simp: ch chain_within nth_list_update)
    next
      case False
      with Some "1.prems" show ?thesis
        by (subst charge.simps, subst chain.simps) (auto simp: nth_list_update)
    qed
  qed
qed

lemma chain_charge [simp]: "i < length st \<Longrightarrow> chain (charge st i cost m) k = chain st k"
  by (rule chain_cong) (simp add: nth_charge)

lemma reached_cases:
  "(if \<forall>k \<in> set (chain st i). 0 < left_usd st k then reached st i = None
    else \<exists>k \<in> set (chain st i). left_usd st k \<le> 0 \<and> reached st i = Some (ceiling_reading st k))"
proof (induction i rule: less_induct)
  case (less i)
  show ?case
  proof (cases "\<exists>j < i. within_of (st ! i) = Some j")
    case True
    then obtain j where j: "j < i" "within_of (st ! i) = Some j" by auto
    with less.IH [OF j(1)] show ?thesis
      by (auto simp: chain_within reached_unfold [of st i] split: if_splits)
  next
    case False
    then have "chain st i = [i]" by (subst chain.simps) (auto split: option.splits)
    with False show ?thesis by (auto simp: reached_unfold [of st i] split: option.splits)
  qed
qed

lemma reached_None_iff: "reached st i = None \<longleftrightarrow> (\<forall>k \<in> set (chain st i). 0 < left_usd st k)"
  using reached_cases [of st i] by (auto split: if_splits)

text \<open>A budget is refused with exactly what \<open>reached\<close> answers.\<close>

lemma budget_for_Inl_iff: "budget_for st i b = Inl e \<longleftrightarrow> reached st i = Some e"
proof (induction i arbitrary: b rule: less_induct)
  case (less i)
  show ?case
    using less.IH
    by (subst budget_for_unfold, subst reached_unfold) (auto split: option.splits)
qed

lemma store_wf_create [inv_intros]:
  "store_wf st \<Longrightarrow> (\<And>j. w = Some j \<Longrightarrow> j < length st) \<Longrightarrow>
     store_wf (fst (create_spend_ceiling st usd w))"
  by (auto simp: store_wf_def create_spend_ceiling_def nth_append less_Suc_eq)

lemma store_wf_charge [inv_intros]:
  "store_wf st \<Longrightarrow> i < length st \<Longrightarrow> store_wf (charge st i cost m)"
  by (auto simp: store_wf_def nth_charge)


subsection \<open>A confirmation group's repetitions\<close>

text \<open>
  The repetitions of a group run at once, and each makes one call at a time. A run of the
  group is a sequence of three kinds of step, in any interleaving: a repetition's ceiling is
  made, a repetition asks for the budget of its next call, a call ends and is charged. A call
  may cost up to \<open>over\<close> more than the budget it was started with.
\<close>

record group_run =
  store :: ceilings
  group_id :: nat
  members :: "nat list"
  in_flight :: "nat \<Rightarrow> real option"

definition init_group :: "real \<Rightarrow> nat \<Rightarrow> group_run" where
  "init_group spend_ceiling reps =
     \<lparr>store = fst (rep_spend_ceilings [] spend_ceiling reps), group_id = 0,
      members = [], in_flight = (\<lambda>_. None)\<rparr>"

inductive group_step :: "real \<Rightarrow> nat \<Rightarrow> real \<Rightarrow> group_run \<Rightarrow> group_run \<Rightarrow> bool"
  for spend_ceiling :: real and reps :: nat and over :: real where
  open_rep:
    "length (members s) < reps \<Longrightarrow>
     snd (rep_spend_ceilings [] spend_ceiling reps) (store s) = (st', i) \<Longrightarrow>
     group_step spend_ceiling reps over s (s\<lparr>store := st', members := members s @ [i]\<rparr>)"
| start_call:
    "i \<in> set (members s) \<Longrightarrow> in_flight s i = None \<Longrightarrow>
     budget_for (store s) i session_budget = Inr budget \<Longrightarrow>
     group_step spend_ceiling reps over s (s\<lparr>in_flight := (in_flight s)(i := Some budget)\<rparr>)"
| end_call:
    "in_flight s i = Some budget \<Longrightarrow> 0 \<le> cost \<Longrightarrow> cost \<le> budget + over \<Longrightarrow>
     group_step spend_ceiling reps over s
       (s\<lparr>store := charge (store s) i cost metrics, in_flight := (in_flight s)(i := None)\<rparr>)"

inductive group_reachable :: "real \<Rightarrow> nat \<Rightarrow> real \<Rightarrow> group_run \<Rightarrow> bool"
  for spend_ceiling :: real and reps :: nat and over :: real where
  init: "group_reachable spend_ceiling reps over (init_group spend_ceiling reps)"
| step: "group_reachable spend_ceiling reps over s \<Longrightarrow>
     group_step spend_ceiling reps over s t \<Longrightarrow> group_reachable spend_ceiling reps over t"

definition rep_cell_ok :: "real \<Rightarrow> real \<Rightarrow> group_run \<Rightarrow> nat \<Rightarrow> bool" where
  "rep_cell_ok spend_ceiling over s i \<longleftrightarrow>
     i < length (store s) \<and> group_id s < i
     \<and> within_of (store s ! i) = Some (group_id s)
     \<and> ceiling_usd (store s ! i) = spend_ceiling
     \<and> spent_usd (store s ! i) \<le> spend_ceiling + over
     \<and> (\<forall>b. in_flight s i = Some b \<longrightarrow> spent_usd (store s ! i) + b \<le> spend_ceiling)"

definition group_inv :: "real \<Rightarrow> nat \<Rightarrow> real \<Rightarrow> group_run \<Rightarrow> bool" where
  "group_inv spend_ceiling reps over s \<longleftrightarrow>
     group_id s = 0 \<and> store s \<noteq> [] \<and> store_wf (store s)
     \<and> within_of (store s ! 0) = None
     \<and> ceiling_usd (store s ! 0) = group_spend_ceiling_usd spend_ceiling reps
     \<and> distinct (members s) \<and> length (members s) \<le> reps
     \<and> (\<forall>i. in_flight s i \<noteq> None \<longrightarrow> i \<in> set (members s))
     \<and> (\<forall>i \<in> set (members s). rep_cell_ok spend_ceiling over s i)
     \<and> spent_usd (store s ! 0) = (\<Sum>i \<leftarrow> members s. spent_usd (store s ! i))"

lemma group_inv_init: "0 \<le> over \<Longrightarrow> group_inv spend_ceiling reps over (init_group spend_ceiling reps)"
  by (simp add: group_inv_def init_group_def rep_spend_ceilings_def create_spend_ceiling_def
      store_wf_def)

lemma rep_chain:
  "rep_cell_ok spend_ceiling over s i \<Longrightarrow> within_of (store s ! group_id s) = None \<Longrightarrow>
     chain (store s) i = [i, group_id s]"
  by (simp add: rep_cell_ok_def chain_within chain_root)

lemma nth_append_old: "i < length xs \<Longrightarrow> (xs @ ys) ! i = xs ! i"
  by (simp add: nth_append)

lemma sum_list_charge:
  fixes f :: "'a \<Rightarrow> real"
  assumes "i \<in> set xs" "distinct xs" "\<And>k. g k = (if k = i then f k + d else f k)"
  shows "(\<Sum>k \<leftarrow> xs. g k) = (\<Sum>k \<leftarrow> xs. f k) + d"
  using assms(1,2)
proof (induction xs)
  case (Cons x xs)
  show ?case
  proof (cases "x = i")
    case True
    with Cons.prems have "sum_list (map g xs) = sum_list (map f xs)"
      by (intro arg_cong [where f = sum_list] map_cong) (auto simp: assms(3))
    with True assms(3) [of i] show ?thesis by simp
  next
    case False
    with Cons show ?thesis by (simp add: assms(3))
  qed
qed simp

lemma group_inv_open:
  assumes inv: "group_inv spend_ceiling reps over s" and "0 \<le> over" "0 \<le> spend_ceiling"
    and len: "length (members s) < reps"
    and mk: "snd (rep_spend_ceilings [] spend_ceiling reps) (store s) = (st', i)"
  shows "group_inv spend_ceiling reps over (s\<lparr>store := st', members := members s @ [i]\<rparr>)"
proof -
  from mk have i: "i = length (store s)"
    and st': "st' = fst (create_spend_ceiling (store s) spend_ceiling (Some 0))"
    by (auto simp: rep_spend_ceilings_def create_spend_ceiling_def)
  have old: "st' ! k = store s ! k" if "k < length (store s)" for k
    using that by (simp add: st' create_spend_ceiling_def nth_append)
  have mem: "k < length (store s)" if "k \<in> set (members s)" for k
    using inv that by (auto simp: group_inv_def rep_cell_ok_def)
  have new: "st' ! i = \<lparr>ceiling_usd = spend_ceiling, within_of = Some 0, spent_usd = 0,
      tokens = \<lparr>in_tokens = 0, out_tokens = 0\<rparr>\<rparr>" and l: "length st' = Suc (length (store s))"
    by (simp_all add: st' i create_spend_ceiling_def)
  have fresh: "i \<notin> set (members s)" and nf: "in_flight s i = None"
    using inv mem by (fastforce simp: group_inv_def i)+
  have cells: "rep_cell_ok spend_ceiling over (s\<lparr>store := st', members := members s @ [i]\<rparr>) k"
    if "k \<in> set (members s @ [i])" for k
    using that inv new nf mem l assms(2,3)
    by (auto simp: rep_cell_ok_def group_inv_def old i intro: less_SucI)
  have sums: "(\<Sum>k \<leftarrow> members s. spent_usd (st' ! k)) = (\<Sum>k \<leftarrow> members s. spent_usd (store s ! k))"
    using mem old by (intro arg_cong [where f = sum_list] map_cong) auto
  have "store_wf st'"
    unfolding st' using inv by (intro store_wf_create) (auto simp: group_inv_def)
  with inv len fresh cells sums new l show ?thesis
    using old [of 0] by (auto simp: group_inv_def)
qed

lemma group_inv_start:
  assumes inv: "group_inv spend_ceiling reps over s"
    and i: "i \<in> set (members s)" and b: "budget_for (store s) i session_budget = Inr budget"
  shows "group_inv spend_ceiling reps over (s\<lparr>in_flight := (in_flight s)(i := Some budget)\<rparr>)"
proof -
  have cell: "rep_cell_ok spend_ceiling over s i" and root: "within_of (store s ! group_id s) = None"
    using inv i by (auto simp: group_inv_def)
  have "budget \<le> left_usd (store s) i"
    using b by (auto simp: budget_for_Inr_iff intro: foldl_min_le_mem)
  with cell have "spent_usd (store s ! i) + budget \<le> spend_ceiling"
    by (simp add: left_usd_def rep_cell_ok_def)
  with inv i show ?thesis
    by (auto simp: group_inv_def rep_cell_ok_def)
qed

lemma group_inv_end:
  assumes inv: "group_inv spend_ceiling reps over s"
    and fl: "in_flight s i = Some budget" and cost: "0 \<le> cost" "cost \<le> budget + over"
  shows "group_inv spend_ceiling reps over
           (s\<lparr>store := charge (store s) i cost metrics, in_flight := (in_flight s)(i := None)\<rparr>)"
proof -
  let ?st = "charge (store s) i cost metrics"
  have i: "i \<in> set (members s)" and root: "within_of (store s ! group_id s) = None"
    and g: "group_id s = 0" and d: "distinct (members s)"
    using inv fl by (auto simp: group_inv_def)
  have cell: "rep_cell_ok spend_ceiling over s i" using inv i by (simp add: group_inv_def)
  then have il: "i < length (store s)" and i0: "0 < i"
    and bud: "spent_usd (store s ! i) + budget \<le> spend_ceiling"
    using fl g by (auto simp: rep_cell_ok_def)
  have nth: "?st ! k = (if k = i \<or> k = 0 then charge_cell (store s ! k) cost metrics else store s ! k)" for k
    using nth_charge [OF il, of cost metrics k] rep_chain [OF cell root] g by auto
  have pos: "0 < k" if "k \<in> set (members s)" for k
    using inv that by (auto simp: group_inv_def rep_cell_ok_def)
  have "(\<Sum>k \<leftarrow> members s. spent_usd (?st ! k)) = (\<Sum>k \<leftarrow> members s. if k = i then spent_usd (store s ! k) + cost else spent_usd (store s ! k))"
    using pos by (intro arg_cong [where f = sum_list] map_cong) (auto simp: nth)
  also have "\<dots> = (\<Sum>k \<leftarrow> members s. spent_usd (store s ! k)) + cost"
    by (rule sum_list_charge [OF i d]) simp
  finally have sums: "(\<Sum>k \<leftarrow> members s. spent_usd (?st ! k)) = spent_usd (?st ! 0)"
    using inv by (simp add: nth group_inv_def)
  have "store_wf ?st" using inv il by (intro store_wf_charge) (simp_all add: group_inv_def)
  moreover have "?st \<noteq> []" using il by (metis length_charge list.size(3) not_less_zero)
  ultimately show ?thesis
    using inv sums bud cost pos g
    by (auto simp: group_inv_def rep_cell_ok_def nth)
qed

lemma group_step_inv:
  "group_step spend_ceiling reps over s t \<Longrightarrow> 0 \<le> over \<Longrightarrow> 0 \<le> spend_ceiling \<Longrightarrow>
     group_inv spend_ceiling reps over s \<Longrightarrow> group_inv spend_ceiling reps over t"
  by (induction rule: group_step.induct) (auto intro: group_inv_open group_inv_start group_inv_end)

lemma group_reachable_inv:
  "group_reachable spend_ceiling reps over s \<Longrightarrow> 0 \<le> over \<Longrightarrow> 0 \<le> spend_ceiling \<Longrightarrow>
     group_inv spend_ceiling reps over s"
  by (induction rule: group_reachable.induct) (auto intro: group_inv_init group_step_inv)

lemma sum_list_le_bound:
  "(\<And>x. x \<in> set xs \<Longrightarrow> f x \<le> (c::real)) \<Longrightarrow> (\<Sum>x \<leftarrow> xs. f x) \<le> real (length xs) * c"
proof (induction xs)
  case (Cons x xs)
  then have "f x \<le> c" and "(\<Sum>x \<leftarrow> xs. f x) \<le> real (length xs) * c" by auto
  then show ?case by (simp add: algebra_simps)
qed simp


subsection \<open>Properties\<close>

text \<open>C9: however the repetitions of a group interleave, the group's ceiling has been charged
  exactly what its repetitions have been charged, each repetition overruns its own ceiling by
  at most what one call overran its budget by, and the group overruns its ceiling by at most
  that much per repetition; so where every call keeps to its budget, neither the group nor a
  repetition ever spends more than its ceiling.\<close>

theorem group_spend_bounded:
  assumes "group_reachable spend_ceiling reps over s" and "0 \<le> spend_ceiling" and "0 \<le> over"
  shows "spent_usd (store s ! group_id s) = (\<Sum>i \<leftarrow> members s. spent_usd (store s ! i))
    \<and> (\<forall>i \<in> set (members s). spent_usd (store s ! i) \<le> ceiling_usd (store s ! i) + over)
    \<and> spent_usd (store s ! group_id s)
        \<le> ceiling_usd (store s ! group_id s) + real (length (members s)) * over
    \<and> length (members s) \<le> reps"
proof -
  have inv: "group_inv spend_ceiling reps over s"
    using assms by (intro group_reachable_inv)
  then have rep: "spent_usd (store s ! i) \<le> spend_ceiling + over"
      "ceiling_usd (store s ! i) = spend_ceiling" if "i \<in> set (members s)" for i
    using that by (auto simp: group_inv_def rep_cell_ok_def)
  have "spent_usd (store s ! 0) \<le> real (length (members s)) * (spend_ceiling + over)"
    using inv rep sum_list_le_bound [of "members s" "\<lambda>i. spent_usd (store s ! i)"]
    by (simp add: group_inv_def)
  also have "\<dots> \<le> real reps * spend_ceiling + real (length (members s)) * over"
    using inv assms(2) by (simp add: group_inv_def distrib_left mult_right_mono)
  finally show ?thesis
    using inv rep by (auto simp: group_inv_def group_spend_ceiling_usd_def mult.commute)
qed

lemma group_spend_bounded_witness:
  "\<exists>s :: group_run. members s = [1] \<and> spent_usd (store s ! 0) = 3
     \<and> spent_usd (store s ! group_id s) = (\<Sum>i \<leftarrow> members s. spent_usd (store s ! i))"
proof -
  define zero where "zero = \<lparr>in_tokens = 0, out_tokens = 0\<rparr>"
  define cell where "cell w x = \<lparr>ceiling_usd = 2, within_of = w, spent_usd = x, tokens = zero\<rparr>"
    for w and x :: real
  define gr where "gr x ms f = \<lparr>store = cell None x # map (\<lambda>_. cell (Some 0) x) ms, group_id = 0,
      members = ms, in_flight = f\<rparr>" for x ms f
  note ev = gr_def cell_def zero_def
  have "init_group 2 1 = gr 0 [] (\<lambda>_. None)"
    by (simp add: ev init_group_def rep_spend_ceilings_def create_spend_ceiling_def
        group_spend_ceiling_usd_def)
  then have r0: "group_reachable 2 1 1 (gr 0 [] (\<lambda>_. None))"
    using group_reachable.init [of 2 1 1] by simp
  have "group_step 2 1 1 (gr 0 [] (\<lambda>_. None)) (gr 0 [1] (\<lambda>_. None))"
    using group_step.open_rep [of "gr 0 [] (\<lambda>_. None)" 1 2 "store (gr 0 [1] (\<lambda>_. None))" 1 1]
    by (simp add: ev rep_spend_ceilings_def create_spend_ceiling_def)
  with r0 have r1: "group_reachable 2 1 1 (gr 0 [1] (\<lambda>_. None))" by (rule group_reachable.step)
  have "budget_for (store (gr 0 [1] (\<lambda>_. None))) 1 5 = Inr 2"
    by (simp add: ev budget_for.simps)
  then have "group_step 2 1 1 (gr 0 [1] (\<lambda>_. None)) (gr 0 [1] ((\<lambda>_. None)(1 := Some 2)))"
    using group_step.start_call [of 1 "gr 0 [1] (\<lambda>_. None)" 5 2 2 1 1] by (simp add: ev)
  with r1 have r2: "group_reachable 2 1 1 (gr 0 [1] ((\<lambda>_. None)(1 := Some 2)))"
    by (rule group_reachable.step)
  have "group_step 2 1 1 (gr 0 [1] ((\<lambda>_. None)(1 := Some 2))) (gr 3 [1] (\<lambda>_. None))"
    using group_step.end_call [of "gr 0 [1] ((\<lambda>_. None)(1 := Some 2))" 1 2 3 1 2 1 None]
    by (simp add: ev charge.simps charge_cell_def)
  with r2 have r3: "group_reachable 2 1 1 (gr 3 [1] (\<lambda>_. None))" by (rule group_reachable.step)
  have "spent_usd (store (gr 3 [1] (\<lambda>_. None)) ! group_id (gr 3 [1] (\<lambda>_. None)))
      = (\<Sum>i \<leftarrow> members (gr 3 [1] (\<lambda>_. None)). spent_usd (store (gr 3 [1] (\<lambda>_. None)) ! i))"
    using group_spend_bounded [OF r3] by simp
  then show ?thesis
    by (intro exI [of _ "gr 3 [1] (\<lambda>_. None)"]) (simp add: ev)
qed

lemma budget_for_result:
  "(reached st i = None \<longleftrightarrow> is_ok (budget_for st i b))
   \<and> (\<forall>e. budget_for st i b = Inl e \<longleftrightarrow> reached st i = Some e)
   \<and> (reached st i = None \<longrightarrow>
        budget_for st i b = Inr (Min (insert b (left_usd st ` set (chain st i)))))"
proof -
  have ins: "Min (insert b (insert x A)) = Min (insert (min b x) A)" if "finite A" for b x :: real and A
    using that by (cases "A = {}") (auto simp: min.assoc)
  have fm: "foldl min b xs = Min (insert b (set xs))" for b :: real and xs
    by (induction xs arbitrary: b) (simp, simp only: foldl.simps list.set ins [OF finite_set])
  have "is_ok (budget_for st i b) \<longleftrightarrow> (\<forall>k \<in> set (chain st i). 0 < left_usd st k)"
    using budget_for_cases [of st i b] by (auto split: if_splits)
  then show ?thesis
    using budget_for_Inl_iff budget_for_Inr_iff [of st i b] reached_None_iff [of st i]
    by (auto simp: fm)
qed

text \<open>\<open>budgetFor\<close> grants a budget exactly when \<open>reached\<close> answers nothing, and refuses with
  exactly what \<open>reached\<close> answers; a budget it grants is the smallest of the session's own budget
  and what each ceiling of the chain has left, so it never exceeds any of them. A charge adds its cost
  to the ceiling it is made on and to every ceiling that one sits within, once each, adds the call's
  tokens there only when the call reported metrics, and leaves every other ceiling as it was.\<close>

theorem charge_exact:
  "((reached st i = None \<longleftrightarrow> is_ok (budget_for st i b))
   \<and> (\<forall>e. budget_for st i b = Inl e \<longleftrightarrow> reached st i = Some e)
   \<and> (reached st i = None \<longrightarrow>
        budget_for st i b = Inr (Min (insert b (left_usd st ` set (chain st i))))))
   \<and> (i < length st \<longrightarrow>
    distinct (chain st i) \<and> length (charge st i cost metrics) = length st \<and>
    (\<forall>k. charge st i cost metrics ! k =
       (if k \<in> set (chain st i)
        then (st ! k)\<lparr>spent_usd := spent_usd (st ! k) + cost,
                      tokens := (case metrics of None \<Rightarrow> tokens (st ! k)
                                 | Some m \<Rightarrow> add_tokens (tokens (st ! k)) m)\<rparr>
        else st ! k)))"
  using budget_for_result [of st i b] by (simp add: distinct_chain nth_charge charge_cell_def)

lemma charge_exact_witness:
  "(\<exists>st. charge st 1 4 None ! 0 = (st ! 0)\<lparr>spent_usd := 4\<rparr>) \<and> (\<exists>st. reached st 1 = None \<and> budget_for st 1 5 = Inr 2)"
proof -
  let ?st = "fst (create_spend_ceiling (fst (create_spend_ceiling [] 2 None)) 3 (Some 0))"
  have "1 < length ?st" by (simp add: create_spend_ceiling_def)
  with charge_exact [of ?st 1 5 4 None]
  have c: "charge ?st 1 4 None ! 0 =
     (if 0 \<in> set (chain ?st 1)
      then (?st ! 0)\<lparr>spent_usd := spent_usd (?st ! 0) + 4, tokens := tokens (?st ! 0)\<rparr>
      else ?st ! 0)"
    by simp
  have "reached ?st 1 = None"
    by (simp add: create_spend_ceiling_def reached.simps)
  moreover have "budget_for ?st 1 5 = Inr 2"
    by (simp add: create_spend_ceiling_def budget_for.simps)
  ultimately have "\<exists>st. reached st 1 = None \<and> budget_for st 1 5 = Inr 2" by blast
  moreover from c have "charge ?st 1 4 None ! 0 = (?st ! 0)\<lparr>spent_usd := 4\<rparr>"
    by (simp add: chain.simps create_spend_ceiling_def)
  ultimately show ?thesis by blast
qed

end
