(* ===== verification/SessionCalls.thy ===== *)
theory SessionCalls
  imports SpendCeiling
begin

text \<open>
  The accounting of one provider session, \<open>session-call-accounting.ts\<close>: each call the
  provider reports carries the session's running total, of which the ceiling is charged
  what the call added.

  The session holds a \<open>SpendCeiling\<close> by its interface only, so the accounting takes the
  ceiling's operations as a record \<open>ceiling_ops\<close> over the ceiling's own state. The locale
  \<open>spend_ceiling\<close> is what a session relies on; the cells of \<open>SpendCeiling\<close> provide it.
\<close>

record 's ceiling_ops =
  op_budget_for :: "'s \<Rightarrow> real \<Rightarrow> ceiling_reached + real"
  op_charge :: "'s \<Rightarrow> real \<Rightarrow> call_metrics option \<Rightarrow> 's"

text \<open>A provider call of a transcript carries its metrics or none.\<close>

type_synonym provider_call = "call_metrics option"

record session_calls =
  calls_spent_usd :: real
  last_reported_total :: bool
  provider_calls :: "provider_call list"

record session_spend =
  sp_cost_usd :: "real option"
  sp_provider_calls :: "provider_call list"

definition new_session_calls :: session_calls where
  "new_session_calls = \<lparr>calls_spent_usd = 0, last_reported_total = True, provider_calls = []\<rparr>"

definition session_spend_usd :: "claude_envelope \<Rightarrow> real \<Rightarrow> real" where
  "session_spend_usd e spent = (case total_cost_usd e of None \<Rightarrow> spent | Some t \<Rightarrow> t)"

definition provider_call :: "claude_envelope \<Rightarrow> real \<Rightarrow> provider_call" where
  "provider_call e spent =
     map_option (\<lambda>m. m\<lparr>m_cost_usd := session_spend_usd e spent - spent\<rparr>) (read_claude_call_metrics e)"

definition record_call ::
  "'s ceiling_ops \<Rightarrow> 's \<times> session_calls \<Rightarrow> claude_envelope \<Rightarrow> 's \<times> session_calls" where
  "record_call ops sc e =
     (let (s, calls) = sc; spent = calls_spent_usd calls
      in (op_charge ops s (session_spend_usd e spent - spent) (read_claude_call_metrics e),
          calls\<lparr>provider_calls := provider_calls calls @ [provider_call e spent],
                calls_spent_usd := session_spend_usd e spent,
                last_reported_total := (total_cost_usd e \<noteq> None)\<rparr>))"

definition record_unreported :: "session_calls \<Rightarrow> session_calls" where
  "record_unreported calls =
     calls\<lparr>provider_calls := provider_calls calls @ [None], last_reported_total := False\<rparr>"

definition reading :: "session_calls \<Rightarrow> session_spend" where
  "reading calls =
     \<lparr>sp_cost_usd = (if last_reported_total calls then Some (calls_spent_usd calls) else None),
      sp_provider_calls = provider_calls calls\<rparr>"

definition remaining_budget :: "real \<Rightarrow> real \<Rightarrow> string + real" where
  "remaining_budget limit_usd spent =
     (let remaining = limit_usd - spent
      in if remaining \<le> 0 then Inl ''Claude session exhausted its budget'' else Inr remaining)"

text \<open>The calls of a session in order: \<open>None\<close> is a call that failed before it reported.\<close>

fun run_calls ::
  "'s ceiling_ops \<Rightarrow> 's \<times> session_calls \<Rightarrow> claude_envelope option list \<Rightarrow> 's \<times> session_calls" where
  "run_calls ops sc [] = sc"
| "run_calls ops sc (Some e # es) = run_calls ops (record_call ops sc e) es"
| "run_calls ops sc (None # es) = run_calls ops (fst sc, record_unreported (snd sc)) es"

lemma record_call_fst:
  "fst (record_call ops sc e) =
     op_charge ops (fst sc) (session_spend_usd e (calls_spent_usd (snd sc)) - calls_spent_usd (snd sc))
       (read_claude_call_metrics e)"
  by (simp add: record_call_def case_prod_beta Let_def)

lemma record_call_snd:
  "snd (record_call ops sc e) =
     (snd sc)\<lparr>provider_calls := provider_calls (snd sc) @ [provider_call e (calls_spent_usd (snd sc))],
              calls_spent_usd := session_spend_usd e (calls_spent_usd (snd sc)),
              last_reported_total := (total_cost_usd e \<noteq> None)\<rparr>"
  by (simp add: record_call_def case_prod_beta Let_def)

lemmas record_call_simps = record_call_fst record_call_snd record_unreported_def

subsection \<open>What a session relies on\<close>

locale spend_ceiling =
  fixes ops :: "'s ceiling_ops"
    and ok :: "'s \<Rightarrow> bool"
    and spent :: "'s \<Rightarrow> real"
    and limit :: "'s \<Rightarrow> real"
  assumes charge_ok: "ok s \<Longrightarrow> ok (op_charge ops s cost m)"
    and charge_spent: "ok s \<Longrightarrow> spent (op_charge ops s cost m) = spent s + cost"
    and charge_limit: "ok s \<Longrightarrow> limit (op_charge ops s cost m) = limit s"
    and budget_le: "ok s \<Longrightarrow> op_budget_for ops s b = Inr g \<Longrightarrow> g \<le> b"
    and budget_within: "ok s \<Longrightarrow> op_budget_for ops s b = Inr g \<Longrightarrow> spent s + g \<le> limit s"
    and budget_pos: "ok s \<Longrightarrow> op_budget_for ops s b = Inr g \<Longrightarrow> 0 < b \<Longrightarrow> 0 < g"
begin

lemma record_call_ok: "ok (fst sc) \<Longrightarrow> ok (fst (record_call ops sc e))"
  by (simp add: record_call_simps charge_ok)

lemma record_call_spent:
  "ok (fst sc) \<Longrightarrow> spent (fst (record_call ops sc e)) - calls_spent_usd (snd (record_call ops sc e))
     = spent (fst sc) - calls_spent_usd (snd sc)"
  by (simp add: record_call_simps charge_spent)

lemma record_call_limit: "ok (fst sc) \<Longrightarrow> limit (fst (record_call ops sc e)) = limit (fst sc)"
  by (simp add: record_call_simps charge_limit)

lemma run_calls_ok: "ok (fst sc) \<Longrightarrow> ok (fst (run_calls ops sc es))"
proof (induction es arbitrary: sc)
  case (Cons e es)
  then show ?case
    by (cases e) (auto simp: record_call_ok)
qed simp

lemma run_calls_spent:
  "ok (fst sc) \<Longrightarrow> spent (fst (run_calls ops sc es)) - calls_spent_usd (snd (run_calls ops sc es))
     = spent (fst sc) - calls_spent_usd (snd sc)"
proof (induction es arbitrary: sc)
  case (Cons e es)
  then show ?case
    by (cases e) (auto simp: record_call_ok record_call_spent record_unreported_def)
qed simp

end

definition cell_ops :: "nat \<Rightarrow> ceilings ceiling_ops" where
  "cell_ops i = \<lparr>op_budget_for = (\<lambda>st. budget_for st i), op_charge = (\<lambda>st. charge st i)\<rparr>"

interpretation cell: spend_ceiling "cell_ops i" "\<lambda>st. i < length st"
  "\<lambda>st. spent_usd (st ! i)" "\<lambda>st. ceiling_usd (st ! i)" for i
proof unfold_locales
  fix st :: ceilings and b g :: real
  assume "op_budget_for (cell_ops i) st b = Inr g"
  then have g: "g = foldl min b (map (left_usd st) (chain st i))"
    and pos: "\<forall>k \<in> set (chain st i). 0 < left_usd st k"
    by (auto simp: cell_ops_def budget_for_Inr_iff)
  show "g \<le> b" by (simp add: g foldl_min_le)
  have "g \<le> left_usd st i" by (auto simp: g intro: foldl_min_le_mem)
  then show "spent_usd (st ! i) + g \<le> ceiling_usd (st ! i)" by (simp add: left_usd_def)
  show "0 < g" if "0 < b" using that pos by (auto simp: g intro!: foldl_min_pos)
qed (auto simp: cell_ops_def nth_charge)

subsection \<open>The readings of a session\<close>

text \<open>The total the session last reported, zero before it reported one.\<close>

definition last_total :: "claude_envelope option list \<Rightarrow> real" where
  "last_total es =
     (case find_last (\<lambda>t. t \<noteq> None) (map (\<lambda>e. Option.bind e total_cost_usd) es) of
        Some (Some t) \<Rightarrow> t | _ \<Rightarrow> 0)"

lemma run_calls_append:
  "run_calls ops sc (xs @ ys) = run_calls ops (run_calls ops sc xs) ys"
  by (induction ops sc xs rule: run_calls.induct) auto

lemma run_calls_snoc:
  "run_calls ops sc (es @ [e]) =
     (case e of
        None \<Rightarrow> (fst (run_calls ops sc es), record_unreported (snd (run_calls ops sc es)))
      | Some x \<Rightarrow> record_call ops (run_calls ops sc es) x)"
  by (cases e) (simp_all add: run_calls_append)

lemma run_calls_last_total:
  "calls_spent_usd (snd (run_calls ops (s, new_session_calls) es)) = last_total es"
proof (induction es rule: rev_induct)
  case Nil
  show ?case by (simp add: new_session_calls_def last_total_def find_last_def)
next
  case (snoc e es)
  then show ?case
    by (cases e)
       (auto simp: run_calls_snoc record_call_simps session_spend_usd_def
          last_total_def split: option.split)
qed

lemma run_calls_reported:
  "last_reported_total (snd (run_calls ops (s, new_session_calls) es)) \<longleftrightarrow>
     es = [] \<or> (\<exists>e. last es = Some e \<and> total_cost_usd e \<noteq> None)"
proof (induction es rule: rev_induct)
  case Nil
  show ?case by (simp add: new_session_calls_def)
next
  case (snoc e es)
  then show ?case
    by (cases e) (auto simp: run_calls_snoc record_call_simps)
qed

lemma run_calls_length:
  "length (provider_calls (snd (run_calls ops sc es))) = length (provider_calls (snd sc)) + length es"
  by (induction ops sc es rule: run_calls.induct)
     (auto simp: record_call_simps)

text \<open>The cost a transcript states for its calls, where each call states one.\<close>

definition stated_cost :: "provider_call list \<Rightarrow> real" where
  "stated_cost calls = (\<Sum>c \<leftarrow> calls. case c of None \<Rightarrow> 0 | Some m \<Rightarrow> m_cost_usd m)"

definition fully_metered :: "claude_envelope option \<Rightarrow> bool" where
  "fully_metered e = (case e of None \<Rightarrow> False | Some x \<Rightarrow> read_claude_call_metrics x \<noteq> None)"

lemma stated_cost_append [simp]: "stated_cost (xs @ ys) = stated_cost xs + stated_cost ys"
  by (simp add: stated_cost_def)

lemma run_calls_stated:
  assumes "\<forall>e \<in> set es. fully_metered e"
  shows "stated_cost (provider_calls (snd (run_calls ops (s, new_session_calls) es))) = last_total es"
  using assms
proof (induction es rule: rev_induct)
  case Nil
  show ?case by (simp add: new_session_calls_def last_total_def find_last_def stated_cost_def)
next
  case (snoc e es)
  from snoc.prems obtain x m where e: "e = Some x" and m: "read_claude_call_metrics x = Some m"
    by (cases e) (auto simp: fully_metered_def)
  let ?sc = "run_calls ops (s, new_session_calls) es"
  have "provider_calls (snd (record_call ops ?sc x))
      = provider_calls (snd ?sc) @ [Some (m\<lparr>m_cost_usd := session_spend_usd x (calls_spent_usd (snd ?sc))
          - calls_spent_usd (snd ?sc)\<rparr>)]"
    by (simp add: record_call_simps provider_call_def m)
  with snoc read_metrics_Some [OF m] show ?case
    by (simp add: e run_calls_snoc run_calls_last_total session_spend_usd_def stated_cost_def
        last_total_def)
qed

text \<open>Whatever calls a session makes, in whatever order they report, leave out their total or
  fail unreported, the ceiling it charges has been charged exactly the total the session last
  reported, which is the session's own spend; the spend it reads out is that total, or unknown
  exactly when the last call left it out; and where every call carries metrics, the costs written
  to the transcript add up to the same total.\<close>

theorem session_charges_telescope:
  fixes es :: "claude_envelope option list"
  assumes i: "i < length st" and run: "run_calls (cell_ops i) (st, new_session_calls) es = (st', calls)"
  shows "spent_usd (st' ! i) = spent_usd (st ! i) + last_total es
    \<and> calls_spent_usd calls = last_total es
    \<and> length (provider_calls calls) = length es
    \<and> sp_cost_usd (reading calls) =
        (if es = [] \<or> (\<exists>e. last es = Some e \<and> total_cost_usd e \<noteq> None)
         then Some (last_total es) else None)
    \<and> ((\<forall>e \<in> set es. fully_metered e) \<longrightarrow> stated_cost (provider_calls calls) = last_total es)"
proof -
  have calls: "calls = snd (run_calls (cell_ops i) (st, new_session_calls) es)"
    and st': "st' = fst (run_calls (cell_ops i) (st, new_session_calls) es)"
    using run by simp_all
  have tot: "calls_spent_usd calls = last_total es"
    by (simp only: calls run_calls_last_total)
  have "spent_usd (st' ! i) = spent_usd (st ! i) + calls_spent_usd calls"
    using cell.run_calls_spent [of i "(st, new_session_calls)" es] i
    by (simp add: calls st' new_session_calls_def)
  with tot show ?thesis
    using run_calls_length [of "cell_ops i" "(st, new_session_calls)" es]
      run_calls_reported [of "cell_ops i" st es] run_calls_stated [of es "cell_ops i" st]
    by (simp add: calls reading_def new_session_calls_def)
qed

definition sample_envelope :: "real option \<Rightarrow> claude_envelope" where
  "sample_envelope cost =
     \<lparr>duration_api_ms = None, duration_ms = None, errors = None, is_error = None,
      model_usage = None, num_turns = Some 1, result = None, session_id = ''s'',
      structured_output = None, terminal_reason = None, total_cost_usd = cost,
      usage = Some \<lparr>cache_creation_input_tokens = 1, cache_read_input_tokens = 2,
                     input_tokens = 3, output_tokens = 4\<rparr>\<rparr>"

lemma session_charges_telescope_witness:
  "\<exists>st :: ceilings. spent_usd (st ! 0) = 5"
proof -
  let ?st = "fst (create_spend_ceiling [] 10 None)"
  let ?es = "[Some (sample_envelope (Some 2)), None, Some (sample_envelope (Some 5))]"
  obtain st' calls where r: "run_calls (cell_ops 0) (?st, new_session_calls) ?es = (st', calls)"
    by (cases "run_calls (cell_ops 0) (?st, new_session_calls) ?es")
  have "0 < length ?st" by (simp add: create_spend_ceiling_def)
  from session_charges_telescope [OF this r]
  have "spent_usd (st' ! 0) = spent_usd (?st ! 0) + last_total ?es" by blast
  then have "spent_usd (st' ! 0) = 5"
    by (simp add: create_spend_ceiling_def last_total_def find_last_def sample_envelope_def)
  then show ?thesis by blast
qed

end
