(* ===== verification/Conversation.thy ===== *)
theory Conversation
  imports SessionCalls
begin

text \<open>
  A workflow stage as a conversation, \<open>workflow.ts\<close>: the worker session is resumed turn
  by turn, a question it ends a turn on goes to the Product Owner session
  (\<open>product-owner.ts\<close>), and a turn that reports COMPLETE ends the stage. Both sessions
  account for their calls with \<open>SessionCalls\<close> against one spend ceiling.

  The provider is a parameter: a function from the state of the world and a request to the
  next state and what the call threw or wrote. So are the parsers of what it wrote. The
  clock is read off the world.
\<close>

subsection \<open>Turns, requests and transcripts\<close>

datatype turn_status = QUESTION | COMPLETE

record stage_turn =
  turn_message :: string
  turn_status :: turn_status

record stage_exchange =
  agent :: stage_turn
  product_owner_answer :: "string option"

record stage_transcript =
  tr_stage :: string
  tr_session_id :: string
  tr_cost_usd :: real
  tr_provider_calls :: "provider_call list"
  tr_exchanges :: "stage_exchange list"

text \<open>The schemas of a turn and of an answer, over the parsed JSON.\<close>

definition stage_turn_schema :: "json \<Rightarrow> string + stage_turn" where
  "stage_turn_schema j =
     (case j of
        JObj kvs \<Rightarrow>
          (case (map_of kvs ''message'', map_of kvs ''status'') of
             (Some (JStr msg), Some (JStr st)) \<Rightarrow>
               (if msg = [] then Inl ''message is empty''
                else if st = ''QUESTION'' then Inr \<lparr>turn_message = msg, turn_status = QUESTION\<rparr>
                else if st = ''COMPLETE'' then Inr \<lparr>turn_message = msg, turn_status = COMPLETE\<rparr>
                else Inl ''status is not one of the two'')
           | _ \<Rightarrow> Inl ''not a stage turn'')
      | _ \<Rightarrow> Inl ''not an object'')"

definition product_answer_schema :: "json \<Rightarrow> string + string" where
  "product_answer_schema j =
     (case j of
        JObj kvs \<Rightarrow>
          (case map_of kvs ''answer'' of
             Some (JStr a) \<Rightarrow> if a = [] then Inl ''answer is empty'' else Inr a
           | _ \<Rightarrow> Inl ''not a product answer'')
      | _ \<Rightarrow> Inl ''not an object'')"

text \<open>What the arguments of a provider call are built from.\<close>

datatype access = Unrestricted | Sealed

record claude_request =
  rq_access :: access
  rq_session_id :: string
  rq_resume :: bool
  rq_budget_usd :: real
  rq_effort :: "string option"
  rq_model :: string
  rq_settings_overlay :: "string option"
  rq_setup :: "string option"
  rq_prompt :: string

record ('w, 's) deps =
  provider :: "'w \<Rightarrow> claude_request \<Rightarrow> 'w \<times> (call_failure + string)"
  parse_envelope :: "string \<Rightarrow> string + claude_envelope"
  json_parse :: "string \<Rightarrow> string + json"
  clock :: "'w \<Rightarrow> nat"
  ceiling_ops :: "'s ceiling_ops"

text \<open>What a step of a conversation can throw.\<close>

datatype failure =
    CallFailed call_failure
  | CeilingReached ceiling_reached
  | Message string

record owner_state =
  owner_session_id :: string
  owner_started :: bool
  owner_calls :: session_calls

record turn_event =
  ev_stage :: string
  ev_elapsed_ms :: nat
  ev_spent_usd :: real

record ('w, 's) world =
  outside :: 'w
  shared_ceiling :: 's
  owner :: owner_state
  turn_events :: "turn_event list"

definition nl :: string where
  "nl = [CHR 0x0A]"

subsection \<open>The Product Owner\<close>

record owner_config =
  po_model :: string
  po_effort :: "string option"
  po_session_budget_usd :: real
  po_task :: string
  po_product_brief :: string

definition owner_prompt :: "owner_config \<Rightarrow> bool \<Rightarrow> string \<Rightarrow> string \<Rightarrow> string" where
  "owner_prompt cfg started stage question =
     (if started then ''The '' @ stage @ '' session asks:'' @ nl @ nl @ question
      else ''Feature request:'' @ nl @ nl @ po_task cfg @ nl @ nl
        @ ''Product brief:'' @ nl @ nl @ po_product_brief cfg @ nl @ nl
        @ ''The '' @ stage @ '' session asks:'' @ nl @ nl @ question)"

text \<open>
  \<open>readProductOwnerEnvelope\<close>: a failure the session states is recorded as a call before it
  is thrown on; any other failure is thrown on as it is.
\<close>

definition read_product_owner_envelope ::
  "('w, 's) deps \<Rightarrow> claude_request \<Rightarrow> ('w, 's) world \<Rightarrow>
     ('w, 's) world \<times> (failure + claude_envelope)" where
  "read_product_owner_envelope d rq w =
     (let (o', out) = provider d (outside w) rq;
          w' = w\<lparr>outside := o'\<rparr>
      in case bind_res out (read_claude_envelope (parse_envelope d)) of
           Inr e \<Rightarrow> (w', Inr e)
         | Inl (ClaudeSessionError e msg) \<Rightarrow>
             (let (s, calls) = record_call (ceiling_ops d) (shared_ceiling w', owner_calls (owner w')) e
              in (w'\<lparr>shared_ceiling := s, owner := (owner w')\<lparr>owner_calls := calls\<rparr>\<rparr>,
                  Inl (CallFailed (ClaudeSessionError e msg))))
         | Inl (OtherError msg) \<Rightarrow> (w', Inl (CallFailed (OtherError msg))))"

definition product_owner_ask ::
  "('w, 's) deps \<Rightarrow> owner_config \<Rightarrow> string \<Rightarrow> string \<Rightarrow> ('w, 's) world \<Rightarrow>
     ('w, 's) world \<times> (failure + string)" where
  "product_owner_ask d cfg stage question w =
     (case remaining_budget (po_session_budget_usd cfg) (calls_spent_usd (owner_calls (owner w))) of
        Inl msg \<Rightarrow> (w, Inl (Message msg))
      | Inr left \<Rightarrow>
          (case op_budget_for (ceiling_ops d) (shared_ceiling w) left of
             Inl r \<Rightarrow> (w, Inl (CeilingReached r))
           | Inr budget \<Rightarrow>
               (let rq = \<lparr>rq_access = Sealed, rq_session_id = owner_session_id (owner w),
                          rq_resume = owner_started (owner w), rq_budget_usd = budget,
                          rq_effort = po_effort cfg, rq_model = po_model cfg,
                          rq_settings_overlay = None, rq_setup = None,
                          rq_prompt = owner_prompt cfg (owner_started (owner w)) stage question\<rparr>
                in case read_product_owner_envelope d rq w of
                     (w', Inl f) \<Rightarrow> (w', Inl f)
                   | (w', Inr e) \<Rightarrow>
                       (let (s, calls) = record_call (ceiling_ops d)
                              (shared_ceiling w', owner_calls (owner w')) e;
                            w'' = w'\<lparr>shared_ceiling := s,
                                     owner := \<lparr>owner_session_id = session_id e,
                                               owner_started = True, owner_calls = calls\<rparr>\<rparr>
                        in case parse_structured_payload (json_parse d) product_answer_schema e of
                             Inl msg \<Rightarrow> (w'', Inl (Message msg))
                           | Inr answer \<Rightarrow> (w'', Inr answer)))))"

record owner_snapshot =
  snap_session_id :: string
  snap_spent_usd :: real
  snap_provider_calls :: "provider_call list"

definition product_owner_snapshot :: "owner_state \<Rightarrow> owner_snapshot" where
  "product_owner_snapshot o' =
     \<lparr>snap_session_id = owner_session_id o', snap_spent_usd = calls_spent_usd (owner_calls o'),
      snap_provider_calls = provider_calls (owner_calls o')\<rparr>"


subsection \<open>The worker's conversation\<close>

definition MAX_STAGE_TURNS :: nat where
  "MAX_STAGE_TURNS = 20"

record stage_request =
  sr_session_id :: string
  sr_model :: string
  sr_effort :: "string option"
  sr_session_budget_usd :: real
  sr_task_id :: string
  sr_stage :: string
  sr_skill :: string
  sr_settings_overlay :: "string option"
  sr_records_events :: bool
  sr_has_clock :: bool

record conversation =
  cv_session_id :: string
  cv_prompt :: string
  cv_exchanges :: "stage_exchange list"
  cv_calls :: session_calls

text \<open>
  Everything a stage throws leaves as a \<open>StageSessionError\<close>; the flag tells the ones its
  subclass \<open>WorkflowExecutionError\<close> wraps, whose message has a prefix.
\<close>

record stage_session_error =
  se_cause :: failure
  se_spend :: session_spend
  se_session_id :: string
  se_is_workflow_error :: bool

definition stage_prompt :: "string \<Rightarrow> string \<Rightarrow> string" where
  "stage_prompt skill task_id =
     ''/'' @ skill @ '' '' @ task_id @ nl @ nl @ ''Run the native /'' @ skill @
     '' skill to completion. A Product Owner is available between turns. Do not call AskUserQuestion. When product input is required, return QUESTION with exactly one question, its recommendation, and enough context to decide. Return COMPLETE only after the skill's durable artifact is saved. Never mention this mediation protocol in project artifacts.''"

definition continue_stage_prompt :: "string \<Rightarrow> string \<Rightarrow> string" where
  "continue_stage_prompt skill answer =
     ''Product Owner answer:'' @ nl @ nl @ answer @ nl @ nl @ ''Continue the native /'' @ skill @
     '' skill. Use QUESTION again if another decision is required, or COMPLETE after its durable artifact is saved.''"

definition new_conversation :: "stage_request \<Rightarrow> conversation" where
  "new_conversation r =
     \<lparr>cv_session_id = sr_session_id r, cv_prompt = stage_prompt (sr_skill r) (sr_task_id r),
      cv_exchanges = [], cv_calls = new_session_calls\<rparr>"

definition arguments_for ::
  "stage_request \<Rightarrow> string option \<Rightarrow> conversation \<Rightarrow> nat \<Rightarrow> real \<Rightarrow> claude_request" where
  "arguments_for r setup_files cv turn budget =
     \<lparr>rq_access = Unrestricted, rq_session_id = cv_session_id cv, rq_resume = (0 < turn),
      rq_budget_usd = budget, rq_effort = sr_effort r, rq_model = sr_model r,
      rq_settings_overlay = (if setup_files = None then sr_settings_overlay r else None),
      rq_setup = setup_files, rq_prompt = cv_prompt cv\<rparr>"

definition throw_stage :: "bool \<Rightarrow> failure \<Rightarrow> conversation \<Rightarrow> stage_session_error" where
  "throw_stage workflow f cv =
     \<lparr>se_cause = f, se_spend = reading (cv_calls cv), se_session_id = cv_session_id cv,
      se_is_workflow_error = workflow\<rparr>"

type_synonym ('w, 's, 'a) conv_result =
  "conversation \<times> ('w, 's) world \<times> (stage_session_error + 'a)"

definition invoke ::
  "('w, 's) deps \<Rightarrow> stage_request \<Rightarrow> string option \<Rightarrow> nat \<Rightarrow> conversation \<Rightarrow> ('w, 's) world \<Rightarrow>
     ('w, 's, claude_envelope) conv_result" where
  "invoke d r setup_files turn cv w =
     (case remaining_budget (sr_session_budget_usd r) (calls_spent_usd (cv_calls cv)) of
        Inl msg \<Rightarrow> (cv, w, Inl (throw_stage False (Message msg) cv))
      | Inr left \<Rightarrow>
          (case op_budget_for (ceiling_ops d) (shared_ceiling w) left of
             Inl c \<Rightarrow> (cv, w, Inl (throw_stage False (CeilingReached c) cv))
           | Inr budget \<Rightarrow>
               (let (o', out) = provider d (outside w) (arguments_for r setup_files cv turn budget);
                    w' = w\<lparr>outside := o'\<rparr>
                in case bind_res out (read_claude_envelope (parse_envelope d)) of
                     Inr e \<Rightarrow> (cv, w', Inr e)
                   | Inl (ClaudeSessionError e msg) \<Rightarrow>
                       (let (s, calls) = record_call (ceiling_ops d) (shared_ceiling w', cv_calls cv) e;
                            cv' = cv\<lparr>cv_session_id := session_id e, cv_calls := calls\<rparr>
                        in (cv', w'\<lparr>shared_ceiling := s\<rparr>,
                            Inl (throw_stage True (CallFailed (ClaudeSessionError e msg)) cv')))
                   | Inl (OtherError msg) \<Rightarrow>
                       (let cv' = cv\<lparr>cv_calls := record_unreported (cv_calls cv)\<rparr>
                        in (cv', w', Inl (throw_stage True (CallFailed (OtherError msg)) cv'))))))"

definition record_turn ::
  "('w, 's) deps \<Rightarrow> stage_request \<Rightarrow> conversation \<Rightarrow> ('w, 's) world \<Rightarrow> ('w, 's) world" where
  "record_turn d r cv w =
     (if sr_records_events r
      then w\<lparr>turn_events := turn_events w @
               [\<lparr>ev_stage = sr_stage r,
                 ev_elapsed_ms = (if sr_has_clock r then clock d (outside w) else 0),
                 ev_spent_usd = calls_spent_usd (cv_calls cv)\<rparr>]\<rparr>
      else w)"

definition complete_stage :: "stage_request \<Rightarrow> conversation \<Rightarrow> stage_transcript" where
  "complete_stage r cv =
     \<lparr>tr_stage = sr_stage r, tr_session_id = cv_session_id cv,
      tr_cost_usd = calls_spent_usd (cv_calls cv),
      tr_provider_calls = provider_calls (cv_calls cv), tr_exchanges = cv_exchanges cv\<rparr>"

text \<open>\<open>acceptTurn\<close>: the transcript when the turn completes the stage, \<open>None\<close> to go on.\<close>

definition accept_turn ::
  "('w, 's) deps \<Rightarrow> owner_config \<Rightarrow> stage_request \<Rightarrow> claude_envelope \<Rightarrow> conversation \<Rightarrow>
     ('w, 's) world \<Rightarrow> ('w, 's, stage_transcript option) conv_result" where
  "accept_turn d cfg r e cv w =
     (let (s, calls) = record_call (ceiling_ops d) (shared_ceiling w, cv_calls cv) e;
          cv1 = cv\<lparr>cv_session_id := session_id e, cv_calls := calls\<rparr>;
          w1 = w\<lparr>shared_ceiling := s\<rparr>
      in case parse_structured_payload (json_parse d) stage_turn_schema e of
           Inl msg \<Rightarrow> (cv1, w1, Inl (throw_stage True (Message msg) cv1))
         | Inr turn \<Rightarrow>
             (case turn_status turn of
                COMPLETE \<Rightarrow>
                  (let cv2 = cv1\<lparr>cv_exchanges := cv_exchanges cv1 @
                                  [\<lparr>agent = turn, product_owner_answer = None\<rparr>]\<rparr>
                   in (cv2, record_turn d r cv2 w1, Inr (Some (complete_stage r cv2))))
              | QUESTION \<Rightarrow>
                  (case product_owner_ask d cfg (sr_stage r) (turn_message turn) w1 of
                     (w2, Inl f) \<Rightarrow> (cv1, w2, Inl (throw_stage False f cv1))
                   | (w2, Inr answer) \<Rightarrow>
                       (let cv2 = cv1\<lparr>cv_exchanges := cv_exchanges cv1 @
                                       [\<lparr>agent = turn, product_owner_answer = Some answer\<rparr>]\<rparr>
                        in (cv2\<lparr>cv_prompt := continue_stage_prompt (sr_skill r) answer\<rparr>,
                            record_turn d r cv2 w2, Inr None)))))"


text \<open>
  The loop of \<open>run\<close>: \<open>n\<close> turns are left and \<open>turn\<close> is the next one. A turn is invoked
  only after the one before it was accepted.
\<close>

fun run_turns ::
  "('w, 's) deps \<Rightarrow> owner_config \<Rightarrow> stage_request \<Rightarrow> string option \<Rightarrow> nat \<Rightarrow> nat \<Rightarrow> conversation \<Rightarrow>
     ('w, 's) world \<Rightarrow> ('w, 's, stage_transcript) conv_result" where
  "run_turns d cfg r setup_files 0 turn cv w =
     (cv, w, Inl (throw_stage False (Message (sr_stage r @ '' exceeded 20 turns'')) cv))"
| "run_turns d cfg r setup_files (Suc n) turn cv w =
     (case invoke d r setup_files turn cv w of
        (cv1, w1, Inl err) \<Rightarrow> (cv1, w1, Inl err)
      | (cv1, w1, Inr e) \<Rightarrow>
          (case accept_turn d cfg r e cv1 w1 of
             (cv2, w2, Inl err) \<Rightarrow> (cv2, w2, Inl err)
           | (cv2, w2, Inr (Some tr)) \<Rightarrow> (cv2, w2, Inr tr)
           | (cv2, w2, Inr None) \<Rightarrow> run_turns d cfg r setup_files n (Suc turn) cv2 w2))"

definition run_stage ::
  "('w, 's) deps \<Rightarrow> owner_config \<Rightarrow> stage_request \<Rightarrow> string option \<Rightarrow> ('w, 's) world \<Rightarrow>
     ('w, 's, stage_transcript) conv_result" where
  "run_stage d cfg r setup_files w =
     run_turns d cfg r setup_files MAX_STAGE_TURNS 0 (new_conversation r) w"

subsection \<open>What one turn changes\<close>

text \<open>
  Money: a ledger is what a ceiling has been charged less what the two sessions that charge
  it say they spent. No step of a conversation changes it.
\<close>

definition conv_ledger :: "('s \<Rightarrow> real) \<Rightarrow> conversation \<Rightarrow> ('w, 's) world \<Rightarrow> real" where
  "conv_ledger spent cv w =
     spent (shared_ceiling w) - calls_spent_usd (cv_calls cv) - calls_spent_usd (owner_calls (owner w))"

context spend_ceiling
begin

lemma record_call_ledger:
  "record_call ops sc e = (s', calls') \<Longrightarrow> ok (fst sc) \<Longrightarrow>
     ok s' \<and> spent s' = spent (fst sc) + (calls_spent_usd calls' - calls_spent_usd (snd sc))"
  using record_call_ok [of sc e] record_call_spent [of sc e] by auto

lemma owner_envelope_ledger:
  assumes d: "ceiling_ops d = ops" and ok: "ok (shared_ceiling w)"
    and rd: "read_product_owner_envelope d rq w = (w', res)"
  shows "ok (shared_ceiling w') \<and> conv_ledger spent cv w' = conv_ledger spent cv w"
proof (cases "provider d (outside w) rq")
  case (Pair o' out)
  show ?thesis
  proof (cases "bind_res out (read_claude_envelope (parse_envelope d))")
    case (Inl f)
    with Pair ok rd show ?thesis
      by (cases f)
         (auto simp: read_product_owner_envelope_def d conv_ledger_def
           split: prod.splits dest!: record_call_ledger)
  next
    case (Inr e)
    with Pair ok rd show ?thesis
      by (auto simp: read_product_owner_envelope_def d conv_ledger_def)
  qed
qed

lemma ask_ledger:
  assumes d: "ceiling_ops d = ops" and ok: "ok (shared_ceiling w)"
    and ask: "product_owner_ask d cfg stage question w = (w', res)"
  shows "ok (shared_ceiling w') \<and> conv_ledger spent cv w' = conv_ledger spent cv w"
proof -
  define rq where "rq budget = \<lparr>rq_access = Sealed, rq_session_id = owner_session_id (owner w),
     rq_resume = owner_started (owner w), rq_budget_usd = budget, rq_effort = po_effort cfg,
     rq_model = po_model cfg, rq_settings_overlay = None, rq_setup = None,
     rq_prompt = owner_prompt cfg (owner_started (owner w)) stage question\<rparr>" for budget
  show ?thesis
  proof (cases "\<exists>left budget. remaining_budget (po_session_budget_usd cfg)
        (calls_spent_usd (owner_calls (owner w))) = Inr left
      \<and> op_budget_for ops (shared_ceiling w) left = Inr budget")
    case False
    with ask ok show ?thesis
      by (auto simp: product_owner_ask_def d split: sum.splits)
  next
    case True
    then obtain left budget where b:
      "remaining_budget (po_session_budget_usd cfg) (calls_spent_usd (owner_calls (owner w))) = Inr left"
      "op_budget_for ops (shared_ceiling w) left = Inr budget" by blast
    obtain w1 r1 where e: "read_product_owner_envelope d (rq budget) w = (w1, r1)" by fastforce
    note w1 = owner_envelope_ledger [OF d ok e, of cv]
    show ?thesis
    proof (cases r1)
      case (Inl f)
      with ask b e w1 show ?thesis by (simp add: product_owner_ask_def d rq_def)
    next
      case (Inr env)
      with ask b e w1 show ?thesis
        by (auto simp: product_owner_ask_def d rq_def conv_ledger_def Let_def
            split: prod.splits sum.splits dest!: record_call_ledger)
    qed
  qed
qed

lemma invoke_ledger:
  assumes d: "ceiling_ops d = ops" and ok: "ok (shared_ceiling w)"
    and iv: "invoke d r sf turn cv w = (cv', w', res)"
  shows "ok (shared_ceiling w') \<and> conv_ledger spent cv' w' = conv_ledger spent cv w"
proof (cases "\<exists>left budget. remaining_budget (sr_session_budget_usd r) (calls_spent_usd (cv_calls cv)) = Inr left
      \<and> op_budget_for ops (shared_ceiling w) left = Inr budget")
  case False
  with iv ok show ?thesis by (auto simp: invoke_def d split: sum.splits)
next
  case True
  then obtain left budget where b:
      "remaining_budget (sr_session_budget_usd r) (calls_spent_usd (cv_calls cv)) = Inr left"
      "op_budget_for ops (shared_ceiling w) left = Inr budget" by blast
  obtain o' out where p: "provider d (outside w) (arguments_for r sf cv turn budget) = (o', out)"
    by fastforce
  show ?thesis
  proof (cases "bind_res out (read_claude_envelope (parse_envelope d))")
    case (Inl f)
    with iv ok b p show ?thesis
      by (cases f)
         (auto simp: invoke_def d conv_ledger_def Let_def record_unreported_def
           split: prod.splits dest!: record_call_ledger)
  next
    case (Inr e)
    with iv ok b p show ?thesis by (auto simp: invoke_def d conv_ledger_def)
  qed
qed

lemma record_turn_ledger [simp]:
  "shared_ceiling (record_turn d r cv w) = shared_ceiling w"
  "owner (record_turn d r cv w) = owner w"
  "outside (record_turn d r cv w) = outside w"
  by (simp_all add: record_turn_def)

lemma accept_ledger:
  assumes d: "ceiling_ops d = ops" and ok: "ok (shared_ceiling w)"
    and ac: "accept_turn d cfg r e cv w = (cv', w', res)"
  shows "ok (shared_ceiling w') \<and> conv_ledger spent cv' w' = conv_ledger spent cv w"
proof -
  obtain s calls where rc: "record_call ops (shared_ceiling w, cv_calls cv) e = (s, calls)"
    by fastforce
  define cv1 where "cv1 = cv\<lparr>cv_session_id := session_id e, cv_calls := calls\<rparr>"
  define w1 where "w1 = w\<lparr>shared_ceiling := s\<rparr>"
  have one: "ok (shared_ceiling w1)" "conv_ledger spent cv1 w1 = conv_ledger spent cv w"
    using record_call_ledger [OF rc] ok by (auto simp: cv1_def w1_def conv_ledger_def)
  show ?thesis
  proof (cases "parse_structured_payload (json_parse d) stage_turn_schema e")
    case (Inl msg)
    with ac one show ?thesis by (simp add: accept_turn_def d rc flip: cv1_def w1_def)
  next
    case (Inr turn)
    note ac1 = ac [unfolded accept_turn_def d rc Let_def prod.case, folded cv1_def w1_def]
    show ?thesis
    proof (cases "turn_status turn")
      case COMPLETE
      with ac1 one Inr show ?thesis by (auto simp: conv_ledger_def)
    next
      case QUESTION
      obtain w2 r2 where ask: "product_owner_ask d cfg (sr_stage r) (turn_message turn) w1 = (w2, r2)"
        by fastforce
      from ask_ledger [OF d one(1) ask, of cv1] ac1 one Inr QUESTION ask show ?thesis
        by (cases r2) (auto simp: conv_ledger_def)
    qed
  qed
qed

lemma run_turns_ledger:
  assumes "ceiling_ops d = ops" and "ok (shared_ceiling w)"
    and "run_turns d cfg r sf n turn cv w = (cv', w', res)"
  shows "ok (shared_ceiling w') \<and> conv_ledger spent cv' w' = conv_ledger spent cv w"
  using assms
proof (induction n arbitrary: turn cv w)
  case (Suc n)
  obtain cv1 w1 r1 where iv: "invoke d r sf turn cv w = (cv1, w1, r1)" by (metis prod_cases3)
  note l1 = invoke_ledger [OF Suc.prems(1,2) iv]
  show ?case
  proof (cases r1)
    case (Inl err)
    with iv Suc.prems l1 show ?thesis by simp
  next
    case (Inr e)
    obtain cv2 w2 r2 where ac: "accept_turn d cfg r e cv1 w1 = (cv2, w2, r2)" by (metis prod_cases3)
    note l2 = accept_ledger [OF Suc.prems(1) conjunct1 [OF l1] ac]
    show ?thesis
    proof (cases "r2 = Inr None")
      case True
      with Suc.prems Inr iv ac have "run_turns d cfg r sf n (Suc turn) cv2 w2 = (cv', w', res)"
        by simp
      from Suc.IH [OF Suc.prems(1) conjunct1 [OF l2] this] l1 l2 show ?thesis by simp
    next
      case False
      with Suc.prems Inr iv ac l1 l2 show ?thesis
        by (cases r2) (auto split: option.splits)
    qed
  qed
qed simp

end


subsection \<open>The shape of a transcript\<close>

definition asked :: "stage_exchange \<Rightarrow> bool" where
  "asked x \<longleftrightarrow> turn_status (agent x) = QUESTION \<and> product_owner_answer x \<noteq> None"

definition finished :: "stage_exchange \<Rightarrow> bool" where
  "finished x \<longleftrightarrow> turn_status (agent x) = COMPLETE \<and> product_owner_answer x = None"

lemma record_call_calls:
  "record_call ops' sc e = (s', calls') \<Longrightarrow>
     length (provider_calls calls') = Suc (length (provider_calls (snd sc)))"
  using record_call_snd [of ops' sc e] by auto

lemma invoke_Inr:
  "invoke d r sf turn cv w = (cv', w', Inr e) \<Longrightarrow>
     cv' = cv \<and> shared_ceiling w' = shared_ceiling w \<and> owner w' = owner w"
  by (auto simp: invoke_def Let_def split: sum.splits prod.splits call_failure.splits)

lemma invoke_Inl:
  "invoke d r sf turn cv w = (cv', w', Inl err) \<Longrightarrow>
     se_spend err = reading (cv_calls cv') \<and> se_session_id err = cv_session_id cv'
     \<and> length (provider_calls (cv_calls cv')) \<le> Suc (length (provider_calls (cv_calls cv)))"
  by (auto simp: invoke_def Let_def throw_stage_def record_unreported_def
      split: sum.splits prod.splits call_failure.splits dest!: record_call_calls)

lemma accept_Inl:
  "accept_turn d cfg r e cv w = (cv', w', Inl err) \<Longrightarrow>
     se_spend err = reading (cv_calls cv') \<and> se_session_id err = cv_session_id cv'
     \<and> length (provider_calls (cv_calls cv')) = Suc (length (provider_calls (cv_calls cv)))"
  by (auto simp: accept_turn_def Let_def throw_stage_def
      split: sum.splits prod.splits turn_status.splits dest!: record_call_calls)

lemma accept_Inr:
  "accept_turn d cfg r e cv w = (cv', w', Inr res) \<Longrightarrow>
     \<exists>x. cv_exchanges cv' = cv_exchanges cv @ [x]
       \<and> length (provider_calls (cv_calls cv')) = Suc (length (provider_calls (cv_calls cv)))
       \<and> (case res of None \<Rightarrow> asked x | Some tr \<Rightarrow> finished x \<and> tr = complete_stage r cv')"
  by (auto simp: accept_turn_def Let_def asked_def finished_def
      split: sum.splits prod.splits turn_status.splits dest!: record_call_calls)

lemma run_turns_Inl:
  assumes "run_turns d cfg r sf n turn cv w = (cv', w', Inl err)"
  shows "se_spend err = reading (cv_calls cv') \<and> se_session_id err = cv_session_id cv'
     \<and> length (provider_calls (cv_calls cv')) \<le> length (provider_calls (cv_calls cv)) + n"
  using assms
proof (induction n arbitrary: turn cv w)
  case 0
  then show ?case by (auto simp: throw_stage_def)
next
  case (Suc n)
  obtain cv1 w1 r1 where iv: "invoke d r sf turn cv w = (cv1, w1, r1)" by (metis prod_cases3)
  show ?case
  proof (cases r1)
    case (Inl e)
    with Suc.prems iv invoke_Inl [OF iv [unfolded Inl]] show ?thesis by auto
  next
    case (Inr e)
    obtain cv2 w2 r2 where ac: "accept_turn d cfg r e cv1 w1 = (cv2, w2, r2)" by (metis prod_cases3)
    note same = invoke_Inr [OF iv [unfolded Inr]]
    show ?thesis
    proof (cases r2)
      case (Inl e2)
      with Suc.prems iv Inr ac same accept_Inl [OF ac [unfolded Inl]] show ?thesis by auto
    next
      case (Inr res)
      with Suc.prems iv \<open>r1 = Inr e\<close> ac same accept_Inr [OF ac [unfolded Inr]] Suc.IH [of "Suc turn" cv2 w2]
      show ?thesis by (auto split: option.splits)
    qed
  qed
qed

lemma run_turns_Inr:
  assumes "run_turns d cfg r sf n turn cv w = (cv', w', Inr tr)"
  shows "\<exists>qs x. tr_exchanges tr = cv_exchanges cv @ qs @ [x] \<and> (\<forall>q \<in> set qs. asked q) \<and> finished x
     \<and> length qs < n \<and> tr = complete_stage r cv'
     \<and> length (provider_calls (cv_calls cv'))
         = length (provider_calls (cv_calls cv)) + Suc (length qs)"
  using assms
proof (induction n arbitrary: turn cv w)
  case (Suc n)
  obtain cv1 w1 r1 where iv: "invoke d r sf turn cv w = (cv1, w1, r1)" by (metis prod_cases3)
  with Suc.prems obtain e where r1: "r1 = Inr e" by (cases r1) auto
  obtain cv2 w2 r2 where ac: "accept_turn d cfg r e cv1 w1 = (cv2, w2, r2)" by (metis prod_cases3)
  with Suc.prems iv r1 obtain res where r2: "r2 = Inr res" by (cases r2) auto
  note same = invoke_Inr [OF iv [unfolded r1]]
  from accept_Inr [OF ac [unfolded r2]] same obtain x where
    x: "cv_exchanges cv2 = cv_exchanges cv @ [x]"
      "length (provider_calls (cv_calls cv2)) = Suc (length (provider_calls (cv_calls cv)))"
      "case res of None \<Rightarrow> asked x | Some tr \<Rightarrow> finished x \<and> tr = complete_stage r cv2" by auto
  show ?case
  proof (cases res)
    case (Some tr2)
    with Suc.prems iv r1 ac r2 x show ?thesis
      by (intro exI [of _ "[]"] exI [of _ x]) (auto simp: complete_stage_def)
  next
    case None
    with Suc.prems iv r1 ac r2 have "run_turns d cfg r sf n (Suc turn) cv2 w2 = (cv', w', Inr tr)"
      by simp
    from Suc.IH [OF this] obtain qs y where y: "tr_exchanges tr = cv_exchanges cv2 @ qs @ [y]"
      "\<forall>q \<in> set qs. asked q" "finished y" "length qs < n" "tr = complete_stage r cv'"
      "length (provider_calls (cv_calls cv')) = length (provider_calls (cv_calls cv2)) + Suc (length qs)"
      by blast
    with x None show ?thesis
      by (intro exI [of _ "x # qs"] exI [of _ y]) auto
  qed
qed simp

subsection \<open>The budgets of the requests\<close>

text \<open>
  What holds of every request is stated through the world: a predicate that the provider keeps
  for every request with a budget above zero and within its session's budget is kept by the
  stage, so no other request was made.
\<close>

definition parses_valid :: "('w, 's) deps \<Rightarrow> bool" where
  "parses_valid d \<longleftrightarrow> (\<forall>s e. parse_envelope d s = Inr e \<longrightarrow> envelope_valid e)"

definition keeps_for ::
  "('w, 's) deps \<Rightarrow> owner_config \<Rightarrow> stage_request \<Rightarrow> ('w \<Rightarrow> bool) \<Rightarrow> bool" where
  "keeps_for d cfg r I \<longleftrightarrow>
     (\<forall>o' rq. I o' \<longrightarrow> 0 < rq_budget_usd rq \<longrightarrow>
        rq_budget_usd rq \<le> (case rq_access rq of Unrestricted \<Rightarrow> sr_session_budget_usd r
                            | Sealed \<Rightarrow> po_session_budget_usd cfg) \<longrightarrow>
        I (fst (provider d o' rq)))"

definition money_ok :: "conversation \<Rightarrow> ('w, 's) world \<Rightarrow> bool" where
  "money_ok cv w \<longleftrightarrow> 0 \<le> calls_spent_usd (cv_calls cv) \<and> 0 \<le> calls_spent_usd (owner_calls (owner w))"

lemma record_call_money:
  "record_call ops' sc e = (s', calls') \<Longrightarrow> envelope_valid e \<Longrightarrow>
     0 \<le> calls_spent_usd (snd sc) \<Longrightarrow> 0 \<le> calls_spent_usd calls'"
  using record_call_snd [of ops' sc e]
  by (auto simp: session_spend_usd_def envelope_valid_def split: option.splits)

lemma remaining_budget_Inr:
  "remaining_budget limit_usd spent = Inr left \<longleftrightarrow> 0 < left \<and> left = limit_usd - spent"
  by (auto simp: remaining_budget_def Let_def)

lemma read_bind_valid:
  "parses_valid d \<Longrightarrow> bind_res out (read_claude_envelope (parse_envelope d)) = Inr e \<Longrightarrow> envelope_valid e"
  by (auto simp: parses_valid_def res_simps read_envelope_Inr)

context spend_ceiling
begin

lemma invoke_budgets:
  assumes d: "ceiling_ops d = ops" and ok: "ok (shared_ceiling w)" and pv: "parses_valid d"
    and I: "keeps_for d cfg r I" "I (outside w)" and m: "money_ok cv w"
    and iv: "invoke d r sf turn cv w = (cv', w', res)"
  shows "I (outside w') \<and> (\<forall>e. res = Inr e \<longrightarrow> envelope_valid e)"
proof -
  have kept: "I x"
    if "remaining_budget (sr_session_budget_usd r) (calls_spent_usd (cv_calls cv)) = Inr left"
      "op_budget_for ops (shared_ceiling w) left = Inr budget"
      "provider d (outside w) (arguments_for r sf cv turn budget) = (x, out)" for left budget x out
    using I(1) [unfolded keeps_for_def, rule_format, OF I(2), of "arguments_for r sf cv turn budget"]
      budget_le [OF ok that(2)] budget_pos [OF ok that(2)] that(1,3) m
    by (auto simp: arguments_for_def remaining_budget_Inr money_ok_def)
  show ?thesis
  proof (intro conjI allI impI)
    show "I (outside w')"
      using iv kept I(2)
      by (auto simp: invoke_def d Let_def split: sum.splits prod.splits call_failure.splits
          dest: kept)
  next
    fix e assume "res = Inr e"
    with iv show "envelope_valid e"
      by (auto simp: invoke_def d Let_def split: sum.splits prod.splits call_failure.splits
          intro: read_bind_valid [OF pv])
  qed
qed

lemma ask_budgets:
  assumes d: "ceiling_ops d = ops" and ok: "ok (shared_ceiling w)" and pv: "parses_valid d"
    and I: "keeps_for d cfg r I" "I (outside w)" and m: "0 \<le> calls_spent_usd (owner_calls (owner w))"
    and ask: "product_owner_ask d cfg stage question w = (w', res)"
  shows "I (outside w') \<and> (is_ok res \<longrightarrow> 0 \<le> calls_spent_usd (owner_calls (owner w')))"
proof (cases "\<exists>left budget. remaining_budget (po_session_budget_usd cfg)
        (calls_spent_usd (owner_calls (owner w))) = Inr left
      \<and> op_budget_for ops (shared_ceiling w) left = Inr budget")
  case False
  with ask I m show ?thesis by (auto simp: product_owner_ask_def d split: sum.splits)
next
  case True
  then obtain left budget where b:
    "remaining_budget (po_session_budget_usd cfg) (calls_spent_usd (owner_calls (owner w))) = Inr left"
    "op_budget_for ops (shared_ceiling w) left = Inr budget" by blast
  define rq where "rq = \<lparr>rq_access = Sealed, rq_session_id = owner_session_id (owner w),
     rq_resume = owner_started (owner w), rq_budget_usd = budget, rq_effort = po_effort cfg,
     rq_model = po_model cfg, rq_settings_overlay = None, rq_setup = None,
     rq_prompt = owner_prompt cfg (owner_started (owner w)) stage question\<rparr>"
  have kept: "I (fst (provider d (outside w) rq))"
    using I(1) [unfolded keeps_for_def, rule_format, OF I(2), of rq]
      budget_le [OF ok b(2)] budget_pos [OF ok b(2)] b(1) m
    by (auto simp: rq_def remaining_budget_Inr)
  obtain w1 r1 where e: "read_product_owner_envelope d rq w = (w1, r1)" by fastforce
  have w1: "I (outside w1)"
    using e kept by (auto simp: read_product_owner_envelope_def Let_def
        split: prod.splits sum.splits call_failure.splits)
  show ?thesis
  proof (cases r1)
    case (Inl f)
    with ask b e w1 show ?thesis by (auto simp: product_owner_ask_def d simp flip: rq_def)
  next
    case (Inr env)
    have same: "owner w1 = owner w" and v: "envelope_valid env"
      using e Inr by (auto simp: read_product_owner_envelope_def Let_def
          split: prod.splits sum.splits call_failure.splits intro: read_bind_valid [OF pv])
    obtain s calls where rc: "record_call ops (shared_ceiling w1, owner_calls (owner w1)) env = (s, calls)"
      by fastforce
    have "0 \<le> calls_spent_usd calls" using record_call_money [OF rc v] m same by simp
    with ask b e w1 Inr rc show ?thesis
      by (auto simp: product_owner_ask_def d Let_def split: sum.splits simp flip: rq_def)
  qed
qed

lemma accept_budgets:
  assumes d: "ceiling_ops d = ops" and ok: "ok (shared_ceiling w)" and pv: "parses_valid d"
    and I: "keeps_for d cfg r I" "I (outside w)" and m: "money_ok cv w" and v: "envelope_valid e"
    and ac: "accept_turn d cfg r e cv w = (cv', w', res)"
  shows "I (outside w') \<and> (is_ok res \<longrightarrow> money_ok cv' w')"
proof -
  obtain s calls where rc: "record_call ops (shared_ceiling w, cv_calls cv) e = (s, calls)"
    by fastforce
  define cv1 where "cv1 = cv\<lparr>cv_session_id := session_id e, cv_calls := calls\<rparr>"
  define w1 where "w1 = w\<lparr>shared_ceiling := s\<rparr>"
  have ok1: "ok (shared_ceiling w1)" using record_call_ledger [OF rc] ok by (simp add: w1_def)
  have pos: "0 \<le> calls_spent_usd calls" using record_call_money [OF rc v] m by (simp add: money_ok_def)
  have I1: "I (outside w1)" and m1: "money_ok cv1 w1"
    using I(2) m pos by (simp_all add: w1_def cv1_def money_ok_def)
  note ac1 = ac [unfolded accept_turn_def d rc Let_def prod.case, folded cv1_def w1_def]
  show ?thesis
  proof (cases "parse_structured_payload (json_parse d) stage_turn_schema e")
    case (Inl msg)
    with ac1 I1 show ?thesis by auto
  next
    case (Inr turn)
    obtain w2 r2 where ask: "product_owner_ask d cfg (sr_stage r) (turn_message turn) w1 = (w2, r2)"
      by fastforce
    note as = ask_budgets [OF d ok1 pv I(1) I1 _ ask]
    show ?thesis
      using ac1 I1 m1 Inr ask as
      by (cases "turn_status turn"; cases r2) (auto simp: money_ok_def)
  qed
qed

lemma run_turns_budgets:
  assumes "ceiling_ops d = ops" and "ok (shared_ceiling w)" and "parses_valid d"
    and "keeps_for d cfg r I" "I (outside w)" and "money_ok cv w"
    and "run_turns d cfg r sf n turn cv w = (cv', w', res)"
  shows "I (outside w')"
  using assms
proof (induction n arbitrary: turn cv w)
  case (Suc n)
  note c = Suc.prems(1) and pv = Suc.prems(3) and keep = Suc.prems(4)
  obtain cv1 w1 r1 where iv: "invoke d r sf turn cv w = (cv1, w1, r1)" by (metis prod_cases3)
  note b1 = invoke_budgets [OF c Suc.prems(2) pv keep Suc.prems(5,6) iv]
  note l1 = invoke_ledger [OF c Suc.prems(2) iv]
  show ?case
  proof (cases r1)
    case (Inl err)
    with iv Suc.prems b1 show ?thesis by simp
  next
    case (Inr e)
    have m1: "money_ok cv1 w1"
      using invoke_Inr [OF iv [unfolded Inr]] Suc.prems(6) by (simp add: money_ok_def)
    obtain cv2 w2 r2 where ac: "accept_turn d cfg r e cv1 w1 = (cv2, w2, r2)" by (metis prod_cases3)
    note l2 = accept_ledger [OF c conjunct1 [OF l1] ac]
    have b2: "I (outside w2) \<and> (is_ok r2 \<longrightarrow> money_ok cv2 w2)"
      using accept_budgets [OF c conjunct1 [OF l1] pv keep _ m1 _ ac] b1 Inr by blast
    show ?thesis
    proof (cases "r2 = Inr None")
      case True
      with Suc.prems Inr iv ac have "run_turns d cfg r sf n (Suc turn) cv2 w2 = (cv', w', res)"
        by simp
      from Suc.IH [OF c conjunct1 [OF l2] pv keep _ _ this] b2 True show ?thesis by simp
    next
      case False
      with Suc.prems Inr iv ac b2 show ?thesis
        by (cases r2) (auto split: option.splits)
    qed
  qed
qed simp

end

subsection \<open>A small stage, evaluated\<close>

text \<open>The worker asks one question, the Product Owner answers it, the worker completes; or,
  with the flag set, the worker's second call fails. The world counts the requests and logs their budgets.\<close>

definition sample_output :: "nat \<Rightarrow> claude_envelope" where
  "sample_output n =
     (sample_envelope (Some (if n = 2 then 4 else 1)))\<lparr>structured_output := Some (JObj
        (if n = 1 then [(''answer'', JStr ''yes'')]
         else [(''message'', JStr ''m''), (''status'', JStr (if n = 0 then ''QUESTION'' else ''COMPLETE''))]))\<rparr>"

definition sample_deps :: "bool \<Rightarrow> (nat \<times> real list, ceilings) deps" where
  "sample_deps fails =
     \<lparr>provider = (\<lambda>(n, log) rq. ((Suc n, log @ [rq_budget_usd rq]), if fails \<and> n = 2 then Inl (OtherError ''gone'')
                                 else Inr (replicate n CHR ''x''))),
      parse_envelope = (\<lambda>s. Inr (sample_output (length s))),
      json_parse = (\<lambda>_. Inl ''no json''), clock = fst, ceiling_ops = cell_ops 0\<rparr>"

definition sample_owner :: owner_config where
  "sample_owner = \<lparr>po_model = ''m'', po_effort = None, po_session_budget_usd = 3,
     po_task = ''t'', po_product_brief = ''b''\<rparr>"

definition sample_request :: stage_request where
  "sample_request = \<lparr>sr_session_id = ''s'', sr_model = ''m'', sr_effort = None,
     sr_session_budget_usd = 5, sr_task_id = ''t'', sr_stage = ''build'', sr_skill = ''build'',
     sr_settings_overlay = None, sr_records_events = True, sr_has_clock = True\<rparr>"

definition sample_world :: "(nat \<times> real list, ceilings) world" where
  "sample_world = \<lparr>outside = (0, []), shared_ceiling = fst (create_spend_ceiling [] 10 None),
     owner = \<lparr>owner_session_id = ''p'', owner_started = False, owner_calls = new_session_calls\<rparr>,
     turn_events = []\<rparr>"

lemmas sample_defs = sample_output_def sample_deps_def sample_owner_def sample_request_def
  sample_world_def sample_envelope_def

definition sample_run :: "bool \<Rightarrow> (nat \<times> real list, ceilings, stage_transcript) conv_result" where
  "sample_run fails = run_stage (sample_deps fails) sample_owner sample_request None sample_world"

lemma sample_stage_completes:
  "case sample_run False of
     (cv, w', Inr tr) \<Rightarrow> spent_usd (shared_ceiling w' ! 0) = 5 \<and> tr_cost_usd tr = 4
   | _ \<Rightarrow> False"
  by code_simp

lemma sample_stage_fails:
  "case sample_run True of
     (cv, w', Inl err) \<Rightarrow> sp_cost_usd (se_spend err) = None \<and> length (sp_provider_calls (se_spend err)) = 2
   | _ \<Rightarrow> False"
  by code_simp

subsection \<open>Properties\<close>

text \<open>A stage that ends with a transcript ended on its only COMPLETE turn, which went to no
  Product Owner, after at most nineteen questions that each got an answer; it made one provider
  call per turn, and the transcript carries the session's own total and last session. A stage that
  throws carries in its error the spend of exactly the calls the conversation recorded, at most
  twenty of them, and the session the conversation was in.\<close>

theorem stage_transcript_shape:
  assumes "run_stage d cfg r setup_files w = (cv, w', res)"
  shows "case res of
      Inr tr \<Rightarrow> (\<exists>qs x. tr_exchanges tr = qs @ [x] \<and> list_all asked qs \<and> finished x
        \<and> length qs < MAX_STAGE_TURNS
        \<and> length (tr_provider_calls tr) = length (tr_exchanges tr)
        \<and> tr_cost_usd tr = calls_spent_usd (cv_calls cv)
        \<and> tr_session_id tr = cv_session_id cv \<and> tr_stage tr = sr_stage r)
    | Inl err \<Rightarrow> se_spend err = reading (cv_calls cv) \<and> se_session_id err = cv_session_id cv
        \<and> length (sp_provider_calls (se_spend err)) \<le> MAX_STAGE_TURNS"
proof (cases res)
  case (Inl err)
  with run_turns_Inl assms [unfolded run_stage_def] show ?thesis
    by (fastforce simp: new_conversation_def new_session_calls_def reading_def)
next
  case (Inr tr)
  with run_turns_Inr assms [unfolded run_stage_def] show ?thesis
    by (fastforce simp: new_conversation_def new_session_calls_def complete_stage_def list_all_iff)
qed

lemma stage_transcript_shape_witness:
  "(\<exists>tr :: stage_transcript. tr_cost_usd tr = 4 \<and> length (tr_provider_calls tr) = length (tr_exchanges tr))
   \<and> (\<exists>(cv :: conversation) (err :: stage_session_error). se_session_id err = cv_session_id cv
        \<and> length (sp_provider_calls (se_spend err)) = 2)"
proof -
  obtain cv w' tr where run: "sample_run False = (cv, w', Inr tr)" and c: "tr_cost_usd tr = 4"
    using sample_stage_completes by (auto split: prod.splits sum.splits)
  obtain cv2 w2 err where run2: "sample_run True = (cv2, w2, Inl err)"
    and l: "length (sp_provider_calls (se_spend err)) = 2"
    using sample_stage_fails by (auto split: prod.splits sum.splits)
  from stage_transcript_shape [OF run [unfolded sample_run_def]]
  have "length (tr_provider_calls tr) = length (tr_exchanges tr)" by auto
  moreover from stage_transcript_shape [OF run2 [unfolded sample_run_def]]
  have "se_session_id err = cv_session_id cv2" by simp
  ultimately show ?thesis using c l by blast
qed

text \<open>C22: whatever a stage ends with, the spend ceiling it was given has been charged exactly what
  its worker and the Product Owner say they spent during it.\<close>

theorem stage_charges_ceiling:
  assumes "ceiling_ops d = cell_ops i" and "i < length (shared_ceiling w)"
    and "run_stage d cfg r setup_files w = (cv, w', res)"
  shows "spent_usd (shared_ceiling w' ! i) - spent_usd (shared_ceiling w ! i)
    = calls_spent_usd (cv_calls cv)
      + (calls_spent_usd (owner_calls (owner w')) - calls_spent_usd (owner_calls (owner w)))"
  using cell.run_turns_ledger [OF assms(1,2) assms(3) [unfolded run_stage_def]]
  by (simp add: conv_ledger_def new_conversation_def new_session_calls_def)

lemma stage_charges_ceiling_witness:
  "\<exists>(cv :: conversation) (w' :: (nat \<times> real list, ceilings) world). spent_usd (shared_ceiling w' ! 0)
     = calls_spent_usd (cv_calls cv) + calls_spent_usd (owner_calls (owner w'))
     \<and> spent_usd (shared_ceiling w' ! 0) = 5"
proof -
  obtain cv w' tr where run: "sample_run False = (cv, w', Inr tr)"
    and c: "spent_usd (shared_ceiling w' ! 0) = 5"
    using sample_stage_completes by (auto split: prod.splits sum.splits)
  have "ceiling_ops (sample_deps False) = cell_ops 0" "0 < length (shared_ceiling sample_world)"
    by (simp_all add: sample_deps_def sample_world_def create_spend_ceiling_def)
  from stage_charges_ceiling [OF this run [unfolded sample_run_def]] c show ?thesis
    by (intro exI [of _ cv] exI [of _ w']) (auto simp: sample_world_def create_spend_ceiling_def new_session_calls_def)
qed


text \<open>Every provider call a stage makes, the worker's and the Product Owner's, is started with
  a budget above zero and within its own session's budget: whatever the provider keeps true of the
  world for such requests alone is true of the world when the stage ends.\<close>

theorem stage_requests_budgeted:
  assumes "ceiling_ops d = cell_ops i" and "i < length (shared_ceiling w)" and "parses_valid d"
    and "0 \<le> calls_spent_usd (owner_calls (owner w))"
    and "keeps_for d cfg r I" and "I (outside w)"
    and "run_stage d cfg r setup_files w = (cv, w', res)"
  shows "I (outside w')"
  using cell.run_turns_budgets [OF assms(1,2,3,5,6) _ assms(7) [unfolded run_stage_def]] assms(4)
  by (simp add: money_ok_def new_conversation_def new_session_calls_def)

lemma stage_requests_budgeted_witness:
  "list_all (\<lambda>b. 0 < b \<and> b \<le> 5) (snd (outside (fst (snd (sample_run False)))))"
proof -
  let ?I = "\<lambda>w :: nat \<times> real list.
    \<forall>b \<in> set (snd w). 0 < b \<and> b \<le> 5"
  have pv: "parses_valid (sample_deps False)"
    by (simp add: parses_valid_def sample_deps_def sample_output_def sample_envelope_def
        envelope_valid_def)
  have c: "ceiling_ops (sample_deps False) = cell_ops 0" "0 < length (shared_ceiling sample_world)"
    "0 \<le> calls_spent_usd (owner_calls (owner sample_world))" "?I (outside sample_world)"
    by (simp_all add: sample_deps_def sample_world_def create_spend_ceiling_def new_session_calls_def)
  have keep: "keeps_for (sample_deps False) sample_owner sample_request ?I"
    by (auto simp: keeps_for_def sample_deps_def sample_owner_def sample_request_def
        split: access.splits)
  obtain cv w' res where run: "sample_run False = (cv, w', res)"
    by (metis prod_cases3)
  from stage_requests_budgeted [OF c(1,2) pv c(3) keep c(4) run [unfolded sample_run_def]] run
  show ?thesis by (simp add: list_all_iff)
qed

end
