(* ===== verification/EvidenceQuote.thy ===== *)
theory EvidenceQuote
  imports Prelude
begin

text \<open>
  Finding a Judge's quote in the source it cited, \<open>evidence-quote.ts\<close>. Quote and source
  are compared after every run of white space collapses to one space, and the collapsed
  text remembers the raw offset of each of its characters, so that a match in it names a
  range of the raw source.

  A string is a list of characters up to code point 255; of JavaScript's white space the
  characters in that range are \<open>is_space\<close>.
\<close>

definition is_space :: "char \<Rightarrow> bool" where
  "is_space c \<longleftrightarrow> c \<in> {CHR 0x09, CHR 0x0A, CHR 0x0B, CHR 0x0C, CHR 0x0D, CHR 0x20, CHR 0xA0}"

record collapsed_text =
  ct_text :: string
  ct_offsets :: "nat list"

record quote_match =
  qm_start :: nat
  qm_end :: nat
  qm_occurrences :: nat

record span =
  span_start :: nat
  span_end :: nat

subsection \<open>Collapsing white space\<close>

text \<open>The object \<open>CollapsedQuoteText\<close>: \<open>pending\<close> is the first offset of the white space
  run being skipped, \<open>None\<close> for the source's -1.\<close>

record quote_text = collapsed_text +
  pending_space :: "nat option"

definition append_space :: "quote_text \<Rightarrow> quote_text" where
  "append_space t =
     (case pending_space t of
        None \<Rightarrow> t
      | Some p \<Rightarrow> t\<lparr>ct_text := ct_text t @ '' '', ct_offsets := ct_offsets t @ [p],
                    pending_space := None\<rparr>)"

definition include_character :: "quote_text \<Rightarrow> char \<Rightarrow> nat \<Rightarrow> quote_text" where
  "include_character t c i =
     (if is_space c
      then if ct_text t \<noteq> [] \<and> pending_space t = None then t\<lparr>pending_space := Some i\<rparr> else t
      else let t' = (if pending_space t \<noteq> None then append_space t else t)
           in t'\<lparr>ct_text := ct_text t' @ [c], ct_offsets := ct_offsets t' @ [i]\<rparr>)"

fun include_from :: "quote_text \<Rightarrow> nat \<Rightarrow> string \<Rightarrow> quote_text" where
  "include_from t i [] = t"
| "include_from t i (c # cs) = include_from (include_character t c i) (Suc i) cs"

definition collapse :: "string \<Rightarrow> collapsed_text" where
  "collapse raw =
     (let t = include_from \<lparr>ct_text = [], ct_offsets = [], pending_space = None\<rparr> 0 raw
      in \<lparr>ct_text = ct_text t, ct_offsets = ct_offsets t\<rparr>)"

definition collapsed_quote :: "string \<Rightarrow> string" where
  "collapsed_quote quote = ct_text (collapse quote)"

subsection \<open>Matching\<close>

text \<open>The occurrences of the needle, read left to right without overlap. The source's loop does
  not end on an empty needle, which its caller \<open>match\<close> never passes.\<close>

function occurrences_of :: "'a list \<Rightarrow> 'a list \<Rightarrow> nat" where
  "occurrences_of haystack needle =
     (if needle = [] then 0
      else case index_of haystack needle of
             None \<Rightarrow> 0
           | Some i \<Rightarrow> Suc (occurrences_of (drop (i + length needle) haystack) needle))"
  by pat_completeness auto
termination
  by (relation "measure (\<lambda>(h, n). length h)") (auto dest!: index_of_Some)

declare occurrences_of.simps [simp del]

definition match :: "string \<Rightarrow> string \<Rightarrow> quote_match option" where
  "match raw quote =
     (let needle = collapsed_quote quote
      in if needle = [] then None
         else let haystack = collapse raw
              in case index_of (ct_text haystack) needle of
                   None \<Rightarrow> None
                 | Some i \<Rightarrow>
                     (let start = at_or (ct_offsets haystack) i 0;
                          last_offset = at_or (ct_offsets haystack) (i + length needle - 1) start
                      in Some \<lparr>qm_start = start, qm_end = last_offset + 1,
                               qm_occurrences = occurrences_of (ct_text haystack) needle\<rparr>))"

definition find_span :: "string \<Rightarrow> string \<Rightarrow> span option" where
  "find_span txt quote =
     map_option (\<lambda>m. \<lparr>span_start = qm_start m, span_end = qm_end m\<rparr>) (match txt quote)"

definition line_at :: "string \<Rightarrow> nat \<Rightarrow> nat" where
  "line_at txt offset = length (split_on (CHR 0x0A) (take offset txt))"


subsection \<open>What the collapsing emits\<close>

text \<open>
  The pairs of offset and character that the collapsing appends from a state in which a
  character was already some_kept (\<open>st\<close>) and a space is pending (\<open>p\<close>), and the state it ends in.
\<close>

fun emit :: "bool \<Rightarrow> nat option \<Rightarrow> nat \<Rightarrow> string \<Rightarrow> (nat \<times> char) list" where
  "emit st p i [] = []"
| "emit st p i (c # cs) =
     (if is_space c then emit st (if st \<and> p = None then Some i else p) (Suc i) cs
      else (case p of None \<Rightarrow> [] | Some q \<Rightarrow> [(q, CHR '' '')]) @ (i, c) # emit True None (Suc i) cs)"

fun pend :: "bool \<Rightarrow> nat option \<Rightarrow> nat \<Rightarrow> string \<Rightarrow> nat option" where
  "pend st p i [] = p"
| "pend st p i (c # cs) =
     (if is_space c then pend st (if st \<and> p = None then Some i else p) (Suc i) cs
      else pend True None (Suc i) cs)"

definition some_kept :: "bool \<Rightarrow> string \<Rightarrow> bool" where
  "some_kept st cs \<longleftrightarrow> st \<or> (\<exists>c \<in> set cs. \<not> is_space c)"

lemma include_from_emit:
  "(pending_space t \<noteq> None \<longrightarrow> ct_text t \<noteq> []) \<Longrightarrow>
     ct_text (include_from t i cs) = ct_text t @ map snd (emit (ct_text t \<noteq> []) (pending_space t) i cs)
     \<and> ct_offsets (include_from t i cs) = ct_offsets t @ map fst (emit (ct_text t \<noteq> []) (pending_space t) i cs)"
  by (induction cs arbitrary: t i)
     (auto simp: include_character_def append_space_def Let_def split: option.splits)

lemma collapse_emit:
  "ct_text (collapse raw) = map snd (emit False None 0 raw)"
  "ct_offsets (collapse raw) = map fst (emit False None 0 raw)"
  using include_from_emit [of "\<lparr>ct_text = [], ct_offsets = [], pending_space = None\<rparr>" 0 raw]
  by (auto simp: collapse_def Let_def)

lemma emit_append:
  "emit st p i (xs @ ys) = emit st p i xs @ emit (some_kept st xs) (pend st p i xs) (i + length xs) ys"
  by (induction st p i xs rule: emit.induct) (auto simp: some_kept_def)

lemma emit_at:
  "\<not> is_space c \<Longrightarrow> emit st p i (xs @ c # ys) =
     emit st p i xs @ (case pend st p i xs of None \<Rightarrow> [] | Some q \<Rightarrow> [(q, CHR '' '')])
       @ (i + length xs, c) # emit True None (Suc (i + length xs)) ys"
  by (simp add: emit_append)

lemma emit_shift:
  "(p = None \<longleftrightarrow> q = None) \<Longrightarrow> map snd (emit st p i cs) = map snd (emit st q j cs)"
proof (induction cs arbitrary: st p q i j)
  case (Cons c cs)
  show ?case
  proof (cases "is_space c")
    case True
    then show ?thesis
      using Cons.IH [of "if st \<and> p = None then Some i else p" "if st \<and> q = None then Some j else q"]
        Cons.prems by auto
  next
    case False
    with Cons.IH [of None None] Cons.prems show ?thesis by (auto split: option.splits)
  qed
qed simp

lemma emit_bounds:
  "(k, c) \<in> set (emit st p i cs) \<Longrightarrow> p = Some k \<or> i \<le> k \<and> k < i + length cs"
  by (induction st p i cs rule: emit.induct) (fastforce split: option.splits if_splits)+

lemma emit_distinct:
  "(\<And>q. p = Some q \<Longrightarrow> q < i) \<Longrightarrow> distinct (map fst (emit st p i cs))"
proof (induction st p i cs rule: emit.induct)
  case (2 st p i c cs)
  show ?case
  proof (cases "is_space c")
    case True
    with 2 show ?thesis by (auto simp: less_Suc_eq)
  next
    case False
    have "k \<noteq> i \<and> (\<forall>q. p = Some q \<longrightarrow> k \<noteq> q)" if "(k, x) \<in> set (emit True None (Suc i) cs)" for k x
      using emit_bounds [OF that] 2(3) by fastforce
    with False 2 show ?thesis by (force split: option.splits)
  qed
qed simp

lemma emit_member:
  "(k, c) \<in> set (emit st p i cs) \<Longrightarrow> \<not> is_space c \<Longrightarrow> \<exists>xs ys. cs = xs @ c # ys \<and> k = i + length xs"
proof (induction st p i cs rule: emit.induct)
  case (2 st p i x cs)
  have sp: "is_space (CHR '' '')" by (simp add: is_space_def)
  from 2 sp consider "\<not> is_space x" "k = i" "c = x" | xs ys where "cs = xs @ c # ys" "k = Suc i + length xs"
    by (auto split: if_splits option.splits)
  then show ?case
  proof cases
    case 1
    then show ?thesis by (intro exI [of _ "[]"] exI [of _ cs]) auto
  next
    case 2
    then show ?thesis by (intro exI [of _ "x # xs"] exI [of _ ys]) auto
  qed
qed simp

lemma emit_hd: "emit False None i cs \<noteq> [] \<Longrightarrow> \<not> is_space (snd (hd (emit False None i cs)))"
  by (induction cs arbitrary: i) auto

lemma emit_last: "emit st p i cs \<noteq> [] \<Longrightarrow> \<not> is_space (snd (last (emit st p i cs)))"
proof (induction st p i cs rule: emit.induct)
  case (2 st p i c cs)
  then show ?case by (cases "emit True None (Suc i) cs = []") (auto split: option.splits if_splits)
qed simp

lemma split_at_unique:
  assumes "distinct (map fst (us @ x # vs))" and "us @ x # vs = us' @ x # vs'"
  shows "us = us' \<and> vs = vs'"
  using assms by (subst (asm) append_Cons_eq_iff) force+


lemma emit_slice:
  assumes em: "emit False None 0 raw = A @ B @ C" and ne: "B \<noteq> []"
    and hd: "\<not> is_space (snd (hd B))" and la: "\<not> is_space (snd (last B))"
  shows "fst (hd B) \<le> fst (last B) \<and> fst (last B) < length raw
     \<and> ct_text (collapse (slice raw (fst (hd B)) (fst (last B) + 1))) = map snd B"
proof -
  obtain s c B' where B: "B = (s, c) # B'" using ne by (cases B) auto
  with hd have c: "\<not> is_space c" by simp
  have dist: "distinct (map fst (emit False None 0 raw))" by (rule emit_distinct) simp
  have "(s, c) \<in> set (emit False None 0 raw)" by (simp add: em B)
  then obtain xs ys where raw: "raw = xs @ c # ys" and s: "s = length xs"
    using emit_member [OF _ c] by fastforce
  obtain pre where "emit False None 0 raw = pre @ (s, c) # emit True None (Suc s) ys"
    using emit_at [OF c, of False None 0 xs ys] by (auto simp: raw s)
  moreover have "emit False None 0 raw = A @ (s, c) # (B' @ C)" by (simp add: em B)
  ultimately have tl: "B' @ C = emit True None (Suc s) ys"
    using dist split_at_unique by metis
  show ?thesis
  proof (cases "B' = []")
    case True
    have "slice raw s (s + 1) = [c]" by (simp add: raw s slice_def)
    with True c show ?thesis by (simp add: B raw s collapse_emit)
  next
    case False
    then obtain B2 e c2 where B': "B' = B2 @ [(e, c2)]" by (metis prod.exhaust rev_exhaust)
    with la B have c2: "\<not> is_space c2" by simp
    have "(e, c2) \<in> set (emit True None (Suc s) ys)" by (simp add: B' flip: tl)
    then obtain us vs where ys: "ys = us @ c2 # vs" and e: "e = Suc s + length us"
      using emit_member [OF _ c2] by blast
    define gap where "gap = (case pend True None (Suc s) us of None \<Rightarrow> [] | Some q \<Rightarrow> [(q, CHR '' '')])"
    have "B2 @ (e, c2) # C = (emit True None (Suc s) us @ gap) @ (e, c2) # emit True None (Suc e) vs"
      using emit_at [OF c2, of True None "Suc s" us vs] tl by (simp add: B' ys e gap_def)
    moreover have "distinct (map fst (B2 @ (e, c2) # C))"
      using dist by (simp add: em B B')
    ultimately have B2: "B2 = emit True None (Suc s) us @ gap"
      using split_at_unique by blast
    have sl: "slice raw s (e + 1) = c # us @ [c2]"
      by (simp add: raw ys s e slice_def)
    have "emit False None s (c # us @ [c2]) = (s, c) # emit True None (Suc s) us @ gap @ [(e, c2)]"
      using emit_at [OF c2, of True None "Suc s" us "[]"] c by (simp add: gap_def e)
    then have "map snd (emit False None 0 (c # us @ [c2])) = map snd B"
      using emit_shift [of None None False 0 "c # us @ [c2]" s] by (simp add: B B' B2)
    then have "ct_text (collapse (slice raw s (e + 1))) = map snd B"
      by (simp only: sl collapse_emit)
    moreover have "s \<le> e \<and> e < length raw" by (simp add: raw ys s e)
    ultimately show ?thesis by (simp add: B B')
  qed
qed

lemma emit_blank:
  "(\<forall>c \<in> set cs. is_space c) \<Longrightarrow> emit False None k cs = [] \<and> pend False None k cs = None"
  by (induction cs arbitrary: k) auto

lemma emit_infix:
  assumes "emit False None 0 mid \<noteq> []"
  shows "\<exists>us vs. map snd (emit st p i (xs @ mid @ ys)) = us @ map snd (emit False None 0 mid) @ vs"
proof -
  have "\<exists>c \<in> set mid. \<not> is_space c"
    using assms emit_blank [of mid 0] by blast
  then obtain as c bs where mid: "mid = as @ c # bs" and c: "\<not> is_space c"
    and as: "\<forall>x \<in> set as. is_space x"
    using split_list_first_prop [of mid "\<lambda>c. \<not> is_space c"] by auto
  from emit_blank [OF as]
  have m: "emit False None 0 mid = (length as, c) # emit True None (Suc (length as)) bs"
    using c by (simp add: mid emit_at)
  let ?j = "i + length (xs @ as)"
  obtain pre where "emit st p i ((xs @ as) @ c # (bs @ ys))
      = pre @ (?j, c) # emit True None (Suc ?j) (bs @ ys)"
    using emit_at [OF c, of st p i "xs @ as" "bs @ ys"] by auto
  then have "map snd (emit st p i (xs @ mid @ ys))
      = map snd pre @ (c # map snd (emit True None (Suc ?j) bs))
        @ map snd (emit (some_kept True bs) (pend True None (Suc ?j) bs) (Suc ?j + length bs) ys)"
    by (simp add: mid emit_append)
  moreover have "map snd (emit True None (Suc ?j) bs) = map snd (emit True None (Suc (length as)) bs)"
    by (rule emit_shift) simp
  ultimately have "map snd (emit st p i (xs @ mid @ ys))
      = map snd pre @ (c # map snd (emit True None (Suc (length as)) bs))
        @ map snd (emit (some_kept True bs) (pend True None (Suc ?j) bs) (Suc ?j + length bs) ys)"
    by (simp only:)
  with m show ?thesis by auto
qed

lemma occurrences_pos: "needle \<noteq> [] \<Longrightarrow> index_of hay needle = Some i \<Longrightarrow> 1 \<le> occurrences_of hay needle"
  by (subst occurrences_of.simps) simp

lemma collapsed_quote_ends:
  "collapsed_quote q \<noteq> [] \<Longrightarrow> \<not> is_space (hd (collapsed_quote q)) \<and> \<not> is_space (last (collapsed_quote q))"
  using emit_hd [of 0 q] emit_last [of False None 0 q]
  by (simp add: collapsed_quote_def collapse_emit hd_map last_map)

lemma map_eq_three:
  assumes "map f xs = us @ vs @ ws"
  obtains A B C where "xs = A @ B @ C" "map f A = us" "map f B = vs" "map f C = ws"
proof -
  from iffD1 [OF map_eq_append_conv assms]
  obtain A R where "xs = A @ R" "us = map f A" and R: "vs @ ws = map f R" by (elim exE conjE)
  moreover from iffD1 [OF map_eq_append_conv R [symmetric]]
  obtain B C where "R = B @ C" "vs = map f B" "ws = map f C" by (elim exE conjE)
  ultimately show ?thesis by (intro that [of A B C]) simp_all
qed

lemma match_emit:
  assumes "match raw quote = Some m"
  shows "\<exists>A B C. emit False None 0 raw = A @ B @ C \<and> B \<noteq> [] \<and> map snd B = collapsed_quote quote
     \<and> qm_start m = fst (hd B) \<and> qm_end m = fst (last B) + 1 \<and> 1 \<le> qm_occurrences m"
proof -
  let ?N = "emit False None 0 raw" and ?n = "collapsed_quote quote"
  from assms obtain i where ne: "?n \<noteq> []" and i: "index_of (map snd ?N) ?n = Some i"
    and m: "qm_start m = at_or (map fst ?N) i 0"
      "qm_end m = at_or (map fst ?N) (i + length ?n - 1) (qm_start m) + 1"
      "qm_occurrences m = occurrences_of (map snd ?N) ?n"
    by (auto simp: match_def Let_def collapse_emit split: if_splits option.splits)
  from index_of_Some [OF i] obtain us zs where sp: "map snd ?N = us @ ?n @ zs" and us: "length us = i"
    by blast
  obtain A B C where N: "?N = A @ B @ C" and A: "map snd A = us" and B: "map snd B = ?n"
    by (rule map_eq_three [OF sp])
  have len: "length A = i" "length B = length ?n"
    using us by (simp_all flip: A B)
  then have Bne: "B \<noteq> []" using ne by (metis length_0_conv)
  have "qm_start m = fst (hd B)"
    using Bne ne len by (simp add: m N at_or_def nth_append hd_conv_nth)
  moreover have ix: "i + length ?n - 1 = length A + (length B - 1)" "length B - 1 < length B"
    using Bne len by (cases B, simp_all)+
  then have "qm_end m = fst (last B) + 1"
    unfolding m(2) ix N using Bne trans_less_add1 [OF ix(2), of "length C"]
    by (simp add: at_or_def nth_append last_conv_nth)
  ultimately show ?thesis
    using N Bne B occurrences_pos [OF ne i] by (metis m(3))
qed

lemma match_sound_aux:
  assumes "match raw quote = Some m"
  shows "qm_start m < qm_end m \<and> qm_end m \<le> length raw \<and> 1 \<le> qm_occurrences m
     \<and> collapsed_quote (slice raw (qm_start m) (qm_end m)) = collapsed_quote quote"
proof -
  from match_emit [OF assms] obtain A B C where N: "emit False None 0 raw = A @ B @ C" "B \<noteq> []"
    and B: "map snd B = collapsed_quote quote"
    and m: "qm_start m = fst (hd B)" "qm_end m = fst (last B) + 1" "1 \<le> qm_occurrences m"
    by blast
  have "\<not> is_space (snd (hd B))" "\<not> is_space (snd (last B))"
    using collapsed_quote_ends [of quote] N(2) by (simp_all add: hd_map last_map flip: B)
  from emit_slice [OF N this] B m show ?thesis by (simp add: collapsed_quote_def)
qed

lemma match_ends:
  assumes "match raw quote = Some m"
  shows "raw ! qm_start m = hd (collapsed_quote quote) \<and> raw ! (qm_end m - 1) = last (collapsed_quote quote)"
proof -
  from match_emit [OF assms] obtain A B C where N: "emit False None 0 raw = A @ B @ C" "B \<noteq> []"
    and B: "map snd B = collapsed_quote quote"
    and m: "qm_start m = fst (hd B)" "qm_end m = fst (last B) + 1" by blast
  have nth: "raw ! fst x = snd x" if "x \<in> set B" "\<not> is_space (snd x)" for x
    using emit_member [of "fst x" "snd x" False None 0 raw] that N(1) by auto
  have "\<not> is_space (snd (hd B))" "\<not> is_space (snd (last B))"
    using collapsed_quote_ends [of quote] N(2) by (simp_all add: hd_map last_map flip: B)
  with nth [of "hd B"] nth [of "last B"] N(2) show ?thesis
    by (simp add: m hd_map last_map flip: B)
qed

lemma match_None_iff:
  "match raw quote = None \<longleftrightarrow>
     collapsed_quote quote = [] \<or> (\<nexists>s e. collapsed_quote (slice raw s e) = collapsed_quote quote)"
proof (cases "match raw quote")
  case (Some m)
  then have "collapsed_quote quote \<noteq> []" by (auto simp: match_def Let_def)
  with Some match_sound_aux [OF Some] show ?thesis by auto
next
  case None
  have "collapsed_quote quote = []" if eq: "collapsed_quote (slice raw s e) = collapsed_quote quote" for s e
  proof (rule ccontr)
    assume ne: "collapsed_quote quote \<noteq> []"
    obtain us ws where raw: "raw = us @ slice raw s e @ ws" using slice_split by blast
    have em: "map snd (emit False None 0 (slice raw s e)) = collapsed_quote quote"
      using eq by (simp only: collapsed_quote_def collapse_emit)
    with ne have "emit False None 0 (slice raw s e) \<noteq> []" by auto
    from emit_infix [OF this, of False None 0 us ws]
    have "\<exists>a b. map snd (emit False None 0 raw) = a @ collapsed_quote quote @ b"
      by (simp only: em flip: raw)
    then have "\<exists>a b. ct_text (collapse raw) = a @ collapsed_quote quote @ b"
      by (simp only: collapse_emit)
    then have "index_of (ct_text (collapse raw)) (collapsed_quote quote) \<noteq> None"
      by (simp add: index_of_None_iff del: not_None_eq)
    with None ne show False by (auto simp: match_def Let_def split: option.splits)
  qed
  with None show ?thesis by auto
qed

subsection \<open>Properties\<close>

text \<open>C13: no match is answered exactly when the quote is blank or no range of the source reads like
  it, so a quote the source holds is always found, however its white space was copied; and a match
  names a non-empty range of the raw source that lies within it and reads, with its white space
  collapsed, exactly like the quote, and counts at least that occurrence.\<close>

theorem match_exact:
  "case match raw quote of
     None \<Rightarrow> collapsed_quote quote = [] \<or> (\<nexists>s e. collapsed_quote (slice raw s e) = collapsed_quote quote)
   | Some m \<Rightarrow> qm_start m < qm_end m \<and> qm_end m \<le> length raw \<and> 1 \<le> qm_occurrences m
       \<and> collapsed_quote quote \<noteq> []
       \<and> collapsed_quote (slice raw (qm_start m) (qm_end m)) = collapsed_quote quote"
proof (cases "match raw quote")
  case None
  then show ?thesis using match_None_iff [of raw quote] by simp
next
  case (Some m)
  then have "collapsed_quote quote \<noteq> []" using match_None_iff [of raw quote] by auto
  with match_sound_aux [OF Some] Some show ?thesis by simp
qed

lemma match_exact_witness:
  "collapsed_quote (slice ''x  a\<newline> b y'' 3 7) = collapsed_quote ''a b '' \<and> match ''a b'' ''a  c'' = None"
proof -
  have "match ''x  a\<newline> b y'' ''a b '' = Some \<lparr>qm_start = 3, qm_end = 7, qm_occurrences = 1\<rparr>"
    "match ''a b'' ''a  c'' = None"
    by code_simp+
  with match_exact [where raw = "''x  a\<newline> b y''" and quote = "''a b ''"] show ?thesis by simp
qed

end
