(* ===== verification/EvidenceDiff.thy ===== *)
theory EvidenceDiff
  imports EvidenceQuote "HOL-Library.Sublist"
begin

text \<open>
  Finding a quote in a unified diff, \<open>evidence-diff-hunks.ts\<close> and \<open>evidence-diff.ts\<close>: the
  diff is read into hunks whose lines keep their offset in the whole diff, the hunks of one
  file are projected to one searched text with an offset per character, and a match in that
  text is answered as a hunk or as a range of the raw diff.
\<close>

record diff_line =
  dl_text :: string
  dl_offset :: nat

record diff_hunk =
  dh_file :: string
  dh_header :: string
  dh_file_header :: "diff_line list"
  dh_header_line :: diff_line
  dh_lines :: "diff_line list"

datatype exchange_field = MessageField | ProductOwnerAnswerField
datatype harness_result = CheckIntegrity | LocalChecks | HarnessFailure

datatype evidence_locator =
    LinesLocator string nat nat nat
  | HunkLocator string string nat
  | CommitSubjectLocator nat
  | ExchangeLocator nat exchange_field nat nat
  | HarnessLocator harness_result bool
  | AbsentLocator

subsection \<open>Reading hunks\<close>

text \<open>The pattern \<open>^@@ [^@]* @@\<close>: the run without an at sign is as long as it can be, so it must
  end in the space that the closing \<open>@@\<close> follows.\<close>

definition hunk_header :: "string \<Rightarrow> string option" where
  "hunk_header line =
     (let rest = drop 3 line; run = takeWhile (\<lambda>c. c \<noteq> CHR ''@'') rest
      in if starts_with line ''@@ '' \<and> run \<noteq> [] \<and> last run = CHR '' ''
            \<and> starts_with (drop (length run) rest) ''@@''
         then Some (''@@ '' @ run @ ''@@'') else None)"

definition diff_file_name :: "string \<Rightarrow> string" where
  "diff_file_name line =
     (let name = drop (length ''--- '') line
      in if starts_with name ''a/'' \<or> starts_with name ''b/'' then drop 2 name else name)"

text \<open>\<open>DiffHunkReader\<close>. The source's \<open>current\<close> points at the last hunk pushed to \<open>parsed\<close>; the
  model keeps its index.\<close>

record hunk_reader =
  hr_parsed :: "diff_hunk list"
  hr_removed :: string
  hr_file :: string
  hr_file_header :: "diff_line list"
  hr_current :: "nat option"
  hr_offset :: nat

definition new_hunk_reader :: hunk_reader where
  "new_hunk_reader = \<lparr>hr_parsed = [], hr_removed = '''', hr_file = '''', hr_file_header = [],
     hr_current = None, hr_offset = 0\<rparr>"

definition start_file :: "string \<Rightarrow> nat \<Rightarrow> hunk_reader \<Rightarrow> hunk_reader" where
  "start_file line start r =
     r\<lparr>hr_current := None, hr_file_header := [\<lparr>dl_text = line, dl_offset = start\<rparr>]\<rparr>"

definition update_file_names :: "string \<Rightarrow> hunk_reader \<Rightarrow> hunk_reader" where
  "update_file_names line r =
     (if hr_current r \<noteq> None then r
      else let r1 = (if starts_with line ''--- ''
                     then r\<lparr>hr_removed := diff_file_name line\<rparr> else r)
           in if starts_with line ''+++ ''
              then r1\<lparr>hr_file := (if line = ''+++ /dev/null'' then hr_removed r1
                                   else diff_file_name line)\<rparr>
              else r1)"

definition append_line :: "string \<Rightarrow> nat \<Rightarrow> hunk_reader \<Rightarrow> hunk_reader" where
  "append_line line start r =
     (let l = \<lparr>dl_text = line, dl_offset = start\<rparr>
      in case hr_current r of
           None \<Rightarrow> r\<lparr>hr_file_header := hr_file_header r @ [l]\<rparr>
         | Some i \<Rightarrow> r\<lparr>hr_parsed := (hr_parsed r)[i := (hr_parsed r ! i)
                          \<lparr>dh_lines := dh_lines (hr_parsed r ! i) @ [l]\<rparr>]\<rparr>)"

definition start_hunk :: "string \<Rightarrow> nat \<Rightarrow> string \<Rightarrow> hunk_reader \<Rightarrow> hunk_reader" where
  "start_hunk line start header r =
     r\<lparr>hr_current := Some (length (hr_parsed r)),
       hr_parsed := hr_parsed r @
         [\<lparr>dh_file = hr_file r, dh_header = header, dh_file_header = hr_file_header r,
           dh_header_line = \<lparr>dl_text = line, dl_offset = start\<rparr>, dh_lines = []\<rparr>],
       hr_file_header := []\<rparr>"

definition include_line :: "hunk_reader \<Rightarrow> string \<Rightarrow> hunk_reader" where
  "include_line r0 line =
     (let start = hr_offset r0;
          r = r0\<lparr>hr_offset := start + length line + 1\<rparr>
      in if starts_with line ''diff --git '' then start_file line start r
         else let r1 = update_file_names line r
              in case hunk_header line of
                   None \<Rightarrow> append_line line start r1
                 | Some header \<Rightarrow> start_hunk line start header r1)"

definition diff_hunks :: "string \<Rightarrow> diff_hunk list" where
  "diff_hunks diff = hr_parsed (foldl include_line new_hunk_reader (split_on (CHR 0x0A) diff))"

subsection \<open>The searched text of one file\<close>

record file_text =
  ft_text :: string
  ft_offsets :: "nat list"
  ft_hunk_starts :: "nat list"

text \<open>The \<open>Map\<close> from file to hunks, in insertion order.\<close>

fun add_to_file :: "diff_hunk \<Rightarrow> (string \<times> diff_hunk list) list \<Rightarrow> (string \<times> diff_hunk list) list" where
  "add_to_file h [] = [(dh_file h, [h])]"
| "add_to_file h ((f, hs) # files) =
     (if f = dh_file h then (f, hs @ [h]) # files else (f, hs) # add_to_file h files)"

definition hunks_by_file :: "string \<Rightarrow> (string \<Rightarrow> bool) \<Rightarrow> diff_hunk list list" where
  "hunks_by_file diff cites =
     map snd (foldl (\<lambda>files h. if cites (dh_file h) then add_to_file h files else files)
                [] (diff_hunks diff))"

definition include_characters :: "diff_line \<Rightarrow> string \<Rightarrow> file_text \<Rightarrow> file_text" where
  "include_characters line kept t =
     (let skipped = length (dl_text line) - length kept
      in t\<lparr>ft_text := ft_text t @ kept,
           ft_offsets := ft_offsets t @ map (\<lambda>column. dl_offset line + skipped + column) [0..<length kept]\<rparr>)"

definition include_text_line :: "nat \<Rightarrow> nat \<Rightarrow> file_text \<Rightarrow> nat \<times> diff_line \<Rightarrow> file_text" where
  "include_text_line prefix_length whole_length t il =
     (case il of (index, line) \<Rightarrow>
        let t1 = (if ft_hunk_starts t \<noteq> [] \<or> index > 0
                  then t\<lparr>ft_text := ft_text t @ [CHR 0x0A],
                         ft_offsets := ft_offsets t @ [dl_offset line - 1]\<rparr> else t);
            t2 = (if index = 0
                  then t1\<lparr>ft_hunk_starts := ft_hunk_starts t1 @ [length (ft_text t1)]\<rparr> else t1);
            kept = (if index < whole_length then dl_text line
                    else drop prefix_length (dl_text line))
        in include_characters line kept t2)"

definition include_hunk :: "nat \<Rightarrow> file_text \<Rightarrow> diff_hunk \<Rightarrow> file_text" where
  "include_hunk prefix_length t h =
     (let whole = dh_file_header h @ [dh_header_line h]
      in foldl (include_text_line prefix_length (length whole)) t
           (List.enumerate 0 (whole @ dh_lines h)))"

definition file_text_of :: "diff_hunk list \<Rightarrow> nat \<Rightarrow> file_text" where
  "file_text_of hunks prefix_length =
     foldl (include_hunk prefix_length) \<lparr>ft_text = [], ft_offsets = [], ft_hunk_starts = []\<rparr> hunks"

definition PREFIX_LENGTHS :: "nat list" where
  "PREFIX_LENGTHS = [1, 0]"

subsection \<open>Locating\<close>

text \<open>\<open>findLastIndex\<close> of the starts that are not past the match; a file that has a start has one
  at 0, and the source indexes with -1 where none is found.\<close>

definition hunk_at :: "diff_hunk list \<Rightarrow> nat list \<Rightarrow> nat \<Rightarrow> diff_hunk option" where
  "hunk_at hunks starts pos =
     (case find_last (\<lambda>i. starts ! i \<le> pos) [0..<length starts] of
        None \<Rightarrow> None
      | Some i \<Rightarrow> if i < length hunks then Some (hunks ! i) else None)"

definition located_in_file :: "string \<Rightarrow> nat \<Rightarrow> diff_hunk list \<Rightarrow> (diff_hunk \<times> quote_match) list" where
  "located_in_file quote prefix_length hunks =
     (let t = file_text_of hunks prefix_length
      in case match (ft_text t) quote of
           None \<Rightarrow> []
         | Some located \<Rightarrow>
             (case hunk_at hunks (ft_hunk_starts t) (qm_start located) of
                None \<Rightarrow> [] | Some h \<Rightarrow> [(h, located)]))"

fun locate_with :: "string \<Rightarrow> diff_hunk list list \<Rightarrow> nat list \<Rightarrow> evidence_locator option" where
  "locate_with quote files [] = None"
| "locate_with quote files (p # ps) =
     (let found = concat (map (located_in_file quote p) files)
      in case found of
           [] \<Rightarrow> locate_with quote files ps
         | (h, located) # _ \<Rightarrow>
             Some (HunkLocator (dh_file h) (dh_header h)
               (foldl (\<lambda>n (h', l). n + qm_occurrences l) 0 found)))"

definition locate_in_diff :: "string \<Rightarrow> string \<Rightarrow> (string \<Rightarrow> bool) \<Rightarrow> evidence_locator option" where
  "locate_in_diff quote diff cites = locate_with quote (hunks_by_file diff cites) PREFIX_LENGTHS"

definition span_in_file_text :: "file_text \<Rightarrow> nat \<Rightarrow> string \<Rightarrow> span option" where
  "span_in_file_text t hunk_index quote =
     (let from = at_or (ft_hunk_starts t) hunk_index 0
      in case match (drop from (ft_text t)) quote of
           None \<Rightarrow> None
         | Some found \<Rightarrow>
             (let start = at_or (ft_offsets t) (from + qm_start found) 0
              in Some \<lparr>span_start = start,
                       span_end = at_or (ft_offsets t) (from + qm_end found - 1) start + 1\<rparr>))"

fun first_some :: "('a \<Rightarrow> 'b option) \<Rightarrow> 'a list \<Rightarrow> 'b option" where
  "first_some f [] = None"
| "first_some f (x # xs) = (case f x of None \<Rightarrow> first_some f xs | Some y \<Rightarrow> Some y)"

definition span_in_diff :: "string \<Rightarrow> string \<Rightarrow> string \<Rightarrow> string \<Rightarrow> span option" where
  "span_in_diff quote diff file hunk =
     (let hunks = (case hunks_by_file diff (\<lambda>f. f = file) of [] \<Rightarrow> [] | hs # _ \<Rightarrow> hs)
      in case find_index (\<lambda>h. dh_header h = hunk) hunks of
           None \<Rightarrow> None
         | Some i \<Rightarrow> first_some (\<lambda>p. span_in_file_text (file_text_of hunks p) i quote) PREFIX_LENGTHS)"

subsection \<open>Lines and their offsets\<close>

definition hunk_all_lines :: "diff_hunk \<Rightarrow> diff_line list" where
  "hunk_all_lines h = dh_file_header h @ dh_header_line h # dh_lines h"

fun lines_from :: "nat \<Rightarrow> string list \<Rightarrow> diff_line list" where
  "lines_from k [] = []"
| "lines_from k (l # ls) = \<lparr>dl_text = l, dl_offset = k\<rparr> # lines_from (k + length l + 1) ls"

definition reads :: "string \<Rightarrow> diff_line \<Rightarrow> bool" where
  "reads diff l \<longleftrightarrow> (\<exists>us vs. diff = us @ dl_text l @ vs \<and> length us = dl_offset l
     \<and> (us \<noteq> [] \<longrightarrow> last us = CHR 0x0A))"

definition before :: "diff_line \<Rightarrow> diff_line \<Rightarrow> bool" where
  "before a b \<longleftrightarrow> dl_offset a + length (dl_text a) < dl_offset b"

lemma lines_from_ge: "l \<in> set (lines_from k ls) \<Longrightarrow> k \<le> dl_offset l"
  by (induction ls arbitrary: k) fastforce+

lemma lines_from_sorted: "sorted_wrt before (lines_from k ls)"
  by (induction ls arbitrary: k) (auto simp: before_def dest!: lines_from_ge)

lemma lines_from_append:
  "lines_from k (xs @ ys) = lines_from k xs @ lines_from (k + sum_list (map (\<lambda>l. length l + 1) xs)) ys"
  by (induction xs arbitrary: k) (auto simp: ac_simps)

lemma join_split_on: "join_with [c] (split_on c xs) = xs"
proof (induction xs)
  case (Cons x xs)
  then show ?case by (cases "split_on c xs"; cases "tl (split_on c xs)") auto
qed simp

lemma lines_from_reads:
  "\<lbrakk>diff = us @ join_with [CHR 0x0A] ls; length us = k; us \<noteq> [] \<Longrightarrow> last us = CHR 0x0A;
    l \<in> set (lines_from k ls)\<rbrakk> \<Longrightarrow> reads diff l"
proof (induction ls arbitrary: us k)
  case (Cons x xs)
  show ?case
  proof (cases "l = \<lparr>dl_text = x, dl_offset = k\<rparr>")
    case True
    then show ?thesis
      using Cons.prems unfolding reads_def
      by (intro exI [of _ us] exI [of _ "if xs = [] then [] else CHR 0x0A # join_with [CHR 0x0A] xs"])
         (cases xs, auto)
  next
    case False
    with Cons.prems have "l \<in> set (lines_from (k + length x + 1) xs)" by auto
    moreover from this have "xs \<noteq> []" by auto
    ultimately show ?thesis
      using Cons.prems Cons.IH [of "us @ x @ [CHR 0x0A]" "k + length x + 1"]
      by (cases xs) auto
  qed
qed simp

lemma reads_slice:
  "reads diff l \<Longrightarrow> slice diff (dl_offset l) (dl_offset l + length (dl_text l)) = dl_text l"
  unfolding reads_def using slice_infix by metis

lemma reads_nth:
  "reads diff l \<Longrightarrow> i < length (dl_text l) \<Longrightarrow>
     dl_offset l + i < length diff \<and> diff ! (dl_offset l + i) = dl_text l ! i"
  by (auto simp: reads_def nth_append)

lemma reads_newline:
  "reads diff l \<Longrightarrow> 0 < dl_offset l \<Longrightarrow> dl_offset l - 1 < length diff \<and> diff ! (dl_offset l - 1) = CHR 0x0A"
  by (auto simp: reads_def nth_append last_conv_nth)

subsection \<open>The reader keeps the diff's lines in order\<close>

definition reader_lines :: "hunk_reader \<Rightarrow> diff_line list" where
  "reader_lines r = concat (map hunk_all_lines (hr_parsed r)) @ hr_file_header r"

definition reader_ok :: "hunk_reader \<Rightarrow> bool" where
  "reader_ok r \<longleftrightarrow> (\<forall>i. hr_current r = Some i \<longrightarrow>
     hr_parsed r \<noteq> [] \<and> i = length (hr_parsed r) - 1 \<and> hr_file_header r = [])"

lemma subseq_append_left: "subseq (xs @ ys) zs \<Longrightarrow> subseq xs zs"
  by (meson prefixI prefix_imp_subseq subseq_order.trans)

lemma update_file_names_keeps [simp]:
  "hr_parsed (update_file_names line r) = hr_parsed r"
  "hr_file_header (update_file_names line r) = hr_file_header r"
  "hr_current (update_file_names line r) = hr_current r"
  "hr_offset (update_file_names line r) = hr_offset r"
  by (simp_all add: update_file_names_def Let_def)

lemma append_line_lines:
  assumes "reader_ok r"
  shows "reader_ok (append_line line start r)
     \<and> reader_lines (append_line line start r) = reader_lines r @ [\<lparr>dl_text = line, dl_offset = start\<rparr>]
     \<and> hr_offset (append_line line start r) = hr_offset r"
proof (cases "hr_current r")
  case (Some i)
  with assms obtain hs h where "hr_parsed r = hs @ [h]" "i = length hs" "hr_file_header r = []"
    by (auto simp: reader_ok_def) (metis append_butlast_last_id length_butlast)
  with Some show ?thesis
    by (simp add: append_line_def reader_ok_def reader_lines_def hunk_all_lines_def)
qed (simp add: append_line_def reader_ok_def reader_lines_def)

lemma include_line_lines:
  assumes "reader_ok r" and "subseq (reader_lines r) ls"
  shows "reader_ok (include_line r line)
     \<and> subseq (reader_lines (include_line r line)) (ls @ [\<lparr>dl_text = line, dl_offset = hr_offset r\<rparr>])
     \<and> hr_offset (include_line r line) = hr_offset r + length line + 1"
proof -
  let ?r = "r\<lparr>hr_offset := hr_offset r + length line + 1\<rparr>"
  let ?u = "update_file_names line ?r" and ?l = "\<lparr>dl_text = line, dl_offset = hr_offset r\<rparr>"
  have ok: "reader_ok ?u" and ul: "reader_lines ?u = reader_lines r"
    using assms(1) by (simp_all add: reader_ok_def reader_lines_def)
  have "subseq (concat (map hunk_all_lines (hr_parsed r))) ls"
    using assms(2) unfolding reader_lines_def by (rule subseq_append_left)
  then have parsed: "subseq (concat (map hunk_all_lines (hr_parsed r)) @ [?l]) (ls @ [?l])"
    and all: "subseq (reader_lines r @ [?l]) (ls @ [?l])"
    using assms(2) by (auto intro: list_emb_append_mono)
  show ?thesis
  proof (cases "starts_with line ''diff --git ''")
    case True
    with parsed show ?thesis
      by (simp add: include_line_def Let_def start_file_def reader_ok_def reader_lines_def)
  next
    case False
    show ?thesis
    proof (cases "hunk_header line")
      case None
      with False all ul append_line_lines [OF ok, of line "hr_offset r"] show ?thesis
        by (simp add: include_line_def Let_def)
    next
      case (Some h)
      have "reader_ok (start_hunk line (hr_offset r) h ?u)
          \<and> reader_lines (start_hunk line (hr_offset r) h ?u) = reader_lines r @ [?l]"
        by (simp add: start_hunk_def reader_ok_def reader_lines_def hunk_all_lines_def)
      with False all Some show ?thesis
        by (simp add: include_line_def Let_def) (simp add: start_hunk_def)
    qed
  qed
qed

lemma include_lines_lines:
  "\<lbrakk>reader_ok r; subseq (reader_lines r) ls\<rbrakk> \<Longrightarrow>
     subseq (reader_lines (foldl include_line r xs)) (ls @ lines_from (hr_offset r) xs)"
proof (induction xs arbitrary: r ls)
  case (Cons x xs)
  note step = include_line_lines [OF Cons.prems, of x]
  from Cons.IH [OF conjunct1 [OF step] conjunct1 [OF conjunct2 [OF step]]] step show ?case
    by simp
qed simp

lemma diff_hunks_subseq:
  "subseq (concat (map hunk_all_lines (diff_hunks diff))) (lines_from 0 (split_on (CHR 0x0A) diff))"
proof -
  have "subseq (reader_lines (foldl include_line new_hunk_reader (split_on (CHR 0x0A) diff)))
      (lines_from 0 (split_on (CHR 0x0A) diff))"
    using include_lines_lines [of new_hunk_reader "[]" "split_on (CHR 0x0A) diff"]
    by (simp add: new_hunk_reader_def reader_ok_def reader_lines_def)
  then show ?thesis
    unfolding reader_lines_def diff_hunks_def by (rule subseq_append_left)
qed

lemma diff_hunks_reads:
  "l \<in> set (concat (map hunk_all_lines (diff_hunks diff))) \<Longrightarrow> reads diff l"
  using lines_from_reads [of diff "[]" "split_on (CHR 0x0A) diff" 0 l]
    list_emb_set [OF diff_hunks_subseq, of l] by (auto simp: join_split_on)

lemma sorted_wrt_subseq:
  assumes "subseq xs ys" and "sorted_wrt P ys"
  shows "sorted_wrt P xs"
  using assms
proof (induction rule: list_emb.induct)
  case (list_emb_Cons2 x y xs ys)
  then show ?case by (auto dest: list_emb_set)
qed auto

lemma diff_hunks_sorted: "sorted_wrt before (concat (map hunk_all_lines (diff_hunks diff)))"
  using sorted_wrt_subseq [OF diff_hunks_subseq lines_from_sorted] .

subsection \<open>The hunks of one file\<close>

lemma map_of_add_to_file:
  "map_of (add_to_file h files) f =
     (if f = dh_file h then Some (case map_of files f of None \<Rightarrow> [h] | Some hs \<Rightarrow> hs @ [h])
      else map_of files f)"
  by (induction h files rule: add_to_file.induct) auto

lemma distinct_add_to_file:
  "distinct (map fst files) \<Longrightarrow> distinct (map fst (add_to_file h files))"
proof (induction h files rule: add_to_file.induct)
  case (2 h f hs files)
  have "fst ` set (add_to_file h files) = insert (dh_file h) (fst ` set files)" for files
    by (induction h files rule: add_to_file.induct) auto
  with 2 show ?case by auto
qed simp

definition file_hunks :: "string \<Rightarrow> (string \<Rightarrow> bool) \<Rightarrow> string \<Rightarrow> diff_hunk list" where
  "file_hunks diff cites f = filter (\<lambda>h. cites (dh_file h) \<and> dh_file h = f) (diff_hunks diff)"

lemma set_hunks_by_file:
  "set (hunks_by_file diff cites) = {hs. hs \<noteq> [] \<and> (\<exists>f. hs = file_hunks diff cites f)}"
proof -
  define add where "add = (\<lambda>files h. if cites (dh_file h) then add_to_file h files else files)"
  have inv: "map_of (foldl add [] hs) f =
        (let g = filter (\<lambda>h. cites (dh_file h) \<and> dh_file h = f) hs in if g = [] then None else Some g)"
    for hs f
    by (induction hs rule: rev_induct) (auto simp: add_def Let_def map_of_add_to_file)
  have "distinct (map fst (foldl add [] hs))" for hs
    by (induction hs rule: rev_induct) (auto simp: add_def distinct_add_to_file)
  then have d: "distinct (map fst (foldl add [] (diff_hunks diff)))" .
  have by_file: "hunks_by_file diff cites = map snd (foldl add [] (diff_hunks diff))"
    by (simp add: hunks_by_file_def add_def)
  have "hs \<in> set (hunks_by_file diff cites)
      \<longleftrightarrow> (\<exists>f. map_of (foldl add [] (diff_hunks diff)) f = Some hs)" for hs
    unfolding by_file using d by force
  moreover have "map_of (foldl add [] (diff_hunks diff)) f = Some hs
      \<longleftrightarrow> hs \<noteq> [] \<and> hs = file_hunks diff cites f" for f hs
    unfolding inv by (auto simp: file_hunks_def Let_def)
  ultimately show ?thesis by blast
qed

lemma subseq_concat_filter: "subseq (concat (map f (filter p xs))) (concat (map f xs))"
  by (induction xs) (auto intro: list_emb_append_mono subseq_drop_many)

lemma file_hunks_reads:
  "l \<in> set (concat (map hunk_all_lines (file_hunks diff cites f))) \<Longrightarrow> reads diff l"
  using diff_hunks_reads by (fastforce simp: file_hunks_def)

lemma file_hunks_sorted: "sorted_wrt before (concat (map hunk_all_lines (file_hunks diff cites f)))"
  unfolding file_hunks_def by (rule sorted_wrt_subseq [OF subseq_concat_filter diff_hunks_sorted])

subsection \<open>What the searched text of a file holds\<close>

text \<open>The characters a line contributes past its first \<open>skip\<close>, and those of a list of such
  pieces, each after a line break but for the first of the text.\<close>

definition piece :: "diff_line \<Rightarrow> nat \<Rightarrow> (nat \<times> char) list" where
  "piece l skip =
     (let s = drop skip (dl_text l)
      in map (\<lambda>c. (dl_offset l + (length (dl_text l) - length s) + c, s ! c)) [0..<length s])"

fun pieces :: "(diff_line \<times> nat) list \<Rightarrow> (nat \<times> char) list" where
  "pieces [] = []"
| "pieces ((l, skip) # ls) = (dl_offset l - 1, CHR 0x0A) # piece l skip @ pieces ls"

definition hunk_pieces :: "nat \<Rightarrow> diff_hunk \<Rightarrow> (diff_line \<times> nat) list" where
  "hunk_pieces p h = map (\<lambda>l. (l, 0)) (dh_file_header h @ [dh_header_line h])
     @ map (\<lambda>l. (l, p)) (dh_lines h)"

lemma piece_parts: "map snd (piece l skip) = drop skip (dl_text l)"
  using map_nth [of "drop skip (dl_text l)"] by (simp add: piece_def Let_def comp_def)

lemma pieces_append: "pieces (xs @ ys) = pieces xs @ pieces ys"
  by (induction xs rule: pieces.induct) auto

lemma include_characters_piece:
  "include_characters l (drop skip (dl_text l)) t =
     t\<lparr>ft_text := ft_text t @ map snd (piece l skip), ft_offsets := ft_offsets t @ map fst (piece l skip)\<rparr>"
  by (simp add: include_characters_def piece_parts) (simp add: piece_def Let_def comp_def)

lemma include_later_lines:
  "0 < n \<Longrightarrow> foldl (include_text_line p w) t (List.enumerate n ls) =
     (let ps = pieces (map (\<lambda>(i, l). (l, if i < w then 0 else p)) (List.enumerate n ls))
      in t\<lparr>ft_text := ft_text t @ map snd ps, ft_offsets := ft_offsets t @ map fst ps\<rparr>)"
proof (induction ls arbitrary: t n)
  case (Cons l ls)
  have "include_text_line p w t (n, l) =
      include_characters l (drop (if n < w then 0 else p) (dl_text l))
        (t\<lparr>ft_text := ft_text t @ [CHR 0x0A], ft_offsets := ft_offsets t @ [dl_offset l - 1]\<rparr>)"
    using Cons.prems by (simp add: include_text_line_def Let_def)
  with Cons.IH [of "Suc n"] Cons.prems show ?case
    by (simp add: include_characters_piece Let_def)
qed (simp add: Let_def)

lemma hunk_pieces_enumerate:
  "map (\<lambda>(i, l). (l, if i < length ws then 0 else p)) (List.enumerate 0 (ws @ ls))
     = map (\<lambda>l. (l, 0)) ws @ map (\<lambda>l. (l, p)) ls"
proof -
  have front: "map (\<lambda>(i, l). (l, if i < n + length ws then 0 else p)) (List.enumerate n ws)
      = map (\<lambda>l. (l, 0)) ws" for n
  proof (induction ws arbitrary: n)
    case (Cons w ws)
    from Cons [of "Suc n"] show ?case by simp
  qed simp
  moreover have "map (\<lambda>(i, l). (l, if i < length ws then 0 else p)) (List.enumerate n ls)
      = map (\<lambda>l. (l, p)) ls" if "length ws \<le> n" for n
    using that by (induction ls arbitrary: n) auto
  ultimately show ?thesis
    using front [of 0] by (simp add: enumerate_append_eq)
qed

lemma include_hunk_pieces:
  "include_hunk p t h =
     (let ps = pieces (hunk_pieces p h); fresh = ft_hunk_starts t = [];
          qs = (if fresh then tl ps else ps)
      in t\<lparr>ft_text := ft_text t @ map snd qs, ft_offsets := ft_offsets t @ map fst qs,
           ft_hunk_starts := ft_hunk_starts t @ [length (ft_text t) + (if fresh then 0 else 1)]\<rparr>)"
proof -
  obtain l ls where ls: "dh_file_header h @ dh_header_line h # dh_lines h = l # ls"
    by (cases "dh_file_header h") auto
  let ?w = "length (dh_file_header h @ [dh_header_line h])"
  let ?t = "t\<lparr>ft_text := ft_text t @ (if ft_hunk_starts t = [] then [] else [CHR 0x0A]),
      ft_offsets := ft_offsets t @ (if ft_hunk_starts t = [] then [] else [dl_offset l - 1]),
      ft_hunk_starts := ft_hunk_starts t @ [length (ft_text t) + (if ft_hunk_starts t = [] then 0 else 1)]\<rparr>"
  have "include_text_line p ?w t (0, l) = include_characters l (drop 0 (dl_text l)) ?t"
    by (simp add: include_text_line_def Let_def)
  moreover have "hunk_pieces p h = (l, 0) # map (\<lambda>(i, l). (l, if i < ?w then 0 else p)) (List.enumerate 1 ls)"
    using hunk_pieces_enumerate [of "dh_file_header h @ [dh_header_line h]" p "dh_lines h"] ls
    by (simp add: hunk_pieces_def)
  moreover have "include_hunk p t h =
      foldl (include_text_line p ?w) (include_text_line p ?w t (0, l)) (List.enumerate 1 ls)"
    using ls by (simp add: include_hunk_def Let_def)
  ultimately show ?thesis
    by (simp add: include_later_lines include_characters_piece [of _ 0, simplified] Let_def)
qed

definition file_pieces :: "diff_hunk list \<Rightarrow> nat \<Rightarrow> (nat \<times> char) list" where
  "file_pieces hunks p = tl (pieces (concat (map (hunk_pieces p) hunks)))"

lemma hunk_pieces_not_Nil: "pieces (hunk_pieces p h) \<noteq> []"
  by (cases "dh_file_header h") (auto simp: hunk_pieces_def)

lemma file_text_pieces:
  "ft_text (file_text_of hunks p) = map snd (file_pieces hunks p)
   \<and> ft_offsets (file_text_of hunks p) = map fst (file_pieces hunks p)
   \<and> ft_hunk_starts (file_text_of hunks p) = map (\<lambda>i. length (file_pieces (take i hunks) p)
         + (if i = 0 then 0 else 1)) [0..<length hunks]"
proof (induction hunks rule: rev_induct)
  case (snoc h hs)
  have "file_text_of (hs @ [h]) p = include_hunk p (file_text_of hs p) h"
    by (simp add: file_text_of_def)
  moreover have "ft_hunk_starts (file_text_of hs p) = [] \<longleftrightarrow> hs = []"
    using snoc by auto
  moreover have "hs \<noteq> [] \<Longrightarrow> pieces (concat (map (hunk_pieces p) hs)) \<noteq> []"
    by (cases hs) (auto simp: pieces_append hunk_pieces_not_Nil)
  ultimately show ?case
    using snoc by (auto simp: include_hunk_pieces Let_def file_pieces_def pieces_append)
qed (simp add: file_text_of_def file_pieces_def)

lemma piece_reads:
  "reads diff l \<Longrightarrow> (k, c) \<in> set (piece l skip) \<Longrightarrow>
     k < length diff \<and> diff ! k = c \<and> dl_offset l \<le> k \<and> k < dl_offset l + length (dl_text l)"
proof -
  assume r: "reads diff l" and m: "(k, c) \<in> set (piece l skip)"
  let ?s = "drop skip (dl_text l)"
  from m obtain i where i: "i < length ?s" and c: "c = ?s ! i"
    and k: "k = dl_offset l + (length (dl_text l) - length ?s) + i"
    by (auto simp: piece_def Let_def)
  have j: "length (dl_text l) - length ?s = skip" using i by simp
  from reads_nth [OF r, of "skip + i"] i c k show ?thesis by (simp add: j add.assoc)
qed

lemma piece_sorted: "sorted_wrt (<) (map fst (piece l skip))"
  by (simp add: piece_def Let_def sorted_wrt_map sorted_wrt_iff_nth_less)

lemma pieces_reads:
  assumes "\<forall>(l, skip) \<in> set ps. reads diff l \<and> 0 < dl_offset l" and "(k, c) \<in> set (pieces ps)"
  shows "k < length diff \<and> diff ! k = c"
  using assms by (induction ps rule: pieces.induct) (auto dest: reads_newline piece_reads)

lemma pieces_sorted:
  "\<lbrakk>\<forall>(l, skip) \<in> set ps. reads diff l \<and> low < dl_offset l; sorted_wrt before (map fst ps)\<rbrakk> \<Longrightarrow>
     sorted_wrt (<) (map fst (pieces ps)) \<and> (\<forall>k \<in> set (map fst (pieces ps)). low \<le> k)"
proof (induction ps arbitrary: low rule: pieces.induct)
  case (2 l skip ls)
  let ?high = "dl_offset l + length (dl_text l)"
  have tail: "sorted_wrt (<) (map fst (pieces ls)) \<and> (\<forall>k \<in> set (map fst (pieces ls)). ?high \<le> k)"
    using 2 by (intro "2.IH") (auto simp: before_def)
  have line: "dl_offset l \<le> k \<and> k < ?high" if "k \<in> set (map fst (piece l skip))" for k
    using 2(2) that piece_reads [of diff l] by fastforce
  have low: "low < dl_offset l" using 2(2) by auto
  have "k < k'" if "k \<in> set (map fst (piece l skip))" "k' \<in> set (map fst (pieces ls))" for k k'
    using line [OF that(1)] tail that(2) by fastforce
  moreover have "dl_offset l - 1 < k" if "k \<in> set (map fst (piece l skip)) \<union> set (map fst (pieces ls))" for k
    using line tail that low by fastforce
  moreover have "low \<le> k" if "k \<in> set (map fst (pieces ((l, skip) # ls)))" for k
    using line tail that low by fastforce
  ultimately show ?case
    using tail piece_sorted [of l skip] by (auto simp: sorted_wrt_append)
qed simp

lemma fst_hunk_pieces: "map fst (concat (map (hunk_pieces p) hs)) = concat (map hunk_all_lines hs)"
  by (induction hs) (auto simp: hunk_pieces_def hunk_all_lines_def comp_def)

text \<open>Every character of a file's searched text is the diff's character at its offset, and the
  offsets increase.\<close>

lemma file_pieces_faithful:
  "(\<forall>(k, c) \<in> set (file_pieces (file_hunks diff cites f) p). k < length diff \<and> diff ! k = c)
   \<and> sorted_wrt (<) (map fst (file_pieces (file_hunks diff cites f) p))"
proof -
  let ?ps = "concat (map (hunk_pieces p) (file_hunks diff cites f))"
  show ?thesis
  proof (cases ?ps)
    case Nil
    show ?thesis unfolding file_pieces_def Nil by simp
  next
    case (Cons q qs)
    obtain l skip where q: "q = (l, skip)" by (cases q)
    have lines: "concat (map hunk_all_lines (file_hunks diff cites f)) = l # map fst qs"
      using fst_hunk_pieces [of p "file_hunks diff cites f"] Cons q by simp
    have rd: "reads diff m" if "m \<in> set (l # map fst qs)" for m
      using file_hunks_reads [of m diff cites f] that by (simp only: lines)
    have so: "sorted_wrt before (l # map fst qs)"
      using file_hunks_sorted [of diff cites f] by (simp only: lines)
    have q1: "\<forall>(m, s) \<in> set qs. reads diff m \<and> dl_offset l + length (dl_text l) < dl_offset m"
    proof (clarify, intro conjI)
      fix m s assume "(m, s) \<in> set qs"
      then have "m \<in> set (map fst qs)" by (metis fst_conv image_eqI list.set_map)
      with rd so show "reads diff m" "dl_offset l + length (dl_text l) < dl_offset m"
        by (auto simp: before_def)
    qed
    have tail: "sorted_wrt (<) (map fst (pieces qs))"
      "\<forall>k \<in> set (map fst (pieces qs)). dl_offset l + length (dl_text l) \<le> k"
      using pieces_sorted [OF q1] so by simp_all
    have fp: "file_pieces (file_hunks diff cites f) p = piece l skip @ pieces qs"
      by (simp add: file_pieces_def Cons q)
    have q0: "\<forall>(m, s) \<in> set qs. reads diff m \<and> 0 < dl_offset m" using q1 by fastforce
    have rl: "reads diff l" using rd by simp
    have "k < length diff \<and> diff ! k = c" if "(k, c) \<in> set (piece l skip @ pieces qs)" for k c
      using that piece_reads [OF rl, of k c skip] pieces_reads [OF q0, of k c] by auto
    moreover have "k < k'" if "k \<in> set (map fst (piece l skip))" "k' \<in> set (map fst (pieces qs))" for k k'
    proof -
      have "k < dl_offset l + length (dl_text l)"
        using that(1) piece_reads [of diff l] rd [of l] by fastforce
      with tail(2) that(2) show ?thesis by fastforce
    qed
    ultimately show ?thesis
      unfolding fp using tail(1) piece_sorted [of l skip] by (auto simp: sorted_wrt_append)
  qed
qed

lemma file_text_lengths:
  "length (ft_text (file_text_of hs p)) = length (file_pieces hs p)"
  "length (ft_offsets (file_text_of hs p)) = length (file_pieces hs p)"
  "length (ft_hunk_starts (file_text_of hs p)) = length hs"
  by (simp_all add: file_text_pieces)

lemma file_text_faithful:
  assumes "i < length (ft_text (file_text_of (file_hunks diff cites f) p))"
  shows "ft_offsets (file_text_of (file_hunks diff cites f) p) ! i < length diff
     \<and> diff ! (ft_offsets (file_text_of (file_hunks diff cites f) p) ! i)
         = ft_text (file_text_of (file_hunks diff cites f) p) ! i"
proof -
  let ?N = "file_pieces (file_hunks diff cites f) p"
  have "?N ! i \<in> set ?N" using assms by (simp add: file_text_lengths)
  from bspec [OF conjunct1 [OF file_pieces_faithful] this] assms show ?thesis
    by (simp add: file_text_pieces case_prod_beta)
qed

lemma file_offsets_increase:
  "\<lbrakk>i < j; j < length (ft_text (file_text_of (file_hunks diff cites f) p))\<rbrakk> \<Longrightarrow>
     ft_offsets (file_text_of (file_hunks diff cites f) p) ! i
       < ft_offsets (file_text_of (file_hunks diff cites f) p) ! j"
  using file_pieces_faithful [of diff cites f p]
  by (auto simp: file_text_pieces sorted_wrt_iff_nth_less)

subsection \<open>Where a match lies\<close>

lemma find_last_index:
  "find_last P [0..<n] = Some i \<longleftrightarrow> i < n \<and> P i \<and> (\<forall>j. i < j \<longrightarrow> j < n \<longrightarrow> \<not> P j)"
  by (induction n) (auto simp: find_last_def less_Suc_eq)

lemma hunk_at_start:
  assumes "hunk_at hs (ft_hunk_starts (file_text_of hs p)) pos = Some h"
  shows "\<exists>hs1 hs2. hs = hs1 @ h # hs2
     \<and> length (ft_text (file_text_of hs1 p)) + (if hs1 = [] then 0 else 1) \<le> pos
     \<and> (hs2 = [] \<or> pos \<le> length (ft_text (file_text_of (hs1 @ [h]) p)))"
proof -
  let ?st = "\<lambda>i. length (file_pieces (take i hs) p) + (if i = 0 then 0 else 1)"
  from assms obtain i where i: "find_last (\<lambda>i. ft_hunk_starts (file_text_of hs p) ! i \<le> pos) [0..<length hs] = Some i"
    and h: "i < length hs" "h = hs ! i"
    by (auto simp: hunk_at_def file_text_lengths split: option.splits if_splits)
  have st: "ft_hunk_starts (file_text_of hs p) ! j = ?st j" if "j < length hs" for j
    using that by (simp add: file_text_pieces)
  from i h st have "?st i \<le> pos" by (simp add: find_last_index)
  moreover have "pos < ?st (Suc i)" if "Suc i < length hs"
    using i that st [of "Suc i"] by (auto simp: find_last_index not_le)
  ultimately have "length (ft_text (file_text_of (take i hs) p)) + (if take i hs = [] then 0 else 1) \<le> pos
     \<and> (drop (Suc i) hs = [] \<or> pos \<le> length (ft_text (file_text_of (take i hs @ [h]) p)))"
    using h by (cases "Suc i < length hs") (auto simp: file_text_lengths take_Suc_conv_app_nth less_Suc_eq_le)
  moreover have "hs = take i hs @ h # drop (Suc i) hs"
    using h by (simp add: id_take_nth_drop)
  ultimately show ?thesis by blast
qed

lemma hunk_at_total:
  "hs \<noteq> [] \<Longrightarrow> \<exists>h. hunk_at hs (ft_hunk_starts (file_text_of hs p)) pos = Some h"
proof -
  assume ne: "hs \<noteq> []"
  have "ft_hunk_starts (file_text_of hs p) ! 0 = 0"
    using ne by (simp add: file_text_pieces file_pieces_def)
  with ne have "find_last (\<lambda>i. ft_hunk_starts (file_text_of hs p) ! i \<le> pos) [0..<length hs] \<noteq> None"
    unfolding find_last_None by (simp, intro bexI [of _ 0]) simp_all
  then obtain i where i: "find_last (\<lambda>i. ft_hunk_starts (file_text_of hs p) ! i \<le> pos) [0..<length hs] = Some i"
    by blast
  then have "i < length hs" by (simp add: find_last_index)
  with i show ?thesis by (simp add: hunk_at_def file_text_lengths)
qed

lemma located_in_file_iff:
  "(h, m) \<in> set (located_in_file quote p hs) \<longleftrightarrow>
     match (ft_text (file_text_of hs p)) quote = Some m
     \<and> hunk_at hs (ft_hunk_starts (file_text_of hs p)) (qm_start m) = Some h"
  by (auto simp: located_in_file_def Let_def split: option.splits)

lemma located_in_file_Nil:
  "hs \<noteq> [] \<Longrightarrow> located_in_file quote p hs = [] \<longleftrightarrow> match (ft_text (file_text_of hs p)) quote = None"
  by (frule hunk_at_total [of hs p "qm_start (the (match (ft_text (file_text_of hs p)) quote))"])
     (fastforce simp: located_in_file_def Let_def split: option.splits)

lemma locate_with_None:
  "\<forall>hs \<in> set files. hs \<noteq> [] \<Longrightarrow> locate_with quote files ps = None \<longleftrightarrow>
     (\<forall>p \<in> set ps. \<forall>hs \<in> set files. match (ft_text (file_text_of hs p)) quote = None)"
proof (induction ps)
  case (Cons p ps)
  have "concat (map (located_in_file quote p) files) = [] \<longleftrightarrow>
      (\<forall>hs \<in> set files. match (ft_text (file_text_of hs p)) quote = None)"
    using Cons.prems by (simp add: located_in_file_Nil)
  with Cons show ?case
    by (cases "concat (map (located_in_file quote p) files)") (auto simp: Let_def simp del: concat_eq_Nil_conv)
qed simp

lemma locate_with_Some:
  "locate_with quote files ps = Some loc \<Longrightarrow>
     \<exists>p \<in> set ps. \<exists>hs \<in> set files. \<exists>h m n. (h, m) \<in> set (located_in_file quote p hs)
       \<and> loc = HunkLocator (dh_file h) (dh_header h) (qm_occurrences m + n)"
proof (induction ps)
  case (Cons p ps)
  show ?case
  proof (cases "concat (map (located_in_file quote p) files)")
    case Nil
    with Cons show ?thesis by (auto simp: Let_def)
  next
    case (Cons hm rest)
    obtain h m where hm: "hm = (h, m)" by (cases hm)
    have "(h, m) \<in> set (concat (map (located_in_file quote p) files))" by (simp add: Cons hm)
    then obtain hs where hs: "hs \<in> set files" "(h, m) \<in> set (located_in_file quote p hs)" by auto
    have sum: "foldl (\<lambda>n (h', l). n + qm_occurrences l) k xs
        = k + foldl (\<lambda>n (h', l). n + qm_occurrences l) 0 xs" for k xs
    proof (induction xs arbitrary: k)
      case (Cons x xs)
      show ?case
        using Cons [of "k + qm_occurrences (snd x)"] Cons [of "qm_occurrences (snd x)"]
        by (simp add: case_prod_beta)
    qed simp
    have "loc = HunkLocator (dh_file h) (dh_header h)
        (qm_occurrences m + foldl (\<lambda>n (h', l). n + qm_occurrences l) 0 rest)"
      using Cons.prems sum [of "qm_occurrences m" rest] by (simp add: Let_def Cons hm)
    with hs show ?thesis by fastforce
  qed
qed simp

lemma hunk_start_offset:
  fixes diff cites f p
  defines "hs \<equiv> file_hunks diff cites f"
  defines "t \<equiv> file_text_of hs p"
  assumes i: "i < length hs" and k: "ft_hunk_starts t ! i \<le> k" "k < length (ft_text t)"
  shows "dl_offset (hd (hunk_all_lines (hs ! i))) \<le> ft_offsets t ! k"
proof -
  let ?P = "\<lambda>hs. pieces (concat (map (hunk_pieces p) hs))"
  define l where "l = hd (hunk_all_lines (hs ! i))"
  have "\<exists>rest. pieces (hunk_pieces p (hs ! i)) = (dl_offset l - 1, CHR 0x0A) # rest"
    by (cases "dh_file_header (hs ! i)") (auto simp: l_def hunk_all_lines_def hunk_pieces_def)
  then obtain rest where rest: "pieces (hunk_pieces p (hs ! i)) = (dl_offset l - 1, CHR 0x0A) # rest" ..
  have hs: "hs = take i hs @ hs ! i # drop (Suc i) hs" using i by (simp add: id_take_nth_drop)
  have "?P hs = ?P (take i hs) @ ?P (hs ! i # drop (Suc i) hs)"
    by (subst hs) (simp only: map_append concat_append pieces_append)
  then have P: "?P hs = ?P (take i hs) @ (dl_offset l - 1, CHR 0x0A) # rest @ ?P (drop (Suc i) hs)"
    by (simp add: pieces_append rest)
  show ?thesis
  proof (cases i)
    case (Suc j)
    then have ne: "?P (take i hs) \<noteq> []"
      using i by (cases hs) (auto simp: pieces_append hunk_pieces_not_Nil)
    have st: "ft_hunk_starts t ! i = length (file_pieces (take i hs) p) + 1"
      using i Suc by (simp add: t_def file_text_pieces)
    have "file_pieces hs p = file_pieces (take i hs) p @ (dl_offset l - 1, CHR 0x0A) # rest @ ?P (drop (Suc i) hs)"
      using ne by (simp add: file_pieces_def P)
    then have "ft_offsets t ! length (file_pieces (take i hs) p) = dl_offset l - 1"
      by (simp add: t_def file_text_pieces nth_append)
    with file_offsets_increase [of "length (file_pieces (take i hs) p)" k diff cites f p] k st
    show ?thesis by (simp add: hs_def t_def l_def)
  next
    case 0
    have "dl_offset l \<le> x" if "x \<in> set (map fst (file_pieces hs p))" for x
    proof (cases "dl_offset l = 0")
      case False
      have lines: "concat (map hunk_all_lines hs) = map fst (concat (map (hunk_pieces p) hs))"
        by (simp add: fst_hunk_pieces)
      obtain ls where ls: "concat (map hunk_all_lines hs) = l # ls"
        using 0 i by (cases hs; cases "dh_file_header (hs ! 0)") (auto simp: l_def hunk_all_lines_def)
      have so: "sorted_wrt before (l # ls)"
        using file_hunks_sorted [of diff cites f] by (simp add: hs_def [symmetric] ls)
      have "reads diff m \<and> dl_offset l - 1 < dl_offset m" if "m \<in> set (l # ls)" for m
        using file_hunks_reads [of m diff cites f] so that False
        by (auto simp: hs_def [symmetric] ls before_def)
      then have "\<forall>(m, s) \<in> set (concat (map (hunk_pieces p) hs)). reads diff m \<and> dl_offset l - 1 < dl_offset m"
        using lines ls by (metis (mono_tags, lifting) case_prodI2 fst_conv image_eqI list.set_map)
      from pieces_sorted [OF this] so have "sorted_wrt (<) (map fst (?P hs))"
        by (simp only: lines [symmetric] ls)
      then have "\<forall>x \<in> set (map fst (file_pieces hs p)). dl_offset l - 1 < x"
        by (simp add: P 0 file_pieces_def)
      with that False show ?thesis by fastforce
    qed simp
    moreover have "ft_offsets t ! k \<in> set (map fst (file_pieces hs p))"
      using k by (simp add: t_def file_text_pieces file_text_lengths)
    ultimately show ?thesis by (simp add: l_def)
  qed
qed

lemma first_some_ex: "first_some f xs = Some y \<Longrightarrow> \<exists>x \<in> set xs. f x = Some y"
  by (induction xs) (auto split: option.splits)

lemma span_in_file_text_sound:
  fixes diff cites f p
  defines "hs \<equiv> file_hunks diff cites f"
  assumes sp: "span_in_file_text (file_text_of hs p) i quote = Some s" and i: "i < length hs"
  shows "dl_offset (hd (hunk_all_lines (hs ! i))) \<le> span_start s
     \<and> span_start s < span_end s \<and> span_end s \<le> length diff
     \<and> diff ! span_start s = hd (collapsed_quote quote)
     \<and> diff ! (span_end s - 1) = last (collapsed_quote quote)"
proof -
  define t where "t = file_text_of hs p"
  define a where "a = ft_hunk_starts t ! i"
  have a: "at_or (ft_hunk_starts t) i 0 = a"
    using i by (simp add: a_def t_def at_or_def file_text_lengths)
  from sp [folded t_def] obtain m where m: "match (drop a (ft_text t)) quote = Some m"
    and s: "s = \<lparr>span_start = at_or (ft_offsets t) (a + qm_start m) 0,
      span_end = at_or (ft_offsets t) (a + qm_end m - 1) (at_or (ft_offsets t) (a + qm_start m) 0) + 1\<rparr>"
    by (auto simp: span_in_file_text_def a Let_def split: option.splits)
  from match_sound_aux [OF m] have b: "qm_start m < qm_end m" "a + qm_end m \<le> length (ft_text t)" by auto
  have len: "length (ft_offsets t) = length (ft_text t)" by (simp add: t_def file_text_lengths)
  define k where "k = a + qm_start m"
  define e where "e = a + qm_end m - 1"
  have ke: "k \<le> e" "e < length (ft_text t)" using b by (auto simp: k_def e_def)
  then have s': "span_start s = ft_offsets t ! k" "span_end s = ft_offsets t ! e + 1"
    unfolding s k_def [symmetric] e_def [symmetric] using len by (simp_all add: at_or_def)
  have o: "ft_offsets t ! j < length diff \<and> diff ! (ft_offsets t ! j) = ft_text t ! j" if "j \<le> e" for j
    using file_text_faithful [of j diff cites f p] that ke by (simp add: t_def hs_def)
  have "ft_offsets t ! k \<le> ft_offsets t ! e"
    using file_offsets_increase [of k e diff cites f p] ke by (cases "k = e") (auto simp: t_def hs_def)
  moreover have "dl_offset (hd (hunk_all_lines (hs ! i))) \<le> ft_offsets t ! k"
    using hunk_start_offset [of i diff cites f p k] i ke
    by (simp add: t_def [unfolded hs_def] hs_def k_def a_def)
  moreover have "ft_text t ! k = hd (collapsed_quote quote)" "ft_text t ! e = last (collapsed_quote quote)"
    using match_ends [OF m] b by (simp_all add: k_def e_def)
  ultimately show ?thesis
    using o [of k] o [of e] ke by (simp add: s')
qed

subsection \<open>Properties\<close>

text \<open>Every line of a hunk, header lines included, carries the offset at which the whole diff
  holds that very text, and the lines of all hunks follow each other in the diff without overlap.\<close>

theorem diff_hunks_exact:
  "list_all (\<lambda>l. slice diff (dl_offset l) (dl_offset l + length (dl_text l)) = dl_text l)
     (concat (map hunk_all_lines (diff_hunks diff)))
   \<and> sorted_wrt (\<lambda>a b. dl_offset a + length (dl_text a) < dl_offset b)
       (concat (map hunk_all_lines (diff_hunks diff)))"
  using diff_hunks_sorted [of diff] reads_slice [OF diff_hunks_reads]
  by (auto simp: list_all_iff before_def [abs_def])

lemma span_in_diff_result:
  assumes "span_in_diff quote diff file hunk = Some s"
  shows "span_start s < span_end s \<and> span_end s \<le> length diff
     \<and> diff ! span_start s = hd (collapsed_quote quote)
     \<and> diff ! (span_end s - 1) = last (collapsed_quote quote)
     \<and> (\<exists>h \<in> set (diff_hunks diff). dh_file h = file \<and> dh_header h = hunk
          \<and> dl_offset (hd (hunk_all_lines h)) \<le> span_start s)"
proof -
  define hs where "hs = (case hunks_by_file diff (\<lambda>f. f = file) of [] \<Rightarrow> [] | hs # _ \<Rightarrow> hs)"
  from assms obtain i p where i: "find_index (\<lambda>h. dh_header h = hunk) hs = Some i"
    and p: "span_in_file_text (file_text_of hs p) i quote = Some s"
    by (auto simp: span_in_diff_def hs_def [symmetric] Let_def split: option.splits dest: first_some_ex)
  from find_index_Some [OF i] have "i < length hs" "dh_header (hs ! i) = hunk" by auto
  then have "hs \<in> set (hunks_by_file diff (\<lambda>f. f = file))"
    by (auto simp: hs_def split: list.splits)
  then obtain f where f: "hs = file_hunks diff (\<lambda>f. f = file) f" by (auto simp: set_hunks_by_file)
  have "hs ! i \<in> set hs" using \<open>i < length hs\<close> by simp
  then have "hs ! i \<in> set (diff_hunks diff)" "dh_file (hs ! i) = file" by (auto simp: f file_hunks_def)
  with span_in_file_text_sound [of diff "\<lambda>f. f = file" f p i quote s] p \<open>i < length hs\<close>
    \<open>dh_header (hs ! i) = hunk\<close> show ?thesis by (auto simp: f)
qed

text \<open>C18: a quote is located in a diff exactly when the searched text of a cited file holds it,
  with or without the prefixes; the locator then names a hunk of a cited file in whose part of
  that text the match starts. The range answered for a located quote lies in the raw diff, starts
  within or after the first line of the hunk the locator names, and begins and ends on the quote's
  first and last characters.\<close>

theorem locate_in_diff_exact:
  "(locate_in_diff quote diff cites = None \<longleftrightarrow>
      list_all (\<lambda>p. list_all (\<lambda>hs. match (ft_text (file_text_of hs p)) quote = None)
        (hunks_by_file diff cites)) [1, 0])
   \<and> (\<forall>loc. locate_in_diff quote diff cites = Some loc \<longrightarrow>
      (\<exists>hs1 h hs2 p m n. hs1 @ h # hs2 = filter (\<lambda>g. dh_file g = dh_file h) (diff_hunks diff)
        \<and> cites (dh_file h) \<and> p \<in> {0, 1}
        \<and> match (ft_text (file_text_of (hs1 @ h # hs2) p)) quote = Some m
        \<and> length (ft_text (file_text_of hs1 p)) + (if hs1 = [] then 0 else 1) \<le> qm_start m
        \<and> (hs2 = [] \<or> qm_start m \<le> length (ft_text (file_text_of (hs1 @ [h]) p)))
        \<and> qm_occurrences m \<le> n \<and> loc = HunkLocator (dh_file h) (dh_header h) n))
   \<and> (\<forall>file hunk s. span_in_diff quote diff file hunk = Some s \<longrightarrow>
      span_start s < span_end s \<and> span_end s \<le> length diff
        \<and> diff ! span_start s = hd (collapsed_quote quote)
        \<and> diff ! (span_end s - 1) = last (collapsed_quote quote)
        \<and> (\<exists>h \<in> set (diff_hunks diff). dh_file h = file \<and> dh_header h = hunk
             \<and> dl_offset (hd (hunk_all_lines h)) \<le> span_start s))"
proof (intro conjI allI impI)
  show "locate_in_diff quote diff cites = None \<longleftrightarrow>
      list_all (\<lambda>p. list_all (\<lambda>hs. match (ft_text (file_text_of hs p)) quote = None)
        (hunks_by_file diff cites)) [1, 0]"
    unfolding locate_in_diff_def
    by (subst locate_with_None) (simp_all add: set_hunks_by_file PREFIX_LENGTHS_def list_all_iff)
next
  fix loc
  assume "locate_in_diff quote diff cites = Some loc"
  from locate_with_Some [OF this [unfolded locate_in_diff_def]]
  obtain p hs h m n where "p \<in> set PREFIX_LENGTHS" and hs: "hs \<in> set (hunks_by_file diff cites)"
    and l: "(h, m) \<in> set (located_in_file quote p hs)"
      "loc = HunkLocator (dh_file h) (dh_header h) (qm_occurrences m + n)"
    by blast
  then have p: "p \<in> {0, 1}" by (auto simp: PREFIX_LENGTHS_def)
  from l(1) have m: "match (ft_text (file_text_of hs p)) quote = Some m"
    and at: "hunk_at hs (ft_hunk_starts (file_text_of hs p)) (qm_start m) = Some h"
    by (simp_all add: located_in_file_iff)
  from hunk_at_start [OF at] obtain hs1 hs2 where split: "hs = hs1 @ h # hs2"
    and pos: "length (ft_text (file_text_of hs1 p)) + (if hs1 = [] then 0 else 1) \<le> qm_start m"
      "hs2 = [] \<or> qm_start m \<le> length (ft_text (file_text_of (hs1 @ [h]) p))" by blast
  from hs obtain f where f: "hs = file_hunks diff cites f" by (auto simp: set_hunks_by_file)
  have "h \<in> set (file_hunks diff cites f)" by (simp flip: f add: split)
  then have h: "cites (dh_file h)" "f = dh_file h" by (auto simp: file_hunks_def)
  have hs': "hs1 @ h # hs2 = filter (\<lambda>g. dh_file g = dh_file h) (diff_hunks diff)"
    unfolding split [symmetric] f file_hunks_def using h by (auto intro: filter_cong)
  show "\<exists>hs1 h hs2 p m n. hs1 @ h # hs2 = filter (\<lambda>g. dh_file g = dh_file h) (diff_hunks diff)
        \<and> cites (dh_file h) \<and> p \<in> {0, 1}
        \<and> match (ft_text (file_text_of (hs1 @ h # hs2) p)) quote = Some m
        \<and> length (ft_text (file_text_of hs1 p)) + (if hs1 = [] then 0 else 1) \<le> qm_start m
        \<and> (hs2 = [] \<or> qm_start m \<le> length (ft_text (file_text_of (hs1 @ [h]) p)))
        \<and> qm_occurrences m \<le> n \<and> loc = HunkLocator (dh_file h) (dh_header h) n"
    using hs' h(1) p m [unfolded split] pos l(2)
    by (intro exI [of _ hs1] exI [of _ h] exI [of _ hs2] exI [of _ p] exI [of _ m]
        exI [of _ "qm_occurrences m + n"] conjI) simp_all
qed (use span_in_diff_result in blast)+

definition sample_diff :: string where
  "sample_diff = join_with [CHR 0x0A]
     [''diff --git a/f b/f'', ''--- a/f'', ''+++ b/f'', ''@@ -1 +1 @@'', ''-old'', ''+new line'',
      ''@@ -9 +9 @@'', ''+more'', ''+last line'']"

lemma locate_in_diff_exact_witness:
  "\<exists>hs1 h hs2 p m. hs1 @ h # hs2 = filter (\<lambda>g. dh_file g = dh_file h) (diff_hunks sample_diff)
     \<and> dh_file h = ''f'' \<and> match (ft_text (file_text_of (hs1 @ h # hs2) p)) ''more last'' = Some m
     \<and> dh_header h = ''@@ -9 +9 @@''"
proof -
  have "locate_in_diff ''more last'' sample_diff (\<lambda>f. f = ''f'') = Some (HunkLocator ''f'' ''@@ -9 +9 @@'' 1)"
    by code_simp
  from locate_in_diff_exact [THEN conjunct2, THEN conjunct1, rule_format, OF this] obtain hs1 h hs2 p m n
    where 1: "hs1 @ h # hs2 = filter (\<lambda>g. dh_file g = dh_file h) (diff_hunks sample_diff)"
      and 2: "match (ft_text (file_text_of (hs1 @ h # hs2) p)) ''more last'' = Some m"
      and loc: "HunkLocator ''f'' ''@@ -9 +9 @@'' 1 = HunkLocator (dh_file h) (dh_header h) n"
    by blast
  from loc have "dh_file h = ''f''" "dh_header h = ''@@ -9 +9 @@''" by simp_all
  with 1 2 show ?thesis by blast
qed

end
