(* ===== verification/Grades.thy ===== *)
theory Grades
  imports Prelude
begin

text \<open>
  Results and letters shared by the Judges' answers and the events of a run:
  \<open>stage-letter-grades.ts\<close> and the statuses of \<open>judge-evidence-contract.ts\<close>.
\<close>

datatype pass_fail = PASS | FAIL
datatype stage_verdict = CONTINUE | STOP
datatype letter = GradeA | GradeB | GradeC | GradeD | GradeF

definition STAGE_LETTER_GRADES :: "letter list" where
  "STAGE_LETTER_GRADES = [GradeA, GradeB, GradeC, GradeD, GradeF]"

text \<open>\<open>GRADE_ORDER.indexOf\<close>.\<close>

definition grade_index :: "letter \<Rightarrow> nat" where
  "grade_index l = the (find_index (\<lambda>g. g = l) STAGE_LETTER_GRADES)"

subsection \<open>Letters are ordered by their index\<close>

text \<open>The order of \<open>GRADE_ORDER\<close>, best first, so that the worst of two letters is their maximum.\<close>

instantiation letter :: linorder
begin

definition less_eq_letter :: "letter \<Rightarrow> letter \<Rightarrow> bool" where
  "less_eq_letter a b \<longleftrightarrow> grade_index a \<le> grade_index b"

definition less_letter :: "letter \<Rightarrow> letter \<Rightarrow> bool" where
  "less_letter a b \<longleftrightarrow> grade_index a < grade_index b"

instance
proof
  fix a b :: letter
  show "a \<le> b \<Longrightarrow> b \<le> a \<Longrightarrow> a = b"
    by (cases a; cases b) (simp_all add: less_eq_letter_def grade_index_def STAGE_LETTER_GRADES_def)
qed (auto simp: less_eq_letter_def less_letter_def)

end

lemma grade_index_simps [simp]:
  "grade_index GradeA = 0" "grade_index GradeB = 1" "grade_index GradeC = 2"
  "grade_index GradeD = 3" "grade_index GradeF = 4"
  by (simp_all add: grade_index_def STAGE_LETTER_GRADES_def)

lemma letter_best [simp]: "GradeA \<le> l"
  by (simp add: less_eq_letter_def)

lemma letter_worst [simp]: "l \<le> GradeF"
  by (cases l) (simp_all add: less_eq_letter_def)

end
