(* ===== verification/EvidenceLocator.thy ===== *)
theory EvidenceLocator
  imports EvidenceDiff Conversation Grades
begin

text \<open>
  Where a Judge's quote sits in the recorded evidence: in a list of files, in commit subjects
  and in a stage transcript (\<open>evidence-locator.ts\<close>), which sources a citation may name
  (\<open>contracts.ts\<close>, \<open>whole-source-citation.ts\<close>), and the checks and locators of a stage
  Judge's evidence (\<open>stage-judge-evidence.ts\<close>) and of a final Judge's
  (\<open>judge-evidence-location.ts\<close>).
\<close>

record cited_file =
  cf_file :: string
  cf_text :: string

subsection \<open>Locating in text\<close>

text \<open>The loop of \<open>locateInFiles\<close> over its two variables.\<close>

definition scan_file ::
    "string \<Rightarrow> (cited_file \<times> quote_match) option \<times> nat \<Rightarrow> cited_file \<Rightarrow> (cited_file \<times> quote_match) option \<times> nat"
where
  "scan_file quote st file =
     (case st of (first, occurrences) \<Rightarrow>
        (case match (cf_text file) quote of
           None \<Rightarrow> (first, occurrences)
         | Some found \<Rightarrow>
             (case first of None \<Rightarrow> Some (file, found) | Some f \<Rightarrow> Some f,
              occurrences + qm_occurrences found)))"

definition locate_in_files :: "string \<Rightarrow> cited_file list \<Rightarrow> evidence_locator option" where
  "locate_in_files quote files =
     (case foldl (scan_file quote) (None, 0) files of
        (None, _) \<Rightarrow> None
      | (Some (file, found), occurrences) \<Rightarrow>
          Some (LinesLocator (cf_file file) (line_at (cf_text file) (qm_start found))
            (line_at (cf_text file) (qm_end found - 1)) occurrences))"

definition locate_in_commit_subjects :: "string \<Rightarrow> string list \<Rightarrow> evidence_locator option" where
  "locate_in_commit_subjects quote subjects =
     (let txt = join_with [CHR 0x0A] subjects
      in case match txt quote of
           None \<Rightarrow> None
         | Some found \<Rightarrow> Some (CommitSubjectLocator (line_at txt (qm_start found) - 1)))"

definition span_in_commit_subjects :: "string \<Rightarrow> string list \<Rightarrow> nat \<Rightarrow> span option" where
  "span_in_commit_subjects quote subjects index =
     (let offset = foldl (\<lambda>n earlier. n + length earlier + 1) 0 (take index subjects)
      in map_option (\<lambda>found. \<lparr>span_start = offset + span_start found, span_end = offset + span_end found\<rparr>)
           (find_span (drop offset (join_with [CHR 0x0A] subjects)) quote))"

fun locate_in_exchanges_from :: "nat \<Rightarrow> string \<Rightarrow> stage_exchange list \<Rightarrow> evidence_locator option" where
  "locate_in_exchanges_from i quote [] = None"
| "locate_in_exchanges_from i quote (x # xs) =
     (case match (turn_message (agent x)) quote of
        Some m \<Rightarrow> Some (ExchangeLocator i MessageField (qm_start m) (qm_end m))
      | None \<Rightarrow>
          (case Option.bind (product_owner_answer x) (\<lambda>a. match a quote) of
             Some m \<Rightarrow> Some (ExchangeLocator i ProductOwnerAnswerField (qm_start m) (qm_end m))
           | None \<Rightarrow> locate_in_exchanges_from (Suc i) quote xs))"

definition locate_in_exchanges :: "string \<Rightarrow> stage_exchange list \<Rightarrow> evidence_locator option" where
  "locate_in_exchanges = locate_in_exchanges_from 0"

subsection \<open>Citations\<close>

definition to_lower :: "char \<Rightarrow> char" where
  "to_lower c = (if 65 \<le> (of_char c :: nat) \<and> (of_char c :: nat) \<le> 90 then char_of ((of_char c :: nat) + 32) else c)"

definition is_lower_alnum :: "char \<Rightarrow> bool" where
  "is_lower_alnum c =
     (let n = (of_char c :: nat) in 97 \<le> n \<and> n \<le> 122 \<or> 48 \<le> n \<and> n \<le> 57)"

text \<open>\<open>citation.split("#", 1)[0]\<close>: what stands before the first hash.\<close>

definition citation_file :: "string \<Rightarrow> string" where
  "citation_file citation = takeWhile (\<lambda>c. c \<noteq> CHR 0x23) citation"

definition normalized_source_citation :: "string \<Rightarrow> string" where
  "normalized_source_citation v = filter is_lower_alnum (map to_lower (citation_file v))"

definition cites_whole_source :: "string \<Rightarrow> string \<Rightarrow> bool" where
  "cites_whole_source path source \<longleftrightarrow> normalized_source_citation path = normalized_source_citation source"

text \<open>\<open>Bun.Glob\<close> is a parameter: \<open>None\<close> where its constructor throws, else the paths it
  matches. The \<open>Set\<close> of the two candidates keeps their order.\<close>

type_synonym glob = "string \<Rightarrow> (string \<Rightarrow> bool) option"

definition citation_matches_path :: "glob \<Rightarrow> string \<Rightarrow> string list \<Rightarrow> bool" where
  "citation_matches_path glob citation available =
     list_ex (\<lambda>candidate. candidate \<noteq> [] \<and>
        (case glob candidate of
           None \<Rightarrow> False
         | Some matches \<Rightarrow>
             list_ex (\<lambda>path. path = candidate \<or> starts_with path (candidate @ ''/'') \<or> matches path) available))
       (remdups [citation, citation_file citation])"

subsection \<open>What a stage Judge is given and what it answers\<close>

datatype stage_source =
    Task | ProductBrief | Instructions | TaskState | Transcript | Artifact | PriorArtifact
  | BaselineContext | Diff | CommitSubjects | SourceCheckIntegrity | SourceLocalChecks | SourceHarnessFailure

fun source_name :: "stage_source \<Rightarrow> string" where
  "source_name Task = ''task''"
| "source_name ProductBrief = ''product-brief''"
| "source_name Instructions = ''instructions''"
| "source_name TaskState = ''task-state''"
| "source_name Transcript = ''transcript''"
| "source_name Artifact = ''artifact''"
| "source_name PriorArtifact = ''prior-artifact''"
| "source_name BaselineContext = ''baseline-context''"
| "source_name Diff = ''diff''"
| "source_name CommitSubjects = ''commit-subjects''"
| "source_name SourceCheckIntegrity = ''check-integrity''"
| "source_name SourceLocalChecks = ''local-checks''"
| "source_name SourceHarnessFailure = ''harness-failure''"

datatype stage_kind = Planning | Delivery

record context_file =
  cx_path :: string
  cx_content :: string

record check_evidence =
  ce_claim :: string
  ce_path :: string

record local_check_result =
  lc_status :: pass_fail
  lc_evidence :: "check_evidence list"

record stage_judge_input =
  ji_stage :: string
  ji_kind :: stage_kind
  ji_task :: string
  ji_product_brief :: string
  ji_instructions :: string
  ji_baseline_context :: "context_file list"
  ji_task_state :: string
  ji_transcript :: stage_transcript
  ji_artifact :: "context_file option"
  ji_prior_artifacts :: "context_file list"
  ji_diff :: "string option"
  ji_changed_paths :: "string list option"
  ji_commit_subjects :: "string list option"
  ji_check_integrity :: "local_check_result option"
  ji_local_checks :: "local_check_result option"
  ji_harness_failure :: "string option"

record judge_evidence =
  je_claim :: string
  je_path :: string
  je_quote :: string
  je_source :: stage_source

record recorded_evidence =
  re_claim :: string
  re_path :: string
  re_source :: stage_source
  re_locator :: "evidence_locator option"
  re_quote :: "string option"

record 'e graded_item =
  gi_id :: string
  gi_status :: pass_fail
  gi_evidence :: "'e list"

record 'e graded_dimension =
  gd_id :: string
  gd_grade :: letter
  gd_evidence :: "'e list"

record 'e stage_output =
  so_dimensions :: "'e graded_dimension list"
  so_hard_blockers :: "'e graded_item list"
  so_requirements :: "'e graded_item list"
  so_summary :: string

subsection \<open>The stage Judge's evidence\<close>

definition available_paths :: "stage_judge_input \<Rightarrow> stage_source \<Rightarrow> string list" where
  "available_paths i s =
     (case s of
        Artifact \<Rightarrow> (case ji_artifact i of None \<Rightarrow> [] | Some a \<Rightarrow> [cx_path a])
      | BaselineContext \<Rightarrow> map cx_path (ji_baseline_context i)
      | SourceCheckIntegrity \<Rightarrow> [''harness'']
      | CommitSubjects \<Rightarrow> (if ji_commit_subjects i = None then [] else [''commitSubjects''])
      | Diff \<Rightarrow> (case ji_changed_paths i of None \<Rightarrow> [] | Some ps \<Rightarrow> ps)
      | SourceHarnessFailure \<Rightarrow> [''harness'']
      | Instructions \<Rightarrow> [''CLAUDE.md'']
      | SourceLocalChecks \<Rightarrow> [''harness'']
      | PriorArtifact \<Rightarrow> map cx_path (ji_prior_artifacts i)
      | ProductBrief \<Rightarrow> [''product-brief.md'']
      | Task \<Rightarrow> [''backlog-seed.md'']
      | TaskState \<Rightarrow> [''backlog/task.json'']
      | Transcript \<Rightarrow> [ji_stage i @ ''.transcript.json''])"

definition evidence_items :: "judge_evidence stage_output \<Rightarrow> (string \<times> judge_evidence) list" where
  "evidence_items out =
     concat (map (\<lambda>b. map (Pair (gi_id b)) (gi_evidence b)) (so_hard_blockers out))
     @ concat (map (\<lambda>b. map (Pair (gi_id b)) (gi_evidence b)) (so_requirements out))
     @ concat (map (\<lambda>d. map (Pair (gd_id d)) (gd_evidence d)) (so_dimensions out))"

definition check_citation :: "glob \<Rightarrow> stage_judge_input \<Rightarrow> string \<times> judge_evidence \<Rightarrow> string + unit" where
  "check_citation glob i ie =
     (case ie of (item, e) \<Rightarrow>
        if \<not> cites_whole_source (je_path e) (source_name (je_source e))
           \<and> \<not> citation_matches_path glob (je_path e) (available_paths i (je_source e))
        then Inl (''Stage Judge cited unavailable evidence for '' @ item @ '': ''
                  @ source_name (je_source e) @ '':'' @ je_path e)
        else Inr ())"

definition validate_stage_judge_evidence ::
    "glob \<Rightarrow> judge_evidence stage_output \<Rightarrow> stage_judge_input \<Rightarrow> string + unit" where
  "validate_stage_judge_evidence glob out i =
     bind_res (map_res (check_citation glob i) (evidence_items out)) (\<lambda>_. Inr ())"

definition text_files :: "context_file list \<Rightarrow> cited_file list" where
  "text_files files = map (\<lambda>f. \<lparr>cf_file = cx_path f, cf_text = cx_content f\<rparr>) files"

definition stage_text_files :: "stage_source \<Rightarrow> stage_judge_input \<Rightarrow> cited_file list" where
  "stage_text_files s i =
     (case s of
        Task \<Rightarrow> [\<lparr>cf_file = ''backlog-seed.md'', cf_text = ji_task i\<rparr>]
      | ProductBrief \<Rightarrow> [\<lparr>cf_file = ''product-brief.md'', cf_text = ji_product_brief i\<rparr>]
      | Instructions \<Rightarrow> [\<lparr>cf_file = ''CLAUDE.md'', cf_text = ji_instructions i\<rparr>]
      | TaskState \<Rightarrow> [\<lparr>cf_file = ''backlog/task.json'', cf_text = ji_task_state i\<rparr>]
      | Artifact \<Rightarrow> text_files (case ji_artifact i of None \<Rightarrow> [] | Some a \<Rightarrow> [a])
      | PriorArtifact \<Rightarrow> text_files (ji_prior_artifacts i)
      | BaselineContext \<Rightarrow> text_files (ji_baseline_context i)
      | _ \<Rightarrow> [])"

definition cites_file :: "glob \<Rightarrow> judge_evidence \<Rightarrow> string \<Rightarrow> bool" where
  "cites_file glob e file \<longleftrightarrow>
     cites_whole_source (je_path e) (source_name (je_source e)) \<or> citation_matches_path glob (je_path e) [file]"

text \<open>The type \<open>HarnessSource\<close> is the three sources below; the last branch stands for its
  third member.\<close>

definition HARNESS_RESULTS :: "stage_source \<Rightarrow> harness_result" where
  "HARNESS_RESULTS s =
     (case s of SourceCheckIntegrity \<Rightarrow> CheckIntegrity | SourceLocalChecks \<Rightarrow> LocalChecks | _ \<Rightarrow> HarnessFailure)"

definition harness_locator :: "stage_source \<Rightarrow> stage_judge_input \<Rightarrow> evidence_locator" where
  "harness_locator s i =
     HarnessLocator (HARNESS_RESULTS s)
       (case HARNESS_RESULTS s of
          CheckIntegrity \<Rightarrow> ji_check_integrity i \<noteq> None
        | LocalChecks \<Rightarrow> ji_local_checks i \<noteq> None
        | HarnessFailure \<Rightarrow> ji_harness_failure i \<noteq> None \<and> ji_harness_failure i \<noteq> Some [])"

definition stage_evidence_locator ::
    "glob \<Rightarrow> judge_evidence \<Rightarrow> stage_judge_input \<Rightarrow> evidence_locator option" where
  "stage_evidence_locator glob e i =
     (let quote = je_quote e; files = stage_text_files (je_source e) i
      in case je_source e of
           SourceCheckIntegrity \<Rightarrow> Some (harness_locator (je_source e) i)
         | SourceLocalChecks \<Rightarrow> Some (harness_locator (je_source e) i)
         | SourceHarnessFailure \<Rightarrow> Some (harness_locator (je_source e) i)
         | CommitSubjects \<Rightarrow>
             (case ji_commit_subjects i of
                None \<Rightarrow> Some AbsentLocator
              | Some subjects \<Rightarrow> locate_in_commit_subjects quote subjects)
         | Transcript \<Rightarrow> locate_in_exchanges quote (tr_exchanges (ji_transcript i))
         | Diff \<Rightarrow> locate_in_diff quote (case ji_diff i of None \<Rightarrow> [] | Some d \<Rightarrow> d) (cites_file glob e)
         | Task \<Rightarrow> locate_in_files quote files
         | ProductBrief \<Rightarrow> locate_in_files quote files
         | Instructions \<Rightarrow> locate_in_files quote files
         | TaskState \<Rightarrow> locate_in_files quote files
         | Artifact \<Rightarrow> locate_in_files quote (filter (\<lambda>f. cites_file glob e (cf_file f)) files)
         | PriorArtifact \<Rightarrow> locate_in_files quote (filter (\<lambda>f. cites_file glob e (cf_file f)) files)
         | BaselineContext \<Rightarrow> locate_in_files quote (filter (\<lambda>f. cites_file glob e (cf_file f)) files))"

definition without_text :: "evidence_locator \<Rightarrow> bool" where
  "without_text l = (case l of HarnessLocator _ _ \<Rightarrow> True | AbsentLocator \<Rightarrow> True | _ \<Rightarrow> False)"

definition located_evidence ::
    "glob \<Rightarrow> stage_judge_input \<Rightarrow> string \<Rightarrow> judge_evidence \<Rightarrow> string + recorded_evidence" where
  "located_evidence glob i item e =
     (case stage_evidence_locator glob e i of
        None \<Rightarrow> Inl (''Stage Judge quoted text its cited source does not hold for '' @ item @ '': ''
                     @ source_name (je_source e) @ '':'' @ je_path e)
      | Some l \<Rightarrow> Inr \<lparr>re_claim = je_claim e, re_path = je_path e, re_source = je_source e,
                      re_locator = Some l, re_quote = (if without_text l then None else Some (je_quote e))\<rparr>)"

definition located_item ::
    "glob \<Rightarrow> stage_judge_input \<Rightarrow> judge_evidence graded_item \<Rightarrow> string + recorded_evidence graded_item" where
  "located_item glob i b =
     bind_res (map_res (located_evidence glob i (gi_id b)) (gi_evidence b))
       (\<lambda>es. Inr \<lparr>gi_id = gi_id b, gi_status = gi_status b, gi_evidence = es\<rparr>)"

definition located_dimension ::
    "glob \<Rightarrow> stage_judge_input \<Rightarrow> judge_evidence graded_dimension \<Rightarrow> string + recorded_evidence graded_dimension" where
  "located_dimension glob i d =
     bind_res (map_res (located_evidence glob i (gd_id d)) (gd_evidence d))
       (\<lambda>es. Inr \<lparr>gd_id = gd_id d, gd_grade = gd_grade d, gd_evidence = es\<rparr>)"

definition locate_stage_evidence ::
    "glob \<Rightarrow> judge_evidence stage_output \<Rightarrow> stage_judge_input \<Rightarrow> string + recorded_evidence stage_output" where
  "locate_stage_evidence glob out i =
     bind_res (map_res (located_item glob i) (so_hard_blockers out)) (\<lambda>blockers.
     bind_res (map_res (located_item glob i) (so_requirements out)) (\<lambda>requirements.
     bind_res (map_res (located_dimension glob i) (so_dimensions out)) (\<lambda>dimensions.
       Inr \<lparr>so_dimensions = dimensions, so_hard_blockers = blockers,
            so_requirements = requirements, so_summary = so_summary out\<rparr>)))"

definition checked_stage_evidence ::
    "glob \<Rightarrow> judge_evidence stage_output \<Rightarrow> stage_judge_input \<Rightarrow> string + recorded_evidence stage_output" where
  "checked_stage_evidence glob out i =
     bind_res (validate_stage_judge_evidence glob out i) (\<lambda>_. locate_stage_evidence glob out i)"

subsection \<open>Lemmas on files, subjects and exchanges\<close>

definition occurrences_in :: "string \<Rightarrow> cited_file \<Rightarrow> nat" where
  "occurrences_in quote f = (case match (cf_text f) quote of None \<Rightarrow> 0 | Some m \<Rightarrow> qm_occurrences m)"

lemma foldl_scan_file:
  "foldl (scan_file quote) (first, n) files =
     (case first of
        Some x \<Rightarrow> Some x
      | None \<Rightarrow> first_some (\<lambda>f. map_option (Pair f) (match (cf_text f) quote)) files,
      n + sum_list (map (occurrences_in quote) files))"
  by (induction files arbitrary: first n)
     (auto simp: scan_file_def occurrences_in_def split: option.splits)

lemma first_some_None: "first_some f xs = None \<longleftrightarrow> (\<forall>x \<in> set xs. f x = None)"
  by (induction xs) (auto split: option.splits)

lemma first_some_Some:
  "first_some f xs = Some y \<Longrightarrow> \<exists>us x vs. xs = us @ x # vs \<and> (\<forall>u \<in> set us. f u = None) \<and> f x = Some y"
proof (induction xs)
  case (Cons x xs)
  show ?case
  proof (cases "f x")
    case None
    with Cons obtain us x' vs where "xs = us @ x' # vs" "\<forall>u \<in> set us. f u = None" "f x' = Some y" by auto
    with None show ?thesis by (intro exI [of _ "x # us"]) auto
  next
    case (Some z)
    with Cons.prems show ?thesis by (intro exI [of _ "[]"]) auto
  qed
qed simp

lemma line_at_count: "line_at txt k = Suc (count_list (take k txt) (CHR 0x0A))"
  by (simp add: line_at_def length_split_on)

lemma count_list_take_mono: "i \<le> j \<Longrightarrow> count_list (take i xs) c \<le> count_list (take j xs) c"
  by (metis append_take_drop_id count_list_append le_add1 min.absorb1 take_take)

lemma line_at_mono: "i \<le> j \<Longrightarrow> line_at txt i \<le> line_at txt j"
  by (simp add: line_at_count count_list_take_mono)

lemma line_at_bound: "line_at txt i \<le> length (split_on (CHR 0x0A) txt)"
  using count_list_take_mono [of i "max i (length txt)" "txt" "CHR 0x0A"]
  by (simp add: line_at_count length_split_on)

definition subject_offset :: "string list \<Rightarrow> nat \<Rightarrow> nat" where
  "subject_offset subjects i = sum_list (map (\<lambda>s. length s + 1) (take i subjects))"

lemma foldl_subject_offset:
  "foldl (\<lambda>n earlier. n + length earlier + 1) n xs = n + sum_list (map (\<lambda>s. length s + 1) xs)"
  by (induction xs arbitrary: n) auto

lemma count_take_absent: "c \<notin> set x \<Longrightarrow> count_list (take k x) c = 0"
  by (auto simp: count_list_0_iff dest: in_set_takeD)

lemma subject_at:
  "\<lbrakk>list_all (\<lambda>s. CHR 0x0A \<notin> set s) subjects; k < length (join_with [CHR 0x0A] subjects);
    join_with [CHR 0x0A] subjects ! k \<noteq> CHR 0x0A; i = line_at (join_with [CHR 0x0A] subjects) k - 1\<rbrakk> \<Longrightarrow>
     i < length subjects \<and> subject_offset subjects i \<le> k
     \<and> k < subject_offset subjects i + length (subjects ! i)"
proof (induction "[CHR 0x0A]" subjects arbitrary: k i rule: join_with.induct)
  case (3 x y xs)
  let ?rest = "join_with [CHR 0x0A] (y # xs)"
  have x0: "count_list x (CHR 0x0A) = 0" "count_list (take k x) (CHR 0x0A) = 0"
    using "3.prems"(1) by (auto simp: count_list_0_iff dest: in_set_takeD)
  show ?case
  proof (cases "k < length x")
    case True
    with 3 x0 show ?thesis by (simp add: line_at_count subject_offset_def)
  next
    case False
    moreover have "k \<noteq> length x" using "3.prems"(3) by (auto simp: nth_append)
    ultimately have k: "length x < k" by simp
    then obtain j where j: "k = length x + 1 + j" by (metis Suc_eq_plus1 add.commute add_Suc less_natE)
    have tk: "take k (x @ CHR 0x0A # ?rest) = x @ CHR 0x0A # take j ?rest" by (simp add: j)
    have i: "i = Suc (line_at ?rest j - 1)"
      using "3.prems"(4) x0 tk by (simp add: line_at_count del: take_append)
    have "line_at ?rest j - 1 < length (y # xs) \<and> subject_offset (y # xs) (line_at ?rest j - 1) \<le> j
        \<and> j < subject_offset (y # xs) (line_at ?rest j - 1) + length ((y # xs) ! (line_at ?rest j - 1))"
      using "3.prems" by (intro "3.hyps") (auto simp: j nth_append)
    then show ?thesis unfolding i by (simp add: subject_offset_def j)
  qed
qed (simp_all add: line_at_count subject_offset_def count_take_absent)

lemma match_start_not_space:
  assumes "match raw quote = Some m"
  shows "qm_start m < length raw \<and> \<not> is_space (raw ! qm_start m)"
proof -
  have ne: "collapsed_quote quote \<noteq> []" using assms by (auto simp: match_def Let_def)
  show ?thesis
    using match_sound_aux [OF assms] match_ends [OF assms] collapsed_quote_ends [OF ne] by auto
qed

definition exchange_text :: "stage_exchange \<Rightarrow> exchange_field \<Rightarrow> string option" where
  "exchange_text x field =
     (case field of MessageField \<Rightarrow> Some (turn_message (agent x)) | ProductOwnerAnswerField \<Rightarrow> product_owner_answer x)"

definition holds_quote :: "string \<Rightarrow> stage_exchange \<Rightarrow> bool" where
  "holds_quote quote x \<longleftrightarrow> match (turn_message (agent x)) quote \<noteq> None
     \<or> (case product_owner_answer x of None \<Rightarrow> False | Some a \<Rightarrow> match a quote \<noteq> None)"

lemma locate_in_exchanges_from_None:
  "locate_in_exchanges_from i quote xs = None \<longleftrightarrow> list_all (\<lambda>x. \<not> holds_quote quote x) xs"
  by (induction i quote xs rule: locate_in_exchanges_from.induct)
     (auto simp: holds_quote_def split: option.splits bind_splits)

lemma locate_in_exchanges_from_Some:
  "locate_in_exchanges_from i quote xs = Some loc \<Longrightarrow>
     \<exists>j field t m. j < length xs \<and> loc = ExchangeLocator (i + j) field (qm_start m) (qm_end m)
       \<and> exchange_text (xs ! j) field = Some t \<and> match t quote = Some m
       \<and> list_all (\<lambda>x. \<not> holds_quote quote x) (take j xs)"
proof (induction i quote xs rule: locate_in_exchanges_from.induct)
  case (2 i quote x xs)
  show ?case
  proof (cases "holds_quote quote x")
    case True
    show ?thesis
    proof (cases "match (turn_message (agent x)) quote")
      case (Some m)
      with 2 show ?thesis by (intro exI [of _ 0] exI [of _ MessageField]) (auto simp: exchange_text_def)
    next
      case None
      with 2 True show ?thesis
        by (intro exI [of _ 0] exI [of _ ProductOwnerAnswerField])
           (auto simp: exchange_text_def holds_quote_def split: option.splits)
    qed
  next
    case False
    then have n: "match (turn_message (agent x)) quote = None"
      "Option.bind (product_owner_answer x) (\<lambda>a. match a quote) = None"
      by (auto simp: holds_quote_def split: option.splits)
    from "2.IH" [OF n] "2.prems" n obtain j field t m where "j < length xs"
      "loc = ExchangeLocator (Suc i + j) field (qm_start m) (qm_end m)"
      "exchange_text (xs ! j) field = Some t" "match t quote = Some m"
      "list_all (\<lambda>x. \<not> holds_quote quote x) (take j xs)" by auto
    with False show ?thesis by (intro exI [of _ "Suc j"] exI [of _ field]) auto
  qed
qed simp

lemma span_in_commit_subjects_match:
  "span_in_commit_subjects quote subjects i =
     map_option (\<lambda>m. \<lparr>span_start = subject_offset subjects i + qm_start m,
        span_end = subject_offset subjects i + qm_end m\<rparr>)
       (match (drop (subject_offset subjects i) (join_with [CHR 0x0A] subjects)) quote)"
  unfolding span_in_commit_subjects_def find_span_def Let_def subject_offset_def foldl_subject_offset
  by (simp add: option.map_comp comp_def)

lemma slice_drop: "k \<le> s \<Longrightarrow> slice (drop k xs) (s - k) (e - k) = slice xs s e"
  by (simp add: slice_def)

text \<open>Which evidence items \<open>checked_stage_evidence\<close> accepts.\<close>

definition citable :: "glob \<Rightarrow> stage_judge_input \<Rightarrow> judge_evidence \<Rightarrow> bool" where
  "citable glob i e \<longleftrightarrow> cites_whole_source (je_path e) (source_name (je_source e))
     \<or> citation_matches_path glob (je_path e) (available_paths i (je_source e))"

definition recorded_from :: "glob \<Rightarrow> stage_judge_input \<Rightarrow> judge_evidence \<Rightarrow> recorded_evidence \<Rightarrow> bool" where
  "recorded_from glob i e r \<longleftrightarrow> citable glob i e
     \<and> re_claim r = je_claim e \<and> re_path r = je_path e \<and> re_source r = je_source e
     \<and> re_locator r = stage_evidence_locator glob e i \<and> re_locator r \<noteq> None
     \<and> re_quote r = (if without_text (the (re_locator r)) then None else Some (je_quote e))"

lemma map_res_ok_iff: "is_ok (map_res f xs) \<longleftrightarrow> list_all (\<lambda>x. is_ok (f x)) xs"
  by (induction xs) (auto simp: is_ok_def split: sum.splits)

lemma bind_res_ok_iff:
  "is_ok (bind_res r f) \<longleftrightarrow> is_ok r \<and> (\<forall>x. r = Inr x \<longrightarrow> is_ok (f x))"
  by (cases r) auto

lemma validate_ok_iff:
  "is_ok (validate_stage_judge_evidence glob out i) \<longleftrightarrow> list_all (\<lambda>ie. citable glob i (snd ie)) (evidence_items out)"
proof -
  have "is_ok (check_citation glob i ie) \<longleftrightarrow> citable glob i (snd ie)" for ie
    by (auto simp: check_citation_def citable_def split: prod.split)
  then show ?thesis
    by (simp add: validate_stage_judge_evidence_def bind_res_ok_iff map_res_ok_iff)
qed

lemma located_evidence_ok: "is_ok (located_evidence glob i item e) \<longleftrightarrow> stage_evidence_locator glob e i \<noteq> None"
  by (auto simp: located_evidence_def split: option.split)

lemma locate_ok_iff:
  "is_ok (locate_stage_evidence glob out i) \<longleftrightarrow>
     list_all (\<lambda>ie. stage_evidence_locator glob (snd ie) i \<noteq> None) (evidence_items out)"
proof -
  have "is_ok (locate_stage_evidence glob out i) \<longleftrightarrow>
      is_ok (map_res (located_item glob i) (so_hard_blockers out))
      \<and> is_ok (map_res (located_item glob i) (so_requirements out))
      \<and> is_ok (map_res (located_dimension glob i) (so_dimensions out))"
    unfolding locate_stage_evidence_def
    by (cases "map_res (located_item glob i) (so_hard_blockers out)";
        cases "map_res (located_item glob i) (so_requirements out)";
        cases "map_res (located_dimension glob i) (so_dimensions out)") simp_all
  moreover have "is_ok (located_item glob i b) \<longleftrightarrow>
      list_all (\<lambda>e. stage_evidence_locator glob e i \<noteq> None) (gi_evidence b)" for b
    by (simp add: located_item_def bind_res_ok_iff map_res_ok_iff located_evidence_ok)
  moreover have "is_ok (located_dimension glob i d) \<longleftrightarrow>
      list_all (\<lambda>e. stage_evidence_locator glob e i \<noteq> None) (gd_evidence d)" for d
    by (simp add: located_dimension_def bind_res_ok_iff map_res_ok_iff located_evidence_ok)
  ultimately show ?thesis
    by (simp add: map_res_ok_iff evidence_items_def) (auto simp: list_all_iff)
qed

lemma located_evidence_recorded:
  "located_evidence glob i item e = Inr r \<Longrightarrow> citable glob i e \<Longrightarrow> recorded_from glob i e r"
  by (auto simp: located_evidence_def recorded_from_def split: option.splits)

lemma located_list_recorded:
  "\<lbrakk>map_res (located_evidence glob i item) es = Inr rs; \<forall>e \<in> set es. citable glob i e\<rbrakk> \<Longrightarrow>
     list_all2 (recorded_from glob i) es rs"
  unfolding map_res_Inr_iff list_all2_conv_all_nth by (metis located_evidence_recorded nth_mem)

definition recorded_item ::
    "glob \<Rightarrow> stage_judge_input \<Rightarrow> judge_evidence graded_item \<Rightarrow> recorded_evidence graded_item \<Rightarrow> bool" where
  "recorded_item glob i b b' \<longleftrightarrow> gi_id b' = gi_id b \<and> gi_status b' = gi_status b
     \<and> list_all2 (recorded_from glob i) (gi_evidence b) (gi_evidence b')"

definition recorded_dimension ::
    "glob \<Rightarrow> stage_judge_input \<Rightarrow> judge_evidence graded_dimension \<Rightarrow> recorded_evidence graded_dimension \<Rightarrow> bool" where
  "recorded_dimension glob i d d' \<longleftrightarrow> gd_id d' = gd_id d \<and> gd_grade d' = gd_grade d
     \<and> list_all2 (recorded_from glob i) (gd_evidence d) (gd_evidence d')"

lemma located_item_recorded:
  "\<lbrakk>located_item glob i b = Inr b'; \<forall>e \<in> set (gi_evidence b). citable glob i e\<rbrakk> \<Longrightarrow> recorded_item glob i b b'"
  by (auto simp: located_item_def res_simps recorded_item_def dest: located_list_recorded)

lemma located_dimension_recorded:
  "\<lbrakk>located_dimension glob i d = Inr d'; \<forall>e \<in> set (gd_evidence d). citable glob i e\<rbrakk> \<Longrightarrow>
     recorded_dimension glob i d d'"
  by (auto simp: located_dimension_def res_simps recorded_dimension_def dest: located_list_recorded)

lemma map_res_rel:
  "\<lbrakk>map_res f xs = Inr ys; \<And>x y. x \<in> set xs \<Longrightarrow> f x = Inr y \<Longrightarrow> R x y\<rbrakk> \<Longrightarrow> list_all2 R xs ys"
  unfolding map_res_Inr_iff list_all2_conv_all_nth by auto

lemma checked_stage_evidence_recorded:
  assumes "checked_stage_evidence glob out i = Inr out'"
  shows "so_summary out' = so_summary out
     \<and> list_all2 (recorded_item glob i) (so_hard_blockers out) (so_hard_blockers out')
     \<and> list_all2 (recorded_item glob i) (so_requirements out) (so_requirements out')
     \<and> list_all2 (recorded_dimension glob i) (so_dimensions out) (so_dimensions out')"
proof -
  from assms have "is_ok (validate_stage_judge_evidence glob out i)"
    and l: "locate_stage_evidence glob out i = Inr out'"
    by (auto simp: checked_stage_evidence_def res_simps)
  then have c: "\<forall>ie \<in> set (evidence_items out). citable glob i (snd ie)"
    by (simp add: validate_ok_iff list_all_iff)
  from l have r: "map_res (located_item glob i) (so_hard_blockers out) = Inr (so_hard_blockers out')"
    "map_res (located_item glob i) (so_requirements out) = Inr (so_requirements out')"
    "map_res (located_dimension glob i) (so_dimensions out) = Inr (so_dimensions out')"
    "so_summary out' = so_summary out"
    by (auto simp: locate_stage_evidence_def res_simps)
  have "recorded_item glob i b b'" if "b \<in> set (so_hard_blockers out) \<union> set (so_requirements out)"
    "located_item glob i b = Inr b'" for b b'
    using that c by (intro located_item_recorded) (force simp: evidence_items_def)+
  moreover have "recorded_dimension glob i d d'" if "d \<in> set (so_dimensions out)"
    "located_dimension glob i d = Inr d'" for d d'
    using that c by (intro located_dimension_recorded) (force simp: evidence_items_def)+
  ultimately show ?thesis
    using r by (auto intro: map_res_rel)
qed

lemma checked_ok_iff:
  "is_ok (checked_stage_evidence glob out i) \<longleftrightarrow>
     list_all (\<lambda>ie. citable glob i (snd ie) \<and> stage_evidence_locator glob (snd ie) i \<noteq> None) (evidence_items out)"
proof -
  have "is_ok (checked_stage_evidence glob out i) \<longleftrightarrow>
      is_ok (validate_stage_judge_evidence glob out i) \<and> is_ok (locate_stage_evidence glob out i)"
    unfolding checked_stage_evidence_def
    by (cases "validate_stage_judge_evidence glob out i") simp_all
  then show ?thesis by (auto simp: validate_ok_iff locate_ok_iff list_all_iff)
qed

lemma locate_in_files_result:
  "(locate_in_files quote files = None \<longleftrightarrow> list_all (\<lambda>f. match (cf_text f) quote = None) files)
   \<and> (\<forall>loc. locate_in_files quote files = Some loc \<longrightarrow>
      (\<exists>us f vs m first_line last_line. files = us @ f # vs \<and> list_all (\<lambda>u. match (cf_text u) quote = None) us
        \<and> match (cf_text f) quote = Some m
        \<and> loc = LinesLocator (cf_file f) first_line last_line (sum_list (map (occurrences_in quote) files))
        \<and> first_line = line_at (cf_text f) (qm_start m) \<and> 1 \<le> first_line \<and> first_line \<le> last_line
        \<and> last_line \<le> length (split_on (CHR 0x0A) (cf_text f))))"
proof (intro conjI allI impI)
  show "locate_in_files quote files = None \<longleftrightarrow> list_all (\<lambda>f. match (cf_text f) quote = None) files"
    using first_some_None [of "\<lambda>f. map_option (Pair f) (match (cf_text f) quote)" files]
    by (auto simp: locate_in_files_def foldl_scan_file list_all_iff split: option.splits)
next
  fix loc
  assume "locate_in_files quote files = Some loc"
  then obtain f m where first: "first_some (\<lambda>f. map_option (Pair f) (match (cf_text f) quote)) files = Some (f, m)"
    and loc: "loc = LinesLocator (cf_file f) (line_at (cf_text f) (qm_start m))
      (line_at (cf_text f) (qm_end m - 1)) (sum_list (map (occurrences_in quote) files))"
    by (auto simp: locate_in_files_def foldl_scan_file split: option.splits)
  from first_some_Some [OF first] obtain us vs where split: "files = us @ f # vs"
    and us: "list_all (\<lambda>u. match (cf_text u) quote = None) us" and m: "match (cf_text f) quote = Some m"
    by (auto simp: list_all_iff)
  have "line_at (cf_text f) (qm_start m) \<le> line_at (cf_text f) (qm_end m - 1)"
    using match_sound_aux [OF m] by (intro line_at_mono) auto
  moreover have "1 \<le> line_at (cf_text f) (qm_start m)" by (simp add: line_at_count)
  ultimately show "\<exists>us f vs m first_line last_line. files = us @ f # vs
      \<and> list_all (\<lambda>u. match (cf_text u) quote = None) us \<and> match (cf_text f) quote = Some m
      \<and> loc = LinesLocator (cf_file f) first_line last_line (sum_list (map (occurrences_in quote) files))
      \<and> first_line = line_at (cf_text f) (qm_start m) \<and> 1 \<le> first_line \<and> first_line \<le> last_line
      \<and> last_line \<le> length (split_on (CHR 0x0A) (cf_text f))"
    using split us m loc line_at_bound by blast
qed

lemma locate_in_exchanges_result:
  "(locate_in_exchanges quote xs = None \<longleftrightarrow> list_all (\<lambda>x. \<not> holds_quote quote x) xs)
   \<and> (\<forall>loc. locate_in_exchanges quote xs = Some loc \<longrightarrow>
      (\<exists>j field t s e. loc = ExchangeLocator j field s e \<and> j < length xs
        \<and> list_all (\<lambda>x. \<not> holds_quote quote x) (take j xs)
        \<and> exchange_text (xs ! j) field = Some t \<and> s < e \<and> e \<le> length t
        \<and> collapsed_quote (slice t s e) = collapsed_quote quote))"
proof (intro conjI allI impI)
  fix loc
  assume "locate_in_exchanges quote xs = Some loc"
  from locate_in_exchanges_from_Some [OF this [unfolded locate_in_exchanges_def]]
  show "\<exists>j field t s e. loc = ExchangeLocator j field s e \<and> j < length xs
      \<and> list_all (\<lambda>x. \<not> holds_quote quote x) (take j xs)
      \<and> exchange_text (xs ! j) field = Some t \<and> s < e \<and> e \<le> length t
      \<and> collapsed_quote (slice t s e) = collapsed_quote quote"
    using match_sound_aux by fastforce
qed (simp add: locate_in_exchanges_def locate_in_exchanges_from_None)

subsection \<open>Properties\<close>

text \<open>A quote is located in files exactly when one of them holds it; the locator then names the
  first such file, a range of lines of that file, and the occurrences over all the files. It is located
  in exchanges exactly when one holds it; the locator names the first exchange whose message or answer
  does, and the range of that field which reads like the quote.\<close>

theorem locate_in_files_exact:
  "((locate_in_files quote files = None \<longleftrightarrow> list_all (\<lambda>f. match (cf_text f) quote = None) files)
   \<and> (\<forall>loc. locate_in_files quote files = Some loc \<longrightarrow>
      (\<exists>us f vs m first_line last_line. files = us @ f # vs \<and> list_all (\<lambda>u. match (cf_text u) quote = None) us
        \<and> match (cf_text f) quote = Some m
        \<and> loc = LinesLocator (cf_file f) first_line last_line (sum_list (map (occurrences_in quote) files))
        \<and> first_line = line_at (cf_text f) (qm_start m) \<and> 1 \<le> first_line \<and> first_line \<le> last_line
        \<and> last_line \<le> length (split_on (CHR 0x0A) (cf_text f)))))
   \<and> ((locate_in_exchanges quote xs = None \<longleftrightarrow> list_all (\<lambda>x. \<not> holds_quote quote x) xs)
   \<and> (\<forall>loc. locate_in_exchanges quote xs = Some loc \<longrightarrow>
      (\<exists>j field t s e. loc = ExchangeLocator j field s e \<and> j < length xs
        \<and> list_all (\<lambda>x. \<not> holds_quote quote x) (take j xs)
        \<and> exchange_text (xs ! j) field = Some t \<and> s < e \<and> e \<le> length t
        \<and> collapsed_quote (slice t s e) = collapsed_quote quote)))"
  using locate_in_files_result [of quote files] locate_in_exchanges_result [of quote xs] by blast

lemma locate_in_files_exact_witness:
  "\<exists>m. match (''a'' @ CHR 0x0A # ''quoted text'') ''quoted'' = Some m
     \<and> line_at (''a'' @ CHR 0x0A # ''quoted text'') (qm_start m) = 2"
proof -
  have "locate_in_files ''quoted'' [\<lparr>cf_file = ''p'', cf_text = ''other''\<rparr>,
      \<lparr>cf_file = ''q'', cf_text = ''a'' @ CHR 0x0A # ''quoted text''\<rparr>] = Some (LinesLocator ''q'' 2 2 1)"
    by code_simp
  from locate_in_files_exact [THEN conjunct1, THEN conjunct2, rule_format, OF this] show ?thesis
    by (auto simp: Cons_eq_append_conv)
qed

text \<open>Of subjects without line breaks, the located index is that of the subject in which the
  match starts, and from that subject on the quote is found again, at a range of the joined
  subjects that reads like it.\<close>

theorem commit_subject_round_trip:
  assumes "list_all (\<lambda>s. CHR 0x0A \<notin> set s) subjects"
    and "locate_in_commit_subjects quote subjects = Some loc"
  shows "\<exists>i m s. loc = CommitSubjectLocator i \<and> i < length subjects
     \<and> match (join_with [CHR 0x0A] subjects) quote = Some m
     \<and> subject_offset subjects i \<le> qm_start m
     \<and> qm_start m < subject_offset subjects i + length (subjects ! i)
     \<and> span_in_commit_subjects quote subjects i = Some s \<and> subject_offset subjects i \<le> span_start s
     \<and> collapsed_quote (slice (join_with [CHR 0x0A] subjects) (span_start s) (span_end s)) = collapsed_quote quote"
proof -
  let ?t = "join_with [CHR 0x0A] subjects"
  from assms(2) obtain m where m: "match ?t quote = Some m"
    and loc: "loc = CommitSubjectLocator (line_at ?t (qm_start m) - 1)"
    by (auto simp: locate_in_commit_subjects_def Let_def split: option.splits)
  define i where "i = line_at ?t (qm_start m) - 1"
  let ?o = "subject_offset subjects i"
  note st = match_start_not_space [OF m]
  then have "?t ! qm_start m \<noteq> CHR 0x0A" by (auto simp: is_space_def)
  from subject_at [OF assms(1) _ this i_def] st
  have i: "i < length subjects" "?o \<le> qm_start m" "qm_start m < ?o + length (subjects ! i)" by auto
  have sound: "collapsed_quote (slice ?t (qm_start m) (qm_end m)) = collapsed_quote quote"
    using match_sound_aux [OF m] by simp
  have "match (drop ?o ?t) quote \<noteq> None"
  proof -
    have "collapsed_quote (slice (drop ?o ?t) (qm_start m - ?o) (qm_end m - ?o)) = collapsed_quote quote"
      using i(2) sound by (simp add: slice_drop)
    moreover have "collapsed_quote quote \<noteq> []" using m by (auto simp: match_def Let_def)
    ultimately show ?thesis using match_None_iff by blast
  qed
  then obtain m' where m': "match (drop ?o ?t) quote = Some m'" by blast
  have "slice ?t (?o + qm_start m') (?o + qm_end m') = slice (drop ?o ?t) (qm_start m') (qm_end m')"
    using slice_drop [of ?o "?o + qm_start m'" ?t "?o + qm_end m'"] by simp
  with match_sound_aux [OF m'] i m loc m' show ?thesis
    unfolding i_def [symmetric]
    by (intro exI [of _ i] exI [of _ m] exI [of _ "\<lparr>span_start = ?o + qm_start m', span_end = ?o + qm_end m'\<rparr>"])
       (simp add: span_in_commit_subjects_match)
qed

lemma commit_subject_round_trip_witness:
  "\<exists>s. span_in_commit_subjects ''two fixes'' [''one'', ''part two'', ''fixes it''] 1 = Some s"
proof -
  have "list_all (\<lambda>s. CHR 0x0A \<notin> set s) [''one'', ''part two'', ''fixes it'']" by code_simp
  moreover have "locate_in_commit_subjects ''two fixes'' [''one'', ''part two'', ''fixes it'']
      = Some (CommitSubjectLocator 1)" by code_simp
  ultimately show ?thesis using commit_subject_round_trip by fastforce
qed

text \<open>C30: the Judge's evidence is accepted exactly when every item cites a source the input
  supplies and has a locator, and what is recorded keeps ids, statuses, grades and order, the
  computed locator of each item, and its quote wherever that locator points into text.\<close>

theorem checked_stage_evidence_exact:
  "(is_ok (checked_stage_evidence glob out i) \<longleftrightarrow>
      list_all (\<lambda>ie. citable glob i (snd ie) \<and> stage_evidence_locator glob (snd ie) i \<noteq> None)
        (evidence_items out))
   \<and> (\<forall>out'. checked_stage_evidence glob out i = Inr out' \<longrightarrow>
        so_summary out' = so_summary out
        \<and> list_all2 (recorded_item glob i) (so_hard_blockers out) (so_hard_blockers out')
        \<and> list_all2 (recorded_item glob i) (so_requirements out) (so_requirements out')
        \<and> list_all2 (recorded_dimension glob i) (so_dimensions out) (so_dimensions out'))"
  using checked_ok_iff checked_stage_evidence_recorded by blast

definition sample_input :: stage_judge_input where
  "sample_input = \<lparr>ji_stage = ''ship'', ji_kind = Delivery, ji_task = ''add a login page'',
     ji_product_brief = [], ji_instructions = [], ji_baseline_context = [], ji_task_state = [],
     ji_transcript = \<lparr>tr_stage = ''ship'', tr_session_id = ''s'', tr_cost_usd = 0, tr_provider_calls = [],
       tr_exchanges = []\<rparr>,
     ji_artifact = None, ji_prior_artifacts = [], ji_diff = None, ji_changed_paths = None,
     ji_commit_subjects = None, ji_check_integrity = Some \<lparr>lc_status = FAIL, lc_evidence = []\<rparr>,
     ji_local_checks = None, ji_harness_failure = None\<rparr>"

definition sample_response :: "judge_evidence stage_output" where
  "sample_response = \<lparr>so_dimensions = [], so_hard_blockers = [\<lparr>gi_id = ''false-test-safety'', gi_status = PASS,
       gi_evidence = [\<lparr>je_claim = ''c'', je_path = ''Task'', je_quote = ''login  page'', je_source = Task\<rparr>]\<rparr>],
     so_requirements = [], so_summary = ''s''\<rparr>"

lemma checked_stage_evidence_exact_witness:
  "is_ok (checked_stage_evidence (\<lambda>_. None) sample_response sample_input)"
proof -
  have "list_all (\<lambda>ie. citable (\<lambda>_. None) sample_input (snd ie)
      \<and> stage_evidence_locator (\<lambda>_. None) (snd ie) sample_input \<noteq> None) (evidence_items sample_response)"
    by code_simp
  with checked_stage_evidence_exact show ?thesis by blast
qed

end
