(* ===== verification/StageGrading.thy ===== *)
theory StageGrading
  imports EvidenceLocator "HOL-Library.Multiset"
begin

text \<open>
  How a stage is graded: the harness results that override the Judge
  (\<open>stage-harness-results.ts\<close>), the letter derived from blockers, requirements and
  dimensions, the check that the Judge answered every rubric item, and the gate
  (\<open>stage-grade.ts\<close>, \<open>stage-letter-grades.ts\<close>).
\<close>

subsection \<open>Letters\<close>

definition worst_grade :: "letter list \<Rightarrow> letter" where
  "worst_grade grades =
     foldl (\<lambda>worst g. if grade_index g > grade_index worst then g else worst) GradeA grades"

definition derive_stage_letter :: "'e stage_output \<Rightarrow> letter" where
  "derive_stage_letter items =
     (if list_ex (\<lambda>b. gi_status b = FAIL) (so_hard_blockers items) then GradeF
      else let dimension_grades = map gd_grade (so_dimensions items)
           in worst_grade (if list_ex (\<lambda>r. gi_status r = FAIL) (so_requirements items)
                           then GradeC # dimension_grades else dimension_grades))"

subsection \<open>Rubric and grade\<close>

record rubric_item =
  ri_id :: string
  ri_description :: string

record rubric_dimension = rubric_item +
  rd_excellent :: string
  rd_good :: string

record stage_rubric =
  rb_dimensions :: "rubric_dimension list"
  rb_hard_blockers :: "rubric_item list"
  rb_requirements :: "rubric_item list"


record stage_grade =
  sg_output :: "recorded_evidence stage_output"
  sg_grade :: letter
  sg_verdict :: stage_verdict

definition assert_exact_ids :: "string list \<Rightarrow> string list \<Rightarrow> string \<Rightarrow> string + unit" where
  "assert_exact_ids observed expected label =
     (if length observed \<noteq> length expected \<or> length (remdups observed) \<noteq> length observed
         \<or> list_ex (\<lambda>i. i \<notin> set observed) expected
      then Inl (''Stage Judge must return every '' @ label @ '' item exactly once'')
      else Inr ())"

definition derive_stage_grade ::
    "recorded_evidence stage_output \<Rightarrow> stage_rubric \<Rightarrow> string + stage_grade" where
  "derive_stage_grade out rubric =
     bind_res (assert_exact_ids (map gi_id (so_hard_blockers out)) (map ri_id (rb_hard_blockers rubric)) ''hard blockers'') (\<lambda>_.
     bind_res (assert_exact_ids (map gi_id (so_requirements out)) (map ri_id (rb_requirements rubric)) ''requirements'') (\<lambda>_.
     bind_res (assert_exact_ids (map gd_id (so_dimensions out)) (map ri_id (rb_dimensions rubric)) ''quality dimensions'') (\<lambda>_.
       let grade = derive_stage_letter out
       in Inr \<lparr>sg_output = out, sg_grade = grade,
               sg_verdict = (if grade \<in> {GradeA, GradeB} then CONTINUE else STOP)\<rparr>)))"

subsection \<open>Harness results over the Judge's\<close>

definition harness_evidence :: "stage_source \<Rightarrow> string \<Rightarrow> stage_judge_input \<Rightarrow> recorded_evidence list" where
  "harness_evidence s claim i =
     [\<lparr>re_claim = claim, re_path = ''harness'', re_source = s, re_locator = Some (harness_locator s i),
       re_quote = None\<rparr>]"

definition failed_check :: "local_check_result option \<Rightarrow> local_check_result option" where
  "failed_check c = (case c of None \<Rightarrow> None | Some r \<Rightarrow> if lc_status r = FAIL then Some r else None)"

text \<open>The \<open>Map\<close> as its entries in insertion order; its three keys differ.\<close>

definition forced_stage_failures :: "stage_judge_input \<Rightarrow> (string \<times> recorded_evidence list) list" where
  "forced_stage_failures i =
     (case ji_harness_failure i of
        Some claim \<Rightarrow> if claim \<noteq> []
          then [(''invalid-stage-delivery'', harness_evidence SourceHarnessFailure claim i)] else []
      | None \<Rightarrow> [])
     @ (case (if ji_kind i = Delivery then failed_check (ji_check_integrity i) else None) of
          Some r \<Rightarrow> [(''false-test-safety'', harness_evidence SourceCheckIntegrity
            (join_with ''; '' (map ce_claim (lc_evidence r))) i)]
        | None \<Rightarrow> [])
     @ (case (if ji_kind i = Delivery then failed_check (ji_local_checks i) else None) of
          Some r \<Rightarrow> [(''unfinished-delivery'', harness_evidence SourceLocalChecks
            (join_with ''; '' (map ce_claim (lc_evidence r))) i)]
        | None \<Rightarrow> [])"

definition force_blocker ::
    "(string \<times> recorded_evidence list) list \<Rightarrow> recorded_evidence graded_item \<Rightarrow> recorded_evidence graded_item" where
  "force_blocker forced b =
     (case map_of forced (gi_id b) of
        None \<Rightarrow> b
      | Some evidence \<Rightarrow> b\<lparr>gi_evidence := evidence, gi_status := FAIL\<rparr>)"

definition apply_authoritative_stage_results ::
    "recorded_evidence stage_output \<Rightarrow> stage_judge_input \<Rightarrow> string + recorded_evidence stage_output" where
  "apply_authoritative_stage_results out i =
     (let forced = forced_stage_failures i
      in bind_res
           (map_res (\<lambda>(key, _). if list_ex (\<lambda>b. gi_id b = key) (so_hard_blockers out) then Inr ()
              else Inl (''Stage rubric must retain harness blocker '' @ key)) forced)
           (\<lambda>_. Inr (out\<lparr>so_hard_blockers := map (force_blocker forced) (so_hard_blockers out)\<rparr>)))"

subsection \<open>Reading a grade and the gate\<close>

text \<open>\<open>readStageGrade\<close> past the structured output, with the message \<open>rejected\<close> is told.\<close>

definition read_stage_grade ::
    "glob \<Rightarrow> string + judge_evidence stage_output \<Rightarrow> stage_judge_input \<Rightarrow> stage_rubric \<Rightarrow>
     (string + stage_grade) \<times> string option" where
  "read_stage_grade glob response i rubric =
     (let result = bind_res response (\<lambda>r.
            bind_res (checked_stage_evidence glob r i) (\<lambda>out.
            bind_res (apply_authoritative_stage_results out i) (\<lambda>out'. derive_stage_grade out' rubric)))
      in (result, case result of Inl e \<Rightarrow> Some e | Inr _ \<Rightarrow> None))"

definition DEFAULT_MINIMUM_STAGE_GRADE :: letter where
  "DEFAULT_MINIMUM_STAGE_GRADE = GradeB"

definition letter_reaches_minimum :: "letter \<Rightarrow> letter option \<Rightarrow> bool" where
  "letter_reaches_minimum l minimum \<longleftrightarrow>
     grade_index l \<le> grade_index (case minimum of None \<Rightarrow> DEFAULT_MINIMUM_STAGE_GRADE | Some m \<Rightarrow> m)"

record stage_scorecard =
  sc_stage :: string
  sc_grade :: stage_grade

definition stage_grade_passed :: "stage_scorecard \<Rightarrow> letter option \<Rightarrow> bool" where
  "stage_grade_passed sc minimum = letter_reaches_minimum (sg_grade (sc_grade sc)) minimum"

fun letter_name :: "letter \<Rightarrow> string" where
  "letter_name GradeA = ''A''"
| "letter_name GradeB = ''B''"
| "letter_name GradeC = ''C''"
| "letter_name GradeD = ''D''"
| "letter_name GradeF = ''F''"

definition assert_stage_grade_passed :: "stage_scorecard \<Rightarrow> letter option \<Rightarrow> string + unit" where
  "assert_stage_grade_passed sc minimum =
     (if stage_grade_passed sc minimum then Inr ()
      else Inl (sc_stage sc @ '' stage graded '' @ letter_name (sg_grade (sc_grade sc))
        @ ''; minimum grade is ''
        @ letter_name (case minimum of None \<Rightarrow> DEFAULT_MINIMUM_STAGE_GRADE | Some m \<Rightarrow> m)))"

subsection \<open>The derived letter\<close>

lemma foldl_worst:
  "foldl (\<lambda>worst g. if grade_index g > grade_index worst then g else worst) w grades
     = fold max grades w"
proof (induction grades arbitrary: w)
  case (Cons g gs)
  have "(if grade_index g > grade_index w then g else w) = max g w"
    by (auto simp: max_def less_eq_letter_def)
  with Cons show ?case by simp
qed simp

lemma worst_grade_Max: "worst_grade grades = Max (set (GradeA # grades))"
  by (simp only: worst_grade_def foldl_worst Max.set_eq_fold)

lemma assert_exact_ids_ok:
  "distinct expected \<Longrightarrow> is_ok (assert_exact_ids observed expected label) \<longleftrightarrow> mset observed = mset expected"
proof -
  assume d: "distinct expected"
  have "is_ok (assert_exact_ids observed expected label) \<longleftrightarrow>
      length observed = length expected \<and> distinct observed \<and> set expected \<subseteq> set observed"
    by (auto simp: assert_exact_ids_def list_ex_iff length_remdups_card_conv dest: card_distinct
        intro: distinct_card)
  also have "\<dots> \<longleftrightarrow> mset observed = mset expected"
  proof
    assume a: "length observed = length expected \<and> distinct observed \<and> set expected \<subseteq> set observed"
    with d have "set expected = set observed"
      by (metis List.finite_set card_subset_eq distinct_card)
    with a d show "mset observed = mset expected" by (simp add: set_eq_iff_mset_eq_distinct)
  next
    assume "mset observed = mset expected"
    with d show "length observed = length expected \<and> distinct observed \<and> set expected \<subseteq> set observed"
      by (metis mset_eq_imp_distinct_iff mset_eq_length mset_eq_setD subset_refl)
  qed
  finally show ?thesis .
qed

lemma derive_stage_letter_Max:
  "derive_stage_letter out =
     Max (insert GradeA ((if list_ex (\<lambda>b. gi_status b = FAIL) (so_hard_blockers out) then {GradeF} else {})
       \<union> (if list_ex (\<lambda>r. gi_status r = FAIL) (so_requirements out) then {GradeC} else {})
       \<union> set (map gd_grade (so_dimensions out))))"
proof (cases "list_ex (\<lambda>b. gi_status b = FAIL) (so_hard_blockers out)")
  case True
  then show ?thesis
    by (auto simp: derive_stage_letter_def intro!: Max_eqI [symmetric])
next
  case False
  then show ?thesis
    by (simp add: derive_stage_letter_def worst_grade_Max Let_def)
qed

lemma distinct_forced: "distinct (map fst (forced_stage_failures i))"
  by (auto simp: forced_stage_failures_def split: option.splits)

lemma authoritative_result:
  assumes "apply_authoritative_stage_results out i = Inr out'"
  shows "out' = out\<lparr>so_hard_blockers := map (force_blocker (forced_stage_failures i)) (so_hard_blockers out)\<rparr>
     \<and> (\<forall>(key, e) \<in> set (forced_stage_failures i). key \<in> gi_id ` set (so_hard_blockers out))"
proof -
  let ?f = "\<lambda>(key, e :: recorded_evidence list).
      if list_ex (\<lambda>b. gi_id b = key) (so_hard_blockers out) then Inr ()
      else Inl (''Stage rubric must retain harness blocker '' @ key)"
  from assms obtain us where r: "map_res ?f (forced_stage_failures i) = Inr us"
    and out': "out' = out\<lparr>so_hard_blockers := map (force_blocker (forced_stage_failures i)) (so_hard_blockers out)\<rparr>"
    by (auto simp: apply_authoritative_stage_results_def Let_def res_simps)
  have "key \<in> gi_id ` set (so_hard_blockers out)" if "(key, e) \<in> set (forced_stage_failures i)" for key e
  proof -
    have "is_ok (map_res ?f (forced_stage_failures i))" by (simp add: r)
    then have "\<forall>x \<in> set (forced_stage_failures i). is_ok (?f x)" by (simp add: map_res_ok_iff list_all_iff)
    from bspec [OF this that] show ?thesis by (auto simp: list_ex_iff split: if_splits)
  qed
  with out' show ?thesis by blast
qed

lemma force_blocker_id [simp]: "gi_id (force_blocker forced b) = gi_id b"
  by (simp add: force_blocker_def split: option.split)

lemma forced_blocker:
  assumes "(key, e) \<in> set (forced_stage_failures i)" and "gi_id b = key"
  shows "gi_status (force_blocker (forced_stage_failures i) b) = FAIL
     \<and> gi_evidence (force_blocker (forced_stage_failures i) b) = e"
  using assms by (simp add: force_blocker_def map_of_is_SomeI [OF distinct_forced])

lemma derive_stage_grade_result:
  "derive_stage_grade out rubric = Inr g \<Longrightarrow>
     sg_output g = out \<and> sg_grade g = derive_stage_letter out
     \<and> (sg_verdict g = CONTINUE \<longleftrightarrow> sg_grade g \<le> GradeB)"
  by (cases "derive_stage_letter out") (auto simp: derive_stage_grade_def Let_def res_simps less_eq_letter_def)

lemma derive_stage_grade_ok:
  assumes "distinct (map ri_id (rb_hard_blockers rubric))" "distinct (map ri_id (rb_requirements rubric))"
    "distinct (map ri_id (rb_dimensions rubric))"
  shows "is_ok (derive_stage_grade out rubric) \<longleftrightarrow>
     mset (map gi_id (so_hard_blockers out)) = mset (map ri_id (rb_hard_blockers rubric))
     \<and> mset (map gi_id (so_requirements out)) = mset (map ri_id (rb_requirements rubric))
     \<and> mset (map gd_id (so_dimensions out)) = mset (map ri_id (rb_dimensions rubric))"
  unfolding assert_exact_ids_ok [OF assms(1), of _ "''hard blockers''", symmetric]
    assert_exact_ids_ok [OF assms(2), of _ "''requirements''", symmetric]
    assert_exact_ids_ok [OF assms(3), of _ "''quality dimensions''", symmetric]
  by (simp add: derive_stage_grade_def bind_res_ok_iff Let_def) (auto elim!: is_okE)

subsection \<open>Properties\<close>

text \<open>C34: against a rubric without duplicate ids, a grade is derived exactly when the Judge's
  blockers, requirements and dimensions are those of the rubric, each once, in any order. Its letter is
  the worst of its dimensions' letters, of a C where a requirement fails and of an F where a hard
  blocker fails; its verdict is to continue for an A or a B; and the gate passes exactly the letters
  that are no worse than its minimum, B by default.\<close>

theorem stage_grade_exact_items:
  assumes "distinct (map ri_id (rb_hard_blockers rubric))" "distinct (map ri_id (rb_requirements rubric))"
    "distinct (map ri_id (rb_dimensions rubric))"
  shows "(is_ok (derive_stage_grade out rubric) \<longleftrightarrow>
       mset (map gi_id (so_hard_blockers out)) = mset (map ri_id (rb_hard_blockers rubric))
       \<and> mset (map gi_id (so_requirements out)) = mset (map ri_id (rb_requirements rubric))
       \<and> mset (map gd_id (so_dimensions out)) = mset (map ri_id (rb_dimensions rubric)))
     \<and> (case derive_stage_grade out rubric of
          Inl e \<Rightarrow> True
        | Inr g \<Rightarrow> sg_output g = out
            \<and> sg_grade g = Max (insert GradeA
                ((if list_ex (\<lambda>b. gi_status b = FAIL) (so_hard_blockers out) then {GradeF} else {})
                 \<union> (if list_ex (\<lambda>r. gi_status r = FAIL) (so_requirements out) then {GradeC} else {})
                 \<union> set (map gd_grade (so_dimensions out))))
            \<and> (sg_verdict g = CONTINUE \<longleftrightarrow> sg_grade g \<le> GradeB))
     \<and> (is_ok (assert_stage_grade_passed sc minimum) \<longleftrightarrow>
          sg_grade (sc_grade sc) \<le> (case minimum of None \<Rightarrow> GradeB | Some m \<Rightarrow> m))"
proof (intro conjI)
  show "is_ok (derive_stage_grade out rubric) \<longleftrightarrow>
       mset (map gi_id (so_hard_blockers out)) = mset (map ri_id (rb_hard_blockers rubric))
       \<and> mset (map gi_id (so_requirements out)) = mset (map ri_id (rb_requirements rubric))
       \<and> mset (map gd_id (so_dimensions out)) = mset (map ri_id (rb_dimensions rubric))"
    by (rule derive_stage_grade_ok [OF assms])
  show "is_ok (assert_stage_grade_passed sc minimum) \<longleftrightarrow>
      sg_grade (sc_grade sc) \<le> (case minimum of None \<Rightarrow> GradeB | Some m \<Rightarrow> m)"
    by (cases minimum) (simp_all add: assert_stage_grade_passed_def stage_grade_passed_def
        letter_reaches_minimum_def less_eq_letter_def DEFAULT_MINIMUM_STAGE_GRADE_def)
  show "case derive_stage_grade out rubric of
      Inl e \<Rightarrow> True
    | Inr g \<Rightarrow> sg_output g = out
        \<and> sg_grade g = Max (insert GradeA
            ((if list_ex (\<lambda>b. gi_status b = FAIL) (so_hard_blockers out) then {GradeF} else {})
             \<union> (if list_ex (\<lambda>r. gi_status r = FAIL) (so_requirements out) then {GradeC} else {})
             \<union> set (map gd_grade (so_dimensions out))))
        \<and> (sg_verdict g = CONTINUE \<longleftrightarrow> sg_grade g \<le> GradeB)"
    unfolding derive_stage_letter_Max [symmetric] by (auto dest: derive_stage_grade_result split: sum.split)
qed

definition sample_rubric :: stage_rubric where
  "sample_rubric = \<lparr>rb_dimensions = [], rb_hard_blockers = [\<lparr>ri_id = ''false-test-safety'', ri_description = ''d''\<rparr>],
     rb_requirements = []\<rparr>"

lemma stage_grade_exact_items_witness:
  "\<not> is_ok (derive_stage_grade \<lparr>so_dimensions = [], so_hard_blockers = [], so_requirements = [], so_summary = ''s''\<rparr>
     sample_rubric)"
proof -
  have "distinct (map ri_id (rb_hard_blockers sample_rubric))" "distinct (map ri_id (rb_requirements sample_rubric))"
    "distinct (map ri_id (rb_dimensions sample_rubric))" by (simp_all add: sample_rubric_def)
  from conjunct1 [OF stage_grade_exact_items [OF this]] show ?thesis by (simp add: sample_rubric_def)
qed

text \<open>What the harness rules of a hard blocker, read off its own checks: the evidence it fails the blocker with.\<close>

definition ruled_by_harness :: "stage_judge_input \<Rightarrow> string \<Rightarrow> recorded_evidence list option" where
  "ruled_by_harness i key =
     (if key = ''invalid-stage-delivery''
      then (case ji_harness_failure i of
              Some (c # claim) \<Rightarrow> Some (harness_evidence SourceHarnessFailure (c # claim) i)
            | _ \<Rightarrow> None)
      else if ji_kind i \<noteq> Delivery then None
      else let ruled = (\<lambda>check source. case check of
                 Some r \<Rightarrow> if lc_status r = FAIL
                           then Some (harness_evidence source (join_with ''; '' (map ce_claim (lc_evidence r))) i) else None
               | None \<Rightarrow> None)
           in if key = ''false-test-safety'' then ruled (ji_check_integrity i) SourceCheckIntegrity
              else if key = ''unfinished-delivery'' then ruled (ji_local_checks i) SourceLocalChecks
              else None)"

lemma forced_is_ruled: "map_of (forced_stage_failures i) key = ruled_by_harness i key"
proof -
  have append: "map_of (xs @ ys) key = (case map_of xs key of None \<Rightarrow> map_of ys key | Some v \<Rightarrow> Some v)"
    for xs ys :: "(string \<times> recorded_evidence list) list"
    by (simp add: map_add_def split: option.split)
  have delivered: "map_of (case ji_harness_failure i of Some claim \<Rightarrow> if claim \<noteq> []
        then [(''invalid-stage-delivery'', harness_evidence SourceHarnessFailure claim i)] else [] | None \<Rightarrow> []) key =
      (if key = ''invalid-stage-delivery''
       then (case ji_harness_failure i of Some (c # claim) \<Rightarrow> Some (harness_evidence SourceHarnessFailure (c # claim) i) | _ \<Rightarrow> None)
       else None)"
    by (cases "ji_harness_failure i") (auto split: list.split)
  have ruled: "map_of (case (if d then failed_check c else None) of Some r \<Rightarrow> [(k, ev r)] | None \<Rightarrow> []) key =
      (if key = k \<and> d then (case c of Some r \<Rightarrow> if lc_status r = FAIL then Some (ev r) else None | None \<Rightarrow> None) else None)"
    for d c k and ev :: "local_check_result \<Rightarrow> recorded_evidence list"
    by (cases c) (auto simp: failed_check_def)
  have keep: "(case x of None \<Rightarrow> None | Some v \<Rightarrow> Some v) = x" for x :: "recorded_evidence list option"
    by (cases x) simp_all
  consider "key = ''invalid-stage-delivery''" | "key = ''false-test-safety''" | "key = ''unfinished-delivery''"
    | "key \<noteq> ''invalid-stage-delivery''" "key \<noteq> ''false-test-safety''" "key \<noteq> ''unfinished-delivery''" by blast
  then show ?thesis
    unfolding forced_stage_failures_def append delivered ruled ruled_by_harness_def Let_def
    by cases (auto simp: keep split: option.split)
qed

lemma forced_iff: "(key, e) \<in> set (forced_stage_failures i) \<longleftrightarrow> ruled_by_harness i key = Some e"
  using distinct_forced [of i] by (simp add: forced_is_ruled [symmetric])

text \<open>C1: a Judge cannot overrule the harness. Where the harness's own checks rule a hard blocker failed, a grade that is
  read is an F with the verdict STOP and holds that blocker failed with the harness's evidence. Of the answer that was
  accepted every blocker the harness rules on has just its status and evidence replaced, every other blocker is as the
  Judge had it, evidence included, in the same order, and so are the requirements and the dimensions.\<close>

theorem harness_overrules_judge:
  assumes "fst (read_stage_grade glob (Inr response) i rubric) = Inr g" and "ruled_by_harness i key = Some e"
  shows "sg_grade g = GradeF \<and> sg_verdict g = STOP
     \<and> (\<exists>b \<in> set (so_hard_blockers (sg_output g)). gi_id b = key \<and> gi_status b = FAIL \<and> gi_evidence b = e)
     \<and> (\<exists>out. checked_stage_evidence glob response i = Inr out
          \<and> list_all2 (\<lambda>judged final. final =
               (case ruled_by_harness i (gi_id judged) of
                  None \<Rightarrow> judged
                | Some evidence \<Rightarrow> judged\<lparr>gi_status := FAIL, gi_evidence := evidence\<rparr>))
             (so_hard_blockers out) (so_hard_blockers (sg_output g))
          \<and> so_requirements (sg_output g) = so_requirements out
          \<and> so_dimensions (sg_output g) = so_dimensions out)"
proof -
  from assms(1) obtain out out' where c: "checked_stage_evidence glob response i = Inr out"
    and a: "apply_authoritative_stage_results out i = Inr out'" and d: "derive_stage_grade out' rubric = Inr g"
    by (auto simp: read_stage_grade_def Let_def res_simps)
  have forced: "(key, e) \<in> set (forced_stage_failures i)" using assms(2) by (simp add: forced_iff)
  note out' = authoritative_result [OF a] and g = derive_stage_grade_result [OF d]
  from out' forced obtain b where b: "b \<in> set (so_hard_blockers out)" "gi_id b = key" by auto
  let ?b = "force_blocker (forced_stage_failures i) b"
  from forced_blocker [OF forced b(2)] have f: "gi_status ?b = FAIL" "gi_evidence ?b = e" by auto
  have m: "?b \<in> set (so_hard_blockers out')" using out' b(1) by auto
  then have "derive_stage_letter out' = GradeF"
    using f(1) by (auto simp: derive_stage_letter_def list_ex_iff)
  moreover have "sg_verdict g = STOP"
    using g calculation by (cases "sg_verdict g") (auto simp: less_eq_letter_def)
  moreover have "\<exists>b \<in> set (so_hard_blockers (sg_output g)). gi_id b = key \<and> gi_status b = FAIL \<and> gi_evidence b = e"
    using m f b(2) g by (intro bexI [of _ ?b]) simp_all
  moreover have "list_all2 (\<lambda>judged final. final =
       (case ruled_by_harness i (gi_id judged) of
          None \<Rightarrow> judged
        | Some evidence \<Rightarrow> judged\<lparr>gi_status := FAIL, gi_evidence := evidence\<rparr>))
     (so_hard_blockers out) (so_hard_blockers (sg_output g))"
    using g out' by (auto simp: force_blocker_def forced_is_ruled list_all2_conv_all_nth split: option.split)
  moreover have "so_requirements (sg_output g) = so_requirements out" "so_dimensions (sg_output g) = so_dimensions out"
    using g out' by simp_all
  moreover have "sg_grade g = derive_stage_letter out'" using g by blast
  ultimately show ?thesis using c by (intro conjI exI [of _ out]) simp_all
qed

lemma harness_overrules_judge_witness:
  "\<exists>g. fst (read_stage_grade (\<lambda>_. None) (Inr sample_response) sample_input sample_rubric) = Inr g
     \<and> sg_grade g = GradeF"
proof -
  obtain g where g: "fst (read_stage_grade (\<lambda>_. None) (Inr sample_response) sample_input sample_rubric) = Inr g"
  proof -
    have "is_ok (fst (read_stage_grade (\<lambda>_. None) (Inr sample_response) sample_input sample_rubric))"
      by code_simp
    with that show ?thesis by (auto elim: is_okE)
  qed
  have "ruled_by_harness sample_input ''false-test-safety'' = Some (harness_evidence SourceCheckIntegrity [] sample_input)"
    by (simp add: ruled_by_harness_def sample_input_def Let_def)
  from harness_overrules_judge [OF g this] g show ?thesis by blast
qed

end
