(* ===== verification/FinalJudge.thy ===== *)
theory FinalJudge
  imports StageGrading
begin

text \<open>
  Reading the final Judge's grade, \<open>judge-response.ts\<close>: the answer covers the rubric exactly and
  its verdict agrees with its items (\<open>judge-grade.ts\<close>), its evidence is citable and located
  (\<open>judge-evidence-location.ts\<close>), and the harness's own results replace the Judge's for the
  harness requirements (\<open>judge-harness.ts\<close>).
\<close>

datatype final_source = FinalDiff | FinalBaselineContext | FinalLocalChecks

fun final_source_name :: "final_source \<Rightarrow> string" where
  "final_source_name FinalDiff = ''diff''"
| "final_source_name FinalBaselineContext = ''baseline-context''"
| "final_source_name FinalLocalChecks = ''local-checks''"

record final_evidence =
  fe_claim :: string
  fe_path :: string
  fe_source :: final_source

record final_judge_evidence = final_evidence +
  fe_quote :: string

record final_recorded_evidence = final_evidence +
  fe_locator :: "evidence_locator option"
  fe_recorded_quote :: "string option"

record 'e judge_grade =
  jg_requirements :: "'e graded_item list"
  jg_summary :: string
  jg_verdict :: pass_fail

text \<open>\<open>LocalCheckResult\<close> with the evidence of \<open>evidenceSchema\<close>.\<close>

record harness_check =
  hc_status :: pass_fail
  hc_evidence :: "final_evidence list"

subsection \<open>The items and the verdict\<close>

fun pass_fail_name :: "pass_fail \<Rightarrow> string" where
  "pass_fail_name PASS = ''PASS''"
| "pass_fail_name FAIL = ''FAIL''"

definition first_index :: "string \<Rightarrow> 'e graded_item list \<Rightarrow> nat option" where
  "first_index i rs = find_index (\<lambda>r. gi_id r = i) rs"

definition assert_exact_requirements :: "'e judge_grade \<Rightarrow> string list \<Rightarrow> string + unit" where
  "assert_exact_requirements g expected =
     (let rs = jg_requirements g; observed = set (map gi_id rs);
          missing = filter (\<lambda>i. i \<notin> observed) expected;
          unknown = filter (\<lambda>r. gi_id r \<notin> set expected) rs;
          duplicate = filter (\<lambda>(k, r). first_index (gi_id r) rs \<noteq> Some k) (List.enumerate 0 rs)
      in if length missing > 0 \<or> length unknown > 0 \<or> length duplicate > 0
         then Inl ''Judge must return every rubric requirement exactly once'' else Inr ())"

definition verdict_of :: "'e graded_item list \<Rightarrow> pass_fail" where
  "verdict_of rs = (if list_all (\<lambda>r. gi_status r = PASS) rs then PASS else FAIL)"

definition validate_judge_grade :: "'e judge_grade \<Rightarrow> string list \<Rightarrow> string + 'e judge_grade" where
  "validate_judge_grade g expected =
     bind_res (assert_exact_requirements g expected) (\<lambda>_.
       if jg_verdict g \<noteq> verdict_of (jg_requirements g)
       then Inl (''Judge verdict '' @ pass_fail_name (jg_verdict g) @ '' contradicts requirement results'')
       else Inr g)"

subsection \<open>The evidence\<close>

definition HARNESS_RUBRIC_IDS :: "string list" where
  "HARNESS_RUBRIC_IDS = [''check-integrity'', ''local-checks'']"

definition is_harness_requirement :: "string \<Rightarrow> bool" where
  "is_harness_requirement i = list_ex (\<lambda>h. h = i) HARNESS_RUBRIC_IDS"

definition HARNESS_LOCATORS :: "string \<Rightarrow> evidence_locator" where
  "HARNESS_LOCATORS i =
     (if i = ''check-integrity'' then HarnessLocator CheckIntegrity True else HarnessLocator LocalChecks True)"

definition final_citable :: "glob \<Rightarrow> string list \<Rightarrow> string list \<Rightarrow> final_judge_evidence \<Rightarrow> bool" where
  "final_citable glob changed context e \<longleftrightarrow>
     cites_whole_source (fe_path e) (final_source_name (fe_source e))
     \<or> fe_source e = FinalDiff \<and> citation_matches_path glob (fe_path e) changed
     \<or> fe_source e = FinalBaselineContext \<and> citation_matches_path glob (fe_path e) context"

definition final_evidence_items :: "'e judge_grade \<Rightarrow> (string \<times> 'e) list" where
  "final_evidence_items g = concat (map (\<lambda>r.
     if gi_id r \<in> {''check-integrity'', ''local-checks''} then []
     else map (Pair (gi_id r)) (gi_evidence r)) (jg_requirements g))"

definition validate_judge_evidence ::
    "glob \<Rightarrow> final_judge_evidence judge_grade \<Rightarrow> string list \<Rightarrow> string list \<Rightarrow> string + unit" where
  "validate_judge_evidence glob g changed context =
     bind_res (map_res (\<lambda>(item, e).
         if final_citable glob changed context e then Inr ()
         else Inl (''Judge cited unavailable evidence for '' @ item @ '': ''
                   @ final_source_name (fe_source e) @ '':'' @ fe_path e)) (final_evidence_items g))
       (\<lambda>_. Inr ())"

definition judge_evidence_locator ::
    "glob \<Rightarrow> final_judge_evidence \<Rightarrow> string \<Rightarrow> context_file list \<Rightarrow> evidence_locator option" where
  "judge_evidence_locator glob e diff context =
     (let cites = (\<lambda>file. cites_whole_source (fe_path e) (final_source_name (fe_source e))
                     \<or> citation_matches_path glob (fe_path e) [file])
      in case fe_source e of
           FinalLocalChecks \<Rightarrow> Some (HARNESS_LOCATORS ''local-checks'')
         | FinalDiff \<Rightarrow> locate_in_diff (fe_quote e) diff cites
         | FinalBaselineContext \<Rightarrow>
             locate_in_files (fe_quote e) (text_files (filter (\<lambda>f. cites (cx_path f)) context)))"

definition recorded_final :: "final_judge_evidence \<Rightarrow> evidence_locator option \<Rightarrow> string option \<Rightarrow> final_recorded_evidence" where
  "recorded_final e l q = \<lparr>fe_claim = fe_claim e, fe_path = fe_path e, fe_source = fe_source e,
     fe_locator = l, fe_recorded_quote = q\<rparr>"

definition located_final ::
    "glob \<Rightarrow> string \<Rightarrow> context_file list \<Rightarrow> string \<Rightarrow> final_judge_evidence \<Rightarrow> string + final_recorded_evidence" where
  "located_final glob diff context item e =
     (if is_harness_requirement item then Inr (recorded_final e None None)
      else case judge_evidence_locator glob e diff context of
             None \<Rightarrow> Inl (''Judge quoted text its cited source does not hold for '' @ item @ '': ''
                          @ final_source_name (fe_source e) @ '':'' @ fe_path e)
           | Some l \<Rightarrow> Inr (recorded_final e (Some l)
               (case l of HarnessLocator _ _ \<Rightarrow> None | _ \<Rightarrow> Some (fe_quote e))))"

definition locate_judge_evidence ::
    "glob \<Rightarrow> final_judge_evidence judge_grade \<Rightarrow> string \<Rightarrow> context_file list \<Rightarrow>
     string + final_recorded_evidence judge_grade" where
  "locate_judge_evidence glob g diff context =
     bind_res (map_res (\<lambda>r. bind_res (map_res (located_final glob diff context (gi_id r)) (gi_evidence r))
          (\<lambda>es. Inr \<lparr>gi_id = gi_id r, gi_status = gi_status r, gi_evidence = es\<rparr>)) (jg_requirements g))
       (\<lambda>rs. Inr \<lparr>jg_requirements = rs, jg_summary = jg_summary g, jg_verdict = jg_verdict g\<rparr>)"

subsection \<open>The harness results\<close>

definition harness_requirement :: "string \<Rightarrow> harness_check \<Rightarrow> final_recorded_evidence graded_item" where
  "harness_requirement i r =
     \<lparr>gi_id = i, gi_status = hc_status r,
      gi_evidence = map (\<lambda>e. \<lparr>fe_claim = fe_claim e, fe_path = fe_path e, fe_source = fe_source e,
        fe_locator = Some (HARNESS_LOCATORS i), fe_recorded_quote = None\<rparr>) (hc_evidence r)\<rparr>"

definition apply_harness_results ::
    "final_recorded_evidence judge_grade \<Rightarrow> harness_check \<Rightarrow> harness_check \<Rightarrow> final_recorded_evidence judge_grade" where
  "apply_harness_results g check_integrity local_checks =
     (let rs = map (\<lambda>r. if gi_id r = ''local-checks'' then harness_requirement (gi_id r) local_checks
                        else if gi_id r = ''check-integrity'' then harness_requirement (gi_id r) check_integrity
                        else r) (jg_requirements g)
      in \<lparr>jg_requirements = rs,
          jg_summary = (if hc_status local_checks = PASS \<and> hc_status check_integrity = PASS
                        then jg_summary g else ''Harness checks failed. '' @ jg_summary g),
          jg_verdict = verdict_of rs\<rparr>)"

record judge_candidate =
  jc_baseline_context :: "context_file list"
  jc_diff :: string
  jc_changed_paths :: "string list"
  jc_check_integrity :: harness_check
  jc_local_checks :: harness_check

text \<open>\<open>readJudgeGrade\<close> past the structured output.\<close>

definition read_judge_grade ::
    "glob \<Rightarrow> final_judge_evidence judge_grade \<Rightarrow> string list \<Rightarrow> judge_candidate \<Rightarrow>
     string + final_recorded_evidence judge_grade" where
  "read_judge_grade glob response rubric_ids c =
     bind_res (validate_judge_grade response rubric_ids) (\<lambda>g.
     bind_res (validate_judge_evidence glob g (jc_changed_paths c) (map cx_path (jc_baseline_context c))) (\<lambda>_.
     bind_res (locate_judge_evidence glob g (jc_diff c) (jc_baseline_context c)) (\<lambda>located.
       Inr (apply_harness_results located (jc_check_integrity c) (jc_local_checks c)))))"

subsection \<open>Lemmas\<close>

lemma find_index_None: "find_index p xs = None \<longleftrightarrow> (\<forall>x \<in> set xs. \<not> p x)"
  by (induction xs) auto

lemma find_index_eq_Some:
  "find_index p xs = Some k \<longleftrightarrow> k < length xs \<and> p (xs ! k) \<and> (\<forall>j < k. \<not> p (xs ! j))"
proof (induction xs arbitrary: k)
  case (Cons x xs)
  then show ?case by (cases k) (auto simp: less_Suc_eq_0_disj)
qed simp

lemma duplicates_iff:
  "filter (\<lambda>(k, r). first_index (gi_id r) rs \<noteq> Some k) (List.enumerate 0 rs) = [] \<longleftrightarrow> distinct (map gi_id rs)"
proof -
  have "filter (\<lambda>(k, r). first_index (gi_id r) rs \<noteq> Some k) (List.enumerate 0 rs) = []
      \<longleftrightarrow> (\<forall>k < length rs. first_index (gi_id (rs ! k)) rs = Some k)"
    by (force simp: filter_empty_conv in_set_enumerate_eq)
  also have "\<dots> \<longleftrightarrow> distinct (map gi_id rs)"
    by (auto simp: first_index_def find_index_eq_Some distinct_conv_nth) (metis nat_neq_iff)+
  finally show ?thesis .
qed

lemma exact_requirements_ok:
  assumes "distinct expected"
  shows "is_ok (assert_exact_requirements g expected) \<longleftrightarrow> mset (map gi_id (jg_requirements g)) = mset expected"
proof -
  let ?ids = "map gi_id (jg_requirements g)"
  have "is_ok (assert_exact_requirements g expected) \<longleftrightarrow>
      distinct ?ids \<and> set expected \<subseteq> set ?ids \<and> set ?ids \<subseteq> set expected"
    using duplicates_iff [of "jg_requirements g"]
    by (auto simp: assert_exact_requirements_def Let_def filter_empty_conv)
  also have "\<dots> \<longleftrightarrow> mset ?ids = mset expected"
    using assms by (metis mset_eq_imp_distinct_iff mset_eq_setD set_eq_iff_mset_eq_distinct subset_antisym subset_refl)
  finally show ?thesis .
qed

lemma validate_evidence_ok:
  "is_ok (validate_judge_evidence glob g changed context) \<longleftrightarrow>
     list_all (\<lambda>ie. final_citable glob changed context (snd ie)) (final_evidence_items g)"
  by (simp add: validate_judge_evidence_def bind_res_ok_iff map_res_ok_iff case_prod_beta if_distrib [of is_ok] cong: if_cong)

lemma harness_ids: "is_harness_requirement i \<longleftrightarrow> i \<in> {''check-integrity'', ''local-checks''}"
  by (auto simp: is_harness_requirement_def HARNESS_RUBRIC_IDS_def)

lemma locate_evidence_ok:
  "is_ok (locate_judge_evidence glob g diff context) \<longleftrightarrow>
     list_all (\<lambda>ie. judge_evidence_locator glob (snd ie) diff context \<noteq> None) (final_evidence_items g)"
proof -
  have "is_ok (located_final glob diff context i e) \<longleftrightarrow>
      is_harness_requirement i \<or> judge_evidence_locator glob e diff context \<noteq> None" for i e
    by (auto simp: located_final_def split: option.split)
  then have "is_ok (locate_judge_evidence glob g diff context) \<longleftrightarrow>
      list_all (\<lambda>r. list_all (\<lambda>e. is_harness_requirement (gi_id r)
        \<or> judge_evidence_locator glob e diff context \<noteq> None) (gi_evidence r)) (jg_requirements g)"
    by (simp add: locate_judge_evidence_def bind_res_ok_iff map_res_ok_iff)
  then show ?thesis
    unfolding harness_ids by (auto simp: final_evidence_items_def list_all_iff)
qed

lemma locate_judge_evidence_items:
  "locate_judge_evidence glob g diff context = Inr g' \<Longrightarrow>
     jg_summary g' = jg_summary g \<and> list_all2 (\<lambda>r r'. gi_id r' = gi_id r \<and> gi_status r' = gi_status r)
       (jg_requirements g) (jg_requirements g')"
  by (auto simp: locate_judge_evidence_def res_simps elim!: map_res_rel)

lemma harness_step_simps:
  "gi_id (harness_requirement i c) = i" "gi_status (harness_requirement i c) = hc_status c"
  by (simp_all add: harness_requirement_def)

text \<open>The status an item has after the harness's results are put over the Judge's.\<close>

definition ruled_status :: "harness_check \<Rightarrow> harness_check \<Rightarrow> 'e graded_item \<Rightarrow> pass_fail" where
  "ruled_status check_integrity local_checks r =
     (if gi_id r = ''local-checks'' then hc_status local_checks
      else if gi_id r = ''check-integrity'' then hc_status check_integrity else gi_status r)"

lemma apply_harness_items:
  "list_all2 (\<lambda>r r'. gi_id r' = gi_id r \<and> gi_status r' = ruled_status ci lc r)
     (jg_requirements g) (jg_requirements (apply_harness_results g ci lc))"
  by (auto simp: apply_harness_results_def Let_def list_all2_map2 ruled_status_def harness_step_simps list.rel_refl_strong
      intro!: list.rel_refl_strong)

lemma read_judge_grade_items:
  assumes "read_judge_grade glob response ids c = Inr g"
  shows "list_all2 (\<lambda>r r'. gi_id r' = gi_id r
       \<and> gi_status r' = ruled_status (jc_check_integrity c) (jc_local_checks c) r)
       (jg_requirements response) (jg_requirements g)
     \<and> jg_verdict g = verdict_of (jg_requirements g)
     \<and> is_ok (assert_exact_requirements response ids)"
proof -
  from assms obtain located where v: "validate_judge_grade response ids = Inr response"
    and l: "locate_judge_evidence glob response (jc_diff c) (jc_baseline_context c) = Inr located"
    and g: "g = apply_harness_results located (jc_check_integrity c) (jc_local_checks c)"
    by (auto simp: read_judge_grade_def validate_judge_grade_def res_simps split: if_splits)
  have "is_ok (assert_exact_requirements response ids)"
    using v by (auto simp: validate_judge_grade_def res_simps)
  moreover have "jg_verdict g = verdict_of (jg_requirements g)"
    by (simp add: g apply_harness_results_def Let_def)
  moreover have "list_all2 (\<lambda>r r'. gi_id r' = gi_id r
       \<and> gi_status r' = ruled_status (jc_check_integrity c) (jc_local_checks c) r)
       (jg_requirements response) (jg_requirements g)"
    using locate_judge_evidence_items [OF l]
      apply_harness_items [where g = located and ci = "jc_check_integrity c" and lc = "jc_local_checks c"]
    unfolding g list_all2_conv_all_nth by (simp add: ruled_status_def)
  ultimately show ?thesis by blast
qed

subsection \<open>Properties\<close>

text \<open>Against a rubric without duplicate ids the final Judge's answer is accepted exactly when it
  has every requirement once, its verdict is PASS just when all of them pass, and every evidence
  item of a requirement the harness does not rule cites a supplied source that holds its quote.\<close>

theorem final_grade_accepted:
  assumes "distinct ids"
  shows "is_ok (read_judge_grade glob response ids c) \<longleftrightarrow>
     mset (map gi_id (jg_requirements response)) = mset ids
     \<and> jg_verdict response = (if list_all (\<lambda>r. gi_status r = PASS) (jg_requirements response) then PASS else FAIL)
     \<and> list_all (\<lambda>ie. final_citable glob (jc_changed_paths c) (map cx_path (jc_baseline_context c)) (snd ie)
          \<and> judge_evidence_locator glob (snd ie) (jc_diff c) (jc_baseline_context c) \<noteq> None)
        (final_evidence_items response)"
proof -
  have ok: "is_ok (bind_res r f) \<longleftrightarrow> (\<exists>x. r = Inr x \<and> is_ok (f x))" for r and f :: "'x \<Rightarrow> string + 'y"
    by (cases r) auto
  have v: "validate_judge_grade response ids = Inr x \<longleftrightarrow>
      x = response \<and> mset (map gi_id (jg_requirements response)) = mset ids
      \<and> jg_verdict response = verdict_of (jg_requirements response)" for x
    unfolding exact_requirements_ok [OF assms, symmetric]
    by (cases "assert_exact_requirements response ids") (auto simp: validate_judge_grade_def)
  have "is_ok (read_judge_grade glob response ids c) \<longleftrightarrow>
      mset (map gi_id (jg_requirements response)) = mset ids
      \<and> jg_verdict response = verdict_of (jg_requirements response)
      \<and> is_ok (validate_judge_evidence glob response (jc_changed_paths c) (map cx_path (jc_baseline_context c)))
      \<and> is_ok (locate_judge_evidence glob response (jc_diff c) (jc_baseline_context c))"
    unfolding read_judge_grade_def ok v by (auto elim: is_okE)
  then show ?thesis
    unfolding validate_evidence_ok locate_evidence_ok verdict_of_def by (auto simp: list_all_iff)
qed

definition sample_final :: "final_judge_evidence judge_grade" where
  "sample_final = \<lparr>jg_requirements =
       [\<lparr>gi_id = ''check-integrity'', gi_status = PASS, gi_evidence = []\<rparr>,
        \<lparr>gi_id = ''local-checks'', gi_status = PASS, gi_evidence = []\<rparr>],
     jg_summary = ''good'', jg_verdict = PASS\<rparr>"

definition sample_candidate :: judge_candidate where
  "sample_candidate = \<lparr>jc_baseline_context = [], jc_diff = [], jc_changed_paths = [],
     jc_check_integrity = \<lparr>hc_status = FAIL, hc_evidence = []\<rparr>,
     jc_local_checks = \<lparr>hc_status = PASS, hc_evidence = []\<rparr>\<rparr>"

lemma final_grade_accepted_witness:
  "is_ok (read_judge_grade (\<lambda>_. None) sample_final [''local-checks'', ''check-integrity''] sample_candidate)"
proof -
  have "distinct [''local-checks'', ''check-integrity'']" by simp
  from final_grade_accepted [OF this] show ?thesis
    by (simp add: sample_final_def final_evidence_items_def)
qed

text \<open>C14: the accepted grade has the Judge's items in its order, with the harness's status for the two
  harness requirements and the Judge's for every other; it passes exactly when all of these
  statuses do, so it fails whenever a harness check of the rubric failed.\<close>

theorem final_grade_ruled:
  assumes "read_judge_grade glob response ids c = Inr g"
    and "distinct ids" "''local-checks'' \<in> set ids" "''check-integrity'' \<in> set ids"
  shows "map gi_id (jg_requirements g) = map gi_id (jg_requirements response)
     \<and> map gi_status (jg_requirements g) =
         map (ruled_status (jc_check_integrity c) (jc_local_checks c)) (jg_requirements response)
     \<and> (jg_verdict g = PASS \<longleftrightarrow> list_all (\<lambda>r. gi_status r = PASS) (jg_requirements g))
     \<and> (jg_verdict g = PASS \<longrightarrow>
          hc_status (jc_local_checks c) = PASS \<and> hc_status (jc_check_integrity c) = PASS)"
proof -
  note items = read_judge_grade_items [OF assms(1)]
  have ids: "map gi_id (jg_requirements g) = map gi_id (jg_requirements response)"
    and st: "map gi_status (jg_requirements g) =
      map (ruled_status (jc_check_integrity c) (jc_local_checks c)) (jg_requirements response)"
    using items by (auto simp: list_all2_conv_all_nth intro: nth_equalityI)
  have verdict: "jg_verdict g = PASS \<longleftrightarrow> list_all (\<lambda>r. gi_status r = PASS) (jg_requirements g)"
    using items by (simp add: verdict_of_def)
  have "hc_status (jc_local_checks c) = PASS \<and> hc_status (jc_check_integrity c) = PASS"
    if "jg_verdict g = PASS"
  proof -
    have eq: "set (map gi_id (jg_requirements response)) = set ids"
      using items exact_requirements_ok [OF assms(2)] mset_eq_setD by blast
    have "''local-checks'' \<in> gi_id ` set (jg_requirements response)"
      "''check-integrity'' \<in> gi_id ` set (jg_requirements response)"
      using assms(3,4) by (simp_all only: eq flip: list.set_map)
    then obtain a b where ab: "a \<in> set (jg_requirements response)" "gi_id a = ''local-checks''"
      "b \<in> set (jg_requirements response)" "gi_id b = ''check-integrity''"
      by (elim imageE) (metis (no_types))
    have "\<forall>x \<in> set (map gi_status (jg_requirements g)). x = PASS"
      using that verdict by (auto simp: list_all_iff)
    then have "\<forall>r \<in> set (jg_requirements response).
        ruled_status (jc_check_integrity c) (jc_local_checks c) r = PASS"
      unfolding st by auto
    with ab have "ruled_status (jc_check_integrity c) (jc_local_checks c) a = PASS"
      "ruled_status (jc_check_integrity c) (jc_local_checks c) b = PASS" by blast+
    with ab show ?thesis by (simp add: ruled_status_def)
  qed
  with ids st verdict show ?thesis by blast
qed

lemma final_grade_ruled_witness:
  "\<exists>g. read_judge_grade (\<lambda>_. None) sample_final [''local-checks'', ''check-integrity''] sample_candidate = Inr g
     \<and> jg_verdict g = FAIL"
proof -
  obtain g where g: "read_judge_grade (\<lambda>_. None) sample_final [''local-checks'', ''check-integrity''] sample_candidate = Inr g"
  proof -
    have "is_ok (read_judge_grade (\<lambda>_. None) sample_final [''local-checks'', ''check-integrity''] sample_candidate)"
      by code_simp
    with that show ?thesis by (auto elim: is_okE)
  qed
  from final_grade_ruled [OF g] have "jg_verdict g \<noteq> PASS" by (auto simp: sample_candidate_def)
  with g show ?thesis by (metis pass_fail.exhaust)
qed

end
