(* ===== verification/RunEvents.thy ===== *)
theory RunEvents
  imports SpendCeiling Grades
begin

text \<open>
  The event store of runs: the kinds of events and which end a run
  (\<open>run-events-kinds.ts\<close>), the rows of the database and what is read from them
  (\<open>run-events-sqlite-row.ts\<close>, \<open>run-events-sqlite-queries.ts\<close>, \<open>run-events-sqlite-store.ts\<close>)
  and the recorder a run writes with (\<open>run-events-recorder.ts\<close>).

  The table is the list of its rows in order of their sequence numbers, and the queries are
  what their SQL says of it. The text column of the judge progress is modelled by the value it
  encodes, so that reading it fails exactly when the column is null. Readers hold a store by
  its interface, the record \<open>event_store\<close>; the locale \<open>run_event_store\<close> states that interface
  against the abstract history of each run, and the database provides it.
\<close>

subsection \<open>Kinds\<close>

datatype run_event_kind =
    StageStarted | TurnCompleted | StageJudging | JudgeProgress | StageCompleted
  | RunCompleted | RunFailed | RunInterrupted

definition TERMINAL_RUN_EVENT_KINDS :: "run_event_kind list" where
  "TERMINAL_RUN_EVENT_KINDS = [RunCompleted, RunFailed, RunInterrupted]"

definition is_terminal_run_event_kind :: "run_event_kind \<Rightarrow> bool" where
  "is_terminal_run_event_kind k \<longleftrightarrow> k \<in> set TERMINAL_RUN_EVENT_KINDS"

subsection \<open>Events and rows\<close>

record section_count =
  sn_returned :: nat
  sn_total :: nat

record progress_sections =
  ps_dimensions :: section_count
  ps_hard_blockers :: section_count
  ps_requirements :: section_count

record returned_items =
  rt_dimensions :: "(string \<times> letter option) list"
  rt_hard_blockers :: "(string \<times> pass_fail option) list"

datatype judge_progress =
    ProgressReturning nat "returned_items option" progress_sections
  | ProgressRejected nat string

record new_run_event =
  ev_run_id :: string
  ev_kind :: run_event_kind
  ev_event_stage :: string
  ev_event_spent_usd :: real
  ev_run_spent_usd :: "real option"
  ev_run_tokens :: "run_tokens option"
  ev_event_elapsed_ms :: nat
  ev_judge :: "judge_progress option"
  ev_session_id :: "string option"

record run_event = new_run_event +
  ev_sequence :: nat
  ev_recorded_at :: string

text \<open>The union type \<open>NewRunEvent\<close>: which kind carries which optional field.\<close>

definition event_typed :: "'a new_run_event_scheme \<Rightarrow> bool" where
  "event_typed e \<longleftrightarrow> (ev_judge e \<noteq> None \<longleftrightarrow> ev_kind e = JudgeProgress)
     \<and> (ev_session_id e \<noteq> None \<longrightarrow> ev_kind e = StageStarted)"

record event_row =
  row_sequence :: nat
  row_run_id :: string
  row_kind :: run_event_kind
  row_stage :: string
  row_spent_usd :: real
  row_elapsed_ms :: nat
  row_recorded_at :: string
  row_judge_progress :: "judge_progress option"
  row_run_spent_usd :: "real option"
  row_run_input_tokens :: "nat option"
  row_run_output_tokens :: "nat option"
  row_session_id :: "string option"

definition run_tokens_of :: "event_row \<Rightarrow> run_tokens option" where
  "run_tokens_of row =
     (case (row_run_input_tokens row, row_run_output_tokens row) of
        (Some i, Some out) \<Rightarrow> Some \<lparr>in_tokens = i, out_tokens = out\<rparr>
      | _ \<Rightarrow> None)"

definition to_run_event :: "event_row \<Rightarrow> string + run_event" where
  "to_run_event row =
     (let fields = (\<lambda>judge session.
            \<lparr>ev_run_id = row_run_id row, ev_kind = row_kind row, ev_event_stage = row_stage row,
             ev_event_spent_usd = row_spent_usd row, ev_run_spent_usd = row_run_spent_usd row,
             ev_run_tokens = run_tokens_of row, ev_event_elapsed_ms = row_elapsed_ms row,
             ev_judge = judge, ev_session_id = session,
             ev_sequence = row_sequence row, ev_recorded_at = row_recorded_at row\<rparr>)
      in case row_kind row of
           JudgeProgress \<Rightarrow>
             (case row_judge_progress row of
                None \<Rightarrow> Inl ''JSON Parse error: Unexpected EOF''
              | Some j \<Rightarrow> Inr (fields (Some j) None))
         | StageStarted \<Rightarrow> Inr (fields None (row_session_id row))
         | _ \<Rightarrow> Inr (fields None None))"

subsection \<open>The database\<close>

type_synonym event_table = "event_row list"

definition next_sequence :: "event_table \<Rightarrow> nat" where
  "next_sequence t = Suc (fold max (map row_sequence t) 0)"

definition append_event :: "event_table \<Rightarrow> string \<Rightarrow> 'a new_run_event_scheme \<Rightarrow> event_table \<times> (string + run_event)" where
  "append_event t now e =
     (let row = \<lparr>row_sequence = next_sequence t, row_run_id = ev_run_id e, row_kind = ev_kind e,
                 row_stage = ev_event_stage e, row_spent_usd = ev_event_spent_usd e,
                 row_elapsed_ms = ev_event_elapsed_ms e, row_recorded_at = now,
                 row_judge_progress = ev_judge e, row_run_spent_usd = ev_run_spent_usd e,
                 row_run_input_tokens = map_option in_tokens (ev_run_tokens e),
                 row_run_output_tokens = map_option out_tokens (ev_run_tokens e),
                 row_session_id = ev_session_id e\<rparr>
      in (t @ [row], to_run_event row))"

definition select_since :: "event_table \<Rightarrow> string \<Rightarrow> nat \<Rightarrow> event_row list" where
  "select_since t run sequence = filter (\<lambda>r. row_run_id r = run \<and> sequence < row_sequence r) t"

definition select_first :: "event_table \<Rightarrow> string \<Rightarrow> event_row option" where
  "select_first t run = List.find (\<lambda>r. row_run_id r = run) t"

definition select_latest :: "event_table \<Rightarrow> string \<Rightarrow> event_row option" where
  "select_latest t run = find_last (\<lambda>r. row_run_id r = run) t"

definition select_latest_stage_start :: "event_table \<Rightarrow> string \<Rightarrow> string \<Rightarrow> event_row option" where
  "select_latest_stage_start t run stage =
     find_last (\<lambda>r. row_run_id r = run \<and> row_kind r = StageStarted \<and> row_stage r = stage) t"

text \<open>\<open>SELECT DISTINCT run_id\<close>; SQL leaves the order open, here it is the one of last appearance.\<close>

definition select_run_ids :: "event_table \<Rightarrow> string list" where
  "select_run_ids t = remdups (map row_run_id t)"

fun read_row :: "event_row option \<Rightarrow> string + run_event option" where
  "read_row None = Inr None"
| "read_row (Some row) = bind_res (to_run_event row) (\<lambda>e. Inr (Some e))"

record 'st event_store =
  st_append :: "'st \<Rightarrow> string \<Rightarrow> new_run_event \<Rightarrow> 'st \<times> (string + run_event)"
  st_events_since :: "'st \<Rightarrow> string \<Rightarrow> nat \<Rightarrow> string + run_event list"
  st_first_event :: "'st \<Rightarrow> string \<Rightarrow> string + run_event option"
  st_latest_event :: "'st \<Rightarrow> string \<Rightarrow> string + run_event option"
  st_latest_stage_start :: "'st \<Rightarrow> string \<Rightarrow> string \<Rightarrow> string + run_event option"
  st_run_ids :: "'st \<Rightarrow> string list"

definition store_for_queries :: "event_table event_store" where
  "store_for_queries =
     \<lparr>st_append = append_event,
      st_events_since = (\<lambda>t run sequence. map_res to_run_event (select_since t run sequence)),
      st_first_event = (\<lambda>t run. read_row (select_first t run)),
      st_latest_event = (\<lambda>t run. read_row (select_latest t run)),
      st_latest_stage_start = (\<lambda>t run stage. read_row (select_latest_stage_start t run stage)),
      st_run_ids = select_run_ids\<rparr>"

subsection \<open>The recorder of a run\<close>

text \<open>\<open>append\<close> of the recorder: the ceiling's figures are added, and an error of the store is
  dropped with the event.\<close>

definition recorder_append ::
    "'st event_store \<Rightarrow> ceiling \<Rightarrow> string \<Rightarrow> new_run_event \<Rightarrow> 'st \<Rightarrow> 'st" where
  "recorder_append es c now e st =
     fst (st_append es st now (e\<lparr>ev_run_spent_usd := Some (spent_usd c), ev_run_tokens := Some (tokens c)\<rparr>))"

definition plain_event :: "string \<Rightarrow> run_event_kind \<Rightarrow> string \<Rightarrow> real \<Rightarrow> nat \<Rightarrow> new_run_event" where
  "plain_event run kind stage spent elapsed =
     \<lparr>ev_run_id = run, ev_kind = kind, ev_event_stage = stage, ev_event_spent_usd = spent,
      ev_run_spent_usd = None, ev_run_tokens = None, ev_event_elapsed_ms = elapsed, ev_judge = None,
      ev_session_id = None\<rparr>"

definition record_plain ::
    "'st event_store \<Rightarrow> string \<Rightarrow> ceiling \<Rightarrow> string \<Rightarrow> run_event_kind \<Rightarrow> string \<Rightarrow> real \<Rightarrow> nat \<Rightarrow> 'st \<Rightarrow> 'st" where
  "record_plain es run c now kind stage spent elapsed =
     recorder_append es c now (plain_event run kind stage spent elapsed)"

definition record_judge_progress ::
    "'st event_store \<Rightarrow> string \<Rightarrow> ceiling \<Rightarrow> string \<Rightarrow> judge_progress \<Rightarrow> string \<Rightarrow> real \<Rightarrow> nat \<Rightarrow> 'st \<Rightarrow> 'st" where
  "record_judge_progress es run c now judge stage spent elapsed =
     recorder_append es c now ((plain_event run JudgeProgress stage spent elapsed)\<lparr>ev_judge := Some judge\<rparr>)"

definition record_stage_started ::
    "'st event_store \<Rightarrow> string \<Rightarrow> ceiling \<Rightarrow> string \<Rightarrow> string \<Rightarrow> string \<Rightarrow> real \<Rightarrow> nat \<Rightarrow> 'st \<Rightarrow> 'st" where
  "record_stage_started es run c now session stage spent elapsed =
     recorder_append es c now ((plain_event run StageStarted stage spent elapsed)\<lparr>ev_session_id := Some session\<rparr>)"

text \<open>Appends in order, each at its own time.\<close>

fun append_all :: "'st event_store \<Rightarrow> 'st \<Rightarrow> (string \<times> new_run_event) list \<Rightarrow> 'st" where
  "append_all es st [] = st"
| "append_all es st ((now, e) # evs) = append_all es (fst (st_append es st now e)) evs"

subsection \<open>What a reader of the store relies on\<close>

locale run_event_store =
  fixes es :: "'st event_store"
    and ok :: "'st \<Rightarrow> bool"
    and history :: "'st \<Rightarrow> string \<Rightarrow> run_event list"
  assumes append_ok: "ok st \<Longrightarrow> event_typed e \<Longrightarrow> ok (fst (st_append es st now e))"
    and append_history: "ok st \<Longrightarrow> event_typed e \<Longrightarrow> \<exists>x. snd (st_append es st now e) = Inr x
        \<and> new_run_event.truncate x = e \<and> ev_recorded_at x = now
        \<and> list_all (\<lambda>y. ev_sequence y < ev_sequence x) (history st (ev_run_id e))
        \<and> (\<forall>run. history (fst (st_append es st now e)) run =
             history st run @ (if run = ev_run_id e then [x] else []))"
    and events_since: "ok st \<Longrightarrow> st_events_since es st run sequence =
        Inr (filter (\<lambda>e. sequence < ev_sequence e) (history st run))"
    and first_event: "ok st \<Longrightarrow> st_first_event es st run =
        Inr (case history st run of [] \<Rightarrow> None | e # _ \<Rightarrow> Some e)"
    and latest_event: "ok st \<Longrightarrow> st_latest_event es st run =
        Inr (if history st run = [] then None else Some (last (history st run)))"
    and run_ids: "ok st \<Longrightarrow> distinct (st_run_ids es st)
        \<and> set (st_run_ids es st) = {run. history st run \<noteq> []}"
    and sequence_pos: "ok st \<Longrightarrow> x \<in> set (history st run) \<Longrightarrow> 0 < ev_sequence x"
    and sequence_sorted: "ok st \<Longrightarrow> sorted_wrt (\<lambda>x y. ev_sequence x < ev_sequence y) (history st run)"
begin

lemma append_all_ok:
  "ok st \<Longrightarrow> list_all (\<lambda>ne. event_typed (snd ne)) es' \<Longrightarrow> ok (append_all es st es')"
  by (induction es' arbitrary: st) (auto simp: append_ok)

lemma append_all_history:
  "ok st \<Longrightarrow> list_all (\<lambda>ne. event_typed (snd ne)) es' \<Longrightarrow>
     map new_run_event.truncate (history (append_all es st es') run) =
       map new_run_event.truncate (history st run) @ filter (\<lambda>e. ev_run_id e = run) (map snd es')"
proof (induction es' arbitrary: st)
  case (Cons ne es')
  obtain now e where ne: "ne = (now, e)" by (cases ne)
  from Cons.prems(2) have t: "event_typed e" "list_all (\<lambda>ne. event_typed (snd ne)) es'" by (auto simp: ne)
  from append_history [OF Cons.prems(1) t(1), of now] obtain x where x: "new_run_event.truncate x = e"
    "\<forall>run. history (fst (st_append es st now e)) run = history st run @ (if run = ev_run_id e then [x] else [])"
    by blast
  with Cons.IH [OF append_ok [OF Cons.prems(1) t(1)] t(2)] show ?case by (auto simp: ne)
qed simp

lemma events_from_start: "ok st \<Longrightarrow> st_events_since es st run 0 = Inr (history st run)"
  by (simp add: events_since sequence_pos cong: filter_cong)

lemma latest_None: "ok st \<Longrightarrow> st_latest_event es st run = Inr None \<longleftrightarrow> history st run = []"
  by (simp add: latest_event)

end

subsection \<open>The database provides it\<close>

definition table_ok :: "event_table \<Rightarrow> bool" where
  "table_ok t \<longleftrightarrow> sorted_wrt (<) (map row_sequence t) \<and> (\<forall>r \<in> set t. 0 < row_sequence r \<and> is_ok (to_run_event r))"

definition row_event :: "event_row \<Rightarrow> run_event" where
  "row_event r = projr (to_run_event r)"

definition table_history :: "event_table \<Rightarrow> string \<Rightarrow> run_event list" where
  "table_history t run = map row_event (filter (\<lambda>r. row_run_id r = run) t)"

lemma table_decodes: "table_ok t \<Longrightarrow> r \<in> set t \<Longrightarrow> to_run_event r = Inr (row_event r)"
  by (auto simp: table_ok_def row_event_def elim!: is_okE dest!: bspec)

lemma to_run_event_fields:
  "to_run_event r = Inr e \<Longrightarrow> ev_run_id e = row_run_id r \<and> ev_sequence e = row_sequence r
     \<and> ev_kind e = row_kind r \<and> ev_event_stage e = row_stage r"
  by (auto simp: to_run_event_def Let_def split: run_event_kind.splits option.splits)

lemma row_event_fields:
  "table_ok t \<Longrightarrow> r \<in> set t \<Longrightarrow> ev_run_id (row_event r) = row_run_id r
     \<and> ev_sequence (row_event r) = row_sequence r \<and> ev_kind (row_event r) = row_kind r
     \<and> ev_event_stage (row_event r) = row_stage r"
  using table_decodes to_run_event_fields by blast

lemma fold_max_ge: "x \<in> set xs \<Longrightarrow> x \<le> fold max xs (k :: nat)"
  unfolding Max.set_eq_fold [symmetric] by simp

lemma next_sequence_gt: "r \<in> set t \<Longrightarrow> row_sequence r < next_sequence t"
  by (simp add: next_sequence_def less_Suc_eq_le fold_max_ge)

lemma appended_row:
  assumes "event_typed e"
  shows "\<exists>row. append_event t now e = (t @ [row], Inr (row_event row))
     \<and> to_run_event row = Inr (row_event row) \<and> new_run_event.truncate (row_event row) = new_run_event.truncate e
     \<and> ev_recorded_at (row_event row) = now \<and> row_run_id row = ev_run_id e \<and> row_sequence row = next_sequence t"
  using assms unfolding append_event_def Let_def
  by (cases "ev_kind e"; cases "ev_run_tokens e"; cases "ev_judge e"; cases "ev_session_id e")
     (simp_all add: event_typed_def to_run_event_def row_event_def run_tokens_of_def new_run_event.truncate_def)

lemma find_filter_hd: "filter p xs = x # ys \<Longrightarrow> List.find p xs = Some x"
  by (induction xs) (auto split: if_splits)

interpretation sqlite: run_event_store store_for_queries table_ok table_history
proof unfold_locales
  fix t :: event_table and e :: new_run_event and now :: string
  assume t: "table_ok t" and e: "event_typed e"
  from appended_row [OF e, of t now] obtain row where row:
    "append_event t now e = (t @ [row], Inr (row_event row))" "to_run_event row = Inr (row_event row)"
    "new_run_event.truncate (row_event row) = e" "ev_recorded_at (row_event row) = now"
    "row_run_id row = ev_run_id e" "row_sequence row = next_sequence t"
    by (auto simp: new_run_event.truncate_def)
  show "table_ok (fst (st_append store_for_queries t now e))"
    using t row by (auto simp: store_for_queries_def table_ok_def sorted_wrt_append next_sequence_gt)
      (simp add: next_sequence_def)
  have "ev_sequence y < ev_sequence (row_event row)" if "y \<in> set (table_history t (ev_run_id e))" for y
    using that row(6) row_event_fields [OF t] to_run_event_fields [OF row(2)] next_sequence_gt
    by (auto simp: table_history_def)
  then show "\<exists>x. snd (st_append store_for_queries t now e) = Inr x \<and> new_run_event.truncate x = e
      \<and> ev_recorded_at x = now \<and> list_all (\<lambda>y. ev_sequence y < ev_sequence x) (table_history t (ev_run_id e))
      \<and> (\<forall>run. table_history (fst (st_append store_for_queries t now e)) run =
          table_history t run @ (if run = ev_run_id e then [x] else []))"
    using row by (intro exI [of _ "row_event row"])
      (auto simp: store_for_queries_def table_history_def list_all_iff)
next
  fix t :: event_table and run :: string and n :: nat
  assume t: "table_ok t"
  have "map_res to_run_event (select_since t run n) = Inr (map row_event (select_since t run n))"
    using table_decodes [OF t] by (intro map_res_total) (auto simp: select_since_def)
  moreover have "map row_event (select_since t run n) = filter (\<lambda>e. n < ev_sequence e) (table_history t run)"
    using row_event_fields [OF t]
    by (auto simp: select_since_def table_history_def filter_map comp_def intro!: filter_cong arg_cong [of _ _ "map row_event"])
  ultimately show "st_events_since store_for_queries t run n = Inr (filter (\<lambda>e. n < ev_sequence e) (table_history t run))"
    by (simp add: store_for_queries_def)
next
  fix t :: event_table and run :: string
  assume t: "table_ok t"
  show "st_first_event store_for_queries t run = Inr (case table_history t run of [] \<Rightarrow> None | e # _ \<Rightarrow> Some e)"
  proof (cases "filter (\<lambda>r. row_run_id r = run) t")
    case Nil
    then have "select_first t run = None" by (auto simp: select_first_def find_None_iff filter_empty_conv)
    with Nil show ?thesis by (simp add: store_for_queries_def table_history_def)
  next
    case (Cons r rs)
    then have "select_first t run = Some r" by (simp add: select_first_def find_filter_hd)
    moreover have "r \<in> set t" using Cons by (metis filter_is_subset list.set_intros(1) subset_code(1))
    ultimately show ?thesis
      using Cons table_decodes [OF t] by (simp add: store_for_queries_def table_history_def)
  qed
  show "st_latest_event store_for_queries t run =
      Inr (if table_history t run = [] then None else Some (last (table_history t run)))"
  proof (cases "filter (\<lambda>r. row_run_id r = run) t" rule: rev_cases)
    case Nil
    then have "select_latest t run = None" by (auto simp: select_latest_def find_last_None filter_empty_conv)
    with Nil show ?thesis by (simp add: store_for_queries_def table_history_def)
  next
    case (snoc rs r)
    then have "select_latest t run = Some r"
      by (simp add: select_latest_def find_last_def find_filter_hd rev_filter [symmetric])
    moreover have "r \<in> set t" using snoc by (metis filter_is_subset in_set_conv_decomp subset_code(1))
    ultimately show ?thesis
      using snoc table_decodes [OF t] by (simp add: store_for_queries_def table_history_def)
  qed
  show "distinct (st_run_ids store_for_queries t)
      \<and> set (st_run_ids store_for_queries t) = {run. table_history t run \<noteq> []}"
    by (auto simp: store_for_queries_def select_run_ids_def table_history_def filter_empty_conv)
  show "0 < ev_sequence x" if "x \<in> set (table_history t run)" for x
    using that row_event_fields [OF t] t by (auto simp: table_history_def table_ok_def)
  show "sorted_wrt (\<lambda>x y. ev_sequence x < ev_sequence y) (table_history t run)"
  proof -
    have "sorted_wrt (\<lambda>x y. row_sequence x < row_sequence y) t"
      using t by (simp add: table_ok_def sorted_wrt_map)
    then have "sorted_wrt (\<lambda>x y. row_sequence x < row_sequence y) (filter (\<lambda>r. row_run_id r = run) t)"
      by (rule sorted_wrt_filter)
    then show ?thesis
      unfolding table_history_def sorted_wrt_map
      by (rule sorted_wrt_mono_rel [rotated]) (simp add: row_event_fields [OF t])
  qed
qed

subsection \<open>Properties\<close>

text \<open>C10: whatever is appended, by however many runs in whatever order, a run reads back exactly the
  events it appended, in order, with increasing sequence numbers; its first and its latest event are
  the ends of that list, and reading past a sequence number leaves out what is not past it.\<close>

theorem event_store_reads_history:
  assumes "list_all (\<lambda>ne. event_typed (snd ne)) evs"
  shows "\<exists>hist. map new_run_event.truncate hist = filter (\<lambda>e. ev_run_id e = run) (map snd evs)
     \<and> sorted_wrt (\<lambda>x y. ev_sequence x < ev_sequence y) hist
     \<and> st_events_since store_for_queries (append_all store_for_queries [] evs) run 0 = Inr hist
     \<and> st_events_since store_for_queries (append_all store_for_queries [] evs) run n =
         Inr (filter (\<lambda>e. n < ev_sequence e) hist)
     \<and> st_first_event store_for_queries (append_all store_for_queries [] evs) run =
         Inr (if hist = [] then None else Some (hd hist))
     \<and> st_latest_event store_for_queries (append_all store_for_queries [] evs) run =
         Inr (if hist = [] then None else Some (last hist))"
proof -
  let ?t = "append_all store_for_queries [] evs"
  have nil: "table_ok []" by (simp add: table_ok_def)
  note ok = sqlite.append_all_ok [OF nil assms]
  show ?thesis
    using sqlite.append_all_history [OF nil assms, of run] sqlite.sequence_sorted [OF ok, of run]
      sqlite.events_from_start [OF ok, of run] sqlite.events_since [OF ok, of run n]
      sqlite.first_event [OF ok, of run] sqlite.latest_event [OF ok, of run]
    by (intro exI [of _ "table_history ?t run"]) (simp add: table_history_def split: list.split)
qed

lemma event_store_reads_history_witness:
  "\<exists>hist. st_events_since store_for_queries (append_all store_for_queries []
      [(''t'', plain_event ''r'' StageStarted ''s'' 0 1), (''u'', plain_event ''q'' RunFailed ''s'' 0 2)]) ''r'' 0 = Inr hist
     \<and> map new_run_event.truncate hist = [plain_event ''r'' StageStarted ''s'' 0 1]"
proof -
  let ?evs = "[(''t'', plain_event ''r'' StageStarted ''s'' 0 1), (''u'', plain_event ''q'' RunFailed ''s'' 0 2)]"
  have "list_all (\<lambda>ne. event_typed (snd ne)) ?evs" by (simp add: event_typed_def plain_event_def)
  from event_store_reads_history [OF this, of "''r''" 0] show ?thesis
    by (auto simp: plain_event_def)
qed

end
