(* ===== verification/RunEnding.thy ===== *)
theory RunEnding
  imports RunEvents JsonValue
begin

text \<open>
  How a run ended, or that it has not: the records on disk (\<open>run-outcome.ts\<close>, \<open>run-pause.ts\<close>,
  \<open>operator-stop.ts\<close>), the claim a run holds on its target (\<open>run-liveness.ts\<close>), the ending a
  reader names (\<open>run-ending.ts\<close>) and the reconciliation of runs whose process died
  (\<open>run-reconciliation.ts\<close>).

  The files of a run are the record \<open>run_disk\<close>: a file that is absent is \<open>None\<close>, one that is
  there is the result of reading it as JSON. The store of events is used by its interface. The
  marker of a target, whether a process lives and \<open>Date.parse\<close> are the parameters of
  \<open>run_liveness\<close>.
\<close>

subsection \<open>Records on disk\<close>

record run_disk =
  rd_artifact :: bool
  rd_manifest :: "(string + string) option"
  rd_stage_files :: "(string + json) list"
  rd_paused :: "(string + json) option"
  rd_operator_stop :: "(string + json) option"

fun json_field :: "json \<Rightarrow> string \<Rightarrow> json option" where
  "json_field (JObj kvs) k = map_of kvs k"
| "json_field _ k = None"

definition nonempty_field :: "json \<Rightarrow> string \<Rightarrow> string option" where
  "nonempty_field j k = (case json_field j k of Some (JStr s) \<Rightarrow> (if s = [] then None else Some s) | _ \<Rightarrow> None)"

definition has_status :: "json \<Rightarrow> string \<Rightarrow> bool" where
  "has_status j s \<longleftrightarrow> json_field j ''status'' = Some (JStr s)"

record stopped_stage =
  ss_stage :: string
  ss_error :: string

definition stopped_stage_record :: "json \<Rightarrow> stopped_stage option" where
  "stopped_stage_record j =
     (case (nonempty_field j ''error'', nonempty_field j ''stage'') of
        (Some e, Some s) \<Rightarrow> (if has_status j ''STAGE_JUDGE_FAILED'' then Some \<lparr>ss_stage = s, ss_error = e\<rparr> else None)
      | _ \<Rightarrow> None)"

definition awaiting_judge_stage_record :: "json \<Rightarrow> string option" where
  "awaiting_judge_stage_record j =
     (case nonempty_field j ''stage'' of
        Some s \<Rightarrow> (if has_status j ''AWAITING_STAGE_JUDGE'' then Some s else None)
      | None \<Rightarrow> None)"

fun first_stage_record :: "(json \<Rightarrow> 'r option) \<Rightarrow> (string + json) list \<Rightarrow> string + 'r option" where
  "first_stage_record schema [] = Inr None"
| "first_stage_record schema (f # fs) =
     bind_res f (\<lambda>j. case schema j of Some r \<Rightarrow> Inr (Some r) | None \<Rightarrow> first_stage_record schema fs)"

definition stopped_stage_of :: "run_disk \<Rightarrow> string + stopped_stage option" where
  "stopped_stage_of d = first_stage_record stopped_stage_record (rd_stage_files d)"

definition awaiting_judge_stage :: "run_disk \<Rightarrow> string + string option" where
  "awaiting_judge_stage d = first_stage_record awaiting_judge_stage_record (rd_stage_files d)"

text \<open>\<open>z.iso.datetime()\<close> is the parameter \<open>is_iso\<close>.\<close>

definition paused_stage :: "(string \<Rightarrow> bool) \<Rightarrow> run_disk \<Rightarrow> string + string option" where
  "paused_stage is_iso d =
     (case rd_paused d of
        None \<Rightarrow> Inr None
      | Some f \<Rightarrow> bind_res f (\<lambda>j.
          case (nonempty_field j ''stage'', json_field j ''pausedAt'') of
            (Some s, Some (JStr t)) \<Rightarrow>
              (if has_status j ''PAUSED'' \<and> is_iso t then Inr (Some s) else Inl ''ZodError'')
          | _ \<Rightarrow> Inl ''ZodError''))"

definition operator_stopped :: "run_disk \<Rightarrow> string + bool" where
  "operator_stopped d =
     (case rd_operator_stop d of
        None \<Rightarrow> Inr False
      | Some f \<Rightarrow> bind_res f (\<lambda>j.
          if nonempty_field j ''signal'' \<noteq> None \<and> has_status j ''OPERATOR_STOPPED''
          then Inr True else Inl ''ZodError''))"

subsection \<open>The claim on a target\<close>

record target_claim =
  tc_pid :: int
  tc_run :: "string option"
  tc_started_at :: string

record claiming_run =
  cr_run :: string
  cr_first_event_at :: "string option"

record run_liveness =
  lv_read_marker :: "string \<Rightarrow> string + target_claim option"
  lv_is_alive :: "int \<Rightarrow> bool"
  lv_date_parse :: "string \<Rightarrow> real option"

definition claiming_run_of :: "'st event_store \<Rightarrow> 'st \<Rightarrow> string \<Rightarrow> string + claiming_run" where
  "claiming_run_of es st run =
     bind_res (st_first_event es st run) (\<lambda>e.
       Inr \<lparr>cr_run = run, cr_first_event_at = map_option ev_recorded_at e\<rparr>)"

text \<open>Comparing with a date that does not parse is false.\<close>

definition is_own_claim :: "run_liveness \<Rightarrow> target_claim \<Rightarrow> claiming_run \<Rightarrow> bool" where
  "is_own_claim lv marker claiming =
     (case tc_run marker of
        Some r \<Rightarrow> r = cr_run claiming
      | None \<Rightarrow>
          (case cr_first_event_at claiming of
             None \<Rightarrow> True
           | Some t \<Rightarrow>
               (case (lv_date_parse lv (tc_started_at marker), lv_date_parse lv t) of
                  (Some a, Some b) \<Rightarrow> a \<le> b
                | _ \<Rightarrow> False)))"

datatype marker_reading = Unread | MarkerRead "target_claim option"
datatype run_claim = Live | Gone | Unknown

definition own_marker :: "run_disk \<Rightarrow> run_liveness \<Rightarrow> claiming_run \<Rightarrow> string + marker_reading" where
  "own_marker d lv claiming =
     (case rd_manifest d of
        None \<Rightarrow> Inr Unread
      | Some manifest \<Rightarrow> bind_res manifest (\<lambda>source_root.
          case lv_read_marker lv source_root of
            Inl _ \<Rightarrow> Inr Unread
          | Inr marker \<Rightarrow>
              Inr (MarkerRead (case marker of
                 Some m \<Rightarrow> (if is_own_claim lv m claiming then Some m else None)
               | None \<Rightarrow> None))))"

definition run_claim_of :: "run_disk \<Rightarrow> run_liveness \<Rightarrow> claiming_run \<Rightarrow> string + run_claim" where
  "run_claim_of d lv claiming =
     bind_res (own_marker d lv claiming) (\<lambda>reading.
       case reading of
         Unread \<Rightarrow> Inr Unknown
       | MarkerRead (Some m) \<Rightarrow> Inr (if lv_is_alive lv (tc_pid m) then Live else Gone)
       | MarkerRead None \<Rightarrow> Inr Gone)"

definition claims_live_target :: "run_disk \<Rightarrow> run_liveness \<Rightarrow> claiming_run \<Rightarrow> string + bool" where
  "claims_live_target d lv claiming = bind_res (run_claim_of d lv claiming) (\<lambda>c. Inr (c = Live))"

definition target_marker :: "run_disk \<Rightarrow> run_liveness \<Rightarrow> claiming_run \<Rightarrow> string + target_claim option" where
  "target_marker d lv claiming =
     bind_res (own_marker d lv claiming) (\<lambda>reading.
       Inr (case reading of Unread \<Rightarrow> None | MarkerRead m \<Rightarrow> m))"

subsection \<open>The ending of a run\<close>

datatype run_ending =
    MainArtifact
  | StoppedRun string string
  | PausedRun string
  | OperatorStoppedRun "string option"
  | InterruptedRun string
  | FailedRun "string option"
  | RunningRun run_event
  | UnconfirmedRun string
  | CompletedWithoutArtifact string
  | AwaitingJudgment string
  | NoEvents

record ending_reading =
  er_disk :: run_disk
  er_liveness :: run_liveness
  er_iso :: "string \<Rightarrow> bool"

definition failed_stage :: "'st event_store \<Rightarrow> 'st \<Rightarrow> string \<Rightarrow> string + string option" where
  "failed_stage es st run =
     bind_res (st_events_since es st run 0) (\<lambda>evs. Inr (find_last (\<lambda>s. s \<noteq> []) (map ev_event_stage evs)))"

definition recorded_ending ::
    "ending_reading \<Rightarrow> 'st event_store \<Rightarrow> 'st \<Rightarrow> string \<Rightarrow> string + run_ending option" where
  "recorded_ending r es st run =
     bind_res (stopped_stage_of (er_disk r)) (\<lambda>stopped.
       case stopped of
         Some s \<Rightarrow> Inr (Some (StoppedRun (ss_stage s) (ss_error s)))
       | None \<Rightarrow> bind_res (paused_stage (er_iso r) (er_disk r)) (\<lambda>paused.
           case paused of
             Some s \<Rightarrow> Inr (Some (PausedRun s))
           | None \<Rightarrow> bind_res (operator_stopped (er_disk r)) (\<lambda>stop.
               if stop then bind_res (failed_stage es st run) (\<lambda>s. Inr (Some (OperatorStoppedRun s)))
               else Inr None)))"

definition claimed_ending ::
    "ending_reading \<Rightarrow> 'st event_store \<Rightarrow> 'st \<Rightarrow> string \<Rightarrow> run_event \<Rightarrow> string + run_ending" where
  "claimed_ending r es st run latest =
     bind_res (claiming_run_of es st run) (\<lambda>claiming.
     bind_res (run_claim_of (er_disk r) (er_liveness r) claiming) (\<lambda>claim.
       Inr (case claim of
              Live \<Rightarrow> RunningRun latest
            | Gone \<Rightarrow> InterruptedRun (ev_event_stage latest)
            | Unknown \<Rightarrow> UnconfirmedRun (ev_event_stage latest))))"

definition event_ending ::
    "ending_reading \<Rightarrow> 'st event_store \<Rightarrow> 'st \<Rightarrow> string \<Rightarrow> run_event \<Rightarrow> string + run_ending" where
  "event_ending r es st run latest =
     (if ev_kind latest = RunInterrupted then Inr (InterruptedRun (ev_event_stage latest))
      else if ev_kind latest = RunFailed then bind_res (failed_stage es st run) (\<lambda>s. Inr (FailedRun s))
      else if is_terminal_run_event_kind (ev_kind latest)
      then Inr (CompletedWithoutArtifact (ev_event_stage latest))
      else claimed_ending r es st run latest)"

definition without_events :: "ending_reading \<Rightarrow> string + run_ending" where
  "without_events r =
     bind_res (awaiting_judge_stage (er_disk r)) (\<lambda>awaiting.
       Inr (case awaiting of None \<Rightarrow> NoEvents | Some s \<Rightarrow> AwaitingJudgment s))"

definition run_ending_of :: "ending_reading \<Rightarrow> 'st event_store \<Rightarrow> 'st \<Rightarrow> string \<Rightarrow> string + run_ending" where
  "run_ending_of r es st run =
     (if rd_artifact (er_disk r) then Inr MainArtifact
      else bind_res (recorded_ending r es st run) (\<lambda>recorded.
        case recorded of
          Some e \<Rightarrow> Inr e
        | None \<Rightarrow> bind_res (st_latest_event es st run) (\<lambda>latest.
            case latest of
              None \<Rightarrow> without_events r
            | Some e \<Rightarrow> event_ending r es st run e)))"

subsection \<open>Reconciliation\<close>

record reconciliation_deps =
  rc_artifact_exists :: "string \<Rightarrow> bool"
  rc_load_manifest :: "string \<Rightarrow> string + string option"
  rc_read_marker :: "string \<Rightarrow> string + target_claim option"
  rc_is_alive :: "int \<Rightarrow> bool"

definition has_dead_claim :: "reconciliation_deps \<Rightarrow> string \<Rightarrow> string + bool" where
  "has_dead_claim deps run =
     (if rc_artifact_exists deps run then Inr False
      else bind_res (rc_load_manifest deps run) (\<lambda>manifest.
        case manifest of
          None \<Rightarrow> Inr False
        | Some source_root \<Rightarrow> bind_res (rc_read_marker deps source_root) (\<lambda>marker.
            case marker of
              None \<Rightarrow> Inr False
            | Some m \<Rightarrow> Inr (\<not> rc_is_alive deps (tc_pid m)))))"

definition interruption_of :: "string \<Rightarrow> run_event \<Rightarrow> new_run_event" where
  "interruption_of run latest =
     \<lparr>ev_run_id = run, ev_kind = RunInterrupted, ev_event_stage = ev_event_stage latest,
      ev_event_spent_usd = ev_event_spent_usd latest, ev_run_spent_usd = ev_run_spent_usd latest,
      ev_run_tokens = ev_run_tokens latest, ev_event_elapsed_ms = ev_event_elapsed_ms latest,
      ev_judge = None, ev_session_id = None\<rparr>"

definition interruption_event ::
    "'st event_store \<Rightarrow> reconciliation_deps \<Rightarrow> 'st \<Rightarrow> string \<Rightarrow> string + new_run_event option" where
  "interruption_event es deps st run =
     bind_res (st_latest_event es st run) (\<lambda>latest.
       case latest of
         None \<Rightarrow> Inr None
       | Some e \<Rightarrow>
           (if is_terminal_run_event_kind (ev_kind e) then Inr None
            else bind_res (has_dead_claim deps run) (\<lambda>dead.
              Inr (if dead then Some (interruption_of run e) else None))))"

record 'st reconciliation =
  rn_store :: 'st
  rn_reconciled :: "string list"
  rn_errors :: "string list"

definition reconcile_run ::
    "'st event_store \<Rightarrow> reconciliation_deps \<Rightarrow> string \<Rightarrow> 'st reconciliation \<Rightarrow> string \<Rightarrow> 'st reconciliation" where
  "reconcile_run es deps now s run =
     (let report = (\<lambda>s e. s\<lparr>rn_errors := rn_errors s @ [''Failed to reconcile run '' @ run @ '': '' @ e]\<rparr>)
      in case interruption_event es deps (rn_store s) run of
           Inl e \<Rightarrow> report s e
         | Inr None \<Rightarrow> s
         | Inr (Some event) \<Rightarrow>
             (case st_append es (rn_store s) now event of
                (st', Inl e) \<Rightarrow> report (s\<lparr>rn_store := st'\<rparr>) e
              | (st', Inr _) \<Rightarrow> s\<lparr>rn_store := st', rn_reconciled := rn_reconciled s @ [run]\<rparr>))"

definition reconcile_interrupted_runs ::
    "'st event_store \<Rightarrow> reconciliation_deps \<Rightarrow> string \<Rightarrow> 'st \<Rightarrow> 'st reconciliation" where
  "reconcile_interrupted_runs es deps now st =
     foldl (reconcile_run es deps now) \<lparr>rn_store = st, rn_reconciled = [], rn_errors = []\<rparr> (st_run_ids es st)"

text \<open>The collaborators of \<open>liveReconciliationDependencies\<close>, over the disks of the runs.\<close>

definition live_reconciliation_dependencies :: "(string \<Rightarrow> run_disk) \<Rightarrow> run_liveness \<Rightarrow> reconciliation_deps" where
  "live_reconciliation_dependencies disk lv =
     \<lparr>rc_artifact_exists = (\<lambda>run. rd_artifact (disk run)),
      rc_load_manifest = (\<lambda>run. case rd_manifest (disk run) of
         None \<Rightarrow> Inr None | Some m \<Rightarrow> bind_res m (\<lambda>root. Inr (Some root))),
      rc_read_marker = lv_read_marker lv, rc_is_alive = lv_is_alive lv\<rparr>"

text \<open>What reconciliation acts on, over the abstract history of each run.\<close>

definition should_interrupt :: "(string \<Rightarrow> run_event list) \<Rightarrow> reconciliation_deps \<Rightarrow> string \<Rightarrow> bool" where
  "should_interrupt hist deps run \<longleftrightarrow> hist run \<noteq> []
     \<and> \<not> is_terminal_run_event_kind (ev_kind (last (hist run))) \<and> has_dead_claim deps run = Inr True"

definition interrupted_history :: "run_event list \<Rightarrow> run_event list \<Rightarrow> string \<Rightarrow> string \<Rightarrow> bool" where
  "interrupted_history h' h run now \<longleftrightarrow>
     (\<exists>x. h' = h @ [x] \<and> new_run_event.truncate x = interruption_of run (last h) \<and> ev_recorded_at x = now)"

lemma interruption_typed: "event_typed (interruption_of run e)"
  by (simp add: event_typed_def interruption_of_def)

lemma interruption_run [simp]: "ev_run_id (interruption_of run e) = run"
  by (simp add: interruption_of_def)

subsection \<open>What the readers of a store conclude\<close>

context run_event_store
begin

lemma interruption_event_iff:
  "ok st \<Longrightarrow> interruption_event es deps st run = Inr (Some event) \<longleftrightarrow>
     should_interrupt (history st) deps run \<and> event = interruption_of run (last (history st run))"
  by (auto simp: interruption_event_def latest_event should_interrupt_def res_simps split: if_splits option.splits)

lemma reconcile_run_step:
  assumes ok: "ok (rn_store s)"
  shows "ok (rn_store (reconcile_run es deps now s run))
     \<and> (\<forall>r. r \<noteq> run \<longrightarrow> history (rn_store (reconcile_run es deps now s run)) r = history (rn_store s) r)
     \<and> (if should_interrupt (history (rn_store s)) deps run
        then interrupted_history (history (rn_store (reconcile_run es deps now s run)) run) (history (rn_store s) run) run now
          \<and> rn_reconciled (reconcile_run es deps now s run) = rn_reconciled s @ [run]
        else history (rn_store (reconcile_run es deps now s run)) run = history (rn_store s) run
          \<and> rn_reconciled (reconcile_run es deps now s run) = rn_reconciled s)"
proof (cases "should_interrupt (history (rn_store s)) deps run")
  case True
  let ?e = "interruption_of run (last (history (rn_store s) run))"
  from True ok have i: "interruption_event es deps (rn_store s) run = Inr (Some ?e)"
    by (simp add: interruption_event_iff)
  obtain st' x where a: "st_append es (rn_store s) now ?e = (st', x)" by fastforce
  from append_history [OF ok interruption_typed, of now run "last (history (rn_store s) run)"]
    append_ok [OF ok interruption_typed, of now run "last (history (rn_store s) run)"] a i True
  show ?thesis
    by (auto simp: reconcile_run_def interrupted_history_def)
next
  case False
  then have "\<nexists>event. interruption_event es deps (rn_store s) run = Inr (Some event)"
    using ok by (simp add: interruption_event_iff)
  then have "rn_store (reconcile_run es deps now s run) = rn_store s
      \<and> rn_reconciled (reconcile_run es deps now s run) = rn_reconciled s"
    by (auto simp: reconcile_run_def split: sum.split option.split)
  with ok False show ?thesis by simp
qed

lemma reconcile_runs:
  "\<lbrakk>ok (rn_store s); distinct runs\<rbrakk> \<Longrightarrow>
     (let s' = foldl (reconcile_run es deps now) s runs; doomed = should_interrupt (history (rn_store s)) deps
      in ok (rn_store s') \<and> rn_reconciled s' = rn_reconciled s @ filter doomed runs
       \<and> (\<forall>r. if r \<in> set runs \<and> doomed r
              then interrupted_history (history (rn_store s') r) (history (rn_store s) r) r now
              else history (rn_store s') r = history (rn_store s) r))"
proof (induction runs arbitrary: s)
  case (Cons run runs)
  let ?s = "reconcile_run es deps now s run"
  note step = reconcile_run_step [OF Cons.prems(1), of deps now run]
  have other: "should_interrupt (history (rn_store ?s)) deps r = should_interrupt (history (rn_store s)) deps r"
    if "r \<noteq> run" for r
    using step that by (simp add: should_interrupt_def)
  have f: "filter (should_interrupt (history (rn_store ?s)) deps) runs
      = filter (should_interrupt (history (rn_store s)) deps) runs"
  proof (rule filter_cong [OF refl])
    fix r assume "r \<in> set runs"
    with Cons.prems(2) have "r \<noteq> run" by auto
    then show "should_interrupt (history (rn_store ?s)) deps r = should_interrupt (history (rn_store s)) deps r"
      by (rule other)
  qed
  from Cons.IH [of ?s] step Cons.prems(2) have IH:
    "ok (rn_store (foldl (reconcile_run es deps now) ?s runs))"
    "rn_reconciled (foldl (reconcile_run es deps now) ?s runs)
       = rn_reconciled ?s @ filter (should_interrupt (history (rn_store s)) deps) runs"
    "if r \<in> set runs \<and> should_interrupt (history (rn_store ?s)) deps r
     then interrupted_history (history (rn_store (foldl (reconcile_run es deps now) ?s runs)) r)
        (history (rn_store ?s) r) r now
     else history (rn_store (foldl (reconcile_run es deps now) ?s runs)) r = history (rn_store ?s) r" for r
    by (simp_all add: Let_def f)
  have "if r \<in> set (run # runs) \<and> should_interrupt (history (rn_store s)) deps r
     then interrupted_history (history (rn_store (foldl (reconcile_run es deps now) ?s runs)) r)
        (history (rn_store s) r) r now
     else history (rn_store (foldl (reconcile_run es deps now) ?s runs)) r = history (rn_store s) r" for r
    using IH(3) [of r] step other [of r] Cons.prems(2) by (cases "r = run") auto
  with IH(1,2) step show ?case by (auto simp: Let_def)
qed (simp add: Let_def)

lemma reconcile_all:
  assumes ok: "ok st"
  shows "(let s' = reconcile_interrupted_runs es deps now st; doomed = should_interrupt (history st) deps
      in ok (rn_store s') \<and> rn_reconciled s' = filter doomed (st_run_ids es st)
       \<and> (\<forall>r. if doomed r then interrupted_history (history (rn_store s') r) (history st r) r now
              else history (rn_store s') r = history st r))"
proof -
  let ?s = "\<lparr>rn_store = st, rn_reconciled = [], rn_errors = []\<rparr>"
  have in_ids: "(r \<in> set (st_run_ids es st) \<and> should_interrupt (history st) deps r)
      = should_interrupt (history st) deps r" for r
    using run_ids [OF ok] by (auto simp: should_interrupt_def)
  have "ok (rn_store ?s)" "distinct (st_run_ids es st)" using ok run_ids [OF ok] by simp_all
  note runs = reconcile_runs [OF this, of deps now, unfolded Let_def reconciliation.simps in_ids append_Nil]
  show ?thesis
    unfolding reconcile_interrupted_runs_def Let_def by (rule runs)
qed

lemma reconciled_not_doomed:
  assumes "interrupted_history h' h run now" and "hist run = h'"
  shows "\<not> should_interrupt hist deps run"
proof -
  from assms obtain x where "hist run = h @ [x]" "new_run_event.truncate x = interruption_of run (last h)"
    by (auto simp: interrupted_history_def)
  moreover from this have "ev_kind x = RunInterrupted"
    by (cases x) (simp add: interruption_of_def new_run_event.truncate_def)
  ultimately show ?thesis
    by (simp add: should_interrupt_def is_terminal_run_event_kind_def TERMINAL_RUN_EVENT_KINDS_def)
qed

lemma reconcile_twice:
  assumes ok: "ok st"
  shows "rn_reconciled (reconcile_interrupted_runs es deps now'
      (rn_store (reconcile_interrupted_runs es deps now st))) = []"
proof -
  let ?s = "reconcile_interrupted_runs es deps now st"
  note r = reconcile_all [OF ok, of deps now, unfolded Let_def]
  have "\<not> should_interrupt (history (rn_store ?s)) deps run" for run
  proof (cases "should_interrupt (history st) deps run")
    case True
    with r have "interrupted_history (history (rn_store ?s) run) (history st run) run now" by metis
    then show ?thesis by (rule reconciled_not_doomed) simp
  next
    case False
    with r have "history (rn_store ?s) run = history st run" by metis
    with False show ?thesis by (simp add: should_interrupt_def)
  qed
  with reconcile_all [of "rn_store ?s" deps now'] r show ?thesis by (simp add: Let_def)
qed

end

subsection \<open>Before and after reconciliation\<close>

lemma run_claim_live:
  "run_claim_of d lv c = Inr Live \<longleftrightarrow>
      (\<exists>root m. rd_manifest d = Some (Inr root) \<and> lv_read_marker lv root = Inr (Some m)
          \<and> lv_is_alive lv (tc_pid m) \<and> is_own_claim lv m c)"
proof (cases "rd_manifest d")
  case (Some manifest)
  show ?thesis
  proof (cases manifest)
    case (Inr root)
    show ?thesis
    proof (cases "lv_read_marker lv root")
      case (Inr marker)
      with Some \<open>manifest = Inr root\<close> show ?thesis
        by (cases marker) (simp_all add: run_claim_of_def own_marker_def)
    qed (simp add: Some Inr run_claim_of_def own_marker_def)
  qed (simp add: Some run_claim_of_def own_marker_def)
qed (simp add: run_claim_of_def own_marker_def)


text \<open>The endings a reader names depend on a run's history only through its latest event, its first
  event and the stages it names.\<close>

context run_event_store
begin

lemma find_last_stage:
  "ok st \<Longrightarrow> failed_stage es st run = Inr (find_last (\<lambda>s. s \<noteq> []) (map ev_event_stage (history st run)))"
  by (simp add: failed_stage_def events_from_start)

lemma find_last_repeat:
  "h \<noteq> [] \<Longrightarrow> ev_event_stage x = ev_event_stage (last h) \<Longrightarrow>
     find_last (\<lambda>s. s \<noteq> []) (map ev_event_stage (h @ [x])) = find_last (\<lambda>s. s \<noteq> []) (map ev_event_stage h)"
  by (cases h rule: rev_cases) (auto simp: find_last_def)

lemma dead_claim_gone:
  assumes "has_dead_claim (live_reconciliation_dependencies disk lv) run = Inr True"
  shows "\<not> rd_artifact (disk run) \<and> run_claim_of (disk run) lv claiming = Inr Gone"
  using assms
  by (auto simp: has_dead_claim_def live_reconciliation_dependencies_def run_claim_of_def own_marker_def
      res_simps split: if_splits option.splits)

lemma ending_after_interruption:
  assumes ok: "ok st" "ok st'" and doomed: "should_interrupt (history st) (live_reconciliation_dependencies disk lv) run"
    and int: "interrupted_history (history st' run) (history st run) run now" and d: "er_disk r = disk run" "er_liveness r = lv"
  shows "run_ending_of r es st' run = run_ending_of r es st run"
proof -
  let ?h = "history st run"
  from doomed have ne: "?h \<noteq> []" and nt: "\<not> is_terminal_run_event_kind (ev_kind (last ?h))"
    and dead: "has_dead_claim (live_reconciliation_dependencies disk lv) run = Inr True"
    by (auto simp: should_interrupt_def)
  from int obtain x where h': "history st' run = ?h @ [x]" and x: "new_run_event.truncate x = interruption_of run (last ?h)"
    by (auto simp: interrupted_history_def)
  from x have xs: "ev_kind x = RunInterrupted" "ev_event_stage x = ev_event_stage (last ?h)"
    by (cases x; simp add: interruption_of_def new_run_event.truncate_def)+
  have fs: "failed_stage es st' run = failed_stage es st run"
    using find_last_repeat [OF ne xs(2)] ok by (simp add: find_last_stage h')
  have rec: "recorded_ending r es st' run = recorded_ending r es st run"
    unfolding recorded_ending_def fs ..
  have "event_ending r es st run (last ?h) = Inr (InterruptedRun (ev_event_stage (last ?h)))"
    using nt dead_claim_gone [OF dead] first_event [OF ok(1), of run] d
    by (auto simp: event_ending_def claimed_ending_def claiming_run_of_def is_terminal_run_event_kind_def
        TERMINAL_RUN_EVENT_KINDS_def)
  moreover have "event_ending r es st' run x = Inr (InterruptedRun (ev_event_stage (last ?h)))"
    by (simp add: event_ending_def xs)
  moreover have "st_latest_event es st run = Inr (Some (last ?h))" "st_latest_event es st' run = Inr (Some x)"
    using latest_event [OF ok(1), of run] latest_event [OF ok(2), of run] ne h' by simp_all
  ultimately show ?thesis
    unfolding run_ending_of_def rec
    by (cases "recorded_ending r es st run") (auto split: option.split)
qed

lemma ending_same_history:
  assumes "ok st" "ok st'" "history st' run = history st run"
  shows "run_ending_of r es st' run = run_ending_of r es st run"
proof -
  have fs: "failed_stage es st' run = failed_stage es st run"
    using assms by (simp add: find_last_stage)
  have "recorded_ending r es st' run = recorded_ending r es st run"
    unfolding recorded_ending_def fs ..
  moreover have "claiming_run_of es st' run = claiming_run_of es st run"
    using assms by (simp add: claiming_run_of_def first_event)
  then have "event_ending r es st' run e = event_ending r es st run e" for e
    unfolding event_ending_def claimed_ending_def fs by simp
  ultimately show ?thesis
    using assms by (simp add: run_ending_of_def latest_event)
qed

lemma reconciliation_keeps_endings:
  assumes ok: "ok st" and d: "er_disk r = disk run" "er_liveness r = lv"
  shows "run_ending_of r es (rn_store (reconcile_interrupted_runs es (live_reconciliation_dependencies disk lv) now st)) run
     = run_ending_of r es st run"
proof -
  let ?deps = "live_reconciliation_dependencies disk lv"
  let ?st = "rn_store (reconcile_interrupted_runs es ?deps now st)"
  note all = reconcile_all [OF ok, of ?deps now, unfolded Let_def]
  then have ok': "ok ?st" by blast
  show ?thesis
  proof (cases "should_interrupt (history st) ?deps run")
    case True
    with all have "interrupted_history (history ?st run) (history st run) run now" by metis
    from ending_after_interruption [OF ok ok' True this d] show ?thesis .
  next
    case False
    with all have "history ?st run = history st run" by metis
    from ending_same_history [OF ok ok' this] show ?thesis .
  qed
qed

lemma running_iff:
  assumes ok: "ok st"
  shows "run_ending_of r es st run = Inr (RunningRun e) \<longleftrightarrow>
     \<not> rd_artifact (er_disk r) \<and> recorded_ending r es st run = Inr None
     \<and> history st run \<noteq> [] \<and> e = last (history st run) \<and> \<not> is_terminal_run_event_kind (ev_kind e)
     \<and> (\<exists>root m. rd_manifest (er_disk r) = Some (Inr root) \<and> lv_read_marker (er_liveness r) root = Inr (Some m)
          \<and> lv_is_alive (er_liveness r) (tc_pid m)
          \<and> is_own_claim (er_liveness r) m \<lparr>cr_run = run, cr_first_event_at = Some (ev_recorded_at (hd (history st run)))\<rparr>)"
proof -
  have no_rec: "recorded_ending r es st run \<noteq> Inr (Some (RunningRun e))"
    by (auto simp: recorded_ending_def res_simps split: option.splits if_splits)
  have claim: "claimed_ending r es st run l = Inr (RunningRun e) \<longleftrightarrow> e = l \<and>
      run_claim_of (er_disk r) (er_liveness r)
        \<lparr>cr_run = run, cr_first_event_at = Some (ev_recorded_at (hd (history st run)))\<rparr> = Inr Live"
    if "history st run \<noteq> []" for l
  proof -
    have c: "claiming_run_of es st run
        = Inr \<lparr>cr_run = run, cr_first_event_at = Some (ev_recorded_at (hd (history st run)))\<rparr>"
      using that ok by (auto simp: claiming_run_of_def first_event neq_Nil_conv)
    show ?thesis
      unfolding claimed_ending_def c bind_res.simps
      by (cases "run_claim_of (er_disk r) (er_liveness r)
          \<lparr>cr_run = run, cr_first_event_at = Some (ev_recorded_at (hd (history st run)))\<rparr>")
         (auto split: run_claim.splits)
  qed
  have event: "event_ending r es st run l = Inr (RunningRun e) \<longleftrightarrow>
      \<not> is_terminal_run_event_kind (ev_kind l) \<and> claimed_ending r es st run l = Inr (RunningRun e)" for l
    by (auto simp: event_ending_def res_simps is_terminal_run_event_kind_def TERMINAL_RUN_EVENT_KINDS_def)
  have none: "without_events r \<noteq> Inr (RunningRun e)"
    by (auto simp: without_events_def res_simps split: option.splits)
  show ?thesis
    using no_rec none ok
    by (cases "history st run = []")
       (auto simp: run_ending_of_def res_simps latest_event event claim run_claim_live split: option.splits)
qed

end

subsection \<open>Properties\<close>

text \<open>The database after typed appends.\<close>

definition recorded_events :: "(string \<times> new_run_event) list \<Rightarrow> event_table" where
  "recorded_events evs = append_all store_for_queries [] evs"

lemma recorded_events_ok: "list_all (\<lambda>ne. event_typed (snd ne)) evs \<Longrightarrow> table_ok (recorded_events evs)"
  unfolding recorded_events_def by (rule sqlite.append_all_ok) (simp_all add: table_ok_def)

text \<open>A run reads as running exactly when its artifact has not landed, no stop, pause or operator's
  stop is recorded, its latest event does not end it, and the target its manifest names is held by
  a live process under the run's own claim.\<close>

theorem running_exactly:
  assumes "list_all (\<lambda>ne. event_typed (snd ne)) evs"
  shows "run_ending_of r store_for_queries (recorded_events evs) run = Inr (RunningRun e) \<longleftrightarrow>
     \<not> rd_artifact (er_disk r) \<and> recorded_ending r store_for_queries (recorded_events evs) run = Inr None
     \<and> table_history (recorded_events evs) run \<noteq> [] \<and> e = last (table_history (recorded_events evs) run)
     \<and> ev_kind e \<notin> {RunCompleted, RunFailed, RunInterrupted}
     \<and> (\<exists>root m. rd_manifest (er_disk r) = Some (Inr root) \<and> lv_read_marker (er_liveness r) root = Inr (Some m)
          \<and> lv_is_alive (er_liveness r) (tc_pid m)
          \<and> is_own_claim (er_liveness r) m \<lparr>cr_run = run,
               cr_first_event_at = Some (ev_recorded_at (hd (table_history (recorded_events evs) run)))\<rparr>)"
  using sqlite.running_iff [OF recorded_events_ok [OF assms], of r run e]
  by (simp add: is_terminal_run_event_kind_def TERMINAL_RUN_EVENT_KINDS_def)

definition sample_disk :: run_disk where
  "sample_disk = \<lparr>rd_artifact = False, rd_manifest = Some (Inr ''root''), rd_stage_files = [], rd_paused = None,
     rd_operator_stop = None\<rparr>"

definition sample_liveness :: "bool \<Rightarrow> run_liveness" where
  "sample_liveness alive = \<lparr>lv_read_marker = (\<lambda>_. Inr (Some \<lparr>tc_pid = 7, tc_run = Some ''r'', tc_started_at = ''t''\<rparr>)),
     lv_is_alive = (\<lambda>_. alive), lv_date_parse = (\<lambda>_. None)\<rparr>"

definition sample_reading :: "bool \<Rightarrow> ending_reading" where
  "sample_reading alive = \<lparr>er_disk = sample_disk, er_liveness = sample_liveness alive, er_iso = (\<lambda>_. True)\<rparr>"

definition sample_events :: "(string \<times> new_run_event) list" where
  "sample_events = [(''t'', plain_event ''r'' StageStarted ''plan'' 0 1), (''u'', plain_event ''r'' TurnCompleted ''plan'' 2 3)]"

lemma sample_events_typed: "list_all (\<lambda>ne. event_typed (snd ne)) sample_events"
  by (simp add: sample_events_def event_typed_def plain_event_def)

lemma sample_history: "map ev_kind (table_history (recorded_events sample_events) ''r'') = [StageStarted, TurnCompleted]"
  by code_simp

lemma running_exactly_witness:
  "\<exists>e. run_ending_of (sample_reading True) store_for_queries (recorded_events sample_events) ''r'' = Inr (RunningRun e)"
proof -
  have "table_history (recorded_events sample_events) ''r'' \<noteq> []" using sample_history by force
  moreover from this have "ev_kind (last (table_history (recorded_events sample_events) ''r'')) = TurnCompleted"
    using sample_history by (metis last.simps last_map list.distinct(1))
  moreover have "recorded_ending (sample_reading True) store_for_queries (recorded_events sample_events) ''r'' = Inr None"
    by (simp add: recorded_ending_def stopped_stage_of_def paused_stage_def operator_stopped_def
        sample_reading_def sample_disk_def)
  ultimately show ?thesis
    using running_exactly [OF sample_events_typed, of "sample_reading True" "''r''"]
    by (simp add: sample_reading_def sample_disk_def sample_liveness_def is_own_claim_def)
qed

text \<open>C3: reconciliation records one interruption, with the latest event's stage and spend, for exactly
  the runs whose latest event does not end them and whose target's claimant is dead, answers those
  runs, leaves every other run's events alone, and has nothing left to do when it runs again. It never
  changes the ending a reader names: what was read as interrupted from a dead claim is read as
  interrupted at the same stage from the recorded event, and every other ending is as it was.\<close>

theorem reconciliation_exact:
  assumes "list_all (\<lambda>ne. event_typed (snd ne)) evs"
    and "s = reconcile_interrupted_runs store_for_queries deps now (recorded_events evs)"
  shows "rn_reconciled s = filter (should_interrupt (table_history (recorded_events evs)) deps)
       (select_run_ids (recorded_events evs))
     \<and> (\<forall>run. if should_interrupt (table_history (recorded_events evs)) deps run
            then interrupted_history (table_history (rn_store s) run) (table_history (recorded_events evs) run) run now
            else table_history (rn_store s) run = table_history (recorded_events evs) run)
     \<and> rn_reconciled (reconcile_interrupted_runs store_for_queries deps now' (rn_store s)) = []
     \<and> (\<forall>disk lv is_iso run. deps = live_reconciliation_dependencies disk lv \<longrightarrow>
          run_ending_of \<lparr>er_disk = disk run, er_liveness = lv, er_iso = is_iso\<rparr> store_for_queries (rn_store s) run
          = run_ending_of \<lparr>er_disk = disk run, er_liveness = lv, er_iso = is_iso\<rparr> store_for_queries (recorded_events evs) run)"
proof -
  note ok = recorded_events_ok [OF assms(1)]
  have "st_run_ids store_for_queries (recorded_events evs) = select_run_ids (recorded_events evs)"
    by (simp add: store_for_queries_def)
  moreover have "run_ending_of \<lparr>er_disk = disk run, er_liveness = lv, er_iso = is_iso\<rparr> store_for_queries
        (rn_store (reconcile_interrupted_runs store_for_queries (live_reconciliation_dependencies disk lv) now
          (recorded_events evs))) run
      = run_ending_of \<lparr>er_disk = disk run, er_liveness = lv, er_iso = is_iso\<rparr> store_for_queries (recorded_events evs) run"
    for disk lv is_iso run
    using sqlite.reconciliation_keeps_endings [OF ok, of "\<lparr>er_disk = disk run, er_liveness = lv, er_iso = is_iso\<rparr>" disk run lv now]
    by simp
  ultimately show ?thesis
    using sqlite.reconcile_all [OF ok, of deps now] sqlite.reconcile_twice [OF ok, of deps now' now]
    unfolding assms(2) Let_def by simp
qed

lemma reconciliation_exact_witness:
  "\<exists>s :: event_table reconciliation. rn_reconciled s = [''r'']
     \<and> length (table_history (rn_store s) ''r'') = 3"
proof -
  let ?deps = "live_reconciliation_dependencies (\<lambda>_. sample_disk) (sample_liveness False)"
  let ?s = "reconcile_interrupted_runs store_for_queries ?deps ''v'' (recorded_events sample_events)"
  note r = reconciliation_exact [OF sample_events_typed refl, of ?deps "''v''" "''w''"]
  have "rn_reconciled ?s = [''r'']"
    unfolding conjunct1 [OF r] by code_simp
  moreover have "should_interrupt (table_history (recorded_events sample_events)) ?deps ''r''" by code_simp
  with r have "interrupted_history (table_history (rn_store ?s) ''r'')
      (table_history (recorded_events sample_events) ''r'') ''r'' ''v''" by metis
  then have "length (table_history (rn_store ?s) ''r'') = Suc (length (table_history (recorded_events sample_events) ''r''))"
    by (auto simp: interrupted_history_def)
  moreover have "length (table_history (recorded_events sample_events) ''r'') = 2"
    using arg_cong [OF sample_history, of length] by simp
  ultimately show ?thesis by (intro exI [of _ ?s]) simp
qed

end
