(* ===== verification/RecordCache.thy ===== *)
theory RecordCache
  imports Prelude "HOL-Library.Multiset"
begin

text \<open>
  The cache of parsed records, \<open>record-parse-cache.ts\<close>: what was parsed is kept by the schema and
  the digest of the text, the least recently used entries go first when the texts outgrow the
  budget or their number its limit.

  The schema registry gives each schema, named by a number here, its own parser. The parameters of
  \<open>cache_deps\<close> are the digest (SHA-256) and the parse of a schema (\<open>JSON.parse\<close> and Zod); freezing
  the value has no counterpart in a model without mutation. The key is the pair of the two parts
  the source joins with a colon, of which the first is a number.
\<close>

type_synonym cache_key = "nat \<times> string"

record 'v cache_deps =
  cd_digest :: "string \<Rightarrow> string"
  cd_parse :: "nat \<Rightarrow> string \<Rightarrow> string + 'v"
  cd_maximum_bytes :: nat

record parsed_record =
  pr_key :: cache_key
  pr_bytes :: nat

text \<open>The entries in the order of the \<open>Map\<close>, and the values of each parser.\<close>

record 'v parse_cache =
  pc_entries :: "parsed_record list"
  pc_parsers :: "(nat \<times> nat) list"
  pc_values :: "nat \<Rightarrow> cache_key \<Rightarrow> 'v option"
  pc_next_parser :: nat
  pc_bytes :: nat

definition DEFAULT_CACHE_BYTES :: nat where
  "DEFAULT_CACHE_BYTES = 67108864"

definition MAX_CACHE_ENTRIES :: nat where
  "MAX_CACHE_ENTRIES = 2048"

definition new_parse_cache :: "'v parse_cache" where
  "new_parse_cache = \<lparr>pc_entries = [], pc_parsers = [], pc_values = (\<lambda>_ _. None), pc_next_parser = 0, pc_bytes = 0\<rparr>"

text \<open>\<open>Buffer.byteLength\<close>: UTF-8, for characters up to code point 255.\<close>

definition byte_length :: "string \<Rightarrow> nat" where
  "byte_length s = sum_list (map (\<lambda>c. if (of_char c :: nat) < 128 then 1 else 2) s)"

definition parser_for :: "nat \<Rightarrow> 'v parse_cache \<Rightarrow> 'v parse_cache \<times> nat" where
  "parser_for schema c =
     (case map_of (pc_parsers c) schema of
        Some p \<Rightarrow> (c, p)
      | None \<Rightarrow> (c\<lparr>pc_parsers := (schema, pc_next_parser c) # pc_parsers c,
                   pc_next_parser := pc_next_parser c + 1\<rparr>, pc_next_parser c))"

definition promote :: "cache_key \<Rightarrow> 'v parse_cache \<Rightarrow> 'v parse_cache option" where
  "promote key c =
     (case List.find (\<lambda>e. pr_key e = key) (pc_entries c) of
        None \<Rightarrow> None
      | Some e \<Rightarrow> Some (c\<lparr>pc_entries := filter (\<lambda>e. pr_key e \<noteq> key) (pc_entries c) @ [e]\<rparr>))"

definition delete_value :: "cache_key \<Rightarrow> (nat \<Rightarrow> cache_key \<Rightarrow> 'v option) \<Rightarrow> nat \<Rightarrow> cache_key \<Rightarrow> 'v option" where
  "delete_value key vals = vals(fst key := (vals (fst key))(key := None))"

fun evict_over_budget ::
    "nat \<Rightarrow> parsed_record list \<Rightarrow> nat \<Rightarrow> (nat \<Rightarrow> cache_key \<Rightarrow> 'v option) \<Rightarrow>
     parsed_record list \<times> nat \<times> (nat \<Rightarrow> cache_key \<Rightarrow> 'v option)" where
  "evict_over_budget maximum [] bytes vals = ([], bytes, vals)"
| "evict_over_budget maximum (e # es) bytes vals =
     (if bytes > maximum \<or> length (e # es) > MAX_CACHE_ENTRIES
      then evict_over_budget maximum es (bytes - pr_bytes e) (delete_value (pr_key e) vals)
      else (e # es, bytes, vals))"

text \<open>\<open>Map.set\<close> keeps the place of a key that is there already.\<close>

definition set_entry :: "parsed_record \<Rightarrow> parsed_record list \<Rightarrow> parsed_record list" where
  "set_entry e es =
     (if list_ex (\<lambda>x. pr_key x = pr_key e) es
      then map (\<lambda>x. if pr_key x = pr_key e then e else x) es else es @ [e])"

definition remember :: "nat \<Rightarrow> cache_key \<Rightarrow> string \<Rightarrow> 'v \<Rightarrow> 'v parse_cache \<Rightarrow> 'v parse_cache" where
  "remember maximum key t v c =
     (let bytes = byte_length t
      in if bytes \<le> maximum
         then (case evict_over_budget maximum (set_entry \<lparr>pr_key = key, pr_bytes = bytes\<rparr> (pc_entries c))
                      (pc_bytes c + bytes) ((pc_values c)(fst key := (pc_values c (fst key))(key := Some v))) of
                 (es, b, vals) \<Rightarrow> c\<lparr>pc_entries := es, pc_bytes := b, pc_values := vals\<rparr>)
         else c)"

definition parse_immutable :: "'v cache_deps \<Rightarrow> nat \<Rightarrow> string \<Rightarrow> string + 'v" where
  "parse_immutable d schema t = cd_parse d schema t"

definition cache_parse :: "'v cache_deps \<Rightarrow> nat \<Rightarrow> string \<Rightarrow> 'v parse_cache \<Rightarrow> 'v parse_cache \<times> (string + 'v)" where
  "cache_parse d schema t c0 =
     (let (c, p) = parser_for schema c0;
          key = (p, cd_digest d t);
          fresh = (case parse_immutable d schema t of
                     Inl e \<Rightarrow> (c, Inl e)
                   | Inr v \<Rightarrow> (remember (cd_maximum_bytes d) key t v c, Inr v))
      in case pc_values c p key of
           None \<Rightarrow> fresh
         | Some v \<Rightarrow> (case promote key c of None \<Rightarrow> fresh | Some c' \<Rightarrow> (c', Inr v)))"

text \<open>\<open>parseRecord\<close>: the cache of the scope that owns one, else the plain parse.\<close>

definition parse_record ::
    "'v cache_deps \<Rightarrow> nat \<Rightarrow> string \<Rightarrow> 'v parse_cache option \<Rightarrow> 'v parse_cache option \<times> (string + 'v)" where
  "parse_record d schema t owner =
     (case owner of
        None \<Rightarrow> (None, parse_immutable d schema t)
      | Some c \<Rightarrow> (case cache_parse d schema t c of (c', r) \<Rightarrow> (Some c', r)))"

text \<open>The parses of a scope, in order, and their results.\<close>

fun parse_all :: "'v cache_deps \<Rightarrow> (nat \<times> string) list \<Rightarrow> 'v parse_cache \<Rightarrow> 'v parse_cache \<times> (string + 'v) list" where
  "parse_all d [] c = (c, [])"
| "parse_all d ((schema, t) # rs) c =
     (case cache_parse d schema t c of
        (c1, r) \<Rightarrow> (case parse_all d rs c1 of (c2, results) \<Rightarrow> (c2, r # results)))"

subsection \<open>The invariant\<close>

definition entries_bytes :: "parsed_record list \<Rightarrow> nat" where
  "entries_bytes es = sum_list (map pr_bytes es)"

text \<open>The values are those of the entries, and each is what its schema reads from a text of \<open>S\<close>,
  those parsed so far, that has its digest.\<close>

definition values_ok ::
    "'v cache_deps \<Rightarrow> string set \<Rightarrow> (nat \<times> nat) list \<Rightarrow> parsed_record list \<Rightarrow> (nat \<Rightarrow> cache_key \<Rightarrow> 'v option) \<Rightarrow> bool" where
  "values_ok d S parsers es vals \<longleftrightarrow>
     (\<forall>p key. vals p key \<noteq> None \<longleftrightarrow> p = fst key \<and> key \<in> pr_key ` set es)
     \<and> (\<forall>p key v. vals p key = Some v \<longrightarrow>
          (\<exists>schema t. t \<in> S \<and> map_of parsers schema = Some p \<and> key = (p, cd_digest d t) \<and> cd_parse d schema t = Inr v))"

definition parsers_ok :: "'v parse_cache \<Rightarrow> bool" where
  "parsers_ok c \<longleftrightarrow> distinct (map fst (pc_parsers c)) \<and> distinct (map snd (pc_parsers c))
     \<and> (\<forall>p \<in> set (map snd (pc_parsers c)). p < pc_next_parser c)"

definition cache_ok :: "'v cache_deps \<Rightarrow> string set \<Rightarrow> 'v parse_cache \<Rightarrow> bool" where
  "cache_ok d S c \<longleftrightarrow> distinct (map pr_key (pc_entries c)) \<and> pc_bytes c = entries_bytes (pc_entries c)
     \<and> pc_bytes c \<le> cd_maximum_bytes d \<and> length (pc_entries c) \<le> MAX_CACHE_ENTRIES
     \<and> values_ok d S (pc_parsers c) (pc_entries c) (pc_values c) \<and> parsers_ok c"

lemma new_cache_ok: "cache_ok d S new_parse_cache"
  by (simp add: cache_ok_def new_parse_cache_def entries_bytes_def values_ok_def parsers_ok_def)

lemma values_okD:
  "values_ok d S ps es vals \<Longrightarrow> vals p key \<noteq> None \<longleftrightarrow> p = fst key \<and> key \<in> pr_key ` set es"
  "values_ok d S ps es vals \<Longrightarrow> vals p key = Some v \<Longrightarrow>
     \<exists>schema t. t \<in> S \<and> map_of ps schema = Some p \<and> key = (p, cd_digest d t) \<and> cd_parse d schema t = Inr v"
  unfolding values_ok_def by blast+

lemma values_okI:
  assumes "\<And>p key. vals p key \<noteq> None \<longleftrightarrow> p = fst key \<and> key \<in> pr_key ` set es"
    and "\<And>p key v. vals p key = Some v \<Longrightarrow>
       \<exists>schema t. t \<in> S \<and> map_of ps schema = Some p \<and> key = (p, cd_digest d t) \<and> cd_parse d schema t = Inr v"
  shows "values_ok d S ps es vals"
  unfolding values_ok_def using assms by blast

lemma values_ok_parsers:
  assumes "values_ok d S ps es vals" and "\<And>s q. map_of ps s = Some q \<Longrightarrow> map_of ps' s = Some q"
  shows "values_ok d S ps' es vals"
proof (rule values_okI)
  fix p key show "vals p key \<noteq> None \<longleftrightarrow> p = fst key \<and> key \<in> pr_key ` set es" by (rule values_okD [OF assms(1)])
next
  fix p key v assume "vals p key = Some v"
  from values_okD(2) [OF assms(1) this] assms(2)
  show "\<exists>schema t. t \<in> S \<and> map_of ps' schema = Some p \<and> key = (p, cd_digest d t) \<and> cd_parse d schema t = Inr v" by blast
qed

lemma values_ok_delete:
  assumes "distinct (map pr_key (e # es))" and ok: "values_ok d S ps (e # es) vals"
  shows "values_ok d S ps es (delete_value (pr_key e) vals)"
proof -
  have del: "delete_value (pr_key e) vals p key = (if p = fst (pr_key e) \<and> key = pr_key e then None else vals p key)" for p key
    by (simp add: delete_value_def)
  have new: "pr_key e \<notin> pr_key ` set es" using assms(1) by simp
  show ?thesis
  proof (rule values_okI)
    fix p key
    show "delete_value (pr_key e) vals p key \<noteq> None \<longleftrightarrow> p = fst key \<and> key \<in> pr_key ` set es"
      using values_okD(1) [OF ok, of p key] new unfolding del by (cases "key = pr_key e") auto
  next
    fix p key v assume "delete_value (pr_key e) vals p key = Some v"
    then have "vals p key = Some v" unfolding del by (simp split: if_splits)
    then show "\<exists>schema t. t \<in> S \<and> map_of ps schema = Some p \<and> key = (p, cd_digest d t) \<and> cd_parse d schema t = Inr v"
      by (rule values_okD(2) [OF ok])
  qed
qed

lemma parser_for_ok:
  assumes "cache_ok d S c" and "parser_for schema c = (c', p)"
  shows "cache_ok d S c' \<and> map_of (pc_parsers c') schema = Some p \<and> pc_entries c' = pc_entries c
     \<and> pc_values c' = pc_values c"
proof (cases "map_of (pc_parsers c) schema")
  case (Some q)
  with assms show ?thesis by (simp add: parser_for_def)
next
  case None
  then have new: "schema \<notin> fst ` set (pc_parsers c)" by (simp add: map_of_eq_None_iff)
  have c': "c' = c\<lparr>pc_parsers := (schema, pc_next_parser c) # pc_parsers c, pc_next_parser := pc_next_parser c + 1\<rparr>"
    and p: "p = pc_next_parser c" using assms(2) None by (auto simp: parser_for_def)
  have ext: "map_of (pc_parsers c) s = Some q \<Longrightarrow> map_of (pc_parsers c') s = Some q" for s q
    using None by (auto simp: c')
  have "values_ok d S (pc_parsers c') (pc_entries c) (pc_values c)"
    using assms(1) ext by (auto simp: cache_ok_def intro: values_ok_parsers)
  moreover have "parsers_ok c'"
    using assms(1) new by (fastforce simp: cache_ok_def parsers_ok_def c' less_Suc_eq)
  ultimately show ?thesis
    using assms(1) by (simp add: cache_ok_def c' p)
qed

lemma evict_ok:
  assumes "distinct (map pr_key es)" "bytes = entries_bytes es" "values_ok d S parsers es vals"
    and "evict_over_budget maximum es bytes vals = (es', bytes', vals')"
  shows "distinct (map pr_key es') \<and> bytes' = entries_bytes es' \<and> values_ok d S parsers es' vals'
     \<and> bytes' \<le> maximum \<and> length es' \<le> MAX_CACHE_ENTRIES \<and> (\<exists>old. es = old @ es')"
  using assms
proof (induction maximum es bytes vals rule: evict_over_budget.induct)
  case (1 maximum bytes vals)
  then show ?case by (simp add: entries_bytes_def)
next
  case (2 maximum e es bytes vals)
  show ?case
  proof (cases "bytes > maximum \<or> length (e # es) > MAX_CACHE_ENTRIES")
    case True
    have "values_ok d S parsers es (delete_value (pr_key e) vals)"
      by (rule values_ok_delete [OF "2.prems"(1,3)])
    with True 2 have "distinct (map pr_key es') \<and> bytes' = entries_bytes es' \<and> values_ok d S parsers es' vals'
     \<and> bytes' \<le> maximum \<and> length es' \<le> MAX_CACHE_ENTRIES \<and> (\<exists>old. es = old @ es')"
      by (simp add: entries_bytes_def)
    then show ?thesis by (metis append_Cons)
  next
    case False
    with 2 show ?thesis by (auto intro: exI [of _ "[]"])
  qed
qed

lemma set_entry_new: "pr_key e \<notin> pr_key ` set es \<Longrightarrow> set_entry e es = es @ [e]"
  by (auto simp: set_entry_def list_ex_iff) (metis image_eqI)

lemma values_ok_insert:
  assumes ok: "values_ok d S ps es vals" and k: "map_of ps schema = Some p" "cd_parse d schema t = Inr v"
    and key: "key = (p, cd_digest d t)" and t: "t \<in> S"
  shows "values_ok d S ps (es @ [\<lparr>pr_key = key, pr_bytes = b\<rparr>]) (vals(p := (vals p)(key := Some v)))"
proof -
  have ins: "(vals(p := (vals p)(key := Some v))) q k = (if q = p \<and> k = key then Some v else vals q k)" for q k
    by simp
  show ?thesis
  proof (rule values_okI)
    fix q k
    show "(vals(p := (vals p)(key := Some v))) q k \<noteq> None \<longleftrightarrow>
        q = fst k \<and> k \<in> pr_key ` set (es @ [\<lparr>pr_key = key, pr_bytes = b\<rparr>])"
      using values_okD(1) [OF ok, of q k] key unfolding ins by (cases "k = key") auto
  next
    fix q k w assume "(vals(p := (vals p)(key := Some v))) q k = Some w"
    then show "\<exists>schema t. t \<in> S \<and> map_of ps schema = Some q \<and> k = (q, cd_digest d t) \<and> cd_parse d schema t = Inr w"
      using values_okD(2) [OF ok, of q k w] k key t unfolding ins by (cases "q = p \<and> k = key") (simp, blast, auto)
  qed
qed

lemma evict_keeps_last:
  assumes "bytes = entries_bytes (es @ [e])" and "pr_bytes e \<le> maximum"
  shows "\<exists>es'. fst (evict_over_budget maximum (es @ [e]) bytes vals) = es' @ [e]"
  using assms
proof (induction es arbitrary: bytes vals)
  case Nil
  then show ?case by (simp add: entries_bytes_def MAX_CACHE_ENTRIES_def)
next
  case (Cons x es)
  show ?case
  proof (cases "bytes > maximum \<or> length (x # es @ [e]) > MAX_CACHE_ENTRIES")
    case True
    then show ?thesis using Cons.IH [of "bytes - pr_bytes x"] Cons.prems by (simp add: entries_bytes_def)
  next
    case False
    then have "fst (evict_over_budget maximum ((x # es) @ [e]) bytes vals) = (x # es) @ [e]" by simp
    then show ?thesis by blast
  qed
qed

text \<open>The last entry is the one of a key.\<close>

definition newest_key :: "cache_key \<Rightarrow> parsed_record list \<Rightarrow> bool" where
  "newest_key key es \<longleftrightarrow> es \<noteq> [] \<and> pr_key (last es) = key"

lemma remember_ok:
  assumes c: "cache_ok d S c" and k: "map_of (pc_parsers c) schema = Some p" "cd_parse d schema t = Inr v"
    and key: "key = (p, cd_digest d t)" and t: "t \<in> S" and new: "key \<notin> pr_key ` set (pc_entries c)"
  shows "cache_ok d S (remember (cd_maximum_bytes d) key t v c)
    \<and> pc_parsers (remember (cd_maximum_bytes d) key t v c) = pc_parsers c
    \<and> (byte_length t \<le> cd_maximum_bytes d \<longrightarrow>
         newest_key key (pc_entries (remember (cd_maximum_bytes d) key t v c)))"
proof (cases "byte_length t \<le> cd_maximum_bytes d")
  case True
  let ?e = "\<lparr>pr_key = key, pr_bytes = byte_length t\<rparr>"
  have f: "fst key = p" by (simp add: key)
  have se: "set_entry ?e (pc_entries c) = pc_entries c @ [?e]" by (rule set_entry_new) (simp add: new)
  obtain es b vals where ev: "evict_over_budget (cd_maximum_bytes d) (pc_entries c @ [?e]) (pc_bytes c + byte_length t)
      ((pc_values c)(p := (pc_values c p)(key := Some v))) = (es, b, vals)" by (metis prod_cases3)
  have r: "remember (cd_maximum_bytes d) key t v c = c\<lparr>pc_entries := es, pc_bytes := b, pc_values := vals\<rparr>"
    using True unfolding remember_def Let_def se f ev by simp
  have s: "distinct (map pr_key (pc_entries c @ [?e]))" "pc_bytes c + byte_length t = entries_bytes (pc_entries c @ [?e])"
    using c new by (auto simp: cache_ok_def entries_bytes_def)
  have "values_ok d S (pc_parsers c) (pc_entries c @ [?e]) ((pc_values c)(p := (pc_values c p)(key := Some v)))"
    using c k key t by (intro values_ok_insert) (auto simp: cache_ok_def)
  with s have ok: "distinct (map pr_key es) \<and> b = entries_bytes es \<and> values_ok d S (pc_parsers c) es vals
     \<and> b \<le> cd_maximum_bytes d \<and> length es \<le> MAX_CACHE_ENTRIES"
    using evict_ok [OF _ _ _ ev] by blast
  obtain es' where "es = es' @ [?e]"
    using evict_keeps_last [OF s(2), of "cd_maximum_bytes d" "(pc_values c)(p := (pc_values c p)(key := Some v))"] True
    unfolding ev by auto
  then have "newest_key key es" by (simp add: newest_key_def)
  with ok c show ?thesis
    by (simp add: r cache_ok_def parsers_ok_def)
next
  case False
  with c show ?thesis by (simp add: remember_def)
qed

lemma find_key: "List.find (\<lambda>e. pr_key e = key) es = None \<longleftrightarrow> key \<notin> pr_key ` set es"
  by (auto simp: find_None_iff)

lemma filter_key_one:
  "distinct (map pr_key es) \<Longrightarrow> e \<in> set es \<Longrightarrow> filter (\<lambda>x. pr_key x = pr_key e) es = [e]"
proof (induction es)
  case (Cons x es)
  show ?case
  proof (cases "x = e")
    case True
    with Cons.prems have "filter (\<lambda>y. pr_key y = pr_key e) es = []"
      by (auto simp: filter_empty_conv) (metis image_eqI)
    with True show ?thesis by simp
  next
    case False
    with Cons.prems have "e \<in> set es" "pr_key x \<noteq> pr_key e" by auto
    with Cons show ?thesis by simp
  qed
qed simp

lemma promote_ok:
  assumes c: "cache_ok d S c" and p: "promote key c = Some c'"
  shows "cache_ok d S c' \<and> mset (pc_entries c') = mset (pc_entries c) \<and> pc_parsers c' = pc_parsers c
    \<and> newest_key key (pc_entries c')"
proof -
  from p obtain e where f: "List.find (\<lambda>e. pr_key e = key) (pc_entries c) = Some e"
    and c': "c' = c\<lparr>pc_entries := filter (\<lambda>e. pr_key e \<noteq> key) (pc_entries c) @ [e]\<rparr>"
    by (auto simp: promote_def split: option.splits)
  from find_Some_set [OF f] have e: "e \<in> set (pc_entries c)" "pr_key e = key" by auto
  have d: "distinct (map pr_key (pc_entries c))" using c by (simp add: cache_ok_def)
  have one: "filter (\<lambda>x. pr_key x = key) (pc_entries c) = [e]"
    using filter_key_one [OF d e(1)] e(2) by simp
  have "mset (filter (\<lambda>x. pr_key x \<noteq> key) xs) + mset (filter (\<lambda>x. pr_key x = key) xs) = mset xs"
    for xs :: "parsed_record list" by (induction xs) auto
  from this [of "pc_entries c"] have m: "mset (pc_entries c') = mset (pc_entries c)"
    unfolding one by (simp add: c')
  then have "set (pc_entries c') = set (pc_entries c)" "length (pc_entries c') = length (pc_entries c)"
    by (metis mset_eq_setD, metis mset_eq_length)
  moreover have "distinct (map pr_key (pc_entries c'))"
    using d m by (metis mset_eq_imp_distinct_iff mset_map)
  moreover have "entries_bytes (pc_entries c') = entries_bytes (pc_entries c)"
    using m unfolding entries_bytes_def by (metis mset_map sum_mset_sum_list)
  moreover have "values_ok d S (pc_parsers c) (pc_entries c') (pc_values c)"
    using c \<open>set (pc_entries c') = set (pc_entries c)\<close> by (simp add: cache_ok_def values_ok_def)
  ultimately show ?thesis
    using c m e(2) unfolding cache_ok_def parsers_ok_def newest_key_def by (simp add: c')
qed

text \<open>What a parse leaves: the invariant, the parser of the schema, and the key of the text as the newest
  where it was read and fits.\<close>

definition parsed_newest :: "'v cache_deps \<Rightarrow> nat \<Rightarrow> string \<Rightarrow> 'v parse_cache \<Rightarrow> bool" where
  "parsed_newest d schema t c \<longleftrightarrow>
     (\<exists>p. map_of (pc_parsers c) schema = Some p \<and> newest_key (p, cd_digest d t) (pc_entries c))"

lemma cache_parse_ok:
  assumes c: "cache_ok d S c0" and r: "cache_parse d schema t c0 = (c', r)"
    and t: "t \<in> S" and inj: "inj_on (cd_digest d) S"
  shows "cache_ok d S c' \<and> r = cd_parse d schema t
    \<and> (byte_length t \<le> cd_maximum_bytes d \<and> is_ok r \<longrightarrow> parsed_newest d schema t c')"
proof -
  obtain c p where pf: "parser_for schema c0 = (c, p)" by fastforce
  have k: "cache_ok d S c" "map_of (pc_parsers c) schema = Some p"
    using parser_for_ok [OF c pf] by blast+
  let ?key = "(p, cd_digest d t)"
  have vok: "values_ok d S (pc_parsers c) (pc_entries c) (pc_values c)"
    and dist: "distinct (map snd (pc_parsers c))" using k(1) by (simp_all add: cache_ok_def parsers_ok_def)
  show ?thesis
  proof (cases "pc_values c p ?key")
    case None
    then have new: "?key \<notin> pr_key ` set (pc_entries c)" using values_okD(1) [OF vok, of p ?key] by simp
    show ?thesis
    proof (cases "cd_parse d schema t")
      case (Inl x)
      with None r pf k show ?thesis
        by (auto simp: cache_parse_def parse_immutable_def is_ok_def split: sum.splits)
    next
      case (Inr w)
      have "c' = remember (cd_maximum_bytes d) ?key t w c \<and> r = Inr w"
        using None r pf Inr by (simp add: cache_parse_def parse_immutable_def)
      with remember_ok [OF k Inr refl t new] k(2) Inr show ?thesis
        by (auto simp: parsed_newest_def)
    qed
  next
    case (Some w)
    from values_okD(2) [OF vok Some] obtain s u where u: "u \<in> S" "map_of (pc_parsers c) s = Some p"
      "cd_digest d t = cd_digest d u" "cd_parse d s u = Inr w" by auto
    have "s = schema"
      using map_of_SomeD [OF u(2)] map_of_SomeD [OF k(2)] dist by (auto simp: distinct_map dest: inj_onD [of snd _ "(s, p)" "(schema, p)"])
    moreover have "t = u" using u(1,3) t inj by (simp add: inj_on_def)
    ultimately have v: "cd_parse d schema t = Inr w" using u(4) by simp
    from Some have "?key \<in> pr_key ` set (pc_entries c)" using values_okD(1) [OF vok, of p ?key] by auto
    then have "List.find (\<lambda>e. pr_key e = ?key) (pc_entries c) \<noteq> None" by (simp only: find_key not_not)
    then obtain c'' where c'': "promote ?key c = Some c''" by (auto simp: promote_def)
    with Some r pf have "c' = c'' \<and> r = Inr w" by (simp add: cache_parse_def)
    with promote_ok [OF k(1) c''] k(2) v show ?thesis
      by (auto simp: parsed_newest_def)
  qed
qed

lemma parse_all_ok:
  assumes "cache_ok d S c" and "parse_all d rs c = (c', results)"
    and "snd ` set rs \<subseteq> S" and inj: "inj_on (cd_digest d) S"
  shows "cache_ok d S c' \<and> results = map (\<lambda>(schema, t). cd_parse d schema t) rs"
  using assms(1,2,3)
proof (induction rs arbitrary: c results)
  case (Cons r rs)
  obtain schema t where r: "r = (schema, t)" by (cases r)
  obtain c1 x where p: "cache_parse d schema t c = (c1, x)" by fastforce
  obtain xs where ps: "parse_all d rs c1 = (c', xs)" and x: "results = x # xs"
    using Cons.prems(2) p by (auto simp: r split: prod.splits)
  have "t \<in> S" "snd ` set rs \<subseteq> S" using Cons.prems(3) by (simp_all add: r)
  with cache_parse_ok [OF Cons.prems(1) p _ inj] Cons.IH [OF _ ps] show ?case by (simp add: r x)
qed simp

subsection \<open>Properties\<close>

text \<open>C31: with a digest that tells the texts parsed apart, every parse through the cache answers what its schema
  reads from the text, errors included, whatever was parsed or evicted before.\<close>

theorem cache_answers_parse:
  assumes "inj_on (cd_digest d) (snd ` set rs)"
    and "parse_all d rs new_parse_cache = (c, results)"
  shows "results = map (\<lambda>(schema, t). cd_parse d schema t) rs"
  using parse_all_ok [OF new_cache_ok assms(2) _ assms(1)] by blast

definition sample_cache :: "string cache_deps" where
  "sample_cache = \<lparr>cd_digest = take 2, cd_parse = (\<lambda>s t. if t = [] then Inl ''empty'' else Inr (replicate s (hd t))),
     cd_maximum_bytes = 3\<rparr>"

lemma cache_answers_parse_witness:
  "snd (parse_all sample_cache [(1, ''ab''), (2, ''ab''), (1, ''ab''), (1, [])] new_parse_cache)
     = [Inr ''a'', Inr ''aa'', Inr ''a'', Inl ''empty'']"
proof -
  have "inj_on (cd_digest sample_cache) (snd ` set [(1 :: nat, ''ab''), (2, ''ab''), (1, ''ab''), (1, [])])"
    by (simp add: sample_cache_def)
  from cache_answers_parse [OF this prod.collapse [symmetric]]
  have "snd (parse_all sample_cache [(1, ''ab''), (2, ''ab''), (1, ''ab''), (1, [])] new_parse_cache)
      = map (\<lambda>(schema, t). cd_parse sample_cache schema t) [(1, ''ab''), (2, ''ab''), (1, ''ab''), (1, [])]" .
  then show ?thesis by (simp add: sample_cache_def numeral_2_eq_2)
qed

text \<open>After any parses the cache counts exactly the bytes of its entries, holds no more than its
  budget and at most 2048 of them, keeps a value for exactly its entries; and a text within the budget
  that a next parse reads is then the newest entry, the last one to go.\<close>

theorem cache_bounded:
  assumes "inj_on (cd_digest d) (insert t (snd ` set rs))"
    and "parse_all d rs new_parse_cache = (c, results)"
    and "cache_parse d schema t c = (c', r)"
  shows "pc_bytes c = sum_list (map pr_bytes (pc_entries c)) \<and> pc_bytes c \<le> cd_maximum_bytes d
     \<and> length (pc_entries c) \<le> 2048 \<and> distinct (map pr_key (pc_entries c))
     \<and> (\<forall>p key. pc_values c p key \<noteq> None \<longleftrightarrow> p = fst key \<and> key \<in> pr_key ` set (pc_entries c))
     \<and> (byte_length t \<le> cd_maximum_bytes d \<and> is_ok r \<longrightarrow>
          (\<exists>p es b. map_of (pc_parsers c') schema = Some p
             \<and> pc_entries c' = es @ [\<lparr>pr_key = (p, cd_digest d t), pr_bytes = b\<rparr>]))"
proof -
  let ?S = "insert t (snd ` set rs)"
  have ok: "cache_ok d ?S c" using parse_all_ok [OF new_cache_ok assms(2) _ assms(1)] by blast
  then have "values_ok d ?S (pc_parsers c) (pc_entries c) (pc_values c)" by (simp add: cache_ok_def)
  note vals = values_okD(1) [OF this]
  have new: "byte_length t \<le> cd_maximum_bytes d \<and> is_ok r \<longrightarrow> parsed_newest d schema t c'"
    using cache_parse_ok [OF ok assms(3) _ assms(1)] by blast
  have last: "newest_key k es \<Longrightarrow> \<exists>es' b. es = es' @ [\<lparr>pr_key = k, pr_bytes = b\<rparr>]" for k es
    by (cases es rule: rev_cases; cases "last es") (auto simp: newest_key_def)
  have "byte_length t \<le> cd_maximum_bytes d \<and> is_ok r \<longrightarrow>
          (\<exists>p es b. map_of (pc_parsers c') schema = Some p
             \<and> pc_entries c' = es @ [\<lparr>pr_key = (p, cd_digest d t), pr_bytes = b\<rparr>])"
    using new last unfolding parsed_newest_def by meson
  with vals ok show ?thesis
    by (simp add: cache_ok_def entries_bytes_def MAX_CACHE_ENTRIES_def)
qed

lemma cache_bounded_witness:
  "pc_bytes (fst (parse_all sample_cache [(1, ''ab''), (2, ''cd''), (1, ''e'')] new_parse_cache)) \<le> cd_maximum_bytes sample_cache"
proof -
  have "inj_on (cd_digest sample_cache) (insert ''ab'' (snd ` set [(1 :: nat, ''ab''), (2, ''cd''), (1, ''e'')]))"
    by (simp add: sample_cache_def)
  from cache_bounded [OF this prod.collapse [symmetric] prod.collapse [symmetric]]
  show ?thesis by blast
qed

end
