(* ===== verification/LineDiff.thy ===== *)
theory LineDiff
  imports Prelude "HOL-Library.Word" "HOL-Library.Sublist"
begin

text \<open>
  The line diff of the corpus editor, \<open>line-diff-sequence.ts\<close> and \<open>line-diff.ts\<close>: the table of
  longest common subsequences as the flat array of 32-bit numbers the code fills from its end, and
  the walk over both texts that reads it.

  The walk is a loop over its state with the measure of what is left of both texts. The table's
  numbers stay far below $2^{32}$ because a pair of texts with more than four million line pairs is
  refused before the table is built.
\<close>

record line =
  ln_text :: string
  ln_no_newline :: bool

definition NEWLINE :: char where
  "NEWLINE = CHR 0x0A"

definition lines_of :: "string \<Rightarrow> line list" where
  "lines_of t =
     (if t = [] then []
      else let parts = split_on NEWLINE t;
               terminated = last parts = [];
               ls = (if terminated then butlast parts else parts)
           in map (\<lambda>(index, l). \<lparr>ln_text = l, ln_no_newline = (\<not> terminated \<and> index = length ls - 1)\<rparr>)
                (enumerate 0 ls))"

definition same_line :: "line \<Rightarrow> line \<Rightarrow> bool" where
  "same_line l r \<longleftrightarrow> ln_text l = ln_text r \<and> ln_no_newline l = ln_no_newline r"

lemma same_line_eq [simp]: "same_line l r \<longleftrightarrow> l = r"
  by (auto simp: same_line_def)

text \<open>\<open>xs[i]\<close>, undefined past the end.\<close>

definition item_at :: "'a list \<Rightarrow> nat \<Rightarrow> 'a option" where
  "item_at xs i = (if i < length xs then Some (xs ! i) else None)"

subsection \<open>The table\<close>

type_synonym cells = "32 word list"

definition cell_at :: "nat \<Rightarrow> cells \<Rightarrow> nat \<Rightarrow> nat \<Rightarrow> nat" where
  "cell_at width t r c = unat (at_or t (r * width + c) 0)"

definition cell_value :: "line list \<Rightarrow> line list \<Rightarrow> cells \<Rightarrow> nat \<Rightarrow> nat \<Rightarrow> nat" where
  "cell_value before after t r c =
     (let width = length after + 1
      in case (item_at before r, item_at after c) of
           (Some l, Some l') \<Rightarrow>
             if same_line l l' then cell_at width t (r + 1) (c + 1) + 1
             else max (cell_at width t (r + 1) c) (cell_at width t r (c + 1))
         | _ \<Rightarrow> max (cell_at width t (r + 1) c) (cell_at width t r (c + 1)))"

text \<open>The loops run down from the last index; the argument counts what is left. A store into the
  \<open>Uint32Array\<close> keeps the low 32 bits.\<close>

fun fill_columns :: "line list \<Rightarrow> line list \<Rightarrow> nat \<Rightarrow> nat \<Rightarrow> cells \<Rightarrow> cells" where
  "fill_columns before after r 0 t = t"
| "fill_columns before after r (Suc c) t =
     fill_columns before after r c
       (t[r * (length after + 1) + c := word_of_nat (cell_value before after t r c)])"

fun fill_rows :: "line list \<Rightarrow> line list \<Rightarrow> nat \<Rightarrow> cells \<Rightarrow> cells" where
  "fill_rows before after 0 t = t"
| "fill_rows before after (Suc r) t =
     fill_rows before after r (fill_columns before after r (length after) t)"

definition common_suffix_lengths :: "line list \<Rightarrow> line list \<Rightarrow> cells" where
  "common_suffix_lengths before after =
     fill_rows before after (length before) (replicate ((length before + 1) * (length after + 1)) 0)"

subsection \<open>The walk\<close>

datatype diff_kind = Same (same_before: nat) (same_after: nat) | Removed nat | Added nat

record diff_line =
  dl_kind :: diff_kind
  dl_text :: string
  dl_no_newline :: bool

definition MAX_COMPARED_PAIRS :: nat where
  "MAX_COMPARED_PAIRS = 4000000"

definition LINE_NUMBER_BASE :: nat where
  "LINE_NUMBER_BASE = 1"

record diff_walk =
  dw_row :: nat
  dw_column :: nat
  dw_lines :: "diff_line list"

definition with_newline_mark :: "line \<Rightarrow> diff_kind \<Rightarrow> diff_line" where
  "with_newline_mark l k = \<lparr>dl_kind = k, dl_text = ln_text l, dl_no_newline = ln_no_newline l\<rparr>"

definition unfinished :: "line list \<Rightarrow> line list \<Rightarrow> diff_walk \<Rightarrow> bool" where
  "unfinished before after w \<longleftrightarrow> dw_row w < length before \<or> dw_column w < length after"

definition keep_line :: "line \<Rightarrow> diff_walk \<Rightarrow> diff_walk" where
  "keep_line l w = w\<lparr>dw_lines := dw_lines w
       @ [with_newline_mark l (Same (dw_row w + LINE_NUMBER_BASE) (dw_column w + LINE_NUMBER_BASE))],
     dw_row := dw_row w + 1, dw_column := dw_column w + 1\<rparr>"

definition remove_line :: "line \<Rightarrow> diff_walk \<Rightarrow> diff_walk" where
  "remove_line l w = w\<lparr>dw_lines := dw_lines w @ [with_newline_mark l (Removed (dw_row w + LINE_NUMBER_BASE))],
     dw_row := dw_row w + 1\<rparr>"

definition add_line :: "line \<Rightarrow> diff_walk \<Rightarrow> diff_walk" where
  "add_line l w = w\<lparr>dw_lines := dw_lines w @ [with_newline_mark l (Added (dw_column w + LINE_NUMBER_BASE))],
     dw_column := dw_column w + 1\<rparr>"

definition walk_advance :: "line list \<Rightarrow> line list \<Rightarrow> cells \<Rightarrow> diff_walk \<Rightarrow> diff_walk" where
  "walk_advance before after t w =
     (let width = length after + 1; removed = item_at before (dw_row w); added = item_at after (dw_column w)
      in case removed of
           Some r \<Rightarrow>
             (case added of
                Some a \<Rightarrow>
                  if same_line r a then keep_line r w
                  else if cell_at width t (dw_row w + 1) (dw_column w) \<ge> cell_at width t (dw_row w) (dw_column w + 1)
                       then remove_line r w
                       else add_line a w
              | None \<Rightarrow> remove_line r w)
         | None \<Rightarrow> (case added of Some a \<Rightarrow> add_line a w | None \<Rightarrow> w))"

definition walk_left :: "line list \<Rightarrow> line list \<Rightarrow> diff_walk \<Rightarrow> nat" where
  "walk_left before after w = (length before - dw_row w) + (length after - dw_column w)"

lemma walk_advance_decreases:
  "unfinished before after w \<Longrightarrow> walk_left before after (walk_advance before after t w) < walk_left before after w"
  by (auto simp: unfinished_def walk_left_def walk_advance_def item_at_def Let_def keep_line_def remove_line_def
      add_line_def)

function walk_all :: "line list \<Rightarrow> line list \<Rightarrow> cells \<Rightarrow> diff_walk \<Rightarrow> diff_walk" where
  "walk_all before after t w =
     (if unfinished before after w then walk_all before after t (walk_advance before after t w) else w)"
  by pat_completeness auto
termination
  by (relation "measure (\<lambda>(before, after, t, w). walk_left before after w)")
    (auto intro: walk_advance_decreases)

declare walk_all.simps [simp del]

definition line_diff :: "string \<Rightarrow> string \<Rightarrow> diff_line list option" where
  "line_diff before_text after_text =
     (let before = lines_of before_text; after = lines_of after_text
      in if length before * length after > MAX_COMPARED_PAIRS then None
         else Some (dw_lines (walk_all before after (common_suffix_lengths before after)
                (\<lparr>dw_row = 0, dw_column = 0, dw_lines = []\<rparr>))))"

subsection \<open>Lines and texts\<close>

definition text_of :: "line list \<Rightarrow> string" where
  "text_of ls = concat (map (\<lambda>l. ln_text l @ (if ln_no_newline l then [] else [NEWLINE])) ls)"

definition terminated_line :: "string \<Rightarrow> line" where
  "terminated_line l = \<lparr>ln_text = l, ln_no_newline = False\<rparr>"

lemma text_of_terminated: "text_of (map terminated_line ls) = concat (map (\<lambda>l. l @ [NEWLINE]) ls)"
  by (simp add: text_of_def terminated_line_def o_def)

lemma concat_split_on: "concat (map (\<lambda>l. l @ [c]) (split_on c t)) = t @ [c]"
  by (induction t) (auto split: list.splits)

lemma lines_of_cases:
  assumes "t \<noteq> []"
  shows "lines_of t =
    (let parts = split_on NEWLINE t
     in map terminated_line (butlast parts)
        @ (if last parts = [] then [] else [\<lparr>ln_text = last parts, ln_no_newline = True\<rparr>]))"
proof -
  obtain ps p where parts: "split_on NEWLINE t = ps @ [p]"
    by (metis append_butlast_last_id split_on_not_Nil)
  have plain: "map (\<lambda>(i, l). \<lparr>ln_text = l, ln_no_newline = b \<and> i = n\<rparr>) (enumerate m ls) = map terminated_line ls"
    if "\<not> b \<or> n \<ge> m + length ls" for b n m ls
    using that by (induction ls arbitrary: m) (auto simp: terminated_line_def)
  show ?thesis
    using assms plain [where m = 0 and ls = ps and b = True and n = "length ps"]
      plain [where m = 0 and ls = ps and b = False]
    by (simp add: lines_of_def Let_def parts enumerate_append_eq)
qed

lemma text_of_lines_of: "text_of (lines_of t) = t"
proof (cases "t = []")
  case True
  then show ?thesis by (simp add: lines_of_def text_of_def)
next
  case False
  obtain ps p where parts: "split_on NEWLINE t = ps @ [p]"
    by (metis append_butlast_last_id split_on_not_Nil)
  have "concat (map (\<lambda>l. l @ [NEWLINE]) ps) @ p = t"
    using concat_split_on [of NEWLINE t] by (simp add: parts)
  moreover have "text_of (ls @ ls') = text_of ls @ text_of ls'" for ls ls' by (simp add: text_of_def)
  moreover have "text_of [\<lparr>ln_text = p, ln_no_newline = True\<rparr>] = p" by (simp add: text_of_def)
  ultimately show ?thesis
    using False by (cases "p = []") (auto simp: lines_of_cases parts text_of_terminated text_of_def [of "[]"])
qed

subsection \<open>The longest common subsequence\<close>

fun lcs :: "'a list \<Rightarrow> 'a list \<Rightarrow> nat" where
  "lcs [] ys = 0"
| "lcs (x # xs) [] = 0"
| "lcs (x # xs) (y # ys) = (if x = y then Suc (lcs xs ys) else max (lcs xs (y # ys)) (lcs (x # xs) ys))"

lemma lcs_Nil [simp]: "lcs xs [] = 0"
  by (cases xs) auto

lemma lcs_le: "lcs xs ys \<le> length xs" "lcs xs ys \<le> length ys"
  by (induction xs ys rule: lcs.induct) auto

lemma lcs_bounds_subseq: "subseq zs xs \<Longrightarrow> subseq zs ys \<Longrightarrow> length zs \<le> lcs xs ys"
proof (induction xs ys arbitrary: zs rule: lcs.induct)
  case (3 x xs y ys)
  show ?case
  proof (cases zs)
    case (Cons z zs')
    show ?thesis
    proof (cases "x = y")
      case True
      have "subseq zs' xs" "subseq zs' ys"
        using "3.prems" Cons by (auto simp: subseq_Cons2_iff split: if_splits dest: subseq_Cons')
      with "3.IH"(1) True Cons show ?thesis by simp
    next
      case False
      then have "subseq zs xs \<or> subseq zs ys"
        using "3.prems" Cons by (auto simp: subseq_Cons2_iff split: if_splits)
      then show ?thesis
        using "3.IH"(2) [OF False, of zs] "3.IH"(3) [OF False, of zs] "3.prems" False by auto
    qed
  qed simp
qed auto

subsection \<open>The table holds it\<close>

lemma word_of_small: "n < 2 ^ 32 \<Longrightarrow> unat (word_of_nat n :: 32 word) = n"
  by (simp add: unat_of_nat)

lemma flat_index_inj:
  assumes "c < w" and "c' < w" and "r * w + c = r' * w + (c' :: nat)"
  shows "r = r' \<and> c = c'"
proof -
  have "(r * w + c) div w = r" "(r' * w + c') div w = r'" using assms(1,2) by auto
  with assms show ?thesis by simp
qed

text \<open>The cells filled so far: the rows below, this row from column \<open>c\<close>, and the last column.\<close>

definition cells_ok :: "line list \<Rightarrow> line list \<Rightarrow> nat \<Rightarrow> nat \<Rightarrow> cells \<Rightarrow> bool" where
  "cells_ok before after r c t \<longleftrightarrow>
     length t = (length before + 1) * (length after + 1)
     \<and> (\<forall>r' c'. r' \<le> length before \<and> c' \<le> length after \<and> (r' > r \<or> r' = r \<and> c' \<ge> c \<or> c' = length after) \<longrightarrow>
          cell_at (length after + 1) t r' c' = lcs (drop r' before) (drop c' after))"

lemma cells_okD:
  assumes "cells_ok before after r c t" and "r' \<le> length before" and "c' \<le> length after"
    and "r' > r \<or> r' = r \<and> c' \<ge> c \<or> c' = length after"
  shows "cell_at (length after + 1) t r' c' = lcs (drop r' before) (drop c' after)"
  using assms unfolding cells_ok_def by blast

lemma flat_index_bound:
  assumes "r \<le> n" and "c \<le> (m :: nat)"
  shows "r * (m + 1) + c < (n + 1) * (m + 1)"
proof -
  have "r * (m + 1) + c < r * (m + 1) + 1 * (m + 1)"
    by (intro add_strict_left_mono) (use assms(2) in simp)
  also have "\<dots> = (r + 1) * (m + 1)" by (rule add_mult_distrib [symmetric])
  also have "\<dots> \<le> (n + 1) * (m + 1)" using assms by (intro mult_right_mono) auto
  finally show ?thesis .
qed

lemma cell_at_update:
  assumes "length t = (n + 1) * (m + 1)" and "r \<le> n" "c \<le> m" "r' \<le> n" "c' \<le> m"
  shows "cell_at (m + 1) (t[r * (m + 1) + c := v]) r' c' =
     (if r' = r \<and> c' = c then unat v else cell_at (m + 1) t r' c')"
proof (cases "r' = r \<and> c' = c")
  case True
  then show ?thesis using flat_index_bound [of r n c m] assms by (simp add: cell_at_def at_or_def)
next
  case False
  then have "r * (m + 1) + c \<noteq> r' * (m + 1) + c'" using flat_index_inj [of c "m + 1" c' r r'] assms by auto
  with False show ?thesis unfolding cell_at_def at_or_def by auto
qed

lemma cell_value_exact:
  assumes t: "cells_ok before after r (Suc c) t" and "r < length before" and "c < length after"
  shows "cell_value before after t r c = lcs (drop r before) (drop c after)"
proof -
  have d: "drop r before = before ! r # drop (Suc r) before" "drop c after = after ! c # drop (Suc c) after"
    using assms by (simp_all add: Cons_nth_drop_Suc)
  have at: "cell_at (length after + 1) t (r + 1) (c + 1) = lcs (drop (Suc r) before) (drop (Suc c) after)"
    "cell_at (length after + 1) t (r + 1) c = lcs (drop (Suc r) before) (drop c after)"
    "cell_at (length after + 1) t r (c + 1) = lcs (drop r before) (drop (Suc c) after)"
    using assms by (simp_all add: cells_okD [OF t, simplified])
  show ?thesis
    using assms(2,3) at unfolding cell_value_def Let_def item_at_def by (simp add: d)
qed

lemma fill_columns_ok:
  assumes "cells_ok before after r c t" and "r < length before" and "c \<le> length after"
    and small: "min (length before) (length after) < 2 ^ 32"
  shows "cells_ok before after r 0 (fill_columns before after r c t)"
  using assms(1,3)
proof (induction c arbitrary: t)
  case (Suc c)
  let ?v = "cell_value before after t r c"
  let ?t = "t[r * (length after + 1) + c := word_of_nat ?v]"
  have v: "?v = lcs (drop r before) (drop c after)"
    using Suc.prems assms(2) by (intro cell_value_exact) auto
  have "?v < 2 ^ 32" 
    using lcs_le [of "drop r before" "drop c after"] small unfolding v by (simp add: min_def split: if_splits)
  then have "unat (word_of_nat ?v :: 32 word) = lcs (drop r before) (drop c after)"
    using word_of_small v by simp
  moreover have len: "length t = (length before + 1) * (length after + 1)"
    using Suc.prems(1) by (simp add: cells_ok_def)
  ultimately have "cells_ok before after r c ?t"
    unfolding cells_ok_def
  proof (intro conjI allI impI, goal_cases)
    case 1
    then show ?case by simp
  next
    case (2 r' c')
    have upd: "cell_at (length after + 1) ?t r' c' =
        (if r' = r \<and> c' = c then unat (word_of_nat ?v :: 32 word) else cell_at (length after + 1) t r' c')"
      using 2 Suc.prems(2) assms(2) by (intro cell_at_update [OF len]) auto
    show ?case
    proof (cases "r' = r \<and> c' = c")
      case True
      with 2 show ?thesis unfolding upd by simp
    next
      case False
      with 2 have "r' > r \<or> r' = r \<and> c' \<ge> Suc c \<or> c' = length after" by auto
      with 2 False show ?thesis unfolding upd by (simp add: cells_okD [OF Suc.prems(1), simplified])
    qed
  qed
  with Suc show ?case by simp
qed simp

lemma cells_ok_next_row:
  assumes "cells_ok before after (Suc r) 0 t" and "r < length before"
  shows "cells_ok before after r (length after) t"
  unfolding cells_ok_def
proof (intro conjI allI impI)
  show "length t = (length before + 1) * (length after + 1)" using assms by (simp add: cells_ok_def)
next
  fix r' c' assume "r' \<le> length before \<and> c' \<le> length after \<and> (r' > r \<or> r' = r \<and> c' \<ge> length after \<or> c' = length after)"
  then show "cell_at (length after + 1) t r' c' = lcs (drop r' before) (drop c' after)"
    by (intro cells_okD [OF assms(1)]) auto
qed

lemma fill_rows_ok:
  assumes "cells_ok before after r 0 t" and "r \<le> length before" and small: "min (length before) (length after) < 2 ^ 32"
  shows "cells_ok before after 0 0 (fill_rows before after r t)"
  using assms(1,2)
proof (induction r arbitrary: t)
  case (Suc r)
  have "cells_ok before after r 0 (fill_columns before after r (length after) t)"
    using Suc.prems small by (intro fill_columns_ok cells_ok_next_row) auto
  with Suc show ?case by simp
qed simp

lemma at_or_replicate: "at_or (replicate n x) i x = x"
  by (simp add: at_or_def)

lemma common_suffix_lengths_exact:
  assumes "min (length before) (length after) < 2 ^ 32" and "r \<le> length before" and "c \<le> length after"
  shows "cell_at (length after + 1) (common_suffix_lengths before after) r c = lcs (drop r before) (drop c after)"
proof -
  have "cells_ok before after (length before) 0 (replicate ((length before + 1) * (length after + 1)) 0)"
    by (auto simp: cells_ok_def cell_at_def at_or_replicate simp del: replicate.simps mult_Suc_right)
  then have "cells_ok before after 0 0 (common_suffix_lengths before after)"
    unfolding common_suffix_lengths_def using assms(1) by (intro fill_rows_ok) auto
  then show ?thesis by (rule cells_okD) (use assms in auto)
qed

subsection \<open>The walk takes a longest one\<close>

fun before_number :: "diff_line \<Rightarrow> nat option" where
  "before_number d = (case dl_kind d of Same b _ \<Rightarrow> Some b | Removed b \<Rightarrow> Some b | Added _ \<Rightarrow> None)"

fun after_number :: "diff_line \<Rightarrow> nat option" where
  "after_number d = (case dl_kind d of Same _ a \<Rightarrow> Some a | Removed _ \<Rightarrow> None | Added a \<Rightarrow> Some a)"

definition line_of :: "diff_line \<Rightarrow> line" where
  "line_of d = \<lparr>ln_text = dl_text d, ln_no_newline = dl_no_newline d\<rparr>"

definition before_side :: "diff_line list \<Rightarrow> diff_line list" where
  "before_side ds = filter (\<lambda>d. before_number d \<noteq> None) ds"

definition after_side :: "diff_line list \<Rightarrow> diff_line list" where
  "after_side ds = filter (\<lambda>d. after_number d \<noteq> None) ds"

definition kept_lines :: "diff_line list \<Rightarrow> diff_line list" where
  "kept_lines ds = filter (\<lambda>d. before_number d \<noteq> None \<and> after_number d \<noteq> None) ds"

lemmas diff_sides = before_side_def after_side_def kept_lines_def with_newline_mark_def line_of_def
  LINE_NUMBER_BASE_def

text \<open>What the walk writes from a row and a column on.\<close>

definition diff_from :: "line list \<Rightarrow> line list \<Rightarrow> nat \<Rightarrow> nat \<Rightarrow> diff_line list \<Rightarrow> bool" where
  "diff_from before after r c ds \<longleftrightarrow>
     map line_of (before_side ds) = drop r before
     \<and> map before_number (before_side ds) = map Some [Suc r..<Suc (length before)]
     \<and> map line_of (after_side ds) = drop c after
     \<and> map after_number (after_side ds) = map Some [Suc c..<Suc (length after)]
     \<and> length (kept_lines ds) = lcs (drop r before) (drop c after)"

lemma number_rest: "r < n \<Longrightarrow> [Suc r..<Suc n] = Suc r # [Suc (Suc r)..<Suc n]"
  by (simp add: upt_conv_Cons)

lemma diff_from_keep:
  assumes "diff_from before after (Suc r) (Suc c) ds" and "r < length before" and "c < length after"
    and "before ! r = after ! c"
  shows "diff_from before after r c (with_newline_mark (before ! r) (Same (Suc r) (Suc c)) # ds)"
  using assms number_rest [OF assms(2)] number_rest [OF assms(3)]
    Cons_nth_drop_Suc [OF assms(2), symmetric] Cons_nth_drop_Suc [OF assms(3), symmetric]
  by (simp add: diff_from_def diff_sides)

lemma diff_from_remove:
  assumes "diff_from before after (Suc r) c ds" and "r < length before"
    and "lcs (drop r before) (drop c after) = lcs (drop (Suc r) before) (drop c after)"
  shows "diff_from before after r c (with_newline_mark (before ! r) (Removed (Suc r)) # ds)"
  using assms number_rest [OF assms(2)] Cons_nth_drop_Suc [OF assms(2), symmetric]
  by (simp add: diff_from_def diff_sides)

lemma diff_from_add:
  assumes "diff_from before after r (Suc c) ds" and "c < length after"
    and "lcs (drop r before) (drop c after) = lcs (drop r before) (drop (Suc c) after)"
  shows "diff_from before after r c (with_newline_mark (after ! c) (Added (Suc c)) # ds)"
  using assms number_rest [OF assms(2)] Cons_nth_drop_Suc [OF assms(2), symmetric]
  by (simp add: diff_from_def diff_sides)

lemma lcs_drop:
  assumes "r < length before" and "c < length after" and "before ! r \<noteq> after ! c"
  shows "lcs (drop r before) (drop c after)
     = max (lcs (drop (Suc r) before) (drop c after)) (lcs (drop r before) (drop (Suc c) after))"
  using assms by (simp add: Cons_nth_drop_Suc [OF assms(1), symmetric] Cons_nth_drop_Suc [OF assms(2), symmetric])

lemma walk_all_from:
  assumes t: "\<And>r c. r \<le> length before \<Longrightarrow> c \<le> length after \<Longrightarrow>
      cell_at (length after + 1) t r c = lcs (drop r before) (drop c after)"
    and "dw_row w \<le> length before" and "dw_column w \<le> length after"
  shows "\<exists>ds. dw_lines (walk_all before after t w) = dw_lines w @ ds
     \<and> diff_from before after (dw_row w) (dw_column w) ds"
  using assms(2,3)
proof (induction "walk_left before after w" arbitrary: w rule: less_induct)
  case less
  let ?r = "dw_row w" and ?c = "dw_column w" and ?w = "walk_advance before after t w"
  show ?case
  proof (cases "unfinished before after w")
    case False
    with less.prems have "?r = length before" "?c = length after" by (auto simp: unfinished_def)
    then have "diff_from before after ?r ?c []" by (simp add: diff_from_def diff_sides)
    moreover have "walk_all before after t w = w" using False by (simp add: walk_all.simps)
    ultimately show ?thesis by auto
  next
    case True
    then have step: "walk_all before after t w = walk_all before after t ?w" by (simp add: walk_all.simps)
    have IH: "\<exists>ds. dw_lines (walk_all before after t ?w) = dw_lines ?w @ ds
        \<and> diff_from before after (dw_row ?w) (dw_column ?w) ds"
      if "dw_row ?w \<le> length before" "dw_column ?w \<le> length after"
      using less.hyps [OF walk_advance_decreases [OF True] that] .
    have finish: ?thesis
      if w: "?w = w\<lparr>dw_lines := dw_lines w @ [d], dw_row := r', dw_column := c'\<rparr>"
        and b: "r' \<le> length before" "c' \<le> length after"
        and d: "\<And>ds. diff_from before after r' c' ds \<Longrightarrow> diff_from before after ?r ?c (d # ds)" for d r' c'
      using IH d b unfolding step by (force simp: w)
    have rm: ?thesis if "?r < length before" "?w = remove_line (before ! ?r) w"
      "lcs (drop ?r before) (drop ?c after) = lcs (drop (Suc ?r) before) (drop ?c after)"
      using that less.prems
      by (intro finish [where d = "with_newline_mark (before ! ?r) (Removed (Suc ?r))" and r' = "Suc ?r" and c' = ?c] diff_from_remove)
        (auto simp: remove_line_def LINE_NUMBER_BASE_def)
    have ad: ?thesis if "?c < length after" "?w = add_line (after ! ?c) w"
      "lcs (drop ?r before) (drop ?c after) = lcs (drop ?r before) (drop (Suc ?c) after)"
      using that less.prems
      by (intro finish [where d = "with_newline_mark (after ! ?c) (Added (Suc ?c))" and r' = ?r and c' = "Suc ?c"] diff_from_add)
        (auto simp: add_line_def LINE_NUMBER_BASE_def)
    consider (removed) "?r < length before" "\<not> ?c < length after" | (added) "\<not> ?r < length before" "?c < length after"
      | (both) "?r < length before" "?c < length after" using True by (auto simp: unfinished_def)
    then show ?thesis
    proof cases
      case removed
      then show ?thesis by (intro rm) (auto simp: walk_advance_def item_at_def)
    next
      case added
      then show ?thesis by (intro ad) (auto simp: walk_advance_def item_at_def)
    next
      case both
      have l: "cell_at (length after + 1) t (?r + 1) ?c = lcs (drop (Suc ?r) before) (drop ?c after)"
        "cell_at (length after + 1) t ?r (?c + 1) = lcs (drop ?r before) (drop (Suc ?c) after)"
        using both t [of "?r + 1" ?c] t [of ?r "?c + 1"] by auto
      have adv: "?w = (if before ! ?r = after ! ?c then keep_line (before ! ?r) w
          else if lcs (drop (Suc ?r) before) (drop ?c after) \<ge> lcs (drop ?r before) (drop (Suc ?c) after)
               then remove_line (before ! ?r) w else add_line (after ! ?c) w)"
        using both unfolding walk_advance_def Let_def item_at_def l by simp
      show ?thesis
      proof (cases "before ! ?r = after ! ?c")
        case True
        with both adv show ?thesis
          by (intro finish [where d = "with_newline_mark (before ! ?r) (Same (Suc ?r) (Suc ?c))" and r' = "Suc ?r" and c' = "Suc ?c"] diff_from_keep)
            (auto simp: keep_line_def LINE_NUMBER_BASE_def)
      next
        case False
        note m = lcs_drop [OF both False]
        show ?thesis
        proof (cases "lcs (drop (Suc ?r) before) (drop ?c after) \<ge> lcs (drop ?r before) (drop (Suc ?c) after)")
          case True
          with False adv both m show ?thesis by (intro rm) auto
        next
          case not_ge: False
          with False adv both m show ?thesis by (intro ad) auto
        qed
      qed
    qed
  qed
qed

lemma length_lines_small:
  assumes "\<not> length before * length after > MAX_COMPARED_PAIRS"
  shows "min (length before) (length after) < 2 ^ 32"
proof (cases "after = []")
  case False
  then have "length before \<le> length before * length after" by (cases after) auto
  also have "\<dots> \<le> 4000000" using assms by (simp add: MAX_COMPARED_PAIRS_def)
  finally show ?thesis by simp
qed simp

lemma line_diff_from:
  assumes "line_diff b a = Some ds"
  shows "diff_from (lines_of b) (lines_of a) 0 0 ds"
proof -
  let ?b = "lines_of b" and ?a = "lines_of a"
  have small: "min (length ?b) (length ?a) < 2 ^ 32"
    using assms by (intro length_lines_small) (auto simp: line_diff_def Let_def split: if_splits)
  from walk_all_from [OF common_suffix_lengths_exact [OF small], of "\<lparr>dw_row = 0, dw_column = 0, dw_lines = []\<rparr>"] assms
  show ?thesis by (auto simp: line_diff_def Let_def split: if_splits)
qed

subsection \<open>Properties\<close>

text \<open>A diff is refused exactly past four million line pairs, and any other holds both texts: the
  lines kept or removed are the lines of the first text and give it back character for character,
  those kept or added give back the second, each numbered in order from 1.\<close>

theorem line_diff_restores:
  "case line_diff b a of
     None \<Rightarrow> length (lines_of b) * length (lines_of a) > 4000000
   | Some ds \<Rightarrow> length (lines_of b) * length (lines_of a) \<le> 4000000
       \<and> text_of (map line_of (before_side ds)) = b
       \<and> text_of (map line_of (after_side ds)) = a
       \<and> map before_number (before_side ds) = map Some [1..<length (lines_of b) + 1]
       \<and> map after_number (after_side ds) = map Some [1..<length (lines_of a) + 1]"
proof (cases "line_diff b a")
  case None
  then show ?thesis by (auto simp: line_diff_def Let_def MAX_COMPARED_PAIRS_def split: if_splits)
next
  case (Some ds)
  then have "length (lines_of b) * length (lines_of a) \<le> 4000000"
    by (auto simp: line_diff_def Let_def MAX_COMPARED_PAIRS_def split: if_splits)
  with line_diff_from [OF Some] Some show ?thesis
    by (simp add: diff_from_def text_of_lines_of)
qed

text \<open>C4: the lines a diff keeps are a longest common subsequence of the lines of both texts, so no
  diff of them shows fewer changed lines.\<close>

theorem line_diff_longest:
  assumes "line_diff b a = Some ds"
  shows "subseq (map line_of (kept_lines ds)) (lines_of b) \<and> subseq (map line_of (kept_lines ds)) (lines_of a)
     \<and> (\<forall>ls. subseq ls (lines_of b) \<and> subseq ls (lines_of a) \<longrightarrow> length ls \<le> length (kept_lines ds))"
proof -
  note d = line_diff_from [OF assms]
  have "kept_lines ds = filter (\<lambda>d. after_number d \<noteq> None) (before_side ds)"
    "kept_lines ds = filter (\<lambda>d. before_number d \<noteq> None) (after_side ds)"
    by (simp_all add: diff_sides conj_commute)
  then have "subseq (map line_of (kept_lines ds)) (map line_of (before_side ds))"
    "subseq (map line_of (kept_lines ds)) (map line_of (after_side ds))"
    by (metis subseq_filter_left subseq_map)+
  with d show ?thesis
    by (auto simp: diff_from_def intro: lcs_bounds_subseq)
qed

definition sample_lines :: "char list \<Rightarrow> string" where
  "sample_lines cs = concat (map (\<lambda>c. [c, NEWLINE]) cs)"

lemma line_diff_longest_witness:
  "\<exists>ds. line_diff (sample_lines ''abc'') (sample_lines ''axc'') = Some ds \<and> length (kept_lines ds) = 2
     \<and> subseq (map line_of (kept_lines ds)) (lines_of (sample_lines ''abc''))"
proof -
  have l: "lines_of (sample_lines ''abc'') = map (\<lambda>c. \<lparr>ln_text = [c], ln_no_newline = False\<rparr>) ''abc''"
    "lines_of (sample_lines ''axc'') = map (\<lambda>c. \<lparr>ln_text = [c], ln_no_newline = False\<rparr>) ''axc''"
    by (simp_all add: lines_of_def sample_lines_def NEWLINE_def Let_def)
  obtain ds where ds: "line_diff (sample_lines ''abc'') (sample_lines ''axc'') = Some ds"
    unfolding line_diff_def Let_def l by (simp add: MAX_COMPARED_PAIRS_def)
  have "length (kept_lines ds) = 2"
    using line_diff_from [OF ds] by (simp add: diff_from_def l)
  with line_diff_longest [OF ds] ds show ?thesis by blast
qed

end
