(* ===== verification/Decimal.thy ===== *)
theory Decimal
  imports Prelude
begin

text \<open>
  Decimal digits: the digits of a natural number and the number a text of digits writes out, both exact. What JavaScript
  makes of them, where a number is a double, is \<open>JsNumber\<close>.
\<close>

definition digit_char :: "nat \<Rightarrow> char" where
  "digit_char d = char_of (48 + d)"

definition digit_value :: "char \<Rightarrow> nat" where
  "digit_value c = of_char c - 48"

definition is_digit :: "char \<Rightarrow> bool" where
  "is_digit c \<longleftrightarrow> 48 \<le> (of_char c :: nat) \<and> (of_char c :: nat) \<le> 57"

fun show_number :: "nat \<Rightarrow> string" where
  "show_number n = (if n < 10 then [digit_char n] else show_number (n div 10) @ [digit_char (n mod 10)])"

declare show_number.simps [simp del]

definition read_number :: "string \<Rightarrow> nat" where
  "read_number s = foldl (\<lambda>a c. 10 * a + digit_value c) 0 s"

text \<open>The pattern \<open>[1-9]\d*\<close>.\<close>

fun is_number_name :: "string \<Rightarrow> bool" where
  "is_number_name [] = False"
| "is_number_name (c # cs) \<longleftrightarrow> is_digit c \<and> c \<noteq> CHR ''0'' \<and> list_all is_digit cs"

lemma digit_char_value: "d < 10 \<Longrightarrow> digit_value (digit_char d) = d \<and> is_digit (digit_char d)"
  by (simp add: digit_value_def digit_char_def is_digit_def)

lemma digit_value_char: "is_digit c \<Longrightarrow> digit_char (digit_value c) = c \<and> digit_value c < 10"
  by (auto simp: digit_value_def digit_char_def is_digit_def)

lemma digit_zero: "is_digit c \<Longrightarrow> digit_value c = 0 \<longleftrightarrow> c = CHR ''0''"
proof -
  assume d: "is_digit c"
  have "digit_char 0 = CHR ''0''" by (simp add: digit_char_def char_of_def bit_0)
  moreover have "digit_value CHR ''0'' = 0" by (simp add: digit_value_def)
  ultimately show ?thesis using digit_value_char [OF d] by metis
qed

lemma read_number_append: "read_number (s @ [c]) = 10 * read_number s + digit_value c"
  by (simp add: read_number_def)

lemma show_number_digits: "list_all is_digit (show_number n) \<and> show_number n \<noteq> [] \<and> read_number (show_number n) = n"
proof (induction n rule: show_number.induct)
  case (1 n)
  show ?case
  proof (cases "n < 10")
    case True
    then show ?thesis using digit_char_value [OF True] by (simp add: show_number.simps [of n] read_number_def)
  next
    case False
    then show ?thesis
      using 1 digit_char_value [of "n mod 10"] by (simp add: show_number.simps [of n] read_number_append)
  qed
qed

lemma read_show [simp]: "read_number (show_number n) = n"
  using show_number_digits by blast

lemma show_number_inj [simp]: "show_number m = show_number n \<longleftrightarrow> m = n"
  by (metis read_show)

lemma show_number_name: "is_number_name (show_number n) \<longleftrightarrow> n \<noteq> 0"
proof (induction n rule: show_number.induct)
  case (1 n)
  show ?case
  proof (cases "n < 10")
    case True
    then show ?thesis
      using digit_char_value [OF True] digit_zero [of "digit_char n"] by (simp add: show_number.simps [of n])
  next
    case False
    have app: "is_number_name (s @ [c]) \<longleftrightarrow> is_number_name s" if "is_digit c" "s \<noteq> []" for s c
      using that by (cases s) auto
    have "is_number_name (show_number n) \<longleftrightarrow> is_number_name (show_number (n div 10))"
      using False digit_char_value [of "n mod 10"] show_number_digits [of "n div 10"]
      by (simp add: show_number.simps [of n] app)
    also have "\<dots> \<longleftrightarrow> n \<noteq> 0" using 1 False by auto
    finally show ?thesis .
  qed
qed

lemma read_number_pos: "is_number_name s \<Longrightarrow> 0 < read_number s \<and> show_number (read_number s) = s"
proof (induction s rule: rev_induct)
  case (snoc c s)
  show ?case
  proof (cases "s = []")
    case True
    with snoc.prems digit_value_char [of c] digit_zero [of c] show ?thesis
      by (auto simp: read_number_def show_number.simps)
  next
    case False
    with snoc.prems have "is_number_name s" and c: "is_digit c" by (cases s; simp)+
    with snoc.IH have s: "0 < read_number s" "show_number (read_number s) = s" by auto
    let ?n = "10 * read_number s + digit_value c"
    have "?n div 10 = read_number s" "?n mod 10 = digit_value c" "\<not> ?n < 10"
      using digit_value_char [OF c] s(1) by auto
    then show ?thesis
      using s digit_value_char [OF c] by (simp add: read_number_append show_number.simps [of ?n])
  qed
qed simp

lemma show_number_char: "c \<in> set (show_number n) \<Longrightarrow> is_digit c"
  using show_number_digits [of n] by (simp add: list_all_iff)

text \<open>A text of digits with no leading zero, or just the zero: \<open>0|[1-9]\d*\<close>.\<close>

definition is_count_name :: "string \<Rightarrow> bool" where
  "is_count_name s \<longleftrightarrow> s = ''0'' \<or> is_number_name s"

lemma show_number_zero: "show_number 0 = ''0''"
  by (simp add: show_number.simps digit_char_def char_of_def bit_0)

lemma is_count_name_iff: "is_count_name s \<longleftrightarrow> (\<exists>n. s = show_number n)"
proof
  assume "is_count_name s"
  then show "\<exists>n. s = show_number n"
    unfolding is_count_name_def using read_number_pos [of s] show_number_zero by metis
next
  assume "\<exists>n. s = show_number n"
  then obtain n where "s = show_number n" ..
  then show "is_count_name s"
    by (cases "n = 0") (simp_all add: is_count_name_def show_number_zero show_number_name)
qed

lemma is_number_name_iff: "is_number_name s \<longleftrightarrow> (\<exists>n. n \<noteq> 0 \<and> s = show_number n)"
  using read_number_pos [of s] by (metis neq0_conv show_number_name)

end
