(* ===== verification/JsNumber.thy ===== *)
theory JsNumber
  imports Decimal
begin

text \<open>
  The whole numbers a JavaScript number can hold, as the short ids count and name files with them. A number is the
  natural number a double stands for: those below $2^{53}$ are all there, above it only the multiples of a power of two that
  leave 53 digits, and $2^{1024}$ stands for \<open>Infinity\<close>. \<open>Number\<close> of a text of digits and every sum round
  to the nearest of them, a tie to the even one; \<open>String\<close> prints the fewest decimal digits that round back, padded
  with zeros below $10^{21}$ and with an exponent from there on.
\<close>

subsection \<open>Rounding\<close>

fun bit_length :: "nat \<Rightarrow> nat" where
  "bit_length n = (if n = 0 then 0 else Suc (bit_length (n div 2)))"

declare bit_length.simps [simp del]

definition INFINITE_DOUBLE :: nat where
  "INFINITE_DOUBLE = 2 ^ 1024"

definition EXACT_LIMIT :: nat where
  "EXACT_LIMIT = 2 ^ 53"

definition to_double :: "nat \<Rightarrow> nat" where
  "to_double n =
     (if n < EXACT_LIMIT then n
      else let k = bit_length n - 53;
               q = n div 2 ^ k;
               r = n mod 2 ^ k;
               up = (2 * r > 2 ^ k \<or> 2 * r = 2 ^ k \<and> odd q)
           in min ((if up then q + 1 else q) * 2 ^ k) INFINITE_DOUBLE)"

definition is_double :: "nat \<Rightarrow> bool" where
  "is_double n \<longleftrightarrow> to_double n = n"

lemma bit_length_bounds: "0 < n \<Longrightarrow> 2 ^ (bit_length n - 1) \<le> n \<and> n < 2 ^ bit_length n \<and> 0 < bit_length n"
proof (induction n rule: bit_length.induct)
  case (1 n)
  show ?case
  proof (cases "n div 2 = 0")
    case True
    with "1.prems" have "n = 1" by auto
    then show ?thesis by (simp add: bit_length.simps)
  next
    case False
    then have IH: "2 ^ (bit_length (n div 2) - 1) \<le> n div 2" "n div 2 < 2 ^ bit_length (n div 2)" "0 < bit_length (n div 2)"
      using 1 by auto
    then obtain e where e: "bit_length (n div 2) = Suc e" by (cases "bit_length (n div 2)") auto
    with "1.prems" have "bit_length n = Suc (Suc e)" by (simp add: bit_length.simps [of n])
    moreover have "2 ^ e \<le> n div 2" "n div 2 < 2 * 2 ^ e" using IH e by simp_all
    then have "2 * 2 ^ e \<le> n \<and> n < 4 * 2 ^ e" by linarith
    ultimately show ?thesis by simp
  qed
qed

lemma bit_length_le: "n < 2 ^ j \<Longrightarrow> bit_length n \<le> j"
proof (cases "n = 0")
  case True
  then show ?thesis by (simp add: bit_length.simps)
next
  case False
  assume "n < 2 ^ j"
  with bit_length_bounds [of n] False have "(2 :: nat) ^ (bit_length n - 1) < 2 ^ j" by linarith
  then have "bit_length n - 1 < j" by simp
  then show ?thesis by simp
qed

lemma bit_length_gt: "2 ^ j \<le> n \<Longrightarrow> j < bit_length n"
proof (rule ccontr)
  assume n: "2 ^ j \<le> n" and "\<not> j < bit_length n"
  then have "(2 :: nat) ^ bit_length n \<le> 2 ^ j" by simp
  moreover have "0 < n" using n by (meson less_le_trans pos2 zero_less_power)
  ultimately show False using bit_length_bounds [of n] n by linarith
qed

lemma to_double_small [simp]: "n < EXACT_LIMIT \<Longrightarrow> to_double n = n"
  by (simp add: to_double_def)

lemma small_double: "n < EXACT_LIMIT \<Longrightarrow> is_double n"
  by (simp add: is_double_def)

text \<open>Of a number that is not small, the first 53 digits and the size of the last of them.\<close>

lemma leading_digits:
  assumes "EXACT_LIMIT \<le> n"
  shows "1 \<le> bit_length n - 53 \<and> 2 ^ 52 \<le> n div 2 ^ (bit_length n - 53) \<and> n div 2 ^ (bit_length n - 53) < 2 ^ 53"
proof -
  have "53 < bit_length n" using assms bit_length_gt [of 53 n] by (simp only: EXACT_LIMIT_def)
  then obtain k where k: "bit_length n = 53 + k" "1 \<le> k" by (metis add_leE le_add_diff_inverse less_imp_le_nat less_iff_succ_less_eq nat_add_left_cancel_le)
  have "0 < n" using assms by (simp add: EXACT_LIMIT_def)
  with bit_length_bounds [of n] have "2 ^ (52 + k) \<le> n" "n < 2 ^ (53 + k)" unfolding k(1) by simp_all
  then have b: "2 ^ 52 * 2 ^ k \<le> n" "n < 2 ^ 53 * 2 ^ k" unfolding power_add by simp_all
  have "2 ^ 52 * 2 ^ k div 2 ^ k \<le> n div 2 ^ k" using b(1) by (rule div_le_mono)
  then have "2 ^ 52 \<le> n div 2 ^ k" by simp
  moreover have "n div 2 ^ k < 2 ^ 53" using b(2) by (simp only: less_mult_imp_div_less)
  ultimately show ?thesis using k by simp
qed

lemma to_double_large:
  assumes "EXACT_LIMIT \<le> n"
  shows "\<exists>q k. to_double n = min (q * 2 ^ k) INFINITE_DOUBLE \<and> 2 ^ 52 \<le> q \<and> q \<le> 2 ^ 53 \<and> 1 \<le> k"
proof -
  let ?k = "bit_length n - 53" let ?q = "n div 2 ^ (bit_length n - 53)"
  let ?up = "2 * (n mod 2 ^ ?k) > 2 ^ ?k \<or> 2 * (n mod 2 ^ ?k) = 2 ^ ?k \<and> odd ?q"
  have "to_double n = min ((if ?up then ?q + 1 else ?q) * 2 ^ ?k) INFINITE_DOUBLE"
    using assms by (simp add: to_double_def Let_def)
  moreover have "2 ^ 52 \<le> (if ?up then ?q + 1 else ?q)" "(if ?up then ?q + 1 else ?q) \<le> 2 ^ 53"
    using leading_digits [OF assms] by auto
  ultimately show ?thesis using leading_digits [OF assms] by blast
qed

lemma to_double_exact_iff [simp]: "to_double n < EXACT_LIMIT \<longleftrightarrow> n < EXACT_LIMIT"
proof (cases "n < EXACT_LIMIT")
  case False
  then obtain q k where n: "to_double n = min (q * 2 ^ k) INFINITE_DOUBLE" "2 ^ 52 \<le> q" "1 \<le> k"
    using to_double_large [of n] by auto
  have "(2 :: nat) ^ 52 * 2 ^ 1 \<le> q * 2 ^ k" using n(2,3) by (intro mult_le_mono power_increasing) simp_all
  then have "EXACT_LIMIT \<le> q * 2 ^ k" by (simp add: EXACT_LIMIT_def)
  moreover have "EXACT_LIMIT \<le> INFINITE_DOUBLE" unfolding EXACT_LIMIT_def INFINITE_DOUBLE_def by (rule power_increasing) simp_all
  ultimately show ?thesis using False n(1) by simp
qed simp

text \<open>A number with no more than 53 digits before its zeros is kept.\<close>

lemma to_double_few_digits:
  assumes "q < 2 ^ 53"
  shows "to_double (q * 2 ^ k) = min (q * 2 ^ k) INFINITE_DOUBLE"
proof (cases "q * 2 ^ k < EXACT_LIMIT")
  case True
  moreover have "EXACT_LIMIT \<le> INFINITE_DOUBLE" unfolding EXACT_LIMIT_def INFINITE_DOUBLE_def by (rule power_increasing) simp_all
  ultimately show ?thesis by simp
next
  case False
  let ?n = "q * 2 ^ k" let ?j = "bit_length ?n - 53"
  have "q * 2 ^ k < 2 ^ 53 * 2 ^ k" using assms by (intro mult_strict_right_mono) simp_all
  then have "?n < 2 ^ (53 + k)" by (simp only: power_add)
  then have "?j \<le> k" using bit_length_le [of ?n "53 + k"] by simp
  then have "2 ^ ?j dvd ?n" by (simp add: le_imp_power_dvd)
  then show ?thesis using False by (simp add: to_double_def Let_def)
qed

lemma INFINITE_double: "to_double INFINITE_DOUBLE = INFINITE_DOUBLE"
proof -
  have "INFINITE_DOUBLE = 1 * 2 ^ 1024" by (simp add: INFINITE_DOUBLE_def)
  then show ?thesis using to_double_few_digits [of 1 1024] by simp
qed

lemma to_double_double [simp]: "to_double (to_double n) = to_double n"
proof (cases "n < EXACT_LIMIT")
  case False
  then obtain q k where n: "to_double n = min (q * 2 ^ k) INFINITE_DOUBLE" "q \<le> 2 ^ 53"
    using to_double_large [of n] by auto
  have "to_double (q * 2 ^ k) = min (q * 2 ^ k) INFINITE_DOUBLE"
  proof (cases "q = 2 ^ 53")
    case True
    then have "q * 2 ^ k = 2 ^ 52 * 2 ^ Suc k" by simp
    then show ?thesis using to_double_few_digits [of "2 ^ 52" "Suc k"] by simp
  next
    case False
    with n(2) have "q < 2 ^ 53" by simp
    then show ?thesis by (rule to_double_few_digits)
  qed
  then show ?thesis using n(1) INFINITE_double by (simp add: min_def)
qed simp

lemma is_double_to_double [simp]: "is_double (to_double n)"
  by (simp add: is_double_def)

lemma to_double_pos [simp]: "0 < to_double n \<longleftrightarrow> 0 < n"
proof (cases "n < EXACT_LIMIT")
  case False
  then have "EXACT_LIMIT \<le> to_double n" "EXACT_LIMIT \<le> n" using to_double_exact_iff [of n] by linarith+
  moreover have "0 < EXACT_LIMIT" by (simp add: EXACT_LIMIT_def)
  ultimately show ?thesis by linarith
qed simp

subsection \<open>Printing\<close>

text \<open>Of the two numbers around a double with all but \<open>m\<close> of their digits zero, those that round to it; of two, the
nearer, and of two as near the one whose last digit is even.\<close>

definition rounding_back :: "nat \<Rightarrow> nat \<Rightarrow> nat list" where
  "rounding_back n m = filter (\<lambda>s. to_double (s * 10 ^ m) = n) [n div 10 ^ m, n div 10 ^ m + 1]"

fun shortest_from :: "nat \<Rightarrow> nat \<Rightarrow> nat" where
  "shortest_from n 0 = n"
| "shortest_from n (Suc m) =
     (case rounding_back n (Suc m) of
        [] \<Rightarrow> shortest_from n m
      | s # [] \<Rightarrow> s * 10 ^ Suc m
      | s # t # _ \<Rightarrow>
          (let below = n - s * 10 ^ Suc m; above = t * 10 ^ Suc m - n
           in (if below < above \<or> below = above \<and> even s then s else t) * 10 ^ Suc m))"

definition shortest_decimal :: "nat \<Rightarrow> nat" where
  "shortest_decimal n = shortest_from n (length (show_number n))"

definition EXPONENT_LIMIT :: nat where
  "EXPONENT_LIMIT = 10 ^ 21"

definition exponent_text :: "nat \<Rightarrow> string" where
  "exponent_text v =
     (let digits = show_number v;
          kept = rev (dropWhile (\<lambda>c. c = CHR ''0'') (rev digits))
      in hd kept # (if tl kept = [] then [] else CHR ''.'' # tl kept) @ ''e+'' @ show_number (length digits - 1))"

definition number_text :: "nat \<Rightarrow> string" where
  "number_text n =
     (if n = INFINITE_DOUBLE then ''Infinity''
      else if shortest_decimal n < EXPONENT_LIMIT then show_number (shortest_decimal n)
      else exponent_text (shortest_decimal n))"

lemma shortest_from_double: "is_double n \<Longrightarrow> to_double (shortest_from n m) = n"
proof (induction m)
  case (Suc m)
  have rounds: "to_double (s * 10 ^ Suc m) = n" if "s \<in> set (rounding_back n (Suc m))" for s
    using that by (simp only: rounding_back_def set_filter mem_Collect_eq)
  show ?case
  proof (cases "rounding_back n (Suc m)")
    case Nil
    then show ?thesis using Suc by simp
  next
    case (Cons s rest)
    then show ?thesis using rounds [of s] rounds [of "hd rest"] by (cases rest) (simp_all add: Let_def)
  qed
qed (simp add: is_double_def)

lemma shortest_decimal_double: "is_double n \<Longrightarrow> to_double (shortest_decimal n) = n"
  by (simp add: shortest_decimal_def shortest_from_double)

lemma shortest_decimal_small: "n < EXACT_LIMIT \<Longrightarrow> shortest_decimal n = n"
  using shortest_decimal_double [OF small_double] by (metis to_double_exact_iff to_double_small)

lemma number_text_small [simp]:
  assumes "n < EXACT_LIMIT"
  shows "number_text n = show_number n"
proof -
  have "EXACT_LIMIT < EXPONENT_LIMIT" by (simp add: EXACT_LIMIT_def EXPONENT_LIMIT_def)
  moreover have "EXACT_LIMIT \<le> INFINITE_DOUBLE" unfolding EXACT_LIMIT_def INFINITE_DOUBLE_def by (rule power_increasing) simp_all
  ultimately show ?thesis using assms shortest_decimal_small [OF assms] by (simp add: number_text_def)
qed

text \<open>A number prints in digits below $10^{21}$.\<close>

definition prints_digits :: "nat \<Rightarrow> bool" where
  "prints_digits n \<longleftrightarrow> n \<noteq> INFINITE_DOUBLE \<and> shortest_decimal n < EXPONENT_LIMIT"

lemma number_text_digits: "prints_digits n \<Longrightarrow> number_text n = show_number (shortest_decimal n)"
  by (simp add: prints_digits_def number_text_def)

lemma small_prints_digits: "n < EXACT_LIMIT \<Longrightarrow> prints_digits n"
proof -
  assume n: "n < EXACT_LIMIT"
  have "EXACT_LIMIT < EXPONENT_LIMIT" by (simp add: EXACT_LIMIT_def EXPONENT_LIMIT_def)
  moreover have "EXACT_LIMIT \<le> INFINITE_DOUBLE" unfolding EXACT_LIMIT_def INFINITE_DOUBLE_def by (rule power_increasing) simp_all
  ultimately show ?thesis using n shortest_decimal_small [OF n] by (simp add: prints_digits_def)
qed

text \<open>The text of a number is neither empty nor a text with a slash or a colon.\<close>

lemma digits_plain: "c \<in> set (show_number n) \<Longrightarrow> is_digit c"
  by (rule show_number_char)

lemma exponent_text_chars:
  assumes "0 < v" and "c \<in> set (exponent_text v)"
  shows "is_digit c \<or> c \<in> set ''.e+''"
proof -
  obtain kept where k: "kept = rev (dropWhile (\<lambda>c. c = CHR ''0'') (rev (show_number v)))" by blast
  have "set kept \<subseteq> set (show_number v)" unfolding k using set_dropWhileD by fastforce
  then have digits: "\<And>d. d \<in> set kept \<Longrightarrow> is_digit d" using digits_plain by blast
  have "kept \<noteq> []"
  proof
    assume "kept = []"
    then have "\<forall>d \<in> set (show_number v). d = CHR ''0''" by (simp add: k dropWhile_eq_Nil_conv)
    moreover have "is_number_name (show_number v)" using assms(1) by (simp add: show_number_name)
    ultimately show False by (cases "show_number v") auto
  qed
  then obtain d ds where ds: "kept = d # ds" by (cases kept) auto
  have "exponent_text v = d # (if ds = [] then [] else CHR ''.'' # ds) @ ''e+'' @ show_number (length (show_number v) - 1)"
    unfolding exponent_text_def Let_def k [symmetric] ds by simp
  with assms(2) have "c \<in> insert d (set ds) \<union> set (show_number (length (show_number v) - 1)) \<union> set ''.e+''"
    by (cases "ds = []") auto
  then show ?thesis using digits [unfolded ds] digits_plain [of c] by auto
qed

lemma number_text_chars:
  assumes "c \<in> set (number_text n)"
  shows "is_digit c \<or> c \<in> set ''Infinity.e+''"
proof (cases "n = INFINITE_DOUBLE")
  case True
  then have "c \<in> set ''Infinity''" using assms by (simp add: number_text_def)
  then show ?thesis by auto
next
  case False
  show ?thesis
  proof (cases "shortest_decimal n < EXPONENT_LIMIT")
    case True
    then show ?thesis using assms False digits_plain by (simp add: number_text_def)
  next
    case large: False
    have "0 < EXPONENT_LIMIT" by (simp add: EXPONENT_LIMIT_def)
    then have "0 < shortest_decimal n" using large by linarith
    then show ?thesis using exponent_text_chars [of "shortest_decimal n" c] assms False large by (auto simp: number_text_def)
  qed
qed

lemma number_text_plain: "CHR ''/'' \<notin> set (number_text n)" "CHR '':'' \<notin> set (number_text n)"
  using number_text_chars [of "CHR ''/''" n] number_text_chars [of "CHR '':''" n] by (auto simp: is_digit_def)

lemma digits_prints: "number_text m = show_number n \<Longrightarrow> prints_digits m"
proof -
  assume t: "number_text m = show_number n"
  have digits: "c \<in> set (number_text m) \<Longrightarrow> is_digit c" for c unfolding t by (rule digits_plain)
  have "m \<noteq> INFINITE_DOUBLE"
    using digits [of "CHR ''I''"] by (auto simp: number_text_def is_digit_def)
  moreover have "shortest_decimal m < EXPONENT_LIMIT"
  proof (rule ccontr)
    assume "\<not> shortest_decimal m < EXPONENT_LIMIT"
    then have "number_text m = exponent_text (shortest_decimal m)" using \<open>m \<noteq> INFINITE_DOUBLE\<close> by (simp add: number_text_def)
    then have "CHR ''e'' \<in> set (number_text m)" by (simp add: exponent_text_def Let_def)
    then show False using digits [of "CHR ''e''"] by (simp add: is_digit_def)
  qed
  ultimately show ?thesis by (simp add: prints_digits_def)
qed

lemma number_text_same:
  assumes "is_double m" and "n < EXACT_LIMIT"
  shows "number_text m = number_text n \<longleftrightarrow> m = n"
proof
  assume "number_text m = number_text n"
  then have t: "number_text m = show_number n" using assms(2) by simp
  with number_text_digits [OF digits_prints [OF t]] have "shortest_decimal m = n" by simp
  then show "m = n" using shortest_decimal_double [OF assms(1)] assms(2) by simp
qed simp

text \<open>\<open>n + 1\<close>. From $2^{53}$ on the sum may be \<open>n\<close> again.\<close>

definition next_number :: "nat \<Rightarrow> nat" where
  "next_number n = to_double (n + 1)"

lemma next_number_small: "n + 1 < EXACT_LIMIT \<Longrightarrow> next_number n = n + 1"
  by (simp add: next_number_def)

lemma sample_rounding: "to_double 9007199254740993 = 9007199254740992"
  by (simp add: to_double_def EXACT_LIMIT_def INFINITE_DOUBLE_def bit_length.simps)

lemma next_number_stalls: "next_number EXACT_LIMIT = EXACT_LIMIT"
  using sample_rounding by (simp add: next_number_def EXACT_LIMIT_def)

end
