(* ===== verification/RecordId.thy ===== *)
theory RecordId
  imports JsNumber
begin

text \<open>
  Record ids and short ids as typed on the command line, \<open>record-id*.ts\<close> and
  \<open>record-short-id.ts\<close>: the parsers, the printer and what they refuse.

  A \<open>UsageError\<close> is a value of \<open>usage_error\<close>: which refusal it is and the texts its message
  quotes. Every segment of an id becomes a path under the runs directory, so the parser's refusals
  are what keeps a reader inside it. The numbers are doubles: a text of digits above $2^{53}$ is read as the nearest of
  them.
\<close>

subsection \<open>The contract\<close>

datatype record_id =
    CaseRecord string
  | RunRecord string
  | CheckpointRecord string string
  | SessionAttemptRecord string string
  | StageAttemptRecord string string
  | GroupRecord string
  | RepStageRecord string string string
  | RepSessionRecord string string
  | ComparisonRecord string

datatype short_kind = RunShort | GroupShort

record short_reference =
  sr_case :: string
  sr_kind :: short_kind
  sr_number :: nat
  sr_stage :: "nat option"

datatype record_reference = ById record_id | ByShort short_reference

datatype usage_error =
    TakesForm string string
  | OutsideRuns string
  | NoCaseNamed string
  | NoRecordKind string
  | NoAttemptKind string
  | NoRepKind string
  | NoRunNamed string
  | MalformedShortId string

record id_body =
  ib_given :: string
  ib_form :: string
  ib_body :: string

record qualified_record_id =
  qr_prefix :: string
  qr_given :: string
  qr_body :: string

subsection \<open>Segments\<close>

definition confined :: "id_body \<Rightarrow> string \<Rightarrow> usage_error + string" where
  "confined b t = (if t = ''.'' \<or> t = ''..'' \<or> CHR ''/'' \<in> set t then Inl (OutsideRuns (ib_given b)) else Inr t)"

definition segment :: "id_body \<Rightarrow> usage_error + string" where
  "segment b =
     (if ib_body b = [] then Inl (TakesForm (ib_given b) (ib_form b)) else confined b (ib_body b))"

text \<open>\<open>isCaseId\<close>: the pattern \<open>[a-z0-9][a-z0-9-]*\<close>.\<close>

definition case_id_start :: "char \<Rightarrow> bool" where
  "case_id_start c \<longleftrightarrow> 97 \<le> (of_char c :: nat) \<and> (of_char c :: nat) \<le> 122 \<or> is_digit c"

fun is_case_id :: "string \<Rightarrow> bool" where
  "is_case_id [] = False"
| "is_case_id (c # cs) \<longleftrightarrow> case_id_start c \<and> list_all (\<lambda>d. case_id_start d \<or> d = CHR ''-'') cs"

definition checked_case_id :: "string \<Rightarrow> string \<Rightarrow> usage_error + string" where
  "checked_case_id given case_id = (if is_case_id case_id then Inr case_id else Inl (NoCaseNamed given))"

definition case_segment :: "id_body \<Rightarrow> usage_error + string" where
  "case_segment b = bind_res (segment b) (\<lambda>t. checked_case_id (ib_given b) t)"

definition two_segments :: "id_body \<Rightarrow> usage_error + string \<times> string" where
  "two_segments b =
     (case split_on CHR ''/'' (ib_body b) of
        [first, second] \<Rightarrow>
          if first = [] \<or> second = [] then Inl (TakesForm (ib_given b) (ib_form b))
          else bind_res (confined b first) (\<lambda>f. bind_res (confined b second) (\<lambda>s. Inr (f, s)))
      | _ \<Rightarrow> Inl (TakesForm (ib_given b) (ib_form b)))"

definition three_segments :: "id_body \<Rightarrow> usage_error + string \<times> string \<times> string" where
  "three_segments b =
     (case split_on CHR ''/'' (ib_body b) of
        [first, second, third] \<Rightarrow>
          if first = [] \<or> second = [] \<or> third = [] then Inl (TakesForm (ib_given b) (ib_form b))
          else bind_res (confined b first) (\<lambda>f. bind_res (confined b second) (\<lambda>s.
                 bind_res (confined b third) (\<lambda>t. Inr (f, s, t))))
      | _ \<Rightarrow> Inl (TakesForm (ib_given b) (ib_form b)))"

subsection \<open>Record ids\<close>

definition parse_case_id :: "string \<Rightarrow> string \<Rightarrow> usage_error + record_id" where
  "parse_case_id given body =
     map_sum id CaseRecord (case_segment \<lparr>ib_given = given, ib_form = ''case:<id>'', ib_body = body\<rparr>)"

definition parse_run_id :: "string \<Rightarrow> string \<Rightarrow> usage_error + record_id" where
  "parse_run_id given body =
     map_sum id RunRecord (segment \<lparr>ib_given = given, ib_form = ''run:<name>'', ib_body = body\<rparr>)"

definition parse_group_id :: "string \<Rightarrow> string \<Rightarrow> usage_error + record_id" where
  "parse_group_id given body =
     map_sum id GroupRecord (segment \<lparr>ib_given = given, ib_form = ''group:<group-id>'', ib_body = body\<rparr>)"

definition parse_comparison_id :: "string \<Rightarrow> string \<Rightarrow> usage_error + record_id" where
  "parse_comparison_id given body =
     map_sum id ComparisonRecord
       (segment \<lparr>ib_given = given, ib_form = ''comparison:<manifest-digest>'', ib_body = body\<rparr>)"

definition parse_checkpoint_id :: "string \<Rightarrow> string \<Rightarrow> usage_error + record_id" where
  "parse_checkpoint_id given body =
     map_sum id (\<lambda>(run, stage). CheckpointRecord run stage)
       (two_segments \<lparr>ib_given = given, ib_form = ''checkpoint:<run>/<stage>'', ib_body = body\<rparr>)"

text \<open>What stands before the first colon, and what after it.\<close>

definition split_kind :: "string \<Rightarrow> string \<times> string" where
  "split_kind body =
     (case index_of body '':'' of None \<Rightarrow> (body, []) | Some i \<Rightarrow> (take i body, drop (i + 1) body))"

definition parse_attempt_id :: "string \<Rightarrow> string \<Rightarrow> usage_error + record_id" where
  "parse_attempt_id given body =
     (case split_kind body of (kind, rest) \<Rightarrow>
        if kind = ''session''
        then map_sum id (\<lambda>(c, u). SessionAttemptRecord c u)
               (two_segments \<lparr>ib_given = given, ib_form = ''attempt:session:<case>/<uuid>'', ib_body = rest\<rparr>)
        else if kind = ''stage''
        then map_sum id (\<lambda>(l, t). StageAttemptRecord l t)
               (two_segments \<lparr>ib_given = given, ib_form = ''attempt:stage:<lineage>/<timestamp>'', ib_body = rest\<rparr>)
        else Inl (NoAttemptKind body))"

definition parse_rep_id :: "string \<Rightarrow> string \<Rightarrow> usage_error + record_id" where
  "parse_rep_id given body =
     (case split_kind body of (kind, rest) \<Rightarrow>
        if kind = ''stage''
        then map_sum id (\<lambda>(g, r, s). RepStageRecord g r s)
               (three_segments \<lparr>ib_given = given, ib_form = ''rep:stage:<group-id>/<rep-id>/<stage>'', ib_body = rest\<rparr>)
        else if kind = ''session''
        then map_sum id (\<lambda>(g, r). RepSessionRecord g r)
               (two_segments \<lparr>ib_given = given, ib_form = ''rep:session:<group-id>/<rep-id>'', ib_body = rest\<rparr>)
        else Inl (NoRepKind body))"

definition qualified_record_id_of :: "string \<Rightarrow> usage_error + qualified_record_id" where
  "qualified_record_id_of t =
     (case index_of t '':'' of
        None \<Rightarrow> Inl (NoRecordKind t)
      | Some i \<Rightarrow> Inr \<lparr>qr_prefix = take i t, qr_given = t, qr_body = drop (i + 1) t\<rparr>)"

definition parse_record_id :: "string \<Rightarrow> usage_error + record_id" where
  "parse_record_id t =
     bind_res (qualified_record_id_of t) (\<lambda>r.
       if qr_prefix r = ''checkpoint'' then parse_checkpoint_id (qr_given r) (qr_body r)
       else if qr_prefix r = ''attempt'' then parse_attempt_id (qr_given r) (qr_body r)
       else if qr_prefix r = ''rep'' then parse_rep_id (qr_given r) (qr_body r)
       else if qr_prefix r = ''case'' then parse_case_id (qr_given r) (qr_body r)
       else if qr_prefix r = ''run'' then parse_run_id (qr_given r) (qr_body r)
       else if qr_prefix r = ''group'' then parse_group_id (qr_given r) (qr_body r)
       else if qr_prefix r = ''comparison'' then parse_comparison_id (qr_given r) (qr_body r)
       else Inl (NoRecordKind (qr_given r)))"

fun format_record_id :: "record_id \<Rightarrow> string" where
  "format_record_id (CaseRecord c) = ''case:'' @ c"
| "format_record_id (RunRecord r) = ''run:'' @ r"
| "format_record_id (GroupRecord g) = ''group:'' @ g"
| "format_record_id (ComparisonRecord d) = ''comparison:'' @ d"
| "format_record_id (CheckpointRecord r s) = ''checkpoint:'' @ r @ ''/'' @ s"
| "format_record_id (SessionAttemptRecord c u) = ''attempt:session:'' @ c @ ''/'' @ u"
| "format_record_id (StageAttemptRecord l t) = ''attempt:stage:'' @ l @ ''/'' @ t"
| "format_record_id (RepStageRecord g r s) = ''rep:stage:'' @ g @ ''/'' @ r @ ''/'' @ s"
| "format_record_id (RepSessionRecord g r) = ''rep:session:'' @ g @ ''/'' @ r"

definition parse_run_record_id :: "string \<Rightarrow> usage_error + string" where
  "parse_run_record_id t =
     bind_res (parse_record_id (if starts_with t ''run:'' then t else ''run:'' @ t))
       (\<lambda>r. case r of RunRecord run \<Rightarrow> Inr run | _ \<Rightarrow> Inl (NoRunNamed t))"

subsection \<open>Short ids\<close>

definition claimed_short_id :: "string \<Rightarrow> (nat \<times> short_kind) option" where
  "claimed_short_id numbered =
     (case numbered of
        [] \<Rightarrow> None
      | letter # digits \<Rightarrow>
          if (letter = CHR ''r'' \<or> letter = CHR ''g'') \<and> is_number_name digits
          then Some (to_double (read_number digits), if letter = CHR ''g'' then GroupShort else RunShort) else None)"

definition short_stage :: "string \<Rightarrow> short_kind \<Rightarrow> string option \<Rightarrow> string list \<Rightarrow> usage_error + nat option" where
  "short_stage given kind staged extra =
     (case staged of
        None \<Rightarrow> Inr None
      | Some t \<Rightarrow>
          (case t of
             c # digits \<Rightarrow>
               if kind \<noteq> RunShort \<or> \<not> (c = CHR ''s'' \<and> is_count_name digits) \<or> length extra > 0
               then Inl (MalformedShortId given) else Inr (Some (to_double (read_number digits)))
           | [] \<Rightarrow> Inl (MalformedShortId given)))"

definition parse_short_id :: "string \<Rightarrow> usage_error + short_reference" where
  "parse_short_id t =
     (let parts = split_on CHR ''/'' t;
          staged = (if length parts > 2 then Some (parts ! 2) else None)
      in bind_res (checked_case_id t (at_or parts 0 [])) (\<lambda>case_id.
           case claimed_short_id (at_or parts 1 []) of
             None \<Rightarrow> Inl (MalformedShortId t)
           | Some (number, kind) \<Rightarrow>
               bind_res (short_stage t kind staged (drop 3 parts)) (\<lambda>stage.
                 Inr \<lparr>sr_case = case_id, sr_kind = kind, sr_number = number, sr_stage = stage\<rparr>)))"

text \<open>\<open>parseRecordReference\<close>.\<close>

definition parse_record_reference :: "string \<Rightarrow> usage_error + record_reference" where
  "parse_record_reference t =
     (if CHR '':'' \<notin> set t \<and> CHR ''/'' \<in> set t then map_sum id ByShort (parse_short_id t)
      else map_sum id ById (parse_record_id t))"

text \<open>\<open>formatShortId\<close> and \<open>formatCheckpointShortId\<close>.\<close>

definition format_short_id :: "string \<Rightarrow> short_kind \<Rightarrow> nat \<Rightarrow> string" where
  "format_short_id case_id kind number =
     case_id @ ''/'' @ (if kind = GroupShort then ''g'' else ''r'') @ number_text number"

definition format_checkpoint_short_id :: "string \<Rightarrow> nat \<Rightarrow> string" where
  "format_checkpoint_short_id run_short_id stage = run_short_id @ ''/s'' @ number_text stage"

subsection \<open>Splitting\<close>

lemma split_on_free: "c \<notin> set xs \<Longrightarrow> split_on c xs = [xs]"
  by (induction xs) auto

lemma split_on_append: "c \<notin> set xs \<Longrightarrow> split_on c (xs @ c # ys) = xs # split_on c ys"
  by (induction xs) auto

lemma split_on_join: "join_with [c] (split_on c xs) = xs"
proof (induction xs)
  case (Cons x xs)
  obtain p ps where s: "split_on c xs = p # ps" by (metis neq_Nil_conv split_on_not_Nil)
  have c: "join_with [c] ((x # p) # ps) = x # join_with [c] (p # ps)" by (cases ps) auto
  show ?case using Cons.IH s c by (cases "x = c") auto
qed simp

lemma split_on_parts: "p \<in> set (split_on c xs) \<Longrightarrow> c \<notin> set p"
proof (induction xs arbitrary: p)
  case (Cons x xs)
  obtain q qs where s: "split_on c xs = q # qs" by (metis neq_Nil_conv split_on_not_Nil)
  with Cons show ?case by (auto split: if_splits)
qed simp

lemma split_on_two: "split_on (c :: char) xs = [f, s] \<longleftrightarrow> xs = f @ c # s \<and> c \<notin> set f \<and> c \<notin> set s"
proof
  assume a: "split_on c xs = [f, s]"
  then show "xs = f @ c # s \<and> c \<notin> set f \<and> c \<notin> set s"
    using split_on_join [of c xs] split_on_parts [of _ c xs] by auto
qed (simp add: split_on_append split_on_free)

lemma split_on_three:
  "split_on (c :: char) xs = [f, s, t] \<longleftrightarrow> xs = f @ c # s @ c # t \<and> c \<notin> set f \<and> c \<notin> set s \<and> c \<notin> set t"
proof
  assume a: "split_on c xs = [f, s, t]"
  then show "xs = f @ c # s @ c # t \<and> c \<notin> set f \<and> c \<notin> set s \<and> c \<notin> set t"
    using split_on_join [of c xs] split_on_parts [of _ c xs] by auto
qed (simp add: split_on_append split_on_free)

lemma index_of_char: "c \<notin> set xs \<Longrightarrow> index_of (xs @ c # ys) [c] = Some (length xs)"
  by (induction xs) auto

lemma index_of_char_Some:
  "index_of t [c] = Some i \<Longrightarrow> t = take i t @ c # drop (i + 1) t \<and> c \<notin> set (take i t)"
proof (induction t arbitrary: i)
  case (Cons x t)
  show ?case
  proof (cases "x = c")
    case False
    with Cons.prems obtain j where "index_of t [c] = Some j" "i = Suc j" by auto
    with Cons.IH [of j] False show ?thesis by auto
  qed (use Cons.prems in auto)
qed simp

lemma index_of_char_None: "index_of t [c] = None \<longleftrightarrow> c \<notin> set t"
  by (induction t) auto

lemma qualified_iff:
  "qualified_record_id_of t = Inr r \<longleftrightarrow>
     t = qr_prefix r @ CHR '':'' # qr_body r \<and> CHR '':'' \<notin> set (qr_prefix r) \<and> qr_given r = t"
proof
  assume "qualified_record_id_of t = Inr r"
  then obtain i where i: "index_of t '':'' = Some i"
    and r: "r = \<lparr>qr_prefix = take i t, qr_given = t, qr_body = drop (i + 1) t\<rparr>"
    by (auto simp: qualified_record_id_of_def split: option.splits)
  from index_of_char_Some [OF i] show "t = qr_prefix r @ CHR '':'' # qr_body r \<and> CHR '':'' \<notin> set (qr_prefix r) \<and> qr_given r = t"
    unfolding r by simp
next
  assume a: "t = qr_prefix r @ CHR '':'' # qr_body r \<and> CHR '':'' \<notin> set (qr_prefix r) \<and> qr_given r = t"
  then have "index_of t '':'' = Some (length (qr_prefix r))" by (metis index_of_char)
  moreover have "take (length (qr_prefix r)) t = qr_prefix r" "drop (length (qr_prefix r) + 1) t = qr_body r"
    using a by (metis append_eq_conv_conj, metis Suc_eq_plus1 append_eq_conv_conj drop_Suc tl_drop list.sel(3))
  ultimately show "qualified_record_id_of t = Inr r" using a by (simp add: qualified_record_id_of_def)
qed

lemma split_kind_append: "CHR '':'' \<notin> set k \<Longrightarrow> split_kind (k @ CHR '':'' # rest) = (k, rest)"
  by (simp add: split_kind_def index_of_char)

lemma split_kindD: "split_kind body = (k, rest) \<Longrightarrow> rest \<noteq> [] \<Longrightarrow> body = k @ CHR '':'' # rest"
  using index_of_char_Some [of body "CHR '':''"] by (auto simp: split_kind_def split: option.splits)

subsection \<open>What is accepted\<close>

definition seg_ok :: "string \<Rightarrow> bool" where
  "seg_ok s \<longleftrightarrow> s \<noteq> [] \<and> s \<noteq> ''.'' \<and> s \<noteq> ''..'' \<and> CHR ''/'' \<notin> set s"

lemma segment_iff: "segment b = Inr t \<longleftrightarrow> t = ib_body b \<and> seg_ok t"
  by (auto simp: segment_def confined_def seg_ok_def)

lemma confined_iff: "confined b s = Inr t \<longleftrightarrow> t = s \<and> s \<noteq> ''.'' \<and> s \<noteq> ''..'' \<and> CHR ''/'' \<notin> set s"
  by (auto simp: confined_def)

lemma two_segments_iff:
  "two_segments b = Inr p \<longleftrightarrow> ib_body b = fst p @ ''/'' @ snd p \<and> seg_ok (fst p) \<and> seg_ok (snd p)"
proof
  assume "two_segments b = Inr p"
  then obtain f s where "split_on CHR ''/'' (ib_body b) = [f, s]" "f \<noteq> []" "s \<noteq> []" "p = (f, s)"
    "confined b f = Inr f" "confined b s = Inr s"
    by (auto simp: two_segments_def res_simps confined_iff split: list.splits if_splits)
  then show "ib_body b = fst p @ ''/'' @ snd p \<and> seg_ok (fst p) \<and> seg_ok (snd p)"
    by (auto simp: split_on_two confined_iff seg_ok_def)
next
  assume a: "ib_body b = fst p @ ''/'' @ snd p \<and> seg_ok (fst p) \<and> seg_ok (snd p)"
  then have "split_on CHR ''/'' (ib_body b) = [fst p, snd p]" by (simp add: split_on_two seg_ok_def)
  with a show "two_segments b = Inr p" by (simp add: two_segments_def seg_ok_def confined_def)
qed

lemma three_segments_iff:
  "three_segments b = Inr (f, s, t) \<longleftrightarrow>
     ib_body b = f @ ''/'' @ s @ ''/'' @ t \<and> seg_ok f \<and> seg_ok s \<and> seg_ok t"
proof
  assume "three_segments b = Inr (f, s, t)"
  then have "split_on CHR ''/'' (ib_body b) = [f, s, t]" "f \<noteq> []" "s \<noteq> []" "t \<noteq> []"
    "confined b f = Inr f" "confined b s = Inr s" "confined b t = Inr t"
    by (auto simp: three_segments_def res_simps confined_iff split: list.splits if_splits)
  then show "ib_body b = f @ ''/'' @ s @ ''/'' @ t \<and> seg_ok f \<and> seg_ok s \<and> seg_ok t"
    by (auto simp: split_on_three confined_iff seg_ok_def)
next
  assume a: "ib_body b = f @ ''/'' @ s @ ''/'' @ t \<and> seg_ok f \<and> seg_ok s \<and> seg_ok t"
  then have "split_on CHR ''/'' (ib_body b) = [f, s, t]" by (simp add: split_on_three seg_ok_def)
  with a show "three_segments b = Inr (f, s, t)" by (simp add: three_segments_def seg_ok_def confined_def)
qed

lemma case_id_chars: "is_case_id s \<Longrightarrow> c \<in> set s \<Longrightarrow> case_id_start c \<or> c = CHR ''-''"
  by (cases s) (auto simp: list_all_iff)

lemma case_id_plain: "is_case_id s \<Longrightarrow> CHR ''/'' \<notin> set s \<and> CHR '':'' \<notin> set s \<and> CHR ''.'' \<notin> set s \<and> s \<noteq> []"
  using case_id_chars [of s "CHR ''/''"] case_id_chars [of s "CHR '':''"] case_id_chars [of s "CHR ''.''"]
  by (auto simp: case_id_start_def is_digit_def)

lemma case_id_seg: "is_case_id s \<Longrightarrow> seg_ok s"
  using case_id_plain [of s] by (auto simp: seg_ok_def)

fun wf_record_id :: "record_id \<Rightarrow> bool" where
  "wf_record_id (CaseRecord c) \<longleftrightarrow> is_case_id c"
| "wf_record_id (RunRecord r) \<longleftrightarrow> seg_ok r"
| "wf_record_id (GroupRecord g) \<longleftrightarrow> seg_ok g"
| "wf_record_id (ComparisonRecord d) \<longleftrightarrow> seg_ok d"
| "wf_record_id (CheckpointRecord r s) \<longleftrightarrow> seg_ok r \<and> seg_ok s"
| "wf_record_id (SessionAttemptRecord c u) \<longleftrightarrow> seg_ok c \<and> seg_ok u"
| "wf_record_id (StageAttemptRecord l t) \<longleftrightarrow> seg_ok l \<and> seg_ok t"
| "wf_record_id (RepStageRecord g r s) \<longleftrightarrow> seg_ok g \<and> seg_ok r \<and> seg_ok s"
| "wf_record_id (RepSessionRecord g r) \<longleftrightarrow> seg_ok g \<and> seg_ok r"

lemma map_sum_Inr_iff: "map_sum id f r = Inr y \<longleftrightarrow> (\<exists>x. r = Inr x \<and> y = f x)"
  by (cases r) auto

lemmas parse_id_simps = map_sum_Inr_iff segment_iff two_segments_iff three_segments_iff

lemma parse_prefixed:
  assumes "CHR '':'' \<notin> set prefix"
  shows "parse_record_id (prefix @ CHR '':'' # body) =
    (let given = prefix @ CHR '':'' # body
     in if prefix = ''checkpoint'' then parse_checkpoint_id given body
        else if prefix = ''attempt'' then parse_attempt_id given body
        else if prefix = ''rep'' then parse_rep_id given body
        else if prefix = ''case'' then parse_case_id given body
        else if prefix = ''run'' then parse_run_id given body
        else if prefix = ''group'' then parse_group_id given body
        else if prefix = ''comparison'' then parse_comparison_id given body
        else Inl (NoRecordKind given))"
proof -
  have "qualified_record_id_of (prefix @ CHR '':'' # body) =
      Inr \<lparr>qr_prefix = prefix, qr_given = prefix @ CHR '':'' # body, qr_body = body\<rparr>"
    using assms by (simp add: qualified_iff)
  then show ?thesis unfolding parse_record_id_def Let_def by simp
qed

lemma parse_attempt_iff:
  "parse_attempt_id given body = Inr rid \<longleftrightarrow>
     (\<exists>c u. rid = SessionAttemptRecord c u \<and> body = ''session:'' @ c @ ''/'' @ u \<and> seg_ok c \<and> seg_ok u)
     \<or> (\<exists>l t. rid = StageAttemptRecord l t \<and> body = ''stage:'' @ l @ ''/'' @ t \<and> seg_ok l \<and> seg_ok t)"
proof -
  obtain k rest where k: "split_kind body = (k, rest)" by (cases "split_kind body")
  show ?thesis
  proof
    assume "parse_attempt_id given body = Inr rid"
    then show "(\<exists>c u. rid = SessionAttemptRecord c u \<and> body = ''session:'' @ c @ ''/'' @ u \<and> seg_ok c \<and> seg_ok u)
     \<or> (\<exists>l t. rid = StageAttemptRecord l t \<and> body = ''stage:'' @ l @ ''/'' @ t \<and> seg_ok l \<and> seg_ok t)"
      using split_kindD [OF k] by (auto simp: parse_attempt_id_def k parse_id_simps split: if_splits)
  next
    assume "(\<exists>c u. rid = SessionAttemptRecord c u \<and> body = ''session:'' @ c @ ''/'' @ u \<and> seg_ok c \<and> seg_ok u)
     \<or> (\<exists>l t. rid = StageAttemptRecord l t \<and> body = ''stage:'' @ l @ ''/'' @ t \<and> seg_ok l \<and> seg_ok t)"
    then show "parse_attempt_id given body = Inr rid"
      using split_kind_append [of "''session''"] split_kind_append [of "''stage''"]
      by (auto simp: parse_attempt_id_def parse_id_simps)
  qed
qed

lemma parse_rep_iff:
  "parse_rep_id given body = Inr rid \<longleftrightarrow>
     (\<exists>g r s. rid = RepStageRecord g r s \<and> body = ''stage:'' @ g @ ''/'' @ r @ ''/'' @ s \<and> seg_ok g \<and> seg_ok r \<and> seg_ok s)
     \<or> (\<exists>g r. rid = RepSessionRecord g r \<and> body = ''session:'' @ g @ ''/'' @ r \<and> seg_ok g \<and> seg_ok r)"
proof -
  obtain k rest where k: "split_kind body = (k, rest)" by (cases "split_kind body")
  show ?thesis
  proof
    assume "parse_rep_id given body = Inr rid"
    then show "(\<exists>g r s. rid = RepStageRecord g r s \<and> body = ''stage:'' @ g @ ''/'' @ r @ ''/'' @ s \<and> seg_ok g \<and> seg_ok r \<and> seg_ok s)
     \<or> (\<exists>g r. rid = RepSessionRecord g r \<and> body = ''session:'' @ g @ ''/'' @ r \<and> seg_ok g \<and> seg_ok r)"
      using split_kindD [OF k] by (auto simp: parse_rep_id_def k parse_id_simps split: if_splits)
  next
    assume "(\<exists>g r s. rid = RepStageRecord g r s \<and> body = ''stage:'' @ g @ ''/'' @ r @ ''/'' @ s \<and> seg_ok g \<and> seg_ok r \<and> seg_ok s)
     \<or> (\<exists>g r. rid = RepSessionRecord g r \<and> body = ''session:'' @ g @ ''/'' @ r \<and> seg_ok g \<and> seg_ok r)"
    then show "parse_rep_id given body = Inr rid"
      using split_kind_append [of "''session''"] split_kind_append [of "''stage''"]
      by (auto simp: parse_rep_id_def parse_id_simps)
  qed
qed

lemma parse_root_iff:
  "parse_case_id given body = Inr rid \<longleftrightarrow> rid = CaseRecord body \<and> is_case_id body"
  "parse_run_id given body = Inr rid \<longleftrightarrow> rid = RunRecord body \<and> seg_ok body"
  "parse_group_id given body = Inr rid \<longleftrightarrow> rid = GroupRecord body \<and> seg_ok body"
  "parse_comparison_id given body = Inr rid \<longleftrightarrow> rid = ComparisonRecord body \<and> seg_ok body"
  "parse_checkpoint_id given body = Inr rid \<longleftrightarrow>
     (\<exists>r s. rid = CheckpointRecord r s \<and> body = r @ ''/'' @ s \<and> seg_ok r \<and> seg_ok s)"
  using case_id_seg
  by (auto simp: parse_case_id_def case_segment_def checked_case_id_def parse_run_id_def parse_group_id_def
      parse_comparison_id_def parse_checkpoint_id_def parse_id_simps res_simps split: if_splits)

lemma parse_record_id_sound:
  assumes "parse_record_id t = Inr rid"
  shows "wf_record_id rid \<and> t = format_record_id rid"
proof -
  from assms obtain r where "qualified_record_id_of t = Inr r"
    by (auto simp: parse_record_id_def res_simps)
  then have t: "t = qr_prefix r @ CHR '':'' # qr_body r" and free: "CHR '':'' \<notin> set (qr_prefix r)"
    by (simp_all add: qualified_iff)
  note p = assms [unfolded t parse_prefixed [OF free] Let_def]
  consider "qr_prefix r = ''checkpoint''" | "qr_prefix r = ''attempt''" | "qr_prefix r = ''rep''"
    | "qr_prefix r = ''case''" | "qr_prefix r = ''run''" | "qr_prefix r = ''group''" | "qr_prefix r = ''comparison''"
    using p by (simp split: if_splits)
  then show ?thesis
    by cases (use p in \<open>auto simp: t parse_root_iff parse_attempt_iff parse_rep_iff\<close>)
qed

lemma parse_record_id_complete:
  assumes "wf_record_id rid"
  shows "parse_record_id (format_record_id rid) = Inr rid"
proof -
  have pre: "parse_record_id (prefix @ CHR '':'' # body) = Inr rid"
    if "CHR '':'' \<notin> set prefix" "(let given = prefix @ CHR '':'' # body
     in if prefix = ''checkpoint'' then parse_checkpoint_id given body
        else if prefix = ''attempt'' then parse_attempt_id given body
        else if prefix = ''rep'' then parse_rep_id given body
        else if prefix = ''case'' then parse_case_id given body
        else if prefix = ''run'' then parse_run_id given body
        else if prefix = ''group'' then parse_group_id given body
        else if prefix = ''comparison'' then parse_comparison_id given body
        else Inl (NoRecordKind given)) = Inr rid" for prefix body
    using that parse_prefixed by simp
  show ?thesis
    using assms pre [of "''checkpoint''"] pre [of "''attempt''"] pre [of "''rep''"] pre [of "''case''"]
      pre [of "''run''"] pre [of "''group''"] pre [of "''comparison''"]
    by (cases rid) (simp_all add: Let_def parse_root_iff parse_attempt_iff parse_rep_iff)
qed

lemma parse_record_id_iff: "parse_record_id t = Inr rid \<longleftrightarrow> wf_record_id rid \<and> t = format_record_id rid"
  using parse_record_id_sound parse_record_id_complete by blast

lemma format_record_id_colon: "CHR '':'' \<in> set (format_record_id rid)"
  by (cases rid) auto

subsection \<open>Short ids\<close>

definition wf_short_reference :: "short_reference \<Rightarrow> bool" where
  "wf_short_reference r \<longleftrightarrow> is_case_id (sr_case r) \<and> 0 < sr_number r \<and> (sr_stage r \<noteq> None \<longrightarrow> sr_kind r = RunShort)"

definition format_short_reference :: "short_reference \<Rightarrow> string" where
  "format_short_reference r =
     (case sr_stage r of
        None \<Rightarrow> format_short_id (sr_case r) (sr_kind r) (sr_number r)
      | Some k \<Rightarrow> format_checkpoint_short_id (format_short_id (sr_case r) (sr_kind r) (sr_number r)) k)"

text \<open>A short id written with its numbers in full, whatever their size, and what is left of it when they are rounded.\<close>

definition written_short :: "short_reference \<Rightarrow> string" where
  "written_short w =
     sr_case w @ ''/'' @ (if sr_kind w = GroupShort then ''g'' else ''r'') @ show_number (sr_number w)
       @ (case sr_stage w of None \<Rightarrow> [] | Some k \<Rightarrow> ''/s'' @ show_number k)"

definition rounded_short :: "short_reference \<Rightarrow> short_reference" where
  "rounded_short w = w\<lparr>sr_number := to_double (sr_number w), sr_stage := map_option to_double (sr_stage w)\<rparr>"

lemma claimed_short_id_iff:
  "claimed_short_id t = Some (n, k) \<longleftrightarrow>
     (\<exists>m. 0 < m \<and> n = to_double m \<and> t = (if k = GroupShort then ''g'' else ''r'') @ show_number m)"
proof
  assume "claimed_short_id t = Some (n, k)"
  then obtain letter digits where t: "t = letter # digits" "letter = (if k = GroupShort then CHR ''g'' else CHR ''r'')"
    and d: "is_number_name digits" "n = to_double (read_number digits)"
    by (cases t; cases k) (auto simp: claimed_short_id_def split: if_splits)
  with read_number_pos [OF d(1)] show "\<exists>m. 0 < m \<and> n = to_double m \<and> t = (if k = GroupShort then ''g'' else ''r'') @ show_number m"
    by (intro exI [of _ "read_number digits"]) (cases k; simp)
next
  assume "\<exists>m. 0 < m \<and> n = to_double m \<and> t = (if k = GroupShort then ''g'' else ''r'') @ show_number m"
  then show "claimed_short_id t = Some (n, k)" by (cases k) (auto simp: claimed_short_id_def show_number_name)
qed

lemma short_stage_iff:
  "short_stage given k staged extra = Inr stage \<longleftrightarrow>
     (case stage of
        None \<Rightarrow> staged = None
      | Some n \<Rightarrow> k = RunShort \<and> extra = [] \<and> (\<exists>m. n = to_double m \<and> staged = Some (''s'' @ show_number m)))"
  by (auto simp: short_stage_def is_count_name_iff split: option.splits list.splits)

lemma show_number_plain: "CHR ''/'' \<notin> set (show_number n)" "CHR '':'' \<notin> set (show_number n)"
  using show_number_char [of "CHR ''/''" n] show_number_char [of "CHR '':''" n] by (auto simp: is_digit_def)

lemma split_written_short:
  assumes "wf_short_reference w"
  shows "split_on CHR ''/'' (written_short w) =
     [sr_case w, (if sr_kind w = GroupShort then ''g'' else ''r'') @ show_number (sr_number w)]
       @ (case sr_stage w of None \<Rightarrow> [] | Some k \<Rightarrow> [''s'' @ show_number k])"
proof -
  have c: "CHR ''/'' \<notin> set (sr_case w)" using assms case_id_plain by (simp add: wf_short_reference_def)
  let ?n = "(if sr_kind w = GroupShort then ''g'' else ''r'') @ show_number (sr_number w)"
  have n: "CHR ''/'' \<notin> set ?n" using show_number_plain by simp
  show ?thesis
  proof (cases "sr_stage w")
    case None
    then have "written_short w = sr_case w @ CHR ''/'' # ?n" by (simp add: written_short_def)
    then show ?thesis using None split_on_append [OF c] split_on_free [OF n] by simp
  next
    case (Some k)
    then have "written_short w = sr_case w @ CHR ''/'' # (?n @ CHR ''/'' # (''s'' @ show_number k))"
      by (simp add: written_short_def)
    moreover have "CHR ''/'' \<notin> set (''s'' @ show_number k)" using show_number_plain by simp
    ultimately show ?thesis
      using Some split_on_append [OF c] split_on_append [OF n] split_on_free by (metis append_Cons append_Nil option.simps(5))
  qed
qed

lemma parse_short_id_complete:
  assumes wf: "wf_short_reference w"
  shows "parse_short_id (written_short w) = Inr (rounded_short w)"
proof -
  let ?p = "split_on CHR ''/'' (written_short w)"
  let ?n = "(if sr_kind w = GroupShort then ''g'' else ''r'') @ show_number (sr_number w)"
  have p: "at_or ?p 0 [] = sr_case w" "at_or ?p 1 [] = ?n"
    "(if length ?p > 2 then Some (?p ! 2) else None) = map_option (\<lambda>k. ''s'' @ show_number k) (sr_stage w)"
    "drop 3 ?p = []"
    unfolding split_written_short [OF wf] by (auto simp: at_or_def split: option.split)
  have c: "claimed_short_id ?n = Some (to_double (sr_number w), sr_kind w)"
    unfolding claimed_short_id_iff using wf by (intro exI [of _ "sr_number w"]) (simp add: wf_short_reference_def)
  have st: "short_stage t (sr_kind w) (map_option (\<lambda>k. ''s'' @ show_number k) (sr_stage w)) [] = Inr (map_option to_double (sr_stage w))" for t
    using wf by (auto simp: short_stage_iff wf_short_reference_def split: option.split)
  have "is_case_id (sr_case w)" using wf by (simp add: wf_short_reference_def)
  then show ?thesis
    unfolding parse_short_id_def Let_def p c by (simp add: checked_case_id_def st [simplified] rounded_short_def)
qed

lemma parse_short_id_sound:
  assumes "parse_short_id t = Inr r"
  shows "\<exists>w. wf_short_reference w \<and> t = written_short w \<and> r = rounded_short w"
proof -
  let ?p = "split_on CHR ''/'' t"
  let ?staged = "if length ?p > 2 then Some (?p ! 2) else None"
  from assms obtain n k stage where case_id: "is_case_id (at_or ?p 0 [])"
    and claimed: "claimed_short_id (at_or ?p 1 []) = Some (n, k)"
    and st: "short_stage t k ?staged (drop 3 ?p) = Inr stage"
    and r: "r = \<lparr>sr_case = at_or ?p 0 [], sr_kind = k, sr_number = n, sr_stage = stage\<rparr>"
    by (auto simp: parse_short_id_def Let_def res_simps checked_case_id_def split: if_splits option.splits)
  have "length ?p > 1" using claimed by (auto simp: claimed_short_id_def at_or_def split: if_splits)
  then obtain c m rest where p: "?p = c # m # rest" by (cases ?p; cases "tl ?p") auto
  obtain i where cm: "is_case_id c" "0 < i" "n = to_double i" "m = (if k = GroupShort then ''g'' else ''r'') @ show_number i"
    using case_id claimed by (auto simp: p at_or_def claimed_short_id_iff)
  have r: "r = \<lparr>sr_case = c, sr_kind = k, sr_number = n, sr_stage = stage\<rparr>" using r by (simp add: p at_or_def)
  have t: "t = join_with ''/'' (c # m # rest)" using split_on_join [of "CHR ''/''" t] p by simp
  show ?thesis
  proof (cases rest)
    case Nil
    with st have "stage = None" by (simp add: p short_stage_def)
    with cm t Nil show ?thesis
      by (intro exI [of _ "\<lparr>sr_case = c, sr_kind = k, sr_number = i, sr_stage = None\<rparr>"])
        (simp add: r wf_short_reference_def written_short_def rounded_short_def)
  next
    case (Cons x extra)
    with st obtain j where j: "stage = Some (to_double j)" "k = RunShort" "extra = []" "x = ''s'' @ show_number j"
      by (auto simp: p short_stage_iff split: option.splits)
    with cm t Cons show ?thesis
      by (intro exI [of _ "\<lparr>sr_case = c, sr_kind = k, sr_number = i, sr_stage = Some j\<rparr>"])
        (simp add: r wf_short_reference_def written_short_def rounded_short_def)
  qed
qed

lemma parse_short_id_iff:
  "parse_short_id t = Inr r \<longleftrightarrow> (\<exists>w. wf_short_reference w \<and> t = written_short w \<and> r = rounded_short w)"
  using parse_short_id_sound parse_short_id_complete by blast

lemma written_short_chars:
  assumes "wf_short_reference w"
  shows "CHR '':'' \<notin> set (written_short w) \<and> CHR ''/'' \<in> set (written_short w)"
  using assms case_id_plain [of "sr_case w"] show_number_plain
  by (auto simp: wf_short_reference_def written_short_def split: option.split)

text \<open>A short id prints as it is written where its numbers are below $2^{53}$; below $10^{21}$ it prints as something that
rounds back to it.\<close>

definition exact_short :: "short_reference \<Rightarrow> bool" where
  "exact_short r \<longleftrightarrow> sr_number r < EXACT_LIMIT \<and> (case sr_stage r of None \<Rightarrow> True | Some k \<Rightarrow> k < EXACT_LIMIT)"

definition printable_short :: "short_reference \<Rightarrow> bool" where
  "printable_short r \<longleftrightarrow> is_double (sr_number r) \<and> prints_digits (sr_number r)
     \<and> (case sr_stage r of None \<Rightarrow> True | Some k \<Rightarrow> is_double k \<and> prints_digits k)"

lemma exact_printable: "exact_short r \<Longrightarrow> printable_short r"
  by (auto simp: exact_short_def printable_short_def small_double small_prints_digits split: option.splits)

lemma exact_written: "exact_short r \<Longrightarrow> written_short r = format_short_reference r \<and> rounded_short r = r"
  by (cases r) (auto simp: exact_short_def written_short_def format_short_reference_def format_short_id_def
      format_checkpoint_short_id_def rounded_short_def split: option.splits)

lemma rounded_exact: "exact_short (rounded_short w) \<longleftrightarrow> exact_short w"
  by (auto simp: exact_short_def rounded_short_def split: option.splits)

lemma printed_written:
  assumes "printable_short r" and "wf_short_reference r"
  shows "\<exists>w. wf_short_reference w \<and> format_short_reference r = written_short w \<and> rounded_short w = r"
proof (intro exI conjI)
  let ?w = "r\<lparr>sr_number := shortest_decimal (sr_number r), sr_stage := map_option shortest_decimal (sr_stage r)\<rparr>"
  have n: "to_double (shortest_decimal (sr_number r)) = sr_number r" "number_text (sr_number r) = show_number (shortest_decimal (sr_number r))"
    using assms(1) by (simp_all add: printable_short_def shortest_decimal_double number_text_digits)
  have k: "to_double (shortest_decimal k) = k" "number_text k = show_number (shortest_decimal k)" if "sr_stage r = Some k" for k
    using assms(1) that by (simp_all add: printable_short_def shortest_decimal_double number_text_digits)
  have "0 < shortest_decimal (sr_number r)" using assms(2) n(1) by (metis to_double_pos wf_short_reference_def)
  then show "wf_short_reference ?w" using assms(2) by (simp add: wf_short_reference_def)
  show "format_short_reference r = written_short ?w"
    using n k by (cases "sr_stage r") (simp_all add: written_short_def format_short_reference_def format_short_id_def format_checkpoint_short_id_def)
  show "rounded_short ?w = r" using n k by (cases r; cases "sr_stage r") (simp_all add: rounded_short_def)
qed

fun format_reference :: "record_reference \<Rightarrow> string" where
  "format_reference (ById rid) = format_record_id rid"
| "format_reference (ByShort r) = format_short_reference r"

fun wf_reference :: "record_reference \<Rightarrow> bool" where
  "wf_reference (ById rid) = wf_record_id rid"
| "wf_reference (ByShort r) = wf_short_reference r"

fun written :: "record_reference \<Rightarrow> string" where
  "written (ById rid) = format_record_id rid"
| "written (ByShort w) = written_short w"

fun rounded :: "record_reference \<Rightarrow> record_reference" where
  "rounded (ById rid) = ById rid"
| "rounded (ByShort w) = ByShort (rounded_short w)"

fun exact_reference :: "record_reference \<Rightarrow> bool" where
  "exact_reference (ById rid) = True"
| "exact_reference (ByShort r) = exact_short r"

fun printable_reference :: "record_reference \<Rightarrow> bool" where
  "printable_reference (ById rid) = True"
| "printable_reference (ByShort r) = printable_short r"

lemma parse_record_reference_iff:
  "parse_record_reference t = Inr ref \<longleftrightarrow> (\<exists>w. wf_reference w \<and> t = written w \<and> ref = rounded w)"
proof (cases ref)
  case (ById rid)
  have "parse_record_reference t = Inr (ById rid) \<longleftrightarrow> parse_record_id t = Inr rid"
  proof (cases "CHR '':'' \<notin> set t \<and> CHR ''/'' \<in> set t")
    case True
    then show ?thesis
      using format_record_id_colon [of rid] by (auto simp: parse_record_reference_def map_sum_Inr_iff parse_record_id_iff)
  next
    case False
    then show ?thesis unfolding parse_record_reference_def by (auto simp: map_sum_Inr_iff)
  qed
  moreover have "(\<exists>w. wf_reference w \<and> t = written w \<and> ById rid = rounded w) \<longleftrightarrow> wf_record_id rid \<and> t = format_record_id rid"
    by (metis record_reference.distinct(1) record_reference.exhaust record_reference.inject(1) rounded.simps wf_reference.simps(1) written.simps(1))
  ultimately show ?thesis by (simp add: ById parse_record_id_iff)
next
  case (ByShort r)
  have "(\<exists>w. wf_reference w \<and> t = written w \<and> ByShort r = rounded w) \<longleftrightarrow>
      (\<exists>w. wf_short_reference w \<and> t = written_short w \<and> r = rounded_short w)"
    by (metis record_reference.distinct(1) record_reference.exhaust record_reference.inject(2) rounded.simps wf_reference.simps(2) written.simps(2))
  moreover have "parse_record_reference t = Inr (ByShort r) \<longleftrightarrow> parse_short_id t = Inr r"
  proof (cases "CHR '':'' \<notin> set t \<and> CHR ''/'' \<in> set t")
    case True
    then show ?thesis by (auto simp: parse_record_reference_def map_sum_Inr_iff)
  next
    case False
    then show ?thesis using written_short_chars by (auto simp: parse_record_reference_def map_sum_Inr_iff parse_short_id_iff)
  qed
  ultimately show ?thesis by (simp add: ByShort parse_short_id_iff)
qed

lemma printed_reads_back:
  assumes "printable_reference r" and "wf_reference r"
  shows "parse_record_reference (format_reference r) = Inr r"
proof (cases r)
  case (ById rid)
  with assms show ?thesis unfolding parse_record_reference_iff by (intro exI [of _ r]) simp
next
  case (ByShort s)
  with printed_written [of s] assms obtain w where "wf_short_reference w" "format_short_reference s = written_short w" "rounded_short w = s"
    by auto
  with ByShort show ?thesis unfolding parse_record_reference_iff by (intro exI [of _ "ByShort w"]) simp
qed

lemma exact_printable_reference: "exact_reference r \<Longrightarrow> printable_reference r"
  by (cases r) (simp_all add: exact_printable)

lemma exact_reference_iff:
  assumes "exact_reference r"
  shows "parse_record_reference t = Inr r \<longleftrightarrow> wf_reference r \<and> t = format_reference r"
proof
  assume "parse_record_reference t = Inr r"
  then obtain w where w: "wf_reference w" "t = written w" "r = rounded w" unfolding parse_record_reference_iff by blast
  then show "wf_reference r \<and> t = format_reference r"
    using assms exact_written by (cases w) (auto simp: rounded_exact)
next
  assume "wf_reference r \<and> t = format_reference r"
  then show "parse_record_reference t = Inr r" using printed_reads_back exact_printable_reference assms by blast
qed

lemma read_case: "parse_record_reference t = Inr (ByShort r) \<Longrightarrow> is_case_id (sr_case r)"
  by (auto simp: parse_record_reference_def map_sum_Inr_iff parse_short_id_iff rounded_short_def wf_short_reference_def split: if_splits)

subsection \<open>Properties\<close>

text \<open>The texts a reference puts into paths.\<close>

fun id_segments :: "record_id \<Rightarrow> string list" where
  "id_segments (CaseRecord c) = [c]"
| "id_segments (RunRecord r) = [r]"
| "id_segments (GroupRecord g) = [g]"
| "id_segments (ComparisonRecord d) = [d]"
| "id_segments (CheckpointRecord r s) = [r, s]"
| "id_segments (SessionAttemptRecord c u) = [c, u]"
| "id_segments (StageAttemptRecord l t) = [l, t]"
| "id_segments (RepStageRecord g r s) = [g, r, s]"
| "id_segments (RepSessionRecord g r) = [g, r]"

fun reference_segments :: "record_reference \<Rightarrow> string list" where
  "reference_segments (ById rid) = id_segments rid"
| "reference_segments (ByShort r) = [sr_case r]"

text \<open>C21: A text is read as a reference when and only when it is that reference written out, its segments well formed, and the
  numbers of a short id are then rounded to the nearest double. Below $2^{53}$ nothing is rounded: there the texts read
  are exactly those printed, so that no two name one reference. And every reference that prints its numbers in digits, as all
  do below $10^{21}$, is printed as a text that reads back as it.\<close>

theorem references_round_trip:
  "(parse_record_reference t = Inr r \<longleftrightarrow> (\<exists>w. wf_reference w \<and> t = written w \<and> r = rounded w))
   \<and> (exact_reference r \<longrightarrow> (parse_record_reference t = Inr r \<longleftrightarrow> wf_reference r \<and> t = format_reference r))
   \<and> (printable_reference r \<and> wf_reference r \<longrightarrow> parse_record_reference (format_reference r) = Inr r)"
  using parse_record_reference_iff exact_reference_iff printed_reads_back by blast

lemma references_round_trip_witness:
  "parse_record_reference (format_reference (ByShort \<lparr>sr_case = ''smoke'', sr_kind = RunShort, sr_number = 7, sr_stage = Some 2\<rparr>))
     = Inr (ByShort \<lparr>sr_case = ''smoke'', sr_kind = RunShort, sr_number = 7, sr_stage = Some 2\<rparr>)
   \<and> parse_record_reference (written (ByShort \<lparr>sr_case = ''smoke'', sr_kind = RunShort, sr_number = 9007199254740993, sr_stage = None\<rparr>))
     = Inr (ByShort \<lparr>sr_case = ''smoke'', sr_kind = RunShort, sr_number = 9007199254740992, sr_stage = None\<rparr>)"
proof
  let ?r = "ByShort \<lparr>sr_case = ''smoke'', sr_kind = RunShort, sr_number = 7, sr_stage = Some 2\<rparr>"
  let ?w = "ByShort \<lparr>sr_case = ''smoke'', sr_kind = RunShort, sr_number = 9007199254740993, sr_stage = None\<rparr>"
  have smoke: "is_case_id ''smoke''" by (simp add: case_id_start_def is_digit_def)
  have "exact_reference ?r" "wf_reference ?r"
    using smoke by (simp_all add: exact_short_def EXACT_LIMIT_def wf_short_reference_def)
  then show "parse_record_reference (format_reference ?r) = Inr ?r"
    using references_round_trip [of "format_reference ?r" ?r] by blast
  have "wf_reference ?w" using smoke by (simp add: wf_short_reference_def)
  moreover have "rounded ?w = ByShort \<lparr>sr_case = ''smoke'', sr_kind = RunShort, sr_number = 9007199254740992, sr_stage = None\<rparr>"
    by (simp add: rounded_short_def sample_rounding)
  ultimately show "parse_record_reference (written ?w)
      = Inr (ByShort \<lparr>sr_case = ''smoke'', sr_kind = RunShort, sr_number = 9007199254740992, sr_stage = None\<rparr>)"
    by (intro references_round_trip [THEN conjunct1, THEN iffD2] exI [of _ ?w]) simp
qed

text \<open>No reference a reader types leaves the runs directory: each of its segments is a single
  path segment, neither empty nor a step to the same or the parent directory.\<close>

theorem references_confined:
  assumes "parse_record_reference t = Inr r"
  shows "\<forall>s \<in> set (reference_segments r). s \<noteq> [] \<and> s \<noteq> ''.'' \<and> s \<noteq> ''..'' \<and> CHR ''/'' \<notin> set s"
proof -
  have "\<forall>s \<in> set (id_segments rid). seg_ok s" if "wf_record_id rid" for rid
    using that case_id_seg by (cases rid) auto
  moreover have "wf_record_id rid" if "r = ById rid" for rid using assms that exact_reference_iff [of r t] by simp
  moreover have "is_case_id (sr_case w)" if "r = ByShort w" for w using assms that read_case by simp
  ultimately show ?thesis using case_id_seg by (cases r) (auto simp: seg_ok_def)
qed

lemma references_confined_witness:
  "parse_record_reference ''attempt:session:a/b'' = Inr (ById (SessionAttemptRecord ''a'' ''b''))
   \<and> CHR ''/'' \<notin> set ''a'' \<and> parse_record_reference ''group:..'' = Inl (OutsideRuns ''group:..'')"
proof -
  have ok: "parse_record_reference ''attempt:session:a/b'' = Inr (ById (SessionAttemptRecord ''a'' ''b''))"
    by (simp add: exact_reference_iff seg_ok_def)
  have "parse_record_reference ''group:..'' = Inl (OutsideRuns ''group:..'')" by code_simp
  with ok references_confined [OF ok] show ?thesis by simp
qed

end
