(* ===== verification/ShortIds.thy ===== *)
theory ShortIds
  imports RecordId JsonValue "HOL-Library.Char_ord" "HOL-Library.List_Lexorder"
begin

text \<open>
  The short id registry, \<open>short-id*.ts\<close>, \<open>numbered-claims.ts\<close>, \<open>short-id-column.ts\<close> and
  \<open>record-reference-resolution.ts\<close>: claiming a number, binding a replay to it, reading the
  registry back and resolving what a reader types.

  A directory of numbered files is the list of its names with what each holds: \<open>Some\<close> a JSON
  value, or \<open>None\<close> where the text is no JSON, which is what the file of a writer killed between
  its creation and its write holds. Several processes claim at once, so claiming is a step relation
  whose steps are the file system's: list, fail to create, create, write, be killed. The numbers are
  doubles: they count up to $2^{53}$, where a next number is the same number again.
\<close>

subsection \<open>The contract\<close>

datatype named_record =
    NamedRun string
  | NamedSession string string
  | NamedStage string string
  | NamedGroup string "(string \<times> string) option"

datatype claim_subject = Named named_record | Replay string string

record short_id =
  si_case :: string
  si_kind :: short_kind
  si_number :: nat

record short_id_entry =
  se_short_id :: string
  se_record :: named_record

type_synonym files = "(string \<times> json option) list"

record registry =
  rg_claims :: files
  rg_bindings :: files

definition short_id_kind :: "named_record \<Rightarrow> short_kind" where
  "short_id_kind r = (case r of NamedGroup _ _ \<Rightarrow> GroupShort | _ \<Rightarrow> RunShort)"

definition subject_kind :: "claim_subject \<Rightarrow> short_kind" where
  "subject_kind s = (case s of Named r \<Rightarrow> short_id_kind r | Replay _ _ \<Rightarrow> RunShort)"

definition format_id :: "short_id \<Rightarrow> string" where
  "format_id i = format_short_id (si_case i) (si_kind i) (si_number i)"

subsection \<open>The schemas\<close>

definition segment_schema :: "json \<Rightarrow> string option" where
  "segment_schema j =
     (case j of
        JStr s \<Rightarrow> if s \<noteq> [] \<and> s \<noteq> ''.'' \<and> s \<noteq> ''..'' \<and> CHR ''/'' \<notin> set s then Some s else None
      | _ \<Rightarrow> None)"

definition segment_field :: "(string \<times> json) list \<Rightarrow> string \<Rightarrow> string option" where
  "segment_field kvs k = Option.bind (map_of kvs k) segment_schema"

definition two_fields :: "('a \<Rightarrow> 'a \<Rightarrow> 'b) \<Rightarrow> 'a option \<Rightarrow> 'a option \<Rightarrow> 'b option" where
  "two_fields f a b = Option.bind a (\<lambda>x. map_option (f x) b)"

definition source_schema :: "json \<Rightarrow> (string \<times> string) option" where
  "source_schema j =
     (case j of JObj kvs \<Rightarrow> two_fields Pair (segment_field kvs ''run'') (segment_field kvs ''stage'') | _ \<Rightarrow> None)"

text \<open>An optional field: absent, or what its schema reads.\<close>

definition optional_field :: "(json \<Rightarrow> 'a option) \<Rightarrow> (string \<times> json) list \<Rightarrow> string \<Rightarrow> 'a option option" where
  "optional_field schema kvs k =
     (case map_of kvs k of None \<Rightarrow> Some None | Some j \<Rightarrow> map_option Some (schema j))"

definition kind_of :: "(string \<times> json) list \<Rightarrow> string option" where
  "kind_of kvs = (case map_of kvs ''kind'' of Some (JStr k) \<Rightarrow> Some k | _ \<Rightarrow> None)"

definition stage_attempt_schema :: "json \<Rightarrow> named_record option" where
  "stage_attempt_schema j =
     (case j of
        JObj kvs \<Rightarrow>
          if kind_of kvs = Some ''attempt:stage''
          then two_fields NamedStage (segment_field kvs ''lineage'') (segment_field kvs ''timestamp'') else None
      | _ \<Rightarrow> None)"

definition claim_schema :: "json \<Rightarrow> claim_subject option" where
  "claim_schema j =
     (case j of
        JObj kvs \<Rightarrow>
          if kind_of kvs = Some ''run'' then map_option (\<lambda>r. Named (NamedRun r)) (segment_field kvs ''run'')
          else if kind_of kvs = Some ''attempt:session''
          then map_option Named (two_fields NamedSession (segment_field kvs ''caseId'') (segment_field kvs ''uuid''))
          else if kind_of kvs = Some ''attempt:stage'' then map_option Named (stage_attempt_schema j)
          else if kind_of kvs = Some ''group''
          then Option.bind (segment_field kvs ''groupId'')
                 (\<lambda>g. map_option (\<lambda>s. Named (NamedGroup g s)) (optional_field source_schema kvs ''source''))
          else if kind_of kvs = Some ''replay''
          then two_fields Replay (segment_field kvs ''run'') (segment_field kvs ''stage'')
          else None
      | _ \<Rightarrow> None)"

text \<open>\<open>serialize\<close>: \<open>JSON.stringify\<close> leaves out an optional field that is undefined.\<close>

definition serialize :: "claim_subject \<Rightarrow> json" where
  "serialize s =
     (case s of
        Named (NamedRun r) \<Rightarrow> JObj [(''kind'', JStr ''run''), (''run'', JStr r)]
      | Named (NamedSession c u) \<Rightarrow>
          JObj [(''caseId'', JStr c), (''kind'', JStr ''attempt:session''), (''uuid'', JStr u)]
      | Named (NamedStage l t) \<Rightarrow>
          JObj [(''kind'', JStr ''attempt:stage''), (''lineage'', JStr l), (''timestamp'', JStr t)]
      | Named (NamedGroup g None) \<Rightarrow> JObj [(''groupId'', JStr g), (''kind'', JStr ''group'')]
      | Named (NamedGroup g (Some (r, st))) \<Rightarrow>
          JObj [(''groupId'', JStr g), (''kind'', JStr ''group''),
                (''source'', JObj [(''run'', JStr r), (''stage'', JStr st)])]
      | Replay r st \<Rightarrow> JObj [(''kind'', JStr ''replay''), (''run'', JStr r), (''stage'', JStr st)])"

fun wf_named :: "named_record \<Rightarrow> bool" where
  "wf_named (NamedRun r) \<longleftrightarrow> seg_ok r"
| "wf_named (NamedSession c u) \<longleftrightarrow> seg_ok c \<and> seg_ok u"
| "wf_named (NamedStage l t) \<longleftrightarrow> seg_ok l \<and> seg_ok t"
| "wf_named (NamedGroup g s) \<longleftrightarrow> seg_ok g \<and> (case s of None \<Rightarrow> True | Some (r, st) \<Rightarrow> seg_ok r \<and> seg_ok st)"

fun wf_subject :: "claim_subject \<Rightarrow> bool" where
  "wf_subject (Named r) \<longleftrightarrow> wf_named r"
| "wf_subject (Replay r st) \<longleftrightarrow> seg_ok r \<and> seg_ok st"

lemma segment_schema_JStr: "segment_schema (JStr s) = (if seg_ok s then Some s else None)"
  by (auto simp: segment_schema_def seg_ok_def)

lemmas schema_defs = claim_schema_def stage_attempt_schema_def serialize_def kind_of_def segment_field_def
  two_fields_def optional_field_def source_schema_def segment_schema_JStr

lemma claim_round_trip: "claim_schema (serialize s) = (if wf_subject s then Some s else None)"
  by (cases s rule: wf_subject.cases; (cases "case s of Named r \<Rightarrow> r" rule: wf_named.cases)?)
    (auto simp: schema_defs split: option.splits named_record.splits)

lemma stage_attempt_round_trip: "wf_named (NamedStage l t) \<Longrightarrow>
    stage_attempt_schema (serialize (Named (NamedStage l t))) = Some (NamedStage l t)"
  by (simp add: schema_defs)

subsection \<open>Claiming\<close>

definition claimed_numbers :: "string list \<Rightarrow> nat list" where
  "claimed_numbers names = sort (map (\<lambda>name. to_double (read_number name)) (filter is_number_name names))"

definition highest_number :: "files \<Rightarrow> nat" where
  "highest_number fs = (case claimed_numbers (map fst fs) of [] \<Rightarrow> 0 | ns \<Rightarrow> last ns)"

text \<open>\<open>open(file, "wx")\<close>: refused where the file is there, else an empty file; then the write.\<close>

definition open_exclusively :: "string \<Rightarrow> files \<Rightarrow> files option" where
  "open_exclusively name fs = (if name \<in> fst ` set fs then None else Some (fs @ [(name, None)]))"

definition write_file :: "string \<Rightarrow> json \<Rightarrow> files \<Rightarrow> files" where
  "write_file name j fs = map (\<lambda>(n, c). if n = name then (n, Some j) else (n, c)) fs"

definition create_exclusively :: "string \<Rightarrow> json \<Rightarrow> files \<Rightarrow> files \<times> bool" where
  "create_exclusively name j fs =
     (case open_exclusively name fs of None \<Rightarrow> (fs, False) | Some fs' \<Rightarrow> (write_file name j fs', True))"

text \<open>The loop over the unclaimed numbers, for a writer nobody races; \<open>None\<close> where it does not end.\<close>

partial_function (option) claim_from :: "json \<Rightarrow> nat \<Rightarrow> files \<Rightarrow> (files \<times> nat) option" where
  "claim_from j n fs =
     (let (fs', claimed) = create_exclusively (number_text n) j fs
      in if claimed then Some (fs', n) else claim_from j (next_number n) fs)"

datatype claim_error = NotACaseId string

definition claim_short_id :: "string \<Rightarrow> claim_subject \<Rightarrow> registry \<Rightarrow> (claim_error + registry \<times> short_id) option" where
  "claim_short_id case_id s reg =
     (if \<not> is_case_id case_id then Some (Inl (NotACaseId case_id))
      else map_option (\<lambda>(fs, n). Inr (reg\<lparr>rg_claims := fs\<rparr>, \<lparr>si_case = case_id, si_kind = subject_kind s, si_number = n\<rparr>))
             (claim_from (serialize s) (next_number (highest_number (rg_claims reg))) (rg_claims reg)))"

datatype bind_error = AlreadyBound string

definition bind_replay :: "short_id \<Rightarrow> string \<Rightarrow> string \<Rightarrow> registry \<Rightarrow> bind_error + registry" where
  "bind_replay i lineage timestamp reg =
     (case create_exclusively (number_text (si_number i)) (serialize (Named (NamedStage lineage timestamp))) (rg_bindings reg) of
        (fs, True) \<Rightarrow> Inr (reg\<lparr>rg_bindings := fs\<rparr>)
      | (fs, False) \<Rightarrow> Inl (AlreadyBound (format_id i)))"

subsection \<open>Reading\<close>

definition read_registry_file :: "files \<Rightarrow> nat \<Rightarrow> (json \<Rightarrow> 'a option) \<Rightarrow> 'a option" where
  "read_registry_file fs n schema =
     (case map_of fs (number_text n) of
        None \<Rightarrow> None
      | Some None \<Rightarrow> None
      | Some (Some j) \<Rightarrow> schema j)"

definition read_entry :: "registry \<Rightarrow> nat \<Rightarrow> named_record option" where
  "read_entry reg n =
     (case read_registry_file (rg_claims reg) n claim_schema of
        None \<Rightarrow> None
      | Some (Named r) \<Rightarrow> Some r
      | Some (Replay _ _) \<Rightarrow> read_registry_file (rg_bindings reg) n stage_attempt_schema)"

definition read_registry :: "registry \<Rightarrow> (nat \<times> named_record) list" where
  "read_registry reg =
     List.map_filter (\<lambda>n. map_option (Pair n) (read_entry reg n)) (claimed_numbers (map fst (rg_claims reg)))"

definition read_short_ids :: "string \<Rightarrow> registry \<Rightarrow> short_id_entry list" where
  "read_short_ids case_id reg =
     map (\<lambda>(n, r). \<lparr>se_short_id = format_id \<lparr>si_case = case_id, si_kind = short_id_kind r, si_number = n\<rparr>, se_record = r\<rparr>)
       (read_registry reg)"

definition resolve_short_id :: "registry \<Rightarrow> short_id \<Rightarrow> named_record option" where
  "resolve_short_id reg i =
     (case read_entry reg (si_number i) of
        Some r \<Rightarrow> if short_id_kind r = si_kind i then Some r else None
      | None \<Rightarrow> None)"

text \<open>\<open>readAllShortIds\<close> and its callers read the runs directory: the cases that have a registry, each
  registry or what reading it throws, and the stages a run's manifest froze, where it has one that
  can be read.\<close>

record runs_directory =
  rd_cases :: "string + string list option"
  rd_registry :: "string \<Rightarrow> string + registry"
  rd_manifest :: "string \<Rightarrow> string list option option"

record unreadable_registry =
  ur_registry :: string
  ur_reason :: string

record short_id_registries =
  sg_entries :: "short_id_entry list"
  sg_unreadable :: "unreadable_registry list"

definition REGISTRY_DIRECTORY :: string where
  "REGISTRY_DIRECTORY = ''short-ids''"

definition read_case :: "runs_directory \<Rightarrow> string \<Rightarrow> short_id_registries \<Rightarrow> short_id_registries" where
  "read_case d case_id g =
     (case rd_registry d case_id of
        Inr reg \<Rightarrow> g\<lparr>sg_entries := sg_entries g @ read_short_ids case_id reg\<rparr>
      | Inl reason \<Rightarrow> g\<lparr>sg_unreadable := sg_unreadable g
            @ [\<lparr>ur_registry = REGISTRY_DIRECTORY @ ''/'' @ case_id, ur_reason = reason\<rparr>]\<rparr>)"

definition read_all_short_ids :: "runs_directory \<Rightarrow> short_id_registries" where
  "read_all_short_ids d =
     (case rd_cases d of
        Inl reason \<Rightarrow> \<lparr>sg_entries = [], sg_unreadable = [\<lparr>ur_registry = REGISTRY_DIRECTORY, ur_reason = reason\<rparr>]\<rparr>
      | Inr names \<Rightarrow>
          fold (read_case d) (sort (filter is_case_id (case names of None \<Rightarrow> [] | Some ns \<Rightarrow> ns)))
            \<lparr>sg_entries = [], sg_unreadable = []\<rparr>)"

definition claimed_replay_source :: "short_id_entry list \<Rightarrow> string \<Rightarrow> (string \<times> string) option" where
  "claimed_replay_source es group_id =
     (case List.find (\<lambda>e. case se_record e of NamedGroup g _ \<Rightarrow> g = group_id | _ \<Rightarrow> False) es of
        None \<Rightarrow> None
      | Some e \<Rightarrow> (case se_record e of NamedGroup _ s \<Rightarrow> s | _ \<Rightarrow> None))"

definition INITIAL_CHECKPOINT_STAGE :: string where
  "INITIAL_CHECKPOINT_STAGE = ''initial''"

definition checkpoint_stage_number :: "string list \<Rightarrow> string \<Rightarrow> nat option" where
  "checkpoint_stage_number stages stage =
     (if stage = INITIAL_CHECKPOINT_STAGE then Some 0
      else map_option Suc (find_index (\<lambda>s. s = stage) stages))"

definition checkpoint_stage_at :: "string list \<Rightarrow> nat \<Rightarrow> string option" where
  "checkpoint_stage_at stages n =
     (if n = 0 then Some INITIAL_CHECKPOINT_STAGE
      else if n - 1 < length stages then Some (stages ! (n - 1)) else None)"

definition frozen_stages :: "runs_directory \<Rightarrow> string \<Rightarrow> string list option" where
  "frozen_stages d run = (case rd_manifest d run of None \<Rightarrow> Some [] | Some stages \<Rightarrow> stages)"

definition record_id_of :: "named_record \<Rightarrow> record_id" where
  "record_id_of r =
     (case r of
        NamedRun run \<Rightarrow> RunRecord run
      | NamedSession c u \<Rightarrow> SessionAttemptRecord c u
      | NamedStage l t \<Rightarrow> StageAttemptRecord l t
      | NamedGroup g _ \<Rightarrow> GroupRecord g)"

text \<open>\<open>new Map\<close> of pairs: a later entry of the same key wins.\<close>

definition short_ids_of :: "short_id_entry list \<Rightarrow> string \<Rightarrow> string option" where
  "short_ids_of es = map_of (rev (map (\<lambda>e. (format_record_id (record_id_of (se_record e)), se_short_id e)) es))"

definition checkpoint_short_id :: "runs_directory \<Rightarrow> (string \<Rightarrow> string option) \<Rightarrow> string \<Rightarrow> string \<Rightarrow> string option" where
  "checkpoint_short_id d short_ids run stage =
     (case short_ids (format_record_id (RunRecord run)) of
        None \<Rightarrow> None
      | Some run_short_id \<Rightarrow>
          (case Option.bind (frozen_stages d run) (\<lambda>stages. checkpoint_stage_number stages stage) of
             None \<Rightarrow> None
           | Some n \<Rightarrow> Some (format_checkpoint_short_id run_short_id n)))"

subsection \<open>Resolving a reference\<close>

datatype reference_error =
    Usage usage_error
  | ManifestUnreadable string
  | NoSuchStage string nat
  | NoRecordHolds string
  | NotARun string named_record
  | RegistryUnreadable string

definition resolved_checkpoint :: "runs_directory \<Rightarrow> string \<Rightarrow> string \<Rightarrow> nat \<Rightarrow> reference_error + record_id" where
  "resolved_checkpoint d given run n =
     (case frozen_stages d run of
        None \<Rightarrow> Inl (ManifestUnreadable given)
      | Some stages \<Rightarrow>
          (case checkpoint_stage_at stages n of
             None \<Rightarrow> Inl (NoSuchStage given n)
           | Some stage \<Rightarrow> Inr (CheckpointRecord run stage)))"

definition resolved_short_id :: "runs_directory \<Rightarrow> string \<Rightarrow> short_reference \<Rightarrow> reference_error + record_id" where
  "resolved_short_id d given r =
     (case rd_registry d (sr_case r) of
        Inl reason \<Rightarrow> Inl (RegistryUnreadable reason)
      | Inr reg \<Rightarrow>
          (case resolve_short_id reg \<lparr>si_case = sr_case r, si_kind = sr_kind r, si_number = sr_number r\<rparr> of
             None \<Rightarrow> Inl (NoRecordHolds given)
           | Some named \<Rightarrow>
               (case sr_stage r of
                  None \<Rightarrow> Inr (record_id_of named)
                | Some n \<Rightarrow>
                    (case named of
                       NamedRun run \<Rightarrow> resolved_checkpoint d given run n
                     | _ \<Rightarrow> Inl (NotARun given named)))))"

definition record_id_for :: "runs_directory \<Rightarrow> string \<Rightarrow> reference_error + record_id" where
  "record_id_for d given =
     (case parse_record_reference given of
        Inl e \<Rightarrow> Inl (Usage e)
      | Inr (ById rid) \<Rightarrow> Inr rid
      | Inr (ByShort r) \<Rightarrow> resolved_short_id d given r)"

subsection \<open>Racing claims\<close>

text \<open>Where a process stands in \<open>claimShortId\<close>: before it lists the claims, at a number it has yet to
  create, between the create and the write, done, or killed.\<close>

datatype claimer = Waiting | Trying nat | Writing nat | Holding nat | Killed

record claims_state =
  cl_files :: files
  cl_claimers :: "nat \<Rightarrow> claimer"

definition set_claimer :: "nat \<Rightarrow> claimer \<Rightarrow> claims_state \<Rightarrow> claims_state" where
  "set_claimer p c s = s\<lparr>cl_claimers := (cl_claimers s)(p := c)\<rparr>"

inductive claim_step :: "(nat \<Rightarrow> claim_subject) \<Rightarrow> nat \<Rightarrow> claims_state \<Rightarrow> claims_state \<Rightarrow> bool" for subject p where
  listed: "cl_claimers s p = Waiting \<Longrightarrow>
     claim_step subject p s (set_claimer p (Trying (next_number (highest_number (cl_files s)))) s)"
| taken: "cl_claimers s p = Trying n \<Longrightarrow> open_exclusively (number_text n) (cl_files s) = None \<Longrightarrow>
     claim_step subject p s (set_claimer p (Trying (next_number n)) s)"
| opened: "cl_claimers s p = Trying n \<Longrightarrow> open_exclusively (number_text n) (cl_files s) = Some fs \<Longrightarrow>
     claim_step subject p s (set_claimer p (Writing n) (s\<lparr>cl_files := fs\<rparr>))"
| written: "cl_claimers s p = Writing n \<Longrightarrow>
     claim_step subject p s (set_claimer p (Holding n)
       (s\<lparr>cl_files := write_file (number_text n) (serialize (subject p)) (cl_files s)\<rparr>))"
| killed: "cl_claimers s p \<noteq> Killed \<Longrightarrow> (\<forall>n. cl_claimers s p \<noteq> Holding n) \<Longrightarrow>
     claim_step subject p s (set_claimer p Killed s)"

inductive_cases claim_stepE: "claim_step subject p s s'"

definition any_step :: "(nat \<Rightarrow> claim_subject) \<Rightarrow> claims_state \<Rightarrow> claims_state \<Rightarrow> bool" where
  "any_step subject s s' \<longleftrightarrow> (\<exists>p. claim_step subject p s s')"

definition claims_start :: "files \<Rightarrow> claims_state" where
  "claims_start fs = \<lparr>cl_files = fs, cl_claimers = (\<lambda>_. Waiting)\<rparr>"

text \<open>The number whose file a process created.\<close>

fun owned :: "claimer \<Rightarrow> nat option" where
  "owned (Writing n) = Some n"
| "owned (Holding n) = Some n"
| "owned _ = None"

lemma open_exclusively_Some:
  "open_exclusively name fs = Some fs' \<longleftrightarrow> map_of fs name = None \<and> fs' = fs @ [(name, None)]"
  by (auto simp: open_exclusively_def map_of_eq_None_iff)

lemma map_of_write [simp]:
  "map_of (write_file name j fs) k = (if k = name then map_option (\<lambda>_. Some j) (map_of fs k) else map_of fs k)"
  by (induction fs) (auto simp: write_file_def)

definition claims_inv :: "(nat \<Rightarrow> claim_subject) \<Rightarrow> files \<Rightarrow> claims_state \<Rightarrow> bool" where
  "claims_inv subject init s \<longleftrightarrow>
     (\<forall>p n. cl_claimers s p = Writing n \<longrightarrow> map_of (cl_files s) (number_text n) = Some None)
     \<and> (\<forall>p n. cl_claimers s p = Holding n \<longrightarrow>
          map_of (cl_files s) (number_text n) = Some (Some (serialize (subject p))))
     \<and> (\<forall>p q n m. owned (cl_claimers s p) = Some n \<and> owned (cl_claimers s q) = Some m \<and> number_text n = number_text m \<longrightarrow> p = q)
     \<and> (\<forall>p n. owned (cl_claimers s p) = Some n \<longrightarrow> map_of init (number_text n) = None)
     \<and> (\<forall>name c. map_of init name = Some c \<longrightarrow> map_of (cl_files s) name = Some c)"

lemma claims_invD:
  assumes "claims_inv subject init s"
  shows "cl_claimers s p = Writing n \<Longrightarrow> map_of (cl_files s) (number_text n) = Some None"
    and "cl_claimers s p = Holding n \<Longrightarrow> map_of (cl_files s) (number_text n) = Some (Some (serialize (subject p)))"
    and "owned (cl_claimers s p) = Some n \<Longrightarrow> owned (cl_claimers s q) = Some m \<Longrightarrow> number_text n = number_text m \<Longrightarrow> p = q"
    and "owned (cl_claimers s p) = Some n \<Longrightarrow> map_of init (number_text n) = None"
    and "map_of init name = Some c \<Longrightarrow> map_of (cl_files s) name = Some c"
  using assms unfolding claims_inv_def by (blast, blast, meson, blast, blast)

lemma owned_file:
  assumes "claims_inv subject init s" and "owned (cl_claimers s p) = Some n"
  shows "map_of (cl_files s) (number_text n) \<noteq> None"
  using assms(2) claims_invD(1,2) [OF assms(1), of p n] by (cases "cl_claimers s p") auto

lemma claims_inv_idle:
  assumes "claims_inv subject init s" and "owned c = None"
  shows "claims_inv subject init (set_claimer p c s)"
  using assms by (cases c) (auto simp: claims_inv_def set_claimer_def)

lemma claim_step_inv:
  assumes step: "claim_step subject p s s'" and inv: "claims_inv subject init s"
  shows "claims_inv subject init s'"
  using step
proof (cases rule: claim_step.cases)
  case (opened n fs)
  from opened(3) have free: "map_of (cl_files s) (number_text n) = None" and fs: "fs = cl_files s @ [(number_text n, None)]"
    by (auto simp: open_exclusively_Some)
  have other: "number_text m \<noteq> number_text n" if "owned (cl_claimers s q) = Some m" for q m
    using owned_file [OF inv that] free by auto
  have "map_of init (number_text n) = None" using claims_invD(5) [OF inv] free by (metis option.exhaust option.distinct(1))
  then show ?thesis
    using inv free
    by (auto dest: other simp: opened(1) fs claims_inv_def set_claimer_def map_add_def split: option.split)
next
  case (written n)
  have own: "owned (cl_claimers s p) = Some n" using written by simp
  have f: "map_of (cl_files s) (number_text n) = Some None" by (rule claims_invD(1) [OF inv written(2)])
  have other: "owned (cl_claimers s q) = Some m \<Longrightarrow> number_text m = number_text n \<Longrightarrow> q = p" for q m
    using claims_invD(3) [OF inv _ own] by blast
  have init: "map_of init (number_text n) = None" by (rule claims_invD(4) [OF inv own])
  show ?thesis
    using inv f init other own
    by (auto simp: written(1) claims_inv_def set_claimer_def)
qed (auto intro: claims_inv_idle inv)

lemma claims_reachable_inv:
  assumes "(any_step subject)\<^sup>*\<^sup>* (claims_start init) s"
  shows "claims_inv subject init s"
  using assms
proof (induction rule: rtranclp_induct)
  case base
  show ?case by (auto simp: claims_inv_def claims_start_def)
next
  case (step s s')
  then show ?case using claim_step_inv by (auto simp: any_step_def)
qed

subsection \<open>Numbers and directories\<close>

lemma claimed_numbers_iff:
  "n \<in> set (claimed_numbers names) \<longleftrightarrow> (\<exists>m. m \<noteq> 0 \<and> show_number m \<in> set names \<and> n = to_double m)"
proof
  assume "n \<in> set (claimed_numbers names)"
  then obtain name where "name \<in> set names" "is_number_name name" "n = to_double (read_number name)"
    by (auto simp: claimed_numbers_def)
  with read_number_pos [of name] show "\<exists>m. m \<noteq> 0 \<and> show_number m \<in> set names \<and> n = to_double m"
    by (intro exI [of _ "read_number name"]) simp
next
  assume "\<exists>m. m \<noteq> 0 \<and> show_number m \<in> set names \<and> n = to_double m"
  then obtain m where m: "m \<noteq> 0" "show_number m \<in> set names" "n = to_double (read_number (show_number m))" by auto
  then have "show_number m \<in> set (filter is_number_name names)" by (simp add: show_number_name)
  with m(3) show "n \<in> set (claimed_numbers names)" unfolding claimed_numbers_def set_sort set_map by blast
qed

lemma sorted_claimed: "sorted (claimed_numbers names)"
  by (simp add: claimed_numbers_def)

lemma claimed_le_highest:
  assumes "n \<in> set (claimed_numbers (map fst fs))"
  shows "n \<le> highest_number fs"
proof -
  obtain ns k where ns: "claimed_numbers (map fst fs) = ns @ [k]" using assms by (metis append_butlast_last_id empty_iff empty_set)
  with assms sorted_claimed [of "map fst fs"] have "n \<le> k" by (auto simp: sorted_append)
  with ns show ?thesis by (cases ns) (simp_all add: highest_number_def)
qed

lemma highest_claimed: "highest_number fs = 0 \<or> highest_number fs \<in> set (claimed_numbers (map fst fs))"
  unfolding highest_number_def by (cases "claimed_numbers (map fst fs)") (auto simp: last_in_set)

lemma highest_number_mono:
  assumes "fst ` set fs \<subseteq> fst ` set fs'"
  shows "highest_number fs \<le> highest_number fs'"
proof -
  have "set (claimed_numbers (map fst fs)) \<subseteq> set (claimed_numbers (map fst fs'))"
  proof
    fix n
    assume "n \<in> set (claimed_numbers (map fst fs))"
    then obtain m where m: "m \<noteq> 0" "show_number m \<in> fst ` set fs" "n = to_double m" unfolding claimed_numbers_iff by auto
    then have "show_number m \<in> set (map fst fs')" using assms by auto
    with m show "n \<in> set (claimed_numbers (map fst fs'))" unfolding claimed_numbers_iff by blast
  qed
  then show ?thesis using highest_claimed [of fs] claimed_le_highest [of _ fs'] by auto
qed

lemma highest_number_bound:
  assumes "show_number n \<in> fst ` set fs" and "highest_number fs < EXACT_LIMIT"
  shows "n \<le> highest_number fs"
proof (cases "n = 0")
  case False
  with assms(1) have "to_double n \<in> set (claimed_numbers (map fst fs))" by (auto simp: claimed_numbers_iff)
  then have "to_double n \<le> highest_number fs" by (rule claimed_le_highest)
  then show ?thesis using assms(2) by (metis le_less_trans to_double_exact_iff to_double_small)
qed simp

lemma next_is_free:
  assumes "highest_number fs + 1 < EXACT_LIMIT"
  shows "map_of fs (number_text (highest_number fs + 1)) = None"
  using highest_number_bound [of "highest_number fs + 1" fs] assms by (auto simp: map_of_eq_None_iff)

lemma create_fresh:
  assumes "map_of fs name = None"
  shows "create_exclusively name j fs = (fs @ [(name, Some j)], True)"
proof -
  have "write_file name j fs = fs"
    using assms by (auto simp: write_file_def map_of_eq_None_iff intro!: map_idI) (metis fst_conv image_eqI)
  with assms show ?thesis
    by (simp add: create_exclusively_def open_exclusively_Some [THEN iffD2] write_file_def)
qed

lemma claim_from_next:
  assumes "highest_number fs + 1 < EXACT_LIMIT"
  shows "claim_from j (next_number (highest_number fs)) fs
     = Some (fs @ [(number_text (highest_number fs + 1), Some j)], highest_number fs + 1)"
  by (subst claim_from.simps) (simp only: next_number_small [OF assms] create_fresh [OF next_is_free [OF assms]] Let_def split_conv if_True)

lemma claim_short_id_eq:
  "is_case_id c \<Longrightarrow> highest_number (rg_claims reg) + 1 < EXACT_LIMIT \<Longrightarrow> claim_short_id c s reg =
     Some (Inr (reg\<lparr>rg_claims := rg_claims reg @ [(number_text (highest_number (rg_claims reg) + 1), Some (serialize s))]\<rparr>,
          \<lparr>si_case = c, si_kind = subject_kind s, si_number = highest_number (rg_claims reg) + 1\<rparr>))"
  unfolding claim_short_id_def by (simp only: claim_from_next not_True_eq_False if_False option.map split_conv)

subsection \<open>A writer that goes on alone\<close>

text \<open>The numbers from \<open>n\<close> on that are taken.\<close>

definition taken_from :: "nat \<Rightarrow> files \<Rightarrow> nat set" where
  "taken_from n fs = {m. n \<le> m \<and> show_number m \<in> fst ` set fs}"

lemma taken_from_files: "finite (taken_from n fs) \<and> card (taken_from n fs) \<le> length fs"
proof -
  have sub: "show_number ` taken_from n fs \<subseteq> fst ` set fs" by (auto simp: taken_from_def)
  have inj: "inj_on show_number (taken_from n fs)" by (simp add: inj_on_def)
  have "finite (taken_from n fs)" using finite_subset [OF sub] finite_imageD [OF _ inj] by simp
  moreover have "card (taken_from n fs) \<le> card (fst ` set fs)" using card_inj_on_le [OF inj sub] by simp
  moreover have "card (fst ` set fs) \<le> length (map fst fs)" using card_length [of "map fst fs"] by simp
  ultimately show ?thesis by simp
qed

lemma taken_from_next: "show_number n \<in> fst ` set fs \<Longrightarrow> card (taken_from (n + 1) fs) < card (taken_from n fs)"
proof (rule psubset_card_mono)
  assume "show_number n \<in> fst ` set fs"
  then have "n \<in> taken_from n fs" "n \<notin> taken_from (n + 1) fs" "taken_from (n + 1) fs \<subseteq> taken_from n fs"
    by (auto simp: taken_from_def)
  then show "taken_from (n + 1) fs \<subset> taken_from n fs" by blast
qed (simp add: taken_from_files)

lemma taken_from_highest:
  assumes "highest_number fs < EXACT_LIMIT"
  shows "taken_from (highest_number fs + 1) fs = {}"
  using highest_number_bound [OF _ assms] by (fastforce simp: taken_from_def)

text \<open>While the numbers are exact, a number a writer tries is at most the one after the highest.\<close>

definition exact_room :: "claims_state \<Rightarrow> bool" where
  "exact_room s \<longleftrightarrow> highest_number (cl_files s) + 1 < EXACT_LIMIT"

definition tries_near :: "claims_state \<Rightarrow> bool" where
  "tries_near s \<longleftrightarrow>
     (exact_room s \<longrightarrow> (\<forall>p n. cl_claimers s p = Trying n \<longrightarrow> n \<le> highest_number (cl_files s) + 1))"

lemma write_file_names [simp]: "map fst (write_file name j fs) = map fst fs"
  by (auto simp: write_file_def)

lemma set_claimer_simps [simp]:
  "cl_files (set_claimer p c s) = cl_files s" "cl_claimers (set_claimer p c s) q = (if q = p then c else cl_claimers s q)"
  by (simp_all add: set_claimer_def)

lemma taken_small:
  assumes "open_exclusively (number_text n) fs = None" and "n \<le> highest_number fs + 1" and "highest_number fs + 1 < EXACT_LIMIT"
  shows "show_number n \<in> fst ` set fs \<and> n \<le> highest_number fs \<and> next_number n = n + 1"
proof -
  have n: "n < EXACT_LIMIT" using assms(2,3) by simp
  then have t: "show_number n \<in> fst ` set fs" using assms(1) by (simp add: open_exclusively_def split: if_splits)
  moreover have "n \<le> highest_number fs" using highest_number_bound [OF t] assms(3) by simp
  ultimately show ?thesis using assms(3) by (simp add: next_number_small)
qed

lemma claim_step_files:
  assumes "claim_step subject p s s'"
  shows "fst ` set (cl_files s) \<subseteq> fst ` set (cl_files s')"
  using assms
proof cases
  case (written n)
  then show ?thesis by (metis list.set_map order_refl set_claimer_simps(1) claims_state.select_convs(1) claims_state.surjective
        claims_state.update_convs(1) write_file_names)
qed (auto simp: open_exclusively_Some)

lemma claim_step_near:
  assumes step: "claim_step subject p s s'" and near: "tries_near s"
  shows "tries_near s'"
proof (cases "exact_room s'")
  case True
  have grows: "highest_number (cl_files s) \<le> highest_number (cl_files s')"
    by (rule highest_number_mono [OF claim_step_files [OF step]])
  with True have room: "exact_room s" by (simp add: exact_room_def)
  have near_s: "n \<le> highest_number (cl_files s') + 1" if "cl_claimers s q = Trying n" for q n
    using near room that grows unfolding tries_near_def by (meson add_mono_thms_linordered_semiring(3) order_trans)
  have "n \<le> highest_number (cl_files s') + 1" if t: "cl_claimers s' q = Trying n" for q n
    using step
  proof cases
    case listed
    then show ?thesis using t near_s room by (auto simp: exact_room_def next_number_small split: if_splits)
  next
    case (taken k)
    have "k \<le> highest_number (cl_files s) + 1" using near room taken(2) unfolding tries_near_def by blast
    from taken_small [OF taken(3) this] room taken t near_s show ?thesis by (auto simp: exact_room_def split: if_splits)
  next
    case (opened k fs)
    then show ?thesis using t near_s by (auto split: if_splits)
  next
    case (written k)
    then show ?thesis using t near_s by (auto split: if_splits)
  next
    case killed
    then show ?thesis using t near_s by (auto split: if_splits)
  qed
  then show ?thesis by (simp add: tries_near_def)
qed (simp add: tries_near_def)

lemma reachable_near: "(any_step subject)\<^sup>*\<^sup>* (claims_start init) s \<Longrightarrow> tries_near s"
proof (induction rule: rtranclp_induct)
  case base
  show ?case by (simp add: tries_near_def claims_start_def)
next
  case (step s s')
  then show ?case using claim_step_near by (auto simp: any_step_def)
qed

text \<open>The steps of a writer that nobody kills, and how many are left to it.\<close>

definition live_step :: "(nat \<Rightarrow> claim_subject) \<Rightarrow> nat \<Rightarrow> claims_state \<Rightarrow> claims_state \<Rightarrow> bool" where
  "live_step subject p s s' \<longleftrightarrow> claim_step subject p s s' \<and> cl_claimers s' p \<noteq> Killed"

definition has_room :: "claims_state \<Rightarrow> nat \<Rightarrow> bool" where
  "has_room s p \<longleftrightarrow>
     (case cl_claimers s p of
        Waiting \<Rightarrow> exact_room s
      | Trying n \<Rightarrow> exact_room s \<and> n \<le> highest_number (cl_files s) + 1
      | _ \<Rightarrow> True)"

definition steps_left :: "claims_state \<Rightarrow> nat \<Rightarrow> nat" where
  "steps_left s p =
     (case cl_claimers s p of
        Waiting \<Rightarrow> 3
      | Trying n \<Rightarrow> 2 + card (taken_from n (cl_files s))
      | Writing n \<Rightarrow> 1
      | _ \<Rightarrow> 0)"

lemma steps_left_files: "steps_left s p \<le> length (cl_files s) + 3"
  using taken_from_files [of _ "cl_files s"] by (auto simp: steps_left_def split: claimer.split intro: le_SucI)

lemma live_step_counts:
  assumes "live_step subject p s s'" and "has_room s p"
  shows "has_room s' p \<and> steps_left s' p < steps_left s p \<and> (\<forall>q. q \<noteq> p \<longrightarrow> cl_claimers s' q = cl_claimers s q)"
proof -
  have "claim_step subject p s s'" using assms(1) by (simp add: live_step_def)
  then show ?thesis
  proof cases
    case listed
    then have room: "exact_room s" using assms(2) by (simp add: has_room_def)
    then have "next_number (highest_number (cl_files s)) = highest_number (cl_files s) + 1"
      by (simp add: exact_room_def next_number_small)
    with listed room taken_from_highest [of "cl_files s"] show ?thesis
      by (simp add: has_room_def steps_left_def exact_room_def)
  next
    case (taken n)
    then have room: "exact_room s" "n \<le> highest_number (cl_files s) + 1" using assms(2) by (simp_all add: has_room_def)
    note small = taken_small [OF taken(3) room(2) room(1) [unfolded exact_room_def]]
    then have "card (taken_from (n + 1) (cl_files s)) < card (taken_from n (cl_files s))" using taken_from_next by blast
    with small room taken show ?thesis by (simp add: has_room_def steps_left_def exact_room_def)
  next
    case (opened n fs)
    then show ?thesis by (simp add: has_room_def steps_left_def)
  next
    case (written n)
    then show ?thesis by (simp add: has_room_def steps_left_def)
  next
    case killed
    then show ?thesis using assms(1) by (simp add: live_step_def)
  qed
qed

lemma live_steps_count:
  assumes "(live_step subject p ^^ k) s s'" and "has_room s p"
  shows "has_room s' p \<and> steps_left s' p + k \<le> steps_left s p \<and> (\<forall>q. q \<noteq> p \<longrightarrow> cl_claimers s' q = cl_claimers s q)"
  using assms
proof (induction k arbitrary: s')
  case (Suc k)
  from Suc.prems(1) obtain t where t: "(live_step subject p ^^ k) s t" "live_step subject p t s'" by auto
  from Suc.IH [OF t(1) Suc.prems(2)] live_step_counts [OF t(2)] show ?case by auto
qed simp

text \<open>Unless it is killed, a writer stops only when it holds a number.\<close>

lemma live_step_ends:
  assumes "cl_claimers s p \<noteq> Killed"
  shows "(\<nexists>s'. live_step subject p s s') \<longleftrightarrow> (\<exists>n. cl_claimers s p = Holding n)"
proof (cases "cl_claimers s p")
  case Waiting
  then show ?thesis using claim_step.listed [OF Waiting, of subject] by (force simp: live_step_def)
next
  case (Trying n)
  show ?thesis
  proof (cases "open_exclusively (number_text n) (cl_files s)")
    case None
    then show ?thesis using claim_step.taken [OF Trying None, of subject] Trying by (force simp: live_step_def)
  next
    case (Some fs)
    then show ?thesis using claim_step.opened [OF Trying Some, of subject] Trying by (force simp: live_step_def)
  qed
next
  case (Writing n)
  then show ?thesis using claim_step.written [OF Writing, of subject] by (force simp: live_step_def)
next
  case (Holding n)
  then show ?thesis by (auto simp: live_step_def elim: claim_stepE)
next
  case Killed
  with assms show ?thesis by simp
qed

lemma live_step_alive: "(live_step subject p ^^ k) s s' \<Longrightarrow> cl_claimers s p \<noteq> Killed \<Longrightarrow> cl_claimers s' p \<noteq> Killed"
  by (cases k) (auto simp: live_step_def)

text \<open>At $2^{53}$ the next number is the same one: a writer that finds it taken tries it again, for ever.\<close>

lemma claim_stalls:
  assumes "cl_claimers s p = Trying EXACT_LIMIT" and "open_exclusively (number_text EXACT_LIMIT) (cl_files s) = None"
  shows "live_step subject p s s' \<longleftrightarrow> s' = s"
proof -
  have same: "set_claimer p (Trying (next_number EXACT_LIMIT)) s = s"
    using assms(1) by (cases s) (auto simp: next_number_stalls set_claimer_def)
  show ?thesis
    using claim_step.taken [OF assms, of subject] assms
    by (auto simp: live_step_def same elim!: claim_stepE)
qed

lemma read_appended_claim:
  assumes "map_of (rg_claims reg) (number_text n) = None"
  shows "read_entry (reg\<lparr>rg_claims := rg_claims reg @ [(number_text n, Some (serialize s))]\<rparr>) m =
    (if number_text m = number_text n then (if wf_subject s
                    then (case s of Named r \<Rightarrow> Some r
                          | Replay _ _ \<Rightarrow> read_registry_file (rg_bindings reg) n stage_attempt_schema)
                    else None)
     else read_entry reg m)"
proof (cases "number_text m = number_text n")
  case True
  with assms show ?thesis
    by (simp add: read_entry_def read_registry_file_def claim_round_trip map_add_def split: claim_subject.split)
next
  case False
  then have "read_registry_file (rg_claims reg @ [(number_text n, Some (serialize s))]) m claim_schema
      = read_registry_file (rg_claims reg) m claim_schema"
    by (simp add: read_registry_file_def map_add_def split: option.split)
  with False show ?thesis by (simp add: read_entry_def split: option.split claim_subject.split)
qed

lemma bind_replay_eq:
  "map_of (rg_bindings reg) (number_text (si_number i)) = None \<Longrightarrow> bind_replay i l t reg =
     Inr (reg\<lparr>rg_bindings := rg_bindings reg @ [(number_text (si_number i), Some (serialize (Named (NamedStage l t))))]\<rparr>)"
  unfolding bind_replay_def by (simp add: create_fresh)

lemma rebind_refused:
  assumes "map_of (rg_bindings reg) (number_text (si_number i)) = Some c"
  shows "bind_replay i l t reg = Inl (AlreadyBound (format_id i))"
proof -
  have "number_text (si_number i) \<in> fst ` set (rg_bindings reg)"
    using map_of_SomeD [OF assms] by force
  then show ?thesis by (simp add: bind_replay_def create_exclusively_def open_exclusively_def)
qed

lemma listed_entries:
  "e \<in> set (read_short_ids c reg) \<longleftrightarrow>
     (\<exists>m n r. m \<noteq> 0 \<and> show_number m \<in> fst ` set (rg_claims reg) \<and> n = to_double m \<and> read_entry reg n = Some r
        \<and> e = \<lparr>se_short_id = format_short_id c (short_id_kind r) n, se_record = r\<rparr>)"
proof -
  have "e \<in> set (read_short_ids c reg) \<longleftrightarrow> (\<exists>n r. n \<in> set (claimed_numbers (map fst (rg_claims reg))) \<and> read_entry reg n = Some r
        \<and> e = \<lparr>se_short_id = format_short_id c (short_id_kind r) n, se_record = r\<rparr>)"
    by (auto simp: read_short_ids_def read_registry_def map_filter_def format_id_def image_iff split: option.splits)
  then show ?thesis unfolding claimed_numbers_iff set_map by blast
qed

lemma stage_number_at: "checkpoint_stage_number stages stage = Some n \<Longrightarrow> checkpoint_stage_at stages n = Some stage"
  by (auto simp: checkpoint_stage_number_def checkpoint_stage_at_def dest: find_index_Some split: if_splits)

lemma parse_printed_short:
  assumes "is_case_id c" and "0 < n" "is_double n" "prints_digits n"
    and "case stage of None \<Rightarrow> True | Some j \<Rightarrow> k = RunShort \<and> j < EXACT_LIMIT"
  shows "parse_record_reference (format_reference (ByShort \<lparr>sr_case = c, sr_kind = k, sr_number = n, sr_stage = stage\<rparr>))
     = Inr (ByShort \<lparr>sr_case = c, sr_kind = k, sr_number = n, sr_stage = stage\<rparr>)"
  using assms
  by (intro printed_reads_back)
    (auto simp: wf_short_reference_def printable_short_def small_double small_prints_digits split: option.splits)

text \<open>A listed id opens its record where its number prints in digits.\<close>

lemma listed_resolves:
  assumes c: "is_case_id c" and reg: "rd_registry d c = Inr reg" and e: "e \<in> set (read_short_ids c reg)"
    and digits: "\<And>n k. se_short_id e = format_short_id c k n \<Longrightarrow> prints_digits n"
  shows "record_id_for d (se_short_id e) = Inr (record_id_of (se_record e))"
    and "se_record e = NamedRun run \<Longrightarrow> k < EXACT_LIMIT \<Longrightarrow> record_id_for d (format_checkpoint_short_id (se_short_id e) k)
       = resolved_checkpoint d (format_checkpoint_short_id (se_short_id e) k) run k"
proof -
  from e obtain m n r where m: "m \<noteq> 0" "n = to_double m" "read_entry reg n = Some r"
    and e': "e = \<lparr>se_short_id = format_short_id c (short_id_kind r) n, se_record = r\<rparr>"
    by (auto simp: listed_entries)
  have n: "0 < n" "is_double n" "prints_digits n" "read_entry reg n = Some r"
    using m digits [of "short_id_kind r" n] e' by simp_all
  let ?plain = "\<lparr>sr_case = c, sr_kind = short_id_kind r, sr_number = n, sr_stage = None\<rparr>"
  have "format_reference (ByShort ?plain) = se_short_id e" by (simp add: e' format_short_reference_def)
  with parse_printed_short [OF c n(1-3), where stage = None and k = "short_id_kind r"]
  show "record_id_for d (se_short_id e) = Inr (record_id_of (se_record e))"
    by (simp add: record_id_for_def resolved_short_id_def reg resolve_short_id_def n e')
  assume "se_record e = NamedRun run" and k: "k < EXACT_LIMIT"
  then have r: "r = NamedRun run" by (simp add: e')
  let ?staged = "\<lparr>sr_case = c, sr_kind = RunShort, sr_number = n, sr_stage = Some k\<rparr>"
  have "format_reference (ByShort ?staged) = format_checkpoint_short_id (se_short_id e) k"
    by (simp add: e' r short_id_kind_def format_short_reference_def)
  with parse_printed_short [OF c n(1-3), where stage = "Some k" and k = RunShort] k
  show "record_id_for d (format_checkpoint_short_id (se_short_id e) k)
      = resolved_checkpoint d (format_checkpoint_short_id (se_short_id e) k) run k"
    by (simp add: record_id_for_def resolved_short_id_def reg resolve_short_id_def n r short_id_kind_def)
qed

subsection \<open>Properties\<close>

text \<open>C2: however the writers race, are overtaken or are killed, no two of them ever own one
  number, or two that print as the name of one file, a number owned was claimed by nobody before, the file of a writer that finished reads as
  exactly what it claimed, and no file that was there changes.\<close>

theorem racing_claims_exclusive:
  assumes "(any_step subject)\<^sup>*\<^sup>* (claims_start init) s"
  shows "(\<forall>p q n m. owned (cl_claimers s p) = Some n \<and> owned (cl_claimers s q) = Some m \<and> number_text n = number_text m \<longrightarrow> p = q)
     \<and> (\<forall>p n. cl_claimers s p = Holding n \<longrightarrow> map_of init (number_text n) = None
          \<and> read_registry_file (cl_files s) n claim_schema
            = (if wf_subject (subject p) then Some (subject p) else None))
     \<and> (\<forall>name c. map_of init name = Some c \<longrightarrow> map_of (cl_files s) name = Some c)"
proof -
  note inv = claims_reachable_inv [OF assms]
  have "map_of init (number_text n) = None
      \<and> read_registry_file (cl_files s) n claim_schema = (if wf_subject (subject p) then Some (subject p) else None)"
    if "cl_claimers s p = Holding n" for p n
    using claims_invD(2) [OF inv that] claims_invD(4) [OF inv, of p n] that
    by (simp add: read_registry_file_def claim_round_trip)
  then show ?thesis using claims_invD(3,5) [OF inv] by blast
qed

text \<open>Two writers list at once; the second finds the first number taken.\<close>

lemma racing_claims_exclusive_witness:
  "\<exists>s. (any_step (\<lambda>p. Named (NamedRun (if p = 0 then ''a'' else ''b''))))\<^sup>*\<^sup>* (claims_start []) s
     \<and> cl_claimers s 0 = Writing 1 \<and> cl_claimers s 1 = Trying 2 \<and> owned (cl_claimers s 2) \<noteq> Some 1"
proof -
  let ?sub = "\<lambda>p. Named (NamedRun (if p = (0::nat) then ''a'' else ''b''))"
  have two: "next_number 1 = 2" unfolding next_number_def one_add_one by (rule to_double_small) (simp add: EXACT_LIMIT_def)
  have h: "highest_number [] = 0" "next_number 0 = 1"
    by (simp_all add: highest_number_def claimed_numbers_def next_number_def EXACT_LIMIT_def)
  let ?s0 = "claims_start []"
  let ?s1 = "set_claimer 0 (Trying (next_number (highest_number (cl_files ?s0)))) ?s0"
  let ?s2 = "set_claimer 1 (Trying (next_number (highest_number (cl_files ?s1)))) ?s1"
  let ?s3 = "set_claimer 0 (Writing 1) (?s2\<lparr>cl_files := [(number_text 1, None)]\<rparr>)"
  let ?s4 = "set_claimer 1 (Trying (next_number 1)) ?s3"
  have s1: "any_step ?sub ?s0 ?s1" unfolding any_step_def by (rule exI [of _ 0], rule listed) (simp add: claims_start_def)
  have s2: "any_step ?sub ?s1 ?s2" unfolding any_step_def by (rule exI [of _ 1], rule listed) (simp add: claims_start_def set_claimer_def)
  have s3: "any_step ?sub ?s2 ?s3" unfolding any_step_def
    by (rule exI [of _ 0], rule opened) (simp_all add: claims_start_def set_claimer_def h two [simplified] open_exclusively_def)
  have s4: "any_step ?sub ?s3 ?s4" unfolding any_step_def
    by (rule exI [of _ 1], rule taken) (simp_all add: claims_start_def set_claimer_def h two [simplified] open_exclusively_def)
  have r: "(any_step ?sub)\<^sup>*\<^sup>* ?s0 ?s4"
    by (rule converse_rtranclp_into_rtranclp [OF s1 converse_rtranclp_into_rtranclp [OF s2
          converse_rtranclp_into_rtranclp [OF s3 r_into_rtranclp [of "any_step ?sub", OF s4]]]])
  have "cl_claimers ?s4 0 = Writing 1 \<and> cl_claimers ?s4 1 = Trying 2 \<and> cl_claimers ?s4 2 = Waiting"
    by (simp add: claims_start_def set_claimer_def h two [simplified])
  moreover have "owned (cl_claimers ?s4 0) = Some 1 \<and> owned (cl_claimers ?s4 2) = Some 1 \<longrightarrow> 0 = (2::nat)"
    using racing_claims_exclusive [OF r] by blast
  ultimately show ?thesis using r by (intro exI [of _ ?s4]) simp
qed

text \<open>C39: a writer is never stuck while the numbers are exact: from any point of the race, of all the steps it may take
  alone while nobody kills it, there are at most as many as claim files and three more, it disturbs no other
  writer, and the only point at which it has none left is that it holds a number. From $2^{53}$ on the next number may
  be the same one, and no such bound holds (\<open>claim_stalls\<close>).\<close>

theorem claim_not_stuck:
  assumes "(any_step subject)\<^sup>*\<^sup>* (claims_start init) s" and "cl_claimers s p \<noteq> Killed"
    and "highest_number (cl_files s) + 1 < 2 ^ 53" and "(live_step subject p ^^ k) s s'"
  shows "k \<le> length (cl_files s) + 3 \<and> (\<forall>q. q \<noteq> p \<longrightarrow> cl_claimers s' q = cl_claimers s q)
     \<and> ((\<nexists>s''. live_step subject p s' s'') \<longleftrightarrow> (\<exists>n. cl_claimers s' p = Holding n))"
proof -
  have "exact_room s" using assms(3) by (simp add: exact_room_def EXACT_LIMIT_def)
  then have "has_room s p" using reachable_near [OF assms(1)] by (auto simp: has_room_def tries_near_def split: claimer.split)
  note live_steps_count [OF assms(4) this]
  moreover have "(\<nexists>s''. live_step subject p s' s'') \<longleftrightarrow> (\<exists>n. cl_claimers s' p = Holding n)"
    by (rule live_step_ends [OF live_step_alive [OF assms(4,2)]])
  ultimately show ?thesis using steps_left_files [of s p] by auto
qed

lemma claim_not_stuck_witness:
  "\<exists>s'. live_step (\<lambda>_. Named (NamedRun ''a'')) 0 (claims_start []) s' \<and> cl_claimers s' 0 = Trying 1
     \<and> (\<exists>s''. live_step (\<lambda>_. Named (NamedRun ''a'')) 0 s' s'')"
proof -
  let ?sub = "\<lambda>_ :: nat. Named (NamedRun ''a'')"
  have h: "highest_number [] = 0" "next_number 0 = 1"
    using next_number_small [of 0] by (simp_all add: highest_number_def claimed_numbers_def EXACT_LIMIT_def)
  let ?s = "set_claimer 0 (Trying 1) (claims_start [])"
  have step: "live_step ?sub 0 (claims_start []) ?s"
    using claim_step.listed [of "claims_start []" 0 ?sub] h by (simp add: live_step_def claims_start_def)
  then have "(live_step ?sub 0 ^^ Suc 0) (claims_start []) ?s" by (rule relpowp_Suc_I [OF relpowp_0_I])
  then have "(\<nexists>s''. live_step ?sub 0 ?s s'') \<longleftrightarrow> (\<exists>n. cl_claimers ?s 0 = Holding n)"
    using claim_not_stuck [of ?sub "[]" "claims_start []" 0 "Suc 0" ?s] h(1) by (simp add: claims_start_def)
  then have "\<exists>s''. live_step ?sub 0 ?s s''" by simp
  with step show ?thesis by (intro exI [of _ ?s]) simp
qed

text \<open>A claim takes the number after the highest; the id it answers resolves to the claimed record
  and not under the other letter, no other number changes, a replay's id names nothing until its
  record is bound, then that record, and a second binding is refused.\<close>

theorem claim_resolves:
  assumes "is_case_id c" and "wf_subject s" and "wf_named (NamedStage l t)"
    and "map_of (rg_bindings reg) (number_text (highest_number (rg_claims reg) + 1)) = None"
    and "highest_number (rg_claims reg) + 1 < EXACT_LIMIT"
  shows "\<exists>reg' i. claim_short_id c s reg = Some (Inr (reg', i)) \<and> si_number i = highest_number (rg_claims reg) + 1
     \<and> (\<forall>j. is_double (si_number j) \<and> si_number j \<noteq> si_number i \<longrightarrow> resolve_short_id reg' j = resolve_short_id reg j)
     \<and> (case s of
          Named r \<Rightarrow> resolve_short_id reg' i = Some r
            \<and> (\<forall>k. k \<noteq> si_kind i \<longrightarrow> resolve_short_id reg' (i\<lparr>si_kind := k\<rparr>) = None)
        | Replay _ _ \<Rightarrow> resolve_short_id reg' i = None
            \<and> (\<exists>reg''. bind_replay i l t reg' = Inr reg''
                 \<and> resolve_short_id reg'' i = Some (NamedStage l t)
                 \<and> bind_replay i l t reg'' = Inl (AlreadyBound (format_id i))))"
proof -
  let ?n = "highest_number (rg_claims reg) + 1"
  let ?i = "\<lparr>si_case = c, si_kind = subject_kind s, si_number = ?n\<rparr>"
  let ?reg = "reg\<lparr>rg_claims := rg_claims reg @ [(number_text ?n, Some (serialize s))]\<rparr>"
  let ?bound = "?reg\<lparr>rg_bindings := rg_bindings reg @ [(number_text ?n, Some (serialize (Named (NamedStage l t))))]\<rparr>"
  note free = next_is_free [OF assms(5)]
  note read = read_appended_claim [OF free, where s = s]
  have claim: "claim_short_id c s reg = Some (Inr (?reg, ?i))" by (rule claim_short_id_eq [OF assms(1,5)])
  have other: "\<forall>j. is_double (si_number j) \<and> si_number j \<noteq> si_number ?i \<longrightarrow> resolve_short_id ?reg j = resolve_short_id reg j"
  proof (intro allI impI)
    fix j :: short_id
    assume "is_double (si_number j) \<and> si_number j \<noteq> si_number ?i"
    then have "number_text (si_number j) \<noteq> number_text ?n" using number_text_same [OF _ assms(5)] by simp
    then have "read_entry ?reg (si_number j) = read_entry reg (si_number j)" unfolding read by simp
    then show "resolve_short_id ?reg j = resolve_short_id reg j" by (simp add: resolve_short_id_def)
  qed
  have this_one: "case s of
          Named r \<Rightarrow> resolve_short_id ?reg ?i = Some r
            \<and> (\<forall>k. k \<noteq> si_kind ?i \<longrightarrow> resolve_short_id ?reg (?i\<lparr>si_kind := k\<rparr>) = None)
        | Replay _ _ \<Rightarrow> resolve_short_id ?reg ?i = None
            \<and> (\<exists>reg''. bind_replay ?i l t ?reg = Inr reg''
                 \<and> resolve_short_id reg'' ?i = Some (NamedStage l t)
                 \<and> bind_replay ?i l t reg'' = Inl (AlreadyBound (format_id ?i)))"
  proof (cases s)
    case (Named r)
    then show ?thesis
      using assms(2) read [unfolded Named] by (simp add: resolve_short_id_def subject_kind_def)
  next
    case (Replay run st)
    have none: "resolve_short_id ?reg ?i = None"
      using assms(2,4) read [unfolded Replay] by (simp add: resolve_short_id_def Replay read_registry_file_def)
    have bind: "bind_replay ?i l t ?reg = Inr ?bound"
      using assms(4) bind_replay_eq [of ?reg ?i l t] by simp
    have "read_entry ?bound ?n = Some (NamedStage l t)"
      using assms(2-4) claim_round_trip [of s] free
      by (simp add: read_entry_def read_registry_file_def Replay map_add_def stage_attempt_round_trip)
    then have "resolve_short_id ?bound ?i = Some (NamedStage l t)"
      by (simp add: resolve_short_id_def Replay subject_kind_def short_id_kind_def)
    moreover have "bind_replay ?i l t ?bound = Inl (AlreadyBound (format_id ?i))"
      using assms(4) by (intro rebind_refused) (simp add: map_add_def)
    ultimately show ?thesis using none bind Replay by auto
  qed
  show ?thesis by (intro exI [of _ ?reg] exI [of _ ?i] conjI claim other this_one) simp
qed

lemma claim_resolves_witness:
  "\<exists>reg' i. claim_short_id ''smoke'' (Replay ''r'' ''build'') \<lparr>rg_claims = [], rg_bindings = []\<rparr> = Some (Inr (reg', i))
     \<and> resolve_short_id reg' i = None"
  using claim_resolves [of "''smoke''" "Replay ''r'' ''build''" "''l''" "''t''" "\<lparr>rg_claims = [], rg_bindings = []\<rparr>"]
  by (force simp: seg_ok_def case_id_start_def is_digit_def highest_number_def claimed_numbers_def EXACT_LIMIT_def)

text \<open>Every short id a listing prints, its number in digits as all are below $10^{21}$, opens the record it stands beside, and
  the label printed for a checkpoint of a listed run opens that checkpoint.\<close>

theorem listed_ids_open:
  assumes "is_case_id c" and "rd_registry d c = Inr reg" and "e \<in> set (read_short_ids c reg)"
    and "\<forall>n k. se_short_id e = format_short_id c k n \<longrightarrow> prints_digits n"
    and "\<forall>run stages. frozen_stages d run = Some stages \<longrightarrow> length stages < EXACT_LIMIT"
  shows "record_id_for d (se_short_id e) = Inr (record_id_of (se_record e))
     \<and> (\<forall>run stage label. se_record e = NamedRun run
          \<and> checkpoint_short_id d [format_record_id (RunRecord run) \<mapsto> se_short_id e] run stage = Some label
          \<longrightarrow> record_id_for d label = Inr (CheckpointRecord run stage))"
proof (intro conjI allI impI)
  show "record_id_for d (se_short_id e) = Inr (record_id_of (se_record e))" by (rule listed_resolves(1) [OF assms(1-3)]) (use assms(4) in blast)
next
  fix run stage label
  assume a: "se_record e = NamedRun run
    \<and> checkpoint_short_id d [format_record_id (RunRecord run) \<mapsto> se_short_id e] run stage = Some label"
  then obtain stages n where f: "frozen_stages d run = Some stages" "checkpoint_stage_number stages stage = Some n"
    and label: "label = format_checkpoint_short_id (se_short_id e) n"
    by (auto simp: checkpoint_short_id_def split: option.splits bind_splits)
  have "n \<le> length stages" using f(2) by (auto simp: checkpoint_stage_number_def split: if_splits dest!: find_index_Some)
  then have "n < EXACT_LIMIT" using assms(5) f(1) by fastforce
  with listed_resolves(2) [OF assms(1-3), of run n] assms(4) a
  have "record_id_for d label = resolved_checkpoint d label run n" unfolding label by blast
  then show "record_id_for d label = Inr (CheckpointRecord run stage)"
    using f stage_number_at by (simp add: resolved_checkpoint_def)
qed

definition sample_registry :: registry where
  "sample_registry = \<lparr>rg_claims = [(number_text 1, Some (serialize (Named (NamedRun ''a''))))], rg_bindings = []\<rparr>"

lemma listed_ids_open_witness:
  "record_id_for \<lparr>rd_cases = Inr None, rd_registry = (\<lambda>_. Inr sample_registry), rd_manifest = (\<lambda>_. None)\<rparr>
     (format_short_id ''smoke'' RunShort 1) = Inr (RunRecord ''a'')"
proof -
  let ?d = "\<lparr>rd_cases = Inr None, rd_registry = (\<lambda>_. Inr sample_registry), rd_manifest = (\<lambda>_. None)\<rparr>"
  have "read_entry sample_registry 1 = Some (NamedRun ''a'')"
    by (simp add: read_entry_def read_registry_file_def sample_registry_def claim_round_trip seg_ok_def)
  then have "\<lparr>se_short_id = format_short_id ''smoke'' RunShort 1, se_record = NamedRun ''a''\<rparr>
      \<in> set (read_short_ids ''smoke'' sample_registry)"
    unfolding listed_entries
    by (intro exI [of _ "1::nat"] exI [of _ "NamedRun ''a''"]) (simp add: sample_registry_def short_id_kind_def EXACT_LIMIT_def)
  moreover have "prints_digits n" if "format_short_id ''smoke'' RunShort 1 = format_short_id ''smoke'' k n" for k n
  proof -
    have "number_text n = number_text 1" using that by (auto simp: format_short_id_def split: if_splits)
    then have "number_text n = show_number 1" by (simp add: EXACT_LIMIT_def)
    then show ?thesis by (rule digits_prints)
  qed
  ultimately have "record_id_for ?d (format_short_id ''smoke'' RunShort 1) = Inr (record_id_of (NamedRun ''a''))"
    using listed_ids_open [of "''smoke''" ?d sample_registry "\<lparr>se_short_id = format_short_id ''smoke'' RunShort 1, se_record = NamedRun ''a''\<rparr>"]
    by (simp add: case_id_start_def is_digit_def frozen_stages_def EXACT_LIMIT_def)
  then show ?thesis by (simp add: record_id_of_def)
qed

end
