(* ===== verification/ConfirmationResources.thy ===== *)
theory ConfirmationResources
  imports ClaudeEnvelope Decimal "HOL-Library.Multiset"
begin

text \<open>
  What the repetitions of a confirmation consumed: the calls of each role summed per repetition and
  reported as sorted distributions (\<open>confirmation-resource-report.ts\<close>,
  \<open>confirmation-resource-metrics.ts\<close>, \<open>confirmation-resource-contract.ts\<close>), and the total of a session
  command with its preflight. Numbers are reals. The record of durations per stage is a map, so the
  order of its keys is not modelled.
\<close>

subsection \<open>Roles and metrics\<close>

datatype call_role = WorkerCall | ProductOwnerCall | StageJudgeCall | FinalJudgeCall

definition CALL_ROLES :: "call_role list" where
  "CALL_ROLES = [WorkerCall, ProductOwnerCall, StageJudgeCall, FinalJudgeCall]"

text \<open>One value for each of the five metrics: a sum, a distribution, later a summary or an estimate.\<close>

record 'a resource_metrics =
  rm_cost :: 'a
  rm_input :: 'a
  rm_output :: 'a
  rm_cache_read :: 'a
  rm_cache_write :: 'a

record call_evidence =
  cl_role :: call_role
  cl_metrics :: call_metrics

datatype resource_status = CompleteCalls "call_evidence list" | MissingCalls "call_evidence list" "string list"

record resource_rep =
  rp_metrics :: resource_status
  rp_worker_steps :: nat
  rp_elapsed :: real
  rp_stages :: "(string \<times> real option) list"

definition empty_metric_distributions :: "real list resource_metrics" where
  "empty_metric_distributions = \<lparr>rm_cost = [], rm_input = [], rm_output = [], rm_cache_read = [], rm_cache_write = []\<rparr>"

definition add_call :: "real resource_metrics \<Rightarrow> call_metrics \<Rightarrow> real resource_metrics" where
  "add_call t m =
     \<lparr>rm_cost = rm_cost t + m_cost_usd m, rm_input = rm_input t + real (m_input_tokens m),
      rm_output = rm_output t + real (m_output_tokens m), rm_cache_read = rm_cache_read t + real (m_cache_read_tokens m),
      rm_cache_write = rm_cache_write t + real (m_cache_write_tokens m)\<rparr>"

definition sum_call_metrics :: "call_evidence list \<Rightarrow> call_role option \<Rightarrow> real resource_metrics" where
  "sum_call_metrics calls role =
     foldl (\<lambda>t c. if role = None \<or> role = Some (cl_role c) then add_call t (cl_metrics c) else t)
       \<lparr>rm_cost = 0, rm_input = 0, rm_output = 0, rm_cache_read = 0, rm_cache_write = 0\<rparr> calls"

definition append_metric_distributions ::
    "real list resource_metrics \<Rightarrow> real resource_metrics \<Rightarrow> real list resource_metrics" where
  "append_metric_distributions d m =
     \<lparr>rm_cost = rm_cost d @ [rm_cost m], rm_input = rm_input d @ [rm_input m], rm_output = rm_output d @ [rm_output m],
      rm_cache_read = rm_cache_read d @ [rm_cache_read m], rm_cache_write = rm_cache_write d @ [rm_cache_write m]\<rparr>"

definition sort_metric_distributions :: "real list resource_metrics \<Rightarrow> real list resource_metrics" where
  "sort_metric_distributions d =
     \<lparr>rm_cost = sort (rm_cost d), rm_input = sort (rm_input d), rm_output = sort (rm_output d),
      rm_cache_read = sort (rm_cache_read d), rm_cache_write = sort (rm_cache_write d)\<rparr>"

subsection \<open>\<open>ResourceMeasurements\<close>\<close>

record resource_measurements =
  ms_per_role :: "call_role \<Rightarrow> real list resource_metrics"
  ms_total :: "real list resource_metrics"
  ms_worker_turns :: "real list"
  ms_rep_elapsed :: "real list"
  ms_stage_elapsed :: "string \<Rightarrow> real list option"
  ms_complete_reps :: nat

record resource_report =
  rt_complete_reps :: nat
  rt_makespan :: real
  rt_missing_reps :: nat
  rt_per_role :: "call_role \<Rightarrow> real list resource_metrics"
  rt_rep_elapsed :: "real list"
  rt_stage_elapsed :: "string \<Rightarrow> real list option"
  rt_total :: "real list resource_metrics"
  rt_worker_turns :: "real list"

definition new_measurements :: "string list \<Rightarrow> resource_measurements" where
  "new_measurements declared =
     \<lparr>ms_per_role = (\<lambda>_. empty_metric_distributions), ms_total = empty_metric_distributions, ms_worker_turns = [],
      ms_rep_elapsed = [], ms_stage_elapsed = foldl (\<lambda>d s. d(s \<mapsto> [])) (\<lambda>_. None) declared, ms_complete_reps = 0\<rparr>"

definition record_calls :: "call_evidence list \<Rightarrow> resource_measurements \<Rightarrow> resource_measurements" where
  "record_calls calls st =
     st\<lparr>ms_per_role := foldl (\<lambda>p role. p(role := append_metric_distributions (p role) (sum_call_metrics calls (Some role))))
          (ms_per_role st) CALL_ROLES,
        ms_total := append_metric_distributions (ms_total st) (sum_call_metrics calls None)\<rparr>"

definition record_stage_elapsed ::
    "(string \<Rightarrow> real list option) \<Rightarrow> string \<times> real option \<Rightarrow> (string \<Rightarrow> real list option)" where
  "record_stage_elapsed d s =
     (case (d (fst s), snd s) of (Some durations, Some elapsed) \<Rightarrow> d(fst s \<mapsto> durations @ [elapsed]) | _ \<Rightarrow> d)"

definition record_elapsed_times :: "'a resource_rep_scheme \<Rightarrow> resource_measurements \<Rightarrow> resource_measurements" where
  "record_elapsed_times rep st =
     st\<lparr>ms_worker_turns := ms_worker_turns st @ [real (rp_worker_steps rep)],
        ms_rep_elapsed := ms_rep_elapsed st @ [rp_elapsed rep],
        ms_stage_elapsed := foldl record_stage_elapsed (ms_stage_elapsed st) (rp_stages rep)\<rparr>"

definition observe_rep :: "resource_measurements \<Rightarrow> 'a resource_rep_scheme \<Rightarrow> resource_measurements" where
  "observe_rep st rep =
     (case rp_metrics rep of
        MissingCalls _ _ \<Rightarrow> st
      | CompleteCalls calls \<Rightarrow>
          record_elapsed_times rep (record_calls calls (st\<lparr>ms_complete_reps := ms_complete_reps st + 1\<rparr>)))"

definition measurements_report :: "resource_measurements \<Rightarrow> real \<Rightarrow> nat \<Rightarrow> resource_report" where
  "measurements_report st makespan requested =
     \<lparr>rt_complete_reps = ms_complete_reps st, rt_makespan = makespan, rt_missing_reps = requested - ms_complete_reps st,
      rt_per_role = (\<lambda>role. sort_metric_distributions (ms_per_role st role)), rt_rep_elapsed = sort (ms_rep_elapsed st),
      rt_stage_elapsed = (\<lambda>stage. map_option sort (ms_stage_elapsed st stage)),
      rt_total = sort_metric_distributions (ms_total st), rt_worker_turns = sort (ms_worker_turns st)\<rparr>"

definition build_resource_report :: "string list \<Rightarrow> 'a resource_rep_scheme list \<Rightarrow> real \<Rightarrow> resource_report" where
  "build_resource_report declared reps makespan =
     measurements_report (foldl observe_rep (new_measurements declared) reps) makespan (length reps)"

subsection \<open>The total of a session command\<close>

datatype preflight = PreflightComplete call_metrics | PreflightMissing string

datatype command_total = TotalComplete "real resource_metrics" | TotalMissing "string list"

definition sum_metric_values :: "real list \<Rightarrow> real" where
  "sum_metric_values xs = foldl (+) 0 xs"

definition build_session_command_total :: "resource_report \<Rightarrow> preflight \<Rightarrow> string + command_total" where
  "build_session_command_total r p =
     (let missing = (case p of PreflightMissing m \<Rightarrow> [m] | PreflightComplete _ \<Rightarrow> [])
            @ (if rt_missing_reps r = 0 then [] else [show_number (rt_missing_reps r) @ '' rep call metrics''])
      in if length missing > 0 then Inr (TotalMissing missing)
         else (case p of
                 PreflightMissing _ \<Rightarrow> Inl ''Complete session total requires preflight metrics''
               | PreflightComplete m \<Rightarrow>
                   Inr (TotalComplete
                     \<lparr>rm_cost = m_cost_usd m + sum_metric_values (rm_cost (rt_total r)),
                      rm_input = real (m_input_tokens m) + sum_metric_values (rm_input (rt_total r)),
                      rm_output = real (m_output_tokens m) + sum_metric_values (rm_output (rt_total r)),
                      rm_cache_read = real (m_cache_read_tokens m) + sum_metric_values (rm_cache_read (rt_total r)),
                      rm_cache_write = real (m_cache_write_tokens m) + sum_metric_values (rm_cache_write (rt_total r))\<rparr>)))"

subsection \<open>What is measured\<close>

text \<open>The five metrics by name, so that one statement says the same of each.\<close>

datatype metric = Cost | InputTokens | OutputTokens | CacheReadTokens | CacheWriteTokens

fun metric_of :: "metric \<Rightarrow> 'a resource_metrics \<Rightarrow> 'a" where
  "metric_of Cost m = rm_cost m"
| "metric_of InputTokens m = rm_input m"
| "metric_of OutputTokens m = rm_output m"
| "metric_of CacheReadTokens m = rm_cache_read m"
| "metric_of CacheWriteTokens m = rm_cache_write m"

definition call_value :: "metric \<Rightarrow> call_metrics \<Rightarrow> real" where
  "call_value k m =
     (case k of Cost \<Rightarrow> m_cost_usd m | InputTokens \<Rightarrow> real (m_input_tokens m) | OutputTokens \<Rightarrow> real (m_output_tokens m)
      | CacheReadTokens \<Rightarrow> real (m_cache_read_tokens m) | CacheWriteTokens \<Rightarrow> real (m_cache_write_tokens m))"

definition calls_value :: "metric \<Rightarrow> call_evidence list \<Rightarrow> real" where
  "calls_value k calls = sum_list (map (\<lambda>c. call_value k (cl_metrics c)) calls)"

definition complete_calls :: "'a resource_rep_scheme list \<Rightarrow> call_evidence list list" where
  "complete_calls reps =
     List.map_filter (\<lambda>r. case rp_metrics r of CompleteCalls calls \<Rightarrow> Some calls | MissingCalls _ _ \<Rightarrow> None) reps"

definition stage_durations :: "'a resource_rep_scheme list \<Rightarrow> string \<Rightarrow> real list" where
  "stage_durations reps stage =
     concat (map (\<lambda>r. case rp_metrics r of
        CompleteCalls _ \<Rightarrow> List.map_filter (\<lambda>(s, e). if s = stage then e else None) (rp_stages r)
      | MissingCalls _ _ \<Rightarrow> []) reps)"

lemma metric_of_ops [simp]:
  "metric_of k empty_metric_distributions = []"
  "metric_of k (append_metric_distributions d m) = metric_of k d @ [metric_of k m]"
  "metric_of k (sort_metric_distributions d) = sort (metric_of k d)"
  "metric_of k (add_call t c) = metric_of k t + call_value k c"
  by (cases k; simp add: empty_metric_distributions_def append_metric_distributions_def sort_metric_distributions_def
      add_call_def call_value_def)+

lemma sum_call_metrics_value:
  "metric_of k (sum_call_metrics calls role) = calls_value k (filter (\<lambda>c. role = None \<or> role = Some (cl_role c)) calls)"
proof -
  have "metric_of k (foldl (\<lambda>t c. if role = None \<or> role = Some (cl_role c) then add_call t (cl_metrics c) else t) t calls)
      = metric_of k t + calls_value k (filter (\<lambda>c. role = None \<or> role = Some (cl_role c)) calls)" for t
    by (induction calls arbitrary: t) (simp_all add: calls_value_def)
  then show ?thesis unfolding sum_call_metrics_def by (cases k) simp_all
qed

lemma sum_role_value [simp]:
  "metric_of k (sum_call_metrics calls None) = calls_value k calls"
  "metric_of k (sum_call_metrics calls (Some role)) = calls_value k (filter (\<lambda>c. cl_role c = role) calls)"
  by (simp_all add: sum_call_metrics_value eq_commute)

lemma record_calls_simps [simp]:
  "ms_per_role (record_calls calls st) role
     = append_metric_distributions (ms_per_role st role) (sum_call_metrics calls (Some role))"
  "ms_total (record_calls calls st) = append_metric_distributions (ms_total st) (sum_call_metrics calls None)"
  "ms_stage_elapsed (record_calls calls st) = ms_stage_elapsed st"
  "ms_complete_reps (record_calls calls st) = ms_complete_reps st"
  "ms_rep_elapsed (record_calls calls st) = ms_rep_elapsed st"
  "ms_worker_turns (record_calls calls st) = ms_worker_turns st"
  by (cases role; simp add: record_calls_def CALL_ROLES_def)+

lemma record_stages:
  "foldl record_stage_elapsed d ss stage
     = map_option (\<lambda>xs. xs @ List.map_filter (\<lambda>(s, e). if s = stage then e else None) ss) (d stage)"
proof (induction ss rule: rev_induct)
  case Nil
  show ?case by (cases "d stage") (simp_all add: List.map_filter_def)
next
  case (snoc s ss)
  then show ?case
    by (cases s) (auto simp: record_stage_elapsed_def map_filter_snoc split: option.splits)
qed

lemma declared_stages: "foldl (\<lambda>d s. d(s \<mapsto> [])) (\<lambda>_. None) declared stage = (if stage \<in> set declared then Some [] else None)"
  by (induction declared rule: rev_induct) auto

text \<open>The measurements after some repetitions.\<close>

lemma observed_measurements:
  fixes declared :: "string list"
  defines "m \<equiv> \<lambda>reps. foldl observe_rep (new_measurements declared) reps"
  shows "ms_complete_reps (m reps) = length (complete_calls reps)
     \<and> metric_of k (ms_total (m reps)) = map (calls_value k) (complete_calls reps)
     \<and> metric_of k (ms_per_role (m reps) role)
       = map (\<lambda>calls. calls_value k (filter (\<lambda>c. cl_role c = role) calls)) (complete_calls reps)
     \<and> ms_stage_elapsed (m reps) stage = (if stage \<in> set declared then Some (stage_durations reps stage) else None)
     \<and> length (ms_rep_elapsed (m reps)) = length (complete_calls reps)
     \<and> length (ms_worker_turns (m reps)) = length (complete_calls reps)"
proof (induction reps rule: rev_induct)
  case Nil
  show ?case
    by (simp add: m_def new_measurements_def complete_calls_def stage_durations_def List.map_filter_def declared_stages)
next
  case (snoc rep reps)
  have m: "m (reps @ [rep]) = observe_rep (m reps) rep" by (simp add: m_def)
  show ?case
  proof (cases "rp_metrics rep")
    case (CompleteCalls calls)
    then have "complete_calls (reps @ [rep]) = complete_calls reps @ [calls]"
      "stage_durations (reps @ [rep]) stage = stage_durations reps stage
        @ List.map_filter (\<lambda>(s, e). if s = stage then e else None) (rp_stages rep)"
      by (simp_all add: complete_calls_def map_filter_snoc stage_durations_def)
    with snoc CompleteCalls show ?thesis
      by (simp add: m observe_rep_def record_elapsed_times_def record_stages)
  next
    case (MissingCalls calls missing)
    with snoc show ?thesis
      by (simp add: m observe_rep_def complete_calls_def map_filter_snoc stage_durations_def)
  qed
qed

lemma sum_over_roles: "(\<Sum>role\<leftarrow>CALL_ROLES. calls_value k (filter (\<lambda>c. cl_role c = role) calls)) = calls_value k calls"
proof (induction calls)
  case (Cons c calls)
  then show ?case by (cases "cl_role c") (simp_all add: CALL_ROLES_def calls_value_def)
qed (simp add: CALL_ROLES_def calls_value_def)

lemma report_values:
  fixes declared :: "string list" and reps :: "'a resource_rep_scheme list" and makespan :: real
  defines "r \<equiv> build_resource_report declared reps makespan"
  shows "rt_complete_reps r = length (complete_calls reps)"
    and "rt_missing_reps r = length reps - length (complete_calls reps)"
    and "metric_of k (rt_total r) = sort (map (calls_value k) (complete_calls reps))"
    and "metric_of k (rt_per_role r role)
       = sort (map (\<lambda>calls. calls_value k (filter (\<lambda>c. cl_role c = role) calls)) (complete_calls reps))"
    and "rt_stage_elapsed r stage = (if stage \<in> set declared then Some (sort (stage_durations reps stage)) else None)"
    and "length (rt_rep_elapsed r) = length (complete_calls reps)"
    and "length (rt_worker_turns r) = length (complete_calls reps)"
  using observed_measurements [of declared reps]
  by (simp_all add: r_def build_resource_report_def measurements_report_def)

lemma missing_reps_iff:
  "length (complete_calls reps) \<le> length reps"
  "length (complete_calls reps) = length reps \<longleftrightarrow> list_all (\<lambda>r. \<exists>calls. rp_metrics r = CompleteCalls calls) reps"
proof (induction reps)
  case (Cons r reps)
  { case 1 with Cons show ?case by (auto simp: complete_calls_def List.map_filter_simps split: resource_status.splits) }
  { case 2 with Cons show ?case by (auto simp: complete_calls_def List.map_filter_simps split: resource_status.splits) }
qed (simp_all add: complete_calls_def List.map_filter_def)

lemma sum_over_roles_runs:
  "(\<Sum>role\<leftarrow>CALL_ROLES. sum_list (map (\<lambda>calls. calls_value k (filter (\<lambda>c. cl_role c = role) calls)) runs))
     = sum_list (map (calls_value k) runs)"
proof (induction runs)
  case (Cons calls runs)
  then show ?case using sum_over_roles [of k calls] by (simp add: sum_list_addf)
qed (simp add: CALL_ROLES_def)

subsection \<open>Properties\<close>

text \<open>The resources of a group are those of its repetitions whose metrics are complete, the others
  being counted as missing. Each distribution holds, in increasing order, one value per such
  repetition: the sum of its calls, of one role or of all; so what the roles consumed adds up to the
  total. A declared stage has the durations recorded for it, and no other stage has any.\<close>

theorem resource_report_exact:
  "let r = build_resource_report declared reps makespan; runs = complete_calls reps
   in rt_complete_reps r = length runs \<and> rt_missing_reps r + length runs = length reps
      \<and> metric_of k (rt_total r) = sort (map (calls_value k) runs)
      \<and> metric_of k (rt_per_role r role) = sort (map (\<lambda>calls. calls_value k (filter (\<lambda>c. cl_role c = role) calls)) runs)
      \<and> sum_list (metric_of k (rt_total r)) = (\<Sum>role\<leftarrow>CALL_ROLES. sum_list (metric_of k (rt_per_role r role)))
      \<and> rt_stage_elapsed r stage = (if stage \<in> set declared then Some (sort (stage_durations reps stage)) else None)"
  using missing_reps_iff(1) [of reps] sum_over_roles_runs [of k "complete_calls reps"]
  by (simp add: Let_def report_values sum_list_sort)

text \<open>C36: a session command has a total exactly when its preflight and every repetition reported their
  metrics, and it is then the preflight's and every call's added up; otherwise it names what is
  missing. The error that guards this is never thrown.\<close>

theorem session_total_exact:
  "let result = build_session_command_total (build_resource_report declared reps makespan) p;
       missing = length reps - length (complete_calls reps);
       named = (if missing = 0 then [] else [show_number missing @ '' rep call metrics''])
   in case p of
        PreflightMissing s \<Rightarrow> result = Inr (TotalMissing (s # named))
      | PreflightComplete m \<Rightarrow>
          if list_all (\<lambda>r. \<exists>calls. rp_metrics r = CompleteCalls calls) reps
          then \<exists>t. result = Inr (TotalComplete t)
                 \<and> metric_of k t = call_value k m + sum_list (map (calls_value k) (complete_calls reps))
          else result = Inr (TotalMissing named) \<and> named \<noteq> []"
proof -
  let ?r = "build_resource_report declared reps makespan"
  have s: "sum_metric_values (metric_of k (rt_total ?r)) = sum_list (map (calls_value k) (complete_calls reps))" for k
  proof -
    show ?thesis by (simp add: sum_metric_values_def foldl_plus report_values sum_list_sort)
  qed
  have total: "metric_of k \<lparr>rm_cost = m_cost_usd m + sum_metric_values (rm_cost (rt_total ?r)),
                      rm_input = real (m_input_tokens m) + sum_metric_values (rm_input (rt_total ?r)),
                      rm_output = real (m_output_tokens m) + sum_metric_values (rm_output (rt_total ?r)),
                      rm_cache_read = real (m_cache_read_tokens m) + sum_metric_values (rm_cache_read (rt_total ?r)),
                      rm_cache_write = real (m_cache_write_tokens m) + sum_metric_values (rm_cache_write (rt_total ?r))\<rparr>
      = call_value k m + sum_list (map (calls_value k) (complete_calls reps))" for m
    unfolding s [symmetric] by (cases k) (simp_all add: call_value_def)
  have "length reps - length (complete_calls reps) = 0
      \<longleftrightarrow> list_all (\<lambda>r. \<exists>calls. rp_metrics r = CompleteCalls calls) reps"
    using missing_reps_iff [of reps] by (metis diff_is_0_eq le_antisym order_refl)
  with total show ?thesis
    by (cases p) (auto simp: build_session_command_total_def report_values Let_def)
qed

end
