(* ===== verification/ComparisonEstimate.thy ===== *)
theory ComparisonEstimate
  imports Grades
begin

text \<open>
  What a confirmation and a comparison report of their repetitions: \<open>confirmation-report.ts\<close> (how
  often a stage passed), \<open>comparison-estimator.ts\<close> (paired and single-case estimates, Wilson
  intervals) and \<open>comparison-quality.ts\<close> (the three contrasts of the quality report).

  The numbers are reals, so what is proved is what the formulas say; the rounding of doubles is not
  modelled. A thrown error is \<open>Inl\<close> of a \<open>report_error\<close>.
\<close>

datatype comparison_arm = Baseline | Control | Candidate

record 'a arms =
  ar_baseline :: 'a
  ar_control :: 'a
  ar_candidate :: 'a

fun arm_of :: "'a arms \<Rightarrow> comparison_arm \<Rightarrow> 'a" where
  "arm_of a Baseline = ar_baseline a"
| "arm_of a Control = ar_control a"
| "arm_of a Candidate = ar_candidate a"

datatype report_error =
    NoReps
  | MissingStage string
  | MissingOutcome string
  | NoSummary string
  | NoFinalOutcome
  | NoObservations
  | TooFewCases
  | NoRepInArm
  | ResourcesUnavailable string comparison_arm
  | NoResourceCase

subsection \<open>Reliability\<close>

datatype missing_status = ExecutionFailed | MetricsMissing | NotReached

datatype stage_status = StageJudged letter stage_verdict | StageMissing missing_status

record stage_outcome =
  so_stage :: string
  so_status :: stage_status

datatype final_outcome = FinalJudged pass_fail | FinalMissing missing_status

record reliability_rep =
  rr_metrics_complete :: bool
  rr_stages :: "stage_outcome list"
  rr_final :: final_outcome

datatype grade = LetterGrade letter | VerdictGrade pass_fail

datatype outcome_status = Judged grade | Unjudged missing_status

record reliability_outcome =
  ro_name :: string
  ro_status :: outcome_status
  ro_successful :: bool

record reliability_summary =
  rs_name :: string
  rs_requested :: nat
  rs_attempted :: nat
  rs_not_reached :: nat
  rs_failed :: nat
  rs_successful :: nat
  rs_grades :: "grade \<Rightarrow> nat option"
  rs_success_rate :: real
  rs_standard_error :: real
  rs_pass_k :: real

definition reliability_summary_named :: "reliability_summary list \<Rightarrow> string \<Rightarrow> report_error + reliability_summary" where
  "reliability_summary_named quality name =
     (case List.find (\<lambda>s. rs_name s = name) quality of None \<Rightarrow> Inl (NoSummary name) | Some s \<Rightarrow> Inr s)"

definition count_grade :: "(grade \<Rightarrow> nat option) \<Rightarrow> reliability_outcome \<Rightarrow> (grade \<Rightarrow> nat option)" where
  "count_grade grades r =
     (case ro_status r of
        Judged g \<Rightarrow> grades(g \<mapsto> (case grades g of None \<Rightarrow> 0 | Some n \<Rightarrow> n) + 1)
      | Unjudged _ \<Rightarrow> grades)"

definition graded_outcomes_distribution :: "reliability_outcome list \<Rightarrow> (grade \<Rightarrow> nat option)" where
  "graded_outcomes_distribution rs = foldl count_grade (\<lambda>_. None) rs"

definition summarize_reliability_outcomes ::
    "string \<Rightarrow> reliability_outcome list \<Rightarrow> report_error + reliability_summary" where
  "summarize_reliability_outcomes name rs =
     (let requested = length rs
      in if requested = 0 then Inl NoReps
         else (let attempted = length (filter (\<lambda>r. ro_status r \<noteq> Unjudged NotReached) rs);
                   successful = length (filter ro_successful rs);
                   success_rate = real successful / real requested
               in Inr \<lparr>rs_name = name, rs_requested = requested, rs_attempted = attempted,
                       rs_not_reached = requested - attempted, rs_failed = attempted - successful,
                       rs_successful = successful, rs_grades = graded_outcomes_distribution rs,
                       rs_success_rate = success_rate,
                       rs_standard_error = sqrt (success_rate * (1 - success_rate) / real requested),
                       rs_pass_k = success_rate ^ requested\<rparr>))"

definition stage_observation :: "string \<Rightarrow> stage_outcome \<Rightarrow> bool \<Rightarrow> reliability_outcome" where
  "stage_observation name r metrics_complete =
     (case so_status r of
        StageMissing m \<Rightarrow> \<lparr>ro_name = name, ro_status = Unjudged m, ro_successful = False\<rparr>
      | StageJudged g v \<Rightarrow>
          \<lparr>ro_name = name, ro_status = Judged (LetterGrade g),
           ro_successful = (metrics_complete \<and> v = CONTINUE \<and> (g = GradeA \<or> g = GradeB))\<rparr>)"

definition final_observation :: "final_outcome \<Rightarrow> bool \<Rightarrow> reliability_outcome" where
  "final_observation r metrics_complete =
     (case r of
        FinalMissing m \<Rightarrow> \<lparr>ro_name = ''final'', ro_status = Unjudged m, ro_successful = False\<rparr>
      | FinalJudged v \<Rightarrow>
          \<lparr>ro_name = ''final'', ro_status = Judged (VerdictGrade v), ro_successful = (metrics_complete \<and> v = PASS)\<rparr>)"

definition build_reliability_outcomes ::
    "string list \<Rightarrow> reliability_rep \<Rightarrow> report_error + reliability_outcome list" where
  "build_reliability_outcomes declared rep =
     bind_res (map_res (\<lambda>stage.
         case List.find (\<lambda>r. so_stage r = stage) (rr_stages rep) of
           None \<Rightarrow> Inl (MissingStage stage)
         | Some r \<Rightarrow> Inr (stage_observation stage r (rr_metrics_complete rep))) declared)
       (\<lambda>stages. Inr (stages @ [final_observation (rr_final rep) (rr_metrics_complete rep)]))"

definition outcome_at :: "string \<Rightarrow> nat \<Rightarrow> reliability_outcome list \<Rightarrow> report_error + reliability_outcome" where
  "outcome_at name i rep = (if i < length rep then Inr (rep ! i) else Inl (MissingOutcome name))"

definition build_reliability_report ::
    "string list \<Rightarrow> reliability_rep list \<Rightarrow> report_error + reliability_summary list" where
  "build_reliability_report declared reps =
     bind_res (map_res (build_reliability_outcomes declared) reps) (\<lambda>rows.
       map_res (\<lambda>(i, name). bind_res (map_res (outcome_at name i) rows) (summarize_reliability_outcomes name))
         (enumerate 0 (declared @ [''final''])))"

subsection \<open>Estimates\<close>

definition mean :: "real list \<Rightarrow> report_error + real" where
  "mean xs =
     (if xs = [] then Inl NoObservations else Inr (foldl (+) 0 (sort xs) / real (length xs)))"

record paired_observations =
  po_case :: string
  po_minuend :: "real list"
  po_subtrahend :: "real list"

record paired_estimate =
  pe_case_deltas :: "(string \<times> real) list"
  pe_mean_delta :: real
  pe_standard_error :: real

definition MINIMUM_PAIRED_CASES :: nat where
  "MINIMUM_PAIRED_CASES = 2"

definition case_delta :: "paired_observations \<Rightarrow> report_error + string \<times> real" where
  "case_delta c =
     bind_res (mean (po_minuend c)) (\<lambda>m. bind_res (mean (po_subtrahend c)) (\<lambda>s. Inr (po_case c, m - s)))"

definition build_paired_estimate :: "paired_observations list \<Rightarrow> report_error + paired_estimate" where
  "build_paired_estimate cases =
     (if length cases < MINIMUM_PAIRED_CASES then Inl TooFewCases
      else bind_res (map_res case_delta cases) (\<lambda>deltas.
             bind_res (mean (map snd deltas)) (\<lambda>mean_delta.
               bind_res (mean (map (\<lambda>d. (snd d - mean_delta)\<^sup>2) deltas)) (\<lambda>mean_square.
                 let sample_variance = mean_square * (real (length deltas) / real (length deltas - 1))
                 in Inr \<lparr>pe_case_deltas = deltas, pe_mean_delta = mean_delta,
                         pe_standard_error = sqrt (sample_variance / real (length deltas))\<rparr>))))"

definition WILSON_Z :: real where
  "WILSON_Z = 1959963985 / 1000000000"

record proportion_interval =
  pi_low :: real
  pi_high :: real

definition wilson_interval :: "nat \<Rightarrow> nat \<Rightarrow> proportion_interval" where
  "wilson_interval successful requested =
     (let rate = real successful / real requested;
          z_squared_over_n = WILSON_Z\<^sup>2 / real requested;
          center = (rate + z_squared_over_n / 2) / (1 + z_squared_over_n);
          half_width = WILSON_Z * sqrt (rate * (1 - rate) / real requested + z_squared_over_n / (4 * real requested))
            / (1 + z_squared_over_n)
      in \<lparr>pi_low = max 0 (center - half_width), pi_high = min 1 (center + half_width)\<rparr>)"

record arm_proportion =
  ap_successful :: nat
  ap_requested :: nat
  ap_rate :: real
  ap_interval :: proportion_interval

record proportion_estimate =
  pp_minuend :: arm_proportion
  pp_subtrahend :: arm_proportion
  pp_delta :: real
  pp_standard_error :: real

definition arm_proportion_of :: "nat \<Rightarrow> nat \<Rightarrow> report_error + arm_proportion" where
  "arm_proportion_of successful requested =
     (if requested < 1 then Inl NoRepInArm
      else Inr \<lparr>ap_successful = successful, ap_requested = requested,
                ap_rate = real successful / real requested, ap_interval = wilson_interval successful requested\<rparr>)"

definition build_single_case_proportion_estimate ::
    "reliability_summary \<Rightarrow> reliability_summary \<Rightarrow> report_error + proportion_estimate" where
  "build_single_case_proportion_estimate m s =
     bind_res (arm_proportion_of (rs_successful m) (rs_requested m)) (\<lambda>minuend.
       bind_res (arm_proportion_of (rs_successful s) (rs_requested s)) (\<lambda>subtrahend.
         let variance = ap_rate minuend * (1 - ap_rate minuend) / real (ap_requested minuend)
               + ap_rate subtrahend * (1 - ap_rate subtrahend) / real (ap_requested subtrahend)
         in Inr \<lparr>pp_minuend = minuend, pp_subtrahend = subtrahend,
                 pp_delta = ap_rate minuend - ap_rate subtrahend, pp_standard_error = sqrt variance\<rparr>))"

record arm_mean =
  am_values :: "real list"
  am_mean :: real

datatype spread = NoObservedSpread | Estimated real

record mean_estimate =
  me_minuend :: arm_mean
  me_subtrahend :: arm_mean
  me_delta :: real
  me_spread :: spread

definition arm_mean_of :: "real list \<Rightarrow> report_error + arm_mean" where
  "arm_mean_of xs =
     (if xs = [] then Inl NoRepInArm else bind_res (mean xs) (\<lambda>m. Inr \<lparr>am_values = xs, am_mean = m\<rparr>))"

definition arm_sample_variance :: "arm_mean \<Rightarrow> real" where
  "arm_sample_variance a =
     (if length (am_values a) < 2 then 0
      else foldl (+) 0 (map (\<lambda>v. (v - am_mean a)\<^sup>2) (am_values a)) / real (length (am_values a) - 1))"

definition mean_spread :: "arm_mean \<Rightarrow> arm_mean \<Rightarrow> spread" where
  "mean_spread m s =
     (let variance = arm_sample_variance m / real (length (am_values m))
            + arm_sample_variance s / real (length (am_values s))
      in if variance = 0 then NoObservedSpread else Estimated (sqrt variance))"

definition build_single_case_mean_estimate :: "real list \<Rightarrow> real list \<Rightarrow> report_error + mean_estimate" where
  "build_single_case_mean_estimate ms ss =
     bind_res (arm_mean_of ms) (\<lambda>minuend. bind_res (arm_mean_of ss) (\<lambda>subtrahend.
       Inr \<lparr>me_minuend = minuend, me_subtrahend = subtrahend, me_delta = am_mean minuend - am_mean subtrahend,
            me_spread = mean_spread minuend subtrahend\<rparr>))"

subsection \<open>The quality of a comparison\<close>

datatype comparison_mode = PipelineMode | StageMode | SessionMode

record comparison_contract =
  ct_mode :: comparison_mode
  ct_declared :: "string list"
  ct_reps :: nat

datatype rep_final = RepFinal final_outcome | NotApplicable

record quality_rep =
  qr_metrics_complete :: bool
  qr_stages :: "stage_outcome list"
  qr_final :: rep_final

record 'r rep_case =
  rc_case :: string
  rc_arms :: "'r list arms"

record quality_case =
  qc_case :: string
  qc_arms :: "reliability_summary list arms"

record quality_contrast_estimate =
  qe_name :: string
  qe_success_rate :: paired_estimate
  qe_pass_k :: paired_estimate

record single_quality_estimate =
  sq_name :: string
  sq_success_rate :: proportion_estimate
  sq_pass_minuend :: real
  sq_pass_subtrahend :: real
  sq_pass_delta :: real

text \<open>\<open>COMPARISON_CONTRASTS\<close> and the record of one value for each.\<close>

record 'c contrasts =
  cs_candidate_minus_baseline :: 'c
  cs_candidate_minus_control :: 'c
  cs_baseline_minus_control :: 'c

definition contrasts_of :: "(comparison_arm \<Rightarrow> comparison_arm \<Rightarrow> 'e + 'c) \<Rightarrow> 'e + 'c contrasts" where
  "contrasts_of f =
     bind_res (f Baseline Control) (\<lambda>bc. bind_res (f Candidate Baseline) (\<lambda>cb. bind_res (f Candidate Control) (\<lambda>cc.
       Inr \<lparr>cs_candidate_minus_baseline = cb, cs_candidate_minus_control = cc, cs_baseline_minus_control = bc\<rparr>)))"

datatype quality_report =
    PairedQuality "quality_case list" "quality_contrast_estimate list contrasts"
  | SingleQuality "quality_case list" "single_quality_estimate list contrasts"

definition comparison_reliability_rep :: "comparison_contract \<Rightarrow> quality_rep \<Rightarrow> report_error + reliability_rep" where
  "comparison_reliability_rep c rep =
     (if ct_mode c = StageMode \<or> ct_mode c = SessionMode
      then Inr \<lparr>rr_metrics_complete = qr_metrics_complete rep, rr_stages = qr_stages rep, rr_final = FinalMissing NotReached\<rparr>
      else case qr_final rep of
             NotApplicable \<Rightarrow> Inl NoFinalOutcome
           | RepFinal f \<Rightarrow>
               Inr \<lparr>rr_metrics_complete = qr_metrics_complete rep, rr_stages = qr_stages rep, rr_final = f\<rparr>)"

definition arm_quality :: "comparison_contract \<Rightarrow> quality_rep list \<Rightarrow> report_error + reliability_summary list" where
  "arm_quality c reps =
     bind_res (map_res (comparison_reliability_rep c) reps) (\<lambda>inputs.
       bind_res (build_reliability_report (ct_declared c) inputs) (\<lambda>quality.
         Inr (if ct_mode c = StageMode \<or> ct_mode c = SessionMode then take (length (ct_declared c)) quality else quality)))"

definition named_pair ::
    "string \<Rightarrow> comparison_arm \<Rightarrow> comparison_arm \<Rightarrow> quality_case \<Rightarrow>
     report_error + string \<times> reliability_summary \<times> reliability_summary" where
  "named_pair name minuend subtrahend c =
     bind_res (reliability_summary_named (arm_of (qc_arms c) minuend) name) (\<lambda>m.
       bind_res (reliability_summary_named (arm_of (qc_arms c) subtrahend) name) (\<lambda>s. Inr (qc_case c, m, s)))"

definition pair_observations ::
    "(reliability_summary \<Rightarrow> real) \<Rightarrow> string \<times> reliability_summary \<times> reliability_summary \<Rightarrow> paired_observations" where
  "pair_observations f p = (case p of (c, m, s) \<Rightarrow> \<lparr>po_case = c, po_minuend = [f m], po_subtrahend = [f s]\<rparr>)"

definition build_quality_contrast ::
    "string list \<Rightarrow> quality_case list \<Rightarrow> comparison_arm \<Rightarrow> comparison_arm \<Rightarrow>
     report_error + quality_contrast_estimate list" where
  "build_quality_contrast names cases minuend subtrahend =
     map_res (\<lambda>name. bind_res (map_res (named_pair name minuend subtrahend) cases) (\<lambda>summaries.
         bind_res (build_paired_estimate (map (pair_observations rs_pass_k) summaries)) (\<lambda>pass_k.
           bind_res (build_paired_estimate (map (pair_observations rs_success_rate) summaries)) (\<lambda>success_rate.
             Inr \<lparr>qe_name = name, qe_success_rate = success_rate, qe_pass_k = pass_k\<rparr>))))
       names"

definition build_single_case_quality_contrast ::
    "string list \<Rightarrow> quality_case \<Rightarrow> comparison_arm \<Rightarrow> comparison_arm \<Rightarrow>
     report_error + single_quality_estimate list" where
  "build_single_case_quality_contrast names c minuend subtrahend =
     map_res (\<lambda>name. bind_res (named_pair name minuend subtrahend c) (\<lambda>(_, m, s).
         bind_res (build_single_case_proportion_estimate m s) (\<lambda>rate.
           Inr \<lparr>sq_name = name, sq_success_rate = rate, sq_pass_minuend = rs_pass_k m,
                sq_pass_subtrahend = rs_pass_k s, sq_pass_delta = rs_pass_k m - rs_pass_k s\<rparr>)))
       names"

definition quality_case_of :: "comparison_contract \<Rightarrow> quality_rep rep_case \<Rightarrow> report_error + quality_case" where
  "quality_case_of c rc =
     bind_res (arm_quality c (ar_baseline (rc_arms rc))) (\<lambda>b. bind_res (arm_quality c (ar_candidate (rc_arms rc))) (\<lambda>ca.
       bind_res (arm_quality c (ar_control (rc_arms rc))) (\<lambda>co.
         Inr \<lparr>qc_case = rc_case rc, qc_arms = \<lparr>ar_baseline = b, ar_control = co, ar_candidate = ca\<rparr>\<rparr>)))"

definition quality_names :: "comparison_contract \<Rightarrow> string list" where
  "quality_names c = ct_declared c @ (if ct_mode c = PipelineMode then [''final''] else [])"

definition single_case_quality_report ::
    "quality_case list \<Rightarrow> string list \<Rightarrow> quality_case \<Rightarrow> report_error + quality_report" where
  "single_case_quality_report cases names c =
     bind_res (contrasts_of (build_single_case_quality_contrast names c)) (\<lambda>cs. Inr (SingleQuality cases cs))"

definition build_comparison_quality ::
    "comparison_contract \<Rightarrow> quality_rep rep_case list \<Rightarrow> report_error + quality_report" where
  "build_comparison_quality c rcs =
     bind_res (map_res (quality_case_of c) rcs) (\<lambda>cases.
       case cases of
         [only] \<Rightarrow> single_case_quality_report cases (quality_names c) only
       | _ \<Rightarrow> bind_res (contrasts_of (build_quality_contrast (quality_names c) cases)) (\<lambda>cs.
                Inr (PairedQuality cases cs)))"

subsection \<open>Means and deltas\<close>

lemma mean_eq: "mean xs = Inr m \<longleftrightarrow> xs \<noteq> [] \<and> m = sum_list xs / real (length xs)"
  by (auto simp: mean_def foldl_plus sum_list_sort)

lemma mean_single [simp]: "mean [x] = Inr x"
  by (simp add: mean_eq)

lemma build_paired_Inr:
  assumes "build_paired_estimate cases = Inr e"
  shows "map_res case_delta cases = Inr (pe_case_deltas e) \<and> length cases \<ge> 2
     \<and> pe_mean_delta e = sum_list (map snd (pe_case_deltas e)) / real (length (pe_case_deltas e))"
  using assms
  by (auto simp: build_paired_estimate_def MINIMUM_PAIRED_CASES_def res_simps mean_eq Let_def split: if_splits)

text \<open>The deltas of one observation in each arm.\<close>

lemma single_observation_deltas:
  "map_res case_delta (map (pair_observations f) ps) = Inr (map (\<lambda>(c, m, s). (c, f m - f s)) ps)"
  by (induction ps) (auto simp: case_delta_def pair_observations_def)

subsection \<open>The Wilson interval\<close>

text \<open>Completing the square: a proportion is within the interval when its score is within \<open>z\<close>.\<close>

lemma wilson_square:
  fixes r p a z n :: real
  assumes a: "a = z\<^sup>2 / n" and n: "0 < n"
  shows "(r - p)\<^sup>2 \<le> z\<^sup>2 * (p * (1 - p)) / n \<longleftrightarrow>
     ((1 + a) * p - (r + a / 2))\<^sup>2 \<le> z\<^sup>2 * (r * (1 - r) / n + a / (4 * n))"
proof -
  have pos: "0 < 1 + a" using a n by (simp add: add_pos_nonneg)
  have l: "z\<^sup>2 * (p * (1 - p)) / n = a * (p * (1 - p))" by (simp add: a)
  have rr: "z\<^sup>2 * (r * (1 - r) / n + a / (4 * n)) = a * (r * (1 - r) + a / 4)"
  proof -
    have "r * (1 - r) / n + a / (4 * n) = (r * (1 - r) + a / 4) / n" by (simp add: add_divide_distrib)
    then show ?thesis by (simp add: a)
  qed
  have id: "((1 + a) * p - (r + a / 2))\<^sup>2 - a * (r * (1 - r) + a / 4)
      = (1 + a) * ((r - p)\<^sup>2 - a * (p * (1 - p)))"
    by (simp add: power2_eq_square algebra_simps)
  have "(r - p)\<^sup>2 \<le> a * (p * (1 - p)) \<longleftrightarrow> (1 + a) * ((r - p)\<^sup>2 - a * (p * (1 - p))) \<le> 0"
    using pos by (simp add: mult_le_0_iff)
  then show ?thesis unfolding l rr using id by linarith
qed

lemma wilson_within:
  fixes r p a z n :: real
  assumes a: "a = z\<^sup>2 / n" and n: "0 < n" and z: "0 < z" and r: "0 \<le> r" "r \<le> 1"
  defines "w \<equiv> sqrt (r * (1 - r) / n + a / (4 * n))"
  shows "(r - p)\<^sup>2 \<le> z\<^sup>2 * (p * (1 - p)) / n \<longleftrightarrow>
     (r + a / 2) / (1 + a) - z * w / (1 + a) \<le> p \<and> p \<le> (r + a / 2) / (1 + a) + z * w / (1 + a)"
proof -
  have a0: "0 \<le> a" using a n by simp
  have inside: "0 \<le> r * (1 - r) / n + a / (4 * n)" using r n a0 by simp
  have w0: "0 \<le> z * w" using z inside by (simp add: w_def)
  have "z\<^sup>2 * (r * (1 - r) / n + a / (4 * n)) = (z * w)\<^sup>2"
    using inside by (simp add: w_def power_mult_distrib)
  then have "(r - p)\<^sup>2 \<le> z\<^sup>2 * (p * (1 - p)) / n \<longleftrightarrow> ((1 + a) * p - (r + a / 2))\<^sup>2 \<le> (z * w)\<^sup>2"
    by (simp only: wilson_square [OF a n])
  also have "\<dots> \<longleftrightarrow> \<bar>(1 + a) * p - (r + a / 2)\<bar> \<le> z * w"
    using w0 by (metis abs_le_square_iff abs_of_nonneg)
  also have "\<dots> \<longleftrightarrow> r + a / 2 - z * w \<le> (1 + a) * p \<and> (1 + a) * p \<le> r + a / 2 + z * w" by linarith
  also have "\<dots> \<longleftrightarrow> (r + a / 2 - z * w) / (1 + a) \<le> p \<and> p \<le> (r + a / 2 + z * w) / (1 + a)"
    using a0 by (simp add: pos_divide_le_eq pos_le_divide_eq mult.commute)
  finally show ?thesis by (simp add: diff_divide_distrib add_divide_distrib)
qed

lemma wilson_interval_score:
  assumes "successful \<le> requested" and "0 < requested" and p: "0 \<le> p" "p \<le> 1"
  shows "pi_low (wilson_interval successful requested) \<le> p \<and> p \<le> pi_high (wilson_interval successful requested)
     \<longleftrightarrow> (real successful / real requested - p)\<^sup>2 \<le> WILSON_Z\<^sup>2 * (p * (1 - p)) / real requested"
proof -
  let ?n = "real requested" and ?r = "real successful / real requested"
  have n: "0 < ?n" "0 \<le> ?r" "?r \<le> 1" "0 < WILSON_Z" using assms by (simp_all add: WILSON_Z_def)
  show ?thesis
    using wilson_within [OF refl n(1,4,2,3), of p] p
    by (simp add: wilson_interval_def Let_def)
qed

text \<open>The interval of a success rate lies in the unit interval around the rate, and it is the exact
  Wilson score interval: a proportion lies in it just when its distance to the rate is at most
  \<open>z\<close> standard errors of that proportion.\<close>

theorem wilson_exact:
  assumes "successful \<le> requested" and "0 < requested"
  shows "0 \<le> pi_low (wilson_interval successful requested)
     \<and> pi_low (wilson_interval successful requested) \<le> real successful / real requested
     \<and> real successful / real requested \<le> pi_high (wilson_interval successful requested)
     \<and> pi_high (wilson_interval successful requested) \<le> 1
     \<and> (\<forall>p. 0 \<le> p \<and> p \<le> 1 \<longrightarrow>
          (pi_low (wilson_interval successful requested) \<le> p \<and> p \<le> pi_high (wilson_interval successful requested)
           \<longleftrightarrow> \<bar>real successful / real requested - p\<bar> \<le> WILSON_Z * sqrt (p * (1 - p) / real requested)))"
proof -
  let ?r = "real successful / real requested"
  have r: "0 \<le> ?r" "?r \<le> 1" using assms by simp_all
  have "(?r - p)\<^sup>2 \<le> WILSON_Z\<^sup>2 * (p * (1 - p)) / real requested
      \<longleftrightarrow> \<bar>?r - p\<bar> \<le> WILSON_Z * sqrt (p * (1 - p) / real requested)"
    if "0 \<le> p" "p \<le> 1" for p
  proof -
    have s: "0 \<le> p * (1 - p) / real requested" using that by simp
    have z: "0 \<le> WILSON_Z" by (simp add: WILSON_Z_def)
    have "WILSON_Z\<^sup>2 * (p * (1 - p)) / real requested = (WILSON_Z * sqrt (p * (1 - p) / real requested))\<^sup>2"
      using s by (simp add: power_mult_distrib)
    moreover have "0 \<le> WILSON_Z * sqrt (p * (1 - p) / real requested)" using s z by simp
    ultimately show ?thesis by (metis abs_le_square_iff abs_of_nonneg)
  qed
  moreover have "0 \<le> WILSON_Z\<^sup>2 * (?r * (1 - ?r)) / real requested" using r by simp
  ultimately show ?thesis
    using wilson_interval_score [OF assms] wilson_interval_score [OF assms r]
    by (simp add: wilson_interval_def Let_def)
qed

lemma wilson_exact_witness:
  "0 \<le> pi_low (wilson_interval 0 3) \<and> pi_low (wilson_interval 0 3) \<le> 0 \<and> pi_high (wilson_interval 0 3) < 1"
proof -
  have z: "WILSON_Z * sqrt (1 * (1 - 1) / real 3) < \<bar>real 0 / real 3 - 1\<bar>" by (simp add: WILSON_Z_def)
  note w = wilson_exact [of 0 3, simplified]
  have "\<not> (pi_low (wilson_interval 0 3) \<le> 1 \<and> 1 \<le> pi_high (wilson_interval 0 3))"
    using w [THEN conjunct2, THEN conjunct2, THEN conjunct2, THEN conjunct2, THEN spec, of 1] by simp
  with w show ?thesis by linarith
qed

subsection \<open>What a reliability report says\<close>

definition stage_passed :: "reliability_rep \<Rightarrow> string \<Rightarrow> bool" where
  "stage_passed rep stage \<longleftrightarrow> rr_metrics_complete rep
     \<and> (case List.find (\<lambda>r. so_stage r = stage) (rr_stages rep) of
          None \<Rightarrow> False
        | Some r \<Rightarrow> so_status r = StageJudged GradeA CONTINUE \<or> so_status r = StageJudged GradeB CONTINUE)"

definition final_passed :: "reliability_rep \<Rightarrow> bool" where
  "final_passed rep \<longleftrightarrow> rr_metrics_complete rep \<and> rr_final rep = FinalJudged PASS"

definition passed_at :: "string list \<Rightarrow> nat \<Rightarrow> reliability_rep \<Rightarrow> bool" where
  "passed_at declared i rep = (if i < length declared then stage_passed rep (declared ! i) else final_passed rep)"

definition reached_when_successful :: "reliability_outcome \<Rightarrow> bool" where
  "reached_when_successful r \<longleftrightarrow> (ro_successful r \<longrightarrow> ro_status r \<noteq> Unjudged NotReached)"

lemma stage_observation_successful:
  "reached_when_successful (stage_observation name r c)"
  "ro_successful (stage_observation name r c) \<longleftrightarrow>
     c \<and> (so_status r = StageJudged GradeA CONTINUE \<or> so_status r = StageJudged GradeB CONTINUE)"
  by (auto simp: stage_observation_def reached_when_successful_def split: stage_status.split)

lemma final_observation_successful:
  "reached_when_successful (final_observation f c)"
  "ro_successful (final_observation f c) \<longleftrightarrow> c \<and> f = FinalJudged PASS"
  by (auto simp: final_observation_def reached_when_successful_def split: final_outcome.split)

lemma build_outcomes_Inr:
  assumes "build_reliability_outcomes declared rep = Inr row"
  shows "length row = length declared + 1 \<and> (\<forall>r \<in> set row. reached_when_successful r)
     \<and> (\<forall>i < length row. ro_successful (row ! i) \<longleftrightarrow> passed_at declared i rep)"
proof -
  let ?f = "\<lambda>stage. case List.find (\<lambda>r. so_stage r = stage) (rr_stages rep) of
           None \<Rightarrow> Inl (MissingStage stage)
         | Some r \<Rightarrow> Inr (stage_observation stage r (rr_metrics_complete rep))"
  obtain stages where st: "map_res ?f declared = Inr stages"
    and row: "row = stages @ [final_observation (rr_final rep) (rr_metrics_complete rep)]"
    using assms by (auto simp: build_reliability_outcomes_def res_simps)
  have len: "length stages = length declared" by (rule map_res_Inr_length [OF st])
  have each: "\<exists>r. List.find (\<lambda>r. so_stage r = declared ! i) (rr_stages rep) = Some r
      \<and> stages ! i = stage_observation (declared ! i) r (rr_metrics_complete rep)" if "i < length declared" for i
    using map_res_Inr_nth [OF st that] by (auto split: option.splits)
  have reached: "\<forall>r \<in> set row. reached_when_successful r"
    using each len stage_observation_successful(1) final_observation_successful(1)
    by (auto simp: row in_set_conv_nth) metis
  have "ro_successful (row ! i) \<longleftrightarrow> passed_at declared i rep" if "i < length row" for i
  proof (cases "i < length declared")
    case True
    with each [OF True] len show ?thesis
      by (auto simp: row nth_append passed_at_def stage_passed_def stage_observation_successful)
  next
    case False
    with that len have "i = length declared" by (simp add: row)
    with len show ?thesis
      by (simp add: row nth_append passed_at_def final_passed_def final_observation_successful)
  qed
  with len reached show ?thesis by (simp add: row)
qed

lemma summarize_Inr:
  assumes q: "summarize_reliability_outcomes name rs = Inr q" and reached: "\<forall>r \<in> set rs. reached_when_successful r"
  shows "rs_name q = name \<and> rs_requested q = length rs \<and> rs_attempted q + rs_not_reached q = rs_requested q
     \<and> rs_successful q + rs_failed q = rs_attempted q \<and> rs_successful q = length (filter ro_successful rs)
     \<and> rs_success_rate q = real (rs_successful q) / real (rs_requested q)
     \<and> 0 \<le> rs_pass_k q \<and> rs_pass_k q \<le> rs_success_rate q \<and> rs_success_rate q \<le> 1"
proof -
  let ?s = "length (filter ro_successful rs)" and ?a = "length (filter (\<lambda>r. ro_status r \<noteq> Unjudged NotReached) rs)"
  have rs: "rs \<noteq> []" using q by (auto simp: summarize_reliability_outcomes_def Let_def)
  have sa: "?s \<le> ?a" using reached by (induction rs) (auto simp: reached_when_successful_def)
  have al: "?a \<le> length rs" by simp
  let ?x = "real ?s / real (length rs)"
  have x: "0 \<le> ?x" "?x \<le> 1" using rs sa al by (auto simp: divide_le_eq_1)
  have "?x ^ length rs \<le> ?x ^ 1" using rs x by (intro power_decreasing) (auto simp: Suc_le_eq)
  with q rs sa al x show ?thesis by (auto simp: summarize_reliability_outcomes_def Let_def)
qed

lemma column_of_rows:
  assumes "list_all2 (\<lambda>rep row. build_reliability_outcomes declared rep = Inr row) reps rows"
    and i: "i \<le> length declared" and c: "map_res (outcome_at name i) rows = Inr column"
  shows "length column = length reps \<and> (\<forall>r \<in> set column. reached_when_successful r)
     \<and> length (filter ro_successful column) = length (filter (passed_at declared i) reps)"
  using assms(1) c
proof (induction reps rows arbitrary: column rule: list_all2_induct)
  case Nil
  then show ?case by simp
next
  case (Cons rep reps row rows)
  note b = build_outcomes_Inr [OF Cons.hyps(1)]
  from b i have "outcome_at name i row = Inr (row ! i)" by (simp add: outcome_at_def)
  with Cons.prems obtain rest where "column = row ! i # rest" "map_res (outcome_at name i) rows = Inr rest"
    by (auto simp: res_simps)
  with Cons.IH [of rest] b i show ?case by (auto simp: nth_mem)
qed

lemma reliability_report_Inr:
  assumes "build_reliability_report declared reps = Inr qs"
  shows "length qs = length declared + 1 \<and> reps \<noteq> []
     \<and> (\<forall>i < length qs. rs_name (qs ! i) = (declared @ [''final'']) ! i \<and> rs_requested (qs ! i) = length reps
          \<and> rs_attempted (qs ! i) + rs_not_reached (qs ! i) = length reps
          \<and> rs_successful (qs ! i) + rs_failed (qs ! i) = rs_attempted (qs ! i)
          \<and> rs_successful (qs ! i) = length (filter (passed_at declared i) reps)
          \<and> rs_success_rate (qs ! i) = real (rs_successful (qs ! i)) / real (length reps)
          \<and> 0 \<le> rs_pass_k (qs ! i) \<and> rs_pass_k (qs ! i) \<le> rs_success_rate (qs ! i)
          \<and> rs_success_rate (qs ! i) \<le> 1)"
proof -
  let ?names = "declared @ [''final'']"
  from assms obtain rows where rows: "map_res (build_reliability_outcomes declared) reps = Inr rows"
    and qs: "map_res (\<lambda>(i, name). bind_res (map_res (outcome_at name i) rows) (summarize_reliability_outcomes name))
       (enumerate 0 ?names) = Inr qs" by (auto simp: build_reliability_report_def res_simps)
  have len: "length qs = length declared + 1" using map_res_Inr_length [OF qs] by simp
  have rel: "list_all2 (\<lambda>rep row. build_reliability_outcomes declared rep = Inr row) reps rows"
    using rows by (simp add: map_res_Inr_iff)
  have each: "\<exists>column. length column = length reps \<and> (\<forall>r \<in> set column. reached_when_successful r)
      \<and> length (filter ro_successful column) = length (filter (passed_at declared i) reps)
      \<and> summarize_reliability_outcomes (?names ! i) column = Inr (qs ! i)" if "i < length qs" for i
  proof -
    have "enumerate 0 ?names ! i = (i, ?names ! i)" using that len by (simp add: nth_enumerate_eq)
    then have "bind_res (map_res (outcome_at (?names ! i) i) rows) (summarize_reliability_outcomes (?names ! i))
        = Inr (qs ! i)" using map_res_Inr_nth [OF qs, of i] that len by simp
    then obtain column where c: "map_res (outcome_at (?names ! i) i) rows = Inr column"
      and "summarize_reliability_outcomes (?names ! i) column = Inr (qs ! i)"
      by (auto simp only: bind_res_Inr_iff)
    moreover have "i \<le> length declared" using that len by simp
    ultimately show ?thesis using column_of_rows [OF rel _ c] by blast
  qed
  have "rs_name (qs ! i) = ?names ! i \<and> rs_requested (qs ! i) = length reps
          \<and> rs_attempted (qs ! i) + rs_not_reached (qs ! i) = length reps
          \<and> rs_successful (qs ! i) + rs_failed (qs ! i) = rs_attempted (qs ! i)
          \<and> rs_successful (qs ! i) = length (filter (passed_at declared i) reps)
          \<and> rs_success_rate (qs ! i) = real (rs_successful (qs ! i)) / real (length reps)
          \<and> 0 \<le> rs_pass_k (qs ! i) \<and> rs_pass_k (qs ! i) \<le> rs_success_rate (qs ! i)
          \<and> rs_success_rate (qs ! i) \<le> 1" if "i < length qs" for i
  proof -
    from each [OF that] obtain column where "length column = length reps"
      "length (filter ro_successful column) = length (filter (passed_at declared i) reps)"
      and r: "\<forall>r \<in> set column. reached_when_successful r"
      and q: "summarize_reliability_outcomes (?names ! i) column = Inr (qs ! i)" by blast
    with summarize_Inr [OF q r] show ?thesis by auto
  qed
  moreover have "reps \<noteq> []"
    using each [of 0] len by (auto simp: summarize_reliability_outcomes_def Let_def)
  ultimately show ?thesis using len by blast
qed

lemma reliability_report_Inl:
  assumes "build_reliability_report declared reps = Inl e"
  shows "reps = [] \<or> (\<exists>rep \<in> set reps. \<exists>stage \<in> set declared. stage \<notin> so_stage ` set (rr_stages rep))"
proof (cases "map_res (build_reliability_outcomes declared) reps")
  case (Inl e')
  from map_res_Inl_ex [OF Inl] obtain rep where rep: "rep \<in> set reps"
    "build_reliability_outcomes declared rep = Inl e'" by blast
  then have "map_res (\<lambda>stage. case List.find (\<lambda>r. so_stage r = stage) (rr_stages rep) of
           None \<Rightarrow> Inl (MissingStage stage)
         | Some r \<Rightarrow> Inr (stage_observation stage r (rr_metrics_complete rep))) declared = Inl e'"
    by (simp add: build_reliability_outcomes_def bind_res_Inl_iff)
  from map_res_Inl_ex [OF this] obtain stage where "stage \<in> set declared"
    "List.find (\<lambda>r. so_stage r = stage) (rr_stages rep) = None" by (auto split: option.splits)
  then have "stage \<in> set declared" "stage \<notin> so_stage ` set (rr_stages rep)" by (auto simp: find_None_iff)
  with rep show ?thesis by blast
next
  case (Inr rows)
  have rel: "list_all2 (\<lambda>rep row. build_reliability_outcomes declared rep = Inr row) reps rows"
    using Inr by (simp add: map_res_Inr_iff)
  have lens: "\<forall>row \<in> set rows. length row = length declared + 1"
  proof
    fix row assume "row \<in> set rows"
    then obtain k where "k < length rows" "row = rows ! k" by (auto simp: in_set_conv_nth)
    with list_all2_nthD2 [OF rel, of k] have "build_reliability_outcomes declared (reps ! k) = Inr row" by simp
    then show "length row = length declared + 1" using build_outcomes_Inr by blast
  qed
  have same: "length rows = length reps" using list_all2_lengthD [OF rel] by simp
  from assms Inr have "map_res (\<lambda>(i, name). bind_res (map_res (outcome_at name i) rows)
      (summarize_reliability_outcomes name)) (enumerate 0 (declared @ [''final''])) = Inl e"
    by (simp add: build_reliability_report_def)
  from map_res_Inl_ex [OF this] obtain i name where "(i, name) \<in> set (enumerate 0 (declared @ [''final'']))"
    and b: "bind_res (map_res (outcome_at name i) rows) (summarize_reliability_outcomes name) = Inl e" by auto
  then have i: "i < length declared + 1" by (auto simp: in_set_enumerate_eq)
  have "map_res (outcome_at name i) rows = Inr (map (\<lambda>row. row ! i) rows)"
    using lens i by (intro map_res_total) (auto simp: outcome_at_def)
  with b have "rows = []" by (auto simp: summarize_reliability_outcomes_def Let_def split: if_splits)
  with same show ?thesis by simp
qed

text \<open>C37: a reliability report fails only without repetitions or with one that lacks a declared stage;
  otherwise it has a summary per declared stage and one for the end, each counting every repetition
  once as not reached, failed or passed, where passed means complete metrics with an A or B that
  continues, or a final pass, and its pass-all estimate lies between nothing and the success rate.\<close>

theorem reliability_exact:
  "case build_reliability_report declared reps of
     Inl _ \<Rightarrow> reps = [] \<or> \<not> list_all (\<lambda>rep. set declared \<subseteq> so_stage ` set (rr_stages rep)) reps
   | Inr qs \<Rightarrow> length qs = length declared + 1
       \<and> (\<forall>i < length qs. rs_name (qs ! i) = (declared @ [''final'']) ! i
            \<and> rs_not_reached (qs ! i) + rs_failed (qs ! i) + rs_successful (qs ! i) = length reps
            \<and> rs_successful (qs ! i) = length (filter (passed_at declared i) reps)
            \<and> rs_success_rate (qs ! i) = real (rs_successful (qs ! i)) / real (length reps)
            \<and> 0 \<le> rs_pass_k (qs ! i) \<and> rs_pass_k (qs ! i) \<le> rs_success_rate (qs ! i)
            \<and> rs_success_rate (qs ! i) \<le> 1)"
proof (cases "build_reliability_report declared reps")
  case (Inl e)
  with reliability_report_Inl [OF Inl] show ?thesis by (auto simp: list_all_iff)
next
  case (Inr qs)
  from reliability_report_Inr [OF Inr] Inr show ?thesis by auto
qed

definition sample_reps :: "reliability_rep list" where
  "sample_reps =
     [\<lparr>rr_metrics_complete = True, rr_stages = [\<lparr>so_stage = ''build'', so_status = StageJudged GradeB CONTINUE\<rparr>],
       rr_final = FinalJudged PASS\<rparr>,
      \<lparr>rr_metrics_complete = False, rr_stages = [\<lparr>so_stage = ''build'', so_status = StageJudged GradeA CONTINUE\<rparr>],
       rr_final = FinalMissing NotReached\<rparr>]"

lemma reliability_exact_witness:
  "\<exists>qs. build_reliability_report [''build''] sample_reps = Inr qs \<and> rs_successful (qs ! 0) = 1
     \<and> rs_success_rate (qs ! 0) = 1 / 2"
proof -
  have nonempty: "is_ok (build_reliability_report [''build''] sample_reps)"
  proof (cases "build_reliability_report [''build''] sample_reps")
    case (Inl e)
    then show ?thesis using reliability_report_Inl [OF Inl] by (simp add: sample_reps_def)
  qed simp
  then obtain qs where qs: "build_reliability_report [''build''] sample_reps = Inr qs" by (rule is_okE)
  have "length (filter (passed_at [''build''] 0) sample_reps) = 1"
    by (simp add: passed_at_def stage_passed_def sample_reps_def)
  moreover have "length sample_reps = 2" by (simp add: sample_reps_def)
  ultimately show ?thesis using reliability_exact [where declared = "[''build'']" and reps = sample_reps] qs by (intro exI [of _ qs]) simp
qed

subsection \<open>The contrasts add up\<close>

lemma named_pairs:
  assumes "map_res (named_pair name m s) cases = Inr ps"
  shows "list_all2 (\<lambda>c p. \<exists>a b. p = (qc_case c, a, b) \<and> reliability_summary_named (arm_of (qc_arms c) m) name = Inr a
     \<and> reliability_summary_named (arm_of (qc_arms c) s) name = Inr b) cases ps"
  using assms unfolding map_res_Inr_iff
  by (rule list_all2_mono) (auto simp: named_pair_def res_simps)

text \<open>What a summary of a case says under a name, where there is one.\<close>

definition summary_value :: "(reliability_summary \<Rightarrow> real) \<Rightarrow> string \<Rightarrow> comparison_arm \<Rightarrow> quality_case \<Rightarrow> real" where
  "summary_value f name a c = (case reliability_summary_named (arm_of (qc_arms c) a) name of Inr q \<Rightarrow> f q | Inl _ \<Rightarrow> 0)"

lemma paired_named_deltas:
  assumes "map_res (named_pair name m s) cases = Inr ps"
    and "build_paired_estimate (map (pair_observations f) ps) = Inr e"
  shows "pe_case_deltas e = map (\<lambda>c. (qc_case c, summary_value f name m c - summary_value f name s c)) cases
     \<and> pe_mean_delta e = sum_list (map (\<lambda>c. summary_value f name m c - summary_value f name s c) cases) / real (length cases)"
proof -
  have d: "pe_case_deltas e = map (\<lambda>(c, a, b). (c, f a - f b)) ps"
    and mean: "pe_mean_delta e = sum_list (map snd (pe_case_deltas e)) / real (length (pe_case_deltas e))"
    using build_paired_Inr [OF assms(2)] single_observation_deltas [of f ps] by auto
  have "map (\<lambda>(c, a, b). (c, f a - f b)) ps
      = map (\<lambda>c. (qc_case c, summary_value f name m c - summary_value f name s c)) cases"
    using named_pairs [OF assms(1)] by (induction rule: list_all2_induct) (auto simp: summary_value_def)
  with d mean show ?thesis by (simp add: o_def)
qed

text \<open>Each contrast estimate in terms of the summaries of the cases.\<close>

lemma quality_contrast_values:
  assumes "build_quality_contrast names cases m s = Inr es"
  shows "length es = length names \<and> (\<forall>i < length es. qe_name (es ! i) = names ! i
     \<and> pe_case_deltas (qe_success_rate (es ! i)) =
         map (\<lambda>c. (qc_case c, summary_value rs_success_rate (names ! i) m c - summary_value rs_success_rate (names ! i) s c)) cases
     \<and> pe_mean_delta (qe_success_rate (es ! i)) =
         sum_list (map (\<lambda>c. summary_value rs_success_rate (names ! i) m c - summary_value rs_success_rate (names ! i) s c) cases)
           / real (length cases)
     \<and> pe_mean_delta (qe_pass_k (es ! i)) =
         sum_list (map (\<lambda>c. summary_value rs_pass_k (names ! i) m c - summary_value rs_pass_k (names ! i) s c) cases)
           / real (length cases))"
proof -
  let ?f = "\<lambda>name. bind_res (map_res (named_pair name m s) cases) (\<lambda>summaries.
         bind_res (build_paired_estimate (map (pair_observations rs_pass_k) summaries)) (\<lambda>pass_k.
           bind_res (build_paired_estimate (map (pair_observations rs_success_rate) summaries)) (\<lambda>success_rate.
             Inr \<lparr>qe_name = name, qe_success_rate = success_rate, qe_pass_k = pass_k\<rparr>)))"
  have f: "map_res ?f names = Inr es" using assms by (simp only: build_quality_contrast_def)
  have len: "length es = length names" by (rule map_res_Inr_length [OF f])
  have each: "\<exists>ps. map_res (named_pair (names ! i) m s) cases = Inr ps \<and> qe_name (es ! i) = names ! i
      \<and> build_paired_estimate (map (pair_observations rs_pass_k) ps) = Inr (qe_pass_k (es ! i))
      \<and> build_paired_estimate (map (pair_observations rs_success_rate) ps) = Inr (qe_success_rate (es ! i))"
    if "i < length es" for i
    using map_res_Inr_nth [OF f, of i] that len by (auto simp: bind_res_Inr_iff eq_commute [of _ "es ! i"])
  show ?thesis
  proof (intro conjI len allI impI)
    fix i assume "i < length es"
    from each [OF this] obtain ps where ps: "map_res (named_pair (names ! i) m s) cases = Inr ps"
      "qe_name (es ! i) = names ! i"
      "build_paired_estimate (map (pair_observations rs_pass_k) ps) = Inr (qe_pass_k (es ! i))"
      "build_paired_estimate (map (pair_observations rs_success_rate) ps) = Inr (qe_success_rate (es ! i))" by blast
    note pass = paired_named_deltas [OF ps(1,3)] and rate = paired_named_deltas [OF ps(1,4)]
    show "qe_name (es ! i) = names ! i" by (rule ps(2))
    show "pe_case_deltas (qe_success_rate (es ! i)) =
         map (\<lambda>c. (qc_case c, summary_value rs_success_rate (names ! i) m c - summary_value rs_success_rate (names ! i) s c)) cases"
      using rate by blast
    show "pe_mean_delta (qe_success_rate (es ! i)) =
         sum_list (map (\<lambda>c. summary_value rs_success_rate (names ! i) m c - summary_value rs_success_rate (names ! i) s c) cases)
           / real (length cases)" using rate by blast
    show "pe_mean_delta (qe_pass_k (es ! i)) =
         sum_list (map (\<lambda>c. summary_value rs_pass_k (names ! i) m c - summary_value rs_pass_k (names ! i) s c) cases)
           / real (length cases)" using pass by blast
  qed
qed

lemma single_contrast_values:
  assumes "build_single_case_quality_contrast names c m s = Inr es"
  shows "length es = length names \<and> (\<forall>i < length es. sq_name (es ! i) = names ! i
     \<and> sq_pass_delta (es ! i) = summary_value rs_pass_k (names ! i) m c - summary_value rs_pass_k (names ! i) s c
     \<and> pp_delta (sq_success_rate (es ! i)) =
         summary_value (\<lambda>q. real (rs_successful q) / real (rs_requested q)) (names ! i) m c
           - summary_value (\<lambda>q. real (rs_successful q) / real (rs_requested q)) (names ! i) s c)"
proof -
  let ?f = "\<lambda>name. bind_res (named_pair name m s c) (\<lambda>(_, a, b).
         bind_res (build_single_case_proportion_estimate a b) (\<lambda>rate.
           Inr \<lparr>sq_name = name, sq_success_rate = rate, sq_pass_minuend = rs_pass_k a,
                sq_pass_subtrahend = rs_pass_k b, sq_pass_delta = rs_pass_k a - rs_pass_k b\<rparr>))"
  have f: "map_res ?f names = Inr es" using assms by (simp only: build_single_case_quality_contrast_def)
  have len: "length es = length names" by (rule map_res_Inr_length [OF f])
  have "sq_name (es ! i) = names ! i
     \<and> sq_pass_delta (es ! i) = summary_value rs_pass_k (names ! i) m c - summary_value rs_pass_k (names ! i) s c
     \<and> pp_delta (sq_success_rate (es ! i)) =
         summary_value (\<lambda>q. real (rs_successful q) / real (rs_requested q)) (names ! i) m c
           - summary_value (\<lambda>q. real (rs_successful q) / real (rs_requested q)) (names ! i) s c" if "i < length es" for i
    using map_res_Inr_nth [OF f, of i] that len
    by (auto simp: eq_commute [of _ "es ! i"] bind_res_Inr_iff named_pair_def build_single_case_proportion_estimate_def arm_proportion_of_def
        Let_def summary_value_def split: if_splits)
  with len show ?thesis by blast
qed

lemma contrasts_of_Inr:
  "contrasts_of f = Inr cs \<longleftrightarrow> f Candidate Baseline = Inr (cs_candidate_minus_baseline cs)
     \<and> f Candidate Control = Inr (cs_candidate_minus_control cs) \<and> f Baseline Control = Inr (cs_baseline_minus_control cs)"
  by (auto simp: contrasts_of_def bind_res_Inr_iff)

lemma build_quality_Inr:
  assumes "build_comparison_quality ct rcs = Inr rep"
  shows "case rep of
     PairedQuality cases cs \<Rightarrow> contrasts_of (build_quality_contrast (quality_names ct) cases) = Inr cs
   | SingleQuality cases cs \<Rightarrow>
       \<exists>only. contrasts_of (build_single_case_quality_contrast (quality_names ct) only) = Inr cs"
proof -
  from assms obtain xs where r: "(case xs of
         [only] \<Rightarrow> single_case_quality_report xs (quality_names ct) only
       | _ \<Rightarrow> bind_res (contrasts_of (build_quality_contrast (quality_names ct) xs)) (\<lambda>cs.
                Inr (PairedQuality xs cs))) = Inr rep"
    by (auto simp only: build_comparison_quality_def bind_res_Inr_iff)
  consider "xs = []" | only where "xs = [only]" | a b ys where "xs = a # b # ys"
    by (cases xs; cases "tl xs") auto
  then show ?thesis
    by cases (use r in \<open>auto simp: single_case_quality_report_def bind_res_Inr_iff\<close>)
qed

text \<open>The three contrasts of a quality report are consistent: for every stage and the end, in every
  case and in the mean, what the candidate gains over the control is what it gains over the baseline
  plus what the baseline gains over the control.\<close>

theorem quality_contrasts_add:
  assumes "build_comparison_quality ct rcs = Inr rep"
  shows "case rep of
     PairedQuality cases cs \<Rightarrow>
       list_all (\<lambda>i.
         let cc = cs_candidate_minus_control cs ! i; cb = cs_candidate_minus_baseline cs ! i;
             bc = cs_baseline_minus_control cs ! i
         in qe_name cc = quality_names ct ! i
            \<and> map snd (pe_case_deltas (qe_success_rate cc))
               = map2 (+) (map snd (pe_case_deltas (qe_success_rate cb))) (map snd (pe_case_deltas (qe_success_rate bc)))
            \<and> pe_mean_delta (qe_success_rate cc) = pe_mean_delta (qe_success_rate cb) + pe_mean_delta (qe_success_rate bc)
            \<and> pe_mean_delta (qe_pass_k cc) = pe_mean_delta (qe_pass_k cb) + pe_mean_delta (qe_pass_k bc))
       [0..<length (quality_names ct)]
   | SingleQuality cases cs \<Rightarrow>
       list_all (\<lambda>i.
         let cc = cs_candidate_minus_control cs ! i; cb = cs_candidate_minus_baseline cs ! i;
             bc = cs_baseline_minus_control cs ! i
         in sq_name cc = quality_names ct ! i
            \<and> pp_delta (sq_success_rate cc) = pp_delta (sq_success_rate cb) + pp_delta (sq_success_rate bc)
            \<and> sq_pass_delta cc = sq_pass_delta cb + sq_pass_delta bc)
       [0..<length (quality_names ct)]"
proof (cases rep)
  case (PairedQuality cases cs)
  with build_quality_Inr [OF assms] have c: "contrasts_of (build_quality_contrast (quality_names ct) cases) = Inr cs"
    by simp
  note v = c [unfolded contrasts_of_Inr, THEN conjunct1, THEN quality_contrast_values]
    c [unfolded contrasts_of_Inr, THEN conjunct2, THEN conjunct1, THEN quality_contrast_values]
    c [unfolded contrasts_of_Inr, THEN conjunct2, THEN conjunct2, THEN quality_contrast_values]
  have sums: "sum_list (map (\<lambda>x. f x - h x) cases) = sum_list (map (\<lambda>x. f x - g x) cases) + sum_list (map (\<lambda>x. g x - h x) cases)"
    for f g h :: "quality_case \<Rightarrow> real" by (induction cases) auto
  show ?thesis using v
    by (auto simp: PairedQuality Let_def list_all_iff zip_map_map zip_same_conv_map o_def sums add_divide_distrib [symmetric])
next
  case (SingleQuality cases cs)
  with build_quality_Inr [OF assms] obtain only where
    c: "contrasts_of (build_single_case_quality_contrast (quality_names ct) only) = Inr cs" by auto
  note v = c [unfolded contrasts_of_Inr, THEN conjunct1, THEN single_contrast_values]
    c [unfolded contrasts_of_Inr, THEN conjunct2, THEN conjunct1, THEN single_contrast_values]
    c [unfolded contrasts_of_Inr, THEN conjunct2, THEN conjunct2, THEN single_contrast_values]
  show ?thesis using v by (auto simp: SingleQuality Let_def list_all_iff)
qed

text \<open>A stage compared over two cases whose candidate alone passes.\<close>

definition sample_arm :: "letter \<Rightarrow> quality_rep list" where
  "sample_arm g = [\<lparr>qr_metrics_complete = True, qr_stages = [\<lparr>so_stage = ''build'', so_status = StageJudged g CONTINUE\<rparr>],
     qr_final = NotApplicable\<rparr>]"

definition sample_quality_case :: "string \<Rightarrow> quality_rep rep_case" where
  "sample_quality_case c = \<lparr>rc_case = c,
     rc_arms = \<lparr>ar_baseline = sample_arm GradeC, ar_control = sample_arm GradeD, ar_candidate = sample_arm GradeA\<rparr>\<rparr>"

definition sample_contract :: comparison_contract where
  "sample_contract = \<lparr>ct_mode = StageMode, ct_declared = [''build''], ct_reps = 1\<rparr>"

lemma sample_arm_quality:
  "\<exists>q. arm_quality sample_contract (sample_arm g) = Inr [q] \<and> rs_name q = ''build''"
  by (simp add: arm_quality_def sample_contract_def sample_arm_def comparison_reliability_rep_def
      build_reliability_report_def build_reliability_outcomes_def stage_observation_def final_observation_def
      outcome_at_def summarize_reliability_outcomes_def Let_def)

lemma quality_contrasts_add_witness:
  "\<exists>cases cs. build_comparison_quality sample_contract [sample_quality_case ''one'', sample_quality_case ''two'']
       = Inr (PairedQuality cases cs)
     \<and> pe_mean_delta (qe_success_rate (cs_candidate_minus_control cs ! 0))
       = pe_mean_delta (qe_success_rate (cs_candidate_minus_baseline cs ! 0))
         + pe_mean_delta (qe_success_rate (cs_baseline_minus_control cs ! 0))"
proof -
  obtain a b c where q: "arm_quality sample_contract (sample_arm GradeA) = Inr [a]" "rs_name a = ''build''"
    "arm_quality sample_contract (sample_arm GradeC) = Inr [b]" "rs_name b = ''build''"
    "arm_quality sample_contract (sample_arm GradeD) = Inr [c]" "rs_name c = ''build''"
    using sample_arm_quality by metis
  have n: "quality_names sample_contract = [''build'']" by (simp add: quality_names_def sample_contract_def)
  have "\<exists>cases cs. build_comparison_quality sample_contract [sample_quality_case ''one'', sample_quality_case ''two'']
       = Inr (PairedQuality cases cs)"
    using q by (simp add: build_comparison_quality_def quality_case_of_def sample_quality_case_def n contrasts_of_def
        build_quality_contrast_def named_pair_def reliability_summary_named_def pair_observations_def
        build_paired_estimate_def MINIMUM_PAIRED_CASES_def case_delta_def Let_def mean_def)
  then obtain cases cs where r: "build_comparison_quality sample_contract
      [sample_quality_case ''one'', sample_quality_case ''two''] = Inr (PairedQuality cases cs)" by blast
  from quality_contrasts_add [OF r] have "pe_mean_delta (qe_success_rate (cs_candidate_minus_control cs ! 0))
       = pe_mean_delta (qe_success_rate (cs_candidate_minus_baseline cs ! 0))
         + pe_mean_delta (qe_success_rate (cs_baseline_minus_control cs ! 0))" by (simp add: n Let_def)
  with r show ?thesis by blast
qed

end
