(* ===== verification/ComparisonResources.thy ===== *)
theory ComparisonResources
  imports ConfirmationResources ComparisonEstimate
begin

text \<open>
  The resources of a comparison (\<open>comparison-resources.ts\<close>): what each arm of each case consumed
  (\<open>comparison-resource-observations.ts\<close>) and the three contrasts, which are missing where a
  repetition lacks its metrics (\<open>comparison-resource-contrasts.ts\<close>, \<open>comparison-resource-estimates.ts\<close>,
  \<open>comparison-resource-contracts.ts\<close>). One generic record stands for the source's pairs of a paired
  and a single-case interface.
\<close>

subsection \<open>The arms\<close>

record rep_record = resource_rep +
  rp_rep_id :: string
  rp_ordinal :: nat

record metric_value_summary =
  mv_values :: "real list"
  mv_mean :: real

record missing_evidence =
  me_rep_id :: string
  me_ordinal :: nat
  me_missing :: "string list"

record available_arm =
  aa_complete_reps :: nat
  aa_elapsed :: metric_value_summary
  aa_per_role :: "call_role \<Rightarrow> metric_value_summary resource_metrics"
  aa_total :: "metric_value_summary resource_metrics"
  aa_worker_turns :: metric_value_summary

datatype arm_resources = AvailableArm available_arm | UnavailableArm nat nat "missing_evidence list"

record resource_case =
  rx_case :: string
  rx_arms :: "arm_resources arms"

text \<open>An object literal with a field for each metric, or for each role: the fields are evaluated in the
  order in which they are written, and the first that throws ends it.\<close>

definition metrics_res :: "(('a resource_metrics \<Rightarrow> 'a) \<Rightarrow> 'e + 'b) \<Rightarrow> 'e + 'b resource_metrics" where
  "metrics_res f =
     bind_res (f rm_cache_read) (\<lambda>cr. bind_res (f rm_cache_write) (\<lambda>cw. bind_res (f rm_cost) (\<lambda>co.
       bind_res (f rm_input) (\<lambda>i. bind_res (f rm_output) (\<lambda>ou.
         Inr \<lparr>rm_cost = co, rm_input = i, rm_output = ou, rm_cache_read = cr, rm_cache_write = cw\<rparr>)))))"

definition roles_res :: "(call_role \<Rightarrow> 'e + 'b) \<Rightarrow> 'e + (call_role \<Rightarrow> 'b)" where
  "roles_res f =
     bind_res (f FinalJudgeCall) (\<lambda>fj. bind_res (f ProductOwnerCall) (\<lambda>po. bind_res (f StageJudgeCall) (\<lambda>sj.
       bind_res (f WorkerCall) (\<lambda>w.
         Inr (\<lambda>role. case role of FinalJudgeCall \<Rightarrow> fj | ProductOwnerCall \<Rightarrow> po | StageJudgeCall \<Rightarrow> sj | WorkerCall \<Rightarrow> w)))))"

definition value_summary :: "real list \<Rightarrow> report_error + metric_value_summary" where
  "value_summary xs = bind_res (mean xs) (\<lambda>m. Inr \<lparr>mv_values = xs, mv_mean = m\<rparr>)"

definition resource_metric_summary ::
    "real list resource_metrics \<Rightarrow> report_error + metric_value_summary resource_metrics" where
  "resource_metric_summary d = metrics_res (\<lambda>sel. value_summary (sel d))"

definition missing_reps :: "rep_record list \<Rightarrow> missing_evidence list" where
  "missing_reps reps =
     List.map_filter (\<lambda>r. case rp_metrics r of
         MissingCalls _ missing \<Rightarrow> Some \<lparr>me_rep_id = rp_rep_id r, me_ordinal = rp_ordinal r, me_missing = missing\<rparr>
       | CompleteCalls _ \<Rightarrow> None) reps"

definition arm_resources_of :: "comparison_contract \<Rightarrow> rep_record list \<Rightarrow> report_error + arm_resources" where
  "arm_resources_of ct reps =
     (let missing = missing_reps reps
      in if length missing > 0
         then Inr (UnavailableArm (length reps - length missing) (length missing) missing)
         else (let r = build_resource_report (ct_declared ct) reps 0
               in bind_res (value_summary (rt_rep_elapsed r)) (\<lambda>elapsed.
                  bind_res (roles_res (\<lambda>role. resource_metric_summary (rt_per_role r role))) (\<lambda>per_role.
                  bind_res (resource_metric_summary (rt_total r)) (\<lambda>total_resources.
                  bind_res (value_summary (rt_worker_turns r)) (\<lambda>turns.
                    Inr (AvailableArm \<lparr>aa_complete_reps = rt_complete_reps r, aa_elapsed = elapsed, aa_per_role = per_role,
                           aa_total = total_resources, aa_worker_turns = turns\<rparr>)))))))"

definition resource_case_of :: "comparison_contract \<Rightarrow> rep_record rep_case \<Rightarrow> report_error + resource_case" where
  "resource_case_of ct rc =
     bind_res (arm_resources_of ct (ar_baseline (rc_arms rc))) (\<lambda>b.
     bind_res (arm_resources_of ct (ar_candidate (rc_arms rc))) (\<lambda>ca.
     bind_res (arm_resources_of ct (ar_control (rc_arms rc))) (\<lambda>co.
       Inr \<lparr>rx_case = rc_case rc, rx_arms = \<lparr>ar_baseline = b, ar_control = co, ar_candidate = ca\<rparr>\<rparr>)))"

definition comparison_resource_cases ::
    "comparison_contract \<Rightarrow> rep_record rep_case list \<Rightarrow> report_error + resource_case list" where
  "comparison_resource_cases ct rcs = map_res (resource_case_of ct) rcs"

subsection \<open>The contrasts\<close>

record contrast_missing_evidence = missing_evidence +
  xm_case :: string
  xm_arm :: comparison_arm

record 'e available_contrast =
  av_elapsed :: 'e
  av_per_role :: "call_role \<Rightarrow> 'e resource_metrics"
  av_total :: "'e resource_metrics"
  av_worker_turns :: 'e

datatype 'e contrast_resources = AvailableContrast "'e available_contrast" | UnavailableContrast "contrast_missing_evidence list"

datatype resources_report =
    PairedResources "resource_case list" "paired_estimate contrast_resources contrasts"
  | SingleResources "resource_case list" "mean_estimate contrast_resources contrasts"

definition available_resources :: "resource_case \<Rightarrow> comparison_arm \<Rightarrow> report_error + available_arm" where
  "available_resources c arm =
     (case arm_of (rx_arms c) arm of
        UnavailableArm _ _ _ \<Rightarrow> Inl (ResourcesUnavailable (rx_case c) arm)
      | AvailableArm a \<Rightarrow> Inr a)"

definition build_metric_estimate ::
    "resource_case list \<Rightarrow> comparison_arm \<Rightarrow> comparison_arm \<Rightarrow> (available_arm \<Rightarrow> real list) \<Rightarrow>
     report_error + paired_estimate" where
  "build_metric_estimate cases m s vals =
     bind_res (map_res (\<lambda>c.
         bind_res (available_resources c m) (\<lambda>a. bind_res (available_resources c s) (\<lambda>b.
           Inr \<lparr>po_case = rx_case c, po_minuend = vals a, po_subtrahend = vals b\<rparr>))) cases)
       build_paired_estimate"

definition build_single_case_metric_estimate ::
    "resource_case list \<Rightarrow> comparison_arm \<Rightarrow> comparison_arm \<Rightarrow> (available_arm \<Rightarrow> real list) \<Rightarrow>
     report_error + mean_estimate" where
  "build_single_case_metric_estimate cases m s vals =
     (case cases of
        [] \<Rightarrow> Inl NoResourceCase
      | c # _ \<Rightarrow>
          bind_res (available_resources c m) (\<lambda>a. bind_res (available_resources c s) (\<lambda>b.
            build_single_case_mean_estimate (vals a) (vals b))))"

definition build_resource_metric_estimates ::
    "((available_arm \<Rightarrow> real list) \<Rightarrow> report_error + 'e) \<Rightarrow>
     (available_arm \<Rightarrow> metric_value_summary resource_metrics) \<Rightarrow> report_error + 'e resource_metrics" where
  "build_resource_metric_estimates estimate mets = metrics_res (\<lambda>sel. estimate (\<lambda>r. mv_values (sel (mets r))))"

definition contrast_missing ::
    "resource_case list \<Rightarrow> comparison_arm \<Rightarrow> comparison_arm \<Rightarrow> contrast_missing_evidence list" where
  "contrast_missing cases m s =
     concat (map (\<lambda>c. concat (map (\<lambda>arm.
       case arm_of (rx_arms c) arm of
         UnavailableArm _ _ missing \<Rightarrow>
           map (\<lambda>e. \<lparr>me_rep_id = me_rep_id e, me_ordinal = me_ordinal e, me_missing = me_missing e,
                     xm_case = rx_case c, xm_arm = arm\<rparr>) missing
       | AvailableArm _ \<Rightarrow> []) [m, s])) cases)"

definition available_contrast_of ::
    "((available_arm \<Rightarrow> real list) \<Rightarrow> report_error + 'e) \<Rightarrow> report_error + 'e contrast_resources" where
  "available_contrast_of estimate =
     bind_res (estimate (\<lambda>r. mv_values (aa_elapsed r))) (\<lambda>elapsed.
     bind_res (roles_res (\<lambda>role. build_resource_metric_estimates estimate (\<lambda>r. aa_per_role r role))) (\<lambda>per_role.
     bind_res (build_resource_metric_estimates estimate aa_total) (\<lambda>total_resources.
     bind_res (estimate (\<lambda>r. mv_values (aa_worker_turns r))) (\<lambda>turns.
       Inr (AvailableContrast \<lparr>av_elapsed = elapsed, av_per_role = per_role, av_total = total_resources,
              av_worker_turns = turns\<rparr>)))))"

definition build_resource_contrast ::
    "resource_case list \<Rightarrow> comparison_arm \<Rightarrow> comparison_arm \<Rightarrow> report_error + paired_estimate contrast_resources" where
  "build_resource_contrast cases m s =
     (let missing = contrast_missing cases m s
      in if length missing > 0 then Inr (UnavailableContrast missing)
         else available_contrast_of (build_metric_estimate cases m s))"

definition build_single_case_resource_contrast ::
    "resource_case list \<Rightarrow> comparison_arm \<Rightarrow> comparison_arm \<Rightarrow> report_error + mean_estimate contrast_resources" where
  "build_single_case_resource_contrast cases m s =
     (let missing = contrast_missing cases m s
      in if length missing > 0 then Inr (UnavailableContrast missing)
         else available_contrast_of (build_single_case_metric_estimate cases m s))"

definition build_comparison_resources ::
    "comparison_contract \<Rightarrow> rep_record rep_case list \<Rightarrow> report_error + resources_report" where
  "build_comparison_resources ct rcs =
     bind_res (comparison_resource_cases ct rcs) (\<lambda>cases.
       if length cases = 1
       then bind_res (contrasts_of (build_single_case_resource_contrast cases)) (\<lambda>cs. Inr (SingleResources cases cs))
       else bind_res (contrasts_of (build_resource_contrast cases)) (\<lambda>cs. Inr (PairedResources cases cs)))"

subsection \<open>What an arm shows\<close>

lemma metric_of_fun [simp]:
  "metric_of Cost = rm_cost" "metric_of InputTokens = rm_input" "metric_of OutputTokens = rm_output"
  "metric_of CacheReadTokens = rm_cache_read" "metric_of CacheWriteTokens = rm_cache_write"
  by (rule ext, simp)+

lemma metrics_res_Inr: "metrics_res f = Inr m \<Longrightarrow> f (metric_of k) = Inr (metric_of k m)"
  by (cases k) (auto simp: metrics_res_def res_simps)

lemma metrics_res_Inl: "metrics_res f = Inl e \<Longrightarrow> \<exists>k. f (metric_of k) = Inl e"
  unfolding metrics_res_def bind_res_Inl_iff by (metis metric_of_fun Inr_not_Inl)

lemma roles_res_Inr: "roles_res f = Inr g \<Longrightarrow> f role = Inr (g role)"
  by (cases role) (auto simp: roles_res_def res_simps)

lemma roles_res_Inl: "roles_res f = Inl e \<Longrightarrow> \<exists>role. f role = Inl e"
  unfolding roles_res_def bind_res_Inl_iff by (metis Inr_not_Inl)

lemma value_summary_Inr: "value_summary xs = Inr s \<longleftrightarrow> xs \<noteq> [] \<and> s = \<lparr>mv_values = xs, mv_mean = sum_list xs / real (length xs)\<rparr>"
  by (auto simp: value_summary_def res_simps mean_eq)

lemma value_summary_Inl: "value_summary xs = Inl e \<longleftrightarrow> xs = [] \<and> e = NoObservations"
  by (auto simp: value_summary_def res_simps mean_def)

lemma missing_reps_complete: "missing_reps reps = [] \<longleftrightarrow> length (complete_calls reps) = length reps"
proof -
  have "missing_reps reps = [] \<longleftrightarrow> list_all (\<lambda>r. \<exists>calls. rp_metrics r = CompleteCalls calls) reps"
    by (induction reps) (auto simp: missing_reps_def List.map_filter_simps map_filter_def split: resource_status.splits)
  then show ?thesis by (simp add: missing_reps_iff)
qed

text \<open>The metrics of all calls, or of one role's.\<close>

definition role_metrics :: "call_role option \<Rightarrow> available_arm \<Rightarrow> metric_value_summary resource_metrics" where
  "role_metrics role a = (case role of None \<Rightarrow> aa_total a | Some r \<Rightarrow> aa_per_role a r)"

definition contrast_metrics :: "call_role option \<Rightarrow> 'e available_contrast \<Rightarrow> 'e resource_metrics" where
  "contrast_metrics role a = (case role of None \<Rightarrow> av_total a | Some r \<Rightarrow> av_per_role a r)"

definition rep_values :: "metric \<Rightarrow> call_role option \<Rightarrow> rep_record list \<Rightarrow> real list" where
  "rep_values k role reps =
     map (\<lambda>calls. calls_value k (filter (\<lambda>c. role = None \<or> role = Some (cl_role c)) calls)) (complete_calls reps)"

definition arm_shows :: "rep_record list \<Rightarrow> arm_resources \<Rightarrow> bool" where
  "arm_shows reps ar \<longleftrightarrow>
     (case ar of
        UnavailableArm n k missing \<Rightarrow> missing = missing_reps reps \<and> missing \<noteq> []
      | AvailableArm a \<Rightarrow> missing_reps reps = [] \<and> reps \<noteq> []
          \<and> mv_values (aa_elapsed a) \<noteq> [] \<and> mv_values (aa_worker_turns a) \<noteq> []
          \<and> (\<forall>k role. mv_values (metric_of k (role_metrics role a)) = sort (rep_values k role reps)))"

lemma arm_resources_shows:
  assumes "arm_resources_of ct reps = Inr ar"
  shows "arm_shows reps ar"
proof (cases "missing_reps reps = []")
  case False
  with assms show ?thesis by (auto simp: arm_resources_of_def arm_shows_def Let_def)
next
  case True
  let ?r = "build_resource_report (ct_declared ct) reps 0"
  from True have n: "length (complete_calls reps) = length reps" by (simp add: missing_reps_complete)
  from assms True obtain elapsed per_role totals turns where
    e: "value_summary (rt_rep_elapsed ?r) = Inr elapsed"
    and p: "roles_res (\<lambda>role. resource_metric_summary (rt_per_role ?r role)) = Inr per_role"
    and t: "resource_metric_summary (rt_total ?r) = Inr totals"
    and w: "value_summary (rt_worker_turns ?r) = Inr turns"
    and ar: "ar = AvailableArm \<lparr>aa_complete_reps = rt_complete_reps ?r, aa_elapsed = elapsed, aa_per_role = per_role,
                           aa_total = totals, aa_worker_turns = turns\<rparr>"
    by (auto simp: arm_resources_of_def Let_def res_simps)
  have role: "mv_values (metric_of k (per_role role)) = sort (rep_values k (Some role) reps)" for k role
    using metrics_res_Inr [OF roles_res_Inr [OF p, of role, unfolded resource_metric_summary_def], of k]
    by (auto simp: value_summary_Inr report_values rep_values_def eq_commute [of _ role])
  have total_values: "mv_values (metric_of k totals) = sort (rep_values k None reps)" for k
    using metrics_res_Inr [OF t [unfolded resource_metric_summary_def], of k]
    by (auto simp: value_summary_Inr report_values rep_values_def)
  have "rt_rep_elapsed ?r \<noteq> []" using e by (simp add: value_summary_Inr)
  then have "reps \<noteq> []" using n report_values(6) [of "ct_declared ct" reps 0] by (metis length_0_conv)
  with True e w role total_values show ?thesis
    by (auto simp: arm_shows_def ar value_summary_Inr role_metrics_def split: option.splits)
qed

lemma arm_resources_Inl: "arm_resources_of ct reps = Inl e \<Longrightarrow> e = NoObservations \<and> reps = []"
proof -
  assume a: "arm_resources_of ct reps = Inl e"
  let ?r = "build_resource_report (ct_declared ct) reps 0"
  from a have m: "missing_reps reps = []" by (auto simp: arm_resources_of_def Let_def split: if_splits)
  then have n: "length (complete_calls reps) = length reps" by (simp add: missing_reps_complete)
  have d: "resource_metric_summary d = Inl e \<Longrightarrow> \<exists>k. metric_of k d = [] \<and> e = NoObservations" for d
    unfolding resource_metric_summary_def by (drule metrics_res_Inl) (auto simp: value_summary_Inl)
  have len: "metric_of k (rt_total ?r) = [] \<Longrightarrow> reps = []" "metric_of k (rt_per_role ?r role) = [] \<Longrightarrow> reps = []" for k role
    using n by (simp_all only: report_values) (metis length_0_conv length_map length_sort)+
  from a m consider "value_summary (rt_rep_elapsed ?r) = Inl e"
    | role where "resource_metric_summary (rt_per_role ?r role) = Inl e"
    | "resource_metric_summary (rt_total ?r) = Inl e" | "value_summary (rt_worker_turns ?r) = Inl e"
    by (auto simp: arm_resources_of_def Let_def res_simps dest: roles_res_Inl)
  then show ?thesis
  proof cases
    case 1
    with n report_values(6) [of "ct_declared ct" reps 0] show ?thesis by (auto simp: value_summary_Inl)
  next
    case (2 role)
    with d len(2) show ?thesis by blast
  next
    case 3
    with d len(1) show ?thesis by blast
  next
    case 4
    with n report_values(7) [of "ct_declared ct" reps 0] show ?thesis by (auto simp: value_summary_Inl)
  qed
qed

subsection \<open>What a contrast shows\<close>

definition case_shows :: "rep_record rep_case \<Rightarrow> resource_case \<Rightarrow> bool" where
  "case_shows rc c \<longleftrightarrow>
     rx_case c = rc_case rc \<and> (\<forall>arm. arm_shows (arm_of (rc_arms rc) arm) (arm_of (rx_arms c) arm))"

lemma resource_case_shows: "resource_case_of ct rc = Inr c \<Longrightarrow> case_shows rc c"
  unfolding case_shows_def
proof (intro conjI allI)
  fix arm assume "resource_case_of ct rc = Inr c"
  then show "arm_shows (arm_of (rc_arms rc) arm) (arm_of (rx_arms c) arm)"
    by (cases arm) (auto simp: resource_case_of_def res_simps dest: arm_resources_shows)
qed (auto simp: resource_case_of_def res_simps)

lemma cases_show: "comparison_resource_cases ct rcs = Inr cases \<Longrightarrow> list_all2 case_shows rcs cases"
  unfolding comparison_resource_cases_def map_res_Inr_iff
  by (rule list_all2_mono, assumption) (rule resource_case_shows)

text \<open>The evidence a contrast of two arms lacks, and the mean of an arm's repetitions.\<close>

definition lacking :: "rep_record rep_case list \<Rightarrow> comparison_arm \<Rightarrow> comparison_arm \<Rightarrow> contrast_missing_evidence list" where
  "lacking rcs m s =
     concat (map (\<lambda>rc. concat (map (\<lambda>arm. map (\<lambda>e. \<lparr>me_rep_id = me_rep_id e, me_ordinal = me_ordinal e,
       me_missing = me_missing e, xm_case = rc_case rc, xm_arm = arm\<rparr>) (missing_reps (arm_of (rc_arms rc) arm))) [m, s])) rcs)"

definition arm_average :: "metric \<Rightarrow> call_role option \<Rightarrow> comparison_arm \<Rightarrow> rep_record rep_case \<Rightarrow> real" where
  "arm_average k role arm rc =
     sum_list (rep_values k role (arm_of (rc_arms rc) arm)) / real (length (arm_of (rc_arms rc) arm))"

lemma contrast_missing_lacking:
  assumes "list_all2 case_shows rcs cases"
  shows "contrast_missing cases m s = lacking rcs m s"
  using assms
proof (induction rule: list_all2_induct)
  case (Cons rc rcs c cases)
  have "(case arm_of (rx_arms c) arm of UnavailableArm _ _ missing \<Rightarrow> missing | AvailableArm _ \<Rightarrow> [])
      = missing_reps (arm_of (rc_arms rc) arm)" for arm
    using Cons(1) by (auto simp: case_shows_def arm_shows_def split: arm_resources.splits dest: spec [of _ arm])
  note this [symmetric]
  with Cons show ?case
    by (auto simp: contrast_missing_def lacking_def case_shows_def split: arm_resources.splits)
qed (simp add: contrast_missing_def lacking_def)

lemma lacking_Nil:
  "lacking rcs m s = [] \<longleftrightarrow> (\<forall>rc \<in> set rcs. missing_reps (arm_of (rc_arms rc) m) = [] \<and> missing_reps (arm_of (rc_arms rc) s) = [])"
  by (auto simp: lacking_def)

lemma shown_available:
  assumes "case_shows rc c" "missing_reps (arm_of (rc_arms rc) arm) = []"
  shows "\<exists>a. available_resources c arm = Inr a \<and> mv_values (aa_elapsed a) \<noteq> [] \<and> mv_values (aa_worker_turns a) \<noteq> []
     \<and> (\<forall>k role. mv_values (metric_of k (role_metrics role a)) \<noteq> []
          \<and> mean (mv_values (metric_of k (role_metrics role a))) = Inr (arm_average k role arm rc))"
proof -
  let ?reps = "arm_of (rc_arms rc) arm"
  from assms(1) have shows_arm: "arm_shows ?reps (arm_of (rx_arms c) arm)" by (simp add: case_shows_def)
  with assms(2) obtain a where ar: "arm_of (rx_arms c) arm = AvailableArm a"
    by (cases "arm_of (rx_arms c) arm") (simp_all add: arm_shows_def)
  with shows_arm have a: "arm_of (rx_arms c) arm = AvailableArm a" "?reps \<noteq> []" "mv_values (aa_elapsed a) \<noteq> []"
    "mv_values (aa_worker_turns a) \<noteq> []" and v: "\<forall>k role. mv_values (metric_of k (role_metrics role a)) = sort (rep_values k role ?reps)"
    by (simp_all add: arm_shows_def)
  have len: "length (rep_values k role ?reps) = length ?reps" for k role
    using assms(2) by (simp add: rep_values_def missing_reps_complete)
  have ne: "rep_values k role ?reps \<noteq> []" for k role
    using len [of k role] a(2) by (metis length_0_conv)
  have ne': "sort (rep_values k role ?reps) \<noteq> []" for k role
    using ne [of k role] set_sort [of "\<lambda>x. x" "rep_values k role ?reps"] by (metis set_empty)
  then have "mean (sort (rep_values k role ?reps)) = Inr (arm_average k role arm rc)" for k role
    by (simp add: mean_eq arm_average_def sum_list_sort len)
  with a v ne' show ?thesis by (simp add: available_resources_def)
qed

lemma available_contrast_Inr:
  assumes "available_contrast_of estimate = Inr c"
  shows "\<exists>a. c = AvailableContrast a
     \<and> estimate (\<lambda>r. mv_values (metric_of k (role_metrics role r))) = Inr (metric_of k (contrast_metrics role a))"
proof -
  from assms obtain elapsed per_role totals turns where
    p: "roles_res (\<lambda>role. build_resource_metric_estimates estimate (\<lambda>r. aa_per_role r role)) = Inr per_role"
    and t: "build_resource_metric_estimates estimate aa_total = Inr totals"
    and c: "c = AvailableContrast \<lparr>av_elapsed = elapsed, av_per_role = per_role, av_total = totals, av_worker_turns = turns\<rparr>"
    by (auto simp: available_contrast_of_def res_simps)
  show ?thesis
    using metrics_res_Inr [OF t [unfolded build_resource_metric_estimates_def], of k]
      metrics_res_Inr [OF roles_res_Inr [OF p, unfolded build_resource_metric_estimates_def], where k = k]
    by (cases role) (auto simp: c role_metrics_def contrast_metrics_def)
qed

lemma paired_metric_value:
  assumes "list_all2 case_shows rcs cases" "lacking rcs m s = []"
    and "build_metric_estimate cases m s (\<lambda>r. mv_values (metric_of k (role_metrics role r))) = Inr e"
  shows "pe_mean_delta e = (\<Sum>rc\<leftarrow>rcs. arm_average k role m rc - arm_average k role s rc) / real (length rcs)"
proof -
  let ?v = "\<lambda>r. mv_values (metric_of k (role_metrics role r))"
  from assms(3) obtain obs where o: "map_res (\<lambda>c. bind_res (available_resources c m) (\<lambda>a.
      bind_res (available_resources c s) (\<lambda>b. Inr \<lparr>po_case = rx_case c, po_minuend = ?v a, po_subtrahend = ?v b\<rparr>))) cases = Inr obs"
    and e: "build_paired_estimate obs = Inr e" by (auto simp: build_metric_estimate_def res_simps)
  have "list_all2 (\<lambda>rc ob. case_delta ob = Inr (rc_case rc, arm_average k role m rc - arm_average k role s rc)) rcs obs"
    using assms(1,2) o
  proof (induction arbitrary: obs rule: list_all2_induct)
    case (Cons rc rcs c cases)
    from Cons.prems(1) have "missing_reps (arm_of (rc_arms rc) m) = []" "missing_reps (arm_of (rc_arms rc) s) = []"
      by (simp_all add: lacking_Nil)
    from shown_available [OF Cons.hyps(1) this(1)] shown_available [OF Cons.hyps(1) this(2)]
    obtain a b where ab: "available_resources c m = Inr a" "available_resources c s = Inr b"
      "mean (?v a) = Inr (arm_average k role m rc)" "mean (?v b) = Inr (arm_average k role s rc)" by blast
    from Cons.hyps(1) have "rx_case c = rc_case rc" by (simp add: case_shows_def)
    moreover have "lacking rcs m s = []" using Cons.prems(1) by (simp add: lacking_Nil)
    ultimately show ?case using Cons.prems(2) Cons.IH ab by (auto simp: res_simps case_delta_def list_all2_Cons1)
  qed simp
  then have "map_res case_delta obs = Inr (map (\<lambda>rc. (rc_case rc, arm_average k role m rc - arm_average k role s rc)) rcs)"
    by (induction rule: list_all2_induct) auto
  with build_paired_Inr [OF e] have
    d: "pe_case_deltas e = map (\<lambda>rc. (rc_case rc, arm_average k role m rc - arm_average k role s rc)) rcs"
    "pe_mean_delta e = sum_list (map snd (pe_case_deltas e)) / real (length (pe_case_deltas e))" by auto
  then show ?thesis by (simp add: o_def)
qed

lemma single_metric_value:
  assumes "case_shows rc c" "lacking [rc] m s = []"
    and "build_single_case_metric_estimate [c] m s (\<lambda>r. mv_values (metric_of k (role_metrics role r))) = Inr e"
  shows "me_delta e = arm_average k role m rc - arm_average k role s rc"
proof -
  from assms(2) have "missing_reps (arm_of (rc_arms rc) m) = []" "missing_reps (arm_of (rc_arms rc) s) = []"
    by (simp_all add: lacking_Nil)
  from shown_available [OF assms(1) this(1)] shown_available [OF assms(1) this(2)] assms(3) show ?thesis
    by (auto simp: build_single_case_metric_estimate_def build_single_case_mean_estimate_def arm_mean_of_def res_simps
        split: if_splits)
qed

subsection \<open>What cannot be reported\<close>

lemma contrasts_of_Inl: "contrasts_of f = Inl e \<Longrightarrow> \<exists>m s. f m s = Inl e"
  by (auto simp: contrasts_of_def bind_res_Inl_iff)

definition arm_observed :: "available_arm \<Rightarrow> bool" where
  "arm_observed a \<longleftrightarrow> mv_values (aa_elapsed a) \<noteq> [] \<and> mv_values (aa_worker_turns a) \<noteq> []
     \<and> (\<forall>k role. mv_values (metric_of k (role_metrics role a)) \<noteq> [])"

lemma available_contrast_Inl:
  assumes "available_contrast_of estimate = Inl e"
  shows "\<exists>vals. (\<forall>a. arm_observed a \<longrightarrow> vals a \<noteq> []) \<and> estimate vals = Inl e"
proof -
  have m: "\<exists>k. estimate (\<lambda>r. mv_values (metric_of k (mets r))) = Inl e"
    if "build_resource_metric_estimates estimate mets = Inl e" for mets
    using that unfolding build_resource_metric_estimates_def by (rule metrics_res_Inl)
  from assms have "estimate (\<lambda>r. mv_values (aa_elapsed r)) = Inl e
      \<or> roles_res (\<lambda>role. build_resource_metric_estimates estimate (\<lambda>r. aa_per_role r role)) = Inl e
      \<or> build_resource_metric_estimates estimate aa_total = Inl e \<or> estimate (\<lambda>r. mv_values (aa_worker_turns r)) = Inl e"
    unfolding available_contrast_of_def bind_res_Inl_iff by (elim disjE exE conjE) simp_all
  then consider "estimate (\<lambda>r. mv_values (aa_elapsed r)) = Inl e"
    | k role where "estimate (\<lambda>r. mv_values (metric_of k (aa_per_role r role))) = Inl e"
    | k where "estimate (\<lambda>r. mv_values (metric_of k (aa_total r))) = Inl e"
    | "estimate (\<lambda>r. mv_values (aa_worker_turns r)) = Inl e"
  proof (elim disjE)
    assume "roles_res (\<lambda>role. build_resource_metric_estimates estimate (\<lambda>r. aa_per_role r role)) = Inl e"
    from roles_res_Inl [OF this] obtain role where
      "build_resource_metric_estimates estimate (\<lambda>r. aa_per_role r role) = Inl e" by blast
    from m [OF this] that(2) show thesis by blast
  next
    assume "build_resource_metric_estimates estimate aa_total = Inl e"
    from m [OF this] that(3) show thesis by blast
  next
    assume "estimate (\<lambda>r. mv_values (aa_elapsed r)) = Inl e"
    then show thesis by (rule that(1))
  next
    assume "estimate (\<lambda>r. mv_values (aa_worker_turns r)) = Inl e"
    then show thesis by (rule that(4))
  qed
  then show ?thesis
  proof cases
    case 1
    then show ?thesis by (intro exI [of _ "\<lambda>r. mv_values (aa_elapsed r)"]) (simp add: arm_observed_def)
  next
    case 4
    then show ?thesis by (intro exI [of _ "\<lambda>r. mv_values (aa_worker_turns r)"]) (simp add: arm_observed_def)
  next
    case (2 k role)
    moreover have "mv_values (metric_of k (role_metrics (Some role) a)) \<noteq> []" if "arm_observed a" for a
      using that by (simp add: arm_observed_def)
    ultimately show ?thesis by (intro exI [of _ "\<lambda>r. mv_values (metric_of k (aa_per_role r role))"]) (simp add: role_metrics_def)
  next
    case (3 k)
    moreover have "mv_values (metric_of k (role_metrics None a)) \<noteq> []" if "arm_observed a" for a
      using that by (simp add: arm_observed_def)
    ultimately show ?thesis by (intro exI [of _ "\<lambda>r. mv_values (metric_of k (aa_total r))"]) (simp add: role_metrics_def)
  qed
qed

lemma shown_observed:
  assumes "case_shows rc c" "missing_reps (arm_of (rc_arms rc) arm) = []"
  shows "\<exists>a. available_resources c arm = Inr a \<and> arm_observed a"
  using shown_available [OF assms] by (auto simp: arm_observed_def)

lemma build_paired_Inl:
  assumes "\<And>ob. ob \<in> set obs \<Longrightarrow> po_minuend ob \<noteq> [] \<and> po_subtrahend ob \<noteq> []" "build_paired_estimate obs = Inl e"
  shows "e = TooFewCases \<and> length obs < 2"
proof (cases "length obs < 2")
  case True
  with assms(2) show ?thesis by (simp add: build_paired_estimate_def MINIMUM_PAIRED_CASES_def)
next
  case False
  define d where "d ob = (po_case ob, sum_list (po_minuend ob) / real (length (po_minuend ob))
    - sum_list (po_subtrahend ob) / real (length (po_subtrahend ob)))" for ob :: paired_observations
  have "mean xs = Inr (sum_list xs / real (length xs))" if "xs \<noteq> []" for xs using that by (simp add: mean_eq)
  then have "map_res case_delta obs = Inr (map d obs)"
    using assms(1) by (intro map_res_total) (simp add: case_delta_def d_def)
  with False have "is_ok (build_paired_estimate obs)"
    by (auto simp: build_paired_estimate_def MINIMUM_PAIRED_CASES_def mean_def Let_def)
  with assms(2) show ?thesis by simp
qed

lemma paired_contrast_Inl:
  assumes "list_all2 case_shows rcs cases" "build_resource_contrast cases m s = Inl e"
  shows "e = TooFewCases \<and> length rcs < 2"
proof -
  from assms have l: "lacking rcs m s = []" and "available_contrast_of (build_metric_estimate cases m s) = Inl e"
    by (auto simp: build_resource_contrast_def contrast_missing_lacking Let_def split: if_splits)
  from available_contrast_Inl [OF this(2)] obtain vals where
    v: "\<And>a. arm_observed a \<Longrightarrow> vals a \<noteq> []" and e: "build_metric_estimate cases m s vals = Inl e" by blast
  let ?f = "\<lambda>c. bind_res (available_resources c m) (\<lambda>a. bind_res (available_resources c s) (\<lambda>b.
    Inr \<lparr>po_case = rx_case c, po_minuend = vals a, po_subtrahend = vals b\<rparr>))"
  have "\<exists>ob. ?f c = Inr ob \<and> po_minuend ob \<noteq> [] \<and> po_subtrahend ob \<noteq> []" if "c \<in> set cases" for c
  proof -
    from that assms(1) obtain rc where "rc \<in> set rcs" "case_shows rc c"
      by (metis in_set_conv_nth list_all2_conv_all_nth nth_mem)
    with l shown_observed [of rc c m] shown_observed [of rc c s] obtain a b where
      "available_resources c m = Inr a" "available_resources c s = Inr b" "arm_observed a" "arm_observed b"
      by (metis lacking_Nil)
    with v show ?thesis by simp
  qed
  then obtain g where g: "\<And>c. c \<in> set cases \<Longrightarrow> ?f c = Inr (g c) \<and> po_minuend (g c) \<noteq> [] \<and> po_subtrahend (g c) \<noteq> []"
    by metis
  then have "map_res ?f cases = Inr (map g cases)" by (intro map_res_total) blast
  with e have "build_paired_estimate (map g cases) = Inl e" by (simp add: build_metric_estimate_def)
  then have "e = TooFewCases \<and> length (map g cases) < 2"
    by (rule build_paired_Inl [rotated]) (use g in auto)
  with list_all2_lengthD [OF assms(1)] show ?thesis by simp
qed

lemma single_contrast_Inr:
  assumes "case_shows rc c"
  shows "is_ok (build_single_case_resource_contrast [c] m s)"
proof (cases "build_single_case_resource_contrast [c] m s")
  case (Inl e)
  have "list_all2 case_shows [rc] [c]" using assms by simp
  note missing = contrast_missing_lacking [OF this]
  from Inl have l: "lacking [rc] m s = []" and "available_contrast_of (build_single_case_metric_estimate [c] m s) = Inl e"
    by (auto simp: build_single_case_resource_contrast_def missing Let_def split: if_splits)
  from available_contrast_Inl [OF this(2)] obtain vals where
    v: "\<And>a. arm_observed a \<Longrightarrow> vals a \<noteq> []" and e: "build_single_case_metric_estimate [c] m s vals = Inl e" by blast
  from l shown_observed [OF assms, of m] shown_observed [OF assms, of s] obtain a b where
    "available_resources c m = Inr a" "available_resources c s = Inr b" "vals a \<noteq> []" "vals b \<noteq> []"
    using v by (auto simp: lacking_Nil)
  with e have False
    by (auto simp: build_single_case_metric_estimate_def build_single_case_mean_estimate_def arm_mean_of_def mean_def)
  then show ?thesis ..
qed simp

subsection \<open>Each contrast\<close>

lemma paired_contrast_exact:
  assumes "list_all2 case_shows rcs cases" "build_resource_contrast cases m s = Inr contrast"
  shows "case contrast of
       UnavailableContrast missing \<Rightarrow> missing = lacking rcs m s \<and> missing \<noteq> []
     | AvailableContrast a \<Rightarrow> lacking rcs m s = []
         \<and> pe_mean_delta (metric_of k (contrast_metrics role a))
           = (\<Sum>rc\<leftarrow>rcs. arm_average k role m rc - arm_average k role s rc) / real (length rcs)"
proof (cases "lacking rcs m s = []")
  case True
  with assms(2) contrast_missing_lacking [OF assms(1), of m s]
  have "available_contrast_of (build_metric_estimate cases m s) = Inr contrast"
    by (simp add: build_resource_contrast_def)
  from available_contrast_Inr [OF this, of k role] paired_metric_value [OF assms(1) True] True show ?thesis by auto
next
  case False
  with assms(2) contrast_missing_lacking [OF assms(1), of m s] show ?thesis
    by (auto simp: build_resource_contrast_def Let_def)
qed

lemma single_contrast_exact:
  assumes "case_shows rc c" "build_single_case_resource_contrast [c] m s = Inr contrast"
  shows "case contrast of
       UnavailableContrast missing \<Rightarrow> missing = lacking [rc] m s \<and> missing \<noteq> []
     | AvailableContrast a \<Rightarrow> lacking [rc] m s = []
         \<and> me_delta (metric_of k (contrast_metrics role a)) = arm_average k role m rc - arm_average k role s rc"
proof (cases "lacking [rc] m s = []")
  case True
  with assms contrast_missing_lacking [of "[rc]" "[c]" m s]
  have "available_contrast_of (build_single_case_metric_estimate [c] m s) = Inr contrast"
    by (simp add: build_single_case_resource_contrast_def)
  from available_contrast_Inr [OF this, of k role] single_metric_value [OF assms(1) True] True show ?thesis by auto
next
  case False
  with assms contrast_missing_lacking [of "[rc]" "[c]" m s] show ?thesis
    by (auto simp: build_single_case_resource_contrast_def Let_def)
qed

lemma resource_cases_Inl:
  assumes "comparison_resource_cases ct rcs = Inl e"
  shows "e = NoObservations \<and> list_ex (\<lambda>rc. list_ex (\<lambda>arm. arm_of (rc_arms rc) arm = []) [Baseline, Control, Candidate]) rcs"
proof -
  from map_res_Inl_ex [OF assms [unfolded comparison_resource_cases_def]]
  obtain rc where rc: "rc \<in> set rcs" and e: "resource_case_of ct rc = Inl e" by blast
  from e obtain reps where "reps \<in> {ar_baseline (rc_arms rc), ar_candidate (rc_arms rc), ar_control (rc_arms rc)}"
    "arm_resources_of ct reps = Inl e" by (auto simp: resource_case_of_def bind_res_Inl_iff)
  with arm_resources_Inl rc show ?thesis by (auto simp: list_ex_iff)
qed

subsection \<open>Properties\<close>

text \<open>A contrast of two arms is missing exactly when some repetition of either lacks its metrics, and
  then names every one that does, with its case and arm. Otherwise its estimate of every metric, of all
  calls or of one role's, is the mean over the cases of what the one arm's repetitions consumed on
  average less what the other's did. Nothing is thrown unless an arm has no repetition or there is
  no case.\<close>

theorem resource_contrasts_exact:
  "case build_comparison_resources ct rcs of
     Inl e \<Rightarrow>
       e = NoObservations \<and> list_ex (\<lambda>rc. list_ex (\<lambda>arm. arm_of (rc_arms rc) arm = []) [Baseline, Control, Candidate]) rcs
       \<or> e = TooFewCases \<and> rcs = []
   | Inr (PairedResources cases cs) \<Rightarrow>
       list_all (\<lambda>(m, s, contrast). case contrast of
           UnavailableContrast missing \<Rightarrow> missing = lacking rcs m s \<and> missing \<noteq> []
         | AvailableContrast a \<Rightarrow> lacking rcs m s = []
             \<and> pe_mean_delta (metric_of k (contrast_metrics role a))
               = (\<Sum>rc\<leftarrow>rcs. arm_average k role m rc - arm_average k role s rc) / real (length rcs))
         [(Candidate, Baseline, cs_candidate_minus_baseline cs), (Candidate, Control, cs_candidate_minus_control cs),
          (Baseline, Control, cs_baseline_minus_control cs)]
   | Inr (SingleResources cases cs) \<Rightarrow>
       \<exists>rc. rcs = [rc] \<and> list_all (\<lambda>(m, s, contrast). case contrast of
           UnavailableContrast missing \<Rightarrow> missing = lacking rcs m s \<and> missing \<noteq> []
         | AvailableContrast a \<Rightarrow> lacking rcs m s = []
             \<and> me_delta (metric_of k (contrast_metrics role a)) = arm_average k role m rc - arm_average k role s rc)
         [(Candidate, Baseline, cs_candidate_minus_baseline cs), (Candidate, Control, cs_candidate_minus_control cs),
          (Baseline, Control, cs_baseline_minus_control cs)]"
proof (cases "comparison_resource_cases ct rcs")
  case (Inl e)
  with resource_cases_Inl [OF Inl] show ?thesis by (simp add: build_comparison_resources_def)
next
  case cases: (Inr cases)
  note shown = cases_show [OF cases]
  show ?thesis
  proof (cases "length cases = 1")
    case True
    then obtain c where c: "cases = [c]" by (cases cases) auto
    with shown obtain rc where rc: "rcs = [rc]" "case_shows rc c" by (auto simp: list_all2_Cons2)
    obtain cs where cs: "contrasts_of (build_single_case_resource_contrast [c]) = Inr cs"
      using single_contrast_Inr [OF rc(2)] contrasts_of_Inl [of "build_single_case_resource_contrast [c]"]
      by (cases "contrasts_of (build_single_case_resource_contrast [c])") (metis is_ok_simps(2), blast)
    note each = cs [unfolded contrasts_of_Inr, THEN conjunct1, THEN single_contrast_exact [OF rc(2)]]
      cs [unfolded contrasts_of_Inr, THEN conjunct2, THEN conjunct1, THEN single_contrast_exact [OF rc(2)]]
      cs [unfolded contrasts_of_Inr, THEN conjunct2, THEN conjunct2, THEN single_contrast_exact [OF rc(2)]]
    have "build_comparison_resources ct rcs = Inr (SingleResources [c] cs)"
      by (simp add: build_comparison_resources_def cases c cs)
    then show ?thesis
      using each [where k = k and role = role] rc(1) by simp
  next
    case False
    show ?thesis
    proof (cases "contrasts_of (build_resource_contrast cases)")
      case (Inl e)
      from contrasts_of_Inl [OF Inl] obtain m s where "build_resource_contrast cases m s = Inl e" by blast
      from paired_contrast_Inl [OF shown this] list_all2_lengthD [OF shown] False
      have "e = TooFewCases \<and> rcs = []" by (cases rcs) (auto simp: less_2_cases_iff)
      moreover have "build_comparison_resources ct rcs = Inl e"
        using Inl False by (simp add: build_comparison_resources_def cases)
      ultimately show ?thesis by simp
    next
      case (Inr cs)
      note each = Inr [unfolded contrasts_of_Inr, THEN conjunct1, THEN paired_contrast_exact [OF shown]]
        Inr [unfolded contrasts_of_Inr, THEN conjunct2, THEN conjunct1, THEN paired_contrast_exact [OF shown]]
        Inr [unfolded contrasts_of_Inr, THEN conjunct2, THEN conjunct2, THEN paired_contrast_exact [OF shown]]
      have "build_comparison_resources ct rcs = Inr (PairedResources cases cs)"
        using Inr False by (simp add: build_comparison_resources_def cases)
      then show ?thesis
        using each [where k = k and role = role] by simp
    qed
  qed
qed

end
