(* ===== verification/JsonText.thy ===== *)
theory JsonText
  imports Prelude
begin

text \<open>
  What \<open>JSON.stringify\<close> prints of strings, of arrays and of records with fixed fields, as far as the
  sources use the text itself: as a key of a \<open>Map\<close> and as what a digest is taken of. Both rest on the
  text telling the values apart, so the printers are shown to be self-delimiting: the text read so
  far says where the value ends. The contract is a locale, closed under arrays and interpreted on strings.
\<close>

subsection \<open>Printing\<close>

definition hex_digit :: "nat \<Rightarrow> char" where
  "hex_digit n = ''0123456789abcdef'' ! n"

text \<open>\<open>QuoteJSONString\<close> on one character (up to code point 255, so no surrogates): its table of short
  escapes, the code of another control character, or the character itself.\<close>

definition short_escapes :: "(char \<times> char) list" where
  "short_escapes = [(CHR 0x22, CHR 0x22), (CHR 0x5C, CHR 0x5C), (CHR 0x08, CHR ''b''), (CHR 0x0C, CHR ''f''),
     (CHR 0x0A, CHR ''n''), (CHR 0x0D, CHR ''r''), (CHR 0x09, CHR ''t'')]"

definition escape_char :: "char \<Rightarrow> string" where
  "escape_char c =
     (case map_of short_escapes c of
        Some k \<Rightarrow> [CHR 0x5C, k]
      | None \<Rightarrow>
          if of_char c < (32 :: nat)
          then [CHR 0x5C, CHR ''u'', CHR ''0'', CHR ''0'', hex_digit (of_char c div 16), hex_digit (of_char c mod 16)]
          else [c])"

definition json_quote :: "string \<Rightarrow> string" where
  "json_quote s = CHR 0x22 # concat (map escape_char s) @ [CHR 0x22]"

definition json_array :: "string list \<Rightarrow> string" where
  "json_array parts = ''['' @ join_with '','' parts @ '']''"

definition json_object :: "(string \<times> string) list \<Rightarrow> string" where
  "json_object fields = ''{'' @ join_with '','' (map (\<lambda>(k, v). json_quote k @ '':'' @ v) fields) @ ''}''"

subsection \<open>Self-delimiting printers\<close>

locale json_printer =
  fixes pr :: "'a \<Rightarrow> string"
  assumes cut: "pr x @ r = pr y @ r' \<Longrightarrow> x = y \<and> r = r'"
    and opens: "\<exists>c cs. pr x = c # cs \<and> c \<noteq> CHR '']''"
begin

lemma cut_iff [simp]: "pr x @ r = pr y @ r' \<longleftrightarrow> x = y \<and> r = r'"
  using cut by blast

lemma printed_inj: "pr x = pr y \<longleftrightarrow> x = y"
  using cut_iff [of x "[]" y "[]"] by simp

lemma parts_cut:
  "join_with '','' (map pr xs) @ CHR '']'' # r = join_with '','' (map pr ys) @ CHR '']'' # r' \<Longrightarrow> xs = ys \<and> r = r'"
proof (induction xs arbitrary: ys)
  case Nil
  show ?case
  proof (cases ys)
    case (Cons y zs)
    from opens [of y] obtain c cs where "pr y = c # cs" "c \<noteq> CHR '']''" by blast
    with Nil Cons show ?thesis by (cases zs) simp_all
  qed (use Nil in simp)
next
  case (Cons x xs)
  from opens [of x] obtain c cs where x: "pr x = c # cs" "c \<noteq> CHR '']''" by blast
  show ?case
  proof (cases ys)
    case Nil
    with Cons.prems x show ?thesis by (cases xs) simp_all
  next
    case ys: (Cons y zs)
    show ?thesis
    proof (cases xs; cases zs)
      fix a as b bs
      assume "xs = a # as" "zs = b # bs"
      with Cons.prems Cons.IH [of zs] ys show ?thesis by simp
    qed (use Cons.prems ys in simp_all)
  qed
qed

lemma array_cut:
  "json_array (map pr xs) @ r = json_array (map pr ys) @ r' \<longleftrightarrow> xs = ys \<and> r = r'"
  using parts_cut [of xs r ys r'] by (auto simp: json_array_def)

lemma array_inj: "json_array (map pr xs) = json_array (map pr ys) \<longleftrightarrow> xs = ys"
  using array_cut [of xs "[]" ys "[]"] by simp

lemma array_printer: "json_printer (\<lambda>xs. json_array (map pr xs))"
proof
  show "json_array (map pr xs) @ r = json_array (map pr ys) @ r' \<Longrightarrow> xs = ys \<and> r = r'" for xs ys r r'
    by (simp add: array_cut)
qed (simp add: json_array_def)

end

subsection \<open>Strings\<close>

lemma hex_digit_inj: "a < 16 \<Longrightarrow> b < 16 \<Longrightarrow> hex_digit a = hex_digit b \<Longrightarrow> a = b"
  unfolding hex_digit_def
  by (rule nth_eq_iff_index_eq [of "''0123456789abcdef''", THEN iffD1]) simp_all

lemma code_split: "of_char c div 16 = (of_char d div 16 :: nat) \<Longrightarrow> of_char c mod 16 = (of_char d mod 16 :: nat) \<Longrightarrow> c = d"
  by (metis div_mult_mod_eq of_char_eq_iff)

lemma short_escapes_inj:
  "map_of short_escapes c = Some k \<Longrightarrow> map_of short_escapes d = Some k \<Longrightarrow> c = d"
  by (auto simp: short_escapes_def split: if_splits)

lemma short_escapes_Some: "map_of short_escapes c = Some k \<Longrightarrow> k \<noteq> CHR ''u''"
  by (auto simp: short_escapes_def split: if_splits)

lemma short_escapes_None: "map_of short_escapes c = None \<Longrightarrow> c \<noteq> CHR 0x5C \<and> c \<noteq> CHR 0x22"
  by (auto simp: short_escapes_def)

lemma hex_pair_inj:
  assumes "of_char c < (32 :: nat)" "of_char d < (32 :: nat)"
    and "hex_digit (of_char c div 16) = hex_digit (of_char d div 16)"
    and "hex_digit (of_char c mod 16) = hex_digit (of_char d mod 16)"
  shows "c = d"
proof (rule code_split)
  show "of_char c div 16 = (of_char d div 16 :: nat)"
    by (rule hex_digit_inj) (use assms in linarith)+
  show "of_char c mod 16 = (of_char d mod 16 :: nat)"
    by (rule hex_digit_inj) (use assms in simp_all)
qed

lemma escape_char_cases:
  obtains (short) k where "map_of short_escapes c = Some k" "k \<noteq> CHR ''u''" "escape_char c = [CHR 0x5C, k]"
  | (control) "of_char c < (32 :: nat)"
      "escape_char c = CHR 0x5C # CHR ''u'' # CHR ''0'' # CHR ''0'' # [hex_digit (of_char c div 16), hex_digit (of_char c mod 16)]"
  | (plain) "c \<noteq> CHR 0x5C" "c \<noteq> CHR 0x22" "escape_char c = [c]"
proof (cases "map_of short_escapes c")
  case None
  with short_escapes_None [OF None] that show ?thesis
    by (cases "of_char c < (32 :: nat)") (simp_all add: escape_char_def)
next
  case (Some k)
  with short_escapes_Some [OF Some] that show ?thesis by (simp add: escape_char_def)
qed

lemma escape_char_cut:
  assumes "escape_char c @ r = escape_char d @ r'"
  shows "c = d \<and> r = r'"
proof (cases c rule: escape_char_cases)
  case c: (short k)
  show ?thesis
    by (cases d rule: escape_char_cases) (use assms c in \<open>simp_all add: short_escapes_inj\<close>)
next
  case c: control
  show ?thesis
    by (cases d rule: escape_char_cases) (use assms c in \<open>simp_all add: hex_pair_inj\<close>)
next
  case c: plain
  show ?thesis
    by (cases d rule: escape_char_cases) (use assms c in simp_all)
qed

lemma escape_char_opens: "\<exists>k ks. escape_char c = k # ks \<and> k \<noteq> CHR 0x22"
  by (auto simp: escape_char_def split: option.splits dest: short_escapes_None)

lemma escaped_cut:
  "concat (map escape_char s) @ CHR 0x22 # r = concat (map escape_char t) @ CHR 0x22 # r' \<Longrightarrow> s = t \<and> r = r'"
proof (induction s arbitrary: t)
  case Nil
  show ?case
  proof (cases t)
    case (Cons d u)
    from escape_char_opens [of d] obtain k ks where "escape_char d = k # ks" "k \<noteq> CHR 0x22" by blast
    with Nil Cons show ?thesis by simp
  qed (use Nil in simp)
next
  case (Cons c s)
  from escape_char_opens [of c] obtain k ks where k: "escape_char c = k # ks" "k \<noteq> CHR 0x22" by blast
  show ?case
  proof (cases t)
    case Nil
    with Cons.prems k show ?thesis by simp
  next
    case (Cons d u)
    with Cons.prems have "escape_char c @ concat (map escape_char s) @ CHR 0x22 # r
        = escape_char d @ concat (map escape_char u) @ CHR 0x22 # r'" by simp
    from escape_char_cut [OF this] Cons.IH Cons show ?thesis by blast
  qed
qed

interpretation quoted: json_printer json_quote
proof
  show "json_quote s @ r = json_quote t @ r' \<Longrightarrow> s = t \<and> r = r'" for s t r r'
    using escaped_cut [of s r t r'] by (simp add: json_quote_def)
qed (simp add: json_quote_def)

end
