(* ===== verification/JudgeAgreement.thy ===== *)
theory JudgeAgreement
  imports FinalJudge JsonText "HOL-Library.AList" "HOL-Library.Char_ord" "HOL-Library.List_Lexorder"
    "HOL-Library.Product_Lexorder"
begin

text \<open>
  How far the Judges agree with the human who calibrated them: the observations of a calibration
  (\<open>judge-agreement-observations.ts\<close>), their counts and Cohen's kappa (\<open>judge-agreement-counts.ts\<close>) and
  what the report's schema demands (\<open>judge-agreement-contract.ts\<close>).

  A JavaScript \<open>Map\<close> is the list of its entries in insertion order, \<open>AList.update\<close> being its \<open>set\<close>. The
  digest is a parameter.
\<close>

subsection \<open>Calibrations\<close>

datatype judge_assessment = CAUGHT | MISSED | FALSE_POSITIVE | NOT_PROMOTED

datatype review_verdict = ACCEPT | REJECT

record human_finding =
  hf_description :: string
  hf_assessment :: judge_assessment
  hf_paths :: "string list"
  hf_rubric :: "string option"
  hf_stage :: string

record human_review =
  hr_findings :: "human_finding list"
  hr_summary :: string
  hr_verdict :: review_verdict

record calibrated_stage =
  cal_contract :: "string option"
  cal_stage :: string
  cal_rubric :: stage_rubric
  cal_grade :: stage_grade

record calibrated_final =
  caf_contract :: "string option"
  caf_rubric :: string
  caf_grade :: "final_recorded_evidence judge_grade"

record agreement_calibration =
  cab_model :: string
  cab_review :: human_review
  cab_stages :: "calibrated_stage list"
  cab_final :: "calibrated_final option"

record agreement_observation =
  ao_contract :: "string option"
  ao_model :: string
  ao_stage :: string
  ao_sha :: string
  ao_rubric :: string
  ao_judge :: pass_fail
  ao_human :: pass_fail

subsection \<open>The observations of a calibration\<close>

text \<open>\<open>JSON.stringify\<close> with a list of keys: the keys an object has, in the order of the list.\<close>

definition rubric_item_text :: "rubric_item \<Rightarrow> string" where
  "rubric_item_text i =
     json_object [(''id'', json_quote (ri_id i)), (''description'', json_quote (ri_description i))]"

definition rubric_dimension_text :: "rubric_dimension \<Rightarrow> string" where
  "rubric_dimension_text d =
     json_object [(''id'', json_quote (ri_id d)), (''description'', json_quote (ri_description d)),
       (''good'', json_quote (rd_good d)), (''excellent'', json_quote (rd_excellent d))]"

definition stage_rubric_text :: "stage_rubric \<Rightarrow> string" where
  "stage_rubric_text r =
     json_object [(''hardBlockers'', json_array (map rubric_item_text (rb_hard_blockers r))),
       (''requirements'', json_array (map rubric_item_text (rb_requirements r))),
       (''dimensions'', json_array (map rubric_dimension_text (rb_dimensions r)))]"

definition stage_rubric_sha256 :: "(string \<Rightarrow> string) \<Rightarrow> stage_rubric \<Rightarrow> string" where
  "stage_rubric_sha256 sha r = sha (stage_rubric_text r)"

definition final_rubric_sha256 :: "(string \<Rightarrow> string) \<Rightarrow> string \<Rightarrow> string" where
  "final_rubric_sha256 sha r = sha r"

definition human_decision :: "human_review \<Rightarrow> string \<Rightarrow> string \<Rightarrow> pass_fail \<Rightarrow> pass_fail" where
  "human_decision review stage rubric_id judged =
     (let assessments = map hf_assessment
            (filter (\<lambda>f. hf_stage f = stage \<and> hf_rubric f = Some rubric_id) (hr_findings review))
      in if list_ex (\<lambda>a. a = CAUGHT \<or> a = MISSED) assessments then FAIL
         else if FALSE_POSITIVE \<in> set assessments then PASS
         else judged)"

definition stage_decision :: "stage_grade \<Rightarrow> string \<Rightarrow> string + pass_fail" where
  "stage_decision g rubric_id =
     (case List.find (\<lambda>b. gi_id b = rubric_id) (so_hard_blockers (sg_output g)) of
        Some b \<Rightarrow> Inr (gi_status b)
      | None \<Rightarrow>
          (case List.find (\<lambda>r. gi_id r = rubric_id) (so_requirements (sg_output g)) of
             Some r \<Rightarrow> Inr (gi_status r)
           | None \<Rightarrow>
               (case List.find (\<lambda>d. gd_id d = rubric_id) (so_dimensions (sg_output g)) of
                  Some d \<Rightarrow> Inr (if gd_grade d = GradeA \<or> gd_grade d = GradeB then PASS else FAIL)
                | None \<Rightarrow> Inl (''Stage grade is missing rubric criterion '' @ rubric_id))))"

definition rubric_ids :: "stage_rubric \<Rightarrow> string list" where
  "rubric_ids r = map ri_id (rb_hard_blockers r) @ map ri_id (rb_requirements r) @ map ri_id (rb_dimensions r)"

definition stage_observations ::
    "(string \<Rightarrow> string) \<Rightarrow> string \<Rightarrow> human_review \<Rightarrow> calibrated_stage \<Rightarrow> string + agreement_observation list" where
  "stage_observations sha model review c =
     (let rubric_sha = stage_rubric_sha256 sha (cal_rubric c)
      in map_res (\<lambda>rubric_id. bind_res (stage_decision (cal_grade c) rubric_id) (\<lambda>judged.
           Inr \<lparr>ao_contract = cal_contract c, ao_model = model, ao_stage = cal_stage c, ao_sha = rubric_sha,
                ao_rubric = rubric_id, ao_judge = judged,
                ao_human = human_decision review (cal_stage c) rubric_id judged\<rparr>)) (rubric_ids (cal_rubric c)))"

definition final_observations ::
    "(string \<Rightarrow> string) \<Rightarrow> string \<Rightarrow> human_review \<Rightarrow> calibrated_final \<Rightarrow> agreement_observation list" where
  "final_observations sha model review c =
     (let rubric_sha = final_rubric_sha256 sha (caf_rubric c)
      in map (\<lambda>r. \<lparr>ao_contract = caf_contract c, ao_model = model, ao_stage = ''final'', ao_sha = rubric_sha,
           ao_rubric = gi_id r, ao_judge = gi_status r,
           ao_human = human_decision review ''final'' (gi_id r) (gi_status r)\<rparr>) (jg_requirements (caf_grade c)))"

definition calibration_observations ::
    "(string \<Rightarrow> string) \<Rightarrow> agreement_calibration \<Rightarrow> string + agreement_observation list" where
  "calibration_observations sha c =
     bind_res (map_res (stage_observations sha (cab_model c) (cab_review c)) (cab_stages c)) (\<lambda>stages.
       Inr (case cab_final c of
              None \<Rightarrow> concat stages
            | Some f \<Rightarrow> concat stages @ final_observations sha (cab_model c) (cab_review c) f))"

subsection \<open>Counting\<close>

record criterion_counts =
  cc_pass_pass :: nat
  cc_fail_fail :: nat
  cc_pass_fail :: nat
  cc_fail_pass :: nat

text \<open>The Judge's decision first, then the human's: \<open>judgePassHumanFail\<close> is \<open>cc_pass_fail\<close>.\<close>

record agreement_baseline =
  mb_contract :: string
  mb_model :: string
  mb_stage :: string
  mb_sha :: string
  mb_criteria :: "(string \<times> criterion_counts) list"

record agreement_counts =
  ac_skipped :: nat
  ac_baselines :: "(string \<times> agreement_baseline) list"

record agreement_criterion =
  jc_rubric :: string
  jc_sample_size :: nat
  jc_counts :: criterion_counts
  jc_kappa :: "real option"
  jc_agreement :: real

record report_baseline =
  jb_contract :: string
  jb_model :: string
  jb_stage :: string
  jb_sha :: string
  jb_criteria :: "agreement_criterion list"

record agreement_report =
  ar_skipped_unknown :: nat
  ar_skipped_calibrations :: nat
  ar_baselines :: "report_baseline list"

definition compare_text :: "string \<Rightarrow> string \<Rightarrow> int" where
  "compare_text left right = (if left < right then -1 else if left > right then 1 else 0)"

text \<open>\<open>Array.toSorted\<close>, which is stable: an element goes before the first that is not below it.\<close>

fun sorted_into :: "('a \<Rightarrow> 'a \<Rightarrow> int) \<Rightarrow> 'a \<Rightarrow> 'a list \<Rightarrow> 'a list" where
  "sorted_into cmp x [] = [x]"
| "sorted_into cmp x (y # ys) = (if cmp x y \<le> 0 then x # y # ys else y # sorted_into cmp x ys)"

definition to_sorted :: "('a \<Rightarrow> 'a \<Rightarrow> int) \<Rightarrow> 'a list \<Rightarrow> 'a list" where
  "to_sorted cmp xs = foldr (sorted_into cmp) xs []"

text \<open>\<open>a || b\<close> on numbers.\<close>

definition or_else :: "int \<Rightarrow> int \<Rightarrow> int" where
  "or_else a b = (if a \<noteq> 0 then a else b)"

definition cohens_kappa :: "criterion_counts \<Rightarrow> real option" where
  "cohens_kappa c =
     (let denominator = (cc_pass_pass c + cc_pass_fail c) * (cc_pass_fail c + cc_fail_fail c)
            + (cc_fail_pass c + cc_fail_fail c) * (cc_pass_pass c + cc_fail_pass c)
      in if denominator = 0 then None
         else Some (2 * (real (cc_pass_pass c) * real (cc_fail_fail c) - real (cc_pass_fail c) * real (cc_fail_pass c))
                / real denominator))"

definition summarize_criterion :: "string \<times> criterion_counts \<Rightarrow> agreement_criterion" where
  "summarize_criterion p =
     (case p of (rubric_id, c) \<Rightarrow>
        let sample_size = cc_pass_pass c + cc_fail_fail c + cc_pass_fail c + cc_fail_pass c
        in \<lparr>jc_rubric = rubric_id, jc_sample_size = sample_size, jc_counts = c, jc_kappa = cohens_kappa c,
            jc_agreement = real (cc_pass_pass c + cc_fail_fail c) / real sample_size\<rparr>)"

definition baseline_key :: "agreement_observation \<Rightarrow> string \<Rightarrow> string" where
  "baseline_key ob sha = json_array (map json_quote [ao_model ob, ao_stage ob, ao_sha ob, sha])"

definition increment_counts :: "criterion_counts \<Rightarrow> agreement_observation \<Rightarrow> criterion_counts" where
  "increment_counts c ob =
     (case ao_judge ob of
        PASS \<Rightarrow>
          (case ao_human ob of
             PASS \<Rightarrow> c\<lparr>cc_pass_pass := cc_pass_pass c + 1\<rparr>
           | FAIL \<Rightarrow> c\<lparr>cc_pass_fail := cc_pass_fail c + 1\<rparr>)
      | FAIL \<Rightarrow>
          (case ao_human ob of
             PASS \<Rightarrow> c\<lparr>cc_fail_pass := cc_fail_pass c + 1\<rparr>
           | FAIL \<Rightarrow> c\<lparr>cc_fail_fail := cc_fail_fail c + 1\<rparr>))"

definition no_counts :: criterion_counts where
  "no_counts = \<lparr>cc_pass_pass = 0, cc_fail_fail = 0, cc_pass_fail = 0, cc_fail_pass = 0\<rparr>"

text \<open>\<open>baselineFor\<close>: the baselines, with a new one where the key had none, and the key's baseline.\<close>

definition baseline_for ::
    "agreement_counts \<Rightarrow> agreement_observation \<Rightarrow> string \<Rightarrow> agreement_counts \<times> agreement_baseline" where
  "baseline_for st ob sha =
     (case map_of (ac_baselines st) (baseline_key ob sha) of
        Some b \<Rightarrow> (st, b)
      | None \<Rightarrow>
          let b = \<lparr>mb_contract = sha, mb_model = ao_model ob, mb_stage = ao_stage ob, mb_sha = ao_sha ob,
                   mb_criteria = []\<rparr>
          in (st\<lparr>ac_baselines := AList.update (baseline_key ob sha) b (ac_baselines st)\<rparr>, b))"

text \<open>\<open>include\<close>. The source changes the baseline the map holds; here it is put back under its key.\<close>

definition include_observation :: "agreement_counts \<Rightarrow> agreement_observation \<Rightarrow> agreement_counts" where
  "include_observation st ob =
     (case ao_contract ob of
        None \<Rightarrow> st\<lparr>ac_skipped := ac_skipped st + 1\<rparr>
      | Some sha \<Rightarrow>
          let (st', b) = baseline_for st ob sha;
              counts = (case map_of (mb_criteria b) (ao_rubric ob) of Some c \<Rightarrow> c | None \<Rightarrow> no_counts);
              b' = b\<lparr>mb_criteria := AList.update (ao_rubric ob) (increment_counts counts ob) (mb_criteria b)\<rparr>
          in st'\<lparr>ac_baselines := AList.update (baseline_key ob sha) b' (ac_baselines st')\<rparr>)"

definition compare_baselines :: "agreement_baseline \<Rightarrow> agreement_baseline \<Rightarrow> int" where
  "compare_baselines left right =
     or_else (compare_text (mb_model left) (mb_model right))
       (or_else (compare_text (mb_stage left) (mb_stage right))
         (or_else (compare_text (mb_sha left) (mb_sha right)) (compare_text (mb_contract left) (mb_contract right))))"

definition baseline_report :: "agreement_baseline \<Rightarrow> report_baseline" where
  "baseline_report b =
     \<lparr>jb_contract = mb_contract b, jb_model = mb_model b, jb_stage = mb_stage b, jb_sha = mb_sha b,
      jb_criteria = map summarize_criterion (to_sorted (\<lambda>l r. compare_text (fst l) (fst r)) (mb_criteria b))\<rparr>"

definition counts_report :: "agreement_counts \<Rightarrow> nat \<Rightarrow> agreement_report" where
  "counts_report st skipped =
     \<lparr>ar_skipped_unknown = ac_skipped st, ar_skipped_calibrations = skipped,
      ar_baselines = map baseline_report (to_sorted compare_baselines (map snd (ac_baselines st)))\<rparr>"

definition build_judge_agreement_report :: "agreement_observation list \<Rightarrow> nat \<Rightarrow> agreement_report" where
  "build_judge_agreement_report obs skipped =
     counts_report (foldl include_observation \<lparr>ac_skipped = 0, ac_baselines = []\<rparr> obs) skipped"

definition filter_judge_agreement_report :: "agreement_report \<Rightarrow> string list \<Rightarrow> agreement_report" where
  "filter_judge_agreement_report r models =
     \<lparr>ar_skipped_unknown = ar_skipped_unknown r, ar_skipped_calibrations = ar_skipped_calibrations r,
      ar_baselines = filter (\<lambda>b. jb_model b \<in> set models) (ar_baselines r)\<rparr>"

subsection \<open>What a digest is taken of\<close>

text \<open>The text tells rubrics apart, so that a digest without collisions does.\<close>

interpretation item_text: json_printer rubric_item_text
proof
  show "rubric_item_text x @ r = rubric_item_text y @ r' \<Longrightarrow> x = y \<and> r = r'" for x y r r'
    by (cases x; cases y) (simp add: rubric_item_text_def json_object_def)
qed (simp add: rubric_item_text_def json_object_def)

interpretation dimension_text: json_printer rubric_dimension_text
proof
  show "rubric_dimension_text x @ r = rubric_dimension_text y @ r' \<Longrightarrow> x = y \<and> r = r'" for x y r r'
    by (cases x; cases y) (simp add: rubric_dimension_text_def json_object_def)
qed (simp add: rubric_dimension_text_def json_object_def)

lemma stage_rubric_text_inj: "stage_rubric_text x = stage_rubric_text y \<longleftrightarrow> x = y"
  by (cases x; cases y)
    (auto simp: stage_rubric_text_def json_object_def item_text.array_cut dimension_text.array_inj)

subsection \<open>What the counts hold\<close>

text \<open>The baseline an observation counts for: \<open>None\<close> when its Judge contract is unknown.\<close>

definition observation_key :: "agreement_observation \<Rightarrow> (string \<times> string \<times> string \<times> string) option" where
  "observation_key ob = map_option (\<lambda>sha. (ao_model ob, ao_stage ob, ao_sha ob, sha)) (ao_contract ob)"

definition key_text :: "string \<times> string \<times> string \<times> string \<Rightarrow> string" where
  "key_text k = (case k of (m, s, r, c) \<Rightarrow> json_array (map json_quote [m, s, r, c]))"

definition observations_of ::
    "agreement_observation list \<Rightarrow> string \<times> string \<times> string \<times> string \<Rightarrow> agreement_observation list" where
  "observations_of obs k = filter (\<lambda>ob. observation_key ob = Some k) obs"

definition decided :: "agreement_observation list \<Rightarrow> string \<Rightarrow> pass_fail \<Rightarrow> pass_fail \<Rightarrow> nat" where
  "decided obs rubric_id judged human =
     length (filter (\<lambda>ob. ao_rubric ob = rubric_id \<and> ao_judge ob = judged \<and> ao_human ob = human) obs)"

definition tally :: "agreement_observation list \<Rightarrow> string \<Rightarrow> criterion_counts" where
  "tally obs rubric_id =
     \<lparr>cc_pass_pass = decided obs rubric_id PASS PASS, cc_fail_fail = decided obs rubric_id FAIL FAIL,
      cc_pass_fail = decided obs rubric_id PASS FAIL, cc_fail_pass = decided obs rubric_id FAIL PASS\<rparr>"

text \<open>The report read off the observations: for every baseline and criterion, in order, how often each
  pair of decisions was made.\<close>

definition reference_report :: "agreement_observation list \<Rightarrow> nat \<Rightarrow> agreement_report" where
  "reference_report obs skipped =
     \<lparr>ar_skipped_unknown = length (filter (\<lambda>ob. ao_contract ob = None) obs), ar_skipped_calibrations = skipped,
      ar_baselines = map (\<lambda>k. case k of (m, s, r, c) \<Rightarrow>
        \<lparr>jb_contract = c, jb_model = m, jb_stage = s, jb_sha = r,
         jb_criteria = map (\<lambda>i. summarize_criterion (i, tally (observations_of obs k) i))
           (sort (remdups (map ao_rubric (observations_of obs k))))\<rparr>)
        (sort (remdups (List.map_filter observation_key obs)))\<rparr>"

text \<open>The state after some observations: baselines and criteria in the order they were first seen.\<close>

definition first_seen :: "'a list \<Rightarrow> 'a list" where
  "first_seen xs = rev (remdups (rev xs))"

definition baseline_view ::
    "agreement_observation list \<Rightarrow> string \<times> string \<times> string \<times> string \<Rightarrow> agreement_baseline" where
  "baseline_view obs k = (case k of (m, s, r, c) \<Rightarrow>
     \<lparr>mb_contract = c, mb_model = m, mb_stage = s, mb_sha = r,
      mb_criteria = map (\<lambda>i. (i, tally (observations_of obs k) i)) (first_seen (map ao_rubric (observations_of obs k)))\<rparr>)"

definition counts_view :: "agreement_observation list \<Rightarrow> agreement_counts" where
  "counts_view obs =
     \<lparr>ac_skipped = length (filter (\<lambda>ob. ao_contract ob = None) obs),
      ac_baselines = map (\<lambda>k. (key_text k, baseline_view obs k)) (first_seen (List.map_filter observation_key obs))\<rparr>"

lemma first_seen_simps [simp]:
  "first_seen [] = []"
  "first_seen (xs @ [x]) = (if x \<in> set xs then first_seen xs else first_seen xs @ [x])"
  "set (first_seen xs) = set xs"
  "distinct (first_seen xs)"
  by (simp_all add: first_seen_def)

lemma key_text_inj [simp]: "key_text k = key_text k' \<longleftrightarrow> k = k'"
  by (cases k; cases k') (simp add: key_text_def quoted.array_inj del: list.map)

text \<open>\<open>Map.set\<close> on the entries of a function.\<close>

lemma update_absent:
  assumes "\<And>x y. key x = key y \<longleftrightarrow> x = y" "k \<notin> set xs"
  shows "AList.update (key k) v (map (\<lambda>x. (key x, f x)) xs) = map (\<lambda>x. (key x, f x)) xs @ [(key k, v)]"
  using assms by (induction xs) auto

lemma update_present:
  assumes "\<And>x y. key x = key y \<longleftrightarrow> x = y" "distinct xs" "k \<in> set xs"
  shows "AList.update (key k) v (map (\<lambda>x. (key x, f x)) xs) = map (\<lambda>x. (key x, if x = k then v else f x)) xs"
  using assms by (induction xs) auto

lemma map_of_entries:
  assumes "\<And>x y. key x = key y \<longleftrightarrow> x = y"
  shows "map_of (map (\<lambda>x. (key x, f x)) xs) (key k) = (if k \<in> set xs then Some (f k) else None)"
  using assms by (induction xs) auto

lemma update_first_seen:
  assumes "\<And>x y. key x = key y \<longleftrightarrow> x = y"
  shows "AList.update (key k) v (map (\<lambda>x. (key x, f x)) (first_seen xs))
     = map (\<lambda>x. (key x, if x = k then v else f x)) (first_seen (xs @ [k]))"
proof (cases "k \<in> set xs")
  case True
  then show ?thesis by (simp add: update_present [OF assms])
next
  case False
  then have "map (\<lambda>x. (key x, if x = k then v else f x)) (first_seen xs) = map (\<lambda>x. (key x, f x)) (first_seen xs)"
    by auto
  with False show ?thesis by (simp add: update_absent [OF assms])
qed

lemma decided_snoc [simp]:
  "decided (obs @ [ob]) i p q = decided obs i p q + (if ao_rubric ob = i \<and> ao_judge ob = p \<and> ao_human ob = q then 1 else 0)"
  by (simp add: decided_def)

lemma tally_snoc:
  "tally (obs @ [ob]) i = (if ao_rubric ob = i then increment_counts (tally obs i) ob else tally obs i)"
  by (auto simp: tally_def increment_counts_def split: pass_fail.splits)

lemma tally_unseen: "i \<notin> ao_rubric ` set obs \<Longrightarrow> tally obs i = no_counts"
  by (force simp: tally_def no_counts_def decided_def filter_empty_conv)

lemma observations_of_snoc [simp]:
  "observations_of (obs @ [ob]) k = observations_of obs k @ (if observation_key ob = Some k then [ob] else [])"
  by (simp add: observations_of_def)

lemma observations_of_unseen: "k \<notin> set (List.map_filter observation_key obs) \<Longrightarrow> observations_of obs k = []"
  by (auto simp: observations_of_def set_map_filter filter_empty_conv)

lemma baseline_view_other: "observation_key ob \<noteq> Some k \<Longrightarrow> baseline_view (obs @ [ob]) k = baseline_view obs k"
  by (simp add: baseline_view_def)

lemma criteria_update:
  "AList.update (ao_rubric ob)
     (increment_counts (case map_of (map (\<lambda>i. (i, tally os i)) (first_seen (map ao_rubric os))) (ao_rubric ob) of
        Some c \<Rightarrow> c | None \<Rightarrow> no_counts) ob)
     (map (\<lambda>i. (i, tally os i)) (first_seen (map ao_rubric os)))
   = map (\<lambda>i. (i, tally (os @ [ob]) i)) (first_seen (map ao_rubric (os @ [ob])))"
proof -
  have m: "(case map_of (map (\<lambda>i. (i, tally os i)) (first_seen (map ao_rubric os))) (ao_rubric ob) of
      Some c \<Rightarrow> c | None \<Rightarrow> no_counts) = tally os (ao_rubric ob)"
    using map_of_entries [of "\<lambda>i. i" "tally os" "first_seen (map ao_rubric os)" "ao_rubric ob"]
    by (simp add: tally_unseen)
  have "AList.update (ao_rubric ob) v (map (\<lambda>i. (i, tally os i)) (first_seen (map ao_rubric os)))
      = map (\<lambda>i. (i, if i = ao_rubric ob then v else tally os i)) (first_seen (map ao_rubric os @ [ao_rubric ob]))" for v
    by (rule update_first_seen [of "\<lambda>i. i"]) simp
  then show ?thesis
    unfolding m by (auto simp: tally_snoc simp del: first_seen_simps(2))
qed

lemma include_counts_view: "include_observation (counts_view obs) ob = counts_view (obs @ [ob])"
proof (cases "ao_contract ob")
  case None
  then have k: "observation_key ob = None" by (simp add: observation_key_def)
  then show ?thesis
    using None by (simp add: include_observation_def counts_view_def baseline_view_other)
next
  case (Some sha)
  define k where "k = (ao_model ob, ao_stage ob, ao_sha ob, sha)"
  define ks where "ks = List.map_filter observation_key obs"
  have key: "observation_key ob = Some k" and kt: "baseline_key ob sha = key_text k"
    using Some by (simp_all add: observation_key_def k_def baseline_key_def key_text_def)
  have b: "baseline_for (counts_view obs) ob sha
      = (counts_view obs\<lparr>ac_baselines := map (\<lambda>k. (key_text k, baseline_view obs k)) (first_seen (ks @ [k]))\<rparr>,
         baseline_view obs k)"
  proof (cases "k \<in> set ks")
    case True
    then show ?thesis
      by (simp add: baseline_for_def kt counts_view_def ks_def [symmetric] map_of_entries)
  next
    case False
    with observations_of_unseen have "observations_of obs k = []" by (simp add: ks_def)
    then have "baseline_view obs k = \<lparr>mb_contract = sha, mb_model = ao_model ob, mb_stage = ao_stage ob,
        mb_sha = ao_sha ob, mb_criteria = []\<rparr>" by (simp add: baseline_view_def k_def)
    with False show ?thesis
      by (simp add: baseline_for_def kt counts_view_def ks_def [symmetric] map_of_entries update_absent Let_def)
  qed
  have v: "baseline_view obs k\<lparr>mb_criteria := AList.update (ao_rubric ob)
      (increment_counts (case map_of (mb_criteria (baseline_view obs k)) (ao_rubric ob) of
        Some c \<Rightarrow> c | None \<Rightarrow> no_counts) ob) (mb_criteria (baseline_view obs k))\<rparr> = baseline_view (obs @ [ob]) k"
    using criteria_update [of ob "observations_of obs k"] by (cases k) (simp add: baseline_view_def key)
  have u: "AList.update (key_text k) v (map (\<lambda>k. (key_text k, baseline_view obs k)) (first_seen (ks @ [k])))
      = map (\<lambda>x. (key_text x, if x = k then v else baseline_view obs x)) (first_seen (ks @ [k]))" for v
    by (rule update_present) simp_all
  have "include_observation (counts_view obs) ob = counts_view obs\<lparr>ac_baselines :=
      map (\<lambda>x. (key_text x, if x = k then baseline_view (obs @ [ob]) k else baseline_view obs x)) (first_seen (ks @ [k]))\<rparr>"
    using Some by (simp add: include_observation_def b Let_def v kt u del: first_seen_simps(2))
  also have "\<dots> = counts_view (obs @ [ob])"
    using Some by (auto simp: counts_view_def key ks_def baseline_view_other simp del: first_seen_simps(2))
  finally show ?thesis .
qed

lemma fold_counts_view: "foldl include_observation \<lparr>ac_skipped = 0, ac_baselines = []\<rparr> obs = counts_view obs"
proof (induction obs rule: rev_induct)
  case Nil
  show ?case by (simp add: counts_view_def List.map_filter_def)
qed (simp add: include_counts_view)

subsection \<open>The report\<close>

lemma sorted_into_map:
  assumes "\<And>x y. cmp (f x) (f y) \<le> 0 \<longleftrightarrow> x \<le> y"
  shows "sorted_into cmp (f x) (map f ys) = map f (insort x ys)"
  using assms by (induction ys) auto

lemma to_sorted_map:
  assumes "\<And>x y. cmp (f x) (f y) \<le> 0 \<longleftrightarrow> x \<le> y"
  shows "to_sorted cmp (map f xs) = map f (sort xs)"
  unfolding to_sorted_def sort_key_def by (induction xs) (simp_all add: sorted_into_map [where cmp = cmp and f = f, OF assms])

lemma compare_text_le: "compare_text x y \<le> 0 \<longleftrightarrow> x \<le> y"
  by (auto simp: compare_text_def)

lemma compare_text_zero: "compare_text x y = 0 \<longleftrightarrow> x = y"
  by (auto simp: compare_text_def)

lemma or_else_le: "or_else (compare_text x y) n \<le> 0 \<longleftrightarrow> x < y \<or> x = y \<and> n \<le> 0"
  by (auto simp: or_else_def compare_text_def)

lemma compare_baseline_views:
  "compare_baselines (baseline_view obs k) (baseline_view obs k') \<le> 0 \<longleftrightarrow> k \<le> k'"
  by (cases k; cases k') (auto simp: compare_baselines_def baseline_view_def or_else_le compare_text_le)

lemma sort_first_seen: "sort (first_seen xs) = sort (remdups xs)"
  by (rule sorted_distinct_set_unique) (simp_all add: distinct_sort)

lemma baseline_report_view:
  "baseline_report (baseline_view obs (m, s, r, c)) =
     \<lparr>jb_contract = c, jb_model = m, jb_stage = s, jb_sha = r,
      jb_criteria = map (\<lambda>i. summarize_criterion (i, tally (observations_of obs (m, s, r, c)) i))
        (sort (remdups (map ao_rubric (observations_of obs (m, s, r, c)))))\<rparr>"
proof -
  have "to_sorted (\<lambda>l r. compare_text (fst l) (fst r)) (map (\<lambda>i. (i, tally os i)) (first_seen is))
      = map (\<lambda>i. (i, tally os i)) (sort (remdups is))" for os "is"
    by (subst to_sorted_map) (simp_all add: compare_text_le sort_first_seen)
  then show ?thesis by (simp add: baseline_report_def baseline_view_def o_def)
qed

lemma report_is_reference: "build_judge_agreement_report obs skipped = reference_report obs skipped"
proof -
  have "to_sorted compare_baselines (map (baseline_view obs) (first_seen ks)) = map (baseline_view obs) (sort (remdups ks))" for ks
    by (subst to_sorted_map) (simp_all add: compare_baseline_views sort_first_seen)
  then show ?thesis
    by (auto simp: build_judge_agreement_report_def fold_counts_view counts_report_def counts_view_def
        reference_report_def o_def baseline_report_view)
qed

subsection \<open>What the report leaves out\<close>

lemma remdups_filter_sort:
  "filter P (sort (remdups xs)) = sort (remdups (filter P xs))" for xs :: "'a :: linorder list"
  by (simp add: filter_sort remdups_filter)

lemma map_filter_keys:
  "List.map_filter observation_key (filter (\<lambda>ob. P (ao_model ob)) obs)
     = filter (\<lambda>k. P (fst k)) (List.map_filter observation_key obs)"
  by (induction obs) (auto simp: observation_key_def split: option.splits)

lemma observations_of_filter:
  "P (fst k) \<Longrightarrow> observations_of (filter (\<lambda>ob. P (ao_model ob)) obs) k = observations_of obs k"
  by (auto simp: observations_of_def observation_key_def intro!: filter_cong)

lemma filter_report_baselines:
  "ar_baselines (filter_judge_agreement_report (reference_report obs n) models)
     = ar_baselines (reference_report (filter (\<lambda>ob. ao_model ob \<in> set models) obs) n)"
proof -
  have "ar_baselines (filter_judge_agreement_report (reference_report obs n) models)
      = map (\<lambda>k. case k of (m, s, r, c) \<Rightarrow>
        \<lparr>jb_contract = c, jb_model = m, jb_stage = s, jb_sha = r,
         jb_criteria = map (\<lambda>i. summarize_criterion (i, tally (observations_of obs k) i))
           (sort (remdups (map ao_rubric (observations_of obs k))))\<rparr>)
        (filter (\<lambda>k. fst k \<in> set models) (sort (remdups (List.map_filter observation_key obs))))"
    by (simp add: filter_judge_agreement_report_def reference_report_def filter_map o_def case_prod_unfold)
  then show ?thesis
    by (auto simp: reference_report_def remdups_filter_sort map_filter_keys [of "\<lambda>m. m \<in> set models"]
        observations_of_filter [of "\<lambda>m. m \<in> set models"] intro!: map_cong)
qed

text \<open>The order of the observations does not matter.\<close>

lemma sort_remdups_set: "set xs = set ys \<Longrightarrow> sort (remdups xs) = sort (remdups ys)"
  by (rule sorted_distinct_set_unique) (simp_all add: distinct_sort)

lemma length_filter_mset: "mset xs = mset ys \<Longrightarrow> length (filter P xs) = length (filter P ys)"
  by (metis mset_filter size_mset)

lemma mset_observations_of: "mset obs = mset obs' \<Longrightarrow> mset (observations_of obs k) = mset (observations_of obs' k)"
  by (simp add: observations_of_def)

lemma tally_mset: "mset obs = mset obs' \<Longrightarrow> tally obs i = tally obs' i"
  by (simp add: tally_def decided_def length_filter_mset [of obs obs'])

lemma build_report_mset:
  assumes "mset obs = mset obs'"
  shows "build_judge_agreement_report obs n = build_judge_agreement_report obs' n"
proof -
  have k: "sort (remdups (List.map_filter observation_key obs)) = sort (remdups (List.map_filter observation_key obs'))"
    using mset_eq_setD [OF assms] by (intro sort_remdups_set) (auto simp: set_map_filter)
  have r: "sort (remdups (map ao_rubric (observations_of obs k))) = sort (remdups (map ao_rubric (observations_of obs' k)))" for k
    using mset_eq_setD [OF mset_observations_of [OF assms]] by (intro sort_remdups_set) auto
  show ?thesis
    by (simp add: report_is_reference reference_report_def k r tally_mset [OF mset_observations_of [OF assms]]
        length_filter_mset [OF assms])
qed

subsection \<open>Kappa and the schema\<close>

text \<open>How often Judge and human would agree by chance.\<close>

definition chance_agreement :: "criterion_counts \<Rightarrow> real" where
  "chance_agreement c =
     (let n = real (cc_pass_pass c + cc_fail_fail c + cc_pass_fail c + cc_fail_pass c)
      in (real (cc_pass_pass c + cc_pass_fail c) * real (cc_pass_pass c + cc_fail_pass c)
          + real (cc_fail_pass c + cc_fail_fail c) * real (cc_pass_fail c + cc_fail_fail c)) / n\<^sup>2)"

definition is_sha256 :: "string \<Rightarrow> bool" where
  "is_sha256 s \<longleftrightarrow> length s = 64 \<and> list_all (\<lambda>c. c \<in> set ''0123456789abcdef'') s"

definition criterion_valid :: "agreement_criterion \<Rightarrow> bool" where
  "criterion_valid c \<longleftrightarrow>
     (case jc_kappa c of None \<Rightarrow> True | Some k \<Rightarrow> -1 \<le> k \<and> k \<le> 1)
     \<and> 0 \<le> jc_agreement c \<and> jc_agreement c \<le> 1 \<and> jc_rubric c \<noteq> [] \<and> 0 < jc_sample_size c"

definition baseline_valid :: "report_baseline \<Rightarrow> bool" where
  "baseline_valid b \<longleftrightarrow>
     list_all criterion_valid (jb_criteria b) \<and> jb_criteria b \<noteq> [] \<and> is_sha256 (jb_contract b)
     \<and> jb_model b \<noteq> [] \<and> is_sha256 (jb_sha b) \<and> jb_stage b \<noteq> []"

definition report_valid :: "agreement_report \<Rightarrow> bool" where
  "report_valid r \<longleftrightarrow> list_all baseline_valid (ar_baselines r)"

definition observation_valid :: "agreement_observation \<Rightarrow> bool" where
  "observation_valid ob \<longleftrightarrow>
     pred_option is_sha256 (ao_contract ob) \<and> ao_model ob \<noteq> [] \<and> is_sha256 (ao_sha ob) \<and> ao_stage ob \<noteq> []
     \<and> ao_rubric ob \<noteq> []"

lemma kappa_cross:
  fixes a b c d :: real
  assumes "n = a + d + b + c" "n \<noteq> 0"
  shows "1 - ((a + b) * (a + c) + (c + d) * (b + d)) / n\<^sup>2 = ((a + b) * (b + d) + (c + d) * (a + c)) / n\<^sup>2"
    and "(a + d) / n - ((a + b) * (a + c) + (c + d) * (b + d)) / n\<^sup>2 = 2 * (a * d - b * c) / n\<^sup>2"
proof -
  let ?X = "(a + b) * (a + c) + (c + d) * (b + d)"
  have "1 - ?X / n\<^sup>2 = (n\<^sup>2 - ?X) / n\<^sup>2" using assms(2) by (simp add: diff_divide_distrib)
  also have "n\<^sup>2 - ?X = (a + b) * (b + d) + (c + d) * (a + c)"
    unfolding assms(1) by (simp add: power2_eq_square algebra_simps)
  finally show "1 - ?X / n\<^sup>2 = ((a + b) * (b + d) + (c + d) * (a + c)) / n\<^sup>2" .
  have "(a + d) / n = (a + d) * n / n\<^sup>2" using assms(2) by (simp add: power2_eq_square)
  then have "(a + d) / n - ?X / n\<^sup>2 = ((a + d) * n - ?X) / n\<^sup>2" by (simp only: diff_divide_distrib)
  also have "(a + d) * n - ?X = 2 * (a * d - b * c)"
    unfolding assms(1) by (simp add: algebra_simps)
  finally show "(a + d) / n - ?X / n\<^sup>2 = 2 * (a * d - b * c) / n\<^sup>2" .
qed

lemma kappa_range:
  fixes a b c d :: real
  assumes "0 \<le> a" "0 \<le> b" "0 \<le> c" "0 \<le> d"
  defines "D \<equiv> (a + b) * (b + d) + (c + d) * (a + c)"
  assumes "0 < D"
  shows "-1 \<le> 2 * (a * d - b * c) / D \<and> 2 * (a * d - b * c) / D \<le> 1"
proof -
  have "0 \<le> a * b" "0 \<le> b * d" "0 \<le> c * d" "0 \<le> a * c" "0 \<le> a * d" "0 \<le> b * c" using assms by simp_all
  moreover have "D - 2 * (a * d - b * c) = a * b + b * b + b * d + c * d + c * c + a * c + 2 * (b * c)"
    "D + 2 * (a * d - b * c) = a * b + b * d + c * d + a * c + 4 * (a * d) + (b - c) * (b - c)"
    unfolding D_def by (simp_all add: algebra_simps)
  ultimately have "2 * (a * d - b * c) \<le> D" "- D \<le> 2 * (a * d - b * c)"
    using zero_le_square [of b] zero_le_square [of c] zero_le_square [of "b - c"] by linarith+
  with \<open>0 < D\<close> show ?thesis by (simp add: field_simps)
qed

lemma summary_exact:
  assumes "s = summarize_criterion (i, c)" "0 < jc_sample_size s"
  shows "0 \<le> jc_agreement s \<and> jc_agreement s \<le> 1
     \<and> (case jc_kappa s of
          None \<Rightarrow> chance_agreement c = 1
        | Some k \<Rightarrow> chance_agreement c < 1 \<and> k = (jc_agreement s - chance_agreement c) / (1 - chance_agreement c)
                    \<and> -1 \<le> k \<and> k \<le> 1)"
proof -
  define a b c' d where "a = real (cc_pass_pass c)" and "b = real (cc_pass_fail c)"
    and "c' = real (cc_fail_pass c)" and "d = real (cc_fail_fail c)"
  define n where "n = a + d + b + c'"
  define D where "D = (a + b) * (b + d) + (c' + d) * (a + c')"
  have nn: "0 \<le> a" "0 \<le> b" "0 \<le> c'" "0 \<le> d" by (simp_all add: a_def b_def c'_def d_def)
  have n: "real (jc_sample_size s) = n" and s: "jc_agreement s = (a + d) / n" and c: "jc_counts s = c"
    by (simp_all add: assms(1) summarize_criterion_def n_def a_def b_def c'_def d_def Let_def)
  from n assms(2) have n0: "n \<noteq> 0" "0 < n" by auto
  have pe: "chance_agreement c = ((a + b) * (a + c') + (c' + d) * (b + d)) / n\<^sup>2"
    by (simp add: chance_agreement_def Let_def n_def a_def b_def c'_def d_def)
  note x = kappa_cross [OF n_def n0(1), folded pe D_def, folded s]
  have k: "jc_kappa s = (if D = 0 then None else Some (2 * (a * d - b * c') / D))"
  proof -
    have "D = real ((cc_pass_pass c + cc_pass_fail c) * (cc_pass_fail c + cc_fail_fail c)
        + (cc_fail_pass c + cc_fail_fail c) * (cc_pass_pass c + cc_fail_pass c))"
      by (simp add: D_def a_def b_def c'_def d_def)
    then show ?thesis
      by (simp add: assms(1) summarize_criterion_def cohens_kappa_def Let_def a_def b_def c'_def d_def
          del: of_nat_add of_nat_mult)
  qed
  have "0 \<le> D" using nn by (simp add: D_def)
  have range: "0 \<le> (a + d) / n \<and> (a + d) / n \<le> 1" using nn n0 by (simp add: n_def)
  show ?thesis
  proof (cases "D = 0")
    case True
    with x(1) k s range show ?thesis by simp
  next
    case False
    with \<open>0 \<le> D\<close> have D: "0 < D" by simp
    with x(1) n0 have pe1: "0 < 1 - chance_agreement c" by simp
    have "2 * (a * d - b * c') / D = (jc_agreement s - chance_agreement c) / (1 - chance_agreement c)"
      unfolding x using n0 by simp
    with kappa_range [OF nn D [unfolded D_def]] k False D pe1 s range show ?thesis by (simp add: D_def)
  qed
qed

lemma tally_sum:
  "cc_pass_pass (tally os i) + cc_fail_fail (tally os i) + cc_pass_fail (tally os i) + cc_fail_pass (tally os i)
     = length (filter (\<lambda>ob. ao_rubric ob = i) os)"
proof (induction os)
  case (Cons ob os)
  then show ?case by (cases "ao_judge ob"; cases "ao_human ob") (auto simp: tally_def decided_def)
qed (simp add: tally_def decided_def)

lemma reference_criteria:
  assumes "b \<in> set (ar_baselines (reference_report obs n))"
  shows "\<exists>k ob. b = (case k of (m, s, r, c) \<Rightarrow>
        \<lparr>jb_contract = c, jb_model = m, jb_stage = s, jb_sha = r, jb_criteria = jb_criteria b\<rparr>)
     \<and> ob \<in> set obs \<and> observation_key ob = Some k \<and> jb_criteria b \<noteq> []
     \<and> (\<forall>c \<in> set (jb_criteria b). \<exists>ob \<in> set obs. c = summarize_criterion (ao_rubric ob, tally (observations_of obs k) (ao_rubric ob))
          \<and> 0 < jc_sample_size c)"
proof -
  from assms obtain k where k: "k \<in> set (List.map_filter observation_key obs)"
    and b: "b = (case k of (m, s, r, c) \<Rightarrow>
        \<lparr>jb_contract = c, jb_model = m, jb_stage = s, jb_sha = r,
         jb_criteria = map (\<lambda>i. summarize_criterion (i, tally (observations_of obs k) i))
           (sort (remdups (map ao_rubric (observations_of obs k))))\<rparr>)"
    by (auto simp: reference_report_def)
  from k obtain ob where ob: "ob \<in> set obs" "observation_key ob = Some k" by (auto simp: set_map_filter)
  have c: "jb_criteria b = map (\<lambda>i. summarize_criterion (i, tally (observations_of obs k) i))
      (sort (remdups (map ao_rubric (observations_of obs k))))" by (simp add: b split: prod.split)
  have "0 < jc_sample_size (summarize_criterion (ao_rubric o', tally (observations_of obs k) (ao_rubric o')))"
    if "o' \<in> set (observations_of obs k)" for o'
  proof -
    from that have "filter (\<lambda>ob. ao_rubric ob = ao_rubric o') (observations_of obs k) \<noteq> []"
      by (auto simp: filter_empty_conv)
    then show ?thesis by (simp add: summarize_criterion_def Let_def tally_sum)
  qed
  then have "\<forall>c \<in> set (jb_criteria b). \<exists>ob \<in> set obs.
      c = summarize_criterion (ao_rubric ob, tally (observations_of obs k) (ao_rubric ob)) \<and> 0 < jc_sample_size c"
    by (auto simp: c observations_of_def)
  moreover have "ob \<in> set (observations_of obs k)" using ob by (simp add: observations_of_def)
  then have "observations_of obs k \<noteq> []" by force
  then have "sort (remdups (map ao_rubric (observations_of obs k))) \<noteq> []"
    by (metis set_empty set_remdups set_sort map_is_Nil_conv)
  then have "jb_criteria b \<noteq> []" by (simp add: c)
  ultimately show ?thesis using b ob by (intro exI [of _ k] exI [of _ ob]) (auto simp: b split: prod.split)
qed

subsection \<open>A graded stage\<close>

lemma find_by_key:
  "distinct (map f xs) \<Longrightarrow> x \<in> set xs \<Longrightarrow> List.find (\<lambda>y. f y = f x) xs = Some x"
  by (induction xs) (auto simp: image_iff)

lemma find_key_None: "List.find (\<lambda>y. f y = i) xs = None \<longleftrightarrow> i \<notin> f ` set xs"
  by (auto simp: find_None_iff)

lemma stage_decision_cases:
  assumes "distinct (map gi_id (so_hard_blockers out) @ map gi_id (so_requirements out) @ map gd_id (so_dimensions out))"
    and "sg_output g = out"
  shows "b \<in> set (so_hard_blockers out) \<Longrightarrow> stage_decision g (gi_id b) = Inr (gi_status b)"
    and "q \<in> set (so_requirements out) \<Longrightarrow> stage_decision g (gi_id q) = Inr (gi_status q)"
    and "d \<in> set (so_dimensions out) \<Longrightarrow> stage_decision g (gd_id d) = Inr (if gd_grade d \<le> GradeB then PASS else FAIL)"
proof -
  from assms(1) have d: "distinct (map gi_id (so_hard_blockers out))" "distinct (map gi_id (so_requirements out))"
    "distinct (map gd_id (so_dimensions out))"
    "gi_id ` set (so_hard_blockers out) \<inter> gi_id ` set (so_requirements out) = {}"
    "gi_id ` set (so_hard_blockers out) \<inter> gd_id ` set (so_dimensions out) = {}"
    "gi_id ` set (so_requirements out) \<inter> gd_id ` set (so_dimensions out) = {}" by auto
  show "stage_decision g (gi_id b) = Inr (gi_status b)" if "b \<in> set (so_hard_blockers out)"
    using find_by_key [OF d(1) that] by (simp add: stage_decision_def assms(2))
  show "stage_decision g (gi_id q) = Inr (gi_status q)" if q: "q \<in> set (so_requirements out)"
  proof -
    have "gi_id q \<notin> gi_id ` set (so_hard_blockers out)" using d(4) q by blast
    then have "List.find (\<lambda>b. gi_id b = gi_id q) (so_hard_blockers out) = None" unfolding find_key_None .
    with find_by_key [OF d(2) q] show ?thesis by (simp add: stage_decision_def assms(2))
  qed
  show "stage_decision g (gd_id x) = Inr (if gd_grade x \<le> GradeB then PASS else FAIL)"
    if x: "x \<in> set (so_dimensions out)" for x
  proof -
    have "gd_id x \<notin> gi_id ` set (so_hard_blockers out)" "gd_id x \<notin> gi_id ` set (so_requirements out)"
      using d(5,6) x by blast+
    then have "List.find (\<lambda>b. gi_id b = gd_id x) (so_hard_blockers out) = None"
      "List.find (\<lambda>b. gi_id b = gd_id x) (so_requirements out) = None" unfolding find_key_None by blast+
    with find_by_key [OF d(3) x] show ?thesis
      by (cases "gd_grade x") (simp_all add: stage_decision_def assms(2) less_eq_letter_def)
  qed
qed

lemma continue_iff:
  "derive_stage_letter out \<le> GradeB \<longleftrightarrow>
     list_all (\<lambda>b. gi_status b = PASS) (so_hard_blockers out) \<and> list_all (\<lambda>r. gi_status r = PASS) (so_requirements out)
     \<and> list_all (\<lambda>d. gd_grade d \<le> GradeB) (so_dimensions out)"
proof -
  have "s = PASS \<longleftrightarrow> s \<noteq> FAIL" for s by (cases s) simp_all
  moreover have "\<not> GradeF \<le> GradeB" "\<not> GradeC \<le> GradeB" by (simp_all add: less_eq_letter_def)
  ultimately show ?thesis
    unfolding derive_stage_letter_Max by (auto simp: list_all_iff list_ex_iff split: if_splits)
qed

lemma human_decision_differs:
  "human_decision review stage i judged \<noteq> judged \<longleftrightarrow>
     (if judged = PASS
      then list_ex (\<lambda>f. hf_stage f = stage \<and> hf_rubric f = Some i \<and> hf_assessment f \<in> {CAUGHT, MISSED}) (hr_findings review)
      else list_ex (\<lambda>f. hf_stage f = stage \<and> hf_rubric f = Some i \<and> hf_assessment f = FALSE_POSITIVE) (hr_findings review)
        \<and> \<not> list_ex (\<lambda>f. hf_stage f = stage \<and> hf_rubric f = Some i \<and> hf_assessment f \<in> {CAUGHT, MISSED}) (hr_findings review))"
  by (cases judged) (auto simp: human_decision_def Let_def list_ex_iff image_iff)

lemma stage_observations_graded:
  assumes "distinct (rubric_ids rubric)" "derive_stage_grade out rubric = Inr g" "cal_rubric c = rubric" "cal_grade c = g"
  shows "\<exists>obs. stage_observations sha model review c = Inr obs \<and> map ao_rubric obs = rubric_ids rubric
     \<and> (\<forall>ob \<in> set obs. stage_decision g (ao_rubric ob) = Inr (ao_judge ob)
          \<and> ao_human ob = human_decision review (cal_stage c) (ao_rubric ob) (ao_judge ob))
     \<and> mset (rubric_ids rubric)
       = mset (map gi_id (so_hard_blockers out) @ map gi_id (so_requirements out) @ map gd_id (so_dimensions out))"
proof -
  let ?ids = "map gi_id (so_hard_blockers out) @ map gi_id (so_requirements out) @ map gd_id (so_dimensions out)"
  from assms(1) have d: "distinct (map ri_id (rb_hard_blockers rubric))" "distinct (map ri_id (rb_requirements rubric))"
    "distinct (map ri_id (rb_dimensions rubric))" by (simp_all add: rubric_ids_def)
  from derive_stage_grade_ok [OF d, of out] assms(2) have m: "mset (rubric_ids rubric) = mset ?ids"
    by (simp add: rubric_ids_def)
  with assms(1) have ids: "distinct ?ids" by (metis mset_eq_imp_distinct_iff)
  from m have s: "set (rubric_ids rubric) = set ?ids" by (rule mset_eq_setD)
  define dec where "dec i = (case stage_decision g i of Inr v \<Rightarrow> v | Inl _ \<Rightarrow> FAIL)" for i
  have g: "sg_output g = out" using derive_stage_grade_result [OF assms(2)] by simp
  have dec: "stage_decision g i = Inr (dec i)" if "i \<in> set (rubric_ids rubric)" for i
    using that stage_decision_cases [OF ids g] unfolding s by (auto simp: dec_def)
  let ?ob = "\<lambda>i. \<lparr>ao_contract = cal_contract c, ao_model = model, ao_stage = cal_stage c,
    ao_sha = stage_rubric_sha256 sha rubric, ao_rubric = i, ao_judge = dec i,
    ao_human = human_decision review (cal_stage c) i (dec i)\<rparr>"
  have "stage_observations sha model review c = Inr (map ?ob (rubric_ids rubric))"
    unfolding stage_observations_def assms(3,4) Let_def by (rule map_res_total) (simp add: dec)
  with m show ?thesis by (intro exI [of _ "map ?ob (rubric_ids rubric)"]) (simp add: dec o_def)
qed

lemma judged_pass_iff:
  assumes "distinct (map gi_id (so_hard_blockers out) @ map gi_id (so_requirements out) @ map gd_id (so_dimensions out))"
    and "sg_output g = out"
  shows "(\<forall>i \<in> set (map gi_id (so_hard_blockers out) @ map gi_id (so_requirements out) @ map gd_id (so_dimensions out)).
       stage_decision g i = Inr PASS) \<longleftrightarrow> derive_stage_letter out \<le> GradeB"
proof -
  have "stage_decision g (gd_id d) = Inr PASS \<longleftrightarrow> gd_grade d \<le> GradeB" if "d \<in> set (so_dimensions out)" for d
    using stage_decision_cases(3) [OF assms that] by simp
  with stage_decision_cases(1,2) [OF assms] show ?thesis by (auto simp: continue_iff list_all_iff)
qed

subsection \<open>Properties\<close>

text \<open>C35: the report is the one read off the observations. Its baselines are the distinct Judge models,
  stages, rubrics and contracts observed and their criteria the rubric ids observed, both in order;
  a criterion counts how often each pair of decisions was made; observations of an unknown contract
  are only counted. Asking for some Judge models is as if only they had been observed.\<close>

theorem agreement_report_exact:
  "build_judge_agreement_report obs skipped = reference_report obs skipped
   \<and> ar_baselines (filter_judge_agreement_report (build_judge_agreement_report obs skipped) models)
     = ar_baselines (build_judge_agreement_report (filter (\<lambda>ob. ao_model ob \<in> set models) obs) skipped)"
  by (simp add: report_is_reference filter_report_baselines)

text \<open>A report of well-formed observations is one its schema accepts, and each of its criteria has
  the exact numbers: the observed agreement is a share of a sample that is not empty, and kappa is
  Cohen's, the agreement beyond chance as a share of what chance leaves, from -1 to 1, and missing
  exactly when chance leaves nothing.\<close>

theorem agreement_numbers_exact:
  assumes "list_all observation_valid obs" "r = build_judge_agreement_report obs skipped"
  shows "report_valid r
     \<and> list_all (\<lambda>b. list_all (\<lambda>s.
         let c = jc_counts s
         in jc_sample_size s = cc_pass_pass c + cc_fail_fail c + cc_pass_fail c + cc_fail_pass c
            \<and> jc_agreement s = real (cc_pass_pass c + cc_fail_fail c) / real (jc_sample_size s)
            \<and> (case jc_kappa s of
                 None \<Rightarrow> chance_agreement c = 1
               | Some k \<Rightarrow> chance_agreement c < 1
                   \<and> k = (jc_agreement s - chance_agreement c) / (1 - chance_agreement c) \<and> -1 \<le> k \<and> k \<le> 1))
         (jb_criteria b)) (ar_baselines r)"
proof -
  have r: "r = reference_report obs skipped" by (simp add: assms(2) report_is_reference)
  have valid: "observation_valid ob" if "ob \<in> set obs" for ob
    using assms(1) that by (simp add: list_all_iff)
  have numbers: "jc_counts s = c \<and> jc_rubric s = i \<and>
      jc_sample_size s = cc_pass_pass c + cc_fail_fail c + cc_pass_fail c + cc_fail_pass c
      \<and> jc_agreement s = real (cc_pass_pass c + cc_fail_fail c) / real (jc_sample_size s)"
    if "s = summarize_criterion (i, c)" for s i c
    by (simp add: that summarize_criterion_def Let_def)
  have "baseline_valid b \<and> list_all (\<lambda>s.
         let c = jc_counts s
         in jc_sample_size s = cc_pass_pass c + cc_fail_fail c + cc_pass_fail c + cc_fail_pass c
            \<and> jc_agreement s = real (cc_pass_pass c + cc_fail_fail c) / real (jc_sample_size s)
            \<and> (case jc_kappa s of
                 None \<Rightarrow> chance_agreement c = 1
               | Some k \<Rightarrow> chance_agreement c < 1
                   \<and> k = (jc_agreement s - chance_agreement c) / (1 - chance_agreement c) \<and> -1 \<le> k \<and> k \<le> 1))
         (jb_criteria b)" if "b \<in> set (ar_baselines r)" for b
  proof -
    from reference_criteria [OF that [unfolded r]] obtain k ob where
      b: "b = (case k of (m, s, r, c) \<Rightarrow>
        \<lparr>jb_contract = c, jb_model = m, jb_stage = s, jb_sha = r, jb_criteria = jb_criteria b\<rparr>)"
      and ob: "ob \<in> set obs" "observation_key ob = Some k" and ne: "jb_criteria b \<noteq> []"
      and cs: "\<forall>c \<in> set (jb_criteria b). \<exists>ob \<in> set obs.
        c = summarize_criterion (ao_rubric ob, tally (observations_of obs k) (ao_rubric ob)) \<and> 0 < jc_sample_size c"
      by blast
    obtain m s rs c where k: "k = (m, s, rs, c)" by (cases k)
    from valid [OF ob(1)] ob(2) have "is_sha256 (jb_contract b) \<and> jb_model b \<noteq> [] \<and> is_sha256 (jb_sha b) \<and> jb_stage b \<noteq> []"
      by (subst (1 2 3 4) b) (auto simp: k observation_key_def observation_valid_def)
    moreover have "criterion_valid s \<and> (let c = jc_counts s
         in jc_sample_size s = cc_pass_pass c + cc_fail_fail c + cc_pass_fail c + cc_fail_pass c
            \<and> jc_agreement s = real (cc_pass_pass c + cc_fail_fail c) / real (jc_sample_size s)
            \<and> (case jc_kappa s of
                 None \<Rightarrow> chance_agreement c = 1
               | Some k \<Rightarrow> chance_agreement c < 1
                   \<and> k = (jc_agreement s - chance_agreement c) / (1 - chance_agreement c) \<and> -1 \<le> k \<and> k \<le> 1))"
      if "s \<in> set (jb_criteria b)" for s
    proof -
      from cs that obtain o' where o': "o' \<in> set obs"
        and s: "s = summarize_criterion (ao_rubric o', tally (observations_of obs k) (ao_rubric o'))"
        and pos: "0 < jc_sample_size s" by blast
      from valid [OF o'] have "ao_rubric o' \<noteq> []" by (simp add: observation_valid_def)
      with numbers [OF s] summary_exact [OF s pos] pos show ?thesis
        by (auto simp: criterion_valid_def Let_def split: option.splits)
    qed
    ultimately show ?thesis using ne by (simp add: baseline_valid_def list_all_iff)
  qed
  then show ?thesis by (simp add: report_valid_def list_all_iff)
qed

definition sample_observation :: "pass_fail \<Rightarrow> pass_fail \<Rightarrow> agreement_observation" where
  "sample_observation judged human =
     \<lparr>ao_contract = Some (replicate 64 (CHR ''a'')), ao_model = ''opus'', ao_stage = ''plan'',
      ao_sha = replicate 64 (CHR ''0''), ao_rubric = ''scope'', ao_judge = judged, ao_human = human\<rparr>"

lemma agreement_numbers_exact_witness:
  "report_valid (build_judge_agreement_report [sample_observation PASS PASS, sample_observation PASS FAIL] 0)"
proof -
  have "list_all observation_valid [sample_observation PASS PASS, sample_observation PASS FAIL]"
    by (simp add: sample_observation_def observation_valid_def is_sha256_def list_all_iff)
  from agreement_numbers_exact [OF this refl] show ?thesis by blast
qed

text \<open>A grade that was derived against a rubric of distinct ids can always be calibrated: it gives one
  observation for each rubric item, in the rubric's order; its verdict is to continue exactly when
  every observation has the Judge pass; and the human differs from a passing Judge exactly when a
  finding on that item was caught or missed, and from a failing one exactly when a finding calls it
  a false positive and none was caught or missed.\<close>

theorem graded_stage_calibrates:
  assumes "distinct (rubric_ids rubric)" "derive_stage_grade out rubric = Inr g" "cal_rubric c = rubric" "cal_grade c = g"
  shows "\<exists>obs. stage_observations sha model review c = Inr obs \<and> map ao_rubric obs = rubric_ids rubric
     \<and> (sg_verdict g = CONTINUE \<longleftrightarrow> list_all (\<lambda>ob. ao_judge ob = PASS) obs)
     \<and> list_all (\<lambda>ob.
         let about = filter (\<lambda>f. hf_stage f = cal_stage c \<and> hf_rubric f = Some (ao_rubric ob)) (hr_findings review);
             found = list_ex (\<lambda>f. hf_assessment f \<in> {CAUGHT, MISSED}) about
         in ao_human ob \<noteq> ao_judge ob \<longleftrightarrow>
              (if ao_judge ob = PASS then found
               else list_ex (\<lambda>f. hf_assessment f = FALSE_POSITIVE) about \<and> \<not> found)) obs"
proof -
  from stage_observations_graded [OF assms] obtain obs where
    r: "stage_observations sha model review c = Inr obs" "map ao_rubric obs = rubric_ids rubric"
    and ob: "\<And>ob. ob \<in> set obs \<Longrightarrow> stage_decision g (ao_rubric ob) = Inr (ao_judge ob)
      \<and> ao_human ob = human_decision review (cal_stage c) (ao_rubric ob) (ao_judge ob)"
    and m: "mset (rubric_ids rubric)
      = mset (map gi_id (so_hard_blockers out) @ map gi_id (so_requirements out) @ map gd_id (so_dimensions out))"
    by blast
  note g = derive_stage_grade_result [OF assms(2)]
  have d: "distinct (map gi_id (so_hard_blockers out) @ map gi_id (so_requirements out) @ map gd_id (so_dimensions out))"
    using m assms(1) by (metis mset_eq_imp_distinct_iff)
  have "list_all (\<lambda>ob. ao_judge ob = PASS) obs \<longleftrightarrow> (\<forall>i \<in> set (map ao_rubric obs). stage_decision g i = Inr PASS)"
    using ob by (auto simp: list_all_iff)
  also have "\<dots> \<longleftrightarrow> derive_stage_letter out \<le> GradeB"
    unfolding r(2) mset_eq_setD [OF m] by (rule judged_pass_iff [OF d]) (simp add: g)
  finally have v: "sg_verdict g = CONTINUE \<longleftrightarrow> list_all (\<lambda>ob. ao_judge ob = PASS) obs" using g by simp
  have "list_all (\<lambda>ob.
         let about = filter (\<lambda>f. hf_stage f = cal_stage c \<and> hf_rubric f = Some (ao_rubric ob)) (hr_findings review);
             found = list_ex (\<lambda>f. hf_assessment f \<in> {CAUGHT, MISSED}) about
         in ao_human ob \<noteq> ao_judge ob \<longleftrightarrow>
              (if ao_judge ob = PASS then found
               else list_ex (\<lambda>f. hf_assessment f = FALSE_POSITIVE) about \<and> \<not> found)) obs"
    using ob human_decision_differs [of review "cal_stage c"] by (simp add: list_all_iff Let_def list_ex_iff) metis
  with r v show ?thesis by blast
qed

definition sample_review :: human_review where
  "sample_review = \<lparr>hr_findings = [\<lparr>hf_description = ''d'', hf_assessment = MISSED, hf_paths = [],
     hf_rubric = Some ''false-test-safety'', hf_stage = ''plan''\<rparr>], hr_summary = ''s'', hr_verdict = REJECT\<rparr>"

lemma graded_stage_calibrates_witness:
  "\<exists>c obs. stage_observations (\<lambda>s. s) ''opus'' sample_review c = Inr obs
     \<and> map ao_rubric obs = [''false-test-safety''] \<and> sg_verdict (cal_grade c) = CONTINUE"
proof -
  let ?out = "\<lparr>so_dimensions = [], so_hard_blockers = [\<lparr>gi_id = ''false-test-safety'', gi_status = PASS, gi_evidence = []\<rparr>],
    so_requirements = [], so_summary = ''s''\<rparr> :: recorded_evidence stage_output"
  obtain g where g: "derive_stage_grade ?out sample_rubric = Inr g" "sg_verdict g = CONTINUE"
    by (simp add: derive_stage_grade_def sample_rubric_def assert_exact_ids_def derive_stage_letter_def
        worst_grade_def Let_def)
  have d: "distinct (rubric_ids sample_rubric)" "rubric_ids sample_rubric = [''false-test-safety'']"
    by (simp_all add: rubric_ids_def sample_rubric_def)
  let ?c = "\<lparr>cal_contract = None, cal_stage = ''plan'', cal_rubric = sample_rubric, cal_grade = g\<rparr>"
  have c: "cal_rubric ?c = sample_rubric" "cal_grade ?c = g" by simp_all
  from graded_stage_calibrates [OF d(1) g(1) c, of "\<lambda>s. s" "''opus''" sample_review] d(2) g(2) show ?thesis
    by (intro exI [of _ ?c]) auto
qed

end
