(* ===== verification/AgreementReader.thy ===== *)
theory AgreementReader
  imports JudgeAgreement
begin

text \<open>
  The calibrations that the records of a runs directory hold (\<open>judge-agreement-artifacts.ts\<close>) and the
  agreement report over them (\<open>judge-agreement.ts\<close>). What the schemas read of a file's text is a parameter.
\<close>

subsection \<open>The calibrations of a runs directory\<close>

record stage_artifact =
  sa_review :: human_review
  sa_scorecard :: calibrated_stage
  sa_model :: "string option"

record final_artifact =
  fa_review :: human_review
  fa_final :: calibrated_final
  fa_model :: string
  fa_scorecards :: "calibrated_stage list"

datatype calibration_artifact = StageArtifact stage_artifact | FinalArtifact final_artifact

record directory_entry =
  de_name :: string
  de_is_file :: bool

text \<open>The text of a file, by its path in the runs directory, unless reading it rejects; and what
  \<open>JSON.parse\<close> and each schema read of a text.\<close>

record calibration_files =
  cf_text :: "string \<Rightarrow> string option"
  cf_stage :: "string \<Rightarrow> stage_artifact option"
  cf_final :: "string \<Rightarrow> final_artifact option"
  cf_graded :: "string \<Rightarrow> calibrated_stage option"
  cf_manifest :: "string \<Rightarrow> string option"

definition ends_with :: "string \<Rightarrow> string \<Rightarrow> bool" where
  "ends_with s ending = starts_with (rev s) (rev ending)"

definition read_calibration_artifact :: "calibration_files \<Rightarrow> string \<Rightarrow> calibration_artifact option" where
  "read_calibration_artifact fs path =
     (case cf_text fs path of
        None \<Rightarrow> None
      | Some doc \<Rightarrow>
          (case cf_stage fs doc of
             Some s \<Rightarrow> Some (StageArtifact s)
           | None \<Rightarrow> map_option FinalArtifact (cf_final fs doc)))"

definition read_stage_scorecard :: "calibration_files \<Rightarrow> string \<Rightarrow> calibrated_stage option" where
  "read_stage_scorecard fs path = Option.bind (cf_text fs path) (cf_graded fs)"

definition stage_run_name :: "string \<Rightarrow> string \<Rightarrow> string option" where
  "stage_run_name file_name stage =
     (let ending = ''.'' @ stage @ ''.json''
      in if ends_with file_name ending then Some (take (length file_name - length ending) file_name) else None)"

definition manifest_file :: "string \<Rightarrow> string" where
  "manifest_file run = run @ ''.checkpoints/manifest.json''"

definition historical_stage_judge_model :: "calibration_files \<Rightarrow> string \<Rightarrow> string option" where
  "historical_stage_judge_model fs run = Option.bind (cf_text fs (manifest_file run)) (cf_manifest fs)"

definition completed_stage_scorecards ::
    "calibration_files \<Rightarrow> string \<Rightarrow> directory_entry list \<Rightarrow> calibrated_stage list" where
  "completed_stage_scorecards fs run entries =
     List.map_filter (\<lambda>e.
       if \<not> de_is_file e \<or> \<not> starts_with (de_name e) (run @ ''.'') \<or> \<not> ends_with (de_name e) ''.json'' then None
       else read_stage_scorecard fs (de_name e)) entries"

definition resolved_stage_calibration ::
    "calibration_files \<Rightarrow> stage_artifact \<Rightarrow> string \<Rightarrow> directory_entry list \<Rightarrow> agreement_calibration option" where
  "resolved_stage_calibration fs s file_name entries =
     (case stage_run_name file_name (cal_stage (sa_scorecard s)) of
        None \<Rightarrow> None
      | Some run \<Rightarrow>
          (case (case sa_model s of Some m \<Rightarrow> Some m | None \<Rightarrow> historical_stage_judge_model fs run) of
             None \<Rightarrow> None
           | Some model \<Rightarrow>
               Some \<lparr>cab_model = model, cab_review = sa_review s,
                     cab_stages = completed_stage_scorecards fs run entries, cab_final = None\<rparr>))"

text \<open>\<open>AgreementArtifactReader\<close>: what it has observed and how many calibrations it skipped.\<close>

record agreement_reader =
  rd_observations :: "agreement_observation list"
  rd_skipped :: nat

definition include_calibration ::
    "(string \<Rightarrow> string) \<Rightarrow> agreement_calibration \<Rightarrow> agreement_reader \<Rightarrow> string + agreement_reader" where
  "include_calibration sha c st =
     bind_res (calibration_observations sha c) (\<lambda>obs. Inr (st\<lparr>rd_observations := rd_observations st @ obs\<rparr>))"

definition include_stage ::
    "(string \<Rightarrow> string) \<Rightarrow> calibration_files \<Rightarrow> stage_artifact \<Rightarrow> string \<Rightarrow> directory_entry list \<Rightarrow> agreement_reader \<Rightarrow>
     string + agreement_reader" where
  "include_stage sha fs s file_name entries st =
     (case resolved_stage_calibration fs s file_name entries of
        None \<Rightarrow> Inr (st\<lparr>rd_skipped := rd_skipped st + 1\<rparr>)
      | Some c \<Rightarrow> include_calibration sha c st)"

definition include_entry ::
    "(string \<Rightarrow> string) \<Rightarrow> calibration_files \<Rightarrow> directory_entry list \<Rightarrow> directory_entry \<Rightarrow> agreement_reader \<Rightarrow>
     string + agreement_reader" where
  "include_entry sha fs entries e st =
     (if \<not> de_is_file e \<or> \<not> ends_with (de_name e) ''.json'' then Inr st
      else (case read_calibration_artifact fs (de_name e) of
              None \<Rightarrow> Inr st
            | Some (StageArtifact s) \<Rightarrow> include_stage sha fs s (de_name e) entries st
            | Some (FinalArtifact f) \<Rightarrow>
                include_calibration sha
                  \<lparr>cab_model = fa_model f, cab_review = fa_review f, cab_stages = fa_scorecards f,
                   cab_final = Some (fa_final f)\<rparr> st))"

text \<open>\<open>Array.fromAsync\<close> waits for each entry before the next; the first throw ends it.\<close>

fun include_entries ::
    "(string \<Rightarrow> string) \<Rightarrow> calibration_files \<Rightarrow> directory_entry list \<Rightarrow> directory_entry list \<Rightarrow> agreement_reader \<Rightarrow>
     string + agreement_reader" where
  "include_entries sha fs entries [] st = Inr st"
| "include_entries sha fs entries (e # es) st =
     bind_res (include_entry sha fs entries e st) (include_entries sha fs entries es)"

text \<open>\<open>loadJudgeAgreementReport\<close>; a directory that cannot be read has no entries.\<close>

definition load_judge_agreement_report ::
    "(string \<Rightarrow> string) \<Rightarrow> calibration_files \<Rightarrow> directory_entry list option \<Rightarrow> agreement_calibration list \<Rightarrow>
     string + agreement_report" where
  "load_judge_agreement_report sha fs listed current =
     bind_res (map_res (calibration_observations sha) current) (\<lambda>initial.
       let entries = (case listed of None \<Rightarrow> [] | Some es \<Rightarrow> es)
       in bind_res (include_entries sha fs entries entries \<lparr>rd_observations = concat initial, rd_skipped = 0\<rparr>) (\<lambda>st.
            Inr (build_judge_agreement_report (rd_observations st) (rd_skipped st))))"

subsection \<open>What the entries add\<close>

text \<open>The calibration an entry is read as, and whether it is one that is skipped.\<close>

definition entry_artifact :: "calibration_files \<Rightarrow> directory_entry \<Rightarrow> calibration_artifact option" where
  "entry_artifact fs e =
     (if de_is_file e \<and> ends_with (de_name e) ''.json'' then read_calibration_artifact fs (de_name e) else None)"

definition entry_calibration ::
    "calibration_files \<Rightarrow> directory_entry list \<Rightarrow> directory_entry \<Rightarrow> agreement_calibration option" where
  "entry_calibration fs entries e =
     (case entry_artifact fs e of
        None \<Rightarrow> None
      | Some (StageArtifact s) \<Rightarrow> resolved_stage_calibration fs s (de_name e) entries
      | Some (FinalArtifact f) \<Rightarrow>
          Some \<lparr>cab_model = fa_model f, cab_review = fa_review f, cab_stages = fa_scorecards f,
                cab_final = Some (fa_final f)\<rparr>)"

definition entry_skipped :: "calibration_files \<Rightarrow> directory_entry \<Rightarrow> bool" where
  "entry_skipped fs e \<longleftrightarrow>
     (case entry_artifact fs e of Some (StageArtifact s) \<Rightarrow> resolved_stage_calibration fs s (de_name e) [] = None | _ \<Rightarrow> False)"

lemma resolved_None_iff:
  "resolved_stage_calibration fs s name entries = None \<longleftrightarrow> resolved_stage_calibration fs s name entries' = None"
  by (auto simp: resolved_stage_calibration_def split: option.splits)

lemma entry_skipped_None: "entry_skipped fs e \<Longrightarrow> entry_calibration fs entries e = None"
  using resolved_None_iff [of fs _ "de_name e" entries "[]"]
  by (auto simp: entry_calibration_def entry_skipped_def split: option.splits calibration_artifact.splits)

lemma include_entry_cases:
  "include_entry sha fs entries e st =
     (case entry_calibration fs entries e of
        Some c \<Rightarrow> include_calibration sha c st
      | None \<Rightarrow> Inr (if entry_skipped fs e then st\<lparr>rd_skipped := rd_skipped st + 1\<rparr> else st))"
proof -
  have e: "include_entry sha fs entries e st =
     (case entry_artifact fs e of
        None \<Rightarrow> Inr st
      | Some (StageArtifact s) \<Rightarrow> include_stage sha fs s (de_name e) entries st
      | Some (FinalArtifact f) \<Rightarrow> include_calibration sha
          \<lparr>cab_model = fa_model f, cab_review = fa_review f, cab_stages = fa_scorecards f, cab_final = Some (fa_final f)\<rparr> st)"
    by (simp add: include_entry_def entry_artifact_def)
  consider (none) "entry_artifact fs e = None" | (stage) s where "entry_artifact fs e = Some (StageArtifact s)"
    | (final) f where "entry_artifact fs e = Some (FinalArtifact f)"
    by (metis calibration_artifact.exhaust option.exhaust)
  then show ?thesis
  proof cases
    case stage
    with resolved_None_iff [of fs s "de_name e" entries "[]"] show ?thesis
      by (cases "resolved_stage_calibration fs s (de_name e) entries")
        (simp_all add: e include_stage_def entry_calibration_def entry_skipped_def)
  qed (simp_all add: e entry_calibration_def entry_skipped_def)
qed

lemma include_entries_exact:
  "include_entries sha fs entries es st =
     bind_res (map_res (calibration_observations sha) (List.map_filter (entry_calibration fs entries) es)) (\<lambda>obss.
       Inr (st\<lparr>rd_observations := rd_observations st @ concat obss,
               rd_skipped := rd_skipped st + length (filter (entry_skipped fs) es)\<rparr>))"
proof (induction es arbitrary: st)
  case Nil
  show ?case by (simp add: List.map_filter_def)
next
  case (Cons e es)
  show ?case
  proof (cases "entry_calibration fs entries e")
    case None
    with Cons show ?thesis by (simp add: include_entry_cases List.map_filter_simps)
  next
    case (Some c)
    then have "\<not> entry_skipped fs e" using entry_skipped_None [of fs e entries] by auto
    with Some show ?thesis
      by (cases "calibration_observations sha c"; cases "map_res (calibration_observations sha)
            (List.map_filter (entry_calibration fs entries) es)")
        (simp_all add: include_entry_cases include_calibration_def List.map_filter_simps Cons)
  qed
qed

subsection \<open>The order of the entries\<close>

lemma map_res_perm:
  assumes "mset xs = mset ys" "map_res f xs = Inr us"
  shows "\<exists>vs. map_res f ys = Inr vs \<and> mset vs = mset us"
proof -
  define g where "g x = (case f x of Inr y \<Rightarrow> y | Inl _ \<Rightarrow> undefined)" for x
  from assms(2) have a: "list_all2 (\<lambda>x y. f x = Inr y) xs us" by (simp add: map_res_Inr_iff)
  have g: "f x = Inr (g x)" if "x \<in> set xs" for x
  proof -
    from that a obtain y where "f x = Inr y" by (auto simp: list_all2_conv_all_nth in_set_conv_nth)
    then show ?thesis by (simp add: g_def)
  qed
  have "map_res f xs = Inr (map g xs)" "map_res f ys = Inr (map g ys)"
    using g mset_eq_setD [OF assms(1)] by (auto intro!: map_res_total)
  moreover from this(1) assms(2) have "us = map g xs" by simp
  ultimately show ?thesis by (simp add: assms(1))
qed

lemma mset_concat_perm: "mset xs = mset ys \<Longrightarrow> mset (concat xs) = mset (concat ys)"
  by (metis mset_concat mset_map sum_mset_sum_list)

lemma mset_map_filter: "mset xs = mset ys \<Longrightarrow> mset (List.map_filter f xs) = mset (List.map_filter f ys)"
  by (simp add: List.map_filter_def)

lemma calibration_observations_perm:
  assumes "mset (cab_stages c) = mset (cab_stages c')" "cab_model c = cab_model c'" "cab_review c = cab_review c'"
    and "cab_final c = cab_final c'" "calibration_observations sha c = Inr os"
  shows "\<exists>os'. calibration_observations sha c' = Inr os' \<and> mset os' = mset os"
proof -
  from assms(5) obtain ss where ss: "map_res (stage_observations sha (cab_model c) (cab_review c)) (cab_stages c) = Inr ss"
    and os: "os = (case cab_final c of None \<Rightarrow> concat ss
      | Some f \<Rightarrow> concat ss @ final_observations sha (cab_model c) (cab_review c) f)"
    by (auto simp: calibration_observations_def bind_res_Inr_iff)
  from map_res_perm [OF assms(1) ss] obtain ts where
    "map_res (stage_observations sha (cab_model c) (cab_review c)) (cab_stages c') = Inr ts" "mset ts = mset ss" by blast
  with os assms(2-4) show ?thesis
    by (auto simp: calibration_observations_def mset_concat_perm [of ts ss] split: option.splits)
qed

lemma entry_calibration_perm:
  assumes "mset entries = mset entries'" "entry_calibration fs entries e = Some c"
  shows "\<exists>c'. entry_calibration fs entries' e = Some c' \<and> mset (cab_stages c) = mset (cab_stages c')
     \<and> cab_model c = cab_model c' \<and> cab_review c = cab_review c' \<and> cab_final c = cab_final c'"
  using assms(2) mset_map_filter [OF assms(1)]
  by (auto simp: entry_calibration_def resolved_stage_calibration_def completed_stage_scorecards_def
      split: option.splits calibration_artifact.splits)

lemma entry_calibration_None:
  "entry_calibration fs entries e = None \<Longrightarrow> entry_calibration fs entries' e = None"
  using resolved_None_iff [of fs _ "de_name e" entries entries']
  by (auto simp: entry_calibration_def split: option.splits calibration_artifact.splits)

lemma entries_observations_perm:
  assumes "mset entries = mset entries'"
  shows "map_res (calibration_observations sha) (List.map_filter (entry_calibration fs entries) es) = Inr oss \<Longrightarrow>
     \<exists>oss'. map_res (calibration_observations sha) (List.map_filter (entry_calibration fs entries') es) = Inr oss'
       \<and> mset (concat oss') = mset (concat oss)"
proof (induction es arbitrary: oss)
  case Nil
  then show ?case by (simp add: List.map_filter_def)
next
  case (Cons e es)
  show ?case
  proof (cases "entry_calibration fs entries e")
    case None
    with Cons entry_calibration_None [OF None, of entries'] show ?thesis by (simp add: List.map_filter_simps)
  next
    case (Some c)
    with Cons.prems obtain os rest where os: "calibration_observations sha c = Inr os"
      and rest: "map_res (calibration_observations sha) (List.map_filter (entry_calibration fs entries) es) = Inr rest"
      and oss: "oss = os # rest" by (auto simp: List.map_filter_simps bind_res_Inr_iff)
    from entry_calibration_perm [OF assms Some] obtain c' where c': "entry_calibration fs entries' e = Some c'"
      and same: "mset (cab_stages c) = mset (cab_stages c')" "cab_model c = cab_model c'" "cab_review c = cab_review c'"
        "cab_final c = cab_final c'" by blast
    from calibration_observations_perm [OF same os] obtain os' where
      "calibration_observations sha c' = Inr os'" "mset os' = mset os" by blast
    with c' Cons.IH [OF rest] oss show ?thesis by (auto simp: List.map_filter_simps)
  qed
qed

subsection \<open>Properties\<close>

text \<open>The order in which the file system lists a runs directory does not matter, nor does that of the
  calibrations at hand: once a report is loaded, every order loads the same report. It skips exactly
  the calibrated stage records whose run or Judge model is not known.\<close>

theorem agreement_order_free:
  assumes "mset entries = mset entries'" "mset current = mset current'"
    and "load_judge_agreement_report sha fs (Some entries) current = Inr r"
  shows "load_judge_agreement_report sha fs (Some entries') current' = Inr r
     \<and> ar_skipped_calibrations r = length (filter (entry_skipped fs) entries)"
proof -
  from assms(3) obtain initial oss where i: "map_res (calibration_observations sha) current = Inr initial"
    and o: "map_res (calibration_observations sha) (List.map_filter (entry_calibration fs entries) entries) = Inr oss"
    and r: "r = build_judge_agreement_report (concat initial @ concat oss) (length (filter (entry_skipped fs) entries))"
    by (auto simp: load_judge_agreement_report_def include_entries_exact bind_res_Inr_iff)
  from map_res_perm [OF assms(2) i] obtain initial' where i': "map_res (calibration_observations sha) current' = Inr initial'"
    and mi: "mset initial' = mset initial" by blast
  from entries_observations_perm [OF assms(1) o] obtain o1 where
    o1: "map_res (calibration_observations sha) (List.map_filter (entry_calibration fs entries') entries) = Inr o1"
      "mset (concat o1) = mset (concat oss)" by blast
  from map_res_perm [OF mset_map_filter [OF assms(1)] o1(1)] obtain o2 where
    o2: "map_res (calibration_observations sha) (List.map_filter (entry_calibration fs entries') entries') = Inr o2"
      "mset o2 = mset o1" by blast
  have "mset (concat initial' @ concat o2) = mset (concat initial @ concat oss)"
    using mset_concat_perm [OF mi] mset_concat_perm [OF o2(2)] o1(2) by simp
  from build_report_mset [OF this] i' o2(1) length_filter_mset [OF assms(1), of "entry_skipped fs"] r
  have "load_judge_agreement_report sha fs (Some entries') current' = Inr r"
    by (simp add: load_judge_agreement_report_def include_entries_exact)
  moreover have "ar_skipped_calibrations r = length (filter (entry_skipped fs) entries)"
    by (simp add: r build_judge_agreement_report_def counts_report_def)
  ultimately show ?thesis by blast
qed

definition sample_files :: calibration_files where
  "sample_files = \<lparr>cf_text = Some, cf_stage = (\<lambda>_. Some \<lparr>sa_review = sample_review,
     sa_scorecard = \<lparr>cal_contract = None, cal_stage = ''plan'', cal_rubric = sample_rubric,
       cal_grade = \<lparr>sg_output = \<lparr>so_dimensions = [], so_hard_blockers = [], so_requirements = [], so_summary = ''s''\<rparr>,
         sg_grade = GradeA, sg_verdict = CONTINUE\<rparr>\<rparr>, sa_model = None\<rparr>),
     cf_final = (\<lambda>_. None), cf_graded = (\<lambda>_. None), cf_manifest = (\<lambda>_. None)\<rparr>"

lemma agreement_order_free_witness:
  "\<exists>r. load_judge_agreement_report (\<lambda>s. s) sample_files
       (Some [\<lparr>de_name = ''b.plan.json'', de_is_file = True\<rparr>, \<lparr>de_name = ''a.plan.json'', de_is_file = True\<rparr>]) [] = Inr r
     \<and> ar_skipped_calibrations r = 2"
proof -
  let ?es = "[\<lparr>de_name = ''a.plan.json'', de_is_file = True\<rparr>, \<lparr>de_name = ''b.plan.json'', de_is_file = True\<rparr>]"
  let ?es' = "[\<lparr>de_name = ''b.plan.json'', de_is_file = True\<rparr>, \<lparr>de_name = ''a.plan.json'', de_is_file = True\<rparr>]"
  have s: "entry_skipped sample_files \<lparr>de_name = ''a.plan.json'', de_is_file = True\<rparr>"
    "entry_skipped sample_files \<lparr>de_name = ''b.plan.json'', de_is_file = True\<rparr>" by code_simp+
  obtain r where r: "load_judge_agreement_report (\<lambda>s. s) sample_files (Some ?es) [] = Inr r"
    using entry_skipped_None [OF s(1), of ?es] entry_skipped_None [OF s(2), of ?es]
    by (simp add: load_judge_agreement_report_def include_entry_cases)
  have "mset ?es = mset ?es'" by simp
  from agreement_order_free [OF this refl r] s show ?thesis by auto
qed

end
