(* ===== verification/StageFigures.thy ===== *)
theory StageFigures
  imports ClaudeEnvelope StageGrading ShortIds
begin

text \<open>
  The figures of one stage of a run as the server serves them: the stage record it reads
  (\<open>run-stage-file.ts\<close>, \<open>run-stage-status.ts\<close>), the readings of what it may lack
  (\<open>run-record-contract.ts\<close>, \<open>run-record-reading.ts\<close>, \<open>run-record-reasons.ts\<close>) and the sums over the
  provider calls it keeps (\<open>run-call-metrics.ts\<close>), all under \<open>src/src/server\<close>.

  Milliseconds and dollars are reals, token counts naturals.
\<close>

subsection \<open>Readings\<close>

datatype 'a reading = Available 'a | Unavailable "string list"

fun is_available :: "'a reading \<Rightarrow> bool" where
  "is_available (Available x) = True"
| "is_available (Unavailable rs) = False"

record missing_part =
  mp_part :: string
  mp_reason :: string

record token_counts =
  tk_input :: nat
  tk_cache_read :: nat
  tk_cache_write :: nat
  tk_output :: nat
  tk_total_input :: nat

type_synonym token_reading = "(token_counts \<times> missing_part list) reading"

datatype stage_record_status = StageGraded | StageStopped | StageAwaiting | StageNoRecord

text \<open>Where a stage sits against the stage the run ended or is running in.\<close>

datatype stage_place = CurrentPlace | UnreachedPlace | ElsewherePlace

subsection \<open>The records of a stage\<close>

type_synonym calls = "call_metrics option list"

datatype recorded_calls = RecordedCalls calls | CountedCalls

record recorded_transcript =
  tr_cost_usd :: "real option"
  tr_provider_calls :: "recorded_calls option"

record recorded_input =
  in_changed_paths :: "string list option"
  in_commit_subjects :: "string list option"
  in_transcript :: "recorded_transcript option"

type_synonym graded_blockers = "recorded_evidence graded_item list"

record recorded_grade =
  rg_grade :: string
  rg_hard_blockers :: "graded_blockers option"
  rg_verdict :: string

record recorded_session =
  rs_cost_usd :: "real option"
  rs_provider_calls :: calls

record hashed_file =
  hf_path :: string
  hf_sha256 :: string

datatype corpus_measurement = CorpusVersion string | CorpusRefused string

record read_entry =
  re_evidence :: string
  re_half :: string
  re_path :: string
  re_role :: string
  re_sha256 :: "string option"

record stage_file =
  sf_attempts :: "calls option"
  sf_corpus_files :: "hashed_file list option"
  sf_corpus_version :: "corpus_measurement option"
  sf_cost_usd :: "real option"
  sf_elapsed_ms :: "real option"
  sf_grade :: "recorded_grade option"
  sf_hard_blockers :: "graded_blockers option"
  sf_input :: "recorded_input option"
  sf_judge_provider_calls :: "calls option"
  sf_product_owner_cost_usd :: "real option"
  sf_product_owner_provider_calls :: "calls option"
  sf_read_manifest :: "read_entry list option"
  sf_run_elapsed_ms :: "real option"
  sf_session :: "recorded_session option"
  sf_status :: "string option"

record artifact_spend =
  as_elapsed_ms :: "real option"
  as_judge_attempts :: "calls option"
  as_judge_cost_usd :: "real option"
  as_judge_provider_calls :: "calls option"
  as_product_owner_cost_usd :: "real option"
  as_product_owner_provider_calls :: "calls option"

text \<open>Of a checkpoint, the fields a run's page shows.\<close>

record checkpoint_record =
  cp_artifacts :: "hashed_file list"
  cp_corpus_files :: "hashed_file list"
  cp_corpus_version :: "corpus_measurement option"
  cp_lineage :: string
  cp_read_manifest :: "read_entry list option"
  cp_upstream :: string
  cp_workflow_state :: "hashed_file list"

record recorded_stage =
  st_stage :: string
  st_file :: "stage_file option"
  st_checkpoint :: "checkpoint_record option"

record placed_stage = recorded_stage +
  st_place :: stage_place

definition stage_status :: "stage_file option \<Rightarrow> stage_record_status" where
  "stage_status file =
     (case file of
        None \<Rightarrow> StageNoRecord
      | Some f \<Rightarrow>
          if sf_status f = Some ''STAGE_JUDGE_FAILED'' then StageStopped
          else if sf_status f = Some ''AWAITING_STAGE_JUDGE'' then StageAwaiting
          else StageGraded)"

subsection \<open>Reasons\<close>

definition UNRECORDED_STAGE_REASON :: string where
  "UNRECORDED_STAGE_REASON = ''the stage has written no record, and the run ended or is running in it''"

definition UNREACHED_STAGE_REASON :: string where
  "UNREACHED_STAGE_REASON = ''the run has not reached the stage''"

definition MISSING_STAGE_RECORD_REASON :: string where
  "MISSING_STAGE_RECORD_REASON = ''the stage has written no record''"

definition CALL_WITHOUT_METRICS_REASON :: string where
  "CALL_WITHOUT_METRICS_REASON = ''a call in the record has no metrics''"

definition UNRECORDED_REASONS :: "stage_place \<Rightarrow> string" where
  "UNRECORDED_REASONS place =
     (case place of
        CurrentPlace \<Rightarrow> UNRECORDED_STAGE_REASON
      | ElsewherePlace \<Rightarrow> MISSING_STAGE_RECORD_REASON
      | UnreachedPlace \<Rightarrow> UNREACHED_STAGE_REASON)"

definition unrecorded_or :: "placed_stage \<Rightarrow> string \<Rightarrow> string" where
  "unrecorded_or recorded reason =
     (if st_file recorded = None then UNRECORDED_REASONS (st_place recorded) else reason)"

definition wall_time :: "real option \<Rightarrow> string \<Rightarrow> real reading" where
  "wall_time ms reason = (case ms of None \<Rightarrow> Unavailable [reason] | Some x \<Rightarrow> Available x)"

definition files_of :: "hashed_file list option \<Rightarrow> hashed_file list reading" where
  "files_of files =
     (case files of
        None \<Rightarrow> Unavailable [''neither a checkpoint nor the stage record lists the stage'' @ CHR 0x27 # ''s corpus files'']
      | Some fs \<Rightarrow> Available fs)"

definition paths_of :: "hashed_file list option \<Rightarrow> string \<Rightarrow> string list reading" where
  "paths_of files absent =
     (case files of None \<Rightarrow> Unavailable [absent] | Some fs \<Rightarrow> Available (map hf_path fs))"

subsection \<open>Where a stage sits\<close>

datatype run_outcome =
    OutcomeJudged pass_fail
  | OutcomeJudgingFailed string
  | OutcomeNotReached "string option" string
  | OutcomePending string

text \<open>\<open>None\<close> is the index -1 of the source.\<close>

definition current_stage_index :: "string list \<Rightarrow> run_outcome \<Rightarrow> nat option" where
  "current_stage_index stages outcome =
     (case outcome of
        OutcomeNotReached (Some stage) _ \<Rightarrow> find_index (\<lambda>s. s = stage) stages
      | OutcomePending stage \<Rightarrow> find_index (\<lambda>s. s = stage) stages
      | _ \<Rightarrow> None)"

definition stage_place_of :: "nat \<Rightarrow> nat option \<Rightarrow> stage_place" where
  "stage_place_of index current =
     (if Some index = current then CurrentPlace
      else case current of
             None \<Rightarrow> ElsewherePlace
           | Some c \<Rightarrow> if c < index then UnreachedPlace else ElsewherePlace)"

subsection \<open>Costs\<close>

definition usd :: "real option \<Rightarrow> string \<Rightarrow> real reading" where
  "usd amount reason = (case amount of None \<Rightarrow> Unavailable [reason] | Some x \<Rightarrow> Available x)"

text \<open>\<open>a ?? b\<close>.\<close>

fun either :: "'a option \<Rightarrow> 'a option \<Rightarrow> 'a option" where
  "either (Some x) y = Some x"
| "either None y = y"

definition lacks_metrics :: "calls \<Rightarrow> bool" where
  "lacks_metrics cs \<longleftrightarrow> list_ex (\<lambda>c. c = None) cs"

record judge_calls =
  jc_provider_calls :: "calls option"
  jc_attempts :: "calls option"

definition judge_cost :: "real option \<Rightarrow> judge_calls \<Rightarrow> string \<Rightarrow> real reading" where
  "judge_cost cost judge absent =
     (case either (jc_provider_calls judge) (jc_attempts judge) of
        Some cs \<Rightarrow> if lacks_metrics cs then Unavailable [CALL_WITHOUT_METRICS_REASON] else usd cost absent
      | None \<Rightarrow> usd cost absent)"

definition transcript_of :: "stage_file option \<Rightarrow> recorded_transcript option" where
  "transcript_of file = Option.bind (Option.bind file sf_input) in_transcript"

definition session_of :: "stage_file option \<Rightarrow> recorded_session option" where
  "session_of file = Option.bind file sf_session"

definition session_calls :: "stage_file option \<Rightarrow> recorded_calls option" where
  "session_calls file =
     either (Option.bind (transcript_of file) tr_provider_calls)
       (map_option (\<lambda>x. RecordedCalls (rs_provider_calls x)) (session_of file))"

definition session_cost :: "placed_stage \<Rightarrow> real reading" where
  "session_cost recorded =
     (let file = st_file recorded;
          last_call = (case session_calls file of Some (RecordedCalls (c # cs)) \<Rightarrow> Some (last (c # cs)) | _ \<Rightarrow> None)
      in if last_call = Some None then Unavailable [CALL_WITHOUT_METRICS_REASON]
         else usd (either (Option.bind (transcript_of file) tr_cost_usd) (Option.bind (session_of file) rs_cost_usd))
           (unrecorded_or recorded ''the stage record holds no session cost''))"

definition file_judge_calls :: "stage_file option \<Rightarrow> judge_calls" where
  "file_judge_calls file =
     \<lparr>jc_provider_calls = Option.bind file sf_judge_provider_calls, jc_attempts = Option.bind file sf_attempts\<rparr>"

definition stage_judge_cost :: "placed_stage \<Rightarrow> real reading" where
  "stage_judge_cost recorded =
     judge_cost (Option.bind (st_file recorded) sf_cost_usd) (file_judge_calls (st_file recorded))
       (unrecorded_or recorded ''the stage record holds no judge cost'')"

subsection \<open>Tokens\<close>

datatype token_part = PartCalls calls | PartMissing missing_part

definition part_lacks :: "string \<Rightarrow> string \<Rightarrow> token_part" where
  "part_lacks part reason = PartMissing \<lparr>mp_part = part, mp_reason = reason\<rparr>"

definition calls_part :: "string \<Rightarrow> recorded_calls option \<Rightarrow> string \<Rightarrow> token_part" where
  "calls_part part recorded absent =
     (case recorded of
        None \<Rightarrow> part_lacks part absent
      | Some CountedCalls \<Rightarrow> part_lacks part ''the record counts its calls but keeps no call metrics''
      | Some (RecordedCalls cs) \<Rightarrow>
          if cs = [] then part_lacks part ''the record holds no calls''
          else if lacks_metrics cs then part_lacks part CALL_WITHOUT_METRICS_REASON
          else PartCalls cs)"

definition spent_calls_part :: "string \<Rightarrow> calls option \<Rightarrow> string \<Rightarrow> token_part" where
  "spent_calls_part part recorded absent =
     (if recorded = Some [] then PartCalls [] else calls_part part (map_option RecordedCalls recorded) absent)"

datatype spender = SessionSpender | JudgeSpender

definition spenders :: "placed_stage \<Rightarrow> spender list" where
  "spenders recorded =
     (let status = stage_status (st_file recorded);
          judge_never_ran = (status = StageStopped \<and> Option.bind (st_file recorded) sf_input = None)
      in if status = StageNoRecord then (if st_place recorded = CurrentPlace then [SessionSpender] else [])
         else if status = StageAwaiting \<or> judge_never_ran then [SessionSpender]
         else [SessionSpender, JudgeSpender])"

definition session_token_part :: "placed_stage \<Rightarrow> token_part" where
  "session_token_part recorded =
     (let file = st_file recorded;
          part = st_stage recorded @ '' session'';
          absent = unrecorded_or recorded ''the stage record holds no session calls''
      in case Option.bind (transcript_of file) tr_provider_calls of
           None \<Rightarrow> spent_calls_part part (map_option rs_provider_calls (session_of file)) absent
         | Some cs \<Rightarrow> calls_part part (Some cs) absent)"

definition judge_token_part :: "string \<Rightarrow> judge_calls \<Rightarrow> string \<Rightarrow> token_part" where
  "judge_token_part part judge absent =
     (case jc_provider_calls judge of
        None \<Rightarrow> calls_part part (map_option RecordedCalls (jc_attempts judge)) absent
      | Some cs \<Rightarrow> spent_calls_part part (Some cs) absent)"

definition spender_token_part :: "placed_stage \<Rightarrow> spender \<Rightarrow> token_part" where
  "spender_token_part recorded who =
     (case who of
        SessionSpender \<Rightarrow> session_token_part recorded
      | JudgeSpender \<Rightarrow>
          judge_token_part (st_stage recorded @ '' judge'') (file_judge_calls (st_file recorded))
            (unrecorded_or recorded ''the stage record holds no judge attempts''))"

definition stage_token_parts :: "placed_stage \<Rightarrow> token_part list" where
  "stage_token_parts recorded = map (spender_token_part recorded) (spenders recorded)"

definition call_metrics_of :: "calls \<Rightarrow> call_metrics list" where
  "call_metrics_of cs = List.map_filter id cs"

record token_part_readings =
  tp_metrics :: "call_metrics list"
  tp_missing :: "missing_part list"

definition add_token_part :: "token_part_readings \<Rightarrow> token_part \<Rightarrow> token_part_readings" where
  "add_token_part r part =
     (case part of
        PartMissing m \<Rightarrow> r\<lparr>tp_missing := tp_missing r @ [m]\<rparr>
      | PartCalls cs \<Rightarrow> r\<lparr>tp_metrics := tp_metrics r @ call_metrics_of cs\<rparr>)"

definition token_part_readings_of :: "token_part list \<Rightarrow> token_part_readings" where
  "token_part_readings_of parts = foldl add_token_part \<lparr>tp_metrics = [], tp_missing = []\<rparr> parts"

definition metric_total :: "(call_metrics \<Rightarrow> nat) \<Rightarrow> call_metrics list \<Rightarrow> nat" where
  "metric_total field metrics = foldl (\<lambda>acc c. acc + field c) 0 metrics"

definition missing_words :: "missing_part \<Rightarrow> string" where
  "missing_words m = mp_part m @ '': '' @ mp_reason m"

definition has_calls :: "token_part \<Rightarrow> bool" where
  "has_calls part \<longleftrightarrow> (case part of PartCalls _ \<Rightarrow> True | PartMissing _ \<Rightarrow> False)"

definition token_reading_of :: "token_part list \<Rightarrow> token_reading" where
  "token_reading_of parts =
     (let r = token_part_readings_of parts
      in if \<not> list_ex has_calls parts
         then Unavailable (if tp_missing r = [] then [''the records hold no calls for this sum'']
           else map missing_words (tp_missing r))
         else let i = metric_total m_input_tokens (tp_metrics r);
                  cr = metric_total m_cache_read_tokens (tp_metrics r);
                  cw = metric_total m_cache_write_tokens (tp_metrics r)
              in Available (\<lparr>tk_input = i, tk_cache_read = cr, tk_cache_write = cw,
                   tk_output = metric_total m_output_tokens (tp_metrics r), tk_total_input = i + cr + cw\<rparr>, tp_missing r))"

subsection \<open>What a reading of tokens sums\<close>

text \<open>The metrics a list of parts keeps, and the parts it lacks.\<close>

definition kept_metrics :: "token_part list \<Rightarrow> call_metrics list" where
  "kept_metrics parts = concat (map (\<lambda>part. case part of PartCalls cs \<Rightarrow> call_metrics_of cs | PartMissing _ \<Rightarrow> []) parts)"

definition lacked_parts :: "token_part list \<Rightarrow> missing_part list" where
  "lacked_parts parts = List.map_filter (\<lambda>part. case part of PartCalls _ \<Rightarrow> None | PartMissing m \<Rightarrow> Some m) parts"

definition counts_of :: "call_metrics list \<Rightarrow> token_counts" where
  "counts_of ms =
     \<lparr>tk_input = sum_list (map m_input_tokens ms), tk_cache_read = sum_list (map m_cache_read_tokens ms),
      tk_cache_write = sum_list (map m_cache_write_tokens ms), tk_output = sum_list (map m_output_tokens ms),
      tk_total_input = sum_list (map m_input_tokens ms) + sum_list (map m_cache_read_tokens ms)
        + sum_list (map m_cache_write_tokens ms)\<rparr>"

lemma kept_metrics_append [simp]: "kept_metrics (xs @ ys) = kept_metrics xs @ kept_metrics ys"
  by (simp add: kept_metrics_def)

lemma lacked_parts_append [simp]: "lacked_parts (xs @ ys) = lacked_parts xs @ lacked_parts ys"
  by (simp add: lacked_parts_def List.map_filter_def)

lemma token_part_readings_of_eq:
  "token_part_readings_of parts = \<lparr>tp_metrics = kept_metrics parts, tp_missing = lacked_parts parts\<rparr>"
  by (induction parts rule: rev_induct)
    (auto simp: token_part_readings_of_def add_token_part_def kept_metrics_def lacked_parts_def List.map_filter_simps
      split: token_part.splits)

lemma metric_total_eq: "metric_total field ms = sum_list (map field ms)"
proof -
  have "foldl (\<lambda>acc c. acc + field c) a ms = a + sum_list (map field ms)" for a
    by (induction ms arbitrary: a) simp_all
  then show ?thesis by (simp add: metric_total_def)
qed

lemma token_reading_of_eq:
  "token_reading_of parts =
     (if list_ex has_calls parts then Available (counts_of (kept_metrics parts), lacked_parts parts)
      else Unavailable (if lacked_parts parts = [] then [''the records hold no calls for this sum'']
        else map missing_words (lacked_parts parts)))"
  by (simp add: token_reading_of_def token_part_readings_of_eq metric_total_eq counts_of_def Let_def)

lemma counts_of_append:
  "counts_of (xs @ ys) =
     \<lparr>tk_input = tk_input (counts_of xs) + tk_input (counts_of ys),
      tk_cache_read = tk_cache_read (counts_of xs) + tk_cache_read (counts_of ys),
      tk_cache_write = tk_cache_write (counts_of xs) + tk_cache_write (counts_of ys),
      tk_output = tk_output (counts_of xs) + tk_output (counts_of ys),
      tk_total_input = tk_total_input (counts_of xs) + tk_total_input (counts_of ys)\<rparr>"
  by (simp add: counts_of_def)

lemma kept_metrics_no_calls: "\<not> list_ex has_calls parts \<Longrightarrow> kept_metrics parts = []"
  by (induction parts) (auto simp: kept_metrics_def has_calls_def split: token_part.splits)

text \<open>No part that is summed lacks the metrics of a call.\<close>

definition whole_part :: "token_part \<Rightarrow> bool" where
  "whole_part part \<longleftrightarrow> (case part of PartCalls cs \<Rightarrow> \<not> lacks_metrics cs | PartMissing m \<Rightarrow> True)"

lemma whole_calls_part: "whole_part (calls_part part recorded absent)"
  by (simp add: calls_part_def part_lacks_def whole_part_def split: option.split recorded_calls.split)

lemma whole_spent_calls_part: "whole_part (spent_calls_part part recorded absent)"
  by (simp add: spent_calls_part_def whole_calls_part) (simp add: whole_part_def lacks_metrics_def)

lemma whole_judge_token_part: "whole_part (judge_token_part part judge absent)"
  by (simp add: judge_token_part_def whole_calls_part whole_spent_calls_part split: option.split)

lemma whole_stage_token_parts: "list_all whole_part (stage_token_parts recorded)"
proof -
  have "whole_part (spender_token_part recorded who)" for who
    by (simp add: spender_token_part_def session_token_part_def Let_def whole_calls_part whole_spent_calls_part
        whole_judge_token_part split: spender.split option.split)
  then show ?thesis by (simp add: stage_token_parts_def list_all_iff)
qed

lemma whole_metrics: "\<not> lacks_metrics cs \<Longrightarrow> length (call_metrics_of cs) = length cs"
proof (induction cs)
  case (Cons c cs)
  then show ?case
    by (cases c) (simp_all add: call_metrics_of_def lacks_metrics_def List.map_filter_simps)
qed (simp add: call_metrics_of_def List.map_filter_simps)

subsection \<open>Where the stages sit\<close>

lemma find_index_eq:
  assumes "distinct xs"
  shows "find_index (\<lambda>s. s = x) xs = Some i \<longleftrightarrow> i < length xs \<and> xs ! i = x"
  using assms
proof (induction xs arbitrary: i)
  case (Cons y ys)
  then show ?case by (cases i) (auto dest: nth_mem)
qed simp

end
