(* ===== verification/RunArtifacts.thy ===== *)
theory RunArtifacts
  imports StageFigures "HOL-Library.AList"
begin

text \<open>
  What a stage changed and what it started from (\<open>src/src/server/run-workflow-artifacts.ts\<close>): the
  workflow-state files of two checkpoints compared, and for each file the latest earlier stage that changed it.

  A JavaScript \<open>Map\<close> is an association list in the order of insertion; setting a key that is there keeps
  its place.
\<close>

datatype state_change = Added | Modified | Removed

record workflow_change =
  wc_path :: string
  wc_change :: state_change

definition map_of_files :: "hashed_file list \<Rightarrow> (string \<times> string) list" where
  "map_of_files files = foldl (\<lambda>m f. AList.update (hf_path f) (hf_sha256 f) m) [] files"

definition removed_workflow_files ::
    "(string \<times> string) list \<Rightarrow> (string \<times> string) list \<Rightarrow> workflow_change list" where
  "removed_workflow_files old new =
     map (\<lambda>path. \<lparr>wc_path = path, wc_change = Removed\<rparr>) (filter (\<lambda>path. map_of new path = None) (map fst old))"

definition workflow_change_of :: "(string \<times> string) list \<Rightarrow> string \<times> string \<Rightarrow> workflow_change option" where
  "workflow_change_of old entry =
     (case entry of (path, sha256) \<Rightarrow>
        case map_of old path of
          None \<Rightarrow> Some \<lparr>wc_path = path, wc_change = Added\<rparr>
        | Some earlier \<Rightarrow> if earlier \<noteq> sha256 then Some \<lparr>wc_path = path, wc_change = Modified\<rparr> else None)"

definition workflow_changes ::
    "(string \<times> string) list \<Rightarrow> (string \<times> string) list \<Rightarrow> workflow_change list" where
  "workflow_changes old new =
     List.map_filter (workflow_change_of old) new @ removed_workflow_files old new"

type_synonym checkpoints = "string \<Rightarrow> checkpoint_record option"

definition workflow_state_changes ::
    "checkpoint_record option \<Rightarrow> checkpoints \<Rightarrow> workflow_change list reading" where
  "workflow_state_changes checkpoint checkpoints =
     (case checkpoint of
        None \<Rightarrow> Unavailable [''the stage saved no checkpoint to compare'']
      | Some c \<Rightarrow>
          (case checkpoints (cp_upstream c) of
             None \<Rightarrow> Unavailable [''the run holds no checkpoint the stage continued from'']
           | Some upstream \<Rightarrow>
               Available (workflow_changes (map_of_files (cp_workflow_state upstream))
                 (map_of_files (cp_workflow_state c)))))"

subsection \<open>What a stage started from\<close>

type_synonym short_id_reading = "string reading"

record upstream =
  up_target :: string
  up_upstream :: string
  up_short_id :: short_id_reading

datatype artifact_in =
    TaskDeclaration string
  | UpstreamCheckpoint upstream
  | EarlierStage string state_change string

record earlier_stage =
  es_stage :: string
  es_workflow_state :: "workflow_change list reading"

record artifacts_in =
  ai_entries :: "artifact_in list"
  ai_missing :: "missing_part list"

record earlier_artifacts =
  ea_latest :: "(string \<times> artifact_in) list"
  ea_missing :: "missing_part list"

definition add_change :: "string \<Rightarrow> earlier_artifacts \<Rightarrow> workflow_change \<Rightarrow> earlier_artifacts" where
  "add_change stage a c =
     (let latest = AList.delete (wc_path c) (ea_latest a)
      in a\<lparr>ea_latest := if wc_change c \<noteq> Removed
           then AList.update (wc_path c) (EarlierStage (wc_path c) (wc_change c) stage) latest else latest\<rparr>)"

definition add_earlier :: "earlier_artifacts \<Rightarrow> earlier_stage \<Rightarrow> earlier_artifacts" where
  "add_earlier a e =
     (case es_workflow_state e of
        Unavailable reasons \<Rightarrow>
          a\<lparr>ea_missing := ea_missing a @ [\<lparr>mp_part = es_stage e, mp_reason = join_with ''; '' reasons\<rparr>]\<rparr>
      | Available changes \<Rightarrow> foldl (add_change (es_stage e)) a changes)"

definition artifacts_reading :: "earlier_artifacts \<Rightarrow> string \<Rightarrow> upstream \<Rightarrow> artifacts_in" where
  "artifacts_reading a task_id up =
     \<lparr>ai_entries = [TaskDeclaration task_id, UpstreamCheckpoint up] @ map snd (ea_latest a), ai_missing = ea_missing a\<rparr>"

definition artifacts_in_of :: "string \<Rightarrow> upstream \<Rightarrow> earlier_stage list \<Rightarrow> artifacts_in" where
  "artifacts_in_of task_id up earlier =
     artifacts_reading (foldl add_earlier \<lparr>ea_latest = [], ea_missing = []\<rparr> earlier) task_id up"

subsection \<open>The changes between two states\<close>

definition change_between :: "(string \<times> string) list \<Rightarrow> (string \<times> string) list \<Rightarrow> string \<Rightarrow> state_change option" where
  "change_between old new path =
     (case (map_of old path, map_of new path) of
        (None, None) \<Rightarrow> None
      | (None, Some s) \<Rightarrow> Some Added
      | (Some s, None) \<Rightarrow> Some Removed
      | (Some s, Some s') \<Rightarrow> if s = s' then None else Some Modified)"

lemma distinct_map_of_files: "distinct (map fst (map_of_files files))"
proof -
  have "distinct (map fst m) \<Longrightarrow> distinct (map fst (foldl (\<lambda>m f. AList.update (hf_path f) (hf_sha256 f) m) m files))" for m
    by (induction files arbitrary: m) (simp_all add: distinct_update)
  then show ?thesis by (simp add: map_of_files_def)
qed

lemma map_of_key: "distinct (map fst m) \<Longrightarrow> p \<in> fst ` set m \<Longrightarrow> map_of m p \<noteq> None"
  by (simp add: map_of_eq_None_iff)

lemma changed_path: "workflow_change_of old (path, sha) = Some c \<Longrightarrow> wc_path c = path"
  by (auto simp: workflow_change_of_def split: option.splits if_splits)

lemma map_filter_paths:
  "map wc_path (List.map_filter (workflow_change_of old) new)
     = filter (\<lambda>p. \<exists>sha. (p, sha) \<in> set new \<and> workflow_change_of old (p, sha) \<noteq> None) (map fst new)"
  if "distinct (map fst new)"
  using that
proof (induction new)
  case (Cons e new)
  obtain path sha where e: "e = (path, sha)" by fastforce
  from Cons.prems e have fresh: "path \<notin> fst ` set new" "distinct (map fst new)" by simp_all
  then have nof: "(path, x) \<notin> set new" for x by force
  have rest: "filter (\<lambda>p. \<exists>x. (p, x) \<in> set (e # new) \<and> workflow_change_of old (p, x) \<noteq> None) (map fst new)
      = filter (\<lambda>p. \<exists>x. (p, x) \<in> set new \<and> workflow_change_of old (p, x) \<noteq> None) (map fst new)"
    by (rule filter_cong) (use fresh(1) e in auto)
  show ?case using Cons.IH [OF fresh(2)] rest nof e changed_path [of old path sha]
    by (cases "workflow_change_of old (path, sha)") (simp_all add: List.map_filter_simps)
qed (simp add: List.map_filter_simps)

lemma distinct_change_paths:
  assumes "distinct (map fst old)" "distinct (map fst new)"
  shows "distinct (map wc_path (workflow_changes old new))"
proof -
  have "map wc_path (removed_workflow_files old new) = filter (\<lambda>path. map_of new path = None) (map fst old)"
    by (simp add: removed_workflow_files_def comp_def)
  moreover have "p \<in> fst ` set new \<Longrightarrow> map_of new p \<noteq> None" for p using map_of_key [OF assms(2)] .
  ultimately show ?thesis
    using assms by (auto simp: workflow_changes_def map_filter_paths [OF assms(2)] simp del: map_of_eq_None_iff)
qed

lemma change_of_file:
  "map_of new (wc_path c) = Some sha \<Longrightarrow>
     workflow_change_of old (wc_path c, sha) = Some c \<longleftrightarrow> change_between old new (wc_path c) = Some (wc_change c)"
  by (cases c) (auto simp: workflow_change_of_def change_between_def split: option.split)

lemma workflow_changes_iff:
  assumes "distinct (map fst new)"
  shows "c \<in> set (workflow_changes old new) \<longleftrightarrow> change_between old new (wc_path c) = Some (wc_change c)"
proof (cases "map_of new (wc_path c)")
  case None
  have "c \<notin> set (List.map_filter (workflow_change_of old) new)"
  proof
    assume "c \<in> set (List.map_filter (workflow_change_of old) new)"
    then obtain path sha where e: "(path, sha) \<in> set new" "workflow_change_of old (path, sha) = Some c"
      by (auto simp: set_map_filter)
    with changed_path [of old path sha c] None show False by (force simp: map_of_eq_None_iff)
  qed
  moreover have "c \<in> set (removed_workflow_files old new) \<longleftrightarrow> wc_change c = Removed \<and> map_of old (wc_path c) \<noteq> None"
    using None by (cases c) (auto simp: removed_workflow_files_def map_of_eq_None_iff)
  ultimately show ?thesis using None by (auto simp: workflow_changes_def change_between_def split: option.split)
next
  case (Some sha)
  have "c \<notin> set (removed_workflow_files old new)" using Some by (auto simp: removed_workflow_files_def)
  moreover have "c \<in> set (List.map_filter (workflow_change_of old) new) \<longleftrightarrow> workflow_change_of old (wc_path c, sha) = Some c"
  proof
    assume "c \<in> set (List.map_filter (workflow_change_of old) new)"
    then obtain path sha' where e: "(path, sha') \<in> set new" "workflow_change_of old (path, sha') = Some c"
      by (auto simp: set_map_filter)
    with changed_path [of old path sha' c] Some assms show "workflow_change_of old (wc_path c, sha) = Some c"
      by simp
  next
    assume "workflow_change_of old (wc_path c, sha) = Some c"
    with map_of_SomeD [OF Some] show "c \<in> set (List.map_filter (workflow_change_of old) new)"
      by (force simp: set_map_filter)
  qed
  ultimately show ?thesis using change_of_file [OF Some] by (simp add: workflow_changes_def)
qed

subsection \<open>The latest change of each file\<close>

lemma add_change_latest:
  "map_of (ea_latest (add_change stage a c)) =
     (map_of (ea_latest a))(wc_path c := (if wc_change c = Removed then None
        else Some (EarlierStage (wc_path c) (wc_change c) stage)))"
  by (simp add: add_change_def Let_def update_conv' delete_conv')

lemma add_change_distinct:
  "distinct (map fst (ea_latest a)) \<Longrightarrow> distinct (map fst (ea_latest (add_change stage a c)))"
  by (simp add: add_change_def Let_def distinct_update distinct_delete)

lemma add_change_missing [simp]: "ea_missing (add_change stage a c) = ea_missing a"
  by (simp add: add_change_def Let_def)

lemma add_changes_missing [simp]: "ea_missing (foldl (add_change stage) a cs) = ea_missing a"
  by (induction cs arbitrary: a) simp_all

lemma add_changes_distinct:
  "distinct (map fst (ea_latest a)) \<Longrightarrow> distinct (map fst (ea_latest (foldl (add_change stage) a cs)))"
  by (induction cs arbitrary: a) (simp_all add: add_change_distinct)

definition entry_after :: "string \<Rightarrow> (state_change \<times> string) option \<Rightarrow> artifact_in option \<Rightarrow> artifact_in option" where
  "entry_after path change earlier =
     (case change of
        None \<Rightarrow> earlier
      | Some (ch, stage) \<Rightarrow> if ch = Removed then None else Some (EarlierStage path ch stage))"

lemma add_changes_latest:
  "distinct (map wc_path cs) \<Longrightarrow>
     map_of (ea_latest (foldl (add_change stage) a cs)) path
     = entry_after path (map_option (\<lambda>c. (wc_change c, stage)) (List.find (\<lambda>c. wc_path c = path) cs)) (map_of (ea_latest a) path)"
proof (induction cs arbitrary: a)
  case (Cons c cs)
  have "wc_path c' \<noteq> path" if "wc_path c = path" "c' \<in> set cs" for c'
    using Cons.prems that by (metis distinct.simps(2) image_eqI list.set_map list.simps(9))
  then have "List.find (\<lambda>c'. wc_path c' = path) cs = None" if "wc_path c = path"
    using that by (auto simp: find_None_iff)
  with Cons show ?case by (auto simp: add_change_latest entry_after_def split: option.split)
qed (simp add: entry_after_def)

text \<open>The run's states one after the other, as its stages record them.\<close>

fun chained :: "hashed_file list \<Rightarrow> (string \<times> hashed_file list) list \<Rightarrow> earlier_stage list" where
  "chained old [] = []"
| "chained old ((stage, new) # rest) =
     \<lparr>es_stage = stage, es_workflow_state = Available (workflow_changes (map_of_files old) (map_of_files new))\<rparr>
       # chained new rest"

fun last_change :: "hashed_file list \<Rightarrow> (string \<times> hashed_file list) list \<Rightarrow> string \<Rightarrow> (state_change \<times> string) option" where
  "last_change old [] path = None"
| "last_change old ((stage, new) # rest) path =
     (case last_change new rest path of
        Some change \<Rightarrow> Some change
      | None \<Rightarrow> map_option (\<lambda>ch. (ch, stage)) (change_between (map_of_files old) (map_of_files new) path))"

lemma find_change:
  "map_option wc_change (List.find (\<lambda>c. wc_path c = path) (workflow_changes (map_of_files old) (map_of_files new)))
     = change_between (map_of_files old) (map_of_files new) path"
proof (cases "List.find (\<lambda>c. wc_path c = path) (workflow_changes (map_of_files old) (map_of_files new))")
  case None
  have "change_between (map_of_files old) (map_of_files new) path \<noteq> Some ch" for ch
    using None workflow_changes_iff [OF distinct_map_of_files, of "\<lparr>wc_path = path, wc_change = ch\<rparr>" "map_of_files old" new]
    by (auto simp: find_None_iff)
  then have "change_between (map_of_files old) (map_of_files new) path = None" by blast
  with None show ?thesis by simp
next
  case (Some c)
  from find_Some_set [OF Some] have "change_between (map_of_files old) (map_of_files new) path = Some (wc_change c)"
    using workflow_changes_iff [OF distinct_map_of_files, of c "map_of_files old" new] by auto
  with Some show ?thesis by simp
qed

lemma earlier_chained:
  assumes "distinct (map fst (ea_latest a))"
  shows "map_of (ea_latest (foldl add_earlier a (chained old rest))) path
      = entry_after path (last_change old rest path) (map_of (ea_latest a) path)
    \<and> distinct (map fst (ea_latest (foldl add_earlier a (chained old rest))))
    \<and> ea_missing (foldl add_earlier a (chained old rest)) = ea_missing a"
  using assms
proof (induction old rest arbitrary: a rule: chained.induct)
  case (2 old stage new rest)
  let ?cs = "workflow_changes (map_of_files old) (map_of_files new)"
  let ?a = "foldl (add_change stage) a ?cs"
  have d: "distinct (map wc_path ?cs)" by (rule distinct_change_paths [OF distinct_map_of_files distinct_map_of_files])
  have l: "map_of (ea_latest ?a) path
      = entry_after path (map_option (\<lambda>ch. (ch, stage)) (change_between (map_of_files old) (map_of_files new) path))
          (map_of (ea_latest a) path)"
    unfolding add_changes_latest [OF d] find_change [symmetric] by (simp add: option.map_comp comp_def)
  have "entry_after path x (entry_after path y z) = entry_after path (case x of Some c \<Rightarrow> Some c | None \<Rightarrow> y) z" for x y z
    by (simp add: entry_after_def split: option.split)
  with 2(1) [OF add_changes_distinct [OF 2(2), of stage ?cs]] l show ?case by (simp add: add_earlier_def)
qed (simp add: entry_after_def)

lemma no_change_kept:
  "last_change old rest path = None \<Longrightarrow>
     map_of (map_of_files (last (old # map snd rest))) path = map_of (map_of_files old) path"
proof (induction old rest path rule: last_change.induct)
  case (2 old stage new rest path)
  then have "last_change new rest path = None" "change_between (map_of_files old) (map_of_files new) path = None"
    by (auto split: option.splits)
  with 2 show ?case by (auto simp: change_between_def split: option.splits if_splits)
qed simp

lemma last_change_kept:
  "last_change old rest path = Some (ch, stage) \<Longrightarrow> ch \<noteq> Removed \<Longrightarrow>
     map_of (map_of_files (last (old # map snd rest))) path \<noteq> None"
proof (induction old rest path rule: last_change.induct)
  case (2 old stage' new rest path)
  show ?case
  proof (cases "last_change new rest path")
    case None
    with 2(2) have "change_between (map_of_files old) (map_of_files new) path = Some ch" by auto
    with 2(3) have "map_of (map_of_files new) path \<noteq> None"
      by (auto simp: change_between_def split: option.splits)
    with no_change_kept [OF None] show ?thesis by simp
  next
    case (Some c)
    with 2 show ?thesis by simp
  qed
qed simp

lemma entries_distinct:
  assumes "distinct (map fst (ea_latest a))" "\<And>p x. map_of (ea_latest a) p = Some x \<Longrightarrow> \<exists>ch stage. x = EarlierStage p ch stage"
  shows "EarlierStage p ch stage \<in> snd ` set (ea_latest a) \<longleftrightarrow> map_of (ea_latest a) p = Some (EarlierStage p ch stage)"
proof
  assume "EarlierStage p ch stage \<in> snd ` set (ea_latest a)"
  then obtain q where q: "(q, EarlierStage p ch stage) \<in> set (ea_latest a)" by auto
  with assms(1) have m: "map_of (ea_latest a) q = Some (EarlierStage p ch stage)" by simp
  with assms(2) have "q = p" by blast
  with m show "map_of (ea_latest a) p = Some (EarlierStage p ch stage)" by simp
next
  assume "map_of (ea_latest a) p = Some (EarlierStage p ch stage)"
  from map_of_SomeD [OF this] show "EarlierStage p ch stage \<in> snd ` set (ea_latest a)" by force
qed

text \<open>C28: of a run whose stages' checkpoints follow one another, a stage starts from a workflow-state file of an
  earlier stage exactly when the file's last change was not its removal; the entry names that change and the last
  stage that made it, each file has one entry, it is there in the last checkpoint, and nothing is missing.\<close>

theorem artifacts_in_exact:
  "(EarlierStage path ch stage \<in> set (ai_entries (artifacts_in_of task_id up (chained initial rest)))
      \<longleftrightarrow> last_change initial rest path = Some (ch, stage) \<and> ch \<noteq> Removed)
    \<and> (EarlierStage path ch stage \<in> set (ai_entries (artifacts_in_of task_id up (chained initial rest)))
      \<longrightarrow> map_of (map_of_files (last (initial # map snd rest))) path \<noteq> None)
    \<and> ai_missing (artifacts_in_of task_id up (chained initial rest)) = []
    \<and> distinct (ai_entries (artifacts_in_of task_id up (chained initial rest)))"
proof -
  let ?a = "foldl add_earlier \<lparr>ea_latest = [], ea_missing = []\<rparr> (chained initial rest)"
  have l: "map_of (ea_latest ?a) p = entry_after p (last_change initial rest p) None" and d: "distinct (map fst (ea_latest ?a))"
    and m: "ea_missing ?a = []" for p
    using earlier_chained [of "\<lparr>ea_latest = [], ea_missing = []\<rparr>" initial rest p] by simp_all
  have shape: "\<exists>ch stage. x = EarlierStage p ch stage" if "map_of (ea_latest ?a) p = Some x" for p x
    using that by (auto simp: l entry_after_def split: option.splits prod.splits if_splits)
  have e: "EarlierStage path ch stage \<in> set (ai_entries (artifacts_in_of task_id up (chained initial rest)))
      \<longleftrightarrow> last_change initial rest path = Some (ch, stage) \<and> ch \<noteq> Removed"
    using entries_distinct [OF d shape, of path ch stage]
    by (auto simp: artifacts_in_of_def artifacts_reading_def l entry_after_def split: option.splits prod.splits if_splits)
  have inj: "inj_on snd (set (ea_latest ?a))"
  proof (rule inj_onI)
    fix x y
    assume xy: "x \<in> set (ea_latest ?a)" "y \<in> set (ea_latest ?a)" "snd x = snd y"
    have "map_of (ea_latest ?a) (fst z) = Some (snd z)" if "z \<in> set (ea_latest ?a)" for z using d that by simp
    then have "map_of (ea_latest ?a) (fst x) = Some (snd x)" "map_of (ea_latest ?a) (fst y) = Some (snd y)"
      using xy(1,2) by blast+
    with shape xy(3) show "x = y" by (metis artifact_in.inject(3) prod.collapse)
  qed
  have "TaskDeclaration t \<notin> set (map snd (ea_latest ?a))" "UpstreamCheckpoint u \<notin> set (map snd (ea_latest ?a))" for t u
    using shape map_of_is_SomeI [OF d] by fastforce+
  with inj d have "distinct (ai_entries (artifacts_in_of task_id up (chained initial rest)))"
    by (simp add: artifacts_in_of_def artifacts_reading_def distinct_map)
  with e m last_change_kept [of initial rest path ch stage] show ?thesis
    by (simp add: artifacts_in_of_def artifacts_reading_def)
qed

definition sample_states :: "(string \<times> hashed_file list) list" where
  "sample_states =
     [(''shape'', [\<lparr>hf_path = ''plan.md'', hf_sha256 = ''1''\<rparr>, \<lparr>hf_path = ''notes.md'', hf_sha256 = ''2''\<rparr>]),
      (''build'', [\<lparr>hf_path = ''plan.md'', hf_sha256 = ''3''\<rparr>])]"

lemma artifacts_in_exact_witness:
  "EarlierStage ''plan.md'' Modified ''build''
     \<in> set (ai_entries (artifacts_in_of ''TASK-1'' \<lparr>up_target = ''t'', up_upstream = ''build'', up_short_id = Unavailable []\<rparr>
         (chained [] sample_states)))"
proof -
  have "last_change [] sample_states ''plan.md'' = Some (Modified, ''build'')"
    by (simp add: sample_states_def change_between_def map_of_files_def)
  with conjunct1 [OF artifacts_in_exact, of "''plan.md''" Modified "''build''"] show ?thesis by simp
qed

end
