(* ===== verification/RedactPath.thy ===== *)
theory RedactPath
  imports EvidenceQuote
begin

text \<open>
  Absolute paths taken out of what the server tells a browser (\<open>src/src/server/redact-path.ts\<close>).

  \<open>absolutePathPattern\<close> builds a regular expression of four alternatives; \<open>match_at\<close> is what it matches
  at one position of the message, given the character before it, as the length of the match. \<open>String.replaceAll\<close>
  with a global expression is \<open>redact_from\<close>: it goes from left to right and resumes after each match. No
  alternative matches the empty text. The roots are \<open>homedir()\<close> and \<open>tmpdir()\<close>, arguments here.
\<close>

definition usable_roots :: "string list \<Rightarrow> string list" where
  "usable_roots roots = filter (\<lambda>r. starts_with r ''/'' \<and> 1 < length r) roots"

definition quote_char :: "char \<Rightarrow> bool" where
  "quote_char c \<longleftrightarrow> c \<in> {CHR 0x27, CHR 0x22, CHR 0x60}"

definition quoted_path_char :: "char \<Rightarrow> bool" where
  "quoted_path_char c \<longleftrightarrow> \<not> quote_char c \<and> c \<noteq> CHR 0x0A"

definition bare_root_char :: "char \<Rightarrow> bool" where
  "bare_root_char c \<longleftrightarrow> \<not> is_space c \<and> \<not> quote_char c \<and> c \<noteq> CHR '','' \<and> c \<noteq> CHR '')''"

definition bare_path_char :: "char \<Rightarrow> bool" where
  "bare_path_char c \<longleftrightarrow> \<not> is_space c \<and> c \<noteq> CHR '','' \<and> c \<noteq> CHR '')''"

definition after_quote :: "char option \<Rightarrow> bool" where
  "after_quote before \<longleftrightarrow> (case before of None \<Rightarrow> False | Some c \<Rightarrow> quote_char c)"

definition after_boundary :: "char option \<Rightarrow> bool" where
  "after_boundary before \<longleftrightarrow> (case before of None \<Rightarrow> True | Some c \<Rightarrow> is_space c \<or> c = CHR ''('')"

text \<open>A literal prefix, then as many characters of a class as there are.\<close>

definition match_length :: "string \<Rightarrow> (char \<Rightarrow> bool) \<Rightarrow> string \<Rightarrow> nat" where
  "match_length prefix p s = length prefix + length (takeWhile p (drop (length prefix) s))"

definition match_at :: "string list \<Rightarrow> char option \<Rightarrow> string \<Rightarrow> nat option" where
  "match_at roots before s =
     (case (List.find (starts_with s) roots, starts_with s ''/'') of
        (Some r, _) \<Rightarrow>
          if after_quote before then Some (match_length r quoted_path_char s)
          else Some (match_length r bare_root_char s)
      | (None, True) \<Rightarrow>
          if after_quote before then Some (match_length ''/'' quoted_path_char s)
          else if after_boundary before then Some (match_length ''/'' bare_path_char s)
          else None
      | (None, False) \<Rightarrow> None)"

lemma match_at_bounds:
  assumes "match_at (usable_roots roots) before s = Some n"
  shows "0 < n \<and> n \<le> length s"
proof -
  have ml: "0 < match_length p q s \<and> match_length p q s \<le> length s" if "starts_with s p" "p \<noteq> []" for p q
    using that length_takeWhile_le [of q "drop (length p) s"] by (auto simp: match_length_def starts_with_iff)
  have "r \<noteq> []" "starts_with s r" if "List.find (starts_with s) (usable_roots roots) = Some r" for r
    using find_Some_set [OF that] by (auto simp: usable_roots_def)
  with assms ml show ?thesis
    by (auto simp: match_at_def split: option.splits bool.splits if_splits)
qed

function redact_from :: "string list \<Rightarrow> char option \<Rightarrow> string \<Rightarrow> string" where
  "redact_from roots before [] = []"
| "redact_from roots before (c # s) =
     (case match_at (usable_roots roots) before (c # s) of
        None \<Rightarrow> c # redact_from roots (Some c) s
      | Some n \<Rightarrow> ''<path>'' @ redact_from roots (Some ((c # s) ! (n - 1))) (drop n (c # s)))"
  by pat_completeness auto
termination
  by (relation "measure (\<lambda>(roots, before, s). length s)") (auto dest: match_at_bounds)

definition redactor_for :: "string list \<Rightarrow> string \<Rightarrow> string" where
  "redactor_for roots message = redact_from roots None message"

subsection \<open>A field that is one path\<close>

definition separator :: "char \<Rightarrow> bool" where
  "separator c \<longleftrightarrow> c = CHR ''/'' \<or> c = CHR 0x5C"

definition ascii_letter :: "char \<Rightarrow> bool" where
  "ascii_letter c \<longleftrightarrow> of_char c \<in> {65..90} \<union> {97..(122::nat)}"

definition absolute_path :: "string \<Rightarrow> bool" where
  "absolute_path path \<longleftrightarrow> starts_with path ''/'' \<or> starts_with path [CHR 0x5C, CHR 0x5C]
     \<or> (case path of drive # colon # sep # rest \<Rightarrow> ascii_letter drive \<and> colon = CHR '':'' \<and> separator sep | _ \<Rightarrow> False)"

text \<open>\<open>String.split\<close> by the expression \<open>[/\\]\<close>.\<close>

fun split_where :: "(char \<Rightarrow> bool) \<Rightarrow> string \<Rightarrow> string list" where
  "split_where p [] = [[]]"
| "split_where p (c # cs) =
     (if p c then [] # split_where p cs
      else case split_where p cs of [] \<Rightarrow> [[c]] | x # xs \<Rightarrow> (c # x) # xs)"

definition redacted_file_path :: "string \<Rightarrow> string" where
  "redacted_file_path path =
     (if \<not> absolute_path path then path
      else case rev (filter (\<lambda>part. part \<noteq> []) (split_where separator path)) of
             [] \<Rightarrow> ''<path>''
           | name # _ \<Rightarrow> ''<path>/'' @ name)"

subsection \<open>What is left\<close>

text \<open>A message in which no absolute path begins where prose would begin one.\<close>

fun no_path_begins :: "char option \<Rightarrow> string \<Rightarrow> bool" where
  "no_path_begins before [] = True"
| "no_path_begins before (c # s) =
     (\<not> (c = CHR ''/'' \<and> (after_quote before \<or> after_boundary before)) \<and> no_path_begins (Some c) s)"

definition path_free :: "string list \<Rightarrow> string \<Rightarrow> bool" where
  "path_free roots s \<longleftrightarrow> no_path_begins None s \<and> list_all (\<lambda>r. index_of s r = None) (usable_roots roots)"

lemma match_at_None:
  "match_at roots before (c # s) = None \<longleftrightarrow>
     (\<forall>r \<in> set roots. \<not> starts_with (c # s) r) \<and> \<not> (c = CHR ''/'' \<and> (after_quote before \<or> after_boundary before))"
  by (auto simp: match_at_def find_None_iff split: option.split bool.split dest!: find_Some_set)

lemma redact_no_path_begins:
  "before' = before \<or> before' = Some (CHR ''>'') \<Longrightarrow> no_path_begins before' (redact_from roots before s)"
proof (induction roots before s arbitrary: before' rule: redact_from.induct)
  case (2 roots before c s)
  show ?case
  proof (cases "match_at (usable_roots roots) before (c # s)")
    case None
    then have "\<not> (c = CHR ''/'' \<and> (after_quote before \<or> after_boundary before))" by (simp add: match_at_None)
    with 2(3) have "\<not> (c = CHR ''/'' \<and> (after_quote before' \<or> after_boundary before'))"
      by (auto simp: after_quote_def after_boundary_def quote_char_def is_space_def)
    moreover have "redact_from roots before (c # s) = c # redact_from roots (Some c) s" using None by simp
    ultimately show ?thesis using 2(1) [OF None, of "Some c"] by simp
  next
    case (Some n)
    with 2(2) [OF Some, of "Some (CHR ''>'')"] show ?thesis by (simp add: after_quote_def quote_char_def)
  qed
qed simp

lemma redact_starts_with:
  "starts_with (redact_from roots before s) p \<Longrightarrow> CHR ''<'' \<notin> set p \<Longrightarrow> starts_with s p"
proof (induction roots before s arbitrary: p rule: redact_from.induct)
  case (2 roots before c s)
  then show ?case by (cases p) (auto split: option.splits)
qed simp

lemma redact_no_root:
  "r \<in> set (usable_roots roots) \<Longrightarrow> CHR ''<'' \<notin> set r \<Longrightarrow> index_of (redact_from roots before s) r = None"
proof (induction roots before s rule: redact_from.induct)
  case (1 roots before)
  then show ?case by (auto simp: usable_roots_def)
next
  case (2 roots before c s)
  from 2(3) obtain r' where r: "r = CHR ''/'' # r'" by (auto simp: usable_roots_def starts_with_iff)
  show ?case
  proof (cases "match_at (usable_roots roots) before (c # s)")
    case None
    with 2(3) have "\<not> starts_with (c # s) r" by (simp add: match_at_None)
    moreover have "redact_from roots before (c # s) = c # redact_from roots (Some c) s" using None by simp
    ultimately have "\<not> starts_with (c # redact_from roots (Some c) s) r"
      using redact_starts_with [of roots before "c # s" r] 2(4) by auto
    with None 2(1) [OF None 2(3,4)] show ?thesis by simp
  next
    case (Some n)
    with 2(2) [OF Some 2(3,4)] r show ?thesis by simp
  qed
qed

lemma redact_path_free_same:
  "no_path_begins before s \<Longrightarrow> list_all (\<lambda>r. index_of s r = None) (usable_roots roots) \<Longrightarrow> redact_from roots before s = s"
proof (induction roots before s rule: redact_from.induct)
  case (2 roots before c s)
  have "\<not> starts_with (c # s) r \<and> index_of s r = None" if "r \<in> set (usable_roots roots)" for r
    using 2(4) that by (auto simp: list_all_iff split: if_splits)
  then have "match_at (usable_roots roots) before (c # s) = None" "list_all (\<lambda>r. index_of s r = None) (usable_roots roots)"
    using 2(3) by (simp_all add: match_at_None list_all_iff)
  with 2(1) 2(3) show ?case by simp
qed simp

lemma redaction_path_free:
  assumes "list_all (\<lambda>r. CHR ''<'' \<notin> set r) roots"
  shows "path_free roots (redactor_for roots message)"
proof -
  have "index_of (redactor_for roots message) r = None" if "r \<in> set (usable_roots roots)" for r
    unfolding redactor_for_def
    by (rule redact_no_root [OF that]) (use assms that in \<open>auto simp: list_all_iff usable_roots_def\<close>)
  then show ?thesis
    using redact_no_path_begins [of None None roots message] by (simp add: path_free_def redactor_for_def list_all_iff)
qed

text \<open>C25: unless a root has a \<open><\<close> in it, no message the server redacts has a usable root in it any more,
  nor a slash where an absolute path would begin (at its start, or after white space, an opening parenthesis or
  a quote), and a message without those is left as it is.\<close>

theorem redaction_exact:
  assumes "list_all (\<lambda>r. CHR ''<'' \<notin> set r) roots"
  shows "path_free roots (redactor_for roots message)
    \<and> (redactor_for roots message = message \<longleftrightarrow> path_free roots message)"
proof -
  have "path_free roots message \<Longrightarrow> redactor_for roots message = message"
    by (simp add: path_free_def redactor_for_def redact_path_free_same)
  with redaction_path_free [OF assms, of message] show ?thesis by auto
qed

lemma redaction_exact_witness:
  "path_free [''/home/o'', ''/tmp''] (redactor_for [''/home/o'', ''/tmp''] ''read x:/home/o/a in /etc (/b, c/d)'')
   \<and> redactor_for [''/home/o'', ''/tmp''] ''read x:/home/o/a in /etc (/b, c/d)'' = ''read x:<path> in <path> (<path>, c/d)''"
proof -
  have "list_all (\<lambda>r. CHR ''<'' \<notin> set r) [''/home/o'', ''/tmp'']" by simp
  note free = conjunct1 [OF redaction_exact [OF this], of "''read x:/home/o/a in /etc (/b, c/d)''"]
  have "redactor_for [''/home/o'', ''/tmp''] ''read x:/home/o/a in /etc (/b, c/d)'' = ''read x:<path> in <path> (<path>, c/d)''"
    by (simp add: redactor_for_def match_at_def match_length_def usable_roots_def after_quote_def after_boundary_def
        quote_char_def is_space_def quoted_path_char_def bare_root_char_def bare_path_char_def)
  with free show ?thesis by simp
qed

subsection \<open>The name a path keeps\<close>

lemma split_where_parts: "part \<in> set (split_where p s) \<Longrightarrow> list_all (\<lambda>c. \<not> p c) part"
proof (induction s arbitrary: part)
  case (Cons c s)
  then show ?case by (cases "split_where p s") (fastforce split: if_splits)+
qed simp

text \<open>A redacted path names no directory.\<close>

lemma redacted_file_path_name:
  assumes "absolute_path path"
  shows "redacted_file_path path = ''<path>''
    \<or> (\<exists>name. redacted_file_path path = ''<path>/'' @ name \<and> name \<noteq> [] \<and> list_all (\<lambda>c. \<not> separator c) name)"
proof (cases "rev (filter (\<lambda>part. part \<noteq> []) (split_where separator path))")
  case Nil
  with assms show ?thesis by (simp add: redacted_file_path_def)
next
  case (Cons name parts)
  then have "name \<in> set (filter (\<lambda>part. part \<noteq> []) (split_where separator path))"
    by (metis list.set_intros(1) set_rev)
  then have n: "name \<in> set (split_where separator path) \<and> name \<noteq> []" by simp
  from assms Cons have "redacted_file_path path = ''<path>/'' @ name" by (simp add: redacted_file_path_def)
  with n split_where_parts [OF conjunct1 [OF n]] show ?thesis by blast
qed

end
