(* ===== verification/StoppedStatus.thy ===== *)
theory StoppedStatus
  imports Prelude
begin

text \<open>
  The statuses of a run that carry a stage's name, written and read in one place by the server and the browser
  (\<open>src/src/benchmark/stopped-status.ts\<close>).
\<close>

definition STOPPED_PREFIX :: string where
  "STOPPED_PREFIX = ''STOPPED:''"

definition PAUSED_PREFIX :: string where
  "PAUSED_PREFIX = ''PAUSED:''"

definition OPERATOR_STOPPED :: string where
  "OPERATOR_STOPPED = ''OPERATOR_STOPPED''"

definition LAUNCH_ENDED :: string where
  "LAUNCH_ENDED = ''ENDED''"

definition stopped_status :: "string \<Rightarrow> string" where
  "stopped_status stage = STOPPED_PREFIX @ stage"

definition is_stopped :: "string \<Rightarrow> bool" where
  "is_stopped status \<longleftrightarrow> starts_with status STOPPED_PREFIX"

definition stopped_stage_name :: "string \<Rightarrow> string" where
  "stopped_stage_name status = drop (length STOPPED_PREFIX) status"

definition paused_status :: "string \<Rightarrow> string" where
  "paused_status stage = PAUSED_PREFIX @ stage"

definition is_paused :: "string \<Rightarrow> bool" where
  "is_paused status \<longleftrightarrow> starts_with status PAUSED_PREFIX"

definition paused_stage_name :: "string \<Rightarrow> string" where
  "paused_stage_name status = drop (length PAUSED_PREFIX) status"

lemma stopped_round_trip [simp]: "is_stopped (stopped_status stage)" "stopped_stage_name (stopped_status stage) = stage"
  by (simp_all add: is_stopped_def stopped_status_def stopped_stage_name_def)

lemma paused_round_trip [simp]: "is_paused (paused_status stage)" "paused_stage_name (paused_status stage) = stage"
  by (simp_all add: is_paused_def paused_status_def paused_stage_name_def)

lemma is_stopped_iff: "is_stopped status \<longleftrightarrow> status = stopped_status (stopped_stage_name status)"
  by (auto simp: is_stopped_def stopped_status_def stopped_stage_name_def starts_with_iff)

lemma paused_not_stopped: "is_paused status \<Longrightarrow> \<not> is_stopped status"
  by (auto simp: is_paused_def is_stopped_def PAUSED_PREFIX_def STOPPED_PREFIX_def starts_with_iff)

end
