(* ===== verification/RunStatus.thy ===== *)
theory RunStatus
  imports StageFigures RedactPath RunEnding StoppedStatus
begin

text \<open>
  What a run's row and page say of how the run goes or went: the status of an ending (\<open>run-status.ts\<close> and the
  \<open>run-status-*.ts\<close> beside it) and the final outcome (\<open>run-record-ending.ts\<close>), under \<open>src/src/server\<close>.

  The files of a run are \<open>run_files\<close>: absent, or what reading and parsing the file gives or throws.
\<close>

subsection \<open>The files of a run\<close>

record run_manifest =
  mf_case_id :: string
  mf_corpus_version :: "corpus_measurement option"
  mf_effort :: "string option"
  mf_minimum_grade :: "letter option"
  mf_model :: string
  mf_stages :: "string list"
  mf_source_root :: string
  mf_source_sha :: string
  mf_spend_ceiling_usd :: "real option"
  mf_target_root :: "string option"
  mf_task_id :: string

record run_summary =
  su_case_id :: string
  su_scorecards :: "(string \<times> string) list"
  su_status :: string

record run_files =
  rf_manifest_path :: string
  rf_manifest :: "(string + run_manifest) option"
  rf_artifact :: "string + json"
  rf_summary :: "string + run_summary"
  rf_artifact_spend :: "(string + artifact_spend) option"
  rf_stage_file :: "string \<Rightarrow> (string + stage_file) option"
  rf_checkpoint :: "string \<Rightarrow> (string + checkpoint_record) option"
  rf_short_ids :: "string \<Rightarrow> string + short_id_entry list"

subsection \<open>A run in progress\<close>

record running_progress =
  pg_stage :: string
  pg_stage_state :: string
  pg_elapsed_ms :: nat
  pg_stage_elapsed_ms :: "int option"
  pg_measured_at :: string
  pg_spent_usd :: real
  pg_spend_scope :: string
  pg_run_spent_usd :: "real option"
  pg_run_tokens :: "run_tokens option"
  pg_ceiling_usd :: "real option"
  pg_judge :: "judge_progress option"

datatype run_progress = RecordedProgress | RunningProgress running_progress

datatype context_link = LinkAvailable string string | LinkUnavailable string string

record run_identity =
  id_status :: string
  id_case_id :: "string option"
  id_grade_by_stage :: "(string \<times> string) list"
  id_progress :: run_progress
  id_links :: "context_link list"

text \<open>Both tables are over the kinds of a run that has not ended.\<close>

fun SPEND_SCOPE :: "run_event_kind \<Rightarrow> string" where
  "SPEND_SCOPE JudgeProgress = ''this stage'' @ CHR 0x27 # ''s session''"
| "SPEND_SCOPE StageCompleted = ''this stage'' @ CHR 0x27 # ''s session and its judge''"
| "SPEND_SCOPE StageJudging = ''this stage'' @ CHR 0x27 # ''s session''"
| "SPEND_SCOPE StageStarted = ''the stages finished before this one''"
| "SPEND_SCOPE TurnCompleted = ''this stage'' @ CHR 0x27 # ''s session so far''"

fun STAGE_STATE :: "run_event_kind \<Rightarrow> string" where
  "STAGE_STATE JudgeProgress = ''judge grading''"
| "STAGE_STATE StageCompleted = ''judged''"
| "STAGE_STATE StageJudging = ''judge grading''"
| "STAGE_STATE StageStarted = ''session running''"
| "STAGE_STATE TurnCompleted = ''session running''"

definition running_progress_of :: "run_event \<Rightarrow> run_event option \<Rightarrow> running_progress" where
  "running_progress_of latest stage_start =
     \<lparr>pg_stage = ev_event_stage latest, pg_stage_state = STAGE_STATE (ev_kind latest),
      pg_elapsed_ms = ev_event_elapsed_ms latest,
      pg_stage_elapsed_ms = map_option (\<lambda>start. int (ev_event_elapsed_ms latest) - int (ev_event_elapsed_ms start)) stage_start,
      pg_measured_at = ev_recorded_at latest, pg_spent_usd = ev_event_spent_usd latest,
      pg_spend_scope = SPEND_SCOPE (ev_kind latest), pg_run_spent_usd = ev_run_spent_usd latest,
      pg_run_tokens = ev_run_tokens latest, pg_ceiling_usd = None,
      pg_judge = (if ev_kind latest = JudgeProgress then ev_judge latest else None)\<rparr>"

subsection \<open>The status of an ending\<close>

definition failed_links :: "string option \<Rightarrow> context_link list" where
  "failed_links stage =
     (case stage of None \<Rightarrow> [] | Some s \<Rightarrow> [LinkUnavailable s ''failed before saving its context''])"

definition manifest_backed_identity :: "run_files \<Rightarrow> string \<Rightarrow> run_progress \<Rightarrow> string + run_identity" where
  "manifest_backed_identity files status progress =
     (case rf_manifest files of
        None \<Rightarrow> Inl (''incomplete: no manifest.json at '' @ rf_manifest_path files)
      | Some read \<Rightarrow> bind_res read (\<lambda>manifest.
          Inr \<lparr>id_status = status, id_case_id = Some (mf_case_id manifest), id_grade_by_stage = [],
            id_progress = (case progress of
               RunningProgress p \<Rightarrow> RunningProgress (p\<lparr>pg_ceiling_usd := mf_spend_ceiling_usd manifest\<rparr>)
             | RecordedProgress \<Rightarrow> RecordedProgress),
            id_links = []\<rparr>))"

definition source_case_id :: "run_files \<Rightarrow> string + string option" where
  "source_case_id files =
     (case rf_manifest files of
        None \<Rightarrow> Inr None
      | Some read \<Rightarrow> bind_res read (\<lambda>manifest. Inr (Some (mf_case_id manifest))))"

definition event_backed_identity :: "run_files \<Rightarrow> string \<Rightarrow> context_link list \<Rightarrow> string + run_identity" where
  "event_backed_identity files status links =
     bind_res (source_case_id files) (\<lambda>case_id.
       Inr \<lparr>id_status = status, id_case_id = case_id, id_grade_by_stage = [], id_progress = RecordedProgress,
         id_links = links\<rparr>)"

definition artifact_identity :: "run_files \<Rightarrow> string + run_identity" where
  "artifact_identity files =
     bind_res (rf_summary files) (\<lambda>summary.
       Inr \<lparr>id_status = su_status summary, id_case_id = Some (su_case_id summary),
         id_grade_by_stage = su_scorecards summary, id_progress = RecordedProgress, id_links = []\<rparr>)"

definition running_identity ::
    "run_files \<Rightarrow> 'st event_store \<Rightarrow> 'st \<Rightarrow> string \<Rightarrow> run_event \<Rightarrow> string + run_identity" where
  "running_identity files es st run latest =
     bind_res (st_latest_stage_start es st run (ev_event_stage latest)) (\<lambda>stage_start.
       manifest_backed_identity files ''RUNNING'' (RunningProgress (running_progress_of latest stage_start)))"

definition missing_run_events_error :: "run_files \<Rightarrow> string" where
  "missing_run_events_error files =
     (if rf_manifest files \<noteq> None then ''no record: no stage record and no run events'' else ''no manifest recorded'')"

definition ending_identity ::
    "run_files \<Rightarrow> 'st event_store \<Rightarrow> 'st \<Rightarrow> string \<Rightarrow> run_ending \<Rightarrow> string + run_identity option" where
  "ending_identity files es st run ending =
     (let row = \<lambda>r. bind_res r (\<lambda>x. Inr (Some x))
      in case ending of
           MainArtifact \<Rightarrow> row (artifact_identity files)
         | StoppedRun stage _ \<Rightarrow> row (manifest_backed_identity files (stopped_status stage) RecordedProgress)
         | PausedRun stage \<Rightarrow> row (manifest_backed_identity files (paused_status stage) RecordedProgress)
         | OperatorStoppedRun _ \<Rightarrow> row (manifest_backed_identity files OPERATOR_STOPPED RecordedProgress)
         | InterruptedRun _ \<Rightarrow> row (event_backed_identity files ''INTERRUPTED'' [])
         | AwaitingJudgment _ \<Rightarrow> row (event_backed_identity files ''INTERRUPTED'' [])
         | FailedRun stage \<Rightarrow> row (event_backed_identity files ''FAILED'' (failed_links stage))
         | RunningRun latest \<Rightarrow> row (running_identity files es st run latest)
         | UnconfirmedRun _ \<Rightarrow> Inr None
         | CompletedWithoutArtifact _ \<Rightarrow> Inl ''incomplete: the run recorded run-completed but no artifact''
         | NoEvents \<Rightarrow> Inl (missing_run_events_error files))"

text \<open>\<open>statusAndCaseId\<close> and \<open>runStatus\<close>: the ending is read first.\<close>

definition status_and_case_id ::
    "run_files \<Rightarrow> ending_reading \<Rightarrow> 'st event_store \<Rightarrow> 'st \<Rightarrow> string \<Rightarrow> string + run_identity option" where
  "status_and_case_id files r es st run = bind_res (run_ending_of r es st run) (ending_identity files es st run)"

definition run_status ::
    "run_files \<Rightarrow> ending_reading \<Rightarrow> 'st event_store \<Rightarrow> 'st \<Rightarrow> string \<Rightarrow> string + string option" where
  "run_status files r es st run =
     bind_res (status_and_case_id files r es st run) (\<lambda>identity. Inr (map_option id_status identity))"

text \<open>The last checkpoint in pipeline order; \<open>recorded\<close> is what \<open>checkpointStageNames\<close> lists.\<close>

definition latest_checkpoint_stage :: "run_files \<Rightarrow> string list \<Rightarrow> string + string option" where
  "latest_checkpoint_stage files recorded =
     (case rf_manifest files of
        None \<Rightarrow> Inr None
      | Some read \<Rightarrow> bind_res read (\<lambda>manifest.
          Inr (find_last (\<lambda>name. name \<in> set recorded) (mf_stages manifest))))"

subsection \<open>The final outcome\<close>

definition INTERRUPTED_REASON :: string where
  "INTERRUPTED_REASON = ''the run was interrupted before its final judge''"

definition RUN_FAILED_REASON :: string where
  "RUN_FAILED_REASON = ''the run failed before its final judge''"

definition PAUSED_REASON :: string where
  "PAUSED_REASON = ''the run ended paused before its final judge''"

definition OPERATOR_STOPPED_REASON :: string where
  "OPERATOR_STOPPED_REASON = ''the operator stopped the run before its final judge''"

definition AWAITING_JUDGMENT_REASON :: string where
  "AWAITING_JUDGMENT_REASON = ''the run ended while this stage awaited judgment''"

definition UNEXPLAINED_END_REASON :: string where
  "UNEXPLAINED_END_REASON = ''the run ended without recording how it ended''"

definition UNREADABLE_ENDING_REASON :: string where
  "UNREADABLE_ENDING_REASON = ''the records that say how the run ended could not be read''"

text \<open>\<open>roots\<close> are the directories \<open>redactAbsolutePaths\<close> knows.\<close>

definition read_ending ::
    "string list \<Rightarrow> ending_reading \<Rightarrow> 'st event_store \<Rightarrow> 'st \<Rightarrow> string \<Rightarrow> run_ending reading" where
  "read_ending roots r es st run =
     (case run_ending_of r es st run of
        Inr ending \<Rightarrow> Available ending
      | Inl message \<Rightarrow> Unavailable [redactor_for roots message])"

definition graded_verdict :: "json \<Rightarrow> pass_fail option" where
  "graded_verdict artifact =
     (case json_field artifact ''grade'' of
        Some grade \<Rightarrow>
          if json_field grade ''verdict'' = Some (JStr ''PASS'') then Some PASS
          else if json_field grade ''verdict'' = Some (JStr ''FAIL'') then Some FAIL
          else None
      | None \<Rightarrow> None)"

definition judged_outcome :: "string + json \<Rightarrow> string + run_outcome" where
  "judged_outcome artifact =
     bind_res artifact (\<lambda>j.
       case graded_verdict j of
         Some verdict \<Rightarrow> Inr (OutcomeJudged verdict)
       | None \<Rightarrow>
           (case nonempty_field j ''failure'' of
              Some failure \<Rightarrow> Inr (OutcomeJudgingFailed failure)
            | None \<Rightarrow> Inl ''ZodError''))"

definition final_outcome_of :: "run_files \<Rightarrow> run_ending reading \<Rightarrow> string + run_outcome" where
  "final_outcome_of files r =
     (case r of
        Unavailable _ \<Rightarrow> Inr (OutcomeNotReached None UNREADABLE_ENDING_REASON)
      | Available ending \<Rightarrow>
          (case ending of
             MainArtifact \<Rightarrow> judged_outcome (rf_artifact files)
           | StoppedRun stage err \<Rightarrow> Inr (OutcomeNotReached (Some stage) err)
           | PausedRun stage \<Rightarrow> Inr (OutcomeNotReached (Some stage) PAUSED_REASON)
           | OperatorStoppedRun stage \<Rightarrow> Inr (OutcomeNotReached stage OPERATOR_STOPPED_REASON)
           | InterruptedRun stage \<Rightarrow> Inr (OutcomeNotReached (Some stage) INTERRUPTED_REASON)
           | FailedRun stage \<Rightarrow> Inr (OutcomeNotReached stage RUN_FAILED_REASON)
           | CompletedWithoutArtifact stage \<Rightarrow> Inr (OutcomeNotReached (Some stage) UNEXPLAINED_END_REASON)
           | AwaitingJudgment stage \<Rightarrow> Inr (OutcomeNotReached (Some stage) AWAITING_JUDGMENT_REASON)
           | RunningRun latest \<Rightarrow> Inr (OutcomePending (ev_event_stage latest))
           | UnconfirmedRun stage \<Rightarrow> Inr (OutcomePending stage)
           | NoEvents \<Rightarrow> Inr (OutcomeNotReached None UNEXPLAINED_END_REASON)))"

definition status_reading ::
    "string list \<Rightarrow> run_files \<Rightarrow> 'st event_store \<Rightarrow> 'st \<Rightarrow> string \<Rightarrow> run_ending reading \<Rightarrow> string reading" where
  "status_reading roots files es st run r =
     (case r of
        Unavailable reasons \<Rightarrow> Unavailable reasons
      | Available ending \<Rightarrow>
          (case ending_identity files es st run ending of
             Inl message \<Rightarrow> Unavailable [redactor_for roots message]
           | Inr None \<Rightarrow> Unavailable [''run history lists no row for the run'']
           | Inr (Some identity) \<Rightarrow> Available (id_status identity)))"

subsection \<open>One ending behind the status and the outcome\<close>

lemma ending_identity_status:
  assumes "ending_identity files es st run ending = Inr (Some identity)"
  shows "id_status identity =
    (case ending of
       StoppedRun stage _ \<Rightarrow> stopped_status stage | PausedRun stage \<Rightarrow> paused_status stage
     | OperatorStoppedRun _ \<Rightarrow> OPERATOR_STOPPED | FailedRun _ \<Rightarrow> ''FAILED'' | RunningRun _ \<Rightarrow> ''RUNNING''
     | MainArtifact \<Rightarrow> id_status identity | _ \<Rightarrow> ''INTERRUPTED'')"
  using assms
  by (cases ending)
    (auto simp: ending_identity_def manifest_backed_identity_def event_backed_identity_def running_identity_def
      res_simps split: option.splits)

text \<open>Of a running run, a row names the running stage, how long it has run and the ceiling of its manifest.\<close>

lemma ending_identity_progress:
  assumes "ending_identity files es st run ending = Inr (Some identity)"
  shows "(case id_progress identity of
       RecordedProgress \<Rightarrow> \<forall>latest. ending \<noteq> RunningRun latest
     | RunningProgress p \<Rightarrow> \<exists>latest manifest. ending = RunningRun latest \<and> pg_stage p = ev_event_stage latest
         \<and> rf_manifest files = Some (Inr manifest) \<and> pg_ceiling_usd p = mf_spend_ceiling_usd manifest)"
  using assms
  by (cases ending)
    (auto simp: ending_identity_def manifest_backed_identity_def event_backed_identity_def running_identity_def
      artifact_identity_def running_progress_of_def res_simps split: option.splits)

text \<open>An ending that could not be read is named so, without the path of the file.\<close>

lemma unreadable_ending:
  assumes "run_ending_of r es st run = Inl message" "list_all (\<lambda>d. CHR ''<'' \<notin> set d) roots"
  shows "final_outcome_of files (read_ending roots r es st run) = Inr (OutcomeNotReached None UNREADABLE_ENDING_REASON)
    \<and> (\<exists>reason. status_reading roots files es st run (read_ending roots r es st run) = Unavailable [reason] \<and> path_free roots reason)"
  using assms redaction_path_free [OF assms(2)]
  by (simp add: read_ending_def status_reading_def final_outcome_of_def)

text \<open>C29: the status and the final outcome a run's page shows name the same ending, and the reason with them: a verdict
  or a failed final Judge is the one in the main artifact and stands beside the status that artifact records; an
  outcome pending at a stage stands beside \<open>RUNNING\<close> and a row whose running stage is that one; and an outcome not
  reached gives the reason of the ending its status names: interrupted or awaiting judgment beside
  \<open>INTERRUPTED\<close>, failed beside \<open>FAILED\<close>, the operator's stop beside its own status, and the error of the stop or the
  pause beside the status of the very stage it stopped or paused at.\<close>

theorem status_names_outcome:
  assumes "run_ending_of r es st run = Inr ending" "ending_identity files es st run ending = Inr (Some identity)"
    and "final_outcome_of files (read_ending roots r es st run) = Inr outcome"
  shows "status_reading roots files es st run (read_ending roots r es st run) = Available (id_status identity)
    \<and> (case outcome of
         OutcomeJudged verdict \<Rightarrow> ending = MainArtifact
           \<and> (\<exists>summary. rf_summary files = Inr summary \<and> id_status identity = su_status summary)
           \<and> (\<exists>j. rf_artifact files = Inr j \<and> graded_verdict j = Some verdict)
       | OutcomeJudgingFailed failure \<Rightarrow> ending = MainArtifact
           \<and> (\<exists>summary. rf_summary files = Inr summary \<and> id_status identity = su_status summary)
           \<and> (\<exists>j. rf_artifact files = Inr j \<and> graded_verdict j = None \<and> nonempty_field j ''failure'' = Some failure)
       | OutcomePending stage \<Rightarrow> id_status identity = ''RUNNING''
           \<and> (\<exists>latest p. ending = RunningRun latest \<and> id_progress identity = RunningProgress p \<and> pg_stage p = stage)
       | OutcomeNotReached stage reason \<Rightarrow>
           (\<exists>s. stage = Some s \<and> ending = InterruptedRun s \<and> id_status identity = ''INTERRUPTED''
              \<and> reason = ''the run was interrupted before its final judge'')
           \<or> (\<exists>s. stage = Some s \<and> ending = AwaitingJudgment s \<and> id_status identity = ''INTERRUPTED''
              \<and> reason = ''the run ended while this stage awaited judgment'')
           \<or> (ending = FailedRun stage \<and> id_status identity = ''FAILED''
              \<and> reason = ''the run failed before its final judge'')
           \<or> (ending = OperatorStoppedRun stage \<and> id_status identity = OPERATOR_STOPPED
              \<and> reason = ''the operator stopped the run before its final judge'')
           \<or> (\<exists>s. stage = Some s \<and> ending = StoppedRun s reason \<and> id_status identity = stopped_status s)
           \<or> (\<exists>s. stage = Some s \<and> ending = PausedRun s \<and> id_status identity = paused_status s
              \<and> reason = ''the run ended paused before its final judge''))"
    (is "_ \<and> ?named")
proof -
  have re: "read_ending roots r es st run = Available ending" using assms(1) by (simp add: read_ending_def)
  have o: "final_outcome_of files (Available ending) = Inr outcome" using assms(3) re by simp
  have ?named
  proof (cases ending)
    case MainArtifact
    with assms(2) obtain summary where "rf_summary files = Inr summary" "id_status identity = su_status summary"
      by (auto simp: ending_identity_def artifact_identity_def res_simps)
    moreover from MainArtifact o have "judged_outcome (rf_artifact files) = Inr outcome" by (simp add: final_outcome_of_def)
    then have "\<exists>j. rf_artifact files = Inr j \<and> ((\<exists>v. outcome = OutcomeJudged v \<and> graded_verdict j = Some v)
        \<or> (\<exists>f. outcome = OutcomeJudgingFailed f \<and> graded_verdict j = None \<and> nonempty_field j ''failure'' = Some f))"
      by (auto simp: judged_outcome_def res_simps split: option.splits)
    ultimately show ?thesis using MainArtifact by auto
  next
    case (RunningRun latest)
    with o have "outcome = OutcomePending (ev_event_stage latest)" by (simp add: final_outcome_of_def)
    with RunningRun ending_identity_status [OF assms(2)] ending_identity_progress [OF assms(2)] assms(2) show ?thesis
      by (auto simp: ending_identity_def running_identity_def manifest_backed_identity_def running_progress_of_def
          res_simps split: option.splits)
  next
    case (UnconfirmedRun stage)
    with assms(2) show ?thesis by (simp add: ending_identity_def)
  next
    case (CompletedWithoutArtifact stage)
    with assms(2) show ?thesis by (simp add: ending_identity_def)
  next
    case NoEvents
    with assms(2) show ?thesis by (simp add: ending_identity_def)
  qed (use o ending_identity_status [OF assms(2)] in \<open>auto simp: final_outcome_of_def INTERRUPTED_REASON_def RUN_FAILED_REASON_def
      PAUSED_REASON_def OPERATOR_STOPPED_REASON_def AWAITING_JUDGMENT_REASON_def\<close>)
  with re assms(2) show ?thesis by (simp add: status_reading_def)
qed

definition sample_files :: run_files where
  "sample_files =
     \<lparr>rf_manifest_path = ''manifest.json'', rf_manifest = None,
      rf_artifact = Inr (JObj [(''grade'', JObj [(''verdict'', JStr ''PASS'')])]),
      rf_summary = Inr \<lparr>su_case_id = ''case'', su_scorecards = [], su_status = ''COMPLETED''\<rparr>,
      rf_artifact_spend = None, rf_stage_file = (\<lambda>_. None), rf_checkpoint = (\<lambda>_. None), rf_short_ids = (\<lambda>_. Inr [])\<rparr>"

definition judged_reading :: ending_reading where
  "judged_reading =
     \<lparr>er_disk = \<lparr>rd_artifact = True, rd_manifest = None, rd_stage_files = [], rd_paused = None, rd_operator_stop = None\<rparr>,
      er_liveness = sample_liveness True, er_iso = (\<lambda>_. True)\<rparr>"

lemma status_names_outcome_witness:
  "status_reading [''/root''] sample_files store_for_queries [] ''run-1''
     (read_ending [''/root''] judged_reading store_for_queries [] ''run-1'') = Available ''COMPLETED''
   \<and> final_outcome_of sample_files (read_ending [''/root''] judged_reading store_for_queries [] ''run-1'') = Inr (OutcomeJudged PASS)"
proof -
  have e: "run_ending_of judged_reading store_for_queries [] ''run-1'' = Inr MainArtifact"
    by (simp add: run_ending_of_def judged_reading_def)
  have i: "ending_identity sample_files store_for_queries [] ''run-1'' MainArtifact
      = Inr (Some \<lparr>id_status = ''COMPLETED'', id_case_id = Some ''case'', id_grade_by_stage = [],
          id_progress = RecordedProgress, id_links = []\<rparr>)"
    by (simp add: ending_identity_def artifact_identity_def sample_files_def)
  have f: "final_outcome_of sample_files (read_ending [''/root''] judged_reading store_for_queries [] ''run-1'')
      = Inr (OutcomeJudged PASS)"
    using e by (simp add: read_ending_def final_outcome_of_def sample_files_def judged_outcome_def graded_verdict_def)
  from conjunct1 [OF status_names_outcome [OF e i f]] f show ?thesis by simp
qed

end
