(* ===== verification/RunRecords.thy ===== *)
theory RunRecords
  imports RunArtifacts RunStatus
begin

text \<open>
  The record of a run as the server serves it, put together from the files the run wrote: its sums
  (\<open>run-record-totals.ts\<close>), its stages (\<open>run-stage-assembly.ts\<close>, \<open>run-stages-assembly.ts\<close>), the files
  (\<open>run-record-source.ts\<close>, \<open>run-short-id-reading.ts\<close>) and the whole (\<open>run-record-assembly.ts\<close>,
  \<open>run-record.ts\<close>), all under \<open>src/src/server\<close>.
\<close>

subsection \<open>Sums of what was spent\<close>

record cost_part =
  cp_part :: string
  cp_usd :: real

datatype cost_item = CostPart cost_part | CostMissing missing_part

record cost_figure =
  cf_usd :: real
  cf_parts :: "cost_part list"
  cf_missing :: "missing_part list"

type_synonym cost_reading = "cost_figure reading"

definition cost_part_of :: "string \<Rightarrow> real reading \<Rightarrow> cost_item" where
  "cost_part_of part r =
     (case r of
        Available x \<Rightarrow> CostPart \<lparr>cp_part = part, cp_usd = x\<rparr>
      | Unavailable reasons \<Rightarrow> CostMissing \<lparr>mp_part = part, mp_reason = join_with ''; '' reasons\<rparr>)"

definition kept_costs :: "cost_item list \<Rightarrow> cost_part list" where
  "kept_costs spend = List.map_filter (\<lambda>i. case i of CostPart p \<Rightarrow> Some p | CostMissing _ \<Rightarrow> None) spend"

definition lacked_costs :: "cost_item list \<Rightarrow> missing_part list" where
  "lacked_costs spend = List.map_filter (\<lambda>i. case i of CostPart _ \<Rightarrow> None | CostMissing m \<Rightarrow> Some m) spend"

definition cost_reading_of :: "cost_item list \<Rightarrow> cost_reading" where
  "cost_reading_of spend =
     (let parts = kept_costs spend; missing = lacked_costs spend
      in if parts = [] then Unavailable (map missing_words missing)
         else Available \<lparr>cf_usd = foldl (\<lambda>acc p. acc + cp_usd p) 0 parts, cf_parts = parts, cf_missing = missing\<rparr>)"

definition PRODUCT_OWNER_COST_REASON :: string where
  "PRODUCT_OWNER_COST_REASON = ''neither a main artifact nor a stop record holds the Product Owner'' @ CHR 0x27
     # ''s cost, as the run wrote neither, they predate it, or the run stopped before a stage'' @ CHR 0x27
     # ''s judge returned a grade''"

definition PRODUCT_OWNER_TOKENS_REASON :: string where
  "PRODUCT_OWNER_TOKENS_REASON = ''neither a main artifact nor a stop record holds the Product Owner'' @ CHR 0x27
     # ''s calls, as the run wrote neither, they predate them, or the run stopped before a stage'' @ CHR 0x27
     # ''s judge returned a grade''"

definition RUN_WALL_TIME_REASON :: string where
  "RUN_WALL_TIME_REASON = ''neither a main artifact nor a stop record holds the run'' @ CHR 0x27
     # ''s elapsed time, as the run wrote neither, they predate it, or the run stopped before a stage'' @ CHR 0x27
     # ''s judge returned a grade''"

record run_wide_records =
  rw_artifact :: "artifact_spend option"
  rw_stop_record :: "stage_file option"

record run_totals =
  rt_tokens :: token_reading
  rt_cost :: cost_reading
  rt_product_owner_cost :: "real reading"
  rt_wall_time :: "real reading"

text \<open>What a field of the run is in its main artifact, or in its stop record when it has no artifact.\<close>

definition run_wide :: "(artifact_spend \<Rightarrow> 'a option) \<Rightarrow> (stage_file \<Rightarrow> 'a option) \<Rightarrow> run_wide_records \<Rightarrow> 'a option" where
  "run_wide of_artifact of_stop r =
     (case rw_artifact r of None \<Rightarrow> Option.bind (rw_stop_record r) of_stop | Some a \<Rightarrow> of_artifact a)"

definition artifact_judge_calls :: "artifact_spend \<Rightarrow> judge_calls" where
  "artifact_judge_calls a = \<lparr>jc_provider_calls = as_judge_provider_calls a, jc_attempts = as_judge_attempts a\<rparr>"

definition product_owner_cost :: "run_wide_records \<Rightarrow> real reading" where
  "product_owner_cost r =
     usd (run_wide as_product_owner_cost_usd sf_product_owner_cost_usd r) PRODUCT_OWNER_COST_REASON"

definition run_cost_parts :: "run_wide_records \<Rightarrow> cost_item list" where
  "run_cost_parts r =
     cost_part_of ''Product Owner'' (product_owner_cost r)
       # (case rw_artifact r of
            None \<Rightarrow> []
          | Some a \<Rightarrow> [cost_part_of ''final judge''
              (judge_cost (as_judge_cost_usd a) (artifact_judge_calls a) ''the main artifact holds no final judge cost'')])"

definition run_totals_of :: "cost_item list \<Rightarrow> token_part list \<Rightarrow> run_wide_records \<Rightarrow> run_totals" where
  "run_totals_of stage_parts token_parts r =
     \<lparr>rt_tokens = token_reading_of token_parts,
      rt_cost = cost_reading_of (stage_parts @ run_cost_parts r),
      rt_product_owner_cost = product_owner_cost r,
      rt_wall_time = wall_time (run_wide as_elapsed_ms sf_run_elapsed_ms r) RUN_WALL_TIME_REASON\<rparr>"

definition run_token_parts :: "run_wide_records \<Rightarrow> token_part list" where
  "run_token_parts r =
     spent_calls_part ''Product Owner'' (run_wide as_product_owner_provider_calls sf_product_owner_provider_calls r)
       PRODUCT_OWNER_TOKENS_REASON
       # (case rw_artifact r of
            None \<Rightarrow> []
          | Some a \<Rightarrow> [judge_token_part ''final judge'' (artifact_judge_calls a) ''the main artifact holds no judge attempts''])"

subsection \<open>One stage\<close>

record grade_figure =
  gf_letter :: string
  gf_reaches_minimum :: bool
  gf_verdict :: string

record blocker_figure =
  bf_fired :: nat
  bf_fired_ids :: "string list"
  bf_total :: nat

record artifacts_out =
  ao_changed_paths :: "string list reading"
  ao_commit_subjects :: "string list reading"
  ao_declared :: "string list reading"
  ao_workflow_state :: "workflow_change list reading"

record run_record_stage =
  rr_stage :: string
  rr_status :: stage_record_status
  rr_grade :: "grade_figure reading"
  rr_blockers :: "blocker_figure reading"
  rr_wall_time :: "real reading"
  rr_session_cost :: "real reading"
  rr_judge_cost :: "real reading"
  rr_tokens :: token_reading
  rr_checkpoint :: bool
  rr_checkpoint_short_id :: short_id_reading
  rr_instruction_files :: "hashed_file list reading"
  rr_corpus_version :: "corpus_measurement option"
  rr_read_manifest :: "read_entry list reading"
  rr_artifacts_in :: artifacts_in
  rr_artifacts_out :: artifacts_out

definition AWAITING_GRADE_REASON :: string where
  "AWAITING_GRADE_REASON = ''the stage'' @ CHR 0x27 # ''s judge has not returned''"

definition STOPPED_GRADE_REASON :: string where
  "STOPPED_GRADE_REASON =
     ''the stop record keeps no letter grade, as it predates the letter or its judge returned none''"

definition WALL_TIME_REASON :: string where
  "WALL_TIME_REASON =
     ''the stage record keeps no elapsed time, as it predates the reading or its judge returned no grade''"

definition UNGRADED_BLOCKERS_REASON :: string where
  "UNGRADED_BLOCKERS_REASON = ''the stage record holds no graded hard blockers''"

definition MINIMUM_GRADE_REASON :: string where
  "MINIMUM_GRADE_REASON = ''the run manifest predates the minimum grade''"

definition ungraded_reason :: "placed_stage \<Rightarrow> string" where
  "ungraded_reason recorded =
     (case stage_status (st_file recorded) of
        StageNoRecord \<Rightarrow> UNRECORDED_REASONS (st_place recorded)
      | StageAwaiting \<Rightarrow> AWAITING_GRADE_REASON
      | StageGraded \<Rightarrow> ''the scorecard holds no letter''
      | StageStopped \<Rightarrow> STOPPED_GRADE_REASON)"

definition stage_tokens :: "placed_stage \<Rightarrow> token_reading" where
  "stage_tokens recorded =
     (let parts = stage_token_parts recorded
      in if parts = [] then Unavailable [UNRECORDED_REASONS (st_place recorded)] else token_reading_of parts)"

definition fired_blocker_ids :: "graded_blockers \<Rightarrow> string list" where
  "fired_blocker_ids blockers = map gi_id (filter (\<lambda>b. gi_status b = FAIL) blockers)"

definition recorded_hard_blockers :: "stage_file option \<Rightarrow> graded_blockers option" where
  "recorded_hard_blockers file =
     either (Option.bind (Option.bind file sf_grade) rg_hard_blockers) (Option.bind file sf_hard_blockers)"

definition blockers_of :: "placed_stage \<Rightarrow> blocker_figure reading" where
  "blockers_of recorded =
     (case recorded_hard_blockers (st_file recorded) of
        None \<Rightarrow> Unavailable [unrecorded_or recorded UNGRADED_BLOCKERS_REASON]
      | Some blockers \<Rightarrow>
          (let fired = fired_blocker_ids blockers
           in Available \<lparr>bf_fired = length fired, bf_fired_ids = fired, bf_total = length blockers\<rparr>))"

definition instruction_files :: "placed_stage \<Rightarrow> hashed_file list reading" where
  "instruction_files recorded =
     files_of (either (map_option cp_corpus_files (st_checkpoint recorded)) (Option.bind (st_file recorded) sf_corpus_files))"

definition ran_under_version :: "placed_stage \<Rightarrow> corpus_measurement option" where
  "ran_under_version recorded =
     either (Option.bind (st_checkpoint recorded) cp_corpus_version) (Option.bind (st_file recorded) sf_corpus_version)"

definition read_manifest_of :: "placed_stage \<Rightarrow> read_entry list reading" where
  "read_manifest_of recorded =
     (case either (Option.bind (st_checkpoint recorded) cp_read_manifest) (Option.bind (st_file recorded) sf_read_manifest) of
        Some entries \<Rightarrow> Available entries
      | None \<Rightarrow>
          if st_checkpoint recorded = None then Unavailable [''the stage saved no checkpoint'']
          else Unavailable [''the checkpoint was recorded before read manifests''])"

text \<open>A letter outside the gate's scale falls back to its Judge's verdict.\<close>

definition reaches_minimum :: "recorded_grade \<Rightarrow> letter option \<Rightarrow> bool" where
  "reaches_minimum grade minimum =
     (case List.find (\<lambda>l. letter_name l = rg_grade grade) STAGE_LETTER_GRADES of
        None \<Rightarrow> rg_verdict grade \<noteq> ''STOP''
      | Some l \<Rightarrow> letter_reaches_minimum l minimum)"

definition grade_figure_of :: "placed_stage \<Rightarrow> letter option \<Rightarrow> grade_figure reading" where
  "grade_figure_of recorded minimum =
     (case Option.bind (st_file recorded) sf_grade of
        None \<Rightarrow> Unavailable [ungraded_reason recorded]
      | Some grade \<Rightarrow>
          Available \<lparr>gf_letter = rg_grade grade, gf_reaches_minimum = reaches_minimum grade minimum,
            gf_verdict = rg_verdict grade\<rparr>)"

definition available_or :: "'a option \<Rightarrow> string \<Rightarrow> 'a reading" where
  "available_or x absent = (case x of None \<Rightarrow> Unavailable [absent] | Some y \<Rightarrow> Available y)"

definition stage_artifacts :: "placed_stage \<Rightarrow> checkpoints \<Rightarrow> artifacts_out" where
  "stage_artifacts recorded checkpoints =
     (let inp = Option.bind (st_file recorded) sf_input
      in \<lparr>ao_changed_paths = available_or (Option.bind inp in_changed_paths) ''the stage record holds no changed paths'',
          ao_commit_subjects = available_or (Option.bind inp in_commit_subjects) ''the stage record holds no commit subjects'',
          ao_declared = paths_of (map_option cp_artifacts (st_checkpoint recorded))
            ''the stage saved no checkpoint to declare its artifact'',
          ao_workflow_state = workflow_state_changes (st_checkpoint recorded) checkpoints\<rparr>)"

record stage_context =
  sc_checkpoints :: checkpoints
  sc_checkpoint_short_id :: short_id_reading
  sc_minimum_grade :: "letter option"
  sc_inputs :: artifacts_in

definition stage_record :: "placed_stage \<Rightarrow> stage_context \<Rightarrow> run_record_stage" where
  "stage_record recorded c =
     \<lparr>rr_stage = st_stage recorded, rr_status = stage_status (st_file recorded),
      rr_grade = grade_figure_of recorded (sc_minimum_grade c), rr_blockers = blockers_of recorded,
      rr_wall_time = wall_time (Option.bind (st_file recorded) sf_elapsed_ms)
        (if stage_status (st_file recorded) = StageAwaiting then AWAITING_GRADE_REASON
         else unrecorded_or recorded WALL_TIME_REASON),
      rr_session_cost = session_cost recorded, rr_judge_cost = stage_judge_cost recorded,
      rr_tokens = stage_tokens recorded, rr_checkpoint = (st_checkpoint recorded \<noteq> None),
      rr_checkpoint_short_id = sc_checkpoint_short_id c, rr_instruction_files = instruction_files recorded,
      rr_corpus_version = ran_under_version recorded, rr_read_manifest = read_manifest_of recorded,
      rr_artifacts_in = sc_inputs c, rr_artifacts_out = stage_artifacts recorded (sc_checkpoints c)\<rparr>"

definition stage_cost_parts :: "run_record_stage \<Rightarrow> placed_stage \<Rightarrow> cost_item list" where
  "stage_cost_parts stage recorded =
     map (\<lambda>who. case who of
            SessionSpender \<Rightarrow> cost_part_of (rr_stage stage @ '' session'') (rr_session_cost stage)
          | JudgeSpender \<Rightarrow> cost_part_of (rr_stage stage @ '' judge'') (rr_judge_cost stage))
       (spenders recorded)"

subsection \<open>The files of a run\<close>

record run_record_source =
  so_run :: string
  so_manifest :: run_manifest
  so_stages :: "recorded_stage list"
  so_initial :: "checkpoint_record option"
  so_checkpoints :: checkpoints
  so_run_wide :: run_wide_records
  so_short_id :: short_id_reading

definition optional_read :: "(string + 'a) option \<Rightarrow> string + 'a option" where
  "optional_read file = (case file of None \<Rightarrow> Inr None | Some read \<Rightarrow> bind_res read (\<lambda>x. Inr (Some x)))"

definition read_recorded_stage :: "run_files \<Rightarrow> string \<Rightarrow> string + recorded_stage" where
  "read_recorded_stage files name =
     bind_res (optional_read (rf_stage_file files name)) (\<lambda>file.
     bind_res (optional_read (rf_checkpoint files name)) (\<lambda>checkpoint.
       Inr \<lparr>st_stage = name, st_file = file, st_checkpoint = checkpoint\<rparr>))"

text \<open>\<open>new Map\<close> of the checkpoints by lineage: a later one of the same lineage wins.\<close>

definition checkpoints_by_lineage :: "checkpoint_record option list \<Rightarrow> checkpoints" where
  "checkpoints_by_lineage cs = map_of (rev (map (\<lambda>c. (cp_lineage c, c)) (List.map_filter id cs)))"

definition read_run_short_id :: "string list \<Rightarrow> run_files \<Rightarrow> string \<Rightarrow> string \<Rightarrow> short_id_reading" where
  "read_run_short_id roots files case_id run =
     (case rf_short_ids files case_id of
        Inl message \<Rightarrow> Unavailable [redactor_for roots message]
      | Inr entries \<Rightarrow>
          available_or (short_ids_of entries (format_record_id (RunRecord run)))
            ''no command claimed a short id for the run'')"

definition read_run_source :: "string list \<Rightarrow> run_files \<Rightarrow> string \<Rightarrow> string + run_record_source" where
  "read_run_source roots files run =
     (case rf_manifest files of
        None \<Rightarrow> Inl (''No pipeline run '' @ run @ '' is recorded'')
      | Some read \<Rightarrow>
          bind_res read (\<lambda>manifest.
          bind_res (map_res (read_recorded_stage files) (mf_stages manifest)) (\<lambda>stages.
          bind_res (optional_read (rf_checkpoint files INITIAL_CHECKPOINT_STAGE)) (\<lambda>initial.
          bind_res (optional_read (rf_artifact_spend files)) (\<lambda>artifact.
            Inr \<lparr>so_run = run, so_manifest = manifest, so_stages = stages, so_initial = initial,
              so_checkpoints = checkpoints_by_lineage (initial # map st_checkpoint stages),
              so_run_wide = \<lparr>rw_artifact = artifact,
                rw_stop_record = Option.bind (List.find (\<lambda>s. Option.bind (st_file s) sf_status = Some ''STAGE_JUDGE_FAILED'') stages) st_file\<rparr>,
              so_short_id = read_run_short_id roots files (mf_case_id manifest) run\<rparr>)))))"

definition stage_checkpoint_short_id ::
    "short_id_reading \<Rightarrow> string list \<Rightarrow> string \<Rightarrow> checkpoint_record option \<Rightarrow> short_id_reading" where
  "stage_checkpoint_short_id run_short_id stages stage checkpoint =
     (case (checkpoint, checkpoint_stage_number stages stage) of
        (Some _, Some n) \<Rightarrow>
          (case run_short_id of
             Unavailable reasons \<Rightarrow> Unavailable reasons
           | Available short_id \<Rightarrow> Available (format_checkpoint_short_id short_id n))
      | _ \<Rightarrow> Unavailable [''the stage saved no checkpoint''])"

subsection \<open>The whole record\<close>

text \<open>\<open>basename\<close> of \<open>node:path\<close>: the last segment that is not empty.\<close>

definition basename :: "string \<Rightarrow> string" where
  "basename path = (case rev (filter (\<lambda>part. part \<noteq> []) (split_on (CHR ''/'') path)) of [] \<Rightarrow> [] | name # _ \<Rightarrow> name)"

record run_stages =
  rt_records :: "run_record_stage list"
  rt_cost_items :: "cost_item list"

definition run_target :: "run_manifest \<Rightarrow> string" where
  "run_target manifest =
     basename (case mf_target_root manifest of Some target \<Rightarrow> target | None \<Rightarrow> mf_source_root manifest)"

definition upstream_of :: "run_record_source \<Rightarrow> string list \<Rightarrow> run_record_stage list \<Rightarrow> upstream" where
  "upstream_of source names records =
     (if records = []
      then \<lparr>up_target = run_target (so_manifest source), up_upstream = INITIAL_CHECKPOINT_STAGE,
            up_short_id = stage_checkpoint_short_id (so_short_id source) names INITIAL_CHECKPOINT_STAGE (so_initial source)\<rparr>
      else \<lparr>up_target = run_target (so_manifest source), up_upstream = rr_stage (last records),
            up_short_id = rr_checkpoint_short_id (last records)\<rparr>)"

definition earlier_stage_of :: "run_record_stage \<Rightarrow> earlier_stage" where
  "earlier_stage_of r = \<lparr>es_stage = rr_stage r, es_workflow_state = ao_workflow_state (rr_artifacts_out r)\<rparr>"

definition assembled_stage :: "run_record_source \<Rightarrow> string list \<Rightarrow> run_record_stage list \<Rightarrow> placed_stage \<Rightarrow> run_record_stage" where
  "assembled_stage source names records stage =
     stage_record stage
       \<lparr>sc_checkpoints = so_checkpoints source,
        sc_checkpoint_short_id =
          stage_checkpoint_short_id (so_short_id source) names (st_stage stage) (st_checkpoint stage),
        sc_minimum_grade = mf_minimum_grade (so_manifest source),
        sc_inputs = artifacts_in_of (mf_task_id (so_manifest source)) (upstream_of source names records)
          (map earlier_stage_of records)\<rparr>"

definition add_run_stage :: "run_record_source \<Rightarrow> string list \<Rightarrow> run_stages \<Rightarrow> placed_stage \<Rightarrow> run_stages" where
  "add_run_stage source names acc stage =
     (let r = assembled_stage source names (rt_records acc) stage
      in \<lparr>rt_records = rt_records acc @ [r], rt_cost_items = rt_cost_items acc @ stage_cost_parts r stage\<rparr>)"

definition assemble_run_stages :: "run_record_source \<Rightarrow> placed_stage list \<Rightarrow> run_stages" where
  "assemble_run_stages source placed =
     foldl (add_run_stage source (map st_stage placed)) \<lparr>rt_records = [], rt_cost_items = []\<rparr> placed"

record shown_identity =
  ri_commit :: string
  ri_corpus_version :: "corpus_measurement option"
  ri_effort :: "string option"
  ri_model :: string
  ri_target :: string

record run_record =
  rd_case_id :: string
  rd_final_outcome :: run_outcome
  rd_identity :: shown_identity
  rd_minimum_grade :: "string reading"
  rd_run :: string
  rd_short_id :: short_id_reading
  rd_stages :: "run_record_stage list"
  rd_status :: "string reading"
  rd_totals :: run_totals

definition placed_at :: "nat option \<Rightarrow> nat \<Rightarrow> recorded_stage \<Rightarrow> placed_stage" where
  "placed_at current index s =
     \<lparr>st_stage = st_stage s, st_file = st_file s, st_checkpoint = st_checkpoint s, st_place = stage_place_of index current\<rparr>"

definition placed_stages :: "recorded_stage list \<Rightarrow> run_outcome \<Rightarrow> placed_stage list" where
  "placed_stages stages outcome =
     map2 (placed_at (current_stage_index (map st_stage stages) outcome)) [0..<length stages] stages"

definition assemble_run_record :: "run_record_source \<Rightarrow> run_outcome \<Rightarrow> string reading \<Rightarrow> run_record" where
  "assemble_run_record source outcome status =
     (let placed = placed_stages (so_stages source) outcome;
          assembled = assemble_run_stages source placed;
          manifest = so_manifest source
      in \<lparr>rd_case_id = mf_case_id manifest, rd_final_outcome = outcome,
          rd_identity = \<lparr>ri_commit = mf_source_sha manifest, ri_corpus_version = mf_corpus_version manifest,
            ri_effort = mf_effort manifest, ri_model = mf_model manifest, ri_target = run_target manifest\<rparr>,
          rd_minimum_grade = available_or (map_option letter_name (mf_minimum_grade manifest)) MINIMUM_GRADE_REASON,
          rd_run = so_run source, rd_short_id = so_short_id source, rd_stages = rt_records assembled,
          rd_status = status,
          rd_totals = run_totals_of (rt_cost_items assembled)
            (concat (map stage_token_parts placed) @ run_token_parts (so_run_wide source)) (so_run_wide source)\<rparr>)"

definition read_run_record ::
    "string list \<Rightarrow> run_files \<Rightarrow> ending_reading \<Rightarrow> 'st event_store \<Rightarrow> 'st \<Rightarrow> string \<Rightarrow> string + run_record" where
  "read_run_record roots files r es st run =
     bind_res (read_run_source roots files run) (\<lambda>source.
       let ending = read_ending roots r es st run
       in bind_res (final_outcome_of files ending) (\<lambda>outcome.
            Inr (assemble_run_record source outcome (status_reading roots files es st run ending))))"

subsection \<open>The figures of a run add up\<close>

definition cost_value :: "real reading \<Rightarrow> real" where
  "cost_value r = (case r of Available x \<Rightarrow> x | Unavailable _ \<Rightarrow> 0)"

definition figure_value :: "cost_reading \<Rightarrow> real" where
  "figure_value r = (case r of Available f \<Rightarrow> cf_usd f | Unavailable _ \<Rightarrow> 0)"

definition token_value :: "(token_counts \<Rightarrow> nat) \<Rightarrow> token_reading \<Rightarrow> nat" where
  "token_value field r = (case r of Available (c, _) \<Rightarrow> field c | Unavailable _ \<Rightarrow> 0)"

definition items_value :: "cost_item list \<Rightarrow> real" where
  "items_value items = sum_list (map cp_usd (kept_costs items))"

lemma kept_costs_append [simp]: "kept_costs (xs @ ys) = kept_costs xs @ kept_costs ys"
  by (simp add: kept_costs_def List.map_filter_def)

lemma items_value_append [simp]: "items_value (xs @ ys) = items_value xs + items_value ys"
  by (simp add: items_value_def)

lemma items_value_Cons: "items_value (cost_part_of part r # items) = cost_value r + items_value items"
  by (cases r) (simp_all add: items_value_def kept_costs_def cost_part_of_def cost_value_def List.map_filter_simps)

lemma items_value_Nil [simp]: "items_value [] = 0"
  by (simp add: items_value_def kept_costs_def List.map_filter_simps)

lemma figure_value_eq: "figure_value (cost_reading_of items) = items_value items"
proof -
  have "foldl (\<lambda>acc p. acc + cp_usd p) a ps = a + sum_list (map cp_usd ps)" for a :: real and ps :: "cost_part list"
    by (induction ps arbitrary: a) simp_all
  then show ?thesis by (simp add: cost_reading_of_def figure_value_def items_value_def Let_def)
qed

text \<open>The counts of tokens, and what they are the counts of.\<close>

definition COUNTS :: "(token_counts \<Rightarrow> nat) list" where
  "COUNTS = [tk_input, tk_cache_read, tk_cache_write, tk_output, tk_total_input]"

lemma token_value_eq: "field \<in> set COUNTS \<Longrightarrow> token_value field (token_reading_of parts) = field (counts_of (kept_metrics parts))"
  by (auto simp: COUNTS_def token_reading_of_eq token_value_def kept_metrics_no_calls) (simp_all add: counts_of_def)

lemma counts_field_append: "field \<in> set COUNTS \<Longrightarrow> field (counts_of (xs @ ys)) = field (counts_of xs) + field (counts_of ys)"
  by (auto simp: COUNTS_def counts_of_append)

lemma counts_field_Nil: "field \<in> set COUNTS \<Longrightarrow> field (counts_of []) = 0"
  by (auto simp: COUNTS_def counts_of_def)

lemma stage_tokens_value:
  "field \<in> set COUNTS \<Longrightarrow> token_value field (stage_tokens recorded) = field (counts_of (kept_metrics (stage_token_parts recorded)))"
  by (auto simp: stage_tokens_def Let_def token_value_eq counts_field_Nil kept_metrics_def) (simp add: token_value_def)

lemma assembled_stage_figures:
  "rr_stage (assembled_stage source names records p) = st_stage p"
  "rr_session_cost (assembled_stage source names records p) = session_cost p"
  "rr_judge_cost (assembled_stage source names records p) = stage_judge_cost p"
  "rr_tokens (assembled_stage source names records p) = stage_tokens p"
  by (simp_all add: assembled_stage_def stage_record_def)

definition judge_value :: "placed_stage \<Rightarrow> real" where
  "judge_value p = (if JudgeSpender \<in> set (spenders p) then cost_value (stage_judge_cost p) else 0)"

lemma unspent_session: "SessionSpender \<notin> set (spenders p) \<Longrightarrow> cost_value (session_cost p) = 0"
proof -
  assume "SessionSpender \<notin> set (spenders p)"
  then have "st_file p = None" by (auto simp: spenders_def stage_status_def Let_def split: option.splits if_splits)
  then show ?thesis
    by (simp add: session_cost_def Let_def session_calls_def transcript_of_def session_of_def usd_def cost_value_def)
qed

lemma stage_cost_parts_value:
  "items_value (stage_cost_parts (assembled_stage source names records p) p) = cost_value (session_cost p) + judge_value p"
proof -
  have "spenders p = [] \<or> spenders p = [SessionSpender] \<or> spenders p = [SessionSpender, JudgeSpender]"
    by (auto simp: spenders_def Let_def)
  with unspent_session [of p] show ?thesis
    by (auto simp: stage_cost_parts_def assembled_stage_figures items_value_Cons judge_value_def)
qed

lemma assemble_fold:
  "map rr_tokens (rt_records (foldl (add_run_stage source names) acc placed)) = map rr_tokens (rt_records acc) @ map stage_tokens placed
   \<and> map rr_session_cost (rt_records (foldl (add_run_stage source names) acc placed))
       = map rr_session_cost (rt_records acc) @ map session_cost placed
   \<and> items_value (rt_cost_items (foldl (add_run_stage source names) acc placed))
       = items_value (rt_cost_items acc) + sum_list (map (\<lambda>p. cost_value (session_cost p) + judge_value p) placed)"
  by (induction placed arbitrary: acc)
    (simp_all add: add_run_stage_def Let_def assembled_stage_figures stage_cost_parts_value)

lemma token_parts_value:
  "field \<in> set COUNTS \<Longrightarrow>
     field (counts_of (kept_metrics (concat (map stage_token_parts placed))))
     = sum_list (map (token_value field) (map stage_tokens placed))"
proof (induction placed)
  case (Cons p placed)
  then show ?case by (simp add: counts_field_append stage_tokens_value)
qed (simp add: counts_field_Nil kept_metrics_def)

subsection \<open>What the records say was spent\<close>

text \<open>The amounts and the calls a run wrote down, read off its files: a cost whose calls lack their metrics counts for
  nothing, and neither do the tokens of calls that lack theirs.\<close>

definition amount :: "real option \<Rightarrow> real" where
  "amount x = (case x of None \<Rightarrow> 0 | Some y \<Rightarrow> y)"

definition call_tokens :: "(call_metrics \<Rightarrow> nat) \<Rightarrow> calls option \<Rightarrow> nat" where
  "call_tokens metric cs =
     (case cs of None \<Rightarrow> 0 | Some xs \<Rightarrow> if None \<in> set xs then 0 else sum_list (map (\<lambda>c. metric (the c)) xs))"

definition first_recorded :: "'a option \<Rightarrow> 'a option \<Rightarrow> 'a option" where
  "first_recorded x y = (if x = None then y else x)"

text \<open>A Judge is charged unless one of its calls lacks its metrics; a session unless its last call does.\<close>

definition judge_charge :: "real option \<Rightarrow> calls option \<Rightarrow> real" where
  "judge_charge cost cs = (case cs of Some xs \<Rightarrow> if None \<in> set xs then 0 else amount cost | None \<Rightarrow> amount cost)"

definition stage_transcript :: "stage_file \<Rightarrow> recorded_transcript option" where
  "stage_transcript f = (case sf_input f of None \<Rightarrow> None | Some i \<Rightarrow> in_transcript i)"

definition stage_calls :: "stage_file \<Rightarrow> recorded_calls option" where
  "stage_calls f =
     (case stage_transcript f of
        Some t \<Rightarrow> first_recorded (tr_provider_calls t) (map_option (\<lambda>x. RecordedCalls (rs_provider_calls x)) (sf_session f))
      | None \<Rightarrow> map_option (\<lambda>x. RecordedCalls (rs_provider_calls x)) (sf_session f))"

definition session_spent :: "stage_file option \<Rightarrow> real" where
  "session_spent file =
     (case file of
        None \<Rightarrow> 0
      | Some f \<Rightarrow>
          (if \<exists>cs. stage_calls f = Some (RecordedCalls (cs @ [None])) then 0
           else amount (first_recorded (case stage_transcript f of None \<Rightarrow> None | Some t \<Rightarrow> tr_cost_usd t)
                  (case sf_session f of None \<Rightarrow> None | Some x \<Rightarrow> rs_cost_usd x))))"

definition judge_ran :: "stage_file \<Rightarrow> bool" where
  "judge_ran f \<longleftrightarrow> sf_status f \<noteq> Some ''AWAITING_STAGE_JUDGE'' \<and> \<not> (sf_status f = Some ''STAGE_JUDGE_FAILED'' \<and> sf_input f = None)"

definition judge_spent :: "stage_file option \<Rightarrow> real" where
  "judge_spent file =
     (case file of
        None \<Rightarrow> 0
      | Some f \<Rightarrow> if judge_ran f then judge_charge (sf_cost_usd f) (first_recorded (sf_judge_provider_calls f) (sf_attempts f)) else 0)"

definition session_tokens :: "(call_metrics \<Rightarrow> nat) \<Rightarrow> stage_file option \<Rightarrow> nat" where
  "session_tokens metric file =
     (case file of
        None \<Rightarrow> 0
      | Some f \<Rightarrow> (case stage_calls f of Some (RecordedCalls cs) \<Rightarrow> call_tokens metric (Some cs) | _ \<Rightarrow> 0))"

definition judge_tokens :: "(call_metrics \<Rightarrow> nat) \<Rightarrow> stage_file option \<Rightarrow> nat" where
  "judge_tokens metric file =
     (case file of
        None \<Rightarrow> 0
      | Some f \<Rightarrow> if judge_ran f then call_tokens metric (first_recorded (sf_judge_provider_calls f) (sf_attempts f)) else 0)"

text \<open>The Product Owner is charged in the main artifact, or in the stop record of a run without one; the final Judge in
  the artifact alone.\<close>

definition run_wide_spent :: "run_wide_records \<Rightarrow> real" where
  "run_wide_spent r =
     (case rw_artifact r of
        Some a \<Rightarrow> amount (as_product_owner_cost_usd a)
          + judge_charge (as_judge_cost_usd a) (first_recorded (as_judge_provider_calls a) (as_judge_attempts a))
      | None \<Rightarrow> (case rw_stop_record r of None \<Rightarrow> 0 | Some f \<Rightarrow> amount (sf_product_owner_cost_usd f)))"

definition run_wide_tokens :: "(call_metrics \<Rightarrow> nat) \<Rightarrow> run_wide_records \<Rightarrow> nat" where
  "run_wide_tokens metric r =
     (case rw_artifact r of
        Some a \<Rightarrow> call_tokens metric (as_product_owner_provider_calls a)
          + call_tokens metric (first_recorded (as_judge_provider_calls a) (as_judge_attempts a))
      | None \<Rightarrow> (case rw_stop_record r of None \<Rightarrow> 0 | Some f \<Rightarrow> call_tokens metric (sf_product_owner_provider_calls f)))"

text \<open>Each count of a token reading, with what it counts of a call.\<close>

definition COUNTED :: "((token_counts \<Rightarrow> nat) \<times> (call_metrics \<Rightarrow> nat)) list" where
  "COUNTED =
     [(tk_input, m_input_tokens), (tk_cache_read, m_cache_read_tokens), (tk_cache_write, m_cache_write_tokens),
      (tk_output, m_output_tokens), (tk_total_input, \<lambda>m. m_input_tokens m + m_cache_read_tokens m + m_cache_write_tokens m)]"

lemma either_first: "either x y = first_recorded x y"
  by (cases x) (simp_all add: first_recorded_def)

lemma usd_value: "cost_value (usd x reason) = amount x"
  by (simp add: usd_def cost_value_def amount_def split: option.split)

lemma lacks_metrics_iff: "lacks_metrics cs \<longleftrightarrow> None \<in> set cs"
  by (auto simp: lacks_metrics_def list_ex_iff)

lemma judge_cost_value:
  "cost_value (judge_cost cost judge absent) = judge_charge cost (first_recorded (jc_provider_calls judge) (jc_attempts judge))"
  by (simp add: judge_cost_def judge_charge_def either_first lacks_metrics_iff usd_value split: option.split) (simp add: cost_value_def)

lemma stage_calls_eq: "session_calls (Some f) = stage_calls f"
proof (cases "stage_transcript f")
  case None
  then have "transcript_of (Some f) = None" by (auto simp: transcript_of_def stage_transcript_def split: option.splits)
  then show ?thesis by (simp add: session_calls_def stage_calls_def None session_of_def either_first first_recorded_def)
next
  case (Some t)
  then have "transcript_of (Some f) = Some t" by (auto simp: transcript_of_def stage_transcript_def split: option.splits)
  then show ?thesis by (simp add: session_calls_def stage_calls_def Some session_of_def either_first)
qed

lemma lacking_call: "(case calls of Some (RecordedCalls (c # cs)) \<Rightarrow> Some (last (c # cs)) | _ \<Rightarrow> None) = Some None
    \<longleftrightarrow> (\<exists>cs. calls = Some (RecordedCalls (cs @ [None])))"
proof (cases "\<exists>cs. calls = Some (RecordedCalls cs)")
  case True
  then obtain cs where "calls = Some (RecordedCalls cs)" by auto
  moreover have "(\<exists>ys. cs = ys @ [None]) \<longleftrightarrow> cs \<noteq> [] \<and> last cs = None"
    by (metis append_butlast_last_id snoc_eq_iff_butlast)
  ultimately show ?thesis by (cases cs) simp_all
next
  case False
  then show ?thesis by (auto split: option.split recorded_calls.split)
qed

lemma session_cost_spent: "cost_value (session_cost p) = session_spent (st_file p)"
proof (cases "st_file p")
  case None
  then show ?thesis
    by (simp add: session_cost_def Let_def session_calls_def transcript_of_def session_of_def usd_value session_spent_def amount_def)
next
  case (Some f)
  have paid: "either (Option.bind (transcript_of (Some f)) tr_cost_usd) (Option.bind (session_of (Some f)) rs_cost_usd) =
      first_recorded (case stage_transcript f of None \<Rightarrow> None | Some t \<Rightarrow> tr_cost_usd t)
        (case sf_session f of None \<Rightarrow> None | Some x \<Rightarrow> rs_cost_usd x)"
    by (simp add: either_first transcript_of_def session_of_def stage_transcript_def split: option.split)
  show ?thesis
    unfolding session_cost_def Let_def session_spent_def Some stage_calls_eq lacking_call paid
    by (simp add: usd_value) (simp add: cost_value_def)
qed

lemma judge_runs: "JudgeSpender \<in> set (spenders p) \<longleftrightarrow> (\<exists>f. st_file p = Some f \<and> judge_ran f)"
  by (auto simp: spenders_def stage_status_def judge_ran_def Let_def split: option.splits if_splits)

lemma judge_value_spent: "judge_value p = judge_spent (st_file p)"
  by (cases "st_file p")
    (simp_all add: judge_value_def judge_runs judge_spent_def stage_judge_cost_def judge_cost_value file_judge_calls_def)

lemma run_cost_value: "items_value (run_cost_parts r) = run_wide_spent r"
  by (simp add: run_cost_parts_def items_value_Cons product_owner_cost_def usd_value run_wide_def run_wide_spent_def judge_cost_value
      artifact_judge_calls_def split: option.split) (simp add: amount_def)

text \<open>The tokens of a part.\<close>

lemma call_metrics_whole: "None \<notin> set cs \<Longrightarrow> call_metrics_of cs = map the cs"
proof (induction cs)
  case (Cons c cs)
  then show ?case by (cases c) (simp_all add: call_metrics_of_def List.map_filter_simps)
qed (simp add: call_metrics_of_def List.map_filter_simps)

lemma calls_part_tokens:
  "sum_list (map metric (kept_metrics [calls_part part recorded absent]))
   = (case recorded of Some (RecordedCalls cs) \<Rightarrow> call_tokens metric (Some cs) | _ \<Rightarrow> 0)"
  by (auto simp: calls_part_def kept_metrics_def part_lacks_def call_tokens_def lacks_metrics_iff call_metrics_whole comp_def
      split: option.split recorded_calls.split)

lemma spent_calls_part_tokens:
  "sum_list (map metric (kept_metrics [spent_calls_part part recorded absent])) = call_tokens metric recorded"
proof (cases "recorded = Some []")
  case True
  then show ?thesis by (simp add: spent_calls_part_def kept_metrics_def call_metrics_of_def List.map_filter_simps call_tokens_def)
next
  case False
  then show ?thesis by (cases recorded) (simp_all add: spent_calls_part_def calls_part_tokens, simp add: call_tokens_def)
qed

lemma judge_token_part_tokens:
  "sum_list (map metric (kept_metrics [judge_token_part part judge absent]))
   = call_tokens metric (first_recorded (jc_provider_calls judge) (jc_attempts judge))"
proof (cases "jc_provider_calls judge")
  case None
  then show ?thesis
    by (cases "jc_attempts judge") (simp_all add: judge_token_part_def calls_part_tokens first_recorded_def call_tokens_def)
next
  case (Some cs)
  then show ?thesis by (simp add: judge_token_part_def spent_calls_part_tokens first_recorded_def)
qed

lemma session_token_part_tokens:
  "sum_list (map metric (kept_metrics [session_token_part p])) = session_tokens metric (st_file p)"
proof (cases "st_file p")
  case None
  then show ?thesis
    by (simp add: session_token_part_def Let_def transcript_of_def session_of_def spent_calls_part_tokens session_tokens_def call_tokens_def)
next
  case (Some f)
  have t: "transcript_of (Some f) = stage_transcript f"
    by (simp add: transcript_of_def stage_transcript_def split: option.split)
  show ?thesis
  proof (cases "Option.bind (stage_transcript f) tr_provider_calls")
    case None
    then have "stage_calls f = map_option (\<lambda>x. RecordedCalls (rs_provider_calls x)) (sf_session f)"
      by (cases "stage_transcript f") (simp_all add: stage_calls_def first_recorded_def)
    with None Some t show ?thesis
      by (cases "sf_session f")
        (simp_all add: session_token_part_def Let_def session_of_def spent_calls_part_tokens session_tokens_def call_tokens_def)
  next
    case (Some cs)
    then have "stage_calls f = Some cs"
      by (cases "stage_transcript f") (simp_all add: stage_calls_def first_recorded_def)
    with Some \<open>st_file p = Some f\<close> t show ?thesis
      by (simp add: session_token_part_def Let_def calls_part_tokens session_tokens_def)
  qed
qed

lemma unspent_tokens: "SessionSpender \<notin> set (spenders p) \<Longrightarrow> st_file p = None"
  by (auto simp: spenders_def stage_status_def Let_def split: option.splits if_splits)

lemma kept_metrics_Cons: "kept_metrics (part # parts) = kept_metrics [part] @ kept_metrics parts"
  by (simp add: kept_metrics_def)

lemma stage_metrics:
  "sum_list (map metric (kept_metrics (stage_token_parts p))) = session_tokens metric (st_file p) + judge_tokens metric (st_file p)"
proof -
  have j: "sum_list (map metric (kept_metrics [spender_token_part p JudgeSpender])) = judge_tokens metric (st_file p)"
    if "JudgeSpender \<in> set (spenders p)"
    using that [unfolded judge_runs] by (auto simp: spender_token_part_def judge_token_part_tokens file_judge_calls_def judge_tokens_def)
  have nj: "judge_tokens metric (st_file p) = 0" if "JudgeSpender \<notin> set (spenders p)"
    using that [unfolded judge_runs] by (auto simp: judge_tokens_def split: option.split)
  have s: "sum_list (map metric (kept_metrics [spender_token_part p SessionSpender])) = session_tokens metric (st_file p)"
    by (simp add: spender_token_part_def session_token_part_tokens)
  have ns: "session_tokens metric (st_file p) = 0" if "SessionSpender \<notin> set (spenders p)"
    using unspent_tokens [OF that] by (simp add: session_tokens_def)
  have "spenders p = [] \<or> spenders p = [SessionSpender] \<or> spenders p = [SessionSpender, JudgeSpender]"
    by (auto simp: spenders_def Let_def)
  then show ?thesis
    using j nj s ns
    by (elim disjE)
      (simp_all add: stage_token_parts_def kept_metrics_Cons [of _ "[spender_token_part p JudgeSpender]"], simp add: kept_metrics_def)
qed

lemma run_wide_metrics:
  "sum_list (map metric (kept_metrics (run_token_parts r))) = run_wide_tokens metric r"
proof (cases "rw_artifact r")
  case None
  then show ?thesis
    by (cases "rw_stop_record r")
      (simp_all add: run_token_parts_def run_wide_def spent_calls_part_tokens run_wide_tokens_def call_tokens_def)
next
  case (Some a)
  show ?thesis
    by (simp add: run_token_parts_def run_wide_def Some run_wide_tokens_def spent_calls_part_tokens judge_token_part_tokens
        artifact_judge_calls_def kept_metrics_Cons [of _ "[judge_token_part a b c]" for a b c])
qed

lemma counted_sum: "(field, metric) \<in> set COUNTED \<Longrightarrow> field (counts_of ms) = sum_list (map metric ms)"
  by (auto simp: COUNTED_def counts_of_def sum_list_addf)

lemma counted_field: "(field, metric) \<in> set COUNTED \<Longrightarrow> field \<in> set COUNTS"
  by (auto simp: COUNTED_def COUNTS_def)

lemma placed_files: "map st_file (placed_stages stages outcome) = map st_file stages"
  by (rule nth_equalityI) (simp_all add: placed_stages_def placed_at_def)

text \<open>C27: the figures of a run's record add up to what its files say was spent: the cost is what each stage's session
  and each Judge that ran wrote down, with the Product Owner's and the final Judge's, and each token count is
  the sum of their calls'; each stage shows its own session's cost and its own tokens; and no call that lacks its
  metrics is in a part that is summed.\<close>

theorem run_figures_add_up:
  "figure_value (rt_cost (rd_totals (assemble_run_record source outcome status)))
     = sum_list (map (\<lambda>s. session_spent (st_file s) + judge_spent (st_file s)) (so_stages source))
       + run_wide_spent (so_run_wide source)
   \<and> map (\<lambda>r. cost_value (rr_session_cost r)) (rd_stages (assemble_run_record source outcome status))
       = map (\<lambda>s. session_spent (st_file s)) (so_stages source)
   \<and> list_all (\<lambda>(field, metric).
       token_value field (rt_tokens (rd_totals (assemble_run_record source outcome status)))
         = sum_list (map (\<lambda>s. session_tokens metric (st_file s) + judge_tokens metric (st_file s)) (so_stages source))
           + run_wide_tokens metric (so_run_wide source)
       \<and> map (\<lambda>r. token_value field (rr_tokens r)) (rd_stages (assemble_run_record source outcome status))
           = map (\<lambda>s. session_tokens metric (st_file s) + judge_tokens metric (st_file s)) (so_stages source)) COUNTED
   \<and> list_all whole_part (concat (map stage_token_parts (placed_stages (so_stages source) outcome))
       @ run_token_parts (so_run_wide source))"
proof (intro conjI)
  let ?placed = "placed_stages (so_stages source) outcome"
  let ?a = "assemble_run_stages source ?placed"
  have f: "map rr_tokens (rt_records ?a) = map stage_tokens ?placed" "map rr_session_cost (rt_records ?a) = map session_cost ?placed"
    "items_value (rt_cost_items ?a) = sum_list (map (\<lambda>p. cost_value (session_cost p) + judge_value p) ?placed)"
    using assemble_fold [of source "map st_stage ?placed" "\<lparr>rt_records = [], rt_cost_items = []\<rparr>" ?placed]
    by (simp_all add: assemble_run_stages_def)
  have files: "map (\<lambda>p. h (st_file p)) ?placed = map (\<lambda>s. h (st_file s)) (so_stages source)" for h :: "stage_file option \<Rightarrow> 'x"
    using arg_cong [OF placed_files [of "so_stages source" outcome], of "map h"] by (simp add: comp_def)
  show "figure_value (rt_cost (rd_totals (assemble_run_record source outcome status)))
     = sum_list (map (\<lambda>s. session_spent (st_file s) + judge_spent (st_file s)) (so_stages source))
       + run_wide_spent (so_run_wide source)"
    using f(3) files [of "\<lambda>x. session_spent x + judge_spent x"]
    by (simp add: assemble_run_record_def run_totals_of_def figure_value_eq Let_def session_cost_spent judge_value_spent run_cost_value)
  show "map (\<lambda>r. cost_value (rr_session_cost r)) (rd_stages (assemble_run_record source outcome status))
       = map (\<lambda>s. session_spent (st_file s)) (so_stages source)"
    using arg_cong [OF f(2), of "map cost_value"] files [of session_spent]
    by (simp add: assemble_run_record_def Let_def comp_def session_cost_spent)
  have stage: "token_value field (stage_tokens p) = session_tokens metric (st_file p) + judge_tokens metric (st_file p)"
    if "(field, metric) \<in> set COUNTED" for field metric p
    using stage_tokens_value [OF counted_field [OF that], of p] by (simp add: counted_sum [OF that] stage_metrics)
  have rows: "map (\<lambda>r. token_value field (rr_tokens r)) (rd_stages (assemble_run_record source outcome status))
           = map (\<lambda>s. session_tokens metric (st_file s) + judge_tokens metric (st_file s)) (so_stages source)"
    if "(field, metric) \<in> set COUNTED" for field metric
    using arg_cong [OF f(1), of "map (token_value field)"] files [of "\<lambda>x. session_tokens metric x + judge_tokens metric x"]
    by (simp add: assemble_run_record_def Let_def comp_def stage [OF that])
  have sum: "token_value field (rt_tokens (rd_totals (assemble_run_record source outcome status)))
         = sum_list (map (\<lambda>s. session_tokens metric (st_file s) + judge_tokens metric (st_file s)) (so_stages source))
           + run_wide_tokens metric (so_run_wide source)"
    if "(field, metric) \<in> set COUNTED" for field metric
  proof -
    have "field \<in> set COUNTS" by (rule counted_field [OF that])
    then have "token_value field (rt_tokens (rd_totals (assemble_run_record source outcome status)))
        = field (counts_of (kept_metrics (concat (map stage_token_parts ?placed))))
          + field (counts_of (kept_metrics (run_token_parts (so_run_wide source))))"
      by (simp add: assemble_run_record_def run_totals_of_def token_value_eq counts_field_append Let_def)
    also have "field (counts_of (kept_metrics (concat (map stage_token_parts ?placed))))
        = sum_list (map (\<lambda>s. session_tokens metric (st_file s) + judge_tokens metric (st_file s)) (so_stages source))"
      using token_parts_value [OF counted_field [OF that], of ?placed] files [of "\<lambda>x. session_tokens metric x + judge_tokens metric x"]
      by (simp add: comp_def stage [OF that])
    finally show ?thesis by (simp add: counted_sum [OF that] run_wide_metrics)
  qed
  show "list_all (\<lambda>(field, metric).
       token_value field (rt_tokens (rd_totals (assemble_run_record source outcome status)))
         = sum_list (map (\<lambda>s. session_tokens metric (st_file s) + judge_tokens metric (st_file s)) (so_stages source))
           + run_wide_tokens metric (so_run_wide source)
       \<and> map (\<lambda>r. token_value field (rr_tokens r)) (rd_stages (assemble_run_record source outcome status))
           = map (\<lambda>s. session_tokens metric (st_file s) + judge_tokens metric (st_file s)) (so_stages source)) COUNTED"
    unfolding list_all_iff using rows sum by blast
  have "list_all whole_part (run_token_parts r)" for r
    by (simp add: run_token_parts_def whole_spent_calls_part whole_judge_token_part split: option.split)
  then show "list_all whole_part (concat (map stage_token_parts ?placed) @ run_token_parts (so_run_wide source))"
    using whole_stage_token_parts by (auto simp: list_all_iff)
qed

end
