(* ===== verification/GroupSummary.thy ===== *)
theory GroupSummary
  imports RunRecords ConfirmationResources
begin

text \<open>
  What a confirmation group's repetitions came to, as its page shows it
  (\<open>src/src/server/confirmation-group-summary.ts\<close>): the letters of each stage, the final outcomes and the spend.

  A status that is no verdict is its name. The counts of \<open>tally\<close> are an association list in the order of the
  \<open>Map\<close> they come from.
\<close>

datatype group_judgment = StageGrade letter stage_verdict | StageUngraded string

record group_outcome =
  gs_stage :: string
  gs_judgment :: group_judgment

datatype group_final = FinalVerdict pass_fail | FinalUngraded string

record group_rep =
  gr_rep_id :: string
  gr_stages :: "group_outcome list"
  gr_final :: group_final
  gr_metrics :: resource_status

record unread_rep =
  ur_rep_id :: string
  ur_reason :: string

datatype listed_rep = ReadRep group_rep | UnreadRep unread_rep

type_synonym rep_counts = "(string \<times> nat) list"

definition stopped_outcome :: "group_outcome \<Rightarrow> bool" where
  "stopped_outcome o' \<longleftrightarrow> (case gs_judgment o' of StageGrade _ verdict \<Rightarrow> verdict = STOP | StageUngraded _ \<Rightarrow> False)"

definition quality_failure_count :: "group_rep list \<Rightarrow> nat" where
  "quality_failure_count reps =
     length (filter (\<lambda>r. list_ex stopped_outcome (gr_stages r) \<or> gr_final r = FinalVerdict FAIL) reps)"

subsection \<open>Letters\<close>

record letter_range =
  lr_median :: letter
  lr_lowest :: letter
  lr_highest :: letter

definition best_first :: "letter list \<Rightarrow> letter list" where
  "best_first grades = sort_key grade_index grades"

definition letter_range_of :: "letter list \<Rightarrow> letter_range option" where
  "letter_range_of grades =
     (let best_to_worst = best_first grades
      in if best_to_worst = [] then None
         else Some \<lparr>lr_median = best_to_worst ! (length best_to_worst div 2), lr_lowest = last best_to_worst,
           lr_highest = hd best_to_worst\<rparr>)"

definition tally :: "string list \<Rightarrow> rep_counts" where
  "tally names =
     foldl (\<lambda>counts name. AList.update name ((case map_of counts name of None \<Rightarrow> 0 | Some n \<Rightarrow> n) + 1) counts) [] names"

record group_stage_summary =
  gm_stage :: string
  gm_graded :: nat
  gm_ungraded :: rep_counts
  gm_grades :: "letter_range reading"

definition SESSION_GRADE_REASON :: string where
  "SESSION_GRADE_REASON = ''graded by checks''"

definition NO_GRADED_REP_REASON :: string where
  "NO_GRADED_REP_REASON = ''no rep was graded at this stage''"

definition stage_outcomes :: "string \<Rightarrow> group_rep list \<Rightarrow> group_outcome list" where
  "stage_outcomes stage reps = concat (map (\<lambda>r. filter (\<lambda>x. gs_stage x = stage) (gr_stages r)) reps)"

definition outcome_grades :: "group_outcome list \<Rightarrow> letter list" where
  "outcome_grades outcomes =
     List.map_filter (\<lambda>x. case gs_judgment x of StageGrade g _ \<Rightarrow> Some g | StageUngraded _ \<Rightarrow> None) outcomes"

definition outcome_statuses :: "group_outcome list \<Rightarrow> string list" where
  "outcome_statuses outcomes =
     List.map_filter (\<lambda>x. case gs_judgment x of StageGrade _ _ \<Rightarrow> None | StageUngraded s \<Rightarrow> Some s) outcomes"

text \<open>\<open>session\<close> says whether the group's mode is a session's.\<close>

definition stage_summary :: "bool \<Rightarrow> group_rep list \<Rightarrow> string \<Rightarrow> group_stage_summary" where
  "stage_summary session reps stage =
     (let outcomes = stage_outcomes stage reps;
          grades = outcome_grades outcomes;
          ungraded = tally (outcome_statuses outcomes)
      in if session
         then \<lparr>gm_stage = stage, gm_graded = length grades, gm_ungraded = ungraded,
                gm_grades = Unavailable [SESSION_GRADE_REASON]\<rparr>
         else case letter_range_of grades of
                None \<Rightarrow> \<lparr>gm_stage = stage, gm_graded = 0, gm_ungraded = ungraded,
                  gm_grades = Unavailable [NO_GRADED_REP_REASON]\<rparr>
              | Some letters \<Rightarrow> \<lparr>gm_stage = stage, gm_graded = length grades, gm_ungraded = ungraded,
                  gm_grades = Available letters\<rparr>)"

definition stage_summaries :: "bool \<Rightarrow> string list \<Rightarrow> group_rep list \<Rightarrow> group_stage_summary list" where
  "stage_summaries session declared reps = map (stage_summary session reps) declared"

definition final_outcome_tally :: "group_rep list \<Rightarrow> rep_counts" where
  "final_outcome_tally reps =
     tally (map (\<lambda>r. case gr_final r of FinalVerdict PASS \<Rightarrow> ''PASS'' | FinalVerdict FAIL \<Rightarrow> ''FAIL''
       | FinalUngraded s \<Rightarrow> s) reps)"

subsection \<open>Spend\<close>

text \<open>\<open>None\<close> is a record of a version before sessions.\<close>

definition preflight_cost :: "preflight option \<Rightarrow> cost_item list" where
  "preflight_cost p =
     (case p of
        None \<Rightarrow> []
      | Some (PreflightMissing missing) \<Rightarrow> [CostMissing \<lparr>mp_part = ''preflight'', mp_reason = missing\<rparr>]
      | Some (PreflightComplete metrics) \<Rightarrow> [CostPart \<lparr>cp_part = ''preflight'', cp_usd = m_cost_usd metrics\<rparr>])"

fun status_calls :: "resource_status \<Rightarrow> call_evidence list" where
  "status_calls (CompleteCalls cs) = cs"
| "status_calls (MissingCalls cs missing) = cs"

definition rep_cost :: "listed_rep \<Rightarrow> cost_item list" where
  "rep_cost rep =
     (case rep of
        UnreadRep u \<Rightarrow> [CostMissing \<lparr>mp_part = ur_rep_id u, mp_reason = ur_reason u\<rparr>]
      | ReadRep r \<Rightarrow>
          (let calls = status_calls (gr_metrics r);
               spent = (if calls = [] then []
                 else [CostPart \<lparr>cp_part = gr_rep_id r, cp_usd = foldl (\<lambda>acc c. acc + m_cost_usd (cl_metrics c)) 0 calls\<rparr>])
           in case gr_metrics r of
                MissingCalls _ missing \<Rightarrow> spent @ [CostMissing \<lparr>mp_part = gr_rep_id r, mp_reason = join_with ''; '' missing\<rparr>]
              | CompleteCalls _ \<Rightarrow> spent))"

definition group_cost :: "preflight option \<Rightarrow> listed_rep list \<Rightarrow> cost_reading" where
  "group_cost p reps = cost_reading_of (preflight_cost p @ concat (map rep_cost reps))"

subsection \<open>The median of letters\<close>

lemma best_first_sort: "best_first grades = sort grades"
proof -
  have "insort_key grade_index g gs = insort g gs" for g gs
    by (induction gs) (simp_all add: less_eq_letter_def)
  then have "foldr (insort_key grade_index) grades [] = foldr insort grades []" by (induction grades) simp_all
  then show ?thesis by (simp add: best_first_def sort_key_def)
qed

lemma sorted_below:
  fixes xs :: "'a::linorder list"
  assumes "sorted xs" "m < length xs"
  shows "length (filter (\<lambda>x. x < xs ! m) xs) \<le> m" "length (filter (\<lambda>x. xs ! m < x) xs) \<le> length xs - m - 1"
proof -
  have "filter (\<lambda>x. x < xs ! m) (drop m xs) = []"
    using sorted_nth_mono [OF assms(1), of m] by (auto simp: filter_empty_conv in_set_conv_nth not_less)
  then have "filter (\<lambda>x. x < xs ! m) xs = filter (\<lambda>x. x < xs ! m) (take m xs)"
    by (metis append.right_neutral append_take_drop_id filter_append)
  then show "length (filter (\<lambda>x. x < xs ! m) xs) \<le> m" using length_filter_le [of _ "take m xs"] assms(2) by (metis length_take min.absorb4 order.strict_trans1 min_def le_trans)
  have "filter (\<lambda>x. xs ! m < x) (take (Suc m) xs) = []"
    using sorted_nth_mono [OF assms(1), of _ m] assms(2) by (auto simp: filter_empty_conv in_set_conv_nth not_less)
  then have "filter (\<lambda>x. xs ! m < x) xs = filter (\<lambda>x. xs ! m < x) (drop (Suc m) xs)"
    by (metis append.left_neutral append_take_drop_id filter_append)
  then show "length (filter (\<lambda>x. xs ! m < x) xs) \<le> length xs - m - 1"
    using length_filter_le [of "\<lambda>x. xs ! m < x" "drop (Suc m) xs"] by simp
qed

lemma length_filter_sort: "length (filter p (sort xs)) = length (filter p xs)"
  by (metis mset_filter mset_sort size_mset)

lemma letter_range_exact:
  assumes "letter_range_of grades = Some r"
  shows "lr_highest r = Min (set grades)" "lr_lowest r = Max (set grades)" "lr_median r \<in> set grades"
    "2 * length (filter (\<lambda>g. g < lr_median r) grades) \<le> length grades"
    "2 * length (filter (\<lambda>g. lr_median r < g) grades) < length grades"
proof -
  let ?xs = "sort grades" and ?m = "length grades div 2"
  have ne: "grades \<noteq> []" using assms by (auto simp: letter_range_of_def best_first_def Let_def)
  then have m: "?m < length ?xs" by simp
  have r: "lr_highest r = hd ?xs" "lr_lowest r = last ?xs" "lr_median r = ?xs ! ?m"
    using assms ne by (auto simp: letter_range_of_def best_first_sort Let_def split: if_splits)
  show "lr_median r \<in> set grades" using nth_mem [OF m] r(3) by simp
  show "2 * length (filter (\<lambda>g. g < lr_median r) grades) \<le> length grades"
    using sorted_below(1) [OF sorted_sort m] r(3) by (simp add: length_filter_sort)
  show "2 * length (filter (\<lambda>g. lr_median r < g) grades) < length grades"
    using sorted_below(2) [OF sorted_sort m] r(3) m by (simp add: length_filter_sort)
  have "?xs \<noteq> []" using ne by (metis length_0_conv length_sort)
  then have "hd ?xs = ?xs ! 0" "last ?xs = ?xs ! (length ?xs - 1)" by (simp_all add: hd_conv_nth last_conv_nth)
  moreover have "?xs ! 0 \<le> x \<and> x \<le> ?xs ! (length ?xs - 1)" if "x \<in> set grades" for x
  proof -
    from that obtain i where "i < length ?xs" "x = ?xs ! i" by (metis in_set_conv_nth set_sort)
    then show ?thesis using sorted_nth_mono [OF sorted_sort, of 0 i grades] sorted_nth_mono [OF sorted_sort, of i "length ?xs - 1" grades] by simp
  qed
  moreover have "?xs ! 0 \<in> set grades" "?xs ! (length ?xs - 1) \<in> set grades"
    using nth_mem [of 0 ?xs] nth_mem [of "length ?xs - 1" ?xs] m ne by simp_all
  ultimately have "Min (set grades) = hd ?xs" "Max (set grades) = last ?xs"
    by (auto intro!: Min_eqI Max_eqI)
  then show "lr_highest r = Min (set grades)" "lr_lowest r = Max (set grades)" using r(1,2) by simp_all
qed

subsection \<open>Counts\<close>

lemma outcome_tally_snoc:
  "tally (names @ [name]) = AList.update name ((case map_of (tally names) name of None \<Rightarrow> 0 | Some n \<Rightarrow> n) + 1) (tally names)"
  by (simp add: tally_def)

lemma tally_count:
  "map_of (tally names) x = (if x \<in> set names then Some (count_list names x) else None)"
proof (induction names rule: rev_induct)
  case (snoc name names)
  then show ?case by (auto simp: outcome_tally_snoc update_conv' count_notin)
qed (simp add: tally_def)

lemma tally_keys: "distinct (map fst (tally names)) \<and> fst ` set (tally names) = set names"
proof
  show "distinct (map fst (tally names))"
    by (induction names rule: rev_induct) (simp_all add: outcome_tally_snoc distinct_update, simp add: tally_def)
  have "fst ` set (tally names) = dom (map_of (tally names))" by (simp add: dom_map_of_conv_image_fst)
  also have "\<dots> = set names" by (auto simp: dom_def tally_count split: if_splits)
  finally show "fst ` set (tally names) = set names" .
qed

lemma tally_total: "sum_list (map snd (tally names)) = length names"
proof -
  have "map snd (tally names) = map (count_list names) (map fst (tally names))"
  proof (rule nth_equalityI)
    fix i
    assume i: "i < length (map snd (tally names))"
    then have "map_of (tally names) (fst (tally names ! i)) = Some (snd (tally names ! i))"
      using tally_keys [of names] by simp
    then have "count_list names (fst (tally names ! i)) = snd (tally names ! i)"
      by (simp add: tally_count split: if_splits)
    with i show "map snd (tally names) ! i = map (count_list names) (map fst (tally names)) ! i" by simp
  qed simp
  then have "sum_list (map snd (tally names)) = sum_list (map (count_list names) (map fst (tally names)))" by (rule arg_cong)
  also have "\<dots> = sum (count_list names) (set names)"
    using tally_keys [of names] sum_list_distinct_conv_sum_set [of "map fst (tally names)" "count_list names"] by simp
  finally show ?thesis by (simp add: sum_count_set)
qed

lemma graded_or_not: "length (outcome_grades outcomes) + length (outcome_statuses outcomes) = length outcomes"
  by (induction outcomes) (simp_all add: outcome_grades_def outcome_statuses_def List.map_filter_simps split: group_judgment.split)

text \<open>The summary of a stage counts every recorded outcome of the stage once, by letter or under its status;
  outside session groups its highest and lowest letters are the best and the worst given, and its median is a letter
  some repetition received, with at most half of the letters better and less than half worse.\<close>

theorem stage_summary_exact:
  "gm_graded (stage_summary session reps stage) + sum_list (map snd (gm_ungraded (stage_summary session reps stage)))
     = length (stage_outcomes stage reps)
   \<and> map_of (gm_ungraded (stage_summary session reps stage)) status
     = (let n = count_list (outcome_statuses (stage_outcomes stage reps)) status in if n = 0 then None else Some n)
   \<and> (let grades = outcome_grades (stage_outcomes stage reps) in
      case gm_grades (stage_summary session reps stage) of
        Unavailable reasons \<Rightarrow> session \<or> grades = []
      | Available r \<Rightarrow> \<not> session \<and> lr_highest r = Min (set grades) \<and> lr_lowest r = Max (set grades)
          \<and> lr_median r \<in> set grades
          \<and> 2 * length (filter (\<lambda>g. g < lr_median r) grades) \<le> length grades
          \<and> 2 * length (filter (\<lambda>g. lr_median r < g) grades) < length grades)"
proof -
  let ?o = "stage_outcomes stage reps"
  have u: "gm_ungraded (stage_summary session reps stage) = tally (outcome_statuses ?o)"
    by (simp add: stage_summary_def Let_def split: option.split)
  have "sort gs = [] \<longleftrightarrow> gs = []" for gs :: "letter list" by (metis length_0_conv length_sort)
  then have g: "letter_range_of gs = None \<longleftrightarrow> gs = []" for gs
    by (simp add: letter_range_of_def best_first_sort Let_def)
  have gr: "gm_graded (stage_summary session reps stage) = length (outcome_grades ?o)"
    using g [of "outcome_grades ?o"] by (auto simp: stage_summary_def Let_def split: option.split)
  have "count_list names status = 0 \<longleftrightarrow> status \<notin> set names" for names by (metis count_list_0_iff)
  with u gr g [of "outcome_grades ?o"] letter_range_exact [of "outcome_grades ?o"] graded_or_not [of ?o] show ?thesis
    by (auto simp: tally_total tally_count Let_def stage_summary_def split: option.split)
qed

text \<open>What a group cost is the preflight and every call of every repetition that could be read.\<close>

definition preflight_value :: "preflight option \<Rightarrow> real" where
  "preflight_value p = (case p of Some (PreflightComplete metrics) \<Rightarrow> m_cost_usd metrics | _ \<Rightarrow> 0)"

definition listed_calls :: "listed_rep \<Rightarrow> call_evidence list" where
  "listed_calls rep = (case rep of ReadRep r \<Rightarrow> status_calls (gr_metrics r) | UnreadRep _ \<Rightarrow> [])"

lemma group_cost_sum:
  "figure_value (group_cost p reps)
     = preflight_value p + sum_list (map (\<lambda>c. m_cost_usd (cl_metrics c)) (concat (map listed_calls reps)))"
proof -
  have fold: "foldl (\<lambda>acc c. acc + m_cost_usd (cl_metrics c)) a cs = a + sum_list (map (\<lambda>c. m_cost_usd (cl_metrics c)) cs)"
    for a :: real and cs :: "call_evidence list" by (induction cs arbitrary: a) simp_all
  have "items_value (rep_cost rep) = sum_list (map (\<lambda>c. m_cost_usd (cl_metrics c)) (listed_calls rep))" for rep
    by (auto simp: rep_cost_def listed_calls_def Let_def fold items_value_def kept_costs_def List.map_filter_simps
        split: listed_rep.split resource_status.split)
  then have "items_value (concat (map rep_cost reps)) = sum_list (map (\<lambda>c. m_cost_usd (cl_metrics c)) (concat (map listed_calls reps)))"
    by (induction reps) simp_all
  moreover have "items_value (preflight_cost p) = preflight_value p"
    by (simp add: preflight_cost_def preflight_value_def items_value_def kept_costs_def List.map_filter_simps
        split: option.split preflight.split)
  ultimately show ?thesis by (simp add: group_cost_def figure_value_eq)
qed

end
