(* ===== verification/RunRows.thy ===== *)
theory RunRows
  imports RunRecords StoppedStatus GroupSummary
begin

text \<open>
  The rows of the run history as the server answers them and the browser shows them: one per saved record, with
  the launches beside them and the records that could not be read (\<open>run-history-saved-rows.ts\<close>,
  \<open>run-history-group-contract.ts\<close>, \<open>run-history-contract.ts\<close>, \<open>row-staleness.ts\<close> under \<open>src/src/server\<close>).

  A row without its staleness judgement, which the run listing answers, is a \<open>listed_row\<close>; a \<open>row\<close> of the full
  report is one with its staleness.
\<close>

subsection \<open>Staleness of a row\<close>

datatype version_distance = DistanceMeasured int | DistanceNotRecorded string

datatype corpus_file_change = FileChanged | FileAdded | FileRemoved

record changed_corpus_file =
  cc_path :: string
  cc_change :: corpus_file_change

record judged_staleness =
  js_stale :: bool
  js_causes :: "string list"
  js_changed_files :: "changed_corpus_file list"
  js_only_corpus_files :: bool
  js_distance :: version_distance

type_synonym row_staleness = "judged_staleness reading"

definition UNJUDGED_REASON :: string where
  "UNJUDGED_REASON = ''nothing recorded to judge''"

subsection \<open>A pipeline run\<close>

type_synonym fired_blockers = "string list reading"

type_synonym pipeline_stages = "string list reading"

record listed_stage_grade =
  lg_stage :: string
  lg_status :: "stage_record_status option"
  lg_grade :: "grade_figure reading"

record checkpoint_short =
  ck_stage :: string
  ck_short_id :: string

record attempt_position =
  ap_position :: nat
  ap_count :: nat

record run_row =
  rn_record_id :: string
  rn_run :: string
  rn_short_id :: "string option"
  rn_checkpoints :: "checkpoint_short list"
  rn_replayable_stages :: "string list"
  rn_case_id :: "string option"
  rn_status :: string
  rn_stage :: "string option"
  rn_grade :: "string option"
  rn_corpus_version :: "corpus_measurement option"
  rn_corpus_changed :: bool
  rn_progress :: run_progress
  rn_links :: "context_link list"
  rn_stage_grades :: "listed_stage_grade list reading"
  rn_final_outcome :: "run_outcome reading"
  rn_cost :: cost_reading
  rn_wall_time :: "real reading"
  rn_minimum_grade :: "string reading"
  rn_fired_blockers :: fired_blockers
  rn_launch_id :: "string option"

text \<open>The status \<open>not-run\<close> of a listed stage is \<open>None\<close>.\<close>

record run_figures =
  fg_stage_grades :: "listed_stage_grade list reading"
  fg_final_outcome :: "run_outcome reading"
  fg_cost :: cost_reading
  fg_wall_time :: "real reading"
  fg_minimum_grade :: "string reading"
  fg_fired_blockers :: fired_blockers
  fg_corpus_version :: "corpus_measurement option"
  fg_corpus_changed :: bool

subsection \<open>A session attempt, a replay and a group\<close>

datatype attempt_outcome = Successful | Unsuccessful | NoReply | ExecutionFailed

datatype saved_state_assessment = StateAssessed nat nat nat | StateUnavailable string

record check_counts =
  ct_passed :: nat
  ct_declared :: nat

record attempt_row =
  sn_record_id :: string
  sn_case_id :: string
  sn_uuid :: string
  sn_short_id :: "string option"
  sn_status :: attempt_outcome
  sn_started_at :: "string option"
  sn_corpus_version :: "corpus_measurement option"
  sn_links :: "context_link list"
  sn_cost :: cost_reading
  sn_wall_time :: "real reading"
  sn_checks :: "check_counts reading"
  sn_saved_state :: "saved_state_assessment option"

record replay_row =
  ry_record_id :: string
  ry_lineage :: string
  ry_timestamp :: string
  ry_short_id :: "string option"
  ry_checkpoint_short_id :: "string option"
  ry_attempt :: "attempt_position option"
  ry_case_id :: "string option"
  ry_stage :: string
  ry_grade :: string
  ry_status :: stage_verdict
  ry_corpus_version :: "corpus_measurement option"
  ry_links :: "context_link list"
  ry_cost :: cost_reading
  ry_not_applicable :: string
  ry_wall_time :: "real reading"
  ry_pipeline_stages :: pipeline_stages
  ry_fired_blockers :: fired_blockers

datatype confirmation_mode = ConfirmStage | ConfirmPipeline | ConfirmSession

record rep_attempt =
  ra_rep_id :: string
  ra_attempt :: attempt_position

record session_group_saved_state =
  gv_total :: nat
  gv_assessed :: nat
  gv_passed :: nat
  gv_failed :: nat
  gv_unavailable :: nat
  gv_disagreements :: nat
  gv_unavailable_reps :: "unread_rep list"

record rep_saved_state =
  rv_rep_id :: string
  rv_assessment :: saved_state_assessment
  rv_recorded_passed :: "bool option"

record group_row =
  gw_record_id :: string
  gw_group_id :: string
  gw_short_id :: "string option"
  gw_case_id :: string
  gw_mode :: confirmation_mode
  gw_started_at :: "string option"
  gw_checkpoint :: "(string \<times> string) option"
  gw_reps :: nat
  gw_corpus_version :: "corpus_measurement option"
  gw_rep_attempts :: "rep_attempt list"
  gw_links :: "context_link list"
  gw_stage_summaries :: "group_stage_summary list"
  gw_final_outcomes :: rep_counts
  gw_successful :: nat
  gw_quality_failures :: nat
  gw_unread_reps :: "unread_rep list"
  gw_cost :: cost_reading
  gw_wall_time :: "real reading"
  gw_pipeline_stages :: pipeline_stages
  gw_fired_blockers :: fired_blockers
  gw_saved_state :: "session_group_saved_state option"

subsection \<open>The report\<close>

datatype listed_row = RunRow run_row | AttemptRow attempt_row | ReplayRow replay_row | GroupRow group_row

datatype row_kind = RunKind | AttemptKind | ReplayKind | GroupKind | LaunchKind | ShortIdsKind

fun kind_of_row :: "listed_row \<Rightarrow> row_kind" where
  "kind_of_row (RunRow r) = RunKind"
| "kind_of_row (AttemptRow r) = AttemptKind"
| "kind_of_row (ReplayRow r) = ReplayKind"
| "kind_of_row (GroupRow r) = GroupKind"

record row =
  rw_listed :: listed_row
  rw_staleness :: row_staleness

datatype launch_kind = CaseLaunch | ReplayLaunch | ComparisonLaunch | ExtensionLaunch | AnalysisLaunch

datatype launch_status = LaunchRunning | LaunchStopped | LaunchEnded int string

record launch_row =
  la_id :: string
  la_target :: launch_kind
  la_case_id :: "string option"
  la_run :: "string option"
  la_stage :: "string option"
  la_attempts :: nat
  la_launched_at :: string
  la_status :: launch_status

record unreadable_record =
  ud_incomplete_group :: "string option"
  ud_kind :: row_kind
  ud_id :: string
  ud_reason :: string

record 'row history_report =
  hr_rows :: "'row list"
  hr_launches :: "launch_row list"
  hr_unreadable :: "unreadable_record list"

type_synonym run_history_report = "row history_report"

type_synonym run_listing = "listed_row history_report"

text \<open>The fields the four kinds of row have in common.\<close>

fun row_record_id :: "listed_row \<Rightarrow> string" where
  "row_record_id (RunRow r) = rn_record_id r"
| "row_record_id (AttemptRow r) = sn_record_id r"
| "row_record_id (ReplayRow r) = ry_record_id r"
| "row_record_id (GroupRow r) = gw_record_id r"

fun row_short_id :: "listed_row \<Rightarrow> string option" where
  "row_short_id (RunRow r) = rn_short_id r"
| "row_short_id (AttemptRow r) = sn_short_id r"
| "row_short_id (ReplayRow r) = ry_short_id r"
| "row_short_id (GroupRow r) = gw_short_id r"

fun row_case_id :: "listed_row \<Rightarrow> string option" where
  "row_case_id (RunRow r) = rn_case_id r"
| "row_case_id (AttemptRow r) = Some (sn_case_id r)"
| "row_case_id (ReplayRow r) = ry_case_id r"
| "row_case_id (GroupRow r) = Some (gw_case_id r)"

fun row_cost :: "listed_row \<Rightarrow> cost_reading" where
  "row_cost (RunRow r) = rn_cost r"
| "row_cost (AttemptRow r) = sn_cost r"
| "row_cost (ReplayRow r) = ry_cost r"
| "row_cost (GroupRow r) = gw_cost r"

fun row_corpus_version :: "listed_row \<Rightarrow> corpus_measurement option" where
  "row_corpus_version (RunRow r) = rn_corpus_version r"
| "row_corpus_version (AttemptRow r) = sn_corpus_version r"
| "row_corpus_version (ReplayRow r) = ry_corpus_version r"
| "row_corpus_version (GroupRow r) = gw_corpus_version r"

text \<open>Only a session attempt has no blockers to fire.\<close>

fun row_fired_blockers :: "listed_row \<Rightarrow> fired_blockers option" where
  "row_fired_blockers (RunRow r) = Some (rn_fired_blockers r)"
| "row_fired_blockers (AttemptRow r) = None"
| "row_fired_blockers (ReplayRow r) = Some (ry_fired_blockers r)"
| "row_fired_blockers (GroupRow r) = Some (gw_fired_blockers r)"

end
