(* ===== verification/StableSort.thy ===== *)
theory StableSort
  imports Prelude "HOL-Library.Multiset" "HOL-Library.Product_Lexorder"
begin

text \<open>
  \<open>Array.toSorted\<close> with a comparator, which is a stable sort: an element goes before the first one that does not
  compare below it. Where the comparator agrees with the order of a key, it is the library's \<open>sort_key\<close>.
\<close>

fun insert_by :: "('a \<Rightarrow> 'a \<Rightarrow> real) \<Rightarrow> 'a \<Rightarrow> 'a list \<Rightarrow> 'a list" where
  "insert_by compare x [] = [x]"
| "insert_by compare x (y # ys) = (if compare x y \<le> 0 then x # y # ys else y # insert_by compare x ys)"

definition to_sorted :: "('a \<Rightarrow> 'a \<Rightarrow> real) \<Rightarrow> 'a list \<Rightarrow> 'a list" where
  "to_sorted compare xs = foldr (insert_by compare) xs []"

lemma to_sorted_simps [simp]:
  "to_sorted compare [] = []"
  "to_sorted compare (x # xs) = insert_by compare x (to_sorted compare xs)"
  by (simp_all add: to_sorted_def)

lemma mset_insert_by [simp]: "mset (insert_by compare x ys) = add_mset x (mset ys)"
  by (induction ys) simp_all

lemma mset_to_sorted [simp]: "mset (to_sorted compare xs) = mset xs"
  by (induction xs) simp_all

lemma set_to_sorted [simp]: "set (to_sorted compare xs) = set xs"
  by (metis mset_to_sorted set_mset_mset)

lemma insert_by_key:
  assumes "\<And>x y. compare x y \<le> 0 \<longleftrightarrow> key x \<le> key y"
  shows "insert_by compare x ys = insort_key key x ys"
  by (induction ys) (simp_all add: assms)

lemma to_sorted_key:
  assumes "\<And>x y. compare x y \<le> 0 \<longleftrightarrow> key x \<le> key y"
  shows "to_sorted compare xs = sort_key key xs"
  by (induction xs) (simp_all add: insert_by_key [OF assms])

text \<open>Comparators tried in turn, each by its own key.\<close>

lemma chained_compare:
  fixes c k t :: real and a a' :: "'a::linorder" and b b' :: "'b::linorder" and d d' :: "'c::linorder"
  assumes "c < 0 \<longleftrightarrow> a < a'" "c = 0 \<longleftrightarrow> a = a'" and "k < 0 \<longleftrightarrow> b < b'" "k = 0 \<longleftrightarrow> b = b'"
    and "t < 0 \<longleftrightarrow> d < d'" "t = 0 \<longleftrightarrow> d = d'"
  shows "(if c \<noteq> 0 then c else if k \<noteq> 0 then k else t) \<le> 0 \<longleftrightarrow> (a, b, d) \<le> (a', b', d')"
  using assms by (auto simp: less_eq_prod_def le_less)

end
