(* ===== verification/RecordedInstant.thy ===== *)
theory RecordedInstant
  imports Decimal
begin

text \<open>
  The instant a run name, a replay timestamp or a start time names (\<open>src/src/benchmark/recorded-instant.ts\<close>), in
  milliseconds from the epoch. The fields are read by the regular expression of the code; \<open>Date.parse\<close> and
  \<open>toISOString\<close> of what it matches are the proleptic Gregorian calendar. A date or a time of day that does not
  exist names no instant. Of a fraction of a second the first three digits count.
\<close>

definition digits_at :: "string \<Rightarrow> nat list \<Rightarrow> bool" where
  "digits_at text is \<longleftrightarrow> list_all (\<lambda>i. is_digit (text ! i)) is"

text \<open>What follows the seconds: \<open>(?:\.\d+)?Z$\<close>.\<close>

definition ends_recorded_time :: "string \<Rightarrow> bool" where
  "ends_recorded_time rest \<longleftrightarrow>
     rest = ''Z'' \<or>
     (3 \<le> length rest \<and> hd rest = CHR ''.'' \<and> last rest = CHR ''Z'' \<and> list_all is_digit (butlast (tl rest)))"

definition is_recorded_time :: "string \<Rightarrow> bool" where
  "is_recorded_time text \<longleftrightarrow>
     20 \<le> length text \<and> digits_at text [0, 1, 2, 3, 5, 6, 8, 9, 11, 12, 14, 15, 17, 18] \<and>
     text ! 4 = CHR ''-'' \<and> text ! 7 = CHR ''-'' \<and> text ! 10 = CHR ''T'' \<and>
     (text ! 13 = CHR ''-'' \<or> text ! 13 = CHR '':'') \<and> text ! 16 = text ! 13 \<and>
     ends_recorded_time (drop 19 text)"

definition number_at :: "string \<Rightarrow> nat \<Rightarrow> nat \<Rightarrow> nat" where
  "number_at text s n = read_number (take n (drop s text))"

subsection \<open>The calendar\<close>

definition leap_year :: "nat \<Rightarrow> bool" where
  "leap_year y \<longleftrightarrow> y mod 4 = 0 \<and> (y mod 100 \<noteq> 0 \<or> y mod 400 = 0)"

definition month_lengths :: "nat \<Rightarrow> nat list" where
  "month_lengths y = [31, if leap_year y then 29 else 28, 31, 30, 31, 30, 31, 31, 30, 31, 30, 31]"

text \<open>The days from the first of year 0, itself a leap year, to the first of year \<open>y\<close>.\<close>

definition days_before_year :: "nat \<Rightarrow> nat" where
  "days_before_year y = 365 * y + (y + 3) div 4 - (y + 99) div 100 + (y + 399) div 400"

definition days_before_date :: "nat \<Rightarrow> nat \<Rightarrow> nat \<Rightarrow> nat" where
  "days_before_date y m d = days_before_year y + sum_list (take (m - 1) (month_lengths y)) + (d - 1)"

definition real_date :: "nat \<Rightarrow> nat \<Rightarrow> nat \<Rightarrow> bool" where
  "real_date y m d \<longleftrightarrow> 1 \<le> m \<and> m \<le> 12 \<and> 1 \<le> d \<and> d \<le> month_lengths y ! (m - 1)"

text \<open>The milliseconds of a fraction: its first three digits, with zeros for those it lacks.\<close>

definition milliseconds :: "string \<Rightarrow> nat" where
  "milliseconds fraction = read_number (take 3 (fraction @ ''000''))"

definition recorded_instant :: "string \<Rightarrow> int option" where
  "recorded_instant time =
     (let y = number_at time 0 4; mo = number_at time 5 2; d = number_at time 8 2;
          h = number_at time 11 2; mi = number_at time 14 2; s = number_at time 17 2
      in if is_recorded_time time \<and> real_date y mo d \<and> h < 24 \<and> mi < 60 \<and> s < 60
         then Some ((int (days_before_date y mo d) - int (days_before_date 1970 1 1)) * 86400000
                + int (h * 3600000 + mi * 60000 + s * 1000 + milliseconds (butlast (drop 20 time))))
         else None)"

lemmas instant_defs = recorded_instant_def is_recorded_time_def digits_at_def ends_recorded_time_def number_at_def
  real_date_def month_lengths_def leap_year_def days_before_date_def days_before_year_def milliseconds_def
  is_digit_def digit_value_def read_number_def

text \<open>A run name and the start time it replaces the colons of name one instant.\<close>

lemma recorded_instant_name:
  "recorded_instant ''2026-03-01T10-04-05.123Z'' = Some 1772359445123"
  "recorded_instant ''2026-03-01T10:04:05.123Z'' = Some 1772359445123"
  by (simp_all add: instant_defs Let_def numeral_2_eq_2 [symmetric])

lemma recorded_instant_no_such_day: "recorded_instant ''2026-02-29T10:04:05Z'' = None"
  by (simp add: instant_defs Let_def)

end
