(* ===== verification/RunDiscovery.thy ===== *)
theory RunDiscovery
  imports RunRows StableSort RecordedInstant
begin

text \<open>
  The listing of the run history in the browser, under \<open>src/client/src/run-history\<close>: the search a listing's
  address holds (\<open>run-discovery.ts\<close>), which rows and launches it keeps (\<open>history-record-filtering.ts\<close>,
  \<open>history-record-search.ts\<close>, \<open>clean-record.ts\<close>, \<open>within-case.ts\<close>) and the order it shows them in
  (\<open>history-record-sorting.ts\<close>).

  \<open>localeCompare\<close> is an argument, named \<open>lc\<close>; it compares by the keys of a collation.
\<close>

subsection \<open>The search\<close>

datatype corpus_filter = AnyCorpus | CurrentCorpus | StaleCorpus

datatype status_filter = AnyStatus | RunningStatus | EndedStatus | PassedStatus | FailedStatus | StoppedOnly

datatype sort_choice = NewestFirst | OldestFirst | DearestFirst | ByCase

text \<open>The kind \<open>all\<close> is \<open>Some None\<close>.\<close>

record discovery_search =
  ds_corpus :: "corpus_filter option"
  ds_kind :: "row_kind option option"
  ds_query :: "string option"
  ds_sort :: "sort_choice option"
  ds_status :: "status_filter option"

definition choice_of :: "(string \<times> 'a) list \<Rightarrow> json option \<Rightarrow> 'a option" where
  "choice_of names v = (case v of Some (JStr s) \<Rightarrow> map_of names s | _ \<Rightarrow> None)"

text \<open>A value the schema does not know is read as undefined, never refused.\<close>

definition run_discovery_search_schema :: "json \<Rightarrow> discovery_search option" where
  "run_discovery_search_schema v =
     (case v of
        JObj ms \<Rightarrow> Some
          \<lparr>ds_corpus = choice_of [(''all'', AnyCorpus), (''current'', CurrentCorpus), (''stale'', StaleCorpus)] (map_of ms ''corpus''),
           ds_kind = choice_of [(''all'', None), (''run'', Some RunKind), (''session-attempt'', Some AttemptKind),
             (''replay'', Some ReplayKind), (''group'', Some GroupKind)] (map_of ms ''kind''),
           ds_query = (case map_of ms ''query'' of Some (JStr s) \<Rightarrow> Some s | _ \<Rightarrow> None),
           ds_sort = choice_of [(''newest'', NewestFirst), (''oldest'', OldestFirst), (''cost'', DearestFirst), (''case'', ByCase)] (map_of ms ''sort''),
           ds_status = choice_of [(''all'', AnyStatus), (''running'', RunningStatus), (''ended'', EndedStatus),
             (''passed'', PassedStatus), (''failed'', FailedStatus), (''stopped'', StoppedOnly)] (map_of ms ''status'')\<rparr>
      | _ \<Rightarrow> None)"

definition default_to :: "'a \<Rightarrow> 'a option \<Rightarrow> 'a" where
  "default_to d v = (case v of None \<Rightarrow> d | Some x \<Rightarrow> x)"

subsection \<open>Text search\<close>

text \<open>\<open>toLowerCase\<close> and \<open>trim\<close> of texts whose characters are below code point 256.\<close>

definition lower_char :: "char \<Rightarrow> char" where
  "lower_char c =
     (let n = (of_char c :: nat)
      in if 65 \<le> n \<and> n \<le> 90 \<or> 192 \<le> n \<and> n \<le> 222 \<and> n \<noteq> 215 then char_of (n + 32) else c)"

definition lower_case :: "string \<Rightarrow> string" where
  "lower_case = map lower_char"

definition js_space :: "char \<Rightarrow> bool" where
  "js_space c \<longleftrightarrow> (of_char c :: nat) \<in> {9, 10, 11, 12, 13, 32, 160}"

definition trim_text :: "string \<Rightarrow> string" where
  "trim_text s = rev (dropWhile js_space (rev (dropWhile js_space s)))"

definition includes_text :: "string \<Rightarrow> string \<Rightarrow> bool" where
  "includes_text text needle \<longleftrightarrow> index_of text needle \<noteq> None"

definition within_case :: "string \<Rightarrow> string option \<Rightarrow> string" where
  "within_case short_id case_id =
     (case case_id of
        Some c \<Rightarrow> if starts_with short_id (c @ ''/'') then drop (length (c @ ''/'')) short_id else short_id
      | None \<Rightarrow> short_id)"

fun record_identity :: "listed_row \<Rightarrow> string" where
  "record_identity (RunRow r) = rn_run r"
| "record_identity (AttemptRow r) = sn_uuid r"
| "record_identity (ReplayRow r) = ry_timestamp r"
| "record_identity (GroupRow r) = gw_group_id r"

definition CORPUS_VERSION_LABEL :: string where
  "CORPUS_VERSION_LABEL = ''corpus@''"

definition record_search_texts :: "listed_row \<Rightarrow> string list" where
  "record_search_texts r =
     [default_to '''' (row_case_id r), row_record_id r, record_identity r, default_to '''' (row_short_id r),
      (case row_short_id r of None \<Rightarrow> '''' | Some short_id \<Rightarrow> within_case short_id (row_case_id r))]
     @ (case row_corpus_version r of Some (CorpusVersion digest) \<Rightarrow> [CORPUS_VERSION_LABEL @ digest] | _ \<Rightarrow> [])
     @ (case row_fired_blockers r of Some (Available ids) \<Rightarrow> ids | _ \<Rightarrow> [])"

definition matches_text :: "string list \<Rightarrow> string option \<Rightarrow> bool" where
  "matches_text texts search =
     (let needle = lower_case (trim_text (default_to '''' search))
      in list_ex (\<lambda>text. includes_text (lower_case text) needle) texts)"

subsection \<open>Which rows a search keeps\<close>

definition stopped_below_minimum :: "run_row \<Rightarrow> bool" where
  "stopped_below_minimum r =
     (case (is_stopped (rn_status r), rn_minimum_grade r, rn_stage_grades r) of
        (True, Available _, Available grades) \<Rightarrow>
          (case List.find (\<lambda>g. lg_stage g = stopped_stage_name (rn_status r)) grades of
             Some stopped \<Rightarrow> (case lg_grade stopped of Available g \<Rightarrow> \<not> gf_reaches_minimum g | Unavailable _ \<Rightarrow> False)
           | None \<Rightarrow> False)
      | _ \<Rightarrow> False)"

definition judged_as :: "pass_fail \<Rightarrow> run_row \<Rightarrow> bool" where
  "judged_as verdict r \<longleftrightarrow>
     (case rn_final_outcome r of Available (OutcomeJudged v) \<Rightarrow> v = verdict | _ \<Rightarrow> False)"

fun failed_row :: "listed_row \<Rightarrow> bool" where
  "failed_row (RunRow r) = (stopped_below_minimum r \<or> judged_as FAIL r)"
| "failed_row (AttemptRow r) = (sn_status r = Unsuccessful)"
| "failed_row (ReplayRow r) = (ry_status r = STOP)"
| "failed_row (GroupRow r) = (0 < gw_quality_failures r)"

fun passed_row :: "listed_row \<Rightarrow> bool" where
  "passed_row (RunRow r) = judged_as PASS r"
| "passed_row (AttemptRow r) = (sn_status r = Successful)"
| "passed_row (ReplayRow r) = (ry_status r = CONTINUE)"
| "passed_row (GroupRow r) = (0 < gw_reps r \<and> gw_successful r = gw_reps r \<and> gw_unread_reps r = [])"

fun matches_status :: "listed_row \<Rightarrow> status_filter \<Rightarrow> bool \<Rightarrow> bool" where
  "matches_status r AnyStatus running = True"
| "matches_status r RunningStatus running = running"
| "matches_status r EndedStatus running = (\<not> running)"
| "matches_status r FailedStatus running = failed_row r"
| "matches_status r PassedStatus running = passed_row r"
| "matches_status r StoppedOnly running = (case r of RunRow x \<Rightarrow> is_stopped (rn_status x) | _ \<Rightarrow> False)"

definition is_clean :: "judged_staleness \<Rightarrow> bool" where
  "is_clean s \<longleftrightarrow> (case js_distance s of DistanceMeasured n \<Rightarrow> \<not> js_stale s \<and> n = 0 | DistanceNotRecorded _ \<Rightarrow> False)"

fun row_running :: "listed_row \<Rightarrow> bool" where
  "row_running (RunRow r) = ((case rn_progress r of RunningProgress _ \<Rightarrow> True | RecordedProgress \<Rightarrow> False) \<or> rn_status r = ''RUNNING'')"
| "row_running _ = False"

fun matches_corpus :: "corpus_filter \<Rightarrow> row_staleness \<Rightarrow> bool" where
  "matches_corpus AnyCorpus s = True"
| "matches_corpus CurrentCorpus s = (case s of Available j \<Rightarrow> is_clean j | Unavailable _ \<Rightarrow> False)"
| "matches_corpus StaleCorpus s = (case s of Available j \<Rightarrow> js_stale j | Unavailable _ \<Rightarrow> False)"

definition matches_discovery :: "row \<Rightarrow> discovery_search \<Rightarrow> bool" where
  "matches_discovery r search \<longleftrightarrow>
     matches_status (rw_listed r) (default_to AnyStatus (ds_status search)) (row_running (rw_listed r)) \<and>
     matches_corpus (default_to AnyCorpus (ds_corpus search)) (rw_staleness r) \<and>
     (case ds_kind search of Some (Some k) \<Rightarrow> kind_of_row (rw_listed r) = k | _ \<Rightarrow> True) \<and>
     matches_text (record_search_texts (rw_listed r)) (ds_query search)"

definition launch_matches_discovery :: "launch_row \<Rightarrow> discovery_search \<Rightarrow> bool" where
  "launch_matches_discovery launch search =
     (let status = default_to AnyStatus (ds_status search)
      in (ds_kind search = None \<or> ds_kind search = Some None) \<and>
         (ds_corpus search = None \<or> ds_corpus search = Some AnyCorpus) \<and>
         (status = AnyStatus \<or> status = RunningStatus \<and> la_status launch = LaunchRunning \<or>
          status = EndedStatus \<and> la_status launch \<noteq> LaunchRunning) \<and>
         matches_text
           [la_id launch, ''launch '' @ slice (la_id launch) 0 8, default_to '''' (la_case_id launch),
            default_to '''' (la_run launch), default_to '''' (la_stage launch)]
           (ds_query search))"

subsection \<open>The order of the listing\<close>

fun recorded_time :: "listed_row \<Rightarrow> string option" where
  "recorded_time (RunRow r) = Some (rn_run r)"
| "recorded_time (ReplayRow r) = Some (ry_timestamp r)"
| "recorded_time (AttemptRow r) = sn_started_at r"
| "recorded_time (GroupRow r) = gw_started_at r"

definition row_instant :: "listed_row \<Rightarrow> real option" where
  "row_instant r = Option.bind (recorded_time r) (\<lambda>time. map_option of_int (recorded_instant time))"

definition complete_cost :: "listed_row \<Rightarrow> real option" where
  "complete_cost r =
     (case row_cost r of Available c \<Rightarrow> if cf_missing c = [] then Some (cf_usd c) else None | Unavailable _ \<Rightarrow> None)"

definition compare_measured :: "real option \<Rightarrow> real option \<Rightarrow> real \<Rightarrow> real" where
  "compare_measured left right direction =
     (case left of
        None \<Rightarrow> (case right of None \<Rightarrow> 0 | Some _ \<Rightarrow> 1)
      | Some x \<Rightarrow> (case right of None \<Rightarrow> -1 | Some y \<Rightarrow> direction * (x - y)))"

definition compare_cases :: "(string \<Rightarrow> string \<Rightarrow> real) \<Rightarrow> listed_row \<Rightarrow> listed_row \<Rightarrow> real" where
  "compare_cases lc left right =
     (case row_case_id left of
        None \<Rightarrow> (case row_case_id right of None \<Rightarrow> 0 | Some _ \<Rightarrow> 1)
      | Some x \<Rightarrow> (case row_case_id right of None \<Rightarrow> -1 | Some y \<Rightarrow> lc x y))"

definition compare_rows :: "(string \<Rightarrow> string \<Rightarrow> real) \<Rightarrow> sort_choice option \<Rightarrow> listed_row \<Rightarrow> listed_row \<Rightarrow> real" where
  "compare_rows lc choice left right =
     (let by_cost = if choice = Some DearestFirst then compare_measured (complete_cost left) (complete_cost right) (-1) else 0;
          by_case = if choice = Some ByCase then compare_cases lc left right else 0
      in if by_cost \<noteq> 0 then by_cost
         else if by_case \<noteq> 0 then by_case
         else compare_measured (row_instant left) (row_instant right) (if choice = Some OldestFirst then 1 else -1))"

definition sort_discovered_rows :: "(string \<Rightarrow> string \<Rightarrow> real) \<Rightarrow> row list \<Rightarrow> sort_choice option \<Rightarrow> row list" where
  "sort_discovered_rows lc rows choice = to_sorted (\<lambda>left right. compare_rows lc choice (rw_listed left) (rw_listed right)) rows"

subsection \<open>The order by keys\<close>

text \<open>A row without the figure comes after every row with it.\<close>

definition measured_key :: "real \<Rightarrow> real option \<Rightarrow> nat \<times> real" where
  "measured_key direction x = (case x of None \<Rightarrow> (1, 0) | Some v \<Rightarrow> (0, direction * v))"

definition row_key :: "(string \<Rightarrow> real) \<Rightarrow> sort_choice option \<Rightarrow> row \<Rightarrow> (nat \<times> real) \<times> (nat \<times> real) \<times> (nat \<times> real)" where
  "row_key coll choice r =
     (if choice = Some DearestFirst then measured_key (-1) (complete_cost (rw_listed r)) else (0, 0),
      if choice = Some ByCase then measured_key 1 (map_option coll (row_case_id (rw_listed r))) else (0, 0),
      measured_key (if choice = Some OldestFirst then 1 else -1) (row_instant (rw_listed r)))"

lemma sgn_compare_measured:
  assumes "direction \<noteq> 0"
  shows "compare_measured x y direction < 0 \<longleftrightarrow> measured_key direction x < measured_key direction y"
    and "compare_measured x y direction = 0 \<longleftrightarrow> measured_key direction x = measured_key direction y"
  using assms by (auto simp: compare_measured_def measured_key_def less_prod_def right_diff_distrib split: option.splits)

lemma sgn_compare_cases:
  assumes "\<And>x y. sgn (lc x y) = sgn (coll x - coll y)"
  shows "compare_cases lc l r < 0 \<longleftrightarrow> measured_key 1 (map_option coll (row_case_id l)) < measured_key 1 (map_option coll (row_case_id r))"
    and "compare_cases lc l r = 0 \<longleftrightarrow> measured_key 1 (map_option coll (row_case_id l)) = measured_key 1 (map_option coll (row_case_id r))"
proof -
  have "lc x y < 0 \<longleftrightarrow> coll x < coll y" "lc x y = 0 \<longleftrightarrow> coll x = coll y" for x y
    using assms [of x y] by (auto simp: sgn_if split: if_splits)
  then show "compare_cases lc l r < 0 \<longleftrightarrow> measured_key 1 (map_option coll (row_case_id l)) < measured_key 1 (map_option coll (row_case_id r))"
    and "compare_cases lc l r = 0 \<longleftrightarrow> measured_key 1 (map_option coll (row_case_id l)) = measured_key 1 (map_option coll (row_case_id r))"
    by (auto simp: compare_cases_def measured_key_def less_prod_def split: option.splits)
qed

lemma compare_rows_key:
  assumes "\<And>x y. sgn (lc x y) = sgn (coll x - coll y)"
  shows "compare_rows lc choice (rw_listed l) (rw_listed r) \<le> 0 \<longleftrightarrow> row_key coll choice l \<le> row_key coll choice r"
proof -
  define c where "c = (if choice = Some DearestFirst then compare_measured (complete_cost (rw_listed l)) (complete_cost (rw_listed r)) (-1) else 0)"
  define k where "k = (if choice = Some ByCase then compare_cases lc (rw_listed l) (rw_listed r) else 0)"
  define t where "t = compare_measured (row_instant (rw_listed l)) (row_instant (rw_listed r)) (if choice = Some OldestFirst then 1 else -1)"
  have c: "(c < 0 \<longleftrightarrow> fst (row_key coll choice l) < fst (row_key coll choice r)) \<and> (c = 0 \<longleftrightarrow> fst (row_key coll choice l) = fst (row_key coll choice r))"
    using sgn_compare_measured [of "-1"] by (simp add: row_key_def c_def)
  have k: "(k < 0 \<longleftrightarrow> fst (snd (row_key coll choice l)) < fst (snd (row_key coll choice r))) \<and> (k = 0 \<longleftrightarrow> fst (snd (row_key coll choice l)) = fst (snd (row_key coll choice r)))"
    using sgn_compare_cases [of lc coll, OF assms] by (simp add: row_key_def k_def)
  have t: "(t < 0 \<longleftrightarrow> snd (snd (row_key coll choice l)) < snd (snd (row_key coll choice r))) \<and> (t = 0 \<longleftrightarrow> snd (snd (row_key coll choice l)) = snd (snd (row_key coll choice r)))"
    using sgn_compare_measured [of 1] sgn_compare_measured [of "-1"] by (simp add: row_key_def t_def)
  have "compare_rows lc choice (rw_listed l) (rw_listed r) = (if c \<noteq> 0 then c else if k \<noteq> 0 then k else t)"
    by (simp add: compare_rows_def c_def k_def t_def Let_def)
  moreover have "(if c \<noteq> 0 then c else if k \<noteq> 0 then k else t) \<le> 0 \<longleftrightarrow> row_key coll choice l \<le> row_key coll choice r"
    using chained_compare [of c "fst (row_key coll choice l)" "fst (row_key coll choice r)" k
        "fst (snd (row_key coll choice l))" "fst (snd (row_key coll choice r))" t
        "snd (snd (row_key coll choice l))" "snd (snd (row_key coll choice r))"] c k t by simp
  ultimately show ?thesis by simp
qed

lemma sort_discovered_key:
  assumes "\<And>x y. sgn (lc x y) = sgn (coll x - coll y)"
  shows "sort_discovered_rows lc rows choice = sort_key (row_key coll choice) rows"
  unfolding sort_discovered_rows_def by (rule to_sorted_key) (rule compare_rows_key [OF assms])

end
