(* ===== verification/RunReadings.thy ===== *)
theory RunReadings
  imports Decimal
begin

text \<open>
  How the browser writes a run's clock and spend (\<open>src/client/src/run-history/run-progress.ts\<close>). Milliseconds are
  integers and dollars reals; \<open>Date.parse\<close> of a measurement's time is an argument, \<open>None\<close> when the time does not
  parse.
\<close>

definition show_int :: "int \<Rightarrow> string" where
  "show_int n = (if n < 0 then CHR ''-'' # show_number (nat (- n)) else show_number (nat n))"

definition elapsed_reading :: "int \<Rightarrow> string" where
  "elapsed_reading elapsed_ms =
     (let total_seconds = elapsed_ms div 1000; total_minutes = total_seconds div 60
      in if total_seconds < 60 then show_int total_seconds @ ''s''
         else if total_minutes < 60 then show_int total_minutes @ ''m''
         else show_int (total_minutes div 60) @ ''h '' @ show_int (total_minutes mod 60) @ ''m'')"

definition pad_start :: "nat \<Rightarrow> char \<Rightarrow> string \<Rightarrow> string" where
  "pad_start n c s = replicate (n - length s) c @ s"

definition two_digits :: "int \<Rightarrow> string" where
  "two_digits value = pad_start 2 (CHR ''0'') (show_int value)"

text \<open>The remainders of a negative time would keep its sign; an elapsed time is not negative.\<close>

definition clock_reading :: "nat \<Rightarrow> string" where
  "clock_reading elapsed_ms =
     (let total_seconds = elapsed_ms div 1000; seconds = total_seconds mod 60; total_minutes = total_seconds div 60;
          minutes = total_minutes mod 60; hours = total_minutes div 60
      in if hours = 0 then two_digits (int minutes) @ '':'' @ two_digits (int seconds)
         else show_int (int hours) @ '':'' @ two_digits (int minutes) @ '':'' @ two_digits (int seconds))"

definition live_elapsed_ms :: "(string \<Rightarrow> int option) \<Rightarrow> int \<Rightarrow> string \<Rightarrow> int \<Rightarrow> int" where
  "live_elapsed_ms date_parse elapsed_ms measured_at now_ms =
     (case date_parse measured_at of
        None \<Rightarrow> elapsed_ms
      | Some measured \<Rightarrow> max elapsed_ms (elapsed_ms + (now_ms - measured)))"

text \<open>\<open>toFixed(2)\<close>: the nearest hundredth, the larger of two as near.\<close>

definition to_fixed_2 :: "real \<Rightarrow> string" where
  "to_fixed_2 x =
     (let n = nat \<lfloor>\<bar>x\<bar> * 100 + 1 / 2\<rfloor>
      in (if x < 0 then ''-'' else '''') @ show_number (n div 100) @ ''.'' @ pad_start 2 (CHR ''0'') (show_number (n mod 100)))"

definition spend_reading :: "real \<Rightarrow> string" where
  "spend_reading spent_usd = CHR ''$'' # to_fixed_2 spent_usd"

text \<open>The reading is read back to the second it was taken at.\<close>

definition clock_seconds :: "string \<Rightarrow> nat" where
  "clock_seconds s = foldl (\<lambda>a part. 60 * a + read_number part) 0 (split_on (CHR '':'') s)"

lemma show_int_nat [simp]: "show_int (int n) = show_number n"
  by (simp add: show_int_def)

lemma is_digit_zero: "is_digit (CHR ''0'')"
  by (simp add: is_digit_def)

lemma read_number_leading_zeros: "read_number (replicate n (CHR ''0'') @ s) = read_number s"
  by (induction n) (simp_all add: read_number_def digit_value_def)

lemma two_digits_value: "read_number (two_digits (int n)) = n \<and> list_all is_digit (two_digits (int n))"
  using show_number_digits [of n]
  by (auto simp: two_digits_def pad_start_def read_number_leading_zeros list_all_iff is_digit_zero)

lemma split_on_plain: "x \<notin> set s \<Longrightarrow> split_on x s = [s]"
  by (induction s) auto

lemma split_on_char_append: "x \<notin> set s \<Longrightarrow> split_on x (s @ x # t) = s # split_on x t"
  by (induction s) auto

lemma digits_no_colon: "list_all is_digit s \<Longrightarrow> CHR '':'' \<notin> set s"
  by (auto simp: list_all_iff is_digit_def)

lemma clock_reading_seconds: "clock_seconds (clock_reading elapsed_ms) = elapsed_ms div 1000"
proof -
  define t where "t = elapsed_ms div 1000"
  have h: "CHR '':'' \<notin> set (show_number n)" "CHR '':'' \<notin> set (two_digits (int n))" for n
    using digits_no_colon show_number_digits two_digits_value by blast+
  have v: "read_number (show_number n) = n" "read_number (two_digits (int n)) = n" for n
    using show_number_digits two_digits_value by blast+
  have "clock_reading elapsed_ms =
      (if t div 60 div 60 = 0 then two_digits (int (t div 60 mod 60)) @ CHR '':'' # two_digits (int (t mod 60))
       else show_number (t div 60 div 60) @ CHR '':'' # two_digits (int (t div 60 mod 60)) @ CHR '':'' # two_digits (int (t mod 60)))"
    by (simp add: clock_reading_def t_def Let_def)
  moreover have "60 * (60 * (t div 60 div 60) + t div 60 mod 60) + t mod 60 = t" by simp
  moreover have "t div 60 div 60 = 0 \<Longrightarrow> 60 * (t div 60 mod 60) + t mod 60 = t" by simp
  ultimately show ?thesis
    unfolding t_def [symmetric] clock_seconds_def by (simp add: split_on_char_append split_on_plain h v)
qed

lemma live_elapsed_floor: "elapsed_ms \<le> live_elapsed_ms date_parse elapsed_ms measured_at now_ms"
  by (simp add: live_elapsed_ms_def split: option.split)

end
