(* ===== verification/RunAnnouncements.thy ===== *)
theory RunAnnouncements
  imports RunDiscovery RunReadings
begin

text \<open>
  The runs in flight and what a screen reader is told of them between two readings of the run history
  (\<open>src/client/src/shell/run-in-flight.ts\<close>, and \<open>useAnnouncement\<close> of \<open>run-in-flight-bar.tsx\<close>, whose state is the
  listener below). A reading is the rows of one listing.
\<close>

definition run_rows :: "listed_row list \<Rightarrow> run_row list" where
  "run_rows rows = List.map_filter (\<lambda>r. case r of RunRow x \<Rightarrow> Some x | _ \<Rightarrow> None) rows"

definition CEILING_APPROACHED_SHARE :: real where
  "CEILING_APPROACHED_SHARE = 8 / 10"

definition in_flight :: "run_row \<Rightarrow> bool" where
  "in_flight row = (case rn_progress row of RunningProgress _ \<Rightarrow> True | RecordedProgress \<Rightarrow> False)"

definition runs_in_flight :: "(string \<Rightarrow> string \<Rightarrow> real) \<Rightarrow> listed_row list \<Rightarrow> run_row list" where
  "runs_in_flight lc rows = to_sorted (\<lambda>left right. lc (rn_run right) (rn_run left)) (filter in_flight (run_rows rows))"

record step =
  sp_number :: nat
  sp_of :: nat

definition step_named :: "run_row \<Rightarrow> string \<Rightarrow> step option" where
  "step_named row stage =
     (case rn_stage_grades row of
        Unavailable _ \<Rightarrow> None
      | Available grades \<Rightarrow>
          map_option (\<lambda>i. \<lparr>sp_number = i + 1, sp_of = length grades\<rparr>) (find_index (\<lambda>g. lg_stage g = stage) grades))"

definition step_of :: "run_row \<Rightarrow> step option" where
  "step_of row = (case rn_progress row of RecordedProgress \<Rightarrow> None | RunningProgress p \<Rightarrow> step_named row (pg_stage p))"

definition grades_so_far :: "run_row \<Rightarrow> string list" where
  "grades_so_far row =
     (case rn_stage_grades row of
        Unavailable _ \<Rightarrow> []
      | Available grades \<Rightarrow>
          List.map_filter (\<lambda>g. case lg_grade g of Available f \<Rightarrow> Some (gf_letter f) | Unavailable _ \<Rightarrow> None) grades)"

definition name_of :: "run_row \<Rightarrow> string" where
  "name_of row = default_to (rn_run row) (rn_short_id row)"

definition name_within_case :: "run_row \<Rightarrow> string" where
  "name_within_case row = within_case (name_of row) (rn_case_id row)"

definition step_words :: "step option \<Rightarrow> string" where
  "step_words s =
     (case s of None \<Rightarrow> '''' | Some t \<Rightarrow> '' step '' @ show_number (sp_number t) @ '' of '' @ show_number (sp_of t))"

subsection \<open>Stages accepted\<close>

text \<open>Whether the stage at an index is before the running one; none is when the running stage is not listed.\<close>

definition before_running :: "run_row \<Rightarrow> listed_stage_grade list \<Rightarrow> nat \<Rightarrow> bool" where
  "before_running row grades i =
     (case rn_progress row of
        RecordedProgress \<Rightarrow> i < length grades
      | RunningProgress p \<Rightarrow>
          (case find_index (\<lambda>g. lg_stage g = pg_stage p) grades of None \<Rightarrow> False | Some k \<Rightarrow> i < k))"

definition stopped_at :: "run_row \<Rightarrow> string option" where
  "stopped_at row = (if is_stopped (rn_status row) then Some (stopped_stage_name (rn_status row)) else None)"

definition stages_accepted :: "run_row \<Rightarrow> string set" where
  "stages_accepted row =
     (case rn_stage_grades row of
        Unavailable _ \<Rightarrow> {}
      | Available grades \<Rightarrow>
          set (map (\<lambda>(i, g). lg_stage g)
            (filter (\<lambda>(i, g). is_available (lg_grade g) \<and> before_running row grades i \<and> Some (lg_stage g) \<noteq> stopped_at row)
              (enumerate 0 grades))))"

text \<open>The grades \<open>acceptedStages\<close> speaks of, in pipeline order.\<close>

definition newly_accepted :: "run_row \<Rightarrow> run_row \<Rightarrow> (string \<times> string) list" where
  "newly_accepted earlier later =
     (case rn_stage_grades later of
        Unavailable _ \<Rightarrow> []
      | Available grades \<Rightarrow>
          List.map_filter
            (\<lambda>g. case lg_grade g of
                   Available f \<Rightarrow>
                     if lg_stage g \<in> stages_accepted later \<and> lg_stage g \<notin> stages_accepted earlier
                     then Some (lg_stage g, gf_letter f) else None
                 | Unavailable _ \<Rightarrow> None)
            grades)"

definition acceptance_text :: "run_row \<Rightarrow> string \<Rightarrow> string \<Rightarrow> string" where
  "acceptance_text row stage letter =
     name_of row @ step_words (step_named row stage) @ '' continued: '' @ stage @ '' '' @ letter"

definition accepted_stages :: "run_row \<Rightarrow> run_row \<Rightarrow> string list" where
  "accepted_stages earlier later =
     map (\<lambda>(stage, letter). acceptance_text later stage letter) (newly_accepted earlier later)"

definition stop_words :: "run_row \<Rightarrow> string list" where
  "stop_words row =
     (if is_stopped (rn_status row)
      then [name_of row @ '' stopped at'' @ step_words (step_named row (stopped_stage_name (rn_status row))) @ '': ''
              @ stopped_stage_name (rn_status row)]
      else if rn_status row = OPERATOR_STOPPED then [name_of row @ '' stopped by the operator'']
      else [])"

subsection \<open>The ceiling\<close>

definition approached_ceiling :: "run_row \<Rightarrow> (real \<times> real) option" where
  "approached_ceiling row =
     (case rn_progress row of
        RecordedProgress \<Rightarrow> None
      | RunningProgress p \<Rightarrow>
          (case (pg_run_spent_usd p, pg_ceiling_usd p) of
             (Some spent, Some limit) \<Rightarrow>
               if limit * CEILING_APPROACHED_SHARE \<le> spent then Some (spent, limit) else None
           | _ \<Rightarrow> None))"

definition ceiling_text :: "run_row \<Rightarrow> real \<Rightarrow> real \<Rightarrow> string" where
  "ceiling_text row spent limit =
     name_of row @ '' has spent '' @ spend_reading spent @ '' of its '' @ spend_reading limit @ '' ceiling''"

definition ceiling_words :: "run_row \<Rightarrow> run_row \<Rightarrow> string list" where
  "ceiling_words earlier later =
     (case approached_ceiling later of
        None \<Rightarrow> []
      | Some (spent, limit) \<Rightarrow>
          if approached_ceiling earlier \<noteq> None then []
          else [ceiling_text later spent limit])"

subsection \<open>What is said\<close>

text \<open>\<open>new Map\<close> of the runs in flight by run: of two of one run the later one stays.\<close>

definition by_run :: "run_row list \<Rightarrow> string \<Rightarrow> run_row option" where
  "by_run rows = map_of (rev (map (\<lambda>r. (rn_run r, r)) rows))"

definition said_of :: "run_row \<Rightarrow> run_row \<Rightarrow> string list" where
  "said_of earlier later = accepted_stages earlier later @ stop_words later @ ceiling_words earlier later"

definition announcements :: "(string \<Rightarrow> string \<Rightarrow> real) \<Rightarrow> listed_row list \<Rightarrow> listed_row list \<Rightarrow> string list" where
  "announcements lc earlier later =
     concat (map (\<lambda>r. case r of
        RunRow x \<Rightarrow>
          (case by_run (runs_in_flight lc earlier) (rn_run x) of
             None \<Rightarrow> []
           | Some previous \<Rightarrow> said_of previous x)
      | _ \<Rightarrow> []) later)"

definition grades_known :: "run_row list \<Rightarrow> string \<Rightarrow> listed_stage_grade list reading option" where
  "grades_known rows =
     map_of (rev (map (\<lambda>r. (rn_run r, rn_stage_grades r)) (filter (\<lambda>r. is_available (rn_stage_grades r)) rows)))"

definition with_grades_known_before :: "(string \<Rightarrow> string \<Rightarrow> real) \<Rightarrow> listed_row list \<Rightarrow> listed_row list \<Rightarrow> listed_row list" where
  "with_grades_known_before lc earlier later =
     map (\<lambda>r. case r of
        RunRow x \<Rightarrow>
          (case grades_known (runs_in_flight lc earlier) (rn_run x) of
             None \<Rightarrow> r
           | Some grades \<Rightarrow> if is_available (rn_stage_grades x) then r else RunRow (x\<lparr>rn_stage_grades := grades\<rparr>))
      | _ \<Rightarrow> r) later"

text \<open>The state of the live region; a reading with the rows last seen is not a new one.\<close>

record listener =
  ln_seen :: "listed_row list"
  ln_previous :: "listed_row list"
  ln_message :: string

definition start_listening :: "listed_row list \<Rightarrow> listener" where
  "start_listening rows = \<lparr>ln_seen = rows, ln_previous = rows, ln_message = ''''\<rparr>"

definition hear :: "(string \<Rightarrow> string \<Rightarrow> real) \<Rightarrow> listener \<Rightarrow> listed_row list \<Rightarrow> listener" where
  "hear lc l rows =
     (if ln_seen l = rows then l
      else \<lparr>ln_seen = rows, ln_previous = with_grades_known_before lc (ln_previous l) rows,
            ln_message = (let said = announcements lc (ln_previous l) rows
                          in if said = [] then ln_message l else join_with ''. '' said)\<rparr>)"

subsection \<open>What an announcement speaks of\<close>

lemma run_rows_iff [simp]: "x \<in> set (run_rows rows) \<longleftrightarrow> RunRow x \<in> set rows"
proof -
  have "(case r of RunRow y \<Rightarrow> Some y | _ \<Rightarrow> None) = Some x \<longleftrightarrow> r = RunRow x" for r
    by (cases r) auto
  then show ?thesis unfolding run_rows_def set_map_filter by auto
qed

lemma runs_in_flight_iff [simp]: "x \<in> set (runs_in_flight lc rows) \<longleftrightarrow> RunRow x \<in> set rows \<and> in_flight x"
  by (auto simp: runs_in_flight_def)

lemma distinct_runs_in_flight:
  assumes "distinct (map rn_run (run_rows rows))"
  shows "distinct (map rn_run (runs_in_flight lc rows))"
proof -
  have "mset (map rn_run (runs_in_flight lc rows)) = mset (map rn_run (filter in_flight (run_rows rows)))"
    by (simp add: runs_in_flight_def)
  then show ?thesis using assms by (metis distinct_map_filter mset_eq_imp_distinct_iff)
qed

lemma map_of_rev_by:
  assumes "distinct (map f rows)"
  shows "map_of (rev (map (\<lambda>r. (f r, g r)) rows)) k = Some v \<longleftrightarrow> (\<exists>r \<in> set rows. f r = k \<and> g r = v)"
proof -
  have "distinct (map fst (rev (map (\<lambda>r. (f r, g r)) rows)))"
    using assms by (simp add: rev_map [symmetric] comp_def)
  then show ?thesis by (auto simp: map_of_eq_Some_iff)
qed

lemma by_run_iff:
  assumes "distinct (map rn_run (run_rows rows))"
  shows "by_run (runs_in_flight lc rows) k = Some x \<longleftrightarrow> RunRow x \<in> set rows \<and> in_flight x \<and> rn_run x = k"
  unfolding by_run_def using map_of_rev_by [OF distinct_runs_in_flight [OF assms], where g = "\<lambda>r. r" and k = k and v = x] by auto


text \<open>A stage the run has been graded at and moved past.\<close>

definition accepted_in :: "run_row \<Rightarrow> string \<Rightarrow> bool" where
  "accepted_in row stage \<longleftrightarrow>
     (\<exists>grades i. rn_stage_grades row = Available grades \<and> i < length grades \<and>
        lg_stage (grades ! i) = stage \<and> is_available (lg_grade (grades ! i)) \<and>
        before_running row grades i \<and> Some stage \<noteq> stopped_at row)"

lemma stages_accepted_iff: "stage \<in> stages_accepted row \<longleftrightarrow> accepted_in row stage"
  by (force simp: stages_accepted_def accepted_in_def in_set_enumerate_eq split: reading.splits)

lemma newly_accepted_iff:
  "(stage, letter) \<in> set (newly_accepted x y) \<longleftrightarrow>
   (\<exists>grades g f. rn_stage_grades y = Available grades \<and> g \<in> set grades \<and> lg_stage g = stage \<and> lg_grade g = Available f \<and>
      gf_letter f = letter \<and> accepted_in y stage \<and> \<not> accepted_in x stage)"
proof -
  have "(case lg_grade g of
           Available f \<Rightarrow> if lg_stage g \<in> stages_accepted y \<and> lg_stage g \<notin> stages_accepted x then Some (lg_stage g, gf_letter f) else None
         | Unavailable _ \<Rightarrow> None) = Some (stage, letter) \<longleftrightarrow>
      (\<exists>f. lg_stage g = stage \<and> lg_grade g = Available f \<and> gf_letter f = letter \<and> accepted_in y stage \<and> \<not> accepted_in x stage)" for g
    by (cases "lg_grade g") (auto simp: stages_accepted_iff)
  then show ?thesis
    by (cases "rn_stage_grades y") (auto simp: newly_accepted_def set_map_filter)
qed

lemma newly_accepted_same: "newly_accepted x x = []"
proof -
  have "p \<notin> set (newly_accepted x x)" for p
    using newly_accepted_iff [of "fst p" "snd p" x x] by simp
  then show ?thesis by (cases "newly_accepted x x") (metis list.set_intros(1))+
qed


lemma accepted_stages_iff:
  "text \<in> set (accepted_stages x y) \<longleftrightarrow>
   (\<exists>stage letter. (stage, letter) \<in> set (newly_accepted x y) \<and>
      text = acceptance_text y stage letter)"
  by (force simp: accepted_stages_def)

lemma ceiling_words_iff:
  "text \<in> set (ceiling_words x y) \<longleftrightarrow>
   (\<exists>spent limit. approached_ceiling y = Some (spent, limit) \<and> approached_ceiling x = None \<and>
      text = ceiling_text y spent limit)"
  by (cases "approached_ceiling y"; cases "approached_ceiling x") (auto simp: ceiling_words_def)

lemma set_announcements:
  assumes "distinct (map rn_run (run_rows earlier))"
  shows "text \<in> set (announcements lc earlier later) \<longleftrightarrow>
    (\<exists>x y. RunRow x \<in> set earlier \<and> in_flight x \<and> RunRow y \<in> set later \<and> rn_run x = rn_run y \<and> text \<in> set (said_of x y))"
proof -
  define said where "said = (\<lambda>r. case r of
        RunRow y \<Rightarrow> (case by_run (runs_in_flight lc earlier) (rn_run y) of None \<Rightarrow> [] | Some previous \<Rightarrow> said_of previous y)
      | _ \<Rightarrow> [])"
  have each: "text \<in> set (said r) \<longleftrightarrow>
    (\<exists>x y. r = RunRow y \<and> RunRow x \<in> set earlier \<and> in_flight x \<and> rn_run x = rn_run y \<and> text \<in> set (said_of x y))" for r
  proof (cases r)
    case (RunRow y)
    show ?thesis
    proof (cases "by_run (runs_in_flight lc earlier) (rn_run y)")
      case None
      then have "\<not> (RunRow x \<in> set earlier \<and> in_flight x \<and> rn_run x = rn_run y)" for x
        using by_run_iff [OF assms, of lc "rn_run y" x] by simp
      then show ?thesis using RunRow None by (auto simp: said_def)
    next
      case (Some x)
      then have u: "z = x \<longleftrightarrow> RunRow z \<in> set earlier \<and> in_flight z \<and> rn_run z = rn_run y" for z
        by (metis by_run_iff [OF assms] option.inject)
      have "text \<in> set (case r of
            RunRow y \<Rightarrow> (case by_run (runs_in_flight lc earlier) (rn_run y) of None \<Rightarrow> [] | Some previous \<Rightarrow> said_of previous y)
          | _ \<Rightarrow> []) \<longleftrightarrow> text \<in> set (said_of x y)"
        using RunRow Some by simp
      also have "\<dots> \<longleftrightarrow> (\<exists>z. (RunRow z \<in> set earlier \<and> in_flight z \<and> rn_run z = rn_run y) \<and> text \<in> set (said_of z y))"
        unfolding u [symmetric] by simp
      also have "\<dots> \<longleftrightarrow> (\<exists>x y. r = RunRow y \<and> RunRow x \<in> set earlier \<and> in_flight x \<and> rn_run x = rn_run y \<and> text \<in> set (said_of x y))"
        unfolding \<open>r = RunRow y\<close> by blast
      finally show ?thesis by (simp only: said_def)
    qed
  qed (simp_all add: said_def)
  have "text \<in> set (announcements lc earlier later) \<longleftrightarrow> (\<exists>r \<in> set later. text \<in> set (said r))"
    by (simp add: announcements_def said_def)
  then show ?thesis unfolding each by blast
qed

subsection \<open>Grades a reading lacks\<close>

definition kept_row :: "(string \<Rightarrow> string \<Rightarrow> real) \<Rightarrow> listed_row list \<Rightarrow> run_row \<Rightarrow> run_row" where
  "kept_row lc earlier y =
     (case grades_known (runs_in_flight lc earlier) (rn_run y) of
        None \<Rightarrow> y
      | Some grades \<Rightarrow> if is_available (rn_stage_grades y) then y else y\<lparr>rn_stage_grades := grades\<rparr>)"

lemma kept_row_run [simp]: "rn_run (kept_row lc earlier y) = rn_run y"
  by (simp add: kept_row_def split: option.split)















text \<open>Between two readings of the run history a screen reader is told of the runs the earlier reading had in flight,
and of no other: that a stage was accepted, with its letter, exactly when the later reading has it graded and passed
and the earlier one had not; that the run stopped, and at which stage; and that its spend has reached four fifths of
its ceiling, exactly when it had not at the earlier reading.\<close>

theorem announcements_exact:
  assumes "distinct (map rn_run (run_rows earlier))"
  shows "text \<in> set (announcements lc earlier later) \<longleftrightarrow>
    (\<exists>x y. RunRow x \<in> set earlier \<and> in_flight x \<and> RunRow y \<in> set later \<and> rn_run x = rn_run y \<and>
       ((\<exists>grades g f. rn_stage_grades y = Available grades \<and> g \<in> set grades \<and> lg_grade g = Available f \<and>
           accepted_in y (lg_stage g) \<and> \<not> accepted_in x (lg_stage g) \<and> text = acceptance_text y (lg_stage g) (gf_letter f)) \<or>
        text \<in> set (stop_words y) \<or>
        (\<exists>spent limit. approached_ceiling y = Some (spent, limit) \<and> approached_ceiling x = None \<and> text = ceiling_text y spent limit)))"
proof -
  have "text \<in> set (accepted_stages x y) \<longleftrightarrow>
      (\<exists>grades g f. rn_stage_grades y = Available grades \<and> g \<in> set grades \<and> lg_grade g = Available f \<and>
         accepted_in y (lg_stage g) \<and> \<not> accepted_in x (lg_stage g) \<and> text = acceptance_text y (lg_stage g) (gf_letter f))" for x y
    unfolding accepted_stages_iff newly_accepted_iff by blast
  then show ?thesis unfolding set_announcements [OF assms] said_of_def set_append Un_iff ceiling_words_iff by simp
qed


subsection \<open>A run of two stages\<close>

definition sample_grade :: "string \<Rightarrow> grade_figure reading \<Rightarrow> listed_stage_grade" where
  "sample_grade stage grade = \<lparr>lg_stage = stage, lg_status = None, lg_grade = grade\<rparr>"

definition plan_graded :: "listed_stage_grade list reading" where
  "plan_graded = Available
     [sample_grade ''plan'' (Available \<lparr>gf_letter = ''B'', gf_reaches_minimum = True, gf_verdict = ''CONTINUE''\<rparr>),
      sample_grade ''build'' (Unavailable [])]"

definition sample_run :: "string \<Rightarrow> listed_stage_grade list reading \<Rightarrow> run_row" where
  "sample_run stage grades =
     \<lparr>rn_record_id = ''run:r'', rn_run = ''r'', rn_short_id = None, rn_checkpoints = [], rn_replayable_stages = [], rn_case_id = None,
      rn_status = ''RUNNING'', rn_stage = None, rn_grade = None, rn_corpus_version = None, rn_corpus_changed = False,
      rn_progress = RunningProgress
        \<lparr>pg_stage = stage, pg_stage_state = '''', pg_elapsed_ms = 0, pg_stage_elapsed_ms = None, pg_measured_at = '''',
         pg_spent_usd = 0, pg_spend_scope = '''', pg_run_spent_usd = None, pg_run_tokens = None, pg_ceiling_usd = None, pg_judge = None\<rparr>,
      rn_links = [], rn_stage_grades = grades, rn_final_outcome = Unavailable [], rn_cost = Unavailable [],
      rn_wall_time = Unavailable [], rn_minimum_grade = Unavailable [], rn_fired_blockers = Unavailable [], rn_launch_id = None\<rparr>"

lemma run_rows_one [simp]: "run_rows [RunRow x] = [x]"
  by (simp add: run_rows_def List.map_filter_simps)

lemma sample_run_simps [simp]:
  "rn_run (sample_run stage grades) = ''r''" "in_flight (sample_run stage grades)"
  "rn_stage_grades (sample_run stage grades) = grades" "rn_status (sample_run stage grades) = ''RUNNING''"
  by (simp_all add: sample_run_def in_flight_def)

lemma sample_run_eqs [simp]:
  "sample_run stage grades = sample_run stage' grades' \<longleftrightarrow> stage = stage' \<and> grades = grades'"
  "(sample_run stage grades)\<lparr>rn_stage_grades := grades'\<rparr> = sample_run stage grades'"
  by (auto simp: sample_run_def)

lemma plan_graded_available [simp]: "is_available plan_graded" "plan_graded \<noteq> Unavailable rs"
  by (simp_all add: plan_graded_def)

lemma sample_before_running:
  "before_running (sample_run ''plan'' grades) [sample_grade ''plan'' g, sample_grade ''build'' h] i \<longleftrightarrow> False"
  "before_running (sample_run ''build'' grades) [sample_grade ''plan'' g, sample_grade ''build'' h] i \<longleftrightarrow> i = 0"
  by (simp_all add: before_running_def sample_run_def sample_grade_def)

lemma running_not_stopped [simp]: "\<not> is_stopped ''RUNNING''"
  by (simp add: is_stopped_def STOPPED_PREFIX_def)

lemma sample_accepted:
  "accepted_in (sample_run ''build'' plan_graded) ''plan''" "\<not> accepted_in (sample_run ''plan'' plan_graded) stage"
  by (simp_all add: accepted_in_def plan_graded_def sample_before_running stopped_at_def) (simp add: sample_grade_def)

theorem announcements_exact_witness:
  "acceptance_text (sample_run ''build'' plan_graded) ''plan'' ''B''
     \<in> set (announcements (\<lambda>x y. 0) [RunRow (sample_run ''plan'' plan_graded)] [RunRow (sample_run ''build'' plan_graded)])"
proof -
  have "\<exists>grades g f. rn_stage_grades (sample_run ''build'' plan_graded) = Available grades \<and> g \<in> set grades \<and> lg_grade g = Available f \<and>
      lg_stage g = ''plan'' \<and> gf_letter f = ''B''"
    unfolding sample_run_simps plan_graded_def sample_grade_def by auto
  then show ?thesis
    using announcements_exact [of "[RunRow (sample_run ''plan'' plan_graded)]" "acceptance_text (sample_run ''build'' plan_graded) ''plan'' ''B''"
        "\<lambda>x y. 0" "[RunRow (sample_run ''build'' plan_graded)]"] sample_accepted by fastforce
qed


text \<open>A stage the run moves past while its grades are not read is never announced: the row kept for the next reading
takes the grades last read, with the run's later place.\<close>

theorem unread_acceptance_missed:
  "ln_message (foldl (hear lc) (start_listening [RunRow (sample_run ''plan'' plan_graded)])
     [[RunRow (sample_run ''build'' (Unavailable []))], [RunRow (sample_run ''build'' plan_graded)]]) = []"
  "''plan'' \<in> stages_accepted (sample_run ''build'' plan_graded)" "''plan'' \<notin> stages_accepted (sample_run ''plan'' plan_graded)"
proof -
  have "newly_accepted x (sample_run ''build'' (Unavailable [])) = []" for x
    by (simp add: newly_accepted_def)
  moreover have "newly_accepted (sample_run ''build'' plan_graded) (sample_run ''build'' plan_graded) = []"
    by (rule newly_accepted_same)
  moreover have "ceiling_words x (sample_run stage grades) = []" "stop_words (sample_run stage grades) = []" for x stage grades
    by (simp_all add: ceiling_words_def approached_ceiling_def stop_words_def OPERATOR_STOPPED_def) (simp add: sample_run_def)
  ultimately show "ln_message (foldl (hear lc) (start_listening [RunRow (sample_run ''plan'' plan_graded)])
     [[RunRow (sample_run ''build'' (Unavailable []))], [RunRow (sample_run ''build'' plan_graded)]]) = []"
    by (simp add: start_listening_def hear_def with_grades_known_before_def grades_known_def runs_in_flight_def
        announcements_def by_run_def said_of_def accepted_stages_def)
qed (simp_all add: stages_accepted_iff sample_accepted)

end
