(* ===== verification/InvalidatedRows.thy ===== *)
theory InvalidatedRows
  imports RunRows
begin

text \<open>
  The results an edit of the corpus invalidated, as the run history lists them for an address that names the edit
  (\<open>invalidated-by.ts\<close>, \<open>invalidated-selection.ts\<close> under \<open>src/client/src/run-history\<close>; the last edit is
  \<open>LastEdit\<close> of \<open>src/src/benchmark/corpus-invalidation.ts\<close>).
\<close>

subsection \<open>The edit an address names\<close>

record edit_versions =
  ev_previous :: string
  ev_current :: string

definition invalidated_by_value :: "edit_versions \<Rightarrow> string" where
  "invalidated_by_value e = ev_previous e @ ''..'' @ ev_current e"

definition lower_hex :: "char \<Rightarrow> bool" where
  "lower_hex c \<longleftrightarrow>
     (let n = (of_char c :: nat) in 48 \<le> n \<and> n \<le> 57 \<or> 97 \<le> n \<and> n \<le> 102)"

definition full_version :: "string \<Rightarrow> bool" where
  "full_version v \<longleftrightarrow> length v = 64 \<and> list_all lower_hex v"

definition edit_named_by :: "string \<Rightarrow> edit_versions option" where
  "edit_named_by value =
     (if full_version (take 64 value) \<and> take 2 (drop 64 value) = ''..'' \<and> full_version (drop 66 value)
      then Some \<lparr>ev_previous = take 64 value, ev_current = drop 66 value\<rparr> else None)"

lemma edit_named_by_iff:
  "edit_named_by value = Some e \<longleftrightarrow>
   full_version (ev_previous e) \<and> full_version (ev_current e) \<and> value = invalidated_by_value e"
proof
  assume "edit_named_by value = Some e"
  then have v: "full_version (take 64 value)" "full_version (drop 66 value)" "take 2 (drop 64 value) = ''..''"
    and e: "e = \<lparr>ev_previous = take 64 value, ev_current = drop 66 value\<rparr>"
    by (auto simp: edit_named_by_def split: if_splits)
  have "value = take 64 value @ take 2 (drop 64 value) @ drop 2 (drop 64 value)"
    by (metis append_take_drop_id)
  then have "value = take 64 value @ ''..'' @ drop 66 value" using v(3) by simp
  with v e show "full_version (ev_previous e) \<and> full_version (ev_current e) \<and> value = invalidated_by_value e"
    by (auto simp: invalidated_by_value_def simp del: append_Cons append_Nil)
next
  assume "full_version (ev_previous e) \<and> full_version (ev_current e) \<and> value = invalidated_by_value e"
  then show "edit_named_by value = Some e"
    by (cases e) (auto simp: edit_named_by_def invalidated_by_value_def full_version_def)
qed

subsection \<open>What is listed for it\<close>

datatype 'body read_state = ReadLoading | ReadFailed | ReadLoaded 'body

record measured_edit = edit_versions +
  ed_count :: nat
  ed_rows :: "string list"

datatype last_edit = EditMeasured measured_edit | EditNotRecorded string

record missing_row =
  mr_id :: string
  mr_reason :: "string option"

datatype invalidated_selection =
    Unanswered string
  | MovedOn edit_versions
  | ListedSelection edit_versions nat "row list" "missing_row list"

definition same_edit :: "edit_versions \<Rightarrow> edit_versions \<Rightarrow> bool" where
  "same_edit named latest \<longleftrightarrow> ev_previous named = ev_previous latest \<and> ev_current named = ev_current latest"

text \<open>The ellipsis, in UTF-8.\<close>

definition ELLIPSIS :: string where
  "ELLIPSIS = [CHR 0xE2, CHR 0x80, CHR 0xA6]"

definition recorded_id :: "row \<Rightarrow> string" where
  "recorded_id r = row_record_id (rw_listed r)"

definition listed_selection :: "measured_edit \<Rightarrow> run_history_report \<Rightarrow> invalidated_selection" where
  "listed_selection last_edit runs =
     ListedSelection (edit_versions.truncate last_edit) (ed_count last_edit)
       (filter (\<lambda>r. recorded_id r \<in> set (ed_rows last_edit)) (hr_rows runs))
       (map (\<lambda>id. \<lparr>mr_id = id, mr_reason = map_option ud_reason (List.find (\<lambda>u. ud_id u = id) (hr_unreadable runs))\<rparr>)
         (filter (\<lambda>id. id \<notin> recorded_id ` set (hr_rows runs)) (ed_rows last_edit)))"

definition selection_for_edit :: "edit_versions \<Rightarrow> last_edit \<Rightarrow> run_history_report read_state \<Rightarrow> invalidated_selection" where
  "selection_for_edit named last_edit runs =
     (case last_edit of
        EditNotRecorded reason \<Rightarrow>
          Unanswered (''The last edit is not recorded, so no result is listed as invalidated: '' @ reason)
      | EditMeasured edit \<Rightarrow>
          if \<not> same_edit named (edit_versions.truncate edit) then MovedOn (edit_versions.truncate edit)
          else (case runs of
                  ReadLoading \<Rightarrow> Unanswered (''Reading run history'' @ ELLIPSIS)
                | ReadFailed \<Rightarrow> Unanswered ''Could not load run history, so no result is listed as invalidated.''
                | ReadLoaded body \<Rightarrow> listed_selection edit body))"

definition invalidated_selection :: "string \<Rightarrow> last_edit read_state \<Rightarrow> run_history_report read_state \<Rightarrow> invalidated_selection" where
  "invalidated_selection value corpus runs =
     (case edit_named_by value of
        None \<Rightarrow> Unanswered ''The address names no edit, so no result is listed as invalidated by it.''
      | Some named \<Rightarrow>
          (case corpus of
             ReadLoading \<Rightarrow> Unanswered (''Reading the last edit'' @ ELLIPSIS)
           | ReadFailed \<Rightarrow> Unanswered ''Could not load the corpus report, so no result is listed as invalidated.''
           | ReadLoaded last_edit \<Rightarrow> selection_for_edit named last_edit runs))"

lemma listed_iff:
  "invalidated_selection value corpus runs = ListedSelection edit n rows missing \<longleftrightarrow>
   (\<exists>e body. edit_named_by value = Some (edit_versions.truncate e) \<and> corpus = ReadLoaded (EditMeasured e) \<and>
      runs = ReadLoaded body \<and> listed_selection e body = ListedSelection edit n rows missing)"
proof
  assume "invalidated_selection value corpus runs = ListedSelection edit n rows missing"
  then show "\<exists>e body. edit_named_by value = Some (edit_versions.truncate e) \<and> corpus = ReadLoaded (EditMeasured e) \<and>
      runs = ReadLoaded body \<and> listed_selection e body = ListedSelection edit n rows missing"
    by (auto simp: invalidated_selection_def selection_for_edit_def same_edit_def edit_versions.truncate_def
        split: option.splits read_state.splits last_edit.splits if_splits)
qed (auto simp: invalidated_selection_def selection_for_edit_def same_edit_def)

end
