(* ===== verification/HistoryListing.thy ===== *)
theory HistoryListing
  imports RunAnnouncements InvalidatedRows
begin

text \<open>
  What the history screen lists (\<open>history-listing-selection.tsx\<close>, \<open>selectedHistory\<close> of \<open>use-history-view.ts\<close>,
  \<open>listedEntryCount\<close> of \<open>run-history-query.ts\<close>, \<open>somethingRuns\<close> of \<open>run-history-polling.ts\<close>, under
  \<open>src/client/src/run-history\<close>): the rows a search keeps of the history, or of the selection an address names,
  in the order the search asks for, and the launches beside them.
\<close>

record listed_history =
  lh_rows :: "row list"
  lh_launches :: "launch_row list"

definition selected_rows :: "invalidated_selection \<Rightarrow> row list" where
  "selected_rows selection = (case selection of ListedSelection _ _ rows _ \<Rightarrow> rows | _ \<Rightarrow> [])"

definition listed_records ::
    "(string \<Rightarrow> string \<Rightarrow> real) \<Rightarrow> invalidated_selection option \<Rightarrow> listed_history \<Rightarrow> discovery_search \<Rightarrow> listed_history" where
  "listed_records lc selection records discovery =
     (case selection of
        Some s \<Rightarrow>
          \<lparr>lh_rows = sort_discovered_rows lc (filter (\<lambda>r. matches_discovery r discovery) (selected_rows s)) (ds_sort discovery),
           lh_launches = []\<rparr>
      | None \<Rightarrow>
          \<lparr>lh_rows = sort_discovered_rows lc (filter (\<lambda>r. matches_discovery r discovery) (lh_rows records)) (ds_sort discovery),
           lh_launches = filter (\<lambda>l. launch_matches_discovery l discovery) (lh_launches records)\<rparr>)"

definition says_nothing_listed :: "invalidated_selection option \<Rightarrow> listed_history \<Rightarrow> bool" where
  "says_nothing_listed selection listed =
     (let selection_says_why =
            (case selection of
               None \<Rightarrow> False
             | Some (ListedSelection _ _ rows _) \<Rightarrow> rows = []
             | Some _ \<Rightarrow> True)
      in \<not> selection_says_why \<and> lh_rows listed = [] \<and> lh_launches listed = [])"

definition waits_for_corpus_filter :: "bool \<Rightarrow> corpus_filter option \<Rightarrow> bool" where
  "waits_for_corpus_filter pending corpus \<longleftrightarrow> pending \<and> corpus \<noteq> None \<and> corpus \<noteq> Some AnyCorpus"

definition listed_entry_count :: "listed_history \<Rightarrow> nat" where
  "listed_entry_count history = length (lh_rows history) + length (lh_launches history)"

definition something_runs :: "run_listing option \<Rightarrow> bool" where
  "something_runs response =
     (case response of
        None \<Rightarrow> False
      | Some r \<Rightarrow>
          list_ex (\<lambda>l. la_status l = LaunchRunning) (hr_launches r) \<or>
          list_ex (\<lambda>row. case row of RunRow x \<Rightarrow> (case rn_progress x of RunningProgress _ \<Rightarrow> True | _ \<Rightarrow> False) | _ \<Rightarrow> False) (hr_rows r))"

definition RUNNING_POLL_MS :: nat where
  "RUNNING_POLL_MS = 2000"

definition IDLE_POLL_MS :: nat where
  "IDLE_POLL_MS = 10000"

definition poll_interval :: "run_listing option \<Rightarrow> nat" where
  "poll_interval data = (if something_runs data then RUNNING_POLL_MS else IDLE_POLL_MS)"

text \<open>The view of a reading: no data is what a history not read yet shows. \<open>freshness_pending\<close> and success are the query's.\<close>

record selected_history_view =
  sh_history :: listed_history
  sh_rows :: "row list"
  sh_launches :: "launch_row list"
  sh_active_launches :: "launch_row list"
  sh_ended_launches :: "launch_row list"
  sh_unreadable :: "unreadable_record list"
  sh_listable :: bool
  sh_waiting_for_filter :: bool
  sh_nothing_listed :: bool

record history_query =
  hq_data :: "run_history_report option"
  hq_success :: bool
  hq_freshness_pending :: bool

definition queried_history :: "history_query \<Rightarrow> listed_history" where
  "queried_history q =
     (case hq_data q of
        None \<Rightarrow> \<lparr>lh_rows = [], lh_launches = []\<rparr>
      | Some r \<Rightarrow> \<lparr>lh_rows = hr_rows r, lh_launches = hr_launches r\<rparr>)"

definition selected_history ::
    "(string \<Rightarrow> string \<Rightarrow> real) \<Rightarrow> history_query \<Rightarrow> invalidated_selection option \<Rightarrow> discovery_search \<Rightarrow> selected_history_view" where
  "selected_history lc q selection discovery =
     (let history = queried_history q;
          listed = listed_records lc selection history discovery;
          waiting = waits_for_corpus_filter (hq_freshness_pending q) (ds_corpus discovery)
      in \<lparr>sh_history = history, sh_rows = lh_rows listed, sh_launches = lh_launches listed,
          sh_active_launches = filter (\<lambda>l. la_status l = LaunchRunning) (lh_launches listed),
          sh_ended_launches = filter (\<lambda>l. la_status l \<noteq> LaunchRunning) (lh_launches listed),
          sh_unreadable = (case hq_data q of None \<Rightarrow> [] | Some r \<Rightarrow> hr_unreadable r),
          sh_listable = 0 < listed_entry_count history, sh_waiting_for_filter = waiting,
          sh_nothing_listed = hq_success q \<and> \<not> waiting \<and> says_nothing_listed selection listed\<rparr>)"

subsection \<open>The listing\<close>

definition unsorted_rows :: "invalidated_selection option \<Rightarrow> listed_history \<Rightarrow> row list" where
  "unsorted_rows selection records = (case selection of Some s \<Rightarrow> selected_rows s | None \<Rightarrow> lh_rows records)"

lemma listed_rows:
  "lh_rows (listed_records lc selection records discovery) =
   sort_discovered_rows lc (filter (\<lambda>r. matches_discovery r discovery) (unsorted_rows selection records)) (ds_sort discovery)"
  by (simp add: listed_records_def unsorted_rows_def split: option.split)

lemma mset_listed_rows:
  "mset (lh_rows (listed_records lc selection records discovery)) =
   filter_mset (\<lambda>r. matches_discovery r discovery) (mset (unsorted_rows selection records))"
  by (simp add: listed_rows sort_discovered_rows_def)

text \<open>Whatever is kept when a part of the search is asked for is kept without it.\<close>

lemma matches_running_ended:
  assumes "ds_status s = None"
  shows "matches_discovery r s \<longleftrightarrow> matches_discovery r (s\<lparr>ds_status := Some RunningStatus\<rparr>) \<or> matches_discovery r (s\<lparr>ds_status := Some EndedStatus\<rparr>)"
    and "\<not> (matches_discovery r (s\<lparr>ds_status := Some RunningStatus\<rparr>) \<and> matches_discovery r (s\<lparr>ds_status := Some EndedStatus\<rparr>))"
  using assms by (auto simp: matches_discovery_def default_to_def)

lemma launch_running_ended:
  assumes "ds_status s = None"
  shows "launch_matches_discovery l s \<longleftrightarrow> launch_matches_discovery l (s\<lparr>ds_status := Some RunningStatus\<rparr>) \<or> launch_matches_discovery l (s\<lparr>ds_status := Some EndedStatus\<rparr>)"
    and "\<not> (launch_matches_discovery l (s\<lparr>ds_status := Some RunningStatus\<rparr>) \<and> launch_matches_discovery l (s\<lparr>ds_status := Some EndedStatus\<rparr>))"
  using assms by (auto simp: launch_matches_discovery_def default_to_def Let_def)

lemma matches_current_stale:
  assumes "ds_corpus s = None"
  shows "matches_discovery r (s\<lparr>ds_corpus := Some CurrentCorpus\<rparr>) \<or> matches_discovery r (s\<lparr>ds_corpus := Some StaleCorpus\<rparr>) \<Longrightarrow> matches_discovery r s"
    and "\<not> (matches_discovery r (s\<lparr>ds_corpus := Some CurrentCorpus\<rparr>) \<and> matches_discovery r (s\<lparr>ds_corpus := Some StaleCorpus\<rparr>))"
  using assms by (auto simp: matches_discovery_def default_to_def is_clean_def split: reading.splits version_distance.splits)

lemma filter_mset_split:
  assumes "\<And>x. p x \<longleftrightarrow> q x \<or> r x" and "\<And>x. \<not> (q x \<and> r x)"
  shows "filter_mset p M = filter_mset q M + filter_mset r M"
  using assms by (induction M) auto

text \<open>A launch is listed for no other status, for no one kind of record and for no state of the corpus.\<close>

lemma launches_by_status_only:
  assumes "status \<notin> {None, Some AnyStatus, Some RunningStatus, Some EndedStatus} \<or> kind \<notin> {None, Some None} \<or> corpus \<notin> {None, Some AnyCorpus}"
  shows "lh_launches (listed_records lc selection records (s\<lparr>ds_status := status, ds_kind := kind, ds_corpus := corpus\<rparr>)) = []"
  using assms
  by (auto simp: listed_records_def launch_matches_discovery_def default_to_def Let_def filter_empty_conv split: option.split)

text \<open>C15: The listing shows exactly the rows of the history, or of the selection the address names, that match the
search, each as often as it is there, ordered by the figure the search sorts by: the newest first unless another order
is asked for, a row without the figure after every row with it, and rows alike in every figure in the order they
were read in. The comparison of texts is any that orders by the keys of a collation.\<close>

theorem history_listed_in_order:
  assumes "\<And>x y. sgn (lc x y) = sgn (coll x - coll y)"
  shows "lh_rows (listed_records lc selection records discovery) =
    sort_key (row_key coll (ds_sort discovery))
      (filter (\<lambda>r. matches_discovery r discovery) (case selection of Some s \<Rightarrow> selected_rows s | None \<Rightarrow> lh_rows records))"
  using sort_discovered_key [of lc coll, OF assms] by (simp add: listed_rows unsorted_rows_def)

text \<open>The running and the ended rows of a listing are together its rows, each once, and so are its launches; no row
is listed both as judged against the corpus under test and as stale against it, and each of these is a row of the
listing.\<close>

theorem status_filters_partition:
  "mset (lh_rows (listed_records lc selection records (s\<lparr>ds_status := Some RunningStatus\<rparr>))) +
     mset (lh_rows (listed_records lc selection records (s\<lparr>ds_status := Some EndedStatus\<rparr>))) =
   mset (lh_rows (listed_records lc selection records (s\<lparr>ds_status := None\<rparr>)))"
  "mset (lh_launches (listed_records lc selection records (s\<lparr>ds_status := Some RunningStatus\<rparr>))) +
     mset (lh_launches (listed_records lc selection records (s\<lparr>ds_status := Some EndedStatus\<rparr>))) =
   mset (lh_launches (listed_records lc selection records (s\<lparr>ds_status := None\<rparr>)))"
  "mset (lh_rows (listed_records lc selection records (s\<lparr>ds_corpus := Some CurrentCorpus\<rparr>))) +
     mset (lh_rows (listed_records lc selection records (s\<lparr>ds_corpus := Some StaleCorpus\<rparr>)))
   \<subseteq># mset (lh_rows (listed_records lc selection records (s\<lparr>ds_corpus := None\<rparr>)))"
proof -
  let ?rows = "mset (unsorted_rows selection records)"
  have "filter_mset (\<lambda>r. matches_discovery r (s\<lparr>ds_status := None\<rparr>)) ?rows =
      filter_mset (\<lambda>r. matches_discovery r (s\<lparr>ds_status := Some RunningStatus\<rparr>)) ?rows
      + filter_mset (\<lambda>r. matches_discovery r (s\<lparr>ds_status := Some EndedStatus\<rparr>)) ?rows"
    using matches_running_ended [of "s\<lparr>ds_status := None\<rparr>"] by (intro filter_mset_split) simp_all
  then show "mset (lh_rows (listed_records lc selection records (s\<lparr>ds_status := Some RunningStatus\<rparr>))) +
      mset (lh_rows (listed_records lc selection records (s\<lparr>ds_status := Some EndedStatus\<rparr>))) =
    mset (lh_rows (listed_records lc selection records (s\<lparr>ds_status := None\<rparr>)))"
    by (simp add: mset_listed_rows)
  have "filter_mset (\<lambda>l. launch_matches_discovery l (s\<lparr>ds_status := None\<rparr>)) M =
      filter_mset (\<lambda>l. launch_matches_discovery l (s\<lparr>ds_status := Some RunningStatus\<rparr>)) M
      + filter_mset (\<lambda>l. launch_matches_discovery l (s\<lparr>ds_status := Some EndedStatus\<rparr>)) M" for M
    using launch_running_ended [of "s\<lparr>ds_status := None\<rparr>"] by (intro filter_mset_split) simp_all
  then show "mset (lh_launches (listed_records lc selection records (s\<lparr>ds_status := Some RunningStatus\<rparr>))) +
      mset (lh_launches (listed_records lc selection records (s\<lparr>ds_status := Some EndedStatus\<rparr>))) =
    mset (lh_launches (listed_records lc selection records (s\<lparr>ds_status := None\<rparr>)))"
    by (simp add: listed_records_def split: option.split)
  have "filter_mset (\<lambda>r. matches_discovery r (s\<lparr>ds_corpus := Some CurrentCorpus\<rparr>)) ?rows
      + filter_mset (\<lambda>r. matches_discovery r (s\<lparr>ds_corpus := Some StaleCorpus\<rparr>)) ?rows =
      filter_mset (\<lambda>r. matches_discovery r (s\<lparr>ds_corpus := Some CurrentCorpus\<rparr>) \<or> matches_discovery r (s\<lparr>ds_corpus := Some StaleCorpus\<rparr>)) ?rows"
    using matches_current_stale(2) [of "s\<lparr>ds_corpus := None\<rparr>"] by (intro filter_mset_split [symmetric]) simp_all
  also have "\<dots> \<subseteq># filter_mset (\<lambda>r. matches_discovery r (s\<lparr>ds_corpus := None\<rparr>)) ?rows"
    using matches_current_stale(1) [of "s\<lparr>ds_corpus := None\<rparr>"] by (intro filter_mset_mono_strong) simp_all
  finally show "mset (lh_rows (listed_records lc selection records (s\<lparr>ds_corpus := Some CurrentCorpus\<rparr>))) +
      mset (lh_rows (listed_records lc selection records (s\<lparr>ds_corpus := Some StaleCorpus\<rparr>)))
    \<subseteq># mset (lh_rows (listed_records lc selection records (s\<lparr>ds_corpus := None\<rparr>)))"
    by (simp add: mset_listed_rows)
qed

text \<open>C33: For an address that names the last edit, the history lists exactly the rows the edit invalidated, in the
order of the history, and names every other result it invalidated as missing: together they are the results of the
edit, each once. Nothing is listed for an address that names another edit.\<close>

theorem invalidated_rows_exact:
  assumes "invalidated_selection value corpus runs = ListedSelection edit n rows missing"
    and "corpus = ReadLoaded (EditMeasured e)" and "runs = ReadLoaded body"
    and "distinct (ed_rows e)" and "distinct (map recorded_id (hr_rows body))"
  shows "value = ev_previous e @ ''..'' @ ev_current e \<and> n = ed_count e \<and>
    rows = filter (\<lambda>r. recorded_id r \<in> set (ed_rows e)) (hr_rows body) \<and>
    mset (map recorded_id rows) + mset (map mr_id missing) = mset (ed_rows e) \<and>
    (\<forall>m \<in> set missing. mr_id m \<notin> recorded_id ` set (hr_rows body))"
proof -
  have l: "listed_selection e body = ListedSelection edit n rows missing"
    and v: "edit_named_by value = Some (edit_versions.truncate e)"
    using assms(1-3) by (auto simp: listed_iff)
  have named: "value = ev_previous e @ ''..'' @ ev_current e"
    using v unfolding edit_named_by_iff by (simp add: invalidated_by_value_def edit_versions.truncate_def)
  have rows: "n = ed_count e" "rows = filter (\<lambda>r. recorded_id r \<in> set (ed_rows e)) (hr_rows body)"
    using l by (auto simp: listed_selection_def)
  have missing: "map mr_id missing = filter (\<lambda>id. id \<notin> recorded_id ` set (hr_rows body)) (ed_rows e)"
    using l by (auto simp: listed_selection_def comp_def)
  have "mr_id m \<notin> recorded_id ` set (hr_rows body)" if "m \<in> set missing" for m
  proof -
    have "mr_id m \<in> set (map mr_id missing)" using that by simp
    then show ?thesis unfolding missing by simp
  qed
  moreover have "mset (map recorded_id rows) = mset (filter (\<lambda>id. id \<in> recorded_id ` set (hr_rows body)) (ed_rows e))"
    using assms(4,5) by (intro set_eq_iff_mset_eq_distinct [THEN iffD1]) (auto simp: rows distinct_map_filter)
  then have "mset (map recorded_id rows) + mset (map mr_id missing) = mset (ed_rows e)"
    unfolding missing by (simp add: mset_filter)
  ultimately show ?thesis using named rows by blast
qed

subsection \<open>A history of two runs\<close>

definition sample_row :: "string \<Rightarrow> row" where
  "sample_row run = \<lparr>rw_listed = RunRow ((sample_run ''build'' plan_graded)\<lparr>rn_record_id := run, rn_run := run\<rparr>), rw_staleness = Unavailable []\<rparr>"

definition open_search :: discovery_search where
  "open_search = \<lparr>ds_corpus = None, ds_kind = None, ds_query = None, ds_sort = None, ds_status = None\<rparr>"

lemma index_of_empty: "index_of xs [] = Some 0"
  by (cases xs) simp_all

lemma open_search_keeps [simp]: "matches_discovery r open_search"
  by (simp add: matches_discovery_def open_search_def default_to_def matches_text_def record_search_texts_def
      lower_case_def trim_text_def includes_text_def index_of_empty)

theorem history_listed_in_order_witness:
  "lh_rows (listed_records (\<lambda>x y. real (length x) - real (length y)) None
     \<lparr>lh_rows = [sample_row ''2026-03-01T10-04-05.123Z'', sample_row ''2026-03-02T10-04-05.123Z''], lh_launches = []\<rparr> open_search) =
   [sample_row ''2026-03-02T10-04-05.123Z'', sample_row ''2026-03-01T10-04-05.123Z'']"
proof -
  have "recorded_instant ''2026-03-02T10-04-05.123Z'' = Some 1772445845123"
    by (simp add: instant_defs Let_def)
  then have "row_key coll None (sample_row ''2026-03-01T10-04-05.123Z'') > row_key coll None (sample_row ''2026-03-02T10-04-05.123Z'')" for coll
    by (simp add: row_key_def sample_row_def measured_key_def row_instant_def recorded_instant_name less_prod_def)
  then have "\<not> row_key coll None (sample_row ''2026-03-01T10-04-05.123Z'') \<le> row_key coll None (sample_row ''2026-03-02T10-04-05.123Z'')" for coll
    by (meson not_le)
  then show ?thesis
    using history_listed_in_order [of "\<lambda>x y. real (length x) - real (length y)" "\<lambda>x. real (length x)" None
        "\<lparr>lh_rows = [sample_row ''2026-03-01T10-04-05.123Z'', sample_row ''2026-03-02T10-04-05.123Z''], lh_launches = []\<rparr>" open_search]
    by (simp add: open_search_def [THEN arg_cong [of _ _ ds_sort]])
qed

definition sample_edit :: measured_edit where
  "sample_edit = \<lparr>ev_previous = replicate 64 (CHR ''a''), ev_current = replicate 64 (CHR ''b''), ed_count = 2, ed_rows = [''gone'', ''r'']\<rparr>"

theorem invalidated_rows_exact_witness:
  "\<exists>edit n rows missing.
     invalidated_selection (replicate 64 (CHR ''a'') @ ''..'' @ replicate 64 (CHR ''b'')) (ReadLoaded (EditMeasured sample_edit))
       (ReadLoaded \<lparr>hr_rows = [sample_row ''r'', sample_row ''other''], hr_launches = [], hr_unreadable = []\<rparr>) =
     ListedSelection edit n rows missing \<and> mset (map recorded_id rows) + mset (map mr_id missing) = {#''gone'', ''r''#}"
proof -
  let ?named = "replicate 64 (CHR ''a'') @ ''..'' @ replicate 64 (CHR ''b'')"
  let ?body = "\<lparr>hr_rows = [sample_row ''r'', sample_row ''other''], hr_launches = [], hr_unreadable = []\<rparr> :: run_history_report"
  have "edit_named_by ?named = Some (edit_versions.truncate sample_edit)"
    unfolding edit_named_by_iff
    by (simp add: sample_edit_def edit_versions.truncate_def invalidated_by_value_def full_version_def lower_hex_def list_all_iff)
  then have "invalidated_selection ?named (ReadLoaded (EditMeasured sample_edit)) (ReadLoaded ?body) = listed_selection sample_edit ?body"
    by (simp add: invalidated_selection_def selection_for_edit_def same_edit_def)
  then obtain edit n rows missing where
    l: "invalidated_selection ?named (ReadLoaded (EditMeasured sample_edit)) (ReadLoaded ?body) = ListedSelection edit n rows missing"
    by (auto simp: listed_selection_def)
  have distinct_rows: "distinct (ed_rows sample_edit)" "distinct (map recorded_id (hr_rows ?body))"
    by (simp_all add: sample_edit_def recorded_id_def sample_row_def)
  have "mset (map recorded_id rows) + mset (map mr_id missing) = mset (ed_rows sample_edit)"
    using invalidated_rows_exact [OF l refl refl distinct_rows] by blast
  then show ?thesis using l by (auto simp: sample_edit_def)
qed

end
