(* ===== verification/ReplayOffer.thy ===== *)
theory ReplayOffer
  imports RunAnnouncements
begin

text \<open>
  What the header's Replay a step offers of the runs listed (\<open>replay-choices.ts\<close>) and how a run's status is shown
  (\<open>run-status.ts\<close>), under \<open>src/client/src/run-history\<close>.
\<close>

subsection \<open>The status of a run\<close>

datatype status_state = AcceptedState | RunningState | StoppedState | PausedState | InterruptedState | PendingState

definition run_status_state :: "string \<Rightarrow> status_state" where
  "run_status_state status =
     (if is_stopped status \<or> status = OPERATOR_STOPPED \<or> status = LAUNCH_ENDED then StoppedState
      else if is_paused status then PausedState
      else if status = ''COMPLETE'' then AcceptedState
      else if status = ''RUNNING'' then RunningState
      else if status = ''FAILED'' \<or> status = ''INTERRUPTED'' then InterruptedState
      else PendingState)"

definition has_run_ended :: "run_row \<Rightarrow> bool" where
  "has_run_ended row \<longleftrightarrow> \<not> in_flight row"

definition ended_by_stop :: "string \<Rightarrow> bool" where
  "ended_by_stop status \<longleftrightarrow> is_stopped status \<or> status = OPERATOR_STOPPED"

text \<open>A run that was stopped is shown as stopped, never as a failure.\<close>

lemma ended_by_stop_shown: "ended_by_stop status \<Longrightarrow> run_status_state status = StoppedState"
  by (auto simp: ended_by_stop_def run_status_state_def)

lemma interrupted_shown: "run_status_state status = InterruptedState \<Longrightarrow> status \<in> {''FAILED'', ''INTERRUPTED''}"
  by (auto simp: run_status_state_def split: if_splits)

subsection \<open>The offer\<close>

record replayable_run =
  ro_case_id :: "string option"
  ro_opening_stage :: string
  ro_run :: string
  ro_stages :: "string list"

datatype replay_offer = OfferAvailable "replayable_run list" string string | OfferUnavailable string

definition NO_REPLAYABLE_STEP_REASON :: string where
  "NO_REPLAYABLE_STEP_REASON = ''No recorded run has a step whose starting checkpoint is recorded''"

definition replayable_run_of :: "run_row \<Rightarrow> replayable_run option" where
  "replayable_run_of row =
     (let stages = rn_replayable_stages row
      in if stages = [] then None
         else Some \<lparr>ro_case_id = rn_case_id row,
           ro_opening_stage =
             (case stopped_at row of Some stopped \<Rightarrow> if stopped \<in> set stages then stopped else last stages | None \<Rightarrow> last stages),
           ro_run = rn_run row, ro_stages = stages\<rparr>)"

definition newest_stopped :: "listed_row list \<Rightarrow> run_row option" where
  "newest_stopped rows = List.find (\<lambda>row. stopped_at row \<noteq> None) (run_rows rows)"

definition replay_offer_of :: "listed_row list \<Rightarrow> replay_offer" where
  "replay_offer_of rows =
     (let runs = List.map_filter replayable_run_of (run_rows rows);
          stopped_opening =
            (case newest_stopped rows of
               None \<Rightarrow> None
             | Some s \<Rightarrow> List.find (\<lambda>r. ro_run r = rn_run s \<and> Some (ro_opening_stage r) = stopped_at s) runs)
      in case (case stopped_opening of Some r \<Rightarrow> Some r | None \<Rightarrow> (case runs of [] \<Rightarrow> None | r # _ \<Rightarrow> Some r)) of
           None \<Rightarrow> OfferUnavailable NO_REPLAYABLE_STEP_REASON
         | Some opening \<Rightarrow> OfferAvailable runs (ro_run opening) (ro_opening_stage opening))"

lemma replayable_opening:
  "replayable_run_of row = Some r \<Longrightarrow> ro_opening_stage r \<in> set (ro_stages r) \<and> ro_run r = rn_run row \<and> ro_stages r = rn_replayable_stages row"
  by (auto simp: replayable_run_of_def Let_def split: if_splits option.splits)

lemma replayable_None: "replayable_run_of row = None \<longleftrightarrow> rn_replayable_stages row = []"
  by (simp add: replayable_run_of_def Let_def)

lemma find_Some_first: "(\<exists>x \<in> set xs. P x) \<Longrightarrow> \<exists>x. List.find P xs = Some x"
  by (induction xs) auto

text \<open>Replay a step is offered exactly when some listed run has a step whose starting checkpoint is recorded; it
offers every such run and no other, in the order of the list, and opens on a run it offers at a step that run offers:
the step the first stopped run of the list stopped at, when a run of that name opens there, else the first run's.\<close>

theorem replay_offer_exact:
  "(replay_offer_of rows = OfferUnavailable NO_REPLAYABLE_STEP_REASON \<and> filter (\<lambda>row. rn_replayable_stages row \<noteq> []) (run_rows rows) = []) \<or>
   (\<exists>runs run stage. replay_offer_of rows = OfferAvailable runs run stage \<and>
      map (\<lambda>r. (ro_run r, ro_stages r)) runs =
        map (\<lambda>row. (rn_run row, rn_replayable_stages row)) (filter (\<lambda>row. rn_replayable_stages row \<noteq> []) (run_rows rows)) \<and>
      (\<exists>r \<in> set runs. ro_run r = run \<and> stage \<in> set (ro_stages r)) \<and>
      (run, stage) =
        (case newest_stopped rows of
           Some s \<Rightarrow>
             (if \<exists>r \<in> set runs. ro_run r = rn_run s \<and> Some (ro_opening_stage r) = stopped_at s
              then (rn_run s, stopped_stage_name (rn_status s)) else (ro_run (hd runs), ro_opening_stage (hd runs)))
         | None \<Rightarrow> (ro_run (hd runs), ro_opening_stage (hd runs))))"
proof -
  define runs where "runs = List.map_filter replayable_run_of (run_rows rows)"
  have names: "map (\<lambda>r. (ro_run r, ro_stages r)) (List.map_filter replayable_run_of xs) =
      map (\<lambda>row. (rn_run row, rn_replayable_stages row)) (filter (\<lambda>row. rn_replayable_stages row \<noteq> []) xs)" for xs
    by (induction xs) (auto simp: List.map_filter_simps replayable_None [symmetric] replayable_opening split: option.split)
  have opens: "ro_opening_stage r \<in> set (ro_stages r)" if "r \<in> set runs" for r
    using that replayable_opening by (auto simp: runs_def set_map_filter)
  show ?thesis
  proof (cases runs)
    case Nil
    then have "filter (\<lambda>row. rn_replayable_stages row \<noteq> []) (run_rows rows) = []"
      using names [of "run_rows rows"] by (simp add: runs_def)
    then show ?thesis using Nil by (simp add: replay_offer_of_def runs_def [symmetric] split: option.split)
  next
    case (Cons first more)
    show ?thesis
    proof (cases "\<exists>s r. newest_stopped rows = Some s \<and> r \<in> set runs \<and> ro_run r = rn_run s \<and> Some (ro_opening_stage r) = stopped_at s")
      case True
      then obtain s where s: "newest_stopped rows = Some s"
        "\<exists>r \<in> set runs. ro_run r = rn_run s \<and> Some (ro_opening_stage r) = stopped_at s" by blast
      then obtain r where r: "List.find (\<lambda>r. ro_run r = rn_run s \<and> Some (ro_opening_stage r) = stopped_at s) runs = Some r"
        using find_Some_first [OF s(2)] by blast
      have "r \<in> set runs" and p: "ro_run r = rn_run s" "Some (ro_opening_stage r) = stopped_at s"
        using find_Some_set [OF r] by simp_all
      have "ro_opening_stage r = stopped_stage_name (rn_status s)"
        using p(2) by (simp add: stopped_at_def split: if_splits)
      then have "(ro_run r, ro_opening_stage r) =
          (case newest_stopped rows of
             Some s \<Rightarrow>
               (if \<exists>r \<in> set runs. ro_run r = rn_run s \<and> Some (ro_opening_stage r) = stopped_at s
                then (rn_run s, stopped_stage_name (rn_status s)) else (ro_run (hd runs), ro_opening_stage (hd runs)))
           | None \<Rightarrow> (ro_run (hd runs), ro_opening_stage (hd runs)))"
        using s p(1) by simp
      moreover have "replay_offer_of rows = OfferAvailable runs (ro_run r) (ro_opening_stage r)"
        using s(1) r by (simp add: replay_offer_of_def runs_def [symmetric])
      moreover have "map (\<lambda>r. (ro_run r, ro_stages r)) runs =
          map (\<lambda>row. (rn_run row, rn_replayable_stages row)) (filter (\<lambda>row. rn_replayable_stages row \<noteq> []) (run_rows rows))"
        unfolding runs_def by (rule names)
      ultimately show ?thesis using \<open>r \<in> set runs\<close> opens [of r] by blast
    next
      case False
      then have none: "(case newest_stopped rows of None \<Rightarrow> None
          | Some s \<Rightarrow> List.find (\<lambda>r. ro_run r = rn_run s \<and> Some (ro_opening_stage r) = stopped_at s) runs) = None"
        by (auto simp: find_None_iff split: option.split)
      have "replay_offer_of rows = OfferAvailable runs (ro_run first) (ro_opening_stage first)"
        unfolding replay_offer_of_def Let_def runs_def [symmetric] none using Cons by simp
      then show ?thesis using False Cons names [of "run_rows rows"] opens [of first]
        by (auto simp: runs_def [symmetric] split: option.split)
    qed
  qed
qed

end
