(* ===== verification/RemainingTime.thy ===== *)
theory RemainingTime
  imports RunRecords RunReadings StableSort GroupSummary
begin

text \<open>
  How long a run still takes: the median time of each stage in earlier runs of its case
  (\<open>src/src/server/stage-times.ts\<close>), and what the monitor makes of those times
  (\<open>src/client/src/monitor/remaining-estimate.ts\<close>, \<open>remaining-spend-reading.tsx\<close>).

  The names of the recorded runs, their manifests and their stage files are arguments. A read either gives its
  value, is refused by an error \<open>readOptionalRecord\<close> expects, or fails by another.
\<close>

subsection \<open>The times of earlier runs\<close>

datatype 'a read_outcome = ReadGave 'a | ReadRefused string | ReadFailed string

fun read_optional_record :: "'a read_outcome \<Rightarrow> string + 'a option" where
  "read_optional_record (ReadGave x) = Inr (Some x)"
| "read_optional_record (ReadRefused _) = Inr None"
| "read_optional_record (ReadFailed message) = Inl message"

fun load_record :: "'a read_outcome \<Rightarrow> string + 'a" where
  "load_record (ReadGave x) = Inr x"
| "load_record (ReadRefused message) = Inl message"
| "load_record (ReadFailed message) = Inl message"

datatype stage_time = TimeAvailable string real | TimeUnavailable string "string list"

fun time_stage :: "stage_time \<Rightarrow> string" where
  "time_stage (TimeAvailable stage _) = stage"
| "time_stage (TimeUnavailable stage _) = stage"

definition NO_PRIOR_RUN_REASON :: string where
  "NO_PRIOR_RUN_REASON = ''no prior run of this case''"

definition no_recorded_time_reason :: "string \<Rightarrow> string" where
  "no_recorded_time_reason stage = ''no prior run of this case recorded a time for '' @ stage"

definition median :: "real list \<Rightarrow> real" where
  "median samples =
     (let sorted = to_sorted (-) samples; middle = length sorted div 2
      in if length sorted mod 2 = 0 then (at_or sorted (middle - 1) 0 + at_or sorted middle 0) / 2 else at_or sorted middle 0)"

text \<open>The order of texts by their code units, as \<open><\<close> compares them.\<close>

fun text_below :: "string \<Rightarrow> string \<Rightarrow> bool" where
  "text_below [] ys = (ys \<noteq> [])"
| "text_below (x # xs) [] = False"
| "text_below (x # xs) (y # ys) = (of_char x < (of_char y :: nat) \<or> x = y \<and> text_below xs ys)"

record stage_archive =
  ar_names :: "string list"
  ar_manifest :: "string \<Rightarrow> run_manifest read_outcome option"
  ar_stage_file :: "string \<Rightarrow> string \<Rightarrow> stage_file option read_outcome"

fun earlier_among :: "stage_archive \<Rightarrow> string \<Rightarrow> string \<Rightarrow> string list \<Rightarrow> string + string list" where
  "earlier_among archive run case_id [] = Inr []"
| "earlier_among archive run case_id (name # names) =
     (case ar_manifest archive name of
        None \<Rightarrow> earlier_among archive run case_id names
      | Some read \<Rightarrow>
          if \<not> text_below name run then earlier_among archive run case_id names
          else bind_res (read_optional_record read) (\<lambda>manifest.
               bind_res (earlier_among archive run case_id names) (\<lambda>earlier.
                 Inr (if map_option mf_case_id manifest = Some case_id then name # earlier else earlier))))"

definition earlier_runs_of_case :: "stage_archive \<Rightarrow> string \<Rightarrow> string \<Rightarrow> string + string list" where
  "earlier_runs_of_case archive run case_id = earlier_among archive run case_id (ar_names archive)"

fun recorded_times :: "stage_archive \<Rightarrow> string list \<Rightarrow> string \<Rightarrow> string + real list" where
  "recorded_times archive [] stage = Inr []"
| "recorded_times archive (run # runs) stage =
     bind_res (read_optional_record (ar_stage_file archive run stage)) (\<lambda>read.
     bind_res (recorded_times archive runs stage) (\<lambda>samples.
       let file = Option.bind read id
       in Inr (if stage_status file = StageGraded
               then (case Option.bind file sf_elapsed_ms of None \<Rightarrow> samples | Some ms \<Rightarrow> ms # samples)
               else samples)))"

definition stage_time_of :: "string list \<Rightarrow> string \<Rightarrow> real list \<Rightarrow> stage_time" where
  "stage_time_of earlier stage samples =
     (if samples = []
      then TimeUnavailable stage [if earlier = [] then NO_PRIOR_RUN_REASON else no_recorded_time_reason stage]
      else TimeAvailable stage (median samples))"

definition read_stage_times :: "stage_archive \<Rightarrow> string \<Rightarrow> string + stage_time list" where
  "read_stage_times archive run =
     (case ar_manifest archive run of
        None \<Rightarrow> Inl (''No pipeline run '' @ run @ '' is recorded'')
      | Some read \<Rightarrow>
          bind_res (load_record read) (\<lambda>manifest.
          bind_res (earlier_runs_of_case archive run (mf_case_id manifest)) (\<lambda>earlier.
            map_res (\<lambda>stage. bind_res (recorded_times archive earlier stage) (\<lambda>samples.
              Inr (stage_time_of earlier stage samples))) (mf_stages manifest))))"

subsection \<open>The estimate of what is left\<close>

definition NO_RUN_SPEND_REASON :: string where
  "NO_RUN_SPEND_REASON = ''run spend not recorded''"

definition NO_STEP_LEFT_REASON :: string where
  "NO_STEP_LEFT_REASON = ''every step has finished''"

definition NO_STAGE_START_REASON :: string where
  "NO_STAGE_START_REASON = ''the running step'' @ CHR 0x27 # ''s start is not recorded''"

datatype remaining_estimate = EstimateAvailable real real | EstimateUnavailable string

definition burn_per_minute :: "real \<Rightarrow> real \<Rightarrow> real" where
  "burn_per_minute run_spent_usd elapsed_ms = (if elapsed_ms = 0 then 0 else run_spent_usd / (elapsed_ms / 60000))"

record estimate_basis =
  eb_unfinished :: "string list"
  eb_times :: "stage_time list"
  eb_running :: string
  eb_running_elapsed_ms :: "real option"
  eb_burn_per_minute :: "real option"

fun stage_remaining_time :: "stage_time \<Rightarrow> estimate_basis \<Rightarrow> string + real" where
  "stage_remaining_time (TimeUnavailable stage reasons) basis = Inl (join_with ''; '' reasons)"
| "stage_remaining_time (TimeAvailable stage median_ms) basis =
     (if stage \<noteq> eb_running basis then Inr median_ms
      else (case eb_running_elapsed_ms basis of
              None \<Rightarrow> Inl NO_STAGE_START_REASON
            | Some elapsed \<Rightarrow> Inr (max 0 (median_ms - elapsed))))"

fun remaining_from :: "estimate_basis \<Rightarrow> stage_time list \<Rightarrow> real \<Rightarrow> string + real" where
  "remaining_from basis [] ms = Inr ms"
| "remaining_from basis (t # ts) ms =
     (if time_stage t \<in> set (eb_unfinished basis)
      then bind_res (stage_remaining_time t basis) (\<lambda>more_ms. remaining_from basis ts (ms + more_ms))
      else remaining_from basis ts ms)"

definition remaining_stage_times :: "estimate_basis \<Rightarrow> string + real" where
  "remaining_stage_times basis = remaining_from basis (eb_times basis) 0"

definition remaining_estimate :: "estimate_basis \<Rightarrow> remaining_estimate" where
  "remaining_estimate basis =
     (case eb_burn_per_minute basis of
        None \<Rightarrow> EstimateUnavailable NO_RUN_SPEND_REASON
      | Some burn \<Rightarrow>
          if eb_unfinished basis = [] then EstimateUnavailable NO_STEP_LEFT_REASON
          else (case remaining_stage_times basis of
                  Inl reason \<Rightarrow> EstimateUnavailable reason
                | Inr ms \<Rightarrow> EstimateAvailable ms (burn * (ms / 60000))))"

subsection \<open>The estimate as the monitor shows it\<close>

definition has_ended :: "run_record_stage \<Rightarrow> bool" where
  "has_ended stage \<longleftrightarrow> rr_status stage = StageGraded \<or> rr_status stage = StageStopped"

text \<open>\<open>findIndex\<close> answers -1 where no step matches, so all of them are after it.\<close>

definition steps_reading :: "run_record_stage list \<Rightarrow> string \<Rightarrow> string" where
  "steps_reading stages running =
     (let unfinished = List.map_filter (\<lambda>(i, stage). if has_ended stage then None else Some (i + 1, rr_stage stage)) (enumerate 0 stages);
          after = drop (case find_index (\<lambda>(i, stage). stage = running) unfinished of None \<Rightarrow> 0 | Some i \<Rightarrow> i + 1) unfinished;
          numbers = map fst (if after \<noteq> [] then after else unfinished)
      in if numbers = [] then []
         else if hd numbers = last numbers then '' step '' @ show_number (hd numbers)
         else '' steps '' @ show_number (hd numbers) @ '' to '' @ show_number (last numbers))"

definition live_estimate ::
    "(string \<Rightarrow> int option) \<Rightarrow> stage_time list \<Rightarrow> run_record_stage list \<Rightarrow> running_progress \<Rightarrow> int \<Rightarrow> remaining_estimate" where
  "live_estimate date_parse samples stages progress now_ms =
     remaining_estimate \<lparr>eb_unfinished = map rr_stage (filter (\<lambda>stage. \<not> has_ended stage) stages), eb_times = samples,
       eb_running = pg_stage progress,
       eb_running_elapsed_ms = map_option (\<lambda>ms. real_of_int (live_elapsed_ms date_parse ms (pg_measured_at progress) now_ms)) (pg_stage_elapsed_ms progress),
       eb_burn_per_minute = map_option (\<lambda>usd. burn_per_minute usd (real (pg_elapsed_ms progress))) (pg_run_spent_usd progress)\<rparr>"

subsection \<open>The times are medians of earlier runs\<close>

text \<open>Of one earlier run, the time its record of the stage gives, if it was graded.\<close>

definition graded_time :: "stage_archive \<Rightarrow> string \<Rightarrow> string \<Rightarrow> real option" where
  "graded_time archive stage run =
     (case ar_stage_file archive run stage of
        ReadGave (Some f) \<Rightarrow> if stage_status (Some f) = StageGraded then sf_elapsed_ms f else None
      | _ \<Rightarrow> None)"

definition earlier_run :: "stage_archive \<Rightarrow> string \<Rightarrow> string \<Rightarrow> string \<Rightarrow> bool" where
  "earlier_run archive run case_id name \<longleftrightarrow> text_below name run \<and>
     (case ar_manifest archive name of Some (ReadGave m) \<Rightarrow> mf_case_id m = case_id | _ \<Rightarrow> False)"

definition prior_times :: "stage_archive \<Rightarrow> string \<Rightarrow> string \<Rightarrow> string \<Rightarrow> real list" where
  "prior_times archive run case_id stage =
     List.map_filter (graded_time archive stage) (filter (earlier_run archive run case_id) (ar_names archive))"

definition middle_of :: "real \<Rightarrow> real list \<Rightarrow> bool" where
  "middle_of m xs \<longleftrightarrow> 2 * length (filter (\<lambda>x. x < m) xs) \<le> length xs \<and> 2 * length (filter (\<lambda>x. m < x) xs) \<le> length xs"

lemma real_sorted: "to_sorted (-) samples = sort (samples :: real list)"
  using to_sorted_key [of "(-)" "\<lambda>x. x" samples] by simp

lemma length_filter_mono: "(\<And>x. P x \<Longrightarrow> Q x) \<Longrightarrow> length (filter P xs) \<le> length (filter Q xs)"
  by (induction xs) auto

lemma median_middle:
  assumes "samples \<noteq> []"
  shows "middle_of (median samples) samples"
proof -
  let ?xs = "sort samples" and ?m = "length samples div 2" and ?x = "median samples"
  have m: "?m < length ?xs" "?m - 1 < length ?xs" using assms by (auto simp flip: length_greater_0_conv intro: le_less_trans [OF diff_le_self])
  have above: "2 * length (filter (\<lambda>x. ?x < x) ?xs) \<le> length ?xs" and below: "2 * length (filter (\<lambda>x. x < ?x) ?xs) \<le> length ?xs"
  proof -
    have between: "?xs ! (if even (length samples) then ?m - 1 else ?m) \<le> ?x \<and> ?x \<le> ?xs ! ?m"
      using m sorted_nth_mono [OF sorted_sort, of "?m - 1" ?m samples]
      by (simp add: median_def real_sorted at_or_def Let_def even_iff_mod_2_eq_zero)
    have "length (filter (\<lambda>x. x < ?x) ?xs) \<le> length (filter (\<lambda>x. x < ?xs ! ?m) ?xs)"
      using between by (intro length_filter_mono) auto
    then show "2 * length (filter (\<lambda>x. x < ?x) ?xs) \<le> length ?xs"
      using sorted_below(1) [OF sorted_sort m(1)] by simp
    let ?i = "if even (length samples) then ?m - 1 else ?m"
    have "length (filter (\<lambda>x. ?x < x) ?xs) \<le> length (filter (\<lambda>x. ?xs ! ?i < x) ?xs)"
      using between by (intro length_filter_mono) auto
    also have "\<dots> \<le> length ?xs - ?i - 1" using sorted_below(2) [OF sorted_sort, of ?i samples] m by simp
    finally show "2 * length (filter (\<lambda>x. ?x < x) ?xs) \<le> length ?xs"
      using assms by (cases "even (length samples)") (auto elim!: evenE oddE)
  qed
  then show ?thesis by (simp add: middle_of_def length_filter_sort)
qed

lemma earlier_among_filter:
  "earlier_among archive run case_id names = Inr earlier \<Longrightarrow> earlier = filter (earlier_run archive run case_id) names"
proof (induction names arbitrary: earlier)
  case (Cons name names)
  show ?case
  proof (cases "ar_manifest archive name")
    case (Some read)
    then show ?thesis using Cons by (cases read) (auto simp: earlier_run_def res_simps split: if_splits)
  qed (use Cons in \<open>simp add: earlier_run_def\<close>)
qed simp

lemma recorded_times_filter:
  "recorded_times archive runs stage = Inr samples \<Longrightarrow> samples = List.map_filter (graded_time archive stage) runs"
proof (induction runs arbitrary: samples)
  case (Cons run runs)
  show ?case
  proof (cases "ar_stage_file archive run stage")
    case (ReadGave read)
    then show ?thesis using Cons
      by (cases read) (auto simp: graded_time_def res_simps Let_def List.map_filter_simps stage_status_def split: option.splits if_splits)
  next
    case (ReadRefused message)
    then show ?thesis using Cons by (auto simp: graded_time_def res_simps Let_def List.map_filter_simps stage_status_def)
  qed (use Cons in simp)
qed (simp add: List.map_filter_simps)

text \<open>The stage times of a run are those of its pipeline in order, and each is taken over the earlier runs of its case
that graded the stage and recorded a time for it: a stage has a time exactly when there is one, and then no more than half
of those times are below it and no more than half above it.\<close>

theorem stage_times_exact:
  assumes "read_stage_times archive run = Inr stage_times" and "ar_manifest archive run = Some (ReadGave manifest)"
  shows "list_all2 (\<lambda>stage t. case t of
      TimeAvailable name median_ms \<Rightarrow> name = stage \<and> prior_times archive run (mf_case_id manifest) stage \<noteq> [] \<and>
        middle_of median_ms (prior_times archive run (mf_case_id manifest) stage)
    | TimeUnavailable name reasons \<Rightarrow> name = stage \<and> prior_times archive run (mf_case_id manifest) stage = [])
    (mf_stages manifest) stage_times"
proof -
  obtain earlier where earlier: "earlier_runs_of_case archive run (mf_case_id manifest) = Inr earlier"
    and all: "map_res (\<lambda>stage. bind_res (recorded_times archive earlier stage) (\<lambda>samples.
        Inr (stage_time_of earlier stage samples))) (mf_stages manifest) = Inr stage_times"
    using assms by (auto simp: read_stage_times_def res_simps)
  have prior: "samples = prior_times archive run (mf_case_id manifest) stage" if "recorded_times archive earlier stage = Inr samples" for stage samples
    using recorded_times_filter [OF that] earlier_among_filter earlier by (auto simp: prior_times_def earlier_runs_of_case_def)
  show ?thesis
    using all unfolding map_res_Inr_iff
    by (rule list_all2_mono) (auto simp: res_simps stage_time_of_def median_middle dest!: prior)
qed

subsection \<open>The estimate falls as the clock runs\<close>

definition unfinished_times :: "estimate_basis \<Rightarrow> stage_time list" where
  "unfinished_times basis = filter (\<lambda>t. time_stage t \<in> set (eb_unfinished basis)) (eb_times basis)"

lemma remaining_from_sum:
  "remaining_from basis ts ms =
     bind_res (map_res (\<lambda>t. stage_remaining_time t basis) (filter (\<lambda>t. time_stage t \<in> set (eb_unfinished basis)) ts)) (\<lambda>xs. Inr (ms + sum_list xs))"
proof (induction ts arbitrary: ms)
  case (Cons t ts)
  show ?case
    by (cases "stage_remaining_time t basis";
        cases "map_res (\<lambda>t. stage_remaining_time t basis) (filter (\<lambda>t. time_stage t \<in> set (eb_unfinished basis)) ts)")
      (simp_all add: Cons.IH algebra_simps)
qed simp

text \<open>The least the stages after the running one can take.\<close>

fun waiting_time :: "string \<Rightarrow> stage_time \<Rightarrow> real" where
  "waiting_time running (TimeAvailable stage median_ms) = (if stage = running then 0 else median_ms)"
| "waiting_time running (TimeUnavailable stage reasons) = 0"

lemma later_remaining:
  assumes "stage_remaining_time t basis = Inr x"
    and "eb_running_elapsed_ms basis = map_option f known" and "e \<le> e'"
    and "\<And>k. known = Some k \<Longrightarrow> f k \<le> f' k \<and> f' k - f k \<le> e' - e"
  shows "\<exists>x'. stage_remaining_time t (basis\<lparr>eb_running_elapsed_ms := map_option f' known\<rparr>) = Inr x' \<and> x' \<le> x \<and>
    x - x' \<le> (if time_stage t = eb_running basis then e' - e else 0) \<and> waiting_time (eb_running basis) t \<le> x'"
  using assms by (cases t; cases known) (auto split: if_splits)

lemma later_remaining_all:
  fixes e e' :: real
  assumes "map_res (\<lambda>t. stage_remaining_time t basis) ts = Inr xs"
    and "eb_running_elapsed_ms basis = map_option f known" and "e \<le> e'"
    and "\<And>k. known = Some k \<Longrightarrow> f k \<le> f' k \<and> f' k - f k \<le> e' - e" and "distinct (map time_stage ts)"
  shows "\<exists>xs'. map_res (\<lambda>t. stage_remaining_time t (basis\<lparr>eb_running_elapsed_ms := map_option f' known\<rparr>)) ts = Inr xs' \<and>
    sum_list xs' \<le> sum_list xs \<and> sum_list xs - sum_list xs' \<le> (if eb_running basis \<in> time_stage ` set ts then e' - e else 0) \<and>
    sum_list (map (waiting_time (eb_running basis)) ts) \<le> sum_list xs'"
  using assms(1,5)
proof (induction ts arbitrary: xs)
  case (Cons t ts)
  from Cons.prems obtain x ys where t: "stage_remaining_time t basis = Inr x"
    and ts: "map_res (\<lambda>t. stage_remaining_time t basis) ts = Inr ys" and xs: "xs = x # ys"
    by (auto simp: res_simps)
  obtain x' where "stage_remaining_time t (basis\<lparr>eb_running_elapsed_ms := map_option f' known\<rparr>) = Inr x'" "x' \<le> x"
      "x - x' \<le> (if time_stage t = eb_running basis then e' - e else 0)" "waiting_time (eb_running basis) t \<le> x'"
    using later_remaining [OF t assms(2-4)] by blast
  moreover obtain ys' where "map_res (\<lambda>t. stage_remaining_time t (basis\<lparr>eb_running_elapsed_ms := map_option f' known\<rparr>)) ts = Inr ys'"
      "sum_list ys' \<le> sum_list ys"
      "sum_list ys - sum_list ys' \<le> (if eb_running basis \<in> time_stage ` set ts then e' - e else 0)"
      "sum_list (map (waiting_time (eb_running basis)) ts) \<le> sum_list ys'"
    using Cons.IH [OF ts] Cons.prems(2) by auto
  ultimately show ?case
    using Cons.prems(2) by (intro exI [of _ "x' # ys'"]) (auto simp: xs split: if_splits)
qed simp

lemma live_elapsed_later:
  assumes "now_ms \<le> later_ms"
  shows "live_elapsed_ms dp k at_ms now_ms \<le> live_elapsed_ms dp k at_ms later_ms \<and>
    live_elapsed_ms dp k at_ms later_ms - live_elapsed_ms dp k at_ms now_ms \<le> later_ms - now_ms"
  using assms by (auto simp: live_elapsed_ms_def split: option.split)

text \<open>C32: As the clock runs and nothing else changes, an estimate stays one: its time falls or stays, by no more than the
clock ran, and never below what the unfinished stages other than the running one took, so a stage that runs long takes
nothing from those after it; its spend falls or stays with it.\<close>

theorem estimate_only_falls:
  assumes "live_estimate dp stage_times stages progress now_ms = EstimateAvailable ms cost" and "now_ms \<le> later_ms"
    and "distinct (map time_stage stage_times)" and "\<And>spent. pg_run_spent_usd progress = Some spent \<Longrightarrow> 0 \<le> spent"
  shows "\<exists>ms' cost'. live_estimate dp stage_times stages progress later_ms = EstimateAvailable ms' cost' \<and>
    ms' \<le> ms \<and> ms - ms' \<le> real_of_int (later_ms - now_ms) \<and> cost' \<le> cost \<and>
    sum_list (map (waiting_time (pg_stage progress))
      (filter (\<lambda>t. \<exists>stage \<in> set stages. \<not> has_ended stage \<and> rr_stage stage = time_stage t) stage_times)) \<le> ms'"
proof -
  define basis where "basis = \<lparr>eb_unfinished = map rr_stage (filter (\<lambda>stage. \<not> has_ended stage) stages), eb_times = stage_times,
      eb_running = pg_stage progress,
      eb_running_elapsed_ms = map_option (\<lambda>ms. real_of_int (live_elapsed_ms dp ms (pg_measured_at progress) now_ms)) (pg_stage_elapsed_ms progress),
      eb_burn_per_minute = map_option (\<lambda>cost. burn_per_minute cost (real (pg_elapsed_ms progress))) (pg_run_spent_usd progress)\<rparr>"
  let ?f' = "\<lambda>ms. real_of_int (live_elapsed_ms dp ms (pg_measured_at progress) later_ms)"
  define later where "later = basis\<lparr>eb_running_elapsed_ms := map_option ?f' (pg_stage_elapsed_ms progress)\<rparr>"
  have now: "live_estimate dp stage_times stages progress now_ms = remaining_estimate basis"
    and then_: "live_estimate dp stage_times stages progress later_ms = remaining_estimate later"
    by (simp_all add: live_estimate_def basis_def later_def)
  let ?ts = "unfinished_times basis"
  obtain burn xs where burn: "eb_burn_per_minute basis = Some burn" and some: "eb_unfinished basis \<noteq> []"
    and xs: "map_res (\<lambda>t. stage_remaining_time t basis) ?ts = Inr xs" and ms: "ms = sum_list xs" and cost: "cost = burn * (ms / 60000)"
    using assms(1) unfolding now
    by (auto simp: remaining_estimate_def remaining_stage_times_def remaining_from_sum unfinished_times_def res_simps split: option.splits if_splits sum.splits)
  have dist: "distinct (map time_stage ?ts)"
    using assms(3) by (simp add: unfinished_times_def basis_def distinct_map_filter)
  let ?f = "\<lambda>ms. real_of_int (live_elapsed_ms dp ms (pg_measured_at progress) now_ms)"
  have elapsed: "eb_running_elapsed_ms basis = map_option ?f (pg_stage_elapsed_ms progress)" and running: "eb_running basis = pg_stage progress"
    by (simp_all add: basis_def)
  have clock: "real_of_int now_ms \<le> real_of_int later_ms" using assms(2) by simp
  have step: "?f k \<le> ?f' k \<and> ?f' k - ?f k \<le> real_of_int later_ms - real_of_int now_ms" for k
    using live_elapsed_later [OF assms(2), of dp k "pg_measured_at progress"] by linarith
  obtain xs' where xs': "map_res (\<lambda>t. stage_remaining_time t later) ?ts = Inr xs'" "sum_list xs' \<le> sum_list xs"
      "sum_list xs - sum_list xs' \<le> (if pg_stage progress \<in> time_stage ` set ?ts then real_of_int later_ms - real_of_int now_ms else 0)"
      "sum_list (map (waiting_time (pg_stage progress)) ?ts) \<le> sum_list xs'"
    using later_remaining_all [OF xs elapsed clock step dist] unfolding later_def running by blast
  have xs3: "sum_list xs - sum_list xs' \<le> real_of_int (later_ms - now_ms)"
    using xs'(3) clock by (simp split: if_splits)
  have "0 \<le> burn" using burn assms(4) by (auto simp: basis_def burn_per_minute_def)
  moreover have "remaining_estimate later = EstimateAvailable (sum_list xs') (burn * (sum_list xs' / 60000))"
    using burn some xs'(1)
    by (simp add: remaining_estimate_def remaining_stage_times_def remaining_from_sum unfinished_times_def later_def)
  moreover have "?ts = filter (\<lambda>t. \<exists>stage \<in> set stages. \<not> has_ended stage \<and> rr_stage stage = time_stage t) stage_times"
    unfolding unfinished_times_def by (rule filter_cong) (auto simp: basis_def image_iff Bex_def eq_commute)
  moreover have "burn * (sum_list xs' / 60000) \<le> cost"
    unfolding cost ms using \<open>0 \<le> burn\<close> xs'(2) by (intro mult_left_mono divide_right_mono) simp_all
  ultimately show ?thesis
    using xs'(2,4) xs3 ms then_ by (intro exI [of _ "sum_list xs'"] exI [of _ "burn * (sum_list xs' / 60000)"]) simp
qed

text \<open>Two earlier runs of a case that graded its first stage.\<close>

definition blank_stage_file :: stage_file where
  "blank_stage_file = \<lparr>sf_attempts = None, sf_corpus_files = None, sf_corpus_version = None, sf_cost_usd = None, sf_elapsed_ms = None,
     sf_grade = None, sf_hard_blockers = None, sf_input = None, sf_judge_provider_calls = None, sf_product_owner_cost_usd = None,
     sf_product_owner_provider_calls = None, sf_read_manifest = None, sf_run_elapsed_ms = None, sf_session = None, sf_status = None\<rparr>"

definition archived_manifest :: run_manifest where
  "archived_manifest = \<lparr>mf_case_id = ''tabs'', mf_corpus_version = None, mf_effort = None, mf_minimum_grade = None,
     mf_model = ''opus'', mf_stages = [''plan'', ''build''], mf_source_root = ''/src'', mf_source_sha = ''abc'',
     mf_spend_ceiling_usd = None, mf_target_root = None, mf_task_id = ''t''\<rparr>"

definition sample_archive :: stage_archive where
  "sample_archive = \<lparr>ar_names = [''a'', ''b'', ''c''], ar_manifest = (\<lambda>name. Some (ReadGave archived_manifest)),
     ar_stage_file = (\<lambda>name stage. ReadGave (if stage = ''plan''
       then Some (blank_stage_file\<lparr>sf_elapsed_ms := Some (if name = ''a'' then 10 else 30)\<rparr>) else None))\<rparr>"

lemma sample_stage_times:
  "read_stage_times sample_archive ''c'' =
     Inr [TimeAvailable ''plan'' 20, TimeUnavailable ''build'' [no_recorded_time_reason ''build'']]"
  by (simp add: read_stage_times_def sample_archive_def archived_manifest_def earlier_runs_of_case_def stage_status_def
      blank_stage_file_def stage_time_of_def median_def real_sorted at_or_def Let_def)

lemma stage_times_exact_witness:
  "middle_of 20 (prior_times sample_archive ''c'' ''tabs'' ''plan'') \<and> prior_times sample_archive ''c'' ''tabs'' ''build'' = []"
proof -
  have "ar_manifest sample_archive ''c'' = Some (ReadGave archived_manifest)" by (simp add: sample_archive_def)
  from stage_times_exact [OF sample_stage_times this] show ?thesis by (simp add: archived_manifest_def)
qed

definition sample_progress :: running_progress where
  "sample_progress = \<lparr>pg_stage = ''plan'', pg_stage_state = [], pg_elapsed_ms = 60000, pg_stage_elapsed_ms = Some 5,
     pg_measured_at = ''t'', pg_spent_usd = 1, pg_spend_scope = [], pg_run_spent_usd = Some 1, pg_run_tokens = None,
     pg_ceiling_usd = None, pg_judge = None\<rparr>"

definition sample_unfinished :: "string \<Rightarrow> run_record_stage" where
  "sample_unfinished name = stage_record \<lparr>st_stage = name, st_file = None, st_checkpoint = None, st_place = CurrentPlace\<rparr>
     \<lparr>sc_checkpoints = (\<lambda>_. None), sc_checkpoint_short_id = Unavailable [], sc_minimum_grade = None,
       sc_inputs = \<lparr>ai_entries = [], ai_missing = []\<rparr>\<rparr>"

lemma estimate_only_falls_witness:
  "\<exists>ms cost. live_estimate (\<lambda>t. Some 0) [TimeAvailable ''plan'' 20, TimeAvailable ''build'' 40] [sample_unfinished ''plan'', sample_unfinished ''build'']
      sample_progress 100 = EstimateAvailable ms cost \<and> 40 \<le> ms"
proof -
  let ?times = "[TimeAvailable ''plan'' 20, TimeAvailable ''build'' 40]" and ?stages = "[sample_unfinished ''plan'', sample_unfinished ''build'']"
  have open_stages: "\<not> has_ended (sample_unfinished name)" "rr_stage (sample_unfinished name) = name" for name
    by (simp_all add: sample_unfinished_def stage_record_def has_ended_def stage_status_def)
  have "live_estimate (\<lambda>t. Some 0) ?times ?stages sample_progress 3 = EstimateAvailable 52 (52 / 60000)"
    by (simp add: live_estimate_def remaining_estimate_def remaining_stage_times_def open_stages sample_progress_def burn_per_minute_def
        live_elapsed_ms_def)
  from estimate_only_falls [OF this, of 100] show ?thesis
    by (auto simp: open_stages sample_progress_def)
qed

end
