(* ===== verification/CommandLine.thy ===== *)
theory CommandLine
  imports Prelude "HOL-Library.Sublist"
begin

text \<open>
  The command line as the program reads it, under \<open>src/src/cli\<close>: what a command declares (\<open>command-contract.ts\<close>),
  the tokens after its name (\<open>command-arguments.ts\<close>), the value of a flag among them (\<open>command-flags.ts\<close>) and the
  help it prints (\<open>commands.ts\<close>). A refused line is \<open>Inl\<close> of the usage error's message.
\<close>

subsection \<open>What a command declares\<close>

datatype flag_kind = ValueFlag | SwitchFlag

record flag_definition =
  fd_name :: string
  fd_kind :: flag_kind
  fd_env :: "string option"
  fd_default :: "string option"
  fd_help :: string

datatype confinement = ConfineAlways | ConfineNever | ConfineByCase

record command_definition =
  cd_name :: string
  cd_summary :: string
  cd_confinement :: confinement
  cd_argument :: "string option"
  cd_flags :: "flag_definition list"

record command_line =
  cl_help_requested :: bool
  cl_argument :: "string option"
  cl_json :: bool
  cl_flags :: "string list"

definition HELP_FLAG :: string where
  "HELP_FLAG = ''--help''"

definition JSON_FLAG :: string where
  "JSON_FLAG = ''--json''"

subsection \<open>Reading the tokens\<close>

definition declares :: "command_definition \<Rightarrow> string \<Rightarrow> bool" where
  "declares command name \<longleftrightarrow> list_ex (\<lambda>flag. fd_name flag = name) (cd_flags command)"

definition takes_value :: "command_definition \<Rightarrow> string \<Rightarrow> bool" where
  "takes_value command name \<longleftrightarrow> list_ex (\<lambda>flag. fd_name flag = name \<and> fd_kind flag = ValueFlag) (cd_flags command)"

record argument_state =
  as_argument :: "string option"
  as_json :: bool
  as_flags :: "string list"

definition usage_of :: "string \<Rightarrow> string \<Rightarrow> string \<Rightarrow> command_definition \<Rightarrow> string" where
  "usage_of what token rest command = what @ token @ rest @ '' for rehearse '' @ cd_name command"

fun read_arguments :: "command_definition \<Rightarrow> string list \<Rightarrow> argument_state \<Rightarrow> string + argument_state" where
  "read_arguments command [] st = Inr st"
| "read_arguments command (token # rest) st =
     (if starts_with token ''-''
      then (if \<not> declares command token then Inl (usage_of ''Unknown flag '' token [] command)
            else if token = JSON_FLAG then read_arguments command rest (st\<lparr>as_json := True\<rparr>)
            else if takes_value command token
            then (case rest of
                    [] \<Rightarrow> Inl (usage_of ''Flag '' token '' needs a value'' command)
                  | v # others \<Rightarrow>
                      if declares command v then Inl (usage_of ''Flag '' token '' needs a value'' command)
                      else read_arguments command others (st\<lparr>as_flags := as_flags st @ [token, v]\<rparr>))
            else read_arguments command rest (st\<lparr>as_flags := as_flags st @ [token]\<rparr>))
      else if cd_argument command = None \<or> as_argument st \<noteq> None
      then Inl (usage_of ''Unexpected argument '' token [] command)
      else read_arguments command rest (st\<lparr>as_argument := Some token\<rparr>))"

definition parse_command_line :: "command_definition \<Rightarrow> string list \<Rightarrow> string + command_line" where
  "parse_command_line command args =
     (if HELP_FLAG \<in> set args
      then Inr \<lparr>cl_help_requested = True, cl_argument = None, cl_json = False, cl_flags = args\<rparr>
      else bind_res (read_arguments command args \<lparr>as_argument = None, as_json = False, as_flags = []\<rparr>) (\<lambda>st.
        Inr \<lparr>cl_help_requested = False, cl_argument = as_argument st, cl_json = as_json st, cl_flags = as_flags st\<rparr>))"

definition flag_value :: "string list \<Rightarrow> string \<Rightarrow> string option" where
  "flag_value flags name =
     (case find_index (\<lambda>f. f = name) flags of
        None \<Rightarrow> None
      | Some i \<Rightarrow> if i + 1 < length flags then Some (flags ! (i + 1)) else None)"

definition repeated_flag_values :: "string list \<Rightarrow> string \<Rightarrow> string list" where
  "repeated_flag_values flags name =
     map snd (filter (\<lambda>(flag, v). flag = name) (zip flags (tl flags)))"

subsection \<open>Help\<close>

definition text_column :: "nat \<Rightarrow> string \<Rightarrow> string" where
  "text_column n s = s @ replicate (n - length s) (CHR '' '')"

definition flag_line :: "flag_definition \<Rightarrow> string" where
  "flag_line flag =
     (let qualifiers =
            (case fd_default flag of None \<Rightarrow> [] | Some d \<Rightarrow> [''default '' @ d])
            @ (case fd_env flag of None \<Rightarrow> [] | Some e \<Rightarrow> [''env '' @ e]);
          suffix = (if qualifiers = [] then [] else '' ('' @ join_with '', '' qualifiers @ '')'')
      in ''  '' @ fd_name flag @ (if fd_kind flag = ValueFlag then '' <value>'' else []) @ '': '' @ fd_help flag @ suffix)"

definition NEWLINE :: string where
  "NEWLINE = [CHR 0x0A]"

definition command_help :: "command_definition \<Rightarrow> string" where
  "command_help command =
     (let usage = join_with '' ''
            ([''rehearse'', cd_name command]
             @ (case cd_argument command of None \<Rightarrow> [] | Some a \<Rightarrow> [''<'' @ a @ ''>''])
             @ (if cd_flags command = [] then [] else [''[flags]'']));
          flags = (if cd_flags command = [] then [] else [[], ''Flags:''] @ map flag_line (cd_flags command))
      in join_with NEWLINE ([''Usage: '' @ usage, [], cd_summary command] @ flags @ [[]]))"

definition top_level_help :: "command_definition list \<Rightarrow> string" where
  "top_level_help commands =
     (let column = fold max (map (\<lambda>c. length (cd_name c)) commands) 0 + 2
      in join_with NEWLINE
           ([''Usage: rehearse <command> [flags]'', [], ''Commands:'']
            @ map (\<lambda>c. ''  '' @ text_column column (cd_name c) @ cd_summary c) commands
            @ [[], ''Exit codes:'',
               ''  0  the command completed and wrote its record, whatever the grade'',
               ''  1  execution failure'', ''  2  usage error'', ''  3  refused precondition'', [],
               ''Run `rehearse <command> --help` for a command'' @ CHR 0x27 # ''s flags.'', []]))"

subsection \<open>Lines by their parts\<close>

text \<open>What the user wrote, part by part.\<close>

datatype line_part = ArgumentPart string | JsonPart | SwitchPart string | ValuePart string string

fun part_tokens :: "line_part \<Rightarrow> string list" where
  "part_tokens (ArgumentPart a) = [a]"
| "part_tokens JsonPart = [JSON_FLAG]"
| "part_tokens (SwitchPart f) = [f]"
| "part_tokens (ValuePart f v) = [f, v]"

fun part_ok :: "command_definition \<Rightarrow> line_part \<Rightarrow> bool" where
  "part_ok command (ArgumentPart a) = (\<not> starts_with a ''-'' \<and> cd_argument command \<noteq> None)"
| "part_ok command JsonPart = declares command JSON_FLAG"
| "part_ok command (SwitchPart f) = (starts_with f ''-'' \<and> declares command f \<and> f \<noteq> JSON_FLAG \<and> \<not> takes_value command f)"
| "part_ok command (ValuePart f v) = (starts_with f ''-'' \<and> takes_value command f \<and> f \<noteq> JSON_FLAG \<and> \<not> declares command v)"

fun part_flags :: "line_part \<Rightarrow> string list" where
  "part_flags (SwitchPart f) = [f]"
| "part_flags (ValuePart f v) = [f, v]"
| "part_flags _ = []"

definition arguments_of :: "line_part list \<Rightarrow> string list" where
  "arguments_of parts = concat (map (\<lambda>p. case p of ArgumentPart a \<Rightarrow> [a] | _ \<Rightarrow> []) parts)"

definition line_ok :: "command_definition \<Rightarrow> line_part list \<Rightarrow> bool" where
  "line_ok command parts \<longleftrightarrow> list_all (part_ok command) parts \<and> length (arguments_of parts) \<le> 1"

definition line_state :: "line_part list \<Rightarrow> argument_state \<Rightarrow> argument_state" where
  "line_state parts st =
     \<lparr>as_argument = (if as_argument st = None then (case arguments_of parts of [] \<Rightarrow> None | a # _ \<Rightarrow> Some a) else as_argument st),
      as_json = (as_json st \<or> JsonPart \<in> set parts), as_flags = as_flags st @ concat (map part_flags parts)\<rparr>"

lemma takes_value_declares: "takes_value command f \<Longrightarrow> declares command f"
  by (auto simp: takes_value_def declares_def list_ex_iff)

lemma json_starts [simp]: "starts_with JSON_FLAG ''-''"
  by (simp add: JSON_FLAG_def)

lemma read_parts:
  assumes "list_all (part_ok command) parts"
    and "length (arguments_of parts) + (if as_argument st = None then 0 else 1) \<le> 1"
  shows "read_arguments command (concat (map part_tokens parts)) st = Inr (line_state parts st)"
  using assms
proof (induction parts arbitrary: st)
  case Nil
  then show ?case by (simp add: line_state_def arguments_of_def)
next
  case (Cons p parts)
  show ?case
  proof (cases p)
    case (ArgumentPart a)
    then have "as_argument st = None" "arguments_of parts = []"
      using Cons.prems(2) by (auto simp: arguments_of_def split: if_splits)
    then show ?thesis using ArgumentPart Cons.prems Cons.IH [of "st\<lparr>as_argument := Some a\<rparr>"]
      by (simp add: line_state_def arguments_of_def)
  next
    case JsonPart
    then show ?thesis using Cons.prems Cons.IH [of "st\<lparr>as_json := True\<rparr>"]
      by (simp add: line_state_def arguments_of_def)
  next
    case (SwitchPart f)
    then show ?thesis using Cons.prems Cons.IH [of "st\<lparr>as_flags := as_flags st @ [f]\<rparr>"]
      by (simp add: line_state_def arguments_of_def)
  next
    case (ValuePart f v)
    then show ?thesis using Cons.prems Cons.IH [of "st\<lparr>as_flags := as_flags st @ [f, v]\<rparr>"] takes_value_declares [of command f]
      by (simp add: line_state_def arguments_of_def)
  qed
qed

lemma read_arguments_parts:
  assumes "read_arguments command args st = Inr st'"
  shows "\<exists>parts. args = concat (map part_tokens parts) \<and> list_all (part_ok command) parts \<and>
    length (arguments_of parts) + (if as_argument st = None then 0 else 1) \<le> 1"
  using assms
proof (induction command args st rule: read_arguments.induct)
  case (1 command st)
  then show ?case by (intro exI [of _ "[]"]) (simp add: arguments_of_def)
next
  case (2 command token rest st)
  have add: "\<exists>parts. token # rest = concat (map part_tokens parts) \<and> list_all (part_ok command) parts \<and>
      length (arguments_of parts) + (if as_argument st = None then 0 else 1) \<le> 1"
    if "\<exists>parts. others = concat (map part_tokens parts) \<and> list_all (part_ok command) parts \<and>
        length (arguments_of parts) + (if as_argument st = None then 0 else 1) \<le> 1"
      and "token # rest = part_tokens p @ others" "part_ok command p" "arguments_of [p] = []" for p others
  proof -
    from that(1) obtain parts where "others = concat (map part_tokens parts)" "list_all (part_ok command) parts"
      "length (arguments_of parts) + (if as_argument st = None then 0 else 1) \<le> 1" by blast
    then show ?thesis using that(2-) by (intro exI [of _ "p # parts"]) (simp add: arguments_of_def)
  qed
  show ?case
  proof (cases "starts_with token ''-''")
    case flag: True
    with "2.prems" have d: "declares command token" by (auto split: if_splits)
    show ?thesis
    proof (cases "token = JSON_FLAG")
      case True
      with flag d "2.prems" have "read_arguments command rest (st\<lparr>as_json := True\<rparr>) = Inr st'" by simp
      then show ?thesis using "2.IH"(1) flag d True add [of rest JsonPart] by (simp add: arguments_of_def)
    next
      case no_json: False
      show ?thesis
      proof (cases "takes_value command token")
        case True
        with flag d no_json "2.prems" obtain v others where r: "rest = v # others" "\<not> declares command v"
          and n: "read_arguments command others (st\<lparr>as_flags := as_flags st @ [token, v]\<rparr>) = Inr st'"
          by (auto split: list.splits if_splits)
        show ?thesis
          using "2.IH"(2) [OF flag _ no_json True r n] d flag no_json True r add [of others "ValuePart token v"]
          by (simp add: arguments_of_def)
      next
        case False
        with flag d no_json "2.prems" have "read_arguments command rest (st\<lparr>as_flags := as_flags st @ [token]\<rparr>) = Inr st'" by simp
        then show ?thesis using "2.IH"(3) [OF flag _ no_json False] d flag no_json False add [of rest "SwitchPart token"]
          by (simp add: arguments_of_def)
      qed
    qed
  next
    case False
    with "2.prems" have free: "cd_argument command \<noteq> None" "as_argument st = None"
      and n: "read_arguments command rest (st\<lparr>as_argument := Some token\<rparr>) = Inr st'"
      by (auto split: if_splits)
    with "2.IH"(4) [OF False] obtain parts where "rest = concat (map part_tokens parts)" "list_all (part_ok command) parts"
      "arguments_of parts = []" by auto
    then show ?thesis using free False by (intro exI [of _ "ArgumentPart token # parts"]) (simp add: arguments_of_def)
  qed
qed

text \<open>The value the parts give a flag, each time it is given.\<close>

definition values_given :: "line_part list \<Rightarrow> string \<Rightarrow> string list" where
  "values_given parts name = concat (map (\<lambda>p. case p of ValuePart f v \<Rightarrow> if f = name then [v] else [] | _ \<Rightarrow> []) parts)"

lemma repeated_Cons:
  "repeated_flag_values [] name = []"
  "repeated_flag_values [f] name = []"
  "repeated_flag_values (f # v # fs) name = (if f = name then [v] else []) @ repeated_flag_values (v # fs) name"
  by (simp_all add: repeated_flag_values_def)

lemma repeated_values:
  assumes "list_all (part_ok command) parts" and "takes_value command name"
  shows "repeated_flag_values (concat (map part_flags parts)) name = values_given parts name"
  using assms(1)
proof (induction parts)
  case Nil
  then show ?case by (simp add: values_given_def repeated_Cons)
next
  case (Cons p parts)
  let ?fs = "concat (map part_flags parts)"
  have skip: "repeated_flag_values (f # fs) name = repeated_flag_values fs name" if "f \<noteq> name" for f fs
    using that by (cases fs) (simp_all add: repeated_Cons)
  have IH: "repeated_flag_values ?fs name = values_given parts name" using Cons by simp
  show ?case
  proof (cases p)
    case (SwitchPart f)
    then have "f \<noteq> name" using Cons.prems assms(2) by auto
    then show ?thesis using SwitchPart skip [of f] IH by (simp add: values_given_def)
  next
    case (ValuePart f v)
    then have "v \<noteq> name" using Cons.prems assms(2) takes_value_declares by auto
    then show ?thesis using ValuePart skip [of v] IH by (simp add: values_given_def repeated_Cons)
  qed (use IH in \<open>simp_all add: values_given_def\<close>)
qed

lemma flag_value_first:
  assumes "list_all (part_ok command) parts" and "takes_value command name"
  shows "flag_value (concat (map part_flags parts)) name = (case values_given parts name of [] \<Rightarrow> None | v # _ \<Rightarrow> Some v)"
  using assms(1)
proof (induction parts)
  case Nil
  then show ?case by (simp add: values_given_def flag_value_def)
next
  case (Cons p parts)
  let ?fs = "concat (map part_flags parts)"
  have skip: "flag_value (f # fs) name = flag_value fs name" if "f \<noteq> name" for f fs
    using that by (simp add: flag_value_def split: option.split)
  have IH: "flag_value ?fs name = (case values_given parts name of [] \<Rightarrow> None | v # _ \<Rightarrow> Some v)" using Cons by simp
  show ?case
  proof (cases p)
    case (SwitchPart f)
    then have "f \<noteq> name" using Cons.prems assms(2) by auto
    then show ?thesis using SwitchPart skip [of f] IH by (simp add: values_given_def)
  next
    case (ValuePart f v)
    then have "v \<noteq> name" using Cons.prems assms(2) takes_value_declares by auto
    then have "flag_value (f # v # ?fs) name = (if f = name then Some v else flag_value ?fs name)"
      using skip [of f "v # ?fs"] skip [of v ?fs] by (simp add: flag_value_def)
    then show ?thesis using ValuePart IH by (simp add: values_given_def)
  qed (use IH in \<open>simp_all add: values_given_def\<close>)
qed

lemma switch_given:
  assumes "list_all (part_ok command) parts" and "declares command name" and "\<not> takes_value command name" and "name \<noteq> JSON_FLAG"
  shows "name \<in> set (concat (map part_flags parts)) \<longleftrightarrow> SwitchPart name \<in> set parts"
  using assms(1)
proof (induction parts)
  case (Cons p parts)
  then show ?case using assms(2,3) by (cases p) auto
qed simp

text \<open>C23: A command line that does not ask for help is accepted exactly when its tokens are a sequence of parts the command
declares: switches, flags with a value that is itself no flag of the command, the JSON flag and at most one argument,
which does not begin with a dash. What is read from it is then what the parts say: the argument, whether JSON is asked
for, of every flag the values it is given in order, and which switches are set.\<close>

theorem command_line_exact:
  assumes "HELP_FLAG \<notin> set args"
  shows "(parse_command_line command args = Inr line) \<longleftrightarrow>
    (\<exists>parts. args = concat (map part_tokens parts) \<and> line_ok command parts \<and>
       line = \<lparr>cl_help_requested = False, cl_argument = (case arguments_of parts of [] \<Rightarrow> None | a # _ \<Rightarrow> Some a),
         cl_json = (JsonPart \<in> set parts), cl_flags = concat (map part_flags parts)\<rparr> \<and>
       (\<forall>name. takes_value command name \<longrightarrow>
          repeated_flag_values (cl_flags line) name = values_given parts name \<and>
          flag_value (cl_flags line) name = (case values_given parts name of [] \<Rightarrow> None | v # _ \<Rightarrow> Some v)) \<and>
       (\<forall>name. declares command name \<and> \<not> takes_value command name \<and> name \<noteq> JSON_FLAG \<longrightarrow>
          (name \<in> set (cl_flags line) \<longleftrightarrow> SwitchPart name \<in> set parts)))"
    (is "?parsed \<longleftrightarrow> (\<exists>parts. ?written parts)")
proof
  let ?start = "\<lparr>as_argument = None, as_json = False, as_flags = []\<rparr>"
  assume p: ?parsed
  then obtain st where st: "read_arguments command args ?start = Inr st"
    and line: "line = \<lparr>cl_help_requested = False, cl_argument = as_argument st, cl_json = as_json st, cl_flags = as_flags st\<rparr>"
    using assms by (auto simp: parse_command_line_def elim: bind_res.elims)
  from read_arguments_parts [OF st] obtain parts where parts: "args = concat (map part_tokens parts)"
    "list_all (part_ok command) parts" "length (arguments_of parts) \<le> 1" by auto
  with st have "st = line_state parts ?start" using read_parts [of command parts ?start] by simp
  then have "?written parts"
    using parts line repeated_values [OF parts(2)] flag_value_first [OF parts(2)] switch_given [OF parts(2)]
    by (simp add: line_state_def line_ok_def)
  then show "\<exists>parts. ?written parts" by blast
next
  assume "\<exists>parts. ?written parts"
  then obtain parts where "?written parts" by blast
  then show ?parsed
    using assms read_parts [of command parts "\<lparr>as_argument = None, as_json = False, as_flags = []\<rparr>"]
    by (simp add: parse_command_line_def line_ok_def line_state_def)
qed

subsection \<open>The loop of the parser\<close>

text \<open>\<open>CommandArguments\<close> reads by an index into the tokens; every step answers the next index or throws.\<close>

definition append_argument :: "command_definition \<Rightarrow> string \<Rightarrow> nat \<Rightarrow> argument_state \<Rightarrow> string + nat \<times> argument_state" where
  "append_argument command token index st =
     (if cd_argument command = None \<or> as_argument st \<noteq> None
      then Inl (usage_of ''Unexpected argument '' token [] command)
      else Inr (index + 1, st\<lparr>as_argument := Some token\<rparr>))"

definition append_value :: "command_definition \<Rightarrow> string list \<Rightarrow> string \<Rightarrow> nat \<Rightarrow> argument_state \<Rightarrow> string + nat \<times> argument_state" where
  "append_value command args token index st =
     (if \<not> index + 1 < length args \<or> declares command (args ! (index + 1))
      then Inl (usage_of ''Flag '' token '' needs a value'' command)
      else Inr (index + 2, st\<lparr>as_flags := as_flags st @ [args ! (index + 1)]\<rparr>))"

definition append_flag :: "command_definition \<Rightarrow> string list \<Rightarrow> string \<Rightarrow> nat \<Rightarrow> argument_state \<Rightarrow> string + nat \<times> argument_state" where
  "append_flag command args token index st =
     (if \<not> declares command token then Inl (usage_of ''Unknown flag '' token [] command)
      else if token = JSON_FLAG then Inr (index + 1, st\<lparr>as_json := True\<rparr>)
      else if takes_value command token
      then append_value command args token index (st\<lparr>as_flags := as_flags st @ [token]\<rparr>)
      else Inr (index + 1, st\<lparr>as_flags := as_flags st @ [token]\<rparr>))"

definition append_token :: "command_definition \<Rightarrow> string list \<Rightarrow> nat \<Rightarrow> argument_state \<Rightarrow> string + nat \<times> argument_state" where
  "append_token command args index st =
     (let token = args ! index
      in if starts_with token ''-'' then append_flag command args token index st
         else append_argument command token index st)"

partial_function (option) parse_loop ::
    "command_definition \<Rightarrow> string list \<Rightarrow> nat \<Rightarrow> argument_state \<Rightarrow> (string + argument_state) option" where
  "parse_loop command args index st =
     (if index < length args
      then (case append_token command args index st of
              Inl message \<Rightarrow> Some (Inl message)
            | Inr (next_index, st') \<Rightarrow> parse_loop command args next_index st')
      else Some (Inr st))"

lemma parse_loop_past: "length args \<le> index \<Longrightarrow> parse_loop command args index st = Some (Inr st)"
  by (simp add: parse_loop.simps)

text \<open>C40: The parser's loop over the tokens ends on every command line, wherever it stands and whatever it has read, with
the usage error or the reading of the rest of the line.\<close>

theorem parse_loop_terminates:
  "parse_loop command args index st = Some (read_arguments command (drop index args) st)"
proof (induction "length args - index" arbitrary: index st rule: less_induct)
  case less
  show ?case
  proof (cases "index < length args")
    case False
    then show ?thesis by (simp add: parse_loop_past)
  next
    case True
    then have d: "drop index args = args ! index # drop (index + 1) args"
      by (simp add: Cons_nth_drop_Suc)
    have IH1: "parse_loop command args (index + 1) st' = Some (read_arguments command (drop (index + 1) args) st')" for st'
      using less [of "index + 1"] True by simp
    have IH2: "parse_loop command args (index + 2) st' = Some (read_arguments command (drop (index + 2) args) st')" for st'
      using less [of "index + 2"] True by simp
    have d2: "drop (index + 1) args = args ! (index + 1) # drop (index + 2) args" if "index + 1 < length args"
      using that by (simp add: Cons_nth_drop_Suc)
    show ?thesis
    proof (cases "index + 1 < length args")
      case more: True
      show ?thesis
        unfolding parse_loop.simps [of command args index st] append_token_def append_flag_def append_value_def append_argument_def
        using True more d d2 [OF more] by (simp add: Let_def IH1 [simplified] IH2 [simplified])
    next
      case last: False
      then have "drop (index + 1) args = []" by simp
      then show ?thesis
        unfolding parse_loop.simps [of command args index st] append_token_def append_flag_def append_value_def append_argument_def
        using True last d by (simp add: Let_def IH1 [simplified])
    qed
  qed
qed

definition sample_command :: command_definition where
  "sample_command =
     \<lparr>cd_name = ''replay'', cd_summary = [], cd_confinement = ConfineAlways, cd_argument = Some ''run'',
      cd_flags = [\<lparr>fd_name = ''--stage'', fd_kind = ValueFlag, fd_env = None, fd_default = None, fd_help = []\<rparr>,
                  \<lparr>fd_name = ''--confirm'', fd_kind = SwitchFlag, fd_env = None, fd_default = None, fd_help = []\<rparr>]\<rparr>"

theorem command_line_exact_witness:
  "\<exists>parts. [''r1'', ''--stage'', ''build'', ''--confirm''] = concat (map part_tokens parts) \<and> line_ok sample_command parts \<and>
     flag_value (concat (map part_flags parts)) ''--stage'' = (case values_given parts ''--stage'' of [] \<Rightarrow> None | v # _ \<Rightarrow> Some v)"
proof -
  let ?args = "[''r1'', ''--stage'', ''build'', ''--confirm'']"
  have "HELP_FLAG \<notin> set ?args" by (simp add: HELP_FLAG_def)
  moreover have "parse_command_line sample_command ?args =
      Inr \<lparr>cl_help_requested = False, cl_argument = Some ''r1'', cl_json = False, cl_flags = [''--stage'', ''build'', ''--confirm'']\<rparr>"
    by (simp add: parse_command_line_def HELP_FLAG_def JSON_FLAG_def sample_command_def declares_def takes_value_def)
  moreover have "takes_value sample_command ''--stage''" by (simp add: takes_value_def sample_command_def)
  ultimately show ?thesis using command_line_exact [of ?args sample_command] by fastforce
qed

end
