(* ===== verification/CommandCatalog.thy ===== *)
theory CommandCatalog
  imports CommandLine
begin

text \<open>
  The commands of the program as they are declared under \<open>src/src/cli\<close> (\<open>run-command-entry.ts\<close>,
  \<open>replay-command-entry.ts\<close>, \<open>reviews-commands.ts\<close>, \<open>calibrate-command-entry.ts\<close>, \<open>diagnosis-commands.ts\<close>,
  \<open>comparisons-commands.ts\<close>, \<open>records-commands.ts\<close>, \<open>corpus-commands.ts\<close>, \<open>settings-commands.ts\<close>,
  \<open>cases-commands.ts\<close>), the catalog of them (\<open>command-catalog.ts\<close>) and how a command line names one
  (\<open>findCommand\<close> of \<open>commands.ts\<close>).
\<close>

subsection \<open>Declarations\<close>

definition session_flags :: "flag_definition list" where
  "session_flags =
     [\<lparr>fd_name = ''--model'', fd_kind = ValueFlag, fd_env = Some ''BENCHMARK_MODEL'',
       fd_default = None,
       fd_help = ''Model every workflow session and the Product Owner use''\<rparr>,
      \<lparr>fd_name = ''--effort'', fd_kind = ValueFlag, fd_env = Some ''BENCHMARK_EFFORT'',
       fd_default = None,
       fd_help = ''Reasoning effort for the workflow: low, medium, high, xhigh, or max''\<rparr>,
      \<lparr>fd_name = ''--judge-model'', fd_kind = ValueFlag, fd_env = Some ''BENCHMARK_JUDGE_MODEL'',
       fd_default = Some ''opus, or sonnet when the workflow model is opus'',
       fd_help = ''Model the stage and final Judges use''\<rparr>,
      \<lparr>fd_name = ''--judge-effort'', fd_kind = ValueFlag, fd_env = Some ''BENCHMARK_JUDGE_EFFORT'',
       fd_default = Some ''the workflow effort'',
       fd_help = ''Reasoning effort for the Judges''\<rparr>,
      \<lparr>fd_name = ''--session-budget-usd'', fd_kind = ValueFlag, fd_env = Some ''BENCHMARK_SESSION_BUDGET_USD'',
       fd_default = None,
       fd_help = ''Spend limit enforced for each session''\<rparr>,
      \<lparr>fd_name = ''--minimum-grade'', fd_kind = ValueFlag, fd_env = Some ''BENCHMARK_MINIMUM_GRADE'',
       fd_default = Some ''B'',
       fd_help = ''Lowest stage grade a run continues past; the Judge still grades and records as it does now''\<rparr>]"

definition confirmation_flags :: "flag_definition list" where
  "confirmation_flags =
     [\<lparr>fd_name = ''--confirm'', fd_kind = SwitchFlag, fd_env = None,
       fd_default = None,
       fd_help = ''Run a confirmation group instead of one debug rep''\<rparr>,
      \<lparr>fd_name = ''--reps'', fd_kind = ValueFlag, fd_env = None,
       fd_default = Some ''5'',
       fd_help = ''Reps in the confirmation group; at least 2, only with --confirm''\<rparr>,
      \<lparr>fd_name = ''--yes'', fd_kind = SwitchFlag, fd_env = None,
       fd_default = None,
       fd_help = ''Approve the projected cost without a prompt, only with --confirm''\<rparr>,
      \<lparr>fd_name = ''--approved-in-browser'', fd_kind = SwitchFlag, fd_env = None,
       fd_default = None,
       fd_help = (''Record the --yes approval as given in the browser'' @ CHR 0x27 # ''s launch dialog'')\<rparr>]"

definition corpus_flag :: flag_definition where
  "corpus_flag =
     \<lparr>fd_name = ''--corpus'', fd_kind = ValueFlag, fd_env = None,
      fd_default = Some ''the linked corpus, or the live install when none is linked'',
      fd_help = ''Corpus under test: a directory in corpus layout''\<rparr>"

definition json_flag :: flag_definition where
  "json_flag =
     \<lparr>fd_name = ''--json'', fd_kind = SwitchFlag, fd_env = None,
      fd_default = None,
      fd_help = (''Print the record'' @ CHR 0x27 # ''s own bytes on stdout instead of its path'')\<rparr>"

definition run_command :: command_definition where
  "run_command =
     \<lparr>cd_name = ''run'',
      cd_summary = ''Run the pipeline against the target repository and grade it'',
      cd_confinement = ConfineByCase, cd_argument = None,
      cd_flags = [\<lparr>fd_name = ''--case'', fd_kind = ValueFlag, fd_env = Some ''BENCHMARK_CASE'',
          fd_default = Some ''audit-log'',
          fd_help = ''Declared benchmark case under cases/ the run executes''\<rparr>,
         \<lparr>fd_name = ''--target'', fd_kind = ValueFlag, fd_env = Some ''BENCHMARK_TARGET_DIR'',
          fd_default = None,
          fd_help = (''Target repository the pipeline runs in; defaults to the case'' @ CHR 0x27 # ''s declared target'')\<rparr>] @
        session_flags @
        [corpus_flag,
         \<lparr>fd_name = ''--pipeline'', fd_kind = ValueFlag, fd_env = Some ''BENCHMARK_PIPELINE'',
          fd_default = Some (''the case'' @ CHR 0x27 # ''s declared pipeline''),
          fd_help = (''Pipeline definition the run executes, overriding the case'' @ CHR 0x27 # ''s'')\<rparr>,
         \<lparr>fd_name = ''--pause'', fd_kind = SwitchFlag, fd_env = None,
          fd_default = None,
          fd_help = ''Stop with the candidate in the target for an interactive review; needs a terminal''\<rparr>] @
        confirmation_flags @
        [json_flag]\<rparr>"

definition replay_command :: command_definition where
  "replay_command =
     \<lparr>cd_name = ''replay'',
      cd_summary = ''Replay one stage of a recorded run against the current corpus'',
      cd_confinement = ConfineAlways, cd_argument = None,
      cd_flags = [\<lparr>fd_name = ''--run'', fd_kind = ValueFlag, fd_env = None,
          fd_default = None,
          fd_help = ''Name of the recorded run to replay from''\<rparr>,
         \<lparr>fd_name = ''--stage'', fd_kind = ValueFlag, fd_env = None,
          fd_default = None,
          fd_help = (''Stage to replay from that run'' @ CHR 0x27 # ''s checkpoint'')\<rparr>] @
        session_flags @
        [corpus_flag] @
        confirmation_flags @
        [\<lparr>fd_name = ''--without-stage-skill'', fd_kind = SwitchFlag, fd_env = None,
          fd_default = None,
          fd_help = (''Replay the stage on a corpus without its own skill, as a comparison'' @ CHR 0x27 # ''s baseline arm; only with --confirm'')\<rparr>,
         json_flag]\<rparr>"

definition review_command :: command_definition where
  "review_command =
     \<lparr>cd_name = ''review'',
      cd_summary = ''Record a pipeline review, or read/record a saved session human review'',
      cd_confinement = ConfineNever, cd_argument = Some ''run|session-record-id'',
      cd_flags = [\<lparr>fd_name = ''--file'', fd_kind = ValueFlag, fd_env = None,
          fd_default = None,
          fd_help = ''Path to a review JSON file, instead of describing one with the flags below''\<rparr>,
         \<lparr>fd_name = ''--verdict'', fd_kind = ValueFlag, fd_env = None,
          fd_default = None,
          fd_help = ''ACCEPT or REJECT for a pipeline; PASS or FAIL for a session''\<rparr>,
         \<lparr>fd_name = ''--summary'', fd_kind = ValueFlag, fd_env = None,
          fd_default = None,
          fd_help = ''One-line summary of the review''\<rparr>,
         \<lparr>fd_name = ''--finding'', fd_kind = ValueFlag, fd_env = None,
          fd_default = None,
          fd_help = ''One finding as a JSON object; repeat the flag for each finding, in order''\<rparr>,
         json_flag\<lparr>fd_help := ''Print the pipeline review record or session review context as JSON''\<rparr>]\<rparr>"

definition regrade_command :: command_definition where
  "regrade_command =
     \<lparr>cd_name = ''regrade'',
      cd_summary = ''Re-evaluate saved evidence against current checks and rubric; may start a sealed Judge'',
      cd_confinement = ConfineNever, cd_argument = Some ''record-id'',
      cd_flags = [\<lparr>fd_name = ''--model'', fd_kind = ValueFlag, fd_env = Some ''BENCHMARK_MODEL'',
          fd_default = None,
          fd_help = ''Judge model override; authorizes a paid regrade outside a terminal''\<rparr>,
         json_flag]\<rparr>"

definition calibrate_command :: command_definition where
  "calibrate_command =
     \<lparr>cd_name = ''calibrate'',
      cd_summary = (''Rejudge a run'' @ CHR 0x27 # ''s frozen evidence with the current rubrics and record the result''),
      cd_confinement = ConfineNever, cd_argument = Some ''run'',
      cd_flags = [\<lparr>fd_name = ''--confirm-rejudge'', fd_kind = SwitchFlag, fd_env = None,
          fd_default = None,
          fd_help = ''Record a revised Judge result; required when the rejudge changed a grade''\<rparr>,
         json_flag]\<rparr>"

definition diagnose_command :: command_definition where
  "diagnose_command =
     \<lparr>cd_name = ''diagnose'',
      cd_summary = (''Ask one sealed session which corpus file an ended run'' @ CHR 0x27 # ''s outcome traces to, and record its answer''),
      cd_confinement = ConfineNever, cd_argument = Some ''run'',
      cd_flags = [\<lparr>fd_name = ''--model'', fd_kind = ValueFlag, fd_env = None,
          fd_default = None,
          fd_help = ''Model the analysis session uses; required''\<rparr>,
         \<lparr>fd_name = ''--budget-usd'', fd_kind = ValueFlag, fd_env = None,
          fd_default = Some ''1'',
          fd_help = ''Most the analysis call may spend, held under the stored spend ceiling''\<rparr>,
         json_flag]\<rparr>"

definition compare_command :: command_definition where
  "compare_command =
     \<lparr>cd_name = ''compare'',
      cd_summary = ''Report over completed confirmation evidence; runs no session'',
      cd_confinement = ConfineNever, cd_argument = Some ''comparison-manifest.json'',
      cd_flags = [json_flag]\<rparr>"

definition compare_attempts_command :: command_definition where
  "compare_attempts_command =
     \<lparr>cd_name = ''compare attempts'',
      cd_summary = ''Compare two replay confirmation groups at one checkpoint, running only a baseline arm derived from arm A'',
      cd_confinement = ConfineAlways, cd_argument = None,
      cd_flags = [\<lparr>fd_name = ''--arm-a'', fd_kind = ValueFlag, fd_env = None,
          fd_default = None,
          fd_help = ''Group id of the attempt that stands as arm A, the baseline role''\<rparr>,
         \<lparr>fd_name = ''--arm-b'', fd_kind = ValueFlag, fd_env = None,
          fd_default = None,
          fd_help = ''Group id of the attempt that stands as arm B, the candidate role''\<rparr>,
         \<lparr>fd_name = ''--yes'', fd_kind = SwitchFlag, fd_env = None,
          fd_default = None,
          fd_help = (''Approve the baseline group'' @ CHR 0x27 # ''s projected cost without a prompt'')\<rparr>,
         \<lparr>fd_name = ''--approved-in-browser'', fd_kind = SwitchFlag, fd_env = None,
          fd_default = None,
          fd_help = (''Record the --yes approval as given in the browser'' @ CHR 0x27 # ''s launch dialog'')\<rparr>,
         json_flag]\<rparr>"

definition compare_extend_command :: command_definition where
  "compare_extend_command =
     \<lparr>cd_name = ''compare extend'',
      cd_summary = ''Add attempts to every arm of a comparison compare attempts saved, at a stated cost, as a new comparison'',
      cd_confinement = ConfineAlways, cd_argument = None,
      cd_flags = [\<lparr>fd_name = ''--comparison'', fd_kind = ValueFlag, fd_env = None,
          fd_default = None,
          fd_help = ''The saved comparison to extend, as `list comparisons` names it or by its manifest digest''\<rparr>,
         \<lparr>fd_name = ''--attempts'', fd_kind = ValueFlag, fd_env = None,
          fd_default = None,
          fd_help = ''How many attempts to add to each arm''\<rparr>,
         \<lparr>fd_name = ''--yes'', fd_kind = SwitchFlag, fd_env = None,
          fd_default = None,
          fd_help = ''Approve the stated cost without a prompt''\<rparr>,
         \<lparr>fd_name = ''--approved-in-browser'', fd_kind = SwitchFlag, fd_env = None,
          fd_default = None,
          fd_help = (''Record the --yes approval as given in the browser'' @ CHR 0x27 # ''s launch dialog'')\<rparr>,
         json_flag]\<rparr>"

definition list_command :: command_definition where
  "list_command =
     \<lparr>cd_name = ''list'',
      cd_summary = ''List recorded cases, runs, checkpoints, attempts, groups, archived groups, or comparisons'',
      cd_confinement = ConfineNever, cd_argument = Some ''cases|runs|checkpoints|attempts|groups|archived-groups|comparisons'',
      cd_flags = []\<rparr>"

definition show_command :: command_definition where
  "show_command =
     \<lparr>cd_name = ''show'',
      cd_summary = ''Print one record by its id, as its bytes or as a card summary'',
      cd_confinement = ConfineNever, cd_argument = Some ''record-id'',
      cd_flags = [\<lparr>fd_name = ''--checkout'', fd_kind = ValueFlag, fd_env = None,
          fd_default = None,
          fd_help = (''Materialize a run'' @ CHR 0x27 # ''s retained candidate as a detached worktree in the new directory named, and print its path'')\<rparr>,
         json_flag]\<rparr>"

definition stale_command :: command_definition where
  "stale_command =
     \<lparr>cd_name = ''stale'',
      cd_summary = ''List the checkpoints, stopped stages, session attempts, stage replays and confirmation groups an edit invalidated'',
      cd_confinement = ConfineNever, cd_argument = None,
      cd_flags = [corpus_flag,
         \<lparr>fd_name = ''--model'', fd_kind = ValueFlag, fd_env = Some ''BENCHMARK_MODEL'',
          fd_default = Some ''the model each run recorded, asserting nothing'',
          fd_help = ''Model a replay would use, compared against every recorded checkpoint, stopped stage, replay and group''\<rparr>,
         \<lparr>fd_name = ''--effort'', fd_kind = ValueFlag, fd_env = Some ''BENCHMARK_EFFORT'',
          fd_default = Some ''the effort each run recorded, asserting nothing'',
          fd_help = ''Reasoning effort a replay would use: low, medium, high, xhigh, or max''\<rparr>]\<rparr>"

definition corpus_versions_command :: command_definition where
  "corpus_versions_command =
     \<lparr>cd_name = ''corpus versions'',
      cd_summary = ''List the versions a corpus source was measured at, oldest first'',
      cd_confinement = ConfineNever, cd_argument = None,
      cd_flags = [corpus_flag]\<rparr>"

definition corpus_invalidation_command :: command_definition where
  "corpus_invalidation_command =
     \<lparr>cd_name = ''corpus invalidation'',
      cd_summary = ''Count the run-history rows that read each corpus file, and list the rows the last edit invalidated'',
      cd_confinement = ConfineNever, cd_argument = None,
      cd_flags = [corpus_flag]\<rparr>"

definition corpus_show_command :: command_definition where
  "corpus_show_command =
     \<lparr>cd_name = ''corpus show'',
      cd_summary = (''Print a recorded corpus version'' @ CHR 0x27 # ''s files, or one file as that version held it''),
      cd_confinement = ConfineNever, cd_argument = Some ''corpus-version'',
      cd_flags = [\<lparr>fd_name = ''--file'', fd_kind = ValueFlag, fd_env = None,
          fd_default = None,
          fd_help = ''Corpus layout path to print, such as output-styles/brief.md''\<rparr>]\<rparr>"

definition settings_command :: command_definition where
  "settings_command =
     \<lparr>cd_name = ''settings'',
      cd_summary = ''Show the stored spend ceiling, the linked corpus and the records location, or store a new ceiling or link'',
      cd_confinement = ConfineNever, cd_argument = None,
      cd_flags = [\<lparr>fd_name = ''--spend-ceiling-usd'', fd_kind = ValueFlag, fd_env = None,
          fd_default = None,
          fd_help = ''The most a run, replay or session attempt may spend in USD; a confirmation group may spend its attempts times this''\<rparr>,
         \<lparr>fd_name = ''--link-corpus'', fd_kind = ValueFlag, fd_env = None,
          fd_default = None,
          fd_help = ''Directory in corpus layout that commands measure when no --corpus is given; a pipeline run refuses while one is linked''\<rparr>,
         \<lparr>fd_name = ''--unlink-corpus'', fd_kind = SwitchFlag, fd_env = None,
          fd_default = None,
          fd_help = ''Remove the linked corpus, so the live install is measured again''\<rparr>,
         json_flag]\<rparr>"

definition case_list_command :: command_definition where
  "case_list_command =
     \<lparr>cd_name = ''case list'',
      cd_summary = ''List active benchmark cases under cases/'',
      cd_confinement = ConfineNever, cd_argument = None,
      cd_flags = [\<lparr>fd_name = ''--all'', fd_kind = SwitchFlag, fd_env = None,
          fd_default = None,
          fd_help = ''Include archived cases''\<rparr>,
         json_flag]\<rparr>"

definition case_show_command :: command_definition where
  "case_show_command =
     \<lparr>cd_name = ''case show'',
      cd_summary = (''Print one declared benchmark case'' @ CHR 0x27 # ''s declaration''),
      cd_confinement = ConfineNever, cd_argument = Some ''case-id'',
      cd_flags = [json_flag]\<rparr>"

definition case_capture_command :: command_definition where
  "case_capture_command =
     \<lparr>cd_name = ''case capture'',
      cd_summary = (''Capture a session file truncated at a cut as a case'' @ CHR 0x27 # ''s transcript prefix''),
      cd_confinement = ConfineNever, cd_argument = Some ''case-id'',
      cd_flags = [\<lparr>fd_name = ''--session'', fd_kind = ValueFlag, fd_env = None,
          fd_default = None,
          fd_help = (''Session id, or a prefix of one, naming a session this machine recorded: one of the provider'' @ CHR 0x27 # ''s own or one a saved harness attempt holds'')\<rparr>,
         \<lparr>fd_name = ''--cut'', fd_kind = ValueFlag, fd_env = None,
          fd_default = None,
          fd_help = ''0-based index of the first record to drop; the prefix keeps lines [0, cut)''\<rparr>,
         json_flag]\<rparr>"

subsection \<open>The catalog\<close>

definition command_entries :: "command_definition list" where
  "command_entries =
     [run_command, replay_command, review_command, regrade_command, calibrate_command, diagnose_command, compare_command,
      compare_attempts_command, compare_extend_command, list_command, show_command, stale_command, corpus_versions_command,
      corpus_invalidation_command, corpus_show_command, settings_command, case_list_command, case_show_command, case_capture_command]"

definition command_order :: "string list" where
  "command_order =
     [''run'', ''replay'', ''review'', ''diagnose'', ''calibrate'', ''compare'', ''compare attempts'', ''compare extend'', ''list'', ''show'',
      ''regrade'', ''stale'', ''corpus versions'', ''corpus invalidation'', ''corpus show'', ''settings'', ''case list'', ''case show'', ''case capture'']"

definition entry_named :: "string \<Rightarrow> command_definition option" where
  "entry_named name = List.find (\<lambda>entry. cd_name entry = name) command_entries"

text \<open>A name without an entry throws when the catalog is loaded.\<close>

definition COMMANDS :: "string + command_definition list" where
  "COMMANDS = map_res (\<lambda>name. case entry_named name of
     None \<Rightarrow> Inl (''Missing command '' @ name) | Some entry \<Rightarrow> Inr entry) command_order"

definition command_tokens :: "command_definition \<Rightarrow> string list" where
  "command_tokens command = split_on (CHR '' '') (cd_name command)"

definition names_command :: "string list \<Rightarrow> command_definition \<Rightarrow> bool" where
  "names_command argv command \<longleftrightarrow> take (length (command_tokens command)) argv = command_tokens command"

definition find_command :: "command_definition list \<Rightarrow> string list \<Rightarrow> string + command_definition \<times> string list" where
  "find_command commands argv =
     (case List.find (names_command argv) (sort_key (\<lambda>c. - int (length (cd_name c))) commands) of
        Some command \<Rightarrow> Inr (command, drop (length (command_tokens command)) argv)
      | None \<Rightarrow>
          Inl (''Unknown command '' @ join_with '' '' (take (fold max (map (\<lambda>c. length (command_tokens c)) commands) 0) argv)))"

lemma command_names [simp]:
  "cd_name run_command = ''run''" "cd_name replay_command = ''replay''" "cd_name review_command = ''review''"
  "cd_name regrade_command = ''regrade''" "cd_name calibrate_command = ''calibrate''" "cd_name diagnose_command = ''diagnose''"
  "cd_name compare_command = ''compare''" "cd_name compare_attempts_command = ''compare attempts''"
  "cd_name compare_extend_command = ''compare extend''" "cd_name list_command = ''list''" "cd_name show_command = ''show''"
  "cd_name stale_command = ''stale''" "cd_name corpus_versions_command = ''corpus versions''"
  "cd_name corpus_invalidation_command = ''corpus invalidation''" "cd_name corpus_show_command = ''corpus show''"
  "cd_name settings_command = ''settings''" "cd_name case_list_command = ''case list''" "cd_name case_show_command = ''case show''"
  "cd_name case_capture_command = ''case capture''"
  by (simp_all add: run_command_def replay_command_def review_command_def regrade_command_def calibrate_command_def
      diagnose_command_def compare_command_def compare_attempts_command_def compare_extend_command_def list_command_def
      show_command_def stale_command_def corpus_versions_command_def corpus_invalidation_command_def corpus_show_command_def
      settings_command_def case_list_command_def case_show_command_def case_capture_command_def)

definition catalog :: "command_definition list" where
  "catalog =
     [run_command, replay_command, review_command, diagnose_command, calibrate_command, compare_command,
      compare_attempts_command, compare_extend_command, list_command, show_command, regrade_command, stale_command,
      corpus_versions_command, corpus_invalidation_command, corpus_show_command, settings_command, case_list_command,
      case_show_command, case_capture_command]"

lemma COMMANDS_catalog: "COMMANDS = Inr catalog"
  by (simp add: COMMANDS_def command_order_def entry_named_def command_entries_def catalog_def)

lemma catalog_names: "map cd_name catalog = command_order"
  by (simp add: catalog_def command_order_def)

lemma distinct_catalog: "distinct (map cd_name catalog)"
  unfolding catalog_names by (simp add: command_order_def)

subsection \<open>Finding a command\<close>

lemma join_first: "join_with sep ((x # a) # ls) = x # join_with sep (a # ls)"
  by (cases ls) simp_all

lemma join_split: "join_with [c] (split_on c s) = s"
proof (induction s)
  case (Cons x s)
  then show ?case
    by (cases "split_on c s") (auto simp: join_first)
qed simp

lemma length_split: "length s + 1 = sum_list (map (\<lambda>p. length p + 1) (split_on c s))"
proof (induction s)
  case (Cons x s)
  then show ?case by (cases "split_on c s") auto
qed simp

lemma find_least:
  fixes f :: "'a \<Rightarrow> int"
  assumes "List.find P (sort_key f xs) = Some c"
  shows "c \<in> set xs \<and> P c \<and> (\<forall>d \<in> set xs. P d \<longrightarrow> f c \<le> f d)"
proof -
  let ?s = "sort_key f xs"
  from assms obtain i where i: "i < length ?s" "P (?s ! i)" "c = ?s ! i" "\<forall>j < i. \<not> P (?s ! j)"
    by (auto simp: find_Some_iff)
  have "f c \<le> f d" if "d \<in> set xs" "P d" for d
  proof -
    from that(1) obtain j where j: "j < length ?s" "?s ! j = d" by (metis in_set_conv_nth set_sort)
    then have "i \<le> j" using i(4) that(2) by (metis not_le)
    then have "map f ?s ! i \<le> map f ?s ! j" using j(1) by (intro sorted_nth_mono) simp_all
    then show ?thesis using i(1,3) j by simp
  qed
  moreover have "c \<in> set xs" using i(1,3) by (metis nth_mem set_sort)
  ultimately show ?thesis using i(2,3) by blast
qed

lemma names_command_iff: "names_command argv c \<longleftrightarrow> (\<exists>rest. argv = command_tokens c @ rest)"
  unfolding names_command_def by (metis append_eq_conv_conj append_take_drop_id)

lemma longer_tokens:
  assumes "argv = command_tokens c @ r" and "argv = command_tokens d @ s" and "length (cd_name d) \<le> length (cd_name c)"
  shows "length (command_tokens d) \<le> length (command_tokens c)"
proof (rule ccontr)
  assume "\<not> ?thesis"
  then obtain x xs where d: "command_tokens d = command_tokens c @ x # xs"
    using assms(1,2) by (metis append_eq_append_conv2 append_Nil2 length_append list.exhaust le_add1 linorder_not_le order_refl not_less)
  have "length (cd_name d) + 1 = length (cd_name c) + 1 + sum_list (map (\<lambda>p. length p + 1) (x # xs))"
    using length_split [of "cd_name d" "CHR '' ''"] length_split [of "cd_name c" "CHR '' ''"] d
    by (simp add: command_tokens_def)
  then show False using assms(3) by simp
qed

lemma found_command_iff:
  "find_command catalog argv = Inr (c, rest) \<longleftrightarrow>
     c \<in> set catalog \<and> argv = command_tokens c @ rest \<and>
     (\<forall>d \<in> set catalog. names_command argv d \<longrightarrow> length (command_tokens d) \<le> length (command_tokens c))"
proof -
  let ?found = "List.find (names_command argv) (sort_key (\<lambda>c. - int (length (cd_name c))) catalog)"
  have most: "c \<in> set catalog \<and> names_command argv c \<and>
      (\<forall>d \<in> set catalog. names_command argv d \<longrightarrow> length (command_tokens d) \<le> length (command_tokens c))"
    if "?found = Some c" for c
  proof -
    from find_least [OF that] have c: "c \<in> set catalog" "names_command argv c"
      and least: "\<And>d. d \<in> set catalog \<Longrightarrow> names_command argv d \<Longrightarrow> length (cd_name d) \<le> length (cd_name c)" by auto
    then have "length (command_tokens d) \<le> length (command_tokens c)" if "d \<in> set catalog" "names_command argv d" for d
      using that longer_tokens unfolding names_command_iff by blast
    with c show ?thesis by blast
  qed
  show "find_command catalog argv = Inr (c, rest) \<longleftrightarrow>
     c \<in> set catalog \<and> argv = command_tokens c @ rest \<and>
     (\<forall>d \<in> set catalog. names_command argv d \<longrightarrow> length (command_tokens d) \<le> length (command_tokens c))"
  proof
    assume "find_command catalog argv = Inr (c, rest)"
    then have "?found = Some c" and "rest = drop (length (command_tokens c)) argv"
      by (auto simp: find_command_def split: option.splits)
    with most [of c] show "c \<in> set catalog \<and> argv = command_tokens c @ rest \<and>
        (\<forall>d \<in> set catalog. names_command argv d \<longrightarrow> length (command_tokens d) \<le> length (command_tokens c))"
      by (auto simp: names_command_iff)
  next
    assume r: "c \<in> set catalog \<and> argv = command_tokens c @ rest \<and>
      (\<forall>d \<in> set catalog. names_command argv d \<longrightarrow> length (command_tokens d) \<le> length (command_tokens c))"
    then have n: "names_command argv c" by (auto simp: names_command_iff)
    then obtain c' where c': "?found = Some c'"
      using r by (metis find_None_iff option.exhaust set_sort)
    with most [of c'] r n have "length (command_tokens c') = length (command_tokens c)" "names_command argv c'" "c' \<in> set catalog"
      by (auto intro: le_antisym)
    then have "command_tokens c' = command_tokens c"
      using n by (metis names_command_def)
    then have "cd_name c' = cd_name c" by (metis command_tokens_def join_split)
    then have "c' = c" using distinct_catalog r \<open>c' \<in> set catalog\<close> by (metis distinct_map inj_onD)
    then show "find_command catalog argv = Inr (c, rest)" using c' r by (simp add: find_command_def)
  qed
qed

lemmas found_command = found_command_iff [THEN iffD2]

text \<open>A command line names the command with the most words whose words it begins with, and no other, and what is left
of the line are the command's arguments; a line that begins with no command's words is refused. Every command of the
help's order is declared.\<close>

theorem find_command_exact:
  "COMMANDS = Inr catalog"
  "find_command catalog argv = Inr (c, rest) \<longleftrightarrow>
     c \<in> set catalog \<and> argv = command_tokens c @ rest \<and>
     (\<forall>d \<in> set catalog. names_command argv d \<longrightarrow> length (command_tokens d) \<le> length (command_tokens c))"
  by (rule COMMANDS_catalog) (rule found_command_iff)

theorem find_command_exact_witness:
  "find_command catalog [''compare'', ''attempts'', ''--json''] = Inr (compare_attempts_command, [''--json''])"
  by (rule find_command_exact(2) [THEN iffD2])
    (simp add: command_tokens_def catalog_def names_command_def)

end
