(* ===== verification/CommandDispatch.thy ===== *)
theory CommandDispatch
  imports CommandCatalog
begin

text \<open>
  How a command line is run, under \<open>src/src/cli\<close>: the launch id a browser launch puts ahead of it
  (\<open>launch-option.ts\<close>), which commands hold their sessions in a sandbox (\<open>confinement.ts\<close>, \<open>sandbox.ts\<close>), which need
  a terminal (\<open>interactive-stdin.ts\<close>, \<open>run-interactivity.ts\<close>) and what is dispatched (\<open>entry.ts\<close>).

  The case a run loads, the files that exist, the sandbox of the host and the records directory are arguments. A
  replaced process does not return: what the operating system makes of it is \<open>exec_process\<close>. Whether a process is held
  by a sandbox is known to the system alone; the program reads a mark in its environment instead, which a shell may have
  exported itself.
\<close>

subsection \<open>The launch option\<close>

definition LAUNCH_OPTION :: string where
  "LAUNCH_OPTION = ''--launch''"

definition take_launch_option :: "(string \<Rightarrow> bool) \<Rightarrow> string list \<Rightarrow> string option \<times> string list" where
  "take_launch_option is_launch_id argv =
     (case argv of
        option # i # rest \<Rightarrow> if option = LAUNCH_OPTION \<and> is_launch_id i then (Some i, rest) else (None, argv)
      | _ \<Rightarrow> (None, argv))"

subsection \<open>Confinement\<close>

record session_case =
  sc_fixture_path :: "string option"
  sc_isolated :: bool
  sc_declares_hooks :: bool
  sc_tools :: "string list"

datatype loaded_case = LoadedPipeline | LoadedSession session_case

definition session_can_run_commands :: "(string \<Rightarrow> bool) \<Rightarrow> session_case \<Rightarrow> bool" where
  "session_can_run_commands path_exists c =
     (if \<not> sc_isolated c \<or> sc_tools c \<noteq> [] \<or> sc_declares_hooks c then True
      else (case sc_fixture_path c of None \<Rightarrow> False | Some fixture \<Rightarrow> path_exists (fixture @ ''/.claude'')))"

definition confines_itself :: "(string \<Rightarrow> bool) \<Rightarrow> confinement \<Rightarrow> 'e + loaded_case \<Rightarrow> 'e + bool" where
  "confines_itself path_exists conf run_case =
     (case conf of
        ConfineAlways \<Rightarrow> Inr True
      | ConfineNever \<Rightarrow> Inr False
      | ConfineByCase \<Rightarrow> bind_res run_case (\<lambda>loaded.
          Inr (case loaded of LoadedPipeline \<Rightarrow> True | LoadedSession c \<Rightarrow> session_can_run_commands path_exists c)))"

record process_image =
  pi_path :: string
  pi_args :: "string list"

datatype confined = Confined process_image | ConfineRefused string

definition SANDBOX_EXEC :: string where
  "SANDBOX_EXEC = ''/usr/bin/sandbox-exec''"

definition CONFINEMENT_PROFILE :: string where
  "CONFINEMENT_PROFILE = ''(version 1)(allow default)(deny signal)(allow signal (target same-sandbox))''"

definition macos_sandbox :: "(string \<Rightarrow> bool) \<Rightarrow> string list \<Rightarrow> confined" where
  "macos_sandbox path_exists argv =
     (if \<not> path_exists SANDBOX_EXEC
      then ConfineRefused (''This command confines its sessions with '' @ SANDBOX_EXEC @ '', which this host lacks'')
      else Confined \<lparr>pi_path = SANDBOX_EXEC, pi_args = [''sandbox-exec'', ''-p'', CONFINEMENT_PROFILE] @ argv\<rparr>)"

definition missing_sandbox :: "string \<Rightarrow> string list \<Rightarrow> confined" where
  "missing_sandbox platform argv =
     ConfineRefused (''This command confines its sessions, and Rehearse has no sandbox for '' @ platform @ '', so it runs only on macOS'')"

definition sandbox_for :: "string \<Rightarrow> (string \<Rightarrow> bool) \<Rightarrow> string list \<Rightarrow> confined" where
  "sandbox_for platform path_exists = (if platform = ''darwin'' then macos_sandbox path_exists else missing_sandbox platform)"

definition CONFINED_VARIABLE :: string where
  "CONFINED_VARIABLE = ''REHEARSE_CONFINED''"

type_synonym environment = "(string \<times> string option) list"

definition is_confined :: "environment \<Rightarrow> bool" where
  "is_confined env \<longleftrightarrow> map_of env CONFINED_VARIABLE = Some (Some ''1'')"

text \<open>The values that are set, with the variable's written over.\<close>

definition confined_environment :: "environment \<Rightarrow> environment" where
  "confined_environment env =
     (CONFINED_VARIABLE, Some ''1'') # filter (\<lambda>(name, v). v \<noteq> None \<and> name \<noteq> CONFINED_VARIABLE) env"

subsection \<open>Running a command line\<close>

datatype failure = UsageFailure string | RefusedPrecondition string | OtherFailure string

datatype dispatched =
    HelpPrinted string
  | Failed failure
  | Replaced process_image environment
  | Dispatched string command_line

definition enter_confinement :: "(string list \<Rightarrow> confined) \<Rightarrow> string list \<Rightarrow> environment \<Rightarrow> dispatched" where
  "enter_confinement sandbox argv env =
     (case sandbox argv of
        ConfineRefused reason \<Rightarrow> Failed (RefusedPrecondition reason)
      | Confined img \<Rightarrow> Replaced img (confined_environment env))"

text \<open>What ends the command before it is dispatched, if anything.\<close>

definition confine_if_needed ::
    "(string \<Rightarrow> bool) \<Rightarrow> confinement \<Rightarrow> failure + loaded_case \<Rightarrow> (string list \<Rightarrow> confined) \<Rightarrow> string list \<Rightarrow> environment \<Rightarrow> dispatched option" where
  "confine_if_needed path_exists conf run_case sandbox argv env =
     (if is_confined env then None
      else (case confines_itself path_exists conf run_case of
              Inl failure \<Rightarrow> Some (Failed failure)
            | Inr False \<Rightarrow> None
            | Inr True \<Rightarrow> Some (enter_confinement sandbox argv env)))"

record host =
  ho_path_exists :: "string \<Rightarrow> bool"
  ho_run_case :: "string list \<Rightarrow> failure + loaded_case"
  ho_sandbox :: "string list \<Rightarrow> confined"
  ho_argv :: "string list"
  ho_records_directory :: "string + string"

definition execute_command :: "host \<Rightarrow> environment \<Rightarrow> string list \<Rightarrow> dispatched" where
  "execute_command host env argv =
     (case find_command catalog argv of
        Inl message \<Rightarrow> Failed (UsageFailure message)
      | Inr (command, args) \<Rightarrow>
          (case parse_command_line command args of
             Inl message \<Rightarrow> Failed (UsageFailure message)
           | Inr line \<Rightarrow>
               if cl_help_requested line then HelpPrinted (command_help command)
               else (case confine_if_needed (ho_path_exists host) (cd_confinement command) (ho_run_case host (cl_flags line))
                            (ho_sandbox host) (ho_argv host) env of
                       Some ending \<Rightarrow> ending
                     | None \<Rightarrow>
                         (case ho_records_directory host of
                            Inl message \<Rightarrow> Failed (UsageFailure message)
                          | Inr _ \<Rightarrow> Dispatched (cd_name command) line))))"

subsection \<open>What needs a terminal\<close>

definition require_interactive_stdin :: "bool \<Rightarrow> string \<Rightarrow> string + unit" where
  "require_interactive_stdin stdin_is_terminal reason =
     (if stdin_is_terminal then Inr () else Inl (''stdin is not a terminal: '' @ reason))"

definition require_spend_authorization :: "string list \<Rightarrow> environment \<Rightarrow> bool \<Rightarrow> string + unit" where
  "require_spend_authorization args env stdin_is_terminal =
     (if ''--model'' \<in> set args \<or> (case map_of env ''BENCHMARK_MODEL'' of Some (Some model) \<Rightarrow> model \<noteq> [] | _ \<Rightarrow> False) \<or> stdin_is_terminal
      then Inr ()
      else Inl ''stdin is not a terminal: the case declares the model, so nothing you passed authorizes the spend; pass --model to say which model you meant to pay for'')"

subsection \<open>A command is confined once\<close>

lemma confined_environment_confined [simp]: "is_confined (confined_environment env)"
  by (simp add: is_confined_def confined_environment_def)

lemma confined_dispatches: "is_confined env \<Longrightarrow> confine_if_needed p conf run_case sandbox argv env = None"
  by (simp add: confine_if_needed_def)

lemma confined_environment_keeps:
  assumes "name \<noteq> CONFINED_VARIABLE" and "distinct (map fst env)"
  shows "Option.bind (map_of (confined_environment env) name) id = Option.bind (map_of env name) id"
proof -
  have "map_of (filter (\<lambda>(n, v). v \<noteq> None \<and> n \<noteq> CONFINED_VARIABLE) xs) name =
      (case map_of xs name of None \<Rightarrow> None | Some v \<Rightarrow> if v = None then None else Some v)" if "distinct (map fst xs)" for xs
    using that assms(1)
  proof (induction xs)
    case (Cons p xs)
    have "map_of (filter (\<lambda>(n, v). v \<noteq> None \<and> n \<noteq> CONFINED_VARIABLE) xs) name = None" if "name \<notin> fst ` set xs"
      using that by (auto simp: map_of_eq_None_iff)
    then show ?case using Cons by (cases p) (auto split: option.splits)
  qed simp
  from this [OF assms(2)] show ?thesis
    using assms(1) by (cases "map_of env name") (simp_all add: confined_environment_def)
qed

subsection \<open>The process a command runs in\<close>

text \<open>A process: the command line it was started with, its environment, and whether the operating system holds it, and
all it starts, from signalling anything outside. Its command line is its runtime's and then what the user typed.\<close>

record command_process =
  op_argv :: "string list"
  op_env :: environment
  op_held :: bool

text \<open>\<open>execve\<close> of an image, with the documented meaning of \<open>/usr/bin/sandbox-exec -p PROFILE COMMAND\<close>: the same
process runs the command, held by the profile. A process that is held stays so.\<close>

definition holds_signals :: "process_image \<Rightarrow> bool" where
  "holds_signals img \<longleftrightarrow> pi_path img = ''/usr/bin/sandbox-exec'' \<and>
     take 3 (pi_args img)
       = [''sandbox-exec'', ''-p'', ''(version 1)(allow default)(deny signal)(allow signal (target same-sandbox))'']"

definition exec_process :: "process_image \<Rightarrow> environment \<Rightarrow> command_process \<Rightarrow> command_process" where
  "exec_process img env p =
     (if holds_signals img then \<lparr>op_argv = drop 3 (pi_args img), op_env = env, op_held = True\<rparr>
      else \<lparr>op_argv = pi_args img, op_env = env, op_held = op_held p\<rparr>)"

text \<open>What a process does with its command line, and the process that goes on and what that does.\<close>

definition process_outcome :: "(string \<Rightarrow> bool) \<Rightarrow> nat \<Rightarrow> host \<Rightarrow> command_process \<Rightarrow> dispatched" where
  "process_outcome is_launch_id runtime_words host p =
     execute_command (host\<lparr>ho_argv := op_argv p\<rparr>) (op_env p) (snd (take_launch_option is_launch_id (drop runtime_words (op_argv p))))"

definition settled :: "(string \<Rightarrow> bool) \<Rightarrow> nat \<Rightarrow> host \<Rightarrow> command_process \<Rightarrow> command_process \<times> dispatched" where
  "settled is_launch_id runtime_words host p =
     (case process_outcome is_launch_id runtime_words host p of
        Replaced img env \<Rightarrow> (exec_process img env p, process_outcome is_launch_id runtime_words host (exec_process img env p))
      | outcome \<Rightarrow> (p, outcome))"

text \<open>The commands whose sessions can run a command, as the reference documentation lists them.\<close>

definition sessions_run_commands :: "(string \<Rightarrow> bool) \<Rightarrow> 'e + loaded_case \<Rightarrow> string \<Rightarrow> bool" where
  "sessions_run_commands path_exists run_case name \<longleftrightarrow>
     name \<in> {''replay'', ''compare attempts'', ''compare extend''}
     \<or> name = ''run'' \<and> (run_case = Inr LoadedPipeline \<or> (\<exists>c. run_case = Inr (LoadedSession c) \<and>
         (\<not> sc_isolated c \<or> sc_tools c \<noteq> [] \<or> sc_declares_hooks c
          \<or> (\<exists>fixture. sc_fixture_path c = Some fixture \<and> path_exists (fixture @ ''/.claude'')))))"

lemma session_can_run_commands_iff:
  "session_can_run_commands path_exists c \<longleftrightarrow>
     \<not> sc_isolated c \<or> sc_tools c \<noteq> [] \<or> sc_declares_hooks c
     \<or> (\<exists>fixture. sc_fixture_path c = Some fixture \<and> path_exists (fixture @ ''/.claude''))"
  by (auto simp: session_can_run_commands_def split: option.split)

lemma catalog_confinement:
  "command \<in> set catalog \<Longrightarrow>
     cd_confinement command =
       (if cd_name command \<in> {''replay'', ''compare attempts'', ''compare extend''} then ConfineAlways
        else if cd_name command = ''run'' then ConfineByCase else ConfineNever)"
  unfolding catalog_def list.set insert_iff empty_iff
  by (elim disjE; clarify?)
    (simp_all add: run_command_def replay_command_def review_command_def diagnose_command_def calibrate_command_def
      compare_command_def compare_attempts_command_def compare_extend_command_def list_command_def show_command_def
      regrade_command_def stale_command_def corpus_versions_command_def corpus_invalidation_command_def corpus_show_command_def
      settings_command_def case_list_command_def case_show_command_def case_capture_command_def)

lemma confines_itself_iff:
  assumes "command \<in> set catalog"
  shows "confines_itself path_exists (cd_confinement command) run_case = Inr True \<longleftrightarrow>
    sessions_run_commands path_exists run_case (cd_name command)"
proof (cases "cd_name command = ''run''")
  case run: True
  show ?thesis
  proof (cases run_case)
    case (Inl failure)
    then show ?thesis by (simp add: run catalog_confinement [OF assms] confines_itself_def sessions_run_commands_def)
  next
    case (Inr loaded)
    then show ?thesis
      by (cases loaded)
        (simp_all add: run catalog_confinement [OF assms] confines_itself_def sessions_run_commands_def session_can_run_commands_iff)
  qed
next
  case False
  then show ?thesis by (simp add: catalog_confinement [OF assms] confines_itself_def sessions_run_commands_def)
qed

text \<open>C17: A command whose sessions can run commands is not dispatched by the process it is typed at: with the sandbox
of the platform, that process is replaced by one the system holds, which runs the same command line, marked, and
goes on to dispatch it; without a sandbox it is refused. The process is not replaced again. A command whose sessions
run none replaces nothing. The one exception is a shell that exports the mark itself: there every command
is dispatched where it is.\<close>

theorem confined_once:
  assumes "find_command catalog (snd (take_launch_option is_launch_id (drop n (op_argv p)))) = Inr (command, args)"
    and "parse_command_line command args = Inr line" and "\<not> cl_help_requested line"
    and "ho_sandbox host = sandbox_for platform exists"
  shows "let starts = (case ho_records_directory host of
                 Inl message \<Rightarrow> Failed (UsageFailure message) | Inr directory \<Rightarrow> Dispatched (cd_name command) line);
             risky = sessions_run_commands (ho_path_exists host) (ho_run_case host (cl_flags line)) (cd_name command);
             exported = (map_of (op_env p) ''REHEARSE_CONFINED'' = Some (Some ''1''))
         in (if exported then settled is_launch_id n host p = (p, starts)
             else if \<not> risky
               then fst (settled is_launch_id n host p) = p \<and>
                 (case confines_itself (ho_path_exists host) (cd_confinement command) (ho_run_case host (cl_flags line)) of
                    Inl failure \<Rightarrow> snd (settled is_launch_id n host p) = Failed failure
                  | Inr runs \<Rightarrow> snd (settled is_launch_id n host p) = starts)
             else if platform = ''darwin'' \<and> exists ''/usr/bin/sandbox-exec''
               then op_held (fst (settled is_launch_id n host p)) \<and> op_argv (fst (settled is_launch_id n host p)) = op_argv p
                 \<and> map_of (op_env (fst (settled is_launch_id n host p))) ''REHEARSE_CONFINED'' = Some (Some ''1'')
                 \<and> snd (settled is_launch_id n host p) = starts
             else (\<exists>reason. settled is_launch_id n host p = (p, Failed (RefusedPrecondition reason))))"
proof -
  let ?h = "host\<lparr>ho_argv := op_argv p\<rparr>" and ?argv = "snd (take_launch_option is_launch_id (drop n (op_argv p)))"
  let ?starts = "case ho_records_directory host of Inl message \<Rightarrow> Failed (UsageFailure message) | Inr directory \<Rightarrow> Dispatched (cd_name command) line"
  let ?confines = "confines_itself (ho_path_exists host) (cd_confinement command) (ho_run_case host (cl_flags line))"
  have member: "command \<in> set catalog" using assms(1) found_command_iff by blast
  have outcome: "execute_command (host\<lparr>ho_argv := a\<rparr>) env ?argv =
      (case confine_if_needed (ho_path_exists host) (cd_confinement command) (ho_run_case host (cl_flags line)) (ho_sandbox host) a env of
         Some ending \<Rightarrow> ending | None \<Rightarrow> ?starts)" for a env
    using assms(1-3) by (simp add: execute_command_def split: option.split)
  have marked: "execute_command (host\<lparr>ho_argv := a\<rparr>) env ?argv = ?starts" if "is_confined env" for a env
    using that by (simp add: outcome confined_dispatches)
  have here: "process_outcome is_launch_id n host p = execute_command ?h (op_env p) ?argv" by (simp add: process_outcome_def)
  have not_replaced: "?starts \<noteq> Replaced img env" for img env by (simp split: sum.split)
  have stays: "settled is_launch_id n host p = (p, ?starts)" if "process_outcome is_launch_id n host p = ?starts"
    using that not_replaced by (cases "ho_records_directory host") (simp_all add: settled_def)
  consider (exported) "is_confined (op_env p)" | (failing) failure where "\<not> is_confined (op_env p)" "?confines = Inl failure"
    | (harmless) "\<not> is_confined (op_env p)" "?confines = Inr False" | (risky) "\<not> is_confined (op_env p)" "?confines = Inr True"
    by (metis (full_types) sum.exhaust)
  then show ?thesis
  proof cases
    case exported
    then have "settled is_launch_id n host p = (p, ?starts)" using stays here marked by simp
    then show ?thesis using exported by (simp add: is_confined_def CONFINED_VARIABLE_def)
  next
    case failing
    then have "process_outcome is_launch_id n host p = Failed failure"
      by (simp add: here outcome confine_if_needed_def)
    then have "settled is_launch_id n host p = (p, Failed failure)" by (simp add: settled_def)
    moreover have "\<not> sessions_run_commands (ho_path_exists host) (ho_run_case host (cl_flags line)) (cd_name command)"
      using failing(2) by (simp flip: confines_itself_iff [OF member])
    ultimately show ?thesis using failing by (simp add: is_confined_def CONFINED_VARIABLE_def)
  next
    case harmless
    then have "process_outcome is_launch_id n host p = ?starts" by (simp add: here outcome confine_if_needed_def)
    then have "settled is_launch_id n host p = (p, ?starts)" by (rule stays)
    moreover have "\<not> sessions_run_commands (ho_path_exists host) (ho_run_case host (cl_flags line)) (cd_name command)"
      using harmless(2) by (simp flip: confines_itself_iff [OF member])
    ultimately show ?thesis using harmless by (simp add: is_confined_def CONFINED_VARIABLE_def)
  next
    case risky
    then have entered: "process_outcome is_launch_id n host p = enter_confinement (sandbox_for platform exists) (op_argv p) (op_env p)"
      by (simp add: here outcome confine_if_needed_def assms(4))
    have run: "sessions_run_commands (ho_path_exists host) (ho_run_case host (cl_flags line)) (cd_name command)"
      using risky(2) by (simp flip: confines_itself_iff [OF member])
    show ?thesis
    proof (cases "platform = ''darwin'' \<and> exists ''/usr/bin/sandbox-exec''")
      case True
      let ?img = "\<lparr>pi_path = SANDBOX_EXEC, pi_args = [''sandbox-exec'', ''-p'', CONFINEMENT_PROFILE] @ op_argv p\<rparr>"
      let ?q = "\<lparr>op_argv = op_argv p, op_env = confined_environment (op_env p), op_held = True\<rparr>"
      from True have "process_outcome is_launch_id n host p = Replaced ?img (confined_environment (op_env p))"
        by (simp add: entered enter_confinement_def sandbox_for_def macos_sandbox_def SANDBOX_EXEC_def)
      moreover have "exec_process ?img (confined_environment (op_env p)) p = ?q"
        by (simp add: exec_process_def holds_signals_def SANDBOX_EXEC_def CONFINEMENT_PROFILE_def)
      moreover have "process_outcome is_launch_id n host ?q = ?starts" by (simp add: process_outcome_def marked)
      ultimately have "settled is_launch_id n host p = (?q, ?starts)" by (simp add: settled_def)
      then show ?thesis using True risky(1) run
        by (simp add: is_confined_def CONFINED_VARIABLE_def confined_environment_def)
    next
      case False
      then obtain reason where "process_outcome is_launch_id n host p = Failed (RefusedPrecondition reason)"
        by (cases "platform = ''darwin''")
          (auto simp: entered enter_confinement_def sandbox_for_def macos_sandbox_def missing_sandbox_def SANDBOX_EXEC_def)
      then have "settled is_launch_id n host p = (p, Failed (RefusedPrecondition reason))" by (simp add: settled_def)
      then show ?thesis using False risky(1) run by (auto simp: is_confined_def CONFINED_VARIABLE_def)
    qed
  qed
qed

definition sample_host :: host where
  "sample_host = \<lparr>ho_path_exists = (\<lambda>path. True), ho_run_case = (\<lambda>flags. Inr LoadedPipeline),
     ho_sandbox = sandbox_for ''darwin'' (\<lambda>path. True), ho_argv = [], ho_records_directory = Inr ''runs''\<rparr>"

definition typed_process :: "environment \<Rightarrow> command_process" where
  "typed_process env = \<lparr>op_argv = [''bun'', ''rehearse.ts'', ''replay'', ''--json''], op_env = env, op_held = False\<rparr>"

theorem confined_once_witness:
  "op_held (fst (settled (\<lambda>i. True) 2 sample_host (typed_process [])))
   \<and> snd (settled (\<lambda>i. True) 2 sample_host (typed_process []))
       = Dispatched ''replay'' \<lparr>cl_help_requested = False, cl_argument = None, cl_json = True, cl_flags = []\<rparr>"
proof -
  let ?line = "\<lparr>cl_help_requested = False, cl_argument = None, cl_json = True, cl_flags = []\<rparr>"
  have "find_command catalog [''replay'', ''--json''] = Inr (replay_command, [''--json''])"
    by (rule found_command) (simp_all add: command_tokens_def catalog_def names_command_def)
  then have f: "find_command catalog (snd (take_launch_option (\<lambda>i. True) (drop 2 (op_argv (typed_process []))))) = Inr (replay_command, [''--json''])"
    by (simp add: typed_process_def take_launch_option_def LAUNCH_OPTION_def)
  have "parse_command_line replay_command [''--json''] = Inr ?line"
    by (simp add: parse_command_line_def HELP_FLAG_def JSON_FLAG_def declares_def replay_command_def json_flag_def)
  from confined_once [OF f this, of sample_host "''darwin''" "\<lambda>path. True"] show ?thesis
    by (simp add: sample_host_def typed_process_def Let_def sessions_run_commands_def replay_command_def)
qed

end
