(* ===== verification/LaunchArguments.thy ===== *)
theory LaunchArguments
  imports CommandDispatch RunStatus RedactPath
begin

text \<open>
  The command lines the server starts for the browser (\<open>src/src/server/launch-arguments.ts\<close>) and how the command reads
  its flags back (\<open>src/src/benchmark/configuration-options.ts\<close>, and \<open>parseRunName\<close>, \<open>parseReplayConfirmation\<close> and the
  stage of \<open>src/src/benchmark/replay-configuration.ts\<close>).

  What is on disk is an argument; \<open>Number\<close> of a text is the argument \<open>to_number\<close>, \<open>None\<close> for a text that is no number.
\<close>

subsection \<open>What the server starts\<close>

datatype launch_refusal = RefusedNotFound string | RefusedConflict string

definition confirmation_arguments :: "nat \<Rightarrow> string list" where
  "confirmation_arguments attempts =
     (if attempts = 1 then [] else [''--confirm'', ''--reps'', show_number attempts, ''--yes'', ''--approved-in-browser''])"

datatype declared_kind = PipelineDeclared | SessionDeclared

record declared_case =
  dc_id :: string
  dc_kind :: declared_kind
  dc_model :: "string option"
  dc_effort :: "string option"

text \<open>A case with no declaration file is \<open>None\<close>; one whose declaration is refused is \<open>Inl\<close> of the message. The message
of a refusal to run a pipeline while a directory is linked is \<open>linked_refusal\<close>.\<close>

definition recorded_case_declaration ::
    "string list \<Rightarrow> (string \<Rightarrow> (string + declared_case) option) \<Rightarrow> string \<Rightarrow> launch_refusal + declared_case" where
  "recorded_case_declaration roots cases case_id =
     (if \<not> is_case_id case_id then Inl (RefusedNotFound (''Unknown case '' @ case_id))
      else (case cases case_id of
              None \<Rightarrow> Inl (RefusedNotFound (''Unknown case '' @ case_id))
            | Some (Inl message) \<Rightarrow> Inl (RefusedConflict (redactor_for roots message))
            | Some (Inr declaration) \<Rightarrow> Inr declaration))"

definition undeclared :: "string \<Rightarrow> string \<Rightarrow> launch_refusal" where
  "undeclared case_id knob =
     RefusedConflict (''Case '' @ case_id @ '' declares no '' @ knob @ '', and a launch from the browser has no terminal to pick one on. Declare \"''
       @ knob @ ''\" in its case.json.'')"

definition case_arguments ::
    "string list \<Rightarrow> (string \<Rightarrow> (string + declared_case) option) \<Rightarrow> string option \<Rightarrow> string \<Rightarrow> nat \<Rightarrow> launch_refusal + string list" where
  "case_arguments roots cases linked_refusal case_id attempts =
     bind_res (recorded_case_declaration roots cases case_id) (\<lambda>declaration.
       case dc_model declaration of
         None \<Rightarrow> Inl (undeclared case_id ''model'')
       | Some model \<Rightarrow>
           (case dc_effort declaration of
              None \<Rightarrow> Inl (undeclared case_id ''effort'')
            | Some effort \<Rightarrow>
                (case (dc_kind declaration, linked_refusal) of
                   (PipelineDeclared, Some message) \<Rightarrow> Inl (RefusedConflict (redactor_for roots message))
                 | _ \<Rightarrow> Inr ([''run'', ''--case'', dc_id declaration, ''--model'', model, ''--effort'', effort]
                            @ confirmation_arguments attempts))))"

record recorded_runs =
  ru_names :: "string list"
  ru_manifest :: "string \<Rightarrow> string + run_manifest"
  ru_checkpoint :: "string \<Rightarrow> string \<Rightarrow> bool"

definition replay_run_manifest :: "string list \<Rightarrow> recorded_runs \<Rightarrow> string \<Rightarrow> launch_refusal + run_manifest" where
  "replay_run_manifest roots runs run =
     (if run \<notin> set (ru_names runs) then Inl (RefusedNotFound (''No recorded run '' @ run))
      else (case ru_manifest runs run of
              Inl message \<Rightarrow>
                Inl (RefusedConflict (''Run '' @ run @ '' has a manifest that cannot be read: '' @ redactor_for roots message))
            | Inr manifest \<Rightarrow> Inr manifest))"

definition consumed_checkpoint_stage :: "string list \<Rightarrow> nat \<Rightarrow> string" where
  "consumed_checkpoint_stage stages index =
     (if index = 0 then INITIAL_CHECKPOINT_STAGE else at_or stages (index - 1) INITIAL_CHECKPOINT_STAGE)"

definition replay_arguments ::
    "string list \<Rightarrow> recorded_runs \<Rightarrow> string \<Rightarrow> string \<Rightarrow> nat \<Rightarrow> launch_refusal + string list" where
  "replay_arguments roots runs run stage attempts =
     bind_res (replay_run_manifest roots runs run) (\<lambda>manifest.
       let stages = mf_stages manifest
       in case find_index (\<lambda>s. s = stage) stages of
            None \<Rightarrow>
              Inl (RefusedNotFound (''Run '' @ run @ '' has no '' @ stage @ '' stage; it declares '' @ join_with '', '' stages))
          | Some index \<Rightarrow>
              let consumed = consumed_checkpoint_stage stages index
              in if \<not> ru_checkpoint runs run consumed
                 then Inl (RefusedConflict (''Run '' @ run @ '' recorded no '' @ consumed @ '' checkpoint, which replaying '' @ stage @ '' starts from''))
                 else Inr ([''replay'', ''--run'', run, ''--stage'', stage, ''--model'', mf_model manifest]
                        @ (case mf_effort manifest of None \<Rightarrow> [] | Some effort \<Rightarrow> [''--effort'', effort])
                        @ confirmation_arguments attempts))"

subsection \<open>How the flags are read\<close>

datatype approval_method = ApprovedInteractively | ApprovedByYes | ApprovedInBrowser

record confirmation_config =
  cf_reps :: nat
  cf_approval :: approval_method

text \<open>The values by name, the last given first, and the switches set.\<close>

record parsed_flags =
  pf_values :: "(string \<times> string) list"
  pf_switches :: "string list"

definition SWITCH_FLAGS :: "string list" where
  "SWITCH_FLAGS = [''--confirm'', ''--yes'', ''--approved-in-browser'', ''--pause'', ''--without-stage-skill'']"

definition sequence_error :: "string \<Rightarrow> string" where
  "sequence_error near = ''Invalid argument sequence near '' @ near"

fun flag_values_from :: "string list \<Rightarrow> parsed_flags \<Rightarrow> string + parsed_flags" where
  "flag_values_from [] flags = Inr flags"
| "flag_values_from (key # rest) flags =
     (if \<not> starts_with key ''--'' then Inl (sequence_error key)
      else if key \<in> set SWITCH_FLAGS then flag_values_from rest (flags\<lparr>pf_switches := key # pf_switches flags\<rparr>)
      else (case rest of
              [] \<Rightarrow> Inl (sequence_error key)
            | v # others \<Rightarrow>
                if v = [] then Inl (sequence_error key)
                else flag_values_from others (flags\<lparr>pf_values := (key, v) # pf_values flags\<rparr>)))"

definition flag_values :: "string list \<Rightarrow> string + parsed_flags" where
  "flag_values args = flag_values_from args \<lparr>pf_values = [], pf_switches = []\<rparr>"

definition approval_method_of :: "bool \<Rightarrow> bool \<Rightarrow> approval_method" where
  "approval_method_of approved in_browser =
     (if \<not> approved then ApprovedInteractively else if in_browser then ApprovedInBrowser else ApprovedByYes)"

definition confirmation_reps :: "(string \<Rightarrow> real option) \<Rightarrow> string option \<Rightarrow> string + nat" where
  "confirmation_reps to_number text =
     (let reps = (case text of None \<Rightarrow> Some 5 | Some t \<Rightarrow> to_number t)
      in case reps of
           Some r \<Rightarrow> if of_int \<lfloor>r\<rfloor> = r \<and> 2 \<le> r then Inr (nat \<lfloor>r\<rfloor>) else Inl ''Confirmation reps must be an integer of at least 2''
         | None \<Rightarrow> Inl ''Confirmation reps must be an integer of at least 2'')"

definition parse_confirmation :: "(string \<Rightarrow> real option) \<Rightarrow> parsed_flags \<Rightarrow> string + confirmation_config option" where
  "parse_confirmation to_number flags =
     (let approved = ''--yes'' \<in> set (pf_switches flags);
          in_browser = ''--approved-in-browser'' \<in> set (pf_switches flags);
          reps = map_of (pf_values flags) ''--reps''
      in if in_browser \<and> \<not> approved then Inl ''Use --approved-in-browser only with --yes''
         else if ''--confirm'' \<notin> set (pf_switches flags)
         then (if reps \<noteq> None \<or> approved then Inl ''Use --reps and --yes only with --confirm'' else Inr None)
         else bind_res (confirmation_reps to_number reps) (\<lambda>n.
                Inr (Some \<lparr>cf_reps = n, cf_approval = approval_method_of approved in_browser\<rparr>)))"

definition parse_run_name :: "string list \<Rightarrow> string + string" where
  "parse_run_name args =
     bind_res (flag_values args) (\<lambda>flags.
       case map_of (pf_values flags) ''--run'' of
         Some name \<Rightarrow> if name = [] then Inl (''Provide --run with the run'' @ CHR 0x27 # ''s name'') else Inr name
       | None \<Rightarrow> Inl (''Provide --run with the run'' @ CHR 0x27 # ''s name''))"

definition parse_replay_confirmation :: "(string \<Rightarrow> real option) \<Rightarrow> string list \<Rightarrow> string + confirmation_config option" where
  "parse_replay_confirmation to_number args = bind_res (flag_values args) (parse_confirmation to_number)"

definition parse_stage :: "string list \<Rightarrow> string + string" where
  "parse_stage args =
     bind_res (flag_values args) (\<lambda>flags.
       case map_of (pf_values flags) ''--stage'' of
         Some stage \<Rightarrow> if stage = [] then Inl ''Provide --stage with the stage to replay'' else Inr stage
       | None \<Rightarrow> Inl ''Provide --stage with the stage to replay'')"

subsection \<open>A launch is read back as what was asked for\<close>

definition replay_parts :: "string \<Rightarrow> string \<Rightarrow> string \<Rightarrow> string option \<Rightarrow> nat \<Rightarrow> line_part list" where
  "replay_parts run stage model effort attempts =
     [ValuePart ''--run'' run, ValuePart ''--stage'' stage, ValuePart ''--model'' model]
     @ (case effort of None \<Rightarrow> [] | Some e \<Rightarrow> [ValuePart ''--effort'' e])
     @ (if attempts = 1 then []
        else [SwitchPart ''--confirm'', ValuePart ''--reps'' (show_number attempts), SwitchPart ''--yes'', SwitchPart ''--approved-in-browser''])"

lemma replay_flag_names:
  "map fd_name (cd_flags replay_command) =
     [''--run'', ''--stage'', ''--model'', ''--effort'', ''--judge-model'', ''--judge-effort'', ''--session-budget-usd'', ''--minimum-grade'',
      ''--corpus'', ''--confirm'', ''--reps'', ''--yes'', ''--approved-in-browser'', ''--without-stage-skill'', ''--json'']"
  by (simp add: replay_command_def session_flags_def corpus_flag_def confirmation_flags_def json_flag_def)

lemma replay_declares: "declares replay_command name \<longleftrightarrow> name \<in> set (map fd_name (cd_flags replay_command))"
  by (auto simp: declares_def list_ex_iff)

lemma undeclared_plain: "\<not> starts_with v ''-'' \<Longrightarrow> \<not> declares replay_command v"
  by (auto simp: replay_declares replay_flag_names)

lemma replay_takes_value:
  "takes_value replay_command ''--run''" "takes_value replay_command ''--stage''" "takes_value replay_command ''--model''"
  "takes_value replay_command ''--effort''" "takes_value replay_command ''--reps''" "\<not> takes_value replay_command ''--confirm''"
  "\<not> takes_value replay_command ''--yes''" "\<not> takes_value replay_command ''--approved-in-browser''"
  by (simp_all add: takes_value_def replay_command_def session_flags_def corpus_flag_def confirmation_flags_def json_flag_def)

lemma plain_number: "\<not> starts_with (show_number n) ''-'' \<and> show_number n \<noteq> []"
proof -
  obtain c cs where s: "show_number n = c # cs" "is_digit c"
    using show_number_digits [of n] by (cases "show_number n") auto
  then have "c \<noteq> CHR ''-''" by (auto simp: is_digit_def)
  with s show ?thesis by simp
qed

lemma replay_parts_ok:
  assumes "\<not> starts_with run ''-''" "\<not> starts_with stage ''-''" "\<not> starts_with model ''-''"
    and "\<And>e. effort = Some e \<Longrightarrow> \<not> starts_with e ''-''"
  shows "line_ok replay_command (replay_parts run stage model effort attempts)"
proof -
  have "list_all (part_ok replay_command) (replay_parts run stage model effort attempts)"
    using assms undeclared_plain plain_number
    by (auto simp: replay_parts_def replay_takes_value JSON_FLAG_def replay_declares replay_flag_names split: option.split)
  moreover have "arguments_of (replay_parts run stage model effort attempts) = []"
    by (cases effort) (simp_all add: replay_parts_def arguments_of_def)
  ultimately show ?thesis by (simp add: line_ok_def)
qed

lemma replay_line_flags:
  assumes "run \<noteq> []" "stage \<noteq> []" "model \<noteq> []" "effort \<noteq> Some []"
  shows "flag_values (concat (map part_flags (replay_parts run stage model effort attempts))) =
    Inr \<lparr>pf_values = (if attempts = 1 then [] else [(''--reps'', show_number attempts)])
           @ (case effort of None \<Rightarrow> [] | Some e \<Rightarrow> [(''--effort'', e)]) @ [(''--model'', model), (''--stage'', stage), (''--run'', run)],
         pf_switches = (if attempts = 1 then [] else [''--approved-in-browser'', ''--yes'', ''--confirm''])\<rparr>"
  using assms plain_number [of attempts]
  by (auto simp: replay_parts_def flag_values_def SWITCH_FLAGS_def split: option.split)

lemma replay_argv:
  assumes "replay_arguments roots runs run stage attempts = Inr argv" and "ru_manifest runs run = Inr manifest"
  shows "argv = ''replay'' # concat (map part_tokens (replay_parts run stage (mf_model manifest) (mf_effort manifest) attempts))"
proof -
  obtain m where m: "replay_run_manifest roots runs run = Inr m"
    using assms(1) by (cases "replay_run_manifest roots runs run") (simp_all add: replay_arguments_def)
  then have "m = manifest"
    using assms(2) by (simp add: replay_run_manifest_def split: if_splits)
  moreover obtain index where "find_index (\<lambda>s. s = stage) (mf_stages m) = Some index"
    using assms(1) m by (cases "find_index (\<lambda>s. s = stage) (mf_stages m)") (simp_all add: replay_arguments_def)
  ultimately have "argv = [''replay'', ''--run'', run, ''--stage'', stage, ''--model'', mf_model manifest]
      @ (case mf_effort manifest of None \<Rightarrow> [] | Some effort \<Rightarrow> [''--effort'', effort]) @ confirmation_arguments attempts"
    using assms(1) m by (simp add: replay_arguments_def Let_def split: if_splits)
  then show ?thesis
    by (cases "mf_effort manifest") (simp_all add: replay_parts_def confirmation_arguments_def)
qed

lemma replay_no_help:
  assumes "\<not> starts_with run ''-''" "\<not> starts_with stage ''-''" "\<not> starts_with model ''-''"
    and "\<And>e. effort = Some e \<Longrightarrow> \<not> starts_with e ''-''"
  shows "HELP_FLAG \<notin> set (concat (map part_tokens (replay_parts run stage model effort attempts)))"
proof -
  have "show_number attempts \<noteq> ''--help''" using plain_number [of attempts] by auto
  then show ?thesis using assms by (cases effort) (auto simp: replay_parts_def HELP_FLAG_def)
qed

lemma replay_line_read:
  assumes "\<not> starts_with run ''-''" "\<not> starts_with stage ''-''" "\<not> starts_with model ''-''"
    and "\<And>e. effort = Some e \<Longrightarrow> \<not> starts_with e ''-''"
  shows "parse_command_line replay_command (concat (map part_tokens (replay_parts run stage model effort attempts))) =
    Inr \<lparr>cl_help_requested = False, cl_argument = None, cl_json = False,
      cl_flags = concat (map part_flags (replay_parts run stage model effort attempts))\<rparr>"
proof -
  let ?parts = "replay_parts run stage model effort attempts"
  have "line_ok replay_command ?parts" by (rule replay_parts_ok) (use assms in auto)
  moreover have "line_state ?parts \<lparr>as_argument = None, as_json = False, as_flags = []\<rparr> =
      \<lparr>as_argument = None, as_json = False, as_flags = concat (map part_flags ?parts)\<rparr>"
    by (cases effort; simp add: replay_parts_def arguments_of_def line_state_def)
  ultimately show ?thesis
    using read_parts [of replay_command ?parts "\<lparr>as_argument = None, as_json = False, as_flags = []\<rparr>"] replay_no_help [OF assms]
    unfolding parse_command_line_def line_ok_def by simp
qed

lemma replay_line_values:
  fixes attempts :: nat
  assumes "\<not> starts_with run ''-''" "\<not> starts_with stage ''-''" "\<not> starts_with model ''-''"
    and "\<And>e. effort = Some e \<Longrightarrow> \<not> starts_with e ''-''"
  defines "flags \<equiv> concat (map part_flags (replay_parts run stage model effort attempts))"
  shows "CommandLine.flag_value flags ''--model'' = Some model" and "CommandLine.flag_value flags ''--effort'' = effort"
proof -
  have "list_all (part_ok replay_command) (replay_parts run stage model effort attempts)"
    using replay_parts_ok [OF assms(1-4)] by (simp add: line_ok_def)
  note first = flag_value_first [OF this, folded flags_def]
  show "CommandLine.flag_value flags ''--model'' = Some model"
    by (cases effort) (simp_all add: first replay_takes_value values_given_def replay_parts_def)
  show "CommandLine.flag_value flags ''--effort'' = effort"
    by (cases effort) (simp_all add: first replay_takes_value values_given_def replay_parts_def)
qed

text \<open>C20: Whatever replay the server starts for the browser, the command reads back: its line names the replay command, is
accepted by it, and gives the run, the stage, the recorded run's model and effort that were asked for; more than one
attempt is a confirmation group of that many, approved in the browser, and one attempt is none. The run, the stage, the
model and the effort are texts that are not empty and do not begin with a dash.\<close>

theorem launched_replay_reads_back:
  assumes "replay_arguments roots runs run stage attempts = Inr argv" and "ru_manifest runs run = Inr manifest"
    and "\<And>t. t \<in> {run, stage, mf_model manifest} \<union> set_option (mf_effort manifest) \<Longrightarrow> t \<noteq> [] \<and> \<not> starts_with t ''-''"
    and "1 \<le> attempts" and "to_number (show_number attempts) = Some (real attempts)"
  shows "\<exists>args line. find_command catalog argv = Inr (replay_command, args) \<and> parse_command_line replay_command args = Inr line \<and>
    \<not> cl_help_requested line \<and> parse_run_name (cl_flags line) = Inr run \<and> parse_stage (cl_flags line) = Inr stage \<and>
    CommandLine.flag_value (cl_flags line) ''--model'' = Some (mf_model manifest) \<and>
    CommandLine.flag_value (cl_flags line) ''--effort'' = mf_effort manifest \<and>
    parse_replay_confirmation to_number (cl_flags line) =
      Inr (if attempts = 1 then None else Some \<lparr>cf_reps = attempts, cf_approval = ApprovedInBrowser\<rparr>)"
proof -
  let ?parts = "replay_parts run stage (mf_model manifest) (mf_effort manifest) attempts"
  let ?args = "concat (map part_tokens ?parts)" and ?flags = "concat (map part_flags ?parts)"
  let ?line = "\<lparr>cl_help_requested = False, cl_argument = None, cl_json = False, cl_flags = ?flags\<rparr>"
  have plain: "\<And>t. t \<in> {run, stage, mf_model manifest} \<union> set_option (mf_effort manifest) \<Longrightarrow> \<not> starts_with t ''-''"
    and full: "run \<noteq> []" "stage \<noteq> []" "mf_model manifest \<noteq> []" "mf_effort manifest \<noteq> Some []"
    using assms(3) by auto
  have "find_command catalog argv = Inr (replay_command, ?args)"
    unfolding replay_argv [OF assms(1,2)]
    by (intro found_command) (simp add: command_tokens_def catalog_def names_command_def)
  moreover have "parse_command_line replay_command ?args = Inr ?line"
    by (rule replay_line_read) (use plain in auto)
  moreover have "CommandLine.flag_value ?flags ''--model'' = Some (mf_model manifest)"
    and "CommandLine.flag_value ?flags ''--effort'' = mf_effort manifest"
    by (rule replay_line_values; use plain in auto)+
  moreover have "parse_run_name ?flags = Inr run" "parse_stage ?flags = Inr stage"
    unfolding parse_run_name_def parse_stage_def replay_line_flags [OF full]
    using full by (cases "mf_effort manifest"; simp)+
  moreover have "parse_replay_confirmation to_number ?flags =
      Inr (if attempts = 1 then None else Some \<lparr>cf_reps = attempts, cf_approval = ApprovedInBrowser\<rparr>)"
    unfolding parse_replay_confirmation_def replay_line_flags [OF full]
    using assms(4,5)
    by (cases "mf_effort manifest") (simp_all add: parse_confirmation_def confirmation_reps_def approval_method_of_def Let_def)
  ultimately show ?thesis by (intro exI [of _ ?args] exI [of _ ?line]) simp
qed

text \<open>Three attempts of the second stage of a recorded run.\<close>

definition sample_launched_manifest :: run_manifest where
  "sample_launched_manifest = \<lparr>mf_case_id = ''tabs'', mf_corpus_version = None, mf_effort = Some ''high'', mf_minimum_grade = None,
     mf_model = ''opus'', mf_stages = [''plan'', ''build''], mf_source_root = ''/src'', mf_source_sha = ''abc'',
     mf_spend_ceiling_usd = None, mf_target_root = None, mf_task_id = ''t''\<rparr>"

definition sample_recorded :: recorded_runs where
  "sample_recorded = \<lparr>ru_names = [''run-1''], ru_manifest = (\<lambda>_. Inr sample_launched_manifest), ru_checkpoint = (\<lambda>_ s. s = ''plan'')\<rparr>"

lemma shown_three: "show_number 3 = ''3''"
  by code_simp

lemma sample_launch:
  "replay_arguments [] sample_recorded ''run-1'' ''build'' 3 =
     Inr [''replay'', ''--run'', ''run-1'', ''--stage'', ''build'', ''--model'', ''opus'', ''--effort'', ''high'',
       ''--confirm'', ''--reps'', ''3'', ''--yes'', ''--approved-in-browser'']"
  by (simp add: replay_arguments_def replay_run_manifest_def sample_recorded_def sample_launched_manifest_def Let_def
      consumed_checkpoint_stage_def confirmation_arguments_def at_or_def shown_three)

lemma launched_replay_reads_back_witness:
  "\<exists>args line. find_command catalog [''replay'', ''--run'', ''run-1'', ''--stage'', ''build'', ''--model'', ''opus'', ''--effort'', ''high'',
       ''--confirm'', ''--reps'', ''3'', ''--yes'', ''--approved-in-browser''] = Inr (replay_command, args) \<and>
    parse_command_line replay_command args = Inr line \<and> parse_run_name (cl_flags line) = Inr ''run-1'' \<and>
    parse_stage (cl_flags line) = Inr ''build'' \<and>
    parse_replay_confirmation (\<lambda>t. Some (real (read_number t))) (cl_flags line) =
      Inr (Some \<lparr>cf_reps = 3, cf_approval = ApprovedInBrowser\<rparr>)"
proof -
  have "ru_manifest sample_recorded ''run-1'' = Inr sample_launched_manifest" by (simp add: sample_recorded_def)
  moreover have "\<And>t. t \<in> {''run-1'', ''build'', mf_model sample_launched_manifest} \<union> set_option (mf_effort sample_launched_manifest)
      \<Longrightarrow> t \<noteq> [] \<and> \<not> starts_with t ''-''"
    by (auto simp: sample_launched_manifest_def)
  ultimately show ?thesis
    using launched_replay_reads_back [where to_number = "\<lambda>t. Some (real (read_number t))", OF sample_launch] by fastforce
qed

end
