(* ===== verification/MonitorReplay.thy ===== *)
theory MonitorReplay
  imports RemainingTime LaunchArguments
begin

text \<open>
  What the monitor reads of a run's record (\<open>src/client/src/monitor/run-record-query.ts\<close>): how an ended stage
  ended, whether a Judge is still to return, and whether a stage can be replayed. The record is the one the server
  assembles in \<open>RunRecords\<close>; the launch is the server's in \<open>LaunchArguments\<close>.
\<close>

subsection \<open>Readings of a stage\<close>


datatype ended_status = EndedAccepted | EndedStopped

definition below_minimum :: "run_record_stage \<Rightarrow> bool" where
  "below_minimum stage = (case rr_grade stage of Available grade \<Rightarrow> \<not> gf_reaches_minimum grade | Unavailable _ \<Rightarrow> False)"

definition ended_status_of :: "run_record_stage \<Rightarrow> ended_status" where
  "ended_status_of stage = (if rr_status stage = StageStopped \<or> below_minimum stage then EndedStopped else EndedAccepted)"

definition continuation_reading :: "string reading option \<Rightarrow> string" where
  "continuation_reading minimum =
     (case minimum of
        Some (Available letter) \<Rightarrow> ''Continued at minimum '' @ letter
      | _ \<Rightarrow> ''Continued '' @ CHR 0xB7 # '' minimum unavailable'')"

fun is_pending :: "run_outcome \<Rightarrow> bool" where
  "is_pending (OutcomePending _) = True"
| "is_pending _ = False"

definition judge_left_waiting :: "run_record \<Rightarrow> run_record_stage \<Rightarrow> bool" where
  "judge_left_waiting record stage \<longleftrightarrow> \<not> is_pending (rd_final_outcome record) \<and> rr_status stage = StageAwaiting"

definition missed_minimum :: "run_record \<Rightarrow> run_record_stage \<Rightarrow> string option" where
  "missed_minimum record stage =
     (case rd_minimum_grade record of
        Available letter \<Rightarrow> if below_minimum stage then Some letter else None
      | Unavailable _ \<Rightarrow> None)"

subsection \<open>Whether a stage can be replayed\<close>

fun upstream_entry :: "artifact_in \<Rightarrow> upstream option" where
  "upstream_entry (UpstreamCheckpoint up) = Some up"
| "upstream_entry _ = None"

definition consumed_checkpoint :: "run_record_stage \<Rightarrow> upstream option" where
  "consumed_checkpoint stage =
     (case List.map_filter upstream_entry (ai_entries (rr_artifacts_in stage)) of [] \<Rightarrow> None | up # _ \<Rightarrow> Some up)"



subsection \<open>What is offered can be started\<close>














end
