(* ===== verification/RequestGuard.thy ===== *)
theory RequestGuard
  imports RunDiscovery
begin

text \<open>
  Which requests the server serves (\<open>src/src/server/request-guard.ts\<close>): the guard every route is behind. A request is
  its method and the headers the guard reads; \<open>PassedOn\<close> stands for what the routes answer.
\<close>

record guarded_request =
  gr_method :: string
  gr_host :: "string option"
  gr_content_type :: "string option"
  gr_fetch_site :: "string option"
  gr_origin :: "string option"

datatype guard_outcome = Forbidden string | PassedOn

record guarded_response =
  gp_headers :: "(string \<times> string) list"
  gp_outcome :: guard_outcome

definition READ_METHODS :: "string list" where
  "READ_METHODS = [''GET'', ''HEAD'']"

definition allowed_hosts :: "nat \<Rightarrow> string list" where
  "allowed_hosts port = [''127.0.0.1:'' @ show_number port, ''localhost:'' @ show_number port]"

definition media_type :: "string option \<Rightarrow> string" where
  "media_type content_type = hd (split_on (CHR '';'') (default_to [] content_type))"

definition same_origin_json :: "guarded_request \<Rightarrow> string \<Rightarrow> bool" where
  "same_origin_json request host \<longleftrightarrow>
     gr_origin request = Some (''http://'' @ host) \<and> default_to ''same-origin'' (gr_fetch_site request) = ''same-origin'' \<and>
     lower_case (trim_text (media_type (gr_content_type request))) = ''application/json''"

definition request_guard :: "nat \<Rightarrow> guarded_request \<Rightarrow> guarded_response" where
  "request_guard port request =
     (let host = default_to [] (gr_host request)
      in \<lparr>gp_headers = [(''X-Frame-Options'', ''DENY''), (''Content-Security-Policy'', ''frame-ancestors '' @ CHR 0x27 # ''none'' @ [CHR 0x27])],
          gp_outcome =
            (if host \<notin> set (allowed_hosts port) then Forbidden ''Forbidden: not a loopback host''
             else if gr_method request \<notin> set READ_METHODS \<and> \<not> same_origin_json request host
             then Forbidden ''Forbidden: not a same-origin JSON request''
             else PassedOn)\<rparr>)"

subsection \<open>What another page can send\<close>

text \<open>The content types a form can be posted with, whatever the parameters.\<close>

definition FORM_TYPES :: "string list" where
  "FORM_TYPES = [''application/x-www-form-urlencoded'', ''multipart/form-data'', ''text/plain'']"

definition form_content_type :: "string option \<Rightarrow> bool" where
  "form_content_type content_type \<longleftrightarrow>
     (case content_type of
        None \<Rightarrow> True
      | Some t \<Rightarrow> \<exists>form \<in> set FORM_TYPES. t = form \<or> (\<exists>parameters. t = form @ CHR '';'' # parameters))"

lemma hd_split_plain: "c \<notin> set xs \<Longrightarrow> hd (split_on c xs) = xs"
  by (induction xs) (auto split: list.splits)

lemma hd_split_prefix: "c \<notin> set xs \<Longrightarrow> hd (split_on c (xs @ c # ys)) = xs"
  by (induction xs) (auto split: list.splits)

lemma form_media_type:
  assumes "form_content_type content_type"
  shows "lower_case (trim_text (media_type content_type)) \<noteq> ''application/json''"
proof (cases content_type)
  case None
  then show ?thesis by (simp add: media_type_def default_to_def trim_text_def lower_case_def)
next
  case (Some t)
  with assms obtain form where form: "form \<in> set FORM_TYPES" "t = form \<or> (\<exists>parameters. t = form @ CHR '';'' # parameters)"
    by (auto simp: form_content_type_def)
  then have "CHR '';'' \<notin> set form" by (auto simp: FORM_TYPES_def)
  with form(2) have "media_type (Some t) = form"
    by (auto simp: media_type_def default_to_def hd_split_plain hd_split_prefix)
  then show ?thesis unfolding Some using form(1) by (auto simp: FORM_TYPES_def trim_text_def lower_case_def js_space_def)
qed

lemma guard_passed:
  "gp_outcome (request_guard port request) = PassedOn \<longleftrightarrow>
     (\<exists>host \<in> set (allowed_hosts port). gr_host request = Some host \<and>
       (gr_method request \<in> set READ_METHODS \<or> same_origin_json request host))"
  by (cases "gr_host request") (auto simp: request_guard_def default_to_def allowed_hosts_def Let_def)

text \<open>C24: A request reaches the routes only under the loopback name and port the server listens on. One that is not a read
reaches them only if its Origin is that host, its Sec-Fetch-Site is absent or same-origin, and its content type is not one
a form can be posted with; every answer, a refusal too, forbids framing.\<close>

theorem foreign_page_refused:
  assumes "gp_outcome (request_guard port request) = PassedOn"
  shows "(\<exists>name \<in> {''127.0.0.1'', ''localhost''}. gr_host request = Some (name @ '':'' @ show_number port) \<and>
      (gr_method request \<noteq> ''GET'' \<and> gr_method request \<noteq> ''HEAD'' \<longrightarrow>
        gr_origin request = Some (''http://'' @ name @ '':'' @ show_number port) \<and>
        (gr_fetch_site request = None \<or> gr_fetch_site request = Some ''same-origin'') \<and>
        \<not> form_content_type (gr_content_type request))) \<and>
    (''X-Frame-Options'', ''DENY'') \<in> set (gp_headers (request_guard port request'))"
proof -
  obtain host where host: "host \<in> set (allowed_hosts port)" "gr_host request = Some host"
    and held: "gr_method request \<in> set READ_METHODS \<or> same_origin_json request host"
    using assms unfolding guard_passed by (elim bexE conjE)
  from host(1) have "host = ''127.0.0.1'' @ '':'' @ show_number port \<or> host = ''localhost'' @ '':'' @ show_number port"
    by (simp add: allowed_hosts_def)
  then obtain name where name: "name \<in> {''127.0.0.1'', ''localhost''}" "host = name @ '':'' @ show_number port"
    by blast
  have sent: "gr_origin request = Some (''http://'' @ host) \<and> (gr_fetch_site request = None \<or> gr_fetch_site request = Some ''same-origin'') \<and>
      \<not> form_content_type (gr_content_type request)" if json: "same_origin_json request host"
  proof -
    have "\<not> form_content_type (gr_content_type request)" using json form_media_type unfolding same_origin_json_def by blast
    moreover have "gr_fetch_site request = None \<or> gr_fetch_site request = Some ''same-origin''"
      using json by (cases "gr_fetch_site request") (simp_all add: same_origin_json_def default_to_def)
    ultimately show ?thesis using json unfolding same_origin_json_def by blast
  qed
  have "(''X-Frame-Options'', ''DENY'') \<in> set (gp_headers (request_guard port request'))"
    by (simp add: request_guard_def Let_def)
  moreover have "gr_method request = ''GET'' \<or> gr_method request = ''HEAD'' \<or> same_origin_json request host"
    using held by (auto simp: READ_METHODS_def)
  ultimately show ?thesis using host(2) sent name by blast
qed

definition sample_write :: guarded_request where
  "sample_write = \<lparr>gr_method = ''POST'', gr_host = Some (''localhost:'' @ show_number 4317),
     gr_content_type = Some ''Application/JSON; charset=utf-8'', gr_fetch_site = Some ''same-origin'',
     gr_origin = Some (''http://localhost:'' @ show_number 4317)\<rparr>"

lemma foreign_page_refused_witness:
  "gp_outcome (request_guard 4317 sample_write) = PassedOn \<and> \<not> form_content_type (gr_content_type sample_write)"
proof -
  have passed: "gp_outcome (request_guard 4317 sample_write) = PassedOn"
    by (simp add: guard_passed sample_write_def allowed_hosts_def same_origin_json_def media_type_def default_to_def)
      code_simp
  from foreign_page_refused [OF this] passed show ?thesis by (auto simp: sample_write_def)
qed

end
