(* ===== verification/RunAbort.thy ===== *)
theory RunAbort
  imports RunEvents
begin

text \<open>
  How the records of a run are written while the run may be stopped at any moment (\<open>run-abort*.ts\<close>): the stage and
  artifact lifecycles put their writes into one queue, a signal or a failure requests the abort and puts its record
  behind them, and no write that is not the abort's own begins once it is requested.

  The class fields of \<open>createRunAbort\<close> are one state. A call of an operation is one step, up to its first
  \<open>await\<close>; a write is a step of its own, which may fail, and whatever else is called may come before it. The JSON of
  a record is a constructor with the inputs it is printed from; a field no operation reads is part of an opaque text.
  The events are those the recorder is asked to record: a recorder that throws changes nothing else, as its error is
  only reported.
\<close>

subsection \<open>Records\<close>

record pending_stage =
  ps_stage :: string
  ps_file :: string
  ps_transcript_cost_usd :: real
  ps_ceiling_stop :: "(real \<times> real) option"
  ps_product_owner :: "string option"
  ps_operator_stop :: "string option"
  ps_details :: string

record ceiling_stop =
  cs_stage :: string
  cs_file :: string
  cs_ceiling_usd :: real
  cs_spent_usd :: real
  cs_session_cost_usd :: "real option option"
  cs_product_owner :: string

record judge_record =
  jr_transcript_cost_usd :: real
  jr_cost_usd :: real
  jr_details :: string

record run_artifact =
  ra_status :: string
  ra_workflow_costs :: "real list"
  ra_scorecard_costs :: "real list"
  ra_product_owner_cost_usd :: real
  ra_judge_cost_usd :: real
  ra_details :: string

definition total_spent_usd :: "run_artifact \<Rightarrow> real" where
  "total_spent_usd a =
     foldl (+) 0 (ra_workflow_costs a) + foldl (+) 0 (ra_scorecard_costs a) + ra_product_owner_cost_usd a + ra_judge_cost_usd a"

datatype content =
    AwaitingJudge pending_stage
  | StageRecord judge_record
  | StageFailure pending_stage string
  | CeilingFailure ceiling_stop string
  | OperatorStopped string
  | Artifact run_artifact

record abort_snapshot =
  sn_reason :: string
  sn_stage :: "pending_stage option"
  sn_ceiling :: "ceiling_stop option"
  sn_artifact :: "run_artifact option"
  sn_operator_stop :: "string option"

subsection \<open>The state\<close>

text \<open>What is queued, and what is left of the transition that runs: its effects on the state, which happen at once, and
its writes. A write of the abort reports its failure and goes on; any other ends its transition.\<close>

datatype transition =
    WriteStage pending_stage
  | WriteProgress string judge_record
  | CompleteStage string string judge_record
  | WriteArtifact run_artifact
  | CompleteArtifact run_artifact
  | ReviewArtifact
  | FailArtifact run_artifact
  | RecordAbort abort_snapshot

datatype action =
    NoteJudging pending_stage
  | NoteCompleted string judge_record
  | NoteArtifact run_artifact run_event_kind
  | NoteReview
  | NoteAborted abort_snapshot
  | DropStage
  | DropArtifact
  | FinishAbort
  | Persist string content
  | TryPersist string string content

record event_note =
  en_kind :: run_event_kind
  en_stage :: string
  en_spent_usd :: real

datatype signal_phase = NoSignal | KillingCommands string | RecordingAbort string | TearingDown string | SignalStopped string nat

record abort_files =
  af_artifact :: string
  af_operator_stop :: string

record run_abort =
  rb_aborted :: bool
  rb_stage :: "pending_stage option"
  rb_ceiling :: "ceiling_stop option"
  rb_artifact :: "run_artifact option"
  rb_queue :: "transition list"
  rb_running :: "action list option"
  rb_recorded :: bool
  rb_settled :: bool
  rb_terminal :: bool
  rb_events :: "event_note list"
  rb_writes :: "(string \<times> content) list"
  rb_reports :: "string list"
  rb_signal :: signal_phase
  rb_teardowns :: nat

definition created :: run_abort where
  "created = \<lparr>rb_aborted = False, rb_stage = None, rb_ceiling = None, rb_artifact = None, rb_queue = [], rb_running = None,
     rb_recorded = False, rb_settled = False, rb_terminal = False, rb_events = [], rb_writes = [], rb_reports = [],
     rb_signal = NoSignal, rb_teardowns = 0\<rparr>"

subsection \<open>Operations\<close>

definition enqueue :: "transition \<Rightarrow> run_abort \<Rightarrow> run_abort" where
  "enqueue t st = st\<lparr>rb_queue := rb_queue st @ [t]\<rparr>"

definition enqueue_normal :: "transition \<Rightarrow> run_abort \<Rightarrow> run_abort" where
  "enqueue_normal t st = (if rb_aborted st then st else enqueue t st)"

definition write_pending_stage :: "pending_stage \<Rightarrow> run_abort \<Rightarrow> run_abort" where
  "write_pending_stage p st =
     (if rb_aborted st then st else enqueue_normal (WriteStage p) (st\<lparr>rb_stage := Some p\<rparr>))"

definition NO_PENDING_STAGE :: string where
  "NO_PENDING_STAGE = ''No stage transition is pending''"

definition write_stage_progress :: "judge_record \<Rightarrow> run_abort \<Rightarrow> string + run_abort" where
  "write_stage_progress r st =
     (if rb_aborted st then Inr st
      else (case rb_stage st of
              None \<Rightarrow> Inl NO_PENDING_STAGE
            | Some p \<Rightarrow> Inr (enqueue_normal (WriteProgress (ps_file p) r) st)))"

definition complete_stage :: "judge_record \<Rightarrow> run_abort \<Rightarrow> string + run_abort" where
  "complete_stage r st =
     (if rb_aborted st then Inr st
      else (case rb_stage st of
              None \<Rightarrow> Inl NO_PENDING_STAGE
            | Some p \<Rightarrow> Inr (enqueue_normal (CompleteStage (ps_file p) (ps_stage p) r) st)))"

definition stop_at_ceiling :: "ceiling_stop \<Rightarrow> run_abort \<Rightarrow> run_abort" where
  "stop_at_ceiling stop st =
     (if rb_aborted st then st
      else (case rb_stage st of
              Some p \<Rightarrow>
                if ps_stage p = cs_stage stop
                then st\<lparr>rb_stage := Some (p\<lparr>ps_ceiling_stop := Some (cs_ceiling_usd stop, cs_spent_usd stop),
                       ps_product_owner := Some (cs_product_owner stop)\<rparr>)\<rparr>
                else st\<lparr>rb_ceiling := Some stop\<rparr>
            | None \<Rightarrow> st\<lparr>rb_ceiling := Some stop\<rparr>))"

definition update_pending_stage :: "pending_stage \<Rightarrow> run_abort \<Rightarrow> run_abort" where
  "update_pending_stage p st = (if rb_aborted st then st else st\<lparr>rb_stage := Some p\<rparr>)"

definition write_pending_artifact :: "run_artifact \<Rightarrow> run_abort \<Rightarrow> run_abort" where
  "write_pending_artifact a st =
     (if rb_aborted st then st else enqueue_normal (WriteArtifact a) (st\<lparr>rb_artifact := Some a\<rparr>))"

definition complete_artifact :: "run_artifact \<Rightarrow> run_abort \<Rightarrow> run_abort" where
  "complete_artifact a st =
     (if rb_aborted st then st else enqueue_normal (CompleteArtifact a) (st\<lparr>rb_artifact := Some a\<rparr>))"

definition await_artifact_review :: "run_abort \<Rightarrow> run_abort" where
  "await_artifact_review st = enqueue_normal ReviewArtifact st"

definition write_failed_artifact :: "run_artifact \<Rightarrow> run_abort \<Rightarrow> run_abort" where
  "write_failed_artifact a st = enqueue (FailArtifact a) (st\<lparr>rb_artifact := Some a\<rparr>)"

definition mark_aborted :: "string \<Rightarrow> string option \<Rightarrow> run_abort \<Rightarrow> run_abort" where
  "mark_aborted reason operator_stop st =
     (if rb_recorded st then st
      else enqueue
        (RecordAbort \<lparr>sn_reason = reason, sn_stage = rb_stage st, sn_ceiling = rb_ceiling st, sn_artifact = rb_artifact st,
           sn_operator_stop = operator_stop\<rparr>)
        (st\<lparr>rb_aborted := True, rb_recorded := True\<rparr>))"

subsection \<open>Transitions\<close>

definition STOP_NOT_RECORDED :: string where
  "STOP_NOT_RECORDED = ''Failed to record the operator stop: ''"

definition ARTIFACTS_NOT_UPDATED :: string where
  "ARTIFACTS_NOT_UPDATED = ''Failed to update run artifacts: ''"

definition stage_actions :: "abort_snapshot \<Rightarrow> action list" where
  "stage_actions sn =
     (case sn_stage sn of
        Some p \<Rightarrow> [TryPersist ARTIFACTS_NOT_UPDATED (ps_file p) (StageFailure (p\<lparr>ps_operator_stop := sn_operator_stop sn\<rparr>) (sn_reason sn))]
      | None \<Rightarrow>
          (case sn_ceiling sn of
             None \<Rightarrow> []
           | Some c \<Rightarrow> [TryPersist ARTIFACTS_NOT_UPDATED (cs_file c) (CeilingFailure c (sn_reason sn))]))"

definition abort_actions :: "abort_files \<Rightarrow> abort_snapshot \<Rightarrow> action list" where
  "abort_actions files sn =
     (case sn_operator_stop sn of
        None \<Rightarrow> []
      | Some sig \<Rightarrow> [TryPersist STOP_NOT_RECORDED (af_operator_stop files) (OperatorStopped sig)])
     @ NoteAborted sn # stage_actions sn
     @ (case sn_artifact sn of
          None \<Rightarrow> []
        | Some a \<Rightarrow> [TryPersist ARTIFACTS_NOT_UPDATED (af_artifact files) (Artifact (a\<lparr>ra_status := ''FAILED''\<rparr>))])
     @ [FinishAbort]"

fun actions_of :: "abort_files \<Rightarrow> transition \<Rightarrow> action list" where
  "actions_of files (WriteStage p) = [NoteJudging p, Persist (ps_file p) (AwaitingJudge p)]"
| "actions_of files (WriteProgress file r) = [Persist file (StageRecord r)]"
| "actions_of files (CompleteStage file stage r) = [NoteCompleted stage r, Persist file (StageRecord r), DropStage]"
| "actions_of files (WriteArtifact a) = [Persist (af_artifact files) (Artifact a)]"
| "actions_of files (CompleteArtifact a) = [Persist (af_artifact files) (Artifact a), NoteArtifact a RunCompleted, DropArtifact]"
| "actions_of files ReviewArtifact = [NoteReview, DropArtifact]"
| "actions_of files (FailArtifact a) = [Persist (af_artifact files) (Artifact a), NoteArtifact a RunFailed, DropArtifact]"
| "actions_of files (RecordAbort sn) = abort_actions files sn"

fun is_normal :: "transition \<Rightarrow> bool" where
  "is_normal (FailArtifact _) = False"
| "is_normal (RecordAbort _) = False"
| "is_normal _ = True"

definition note_event :: "run_event_kind \<Rightarrow> string \<Rightarrow> real \<Rightarrow> run_abort \<Rightarrow> run_abort" where
  "note_event kind stage spent st = st\<lparr>rb_events := rb_events st @ [\<lparr>en_kind = kind, en_stage = stage, en_spent_usd = spent\<rparr>]\<rparr>"

definition artifact_completed :: "run_artifact \<Rightarrow> run_event_kind \<Rightarrow> run_abort \<Rightarrow> run_abort" where
  "artifact_completed a kind st = (note_event kind [] (total_spent_usd a) st)\<lparr>rb_terminal := True\<rparr>"

definition aborted_spent :: "abort_snapshot \<Rightarrow> real" where
  "aborted_spent sn =
     (case sn_artifact sn of
        Some a \<Rightarrow> total_spent_usd a
      | None \<Rightarrow>
          (case sn_stage sn of
             Some p \<Rightarrow> ps_transcript_cost_usd p
           | None \<Rightarrow>
               (case sn_ceiling sn of
                  None \<Rightarrow> 0
                | Some c \<Rightarrow> (case cs_session_cost_usd c of Some (Some cost) \<Rightarrow> cost | _ \<Rightarrow> 0))))"

definition aborted_event :: "abort_snapshot \<Rightarrow> run_abort \<Rightarrow> run_abort" where
  "aborted_event sn st =
     (if rb_terminal st then st
      else (note_event RunFailed
        (case sn_stage sn of Some p \<Rightarrow> ps_stage p | None \<Rightarrow> (case sn_ceiling sn of Some c \<Rightarrow> cs_stage c | None \<Rightarrow> []))
        (aborted_spent sn) st)\<lparr>rb_terminal := True\<rparr>)"

text \<open>The effects up to the next write.\<close>

fun settle :: "action list \<Rightarrow> run_abort \<Rightarrow> run_abort" where
  "settle [] st = st\<lparr>rb_running := None\<rparr>"
| "settle (NoteJudging p # as) st = settle as (note_event StageJudging (ps_stage p) (ps_transcript_cost_usd p) st)"
| "settle (NoteCompleted stage r # as) st = settle as (note_event StageCompleted stage (jr_transcript_cost_usd r + jr_cost_usd r) st)"
| "settle (NoteArtifact a kind # as) st = settle as (artifact_completed a kind st)"
| "settle (NoteReview # as) st =
     settle as (case rb_artifact st of None \<Rightarrow> st | Some a \<Rightarrow> artifact_completed a RunCompleted st)"
| "settle (NoteAborted sn # as) st = settle as (aborted_event sn st)"
| "settle (DropStage # as) st = settle as (st\<lparr>rb_stage := None\<rparr>)"
| "settle (DropArtifact # as) st = settle as (st\<lparr>rb_artifact := None\<rparr>)"
| "settle (FinishAbort # as) st = settle as (st\<lparr>rb_settled := True\<rparr>)"
| "settle (Persist f c # as) st = st\<lparr>rb_running := Some (Persist f c # as)\<rparr>"
| "settle (TryPersist m f c # as) st = st\<lparr>rb_running := Some (TryPersist m f c # as)\<rparr>"

definition written :: "string \<Rightarrow> content \<Rightarrow> run_abort \<Rightarrow> run_abort" where
  "written f c st = st\<lparr>rb_writes := rb_writes st @ [(f, c)]\<rparr>"

definition report_error :: "string \<Rightarrow> run_abort \<Rightarrow> run_abort" where
  "report_error message st = st\<lparr>rb_reports := rb_reports st @ [message]\<rparr>"

subsection \<open>Signals\<close>

definition signal_exit_code :: "string \<Rightarrow> nat" where
  "signal_exit_code sig = (if sig = ''SIGTERM'' then 143 else if sig = ''SIGHUP'' then 129 else 130)"

definition start_teardown :: "run_abort \<Rightarrow> run_abort" where
  "start_teardown st = (if rb_teardowns st = 0 then st\<lparr>rb_teardowns := 1\<rparr> else st)"

definition abort_for_signal :: "string \<Rightarrow> run_abort \<Rightarrow> run_abort" where
  "abort_for_signal sig st = mark_aborted (''run interrupted by '' @ sig) (Some sig) (st\<lparr>rb_signal := RecordingAbort sig\<rparr>)"

definition signal_notice :: "string \<Rightarrow> string" where
  "signal_notice sig = CHR 0x0A # ''Received '' @ sig @ ''; removing the run'' @ CHR 0x27 # ''s checkout before exit.''"

definition clean_up_on_signal :: "string \<Rightarrow> run_abort \<Rightarrow> run_abort" where
  "clean_up_on_signal sig st =
     (let st' = report_error (signal_notice sig) st
      in if rb_signal st \<noteq> NoSignal then st'
         else if rb_teardowns st = 0 then st'\<lparr>rb_signal := KillingCommands sig\<rparr>
         else abort_for_signal sig st')"

subsection \<open>Steps\<close>

text \<open>What the queue does on its own.\<close>

inductive queue_step :: "abort_files \<Rightarrow> run_abort \<Rightarrow> run_abort \<Rightarrow> bool" for files where
  begins: "rb_running st = None \<Longrightarrow> rb_queue st = t # ts \<Longrightarrow> \<not> (is_normal t \<and> rb_aborted st) \<Longrightarrow>
     queue_step files st (settle (actions_of files t) (st\<lparr>rb_queue := ts\<rparr>))"
| skips: "rb_running st = None \<Longrightarrow> rb_queue st = t # ts \<Longrightarrow> is_normal t \<Longrightarrow> rb_aborted st \<Longrightarrow>
     queue_step files st (st\<lparr>rb_queue := ts\<rparr>)"
| writes: "rb_running st = Some (Persist f c # as) \<Longrightarrow> queue_step files st (settle as (written f c st))"
| fails: "rb_running st = Some (Persist f c # as) \<Longrightarrow> queue_step files st (st\<lparr>rb_running := None\<rparr>)"
| abort_writes: "rb_running st = Some (TryPersist m f c # as) \<Longrightarrow> queue_step files st (settle as (written f c st))"
| abort_fails: "rb_running st = Some (TryPersist m f c # as) \<Longrightarrow>
     queue_step files st (settle as (report_error (m @ error) st))"

text \<open>What the run, a signal or an ended wait does.\<close>

inductive call_step :: "run_abort \<Rightarrow> run_abort \<Rightarrow> bool" where
  "call_step st (write_pending_stage p st)"
| "write_stage_progress r st = Inr st' \<Longrightarrow> call_step st st'"
| "complete_stage r st = Inr st' \<Longrightarrow> call_step st st'"
| "call_step st (stop_at_ceiling stop st)"
| "call_step st (update_pending_stage p st)"
| "call_step st (write_pending_artifact a st)"
| "call_step st (complete_artifact a st)"
| "call_step st (await_artifact_review st)"
| "call_step st (write_failed_artifact a st)"
| "call_step st (mark_aborted reason None st)"
| "call_step st (start_teardown st)"
| "call_step st (clean_up_on_signal sig st)"
| "rb_signal st = KillingCommands sig \<Longrightarrow> call_step st (abort_for_signal sig st)"
| "rb_signal st = KillingCommands sig \<Longrightarrow> call_step st (abort_for_signal sig (report_error error st))"
| "rb_signal st = RecordingAbort sig \<Longrightarrow> rb_settled st \<Longrightarrow> call_step st (start_teardown (st\<lparr>rb_signal := TearingDown sig\<rparr>))"
| "rb_signal st = TearingDown sig \<Longrightarrow> call_step st (st\<lparr>rb_signal := SignalStopped sig (signal_exit_code sig)\<rparr>)"
| "rb_signal st = TearingDown sig \<Longrightarrow>
     call_step st (report_error error (st\<lparr>rb_signal := SignalStopped sig (signal_exit_code sig)\<rparr>))"

definition abort_step :: "abort_files \<Rightarrow> run_abort \<Rightarrow> run_abort \<Rightarrow> bool" where
  "abort_step files st st' \<longleftrightarrow> queue_step files st st' \<or> call_step st st'"

definition reachable :: "abort_files \<Rightarrow> run_abort \<Rightarrow> bool" where
  "reachable files st \<longleftrightarrow> (abort_step files)\<^sup>*\<^sup>* created st"

subsection \<open>The effects between two writes\<close>

fun is_write :: "action \<Rightarrow> bool" where
  "is_write (Persist _ _) = True"
| "is_write (TryPersist _ _ _) = True"
| "is_write _ = False"

definition rest :: "action list \<Rightarrow> action list" where
  "rest as = dropWhile (Not \<circ> is_write) as"

lemmas op_defs = note_event_def artifact_completed_def aborted_event_def

lemma settle_keeps [simp]:
  "rb_queue (settle as st) = rb_queue st" "rb_aborted (settle as st) = rb_aborted st" "rb_recorded (settle as st) = rb_recorded st"
  "rb_writes (settle as st) = rb_writes st" "rb_reports (settle as st) = rb_reports st" "rb_signal (settle as st) = rb_signal st"
  "rb_teardowns (settle as st) = rb_teardowns st"
  by (induction as st rule: settle.induct) (simp_all add: op_defs split: option.split)

lemma settle_running [simp]: "rb_running (settle as st) = (if rest as = [] then None else Some (rest as))"
  by (induction as st rule: settle.induct) (simp_all add: rest_def op_defs split: option.split)

lemma settle_settled:
  "rb_settled (settle as st) \<longleftrightarrow> rb_settled st \<or> FinishAbort \<in> set (takeWhile (Not \<circ> is_write) as)"
  by (induction as st rule: settle.induct) (auto simp: op_defs split: option.split)

lemma settle_terminal:
  "rb_terminal st \<or> NoteAborted sn \<in> set (takeWhile (Not \<circ> is_write) as) \<Longrightarrow> rb_terminal (settle as st)"
  by (induction as st rule: settle.induct) (auto simp: op_defs split: option.split)

lemma rest_parts: "as = takeWhile (Not \<circ> is_write) as @ rest as"
  by (simp add: rest_def)

lemma set_rest: "a \<in> set (rest as) \<Longrightarrow> a \<in> set as"
  by (auto simp: rest_def dest: set_dropWhileD)

lemma write_in_rest: "a \<in> set as \<Longrightarrow> is_write a \<Longrightarrow> a \<in> set (rest as)"
  by (induction as) (auto simp: rest_def)

lemma outside_rest: "a \<in> set as \<Longrightarrow> a \<notin> set (rest as) \<Longrightarrow> a \<in> set (takeWhile (Not \<circ> is_write) as)"
  using rest_parts [of as] by (metis Un_iff set_append)

lemma written_keeps [simp]:
  "rb_queue (written f c st) = rb_queue st" "rb_aborted (written f c st) = rb_aborted st" "rb_recorded (written f c st) = rb_recorded st"
  "rb_settled (written f c st) = rb_settled st" "rb_terminal (written f c st) = rb_terminal st"
  "rb_reports (written f c st) = rb_reports st" "rb_writes (written f c st) = rb_writes st @ [(f, c)]"
  by (simp_all add: written_def)

lemma report_error_keeps [simp]:
  "rb_queue (report_error m st) = rb_queue st" "rb_aborted (report_error m st) = rb_aborted st" "rb_recorded (report_error m st) = rb_recorded st"
  "rb_settled (report_error m st) = rb_settled st" "rb_terminal (report_error m st) = rb_terminal st"
  "rb_writes (report_error m st) = rb_writes st" "rb_reports (report_error m st) = rb_reports st @ [m]"
  "rb_running (report_error m st) = rb_running st" "rb_teardowns (report_error m st) = rb_teardowns st" "rb_signal (report_error m st) = rb_signal st"
  by (simp_all add: report_error_def)

subsection \<open>Invariants\<close>

fun of_stage :: "content \<Rightarrow> bool" where
  "of_stage (AwaitingJudge _) = True"
| "of_stage (StageRecord _) = True"
| "of_stage _ = False"

fun of_stop :: "content \<Rightarrow> bool" where
  "of_stop (StageFailure _ _) = True"
| "of_stop (CeilingFailure _ _) = True"
| "of_stop (OperatorStopped _) = True"
| "of_stop _ = False"

fun plain :: "action \<Rightarrow> bool" where
  "plain (Persist f c) = (\<not> of_stop c)"
| "plain (TryPersist _ _ _) = False"
| "plain (NoteAborted _) = False"
| "plain FinishAbort = False"
| "plain _ = True"

fun fail_action :: "abort_files \<Rightarrow> action \<Rightarrow> bool" where
  "fail_action files (Persist f c) = (f = af_artifact files \<and> \<not> of_stop c \<and> \<not> of_stage c)"
| "fail_action files (NoteArtifact _ _) = True"
| "fail_action files DropArtifact = True"
| "fail_action files _ = False"

fun is_abort :: "transition \<Rightarrow> bool" where
  "is_abort (RecordAbort _) = True"
| "is_abort _ = False"

definition running_all :: "(action \<Rightarrow> bool) \<Rightarrow> run_abort \<Rightarrow> bool" where
  "running_all P st \<longleftrightarrow> (case rb_running st of None \<Rightarrow> True | Some as \<Rightarrow> list_all P as)"

definition last_content :: "string \<Rightarrow> (string \<times> content) list \<Rightarrow> content option" where
  "last_content f ws = map_of (rev ws) f"

definition log_split :: "(string \<times> content) list \<Rightarrow> bool" where
  "log_split ws \<longleftrightarrow> (\<exists>xs ys. ws = xs @ ys \<and> (\<forall>w \<in> set xs. \<not> of_stop (snd w)) \<and> (\<forall>w \<in> set ys. \<not> of_stage (snd w)))"

definition stands :: "abort_snapshot \<Rightarrow> run_abort \<Rightarrow> bool" where
  "stands sn st \<longleftrightarrow> (\<forall>m f c. TryPersist m f c \<in> set (stage_actions sn) \<longrightarrow>
     last_content f (rb_writes st) = Some c \<or> (\<exists>e. m @ e \<in> set (rb_reports st)))"

definition calm :: "run_abort \<Rightarrow> bool" where
  "calm st \<longleftrightarrow> filter is_abort (rb_queue st) = [] \<and> \<not> rb_settled st \<and> running_all plain st \<and>
     (\<forall>w \<in> set (rb_writes st). \<not> of_stop (snd w))"

definition waiting :: "abort_snapshot \<Rightarrow> run_abort \<Rightarrow> bool" where
  "waiting sn st \<longleftrightarrow> filter is_abort (rb_queue st) = [RecordAbort sn] \<and> \<not> rb_settled st \<and> running_all plain st \<and>
     (\<forall>w \<in> set (rb_writes st). \<not> of_stop (snd w))"

definition recording :: "abort_files \<Rightarrow> abort_snapshot \<Rightarrow> run_abort \<Rightarrow> bool" where
  "recording files sn st \<longleftrightarrow> filter is_abort (rb_queue st) = [] \<and> \<not> rb_settled st \<and> log_split (rb_writes st) \<and>
     (\<exists>as. rb_running st = Some as \<and> as \<noteq> [] \<and> (\<exists>gone. abort_actions files sn = gone @ as) \<and>
       (set (stage_actions sn) \<subseteq> set as \<or> stands sn st) \<and> (NoteAborted sn \<in> set as \<or> rb_terminal st))"

definition recorded :: "abort_files \<Rightarrow> abort_snapshot \<Rightarrow> run_abort \<Rightarrow> bool" where
  "recorded files sn st \<longleftrightarrow> filter is_abort (rb_queue st) = [] \<and> rb_settled st \<and> log_split (rb_writes st) \<and>
     running_all (fail_action files) st \<and> stands sn st \<and> rb_terminal st"

definition stopping :: "abort_files \<Rightarrow> abort_snapshot \<Rightarrow> run_abort \<Rightarrow> bool" where
  "stopping files sn st \<longleftrightarrow> rb_aborted st \<and> rb_recorded st \<and> (waiting sn st \<or> recording files sn st \<or> recorded files sn st)"

definition files_apart :: "abort_files \<Rightarrow> abort_snapshot \<Rightarrow> bool" where
  "files_apart files sn \<longleftrightarrow> (\<forall>m f c. TryPersist m f c \<in> set (stage_actions sn) \<longrightarrow> f \<noteq> af_artifact files \<and> f \<noteq> af_operator_stop files)"

lemma log_split_start: "(\<forall>w \<in> set ws. \<not> of_stop (snd w)) \<Longrightarrow> log_split ws"
  unfolding log_split_def by (rule exI [of _ ws], rule exI [of _ "[]"]) simp

lemma log_split_snoc: "log_split ws \<Longrightarrow> \<not> of_stage c \<Longrightarrow> log_split (ws @ [(f, c)])"
  unfolding log_split_def
proof (elim exE conjE)
  fix xs ys
  assume "ws = xs @ ys" "\<forall>w \<in> set xs. \<not> of_stop (snd w)" "\<forall>w \<in> set ys. \<not> of_stage (snd w)" "\<not> of_stage c"
  then show "\<exists>xs ys. ws @ [(f, c)] = xs @ ys \<and> (\<forall>w \<in> set xs. \<not> of_stop (snd w)) \<and> (\<forall>w \<in> set ys. \<not> of_stage (snd w))"
    by (intro exI [of _ xs] exI [of _ "ys @ [(f, c)]"]) auto
qed

lemma last_content_snoc [simp]: "last_content f (ws @ [(g, c)]) = (if f = g then Some c else last_content f ws)"
  by (simp add: last_content_def)

lemma stage_actions_write: "a \<in> set (stage_actions sn) \<Longrightarrow> is_write a"
  by (auto simp: stage_actions_def split: option.splits)

lemma plain_actions: "\<not> is_abort t \<Longrightarrow> list_all plain (actions_of files t)"
  by (cases t) simp_all

lemma plain_rest: "list_all plain as \<Longrightarrow> list_all plain (rest as)"
  by (auto simp: list_all_iff dest: set_rest)

lemma plain_no_finish: "list_all plain as \<Longrightarrow> FinishAbort \<notin> set (takeWhile (Not \<circ> is_write) as)"
  by (metis list_all_iff plain.simps(4) set_takeWhileD)

lemma fail_actions: "\<not> is_abort t \<Longrightarrow> \<not> is_normal t \<Longrightarrow> list_all (fail_action files) (actions_of files t)"
  by (cases t) simp_all

lemma fail_plain: "fail_action files a \<Longrightarrow> plain a"
  by (cases a) simp_all

subsection \<open>Every step keeps the invariants\<close>

lemma abort_actions_end: "abort_actions files sn = gone @ as \<Longrightarrow> as \<noteq> [] \<Longrightarrow> \<exists>bs. as = bs @ [FinishAbort] \<and> FinishAbort \<notin> set bs"
proof -
  assume a: "abort_actions files sn = gone @ as" "as \<noteq> []"
  obtain cs where c: "abort_actions files sn = cs @ [FinishAbort]" "FinishAbort \<notin> set cs"
    by (auto simp: abort_actions_def stage_actions_def split: option.split)
  have "as = butlast as @ [FinishAbort]"
    using a c(1) by (metis append_butlast_last_id last_appendR last_snoc)
  moreover have "cs = gone @ butlast as" using a c(1) by (metis butlast_append butlast_snoc)
  ultimately show ?thesis using c(2) by (intro exI [of _ "butlast as"]) auto
qed

text \<open>The abort's own record, from a suffix of its actions on.\<close>

lemma record_goes_on:
  assumes st: "rb_aborted st" "rb_recorded st" "filter is_abort (rb_queue st) = []" "\<not> rb_settled st" "log_split (rb_writes st)"
    and as: "abort_actions files sn = gone @ as" "as \<noteq> []"
    and kept: "set (stage_actions sn) \<subseteq> set as \<or> stands sn st" "NoteAborted sn \<in> set as \<or> rb_terminal st"
  shows "stopping files sn (settle as st)"
proof -
  obtain bs where bs: "as = bs @ [FinishAbort]" "FinishAbort \<notin> set bs" using abort_actions_end [OF as] by blast
  have stands: "stands sn (settle as st) \<longleftrightarrow> stands sn st" by (simp add: stands_def)
  have terminal: "NoteAborted sn \<in> set (rest as) \<or> rb_terminal (settle as st)"
    using kept(2) outside_rest settle_terminal by blast
  show ?thesis
  proof (cases "rest as = []")
    case True
    then have "as = takeWhile (Not \<circ> is_write) as" using rest_parts [of as] by simp
    then have "FinishAbort \<in> set (takeWhile (Not \<circ> is_write) as)" using bs(1) by (metis in_set_conv_decomp)
    moreover have "set (stage_actions sn) \<subseteq> set as \<Longrightarrow> stage_actions sn = []"
      using True stage_actions_write write_in_rest by (metis empty_iff empty_set in_mono list.set_intros(1) neq_Nil_conv)
    then have "stands sn st" using kept(1) by (auto simp: stands_def)
    ultimately show ?thesis
      using st True terminal by (simp add: stopping_def recorded_def settle_settled running_all_def stands)
  next
    case False
    have "FinishAbort \<notin> set (takeWhile (Not \<circ> is_write) as)"
    proof
      assume "FinishAbort \<in> set (takeWhile (Not \<circ> is_write) as)"
      moreover have "takeWhile (Not \<circ> is_write) as = takeWhile (Not \<circ> is_write) bs"
      proof -
        have "\<exists>b \<in> set bs. is_write b"
          using False bs(1) by (auto simp: rest_def dropWhile_eq_Nil_conv)
        then show ?thesis unfolding bs(1) by (auto intro: takeWhile_append1)
      qed
      ultimately show False using bs(2) by (auto dest: set_takeWhileD)
    qed
    moreover have "\<exists>gone. abort_actions files sn = gone @ rest as"
      using as(1) rest_parts [of as] by (metis append.assoc)
    moreover have "set (stage_actions sn) \<subseteq> set (rest as) \<or> stands sn st"
      using kept(1) stage_actions_write write_in_rest by blast
    ultimately have "recording files sn (settle as st)"
      using st False terminal stands by (simp add: recording_def settle_settled)
    then show ?thesis using st by (simp add: stopping_def)
  qed
qed

lemma abort_contents:
  assumes "abort_actions files sn = gone @ TryPersist m f c # as"
  shows "\<not> of_stage c" and "TryPersist m f c \<in> set (stage_actions sn) \<or> f = af_artifact files \<or> f = af_operator_stop files"
proof -
  have "TryPersist m f c \<in> set (abort_actions files sn)" using assms by simp
  then show "\<not> of_stage c" "TryPersist m f c \<in> set (stage_actions sn) \<or> f = af_artifact files \<or> f = af_operator_stop files"
    by (auto simp: abort_actions_def stage_actions_def split: option.splits)
qed

lemma no_persist: "abort_actions files sn = gone @ as \<Longrightarrow> Persist f c \<notin> set as"
proof -
  assume "abort_actions files sn = gone @ as"
  moreover have "Persist f c \<notin> set (abort_actions files sn)" by (auto simp: abort_actions_def stage_actions_def split: option.splits)
  ultimately show ?thesis by auto
qed

lemma one_stage_action: "a \<in> set (stage_actions sn) \<Longrightarrow> b \<in> set (stage_actions sn) \<Longrightarrow> a = b"
  by (cases "sn_stage sn"; cases "sn_ceiling sn") (simp_all add: stage_actions_def)

lemma stands_elsewhere:
  assumes "files_apart files sn" and "f = af_artifact files \<or> f = af_operator_stop files" and "stands sn st"
  shows "stands sn (written f c st)"
  using assms by (auto simp: stands_def files_apart_def)

lemma stands_report: "stands sn st \<Longrightarrow> stands sn (report_error e st)"
  unfolding stands_def by fastforce

lemma recording_step:
  assumes inv: "recording files sn st" "rb_aborted st" "rb_recorded st" and apart: "files_apart files sn"
    and step: "queue_step files st st'"
  shows "stopping files sn st'"
proof -
  from inv(1) obtain bs where running: "rb_running st = Some bs" "bs \<noteq> []" and "\<exists>gone. abort_actions files sn = gone @ bs"
    and kept: "set (stage_actions sn) \<subseteq> set bs \<or> stands sn st" "NoteAborted sn \<in> set bs \<or> rb_terminal st"
    and st: "filter is_abort (rb_queue st) = []" "\<not> rb_settled st" "log_split (rb_writes st)"
    unfolding recording_def by blast
  then obtain before_them where parts: "abort_actions files sn = before_them @ bs" by blast
  from step show ?thesis
  proof cases
    case (writes f c as)
    then have "Persist f c \<in> set bs" using running by simp
    then show ?thesis using no_persist [OF parts] by blast
  next
    case (fails f c as)
    then have "Persist f c \<in> set bs" using running by simp
    then show ?thesis using no_persist [OF parts] by blast
  next
    case (abort_writes m f c as)
    then have bs: "bs = TryPersist m f c # as" using running by simp
    note content = abort_contents [OF parts [unfolded bs]]
    obtain cs where "bs = cs @ [FinishAbort]" using abort_actions_end [OF parts running(2)] by blast
    then have "as \<noteq> []" unfolding bs by (cases cs) auto
    moreover have "set (stage_actions sn) \<subseteq> set as \<or> stands sn (written f c st)"
    proof (cases "TryPersist m f c \<in> set (stage_actions sn)")
      case True
      then have "stands sn (written f c st)" using one_stage_action [OF True] by (auto simp: stands_def)
      then show ?thesis ..
    next
      case False
      then show ?thesis using kept(1) content(2) stands_elsewhere [OF apart] unfolding bs by auto
    qed
    moreover have "NoteAborted sn \<in> set as \<or> rb_terminal (written f c st)" using kept(2) unfolding bs by auto
    ultimately show ?thesis
      unfolding abort_writes(1) using parts [unfolded bs] inv(2,3) st content(1)
      by (intro record_goes_on [where gone = "before_them @ [TryPersist m f c]"]) (simp_all add: log_split_snoc)
  next
    case (abort_fails m f c as error)
    then have bs: "bs = TryPersist m f c # as" using running by simp
    obtain cs where "bs = cs @ [FinishAbort]" using abort_actions_end [OF parts running(2)] by blast
    then have "as \<noteq> []" unfolding bs by (cases cs) auto
    moreover have "set (stage_actions sn) \<subseteq> set as \<or> stands sn (report_error (m @ error) st)"
    proof (cases "TryPersist m f c \<in> set (stage_actions sn)")
      case True
      then have "stands sn (report_error (m @ error) st)" using one_stage_action [OF True] by (auto simp: stands_def)
      then show ?thesis ..
    next
      case False
      then have "set (stage_actions sn) \<subseteq> set as" if "\<not> stands sn st" using kept(1) that unfolding bs by auto
      then show ?thesis using stands_report by blast
    qed
    moreover have "NoteAborted sn \<in> set as \<or> rb_terminal (report_error (m @ error) st)" using kept(2) unfolding bs by auto
    ultimately show ?thesis
      unfolding abort_fails(1) using parts [unfolded bs] inv(2,3) st
      by (intro record_goes_on [where gone = "before_them @ [TryPersist m f c]"]) simp_all
  qed (use running in simp_all)
qed

lemma running_all_settle: "list_all P as \<Longrightarrow> running_all P (settle as st)"
  by (auto simp: running_all_def list_all_iff dest: set_rest)

lemma calm_step:
  assumes inv: "running_all plain st" "\<not> rb_settled st" "\<forall>w \<in> set (rb_writes st). \<not> of_stop (snd w)"
    and step: "queue_step files st st'" and plain_head: "\<forall>sn ts. rb_queue st = RecordAbort sn # ts \<longrightarrow> rb_running st \<noteq> None"
  shows "running_all plain st' \<and> \<not> rb_settled st' \<and> (\<forall>w \<in> set (rb_writes st'). \<not> of_stop (snd w))"
  using step
proof cases
  case (begins t ts)
  then have "\<not> is_abort t" using plain_head by (cases t) auto
  then have p: "list_all plain (actions_of files t)" by (rule plain_actions)
  then show ?thesis unfolding begins(1) using inv(2,3) plain_no_finish [OF p] by (simp add: running_all_settle settle_settled)
next
  case (skips t ts)
  then show ?thesis using inv by (simp add: running_all_def)
next
  case (writes f c as)
  then have p: "list_all plain as" "\<not> of_stop c" using inv(1) by (simp_all add: running_all_def)
  then show ?thesis unfolding writes(1) using inv(2,3) plain_no_finish [OF p(1)] by (auto simp: running_all_settle settle_settled)
next
  case (fails f c as)
  then show ?thesis using inv by (simp add: running_all_def)
qed (use inv(1) in \<open>simp_all add: running_all_def\<close>)

lemma queue_after:
  assumes "queue_step files st st'"
  shows "rb_aborted st' = rb_aborted st" "rb_recorded st' = rb_recorded st"
    "rb_queue st' = rb_queue st \<or> rb_running st = None \<and> (\<exists>t. rb_queue st = t # rb_queue st')"
  using assms by (cases; simp)+

lemma waiting_step:
  assumes inv: "waiting sn st" "rb_aborted st" "rb_recorded st" and step: "queue_step files st st'"
  shows "stopping files sn st'"
proof (cases "rb_running st = None \<and> (\<exists>ts. rb_queue st = RecordAbort sn # ts)")
  case True
  then obtain ts where head: "rb_running st = None" "rb_queue st = RecordAbort sn # ts" by blast
  then have ts: "filter is_abort ts = []" using inv(1) by (simp add: waiting_def)
  from step show ?thesis
  proof cases
    case (begins t us)
    then have "t = RecordAbort sn" "us = ts" using head by simp_all
    then have "st' = settle (abort_actions files sn) (st\<lparr>rb_queue := ts\<rparr>)" using begins(1) by simp
    moreover have "set (stage_actions sn) \<subseteq> set (abort_actions files sn)" "NoteAborted sn \<in> set (abort_actions files sn)"
      "abort_actions files sn \<noteq> []"
      by (auto simp: abort_actions_def)
    ultimately show ?thesis
      using inv ts log_split_start by (auto simp: waiting_def intro!: record_goes_on [where gone = "[]"])
  next
    case (skips t us)
    then have "t = RecordAbort sn" using head by simp
    then show ?thesis using skips by simp
  qed (use head in simp_all)
next
  case False
  have "\<forall>sn' ts. rb_queue st = RecordAbort sn' # ts \<longrightarrow> rb_running st \<noteq> None"
  proof (intro allI impI)
    fix sn' ts
    assume head: "rb_queue st = RecordAbort sn' # ts"
    then have "sn' = sn" using inv(1) by (simp add: waiting_def)
    then show "rb_running st \<noteq> None" using False head by simp
  qed
  from calm_step [OF _ _ _ step this] inv(1)
  have calm': "running_all plain st'" "\<not> rb_settled st'" "\<forall>w \<in> set (rb_writes st'). \<not> of_stop (snd w)"
    unfolding waiting_def by blast+
  have "filter is_abort (rb_queue st') = [RecordAbort sn]"
    using queue_after(3) [OF step]
  proof (elim disjE conjE exE)
    fix t
    assume t: "rb_running st = None" "rb_queue st = t # rb_queue st'"
    then have "t \<noteq> RecordAbort sn" using False by blast
    then show ?thesis using inv(1) t(2) by (cases t) (auto simp: waiting_def)
  qed (use inv(1) in \<open>simp add: waiting_def\<close>)
  then show ?thesis using calm' inv(2,3) queue_after(1,2) [OF step] by (simp add: stopping_def waiting_def)
qed

lemma stands_fail: "files_apart files sn \<Longrightarrow> stands sn st \<Longrightarrow> f = af_artifact files \<Longrightarrow> stands sn (settle as (written f c st))"
  using stands_elsewhere [of files sn f st c] by (simp add: stands_def)

lemma recorded_step:
  assumes inv: "recorded files sn st" "rb_aborted st" "rb_recorded st" and apart: "files_apart files sn"
    and step: "queue_step files st st'"
  shows "stopping files sn st'"
  using step
proof cases
  case (begins t ts)
  then have "filter is_abort ts = []" "\<not> is_abort t" "\<not> is_normal t"
    using inv(1,2) by (simp_all add: recorded_def split: if_splits)
  then show ?thesis
    unfolding begins(1) using inv fail_actions [of t files]
    by (simp add: stopping_def recorded_def settle_settled settle_terminal running_all_settle stands_def)
next
  case (skips t ts)
  then show ?thesis using inv by (simp add: stopping_def recorded_def running_all_def stands_def split: if_splits)
next
  case (writes f c as)
  then have "f = af_artifact files" "\<not> of_stage c" "list_all (fail_action files) as" using inv(1) by (simp_all add: recorded_def running_all_def)
  then show ?thesis
    unfolding writes(1) using inv stands_fail [OF apart]
    by (simp add: stopping_def recorded_def settle_settled settle_terminal running_all_settle log_split_snoc)
next
  case (fails f c as)
  then show ?thesis using inv by (simp add: stopping_def recorded_def running_all_def stands_def)
next
  case (abort_writes m f c as)
  then show ?thesis using inv(1) by (simp add: recorded_def running_all_def)
next
  case (abort_fails m f c as error)
  then show ?thesis using inv(1) by (simp add: recorded_def running_all_def)
qed

lemma stopping_queue_step:
  assumes "stopping files sn st" and "files_apart files sn" and "queue_step files st st'"
  shows "stopping files sn st'"
  using assms waiting_step recording_step recorded_step unfolding stopping_def [of files sn st] by blast

lemmas call_defs = write_pending_stage_def write_stage_progress_def complete_stage_def stop_at_ceiling_def update_pending_stage_def
  write_pending_artifact_def complete_artifact_def await_artifact_review_def write_failed_artifact_def mark_aborted_def
  start_teardown_def clean_up_on_signal_def abort_for_signal_def enqueue_def enqueue_normal_def Let_def

text \<open>Once the abort is requested, a call only queues a failed artifact, reports, or goes on with the signal.\<close>

lemma call_aborted:
  assumes "call_step st st'" and "rb_aborted st" and "rb_recorded st"
  shows "rb_aborted st' \<and> rb_recorded st' \<and> rb_settled st' = rb_settled st \<and> rb_running st' = rb_running st \<and>
    rb_writes st' = rb_writes st \<and> rb_terminal st' = rb_terminal st \<and>
    (\<exists>qs. rb_queue st' = rb_queue st @ qs \<and> filter is_abort qs = []) \<and> (\<exists>rs. rb_reports st' = rb_reports st @ rs)"
  using assms by cases (simp_all add: call_defs)

lemma stopping_call_step:
  assumes "stopping files sn st" and "call_step st st'"
  shows "stopping files sn st'"
proof -
  from assms(1) have "rb_aborted st" "rb_recorded st" by (simp_all add: stopping_def)
  from call_aborted [OF assms(2) this] obtain qs rs where same: "rb_aborted st'" "rb_recorded st'" "rb_settled st' = rb_settled st"
      "rb_running st' = rb_running st" "rb_writes st' = rb_writes st" "rb_terminal st' = rb_terminal st"
      "rb_queue st' = rb_queue st @ qs" "filter is_abort qs = []" "rb_reports st' = rb_reports st @ rs" by blast
  have stands: "stands sn st'" if "stands sn st"
    unfolding stands_def
  proof (intro allI impI)
    fix m f c
    assume "TryPersist m f c \<in> set (stage_actions sn)"
    with that have "last_content f (rb_writes st) = Some c \<or> (\<exists>e. m @ e \<in> set (rb_reports st))" unfolding stands_def by blast
    then show "last_content f (rb_writes st') = Some c \<or> (\<exists>e. m @ e \<in> set (rb_reports st'))" unfolding same(5,9) by auto
  qed
  from assms(1) have "waiting sn st \<or> recording files sn st \<or> recorded files sn st" by (simp add: stopping_def)
  then have "waiting sn st' \<or> recording files sn st' \<or> recorded files sn st'"
  proof (elim disjE)
    assume "waiting sn st"
    then have "waiting sn st'" using same by (simp add: waiting_def running_all_def)
    then show ?thesis ..
  next
    assume "recording files sn st"
    then have "recording files sn st'" using same stands unfolding recording_def by auto
    then show ?thesis by blast
  next
    assume "recorded files sn st"
    then have "recorded files sn st'" using same stands by (simp add: recorded_def running_all_def)
    then show ?thesis by blast
  qed
  then show ?thesis using same by (simp add: stopping_def)
qed

lemma stopping_steps:
  assumes "(abort_step files)\<^sup>*\<^sup>* st st'" and "stopping files sn st" and "files_apart files sn"
  shows "stopping files sn st'"
  using assms(1,2)
  by (induction rule: rtranclp_induct)
    (auto simp: abort_step_def intro: stopping_call_step stopping_queue_step [OF _ assms(3)])

text \<open>Before the abort is requested nothing of it is on its way; a request puts exactly its record behind what is queued.\<close>

definition snapshot_of :: "string \<Rightarrow> string option \<Rightarrow> run_abort \<Rightarrow> abort_snapshot" where
  "snapshot_of reason operator_stop st =
     \<lparr>sn_reason = reason, sn_stage = rb_stage st, sn_ceiling = rb_ceiling st, sn_artifact = rb_artifact st, sn_operator_stop = operator_stop\<rparr>"

lemma calm_stops:
  assumes "calm st" and "\<not> rb_recorded st"
  shows "stopping files (snapshot_of reason operator_stop st) (mark_aborted reason operator_stop st)"
  using assms by (simp add: calm_def stopping_def waiting_def mark_aborted_def enqueue_def running_all_def snapshot_of_def)

lemma calm_keeps [simp]:
  "calm (report_error m st) = calm st" "calm (st\<lparr>rb_signal := phase\<rparr>) = calm st"
  by (simp_all add: calm_def running_all_def)

lemma signal_marks:
  assumes "calm st" and "\<not> rb_recorded st"
  shows "\<exists>st0 reason op. calm st0 \<and> \<not> rb_recorded st0 \<and> abort_for_signal sig st = mark_aborted reason op st0"
  unfolding abort_for_signal_def
proof (intro exI conjI)
  show "calm (st\<lparr>rb_signal := RecordingAbort sig\<rparr>)" "\<not> rb_recorded (st\<lparr>rb_signal := RecordingAbort sig\<rparr>)" using assms by simp_all
qed (rule refl)

lemma calm_call_step:
  assumes "calm st" and "\<not> rb_aborted st" and "\<not> rb_recorded st" and "call_step st st'"
  shows "(calm st' \<and> \<not> rb_aborted st' \<and> \<not> rb_recorded st') \<or>
    (\<exists>st0 reason op. calm st0 \<and> \<not> rb_recorded st0 \<and> st' = mark_aborted reason op st0)"
  using assms(4)
proof cases
  case (10 reason)
  then show ?thesis using assms(1,3) by blast
next
  case (12 sig)
  show ?thesis
  proof (cases "rb_signal st = NoSignal \<and> rb_teardowns st \<noteq> 0")
    case True
    then have "st' = abort_for_signal sig (report_error (signal_notice sig) st)" using 12 by (simp add: clean_up_on_signal_def)
    then show ?thesis using signal_marks [of "report_error (signal_notice sig) st" sig] assms(1,3) by simp
  next
    case False
    then have "calm st' \<and> \<not> rb_aborted st' \<and> \<not> rb_recorded st'"
      unfolding 12(1) using assms(1-3) by (auto simp: clean_up_on_signal_def Let_def)
    then show ?thesis ..
  qed
next
  case (13 sig)
  then show ?thesis using signal_marks [OF assms(1,3)] by simp
next
  case (14 sig error)
  then show ?thesis using signal_marks [of "report_error error st" sig] assms(1,3) by simp
qed (use assms(1-3) in \<open>auto simp: call_defs calm_def running_all_def split: option.splits if_splits\<close>)

lemma calm_queue_step:
  assumes "calm st" and "queue_step files st st'"
  shows "calm st'"
proof -
  have "\<forall>sn ts. rb_queue st = RecordAbort sn # ts \<longrightarrow> rb_running st \<noteq> None" using assms(1) by (auto simp: calm_def)
  from calm_step [OF _ _ _ assms(2) this] assms(1)
  have "running_all plain st' \<and> \<not> rb_settled st' \<and> (\<forall>w \<in> set (rb_writes st'). \<not> of_stop (snd w))" unfolding calm_def by blast
  moreover have "filter is_abort (rb_queue st') = []"
    using queue_after(3) [OF assms(2)] assms(1) by (auto simp: calm_def split: if_splits)
  ultimately show ?thesis by (simp add: calm_def)
qed

text \<open>A state is calm until the abort is requested, and from then on its record is on its way or made. The stage of the
record is written to a file that is neither the artifact nor the operator's stop.\<close>

definition stage_files_apart :: "abort_files \<Rightarrow> run_abort \<Rightarrow> bool" where
  "stage_files_apart files st \<longleftrightarrow>
     (\<forall>p. rb_stage st = Some p \<longrightarrow> ps_file p \<noteq> af_artifact files \<and> ps_file p \<noteq> af_operator_stop files) \<and>
     (\<forall>c. rb_stage st = None \<and> rb_ceiling st = Some c \<longrightarrow> cs_file c \<noteq> af_artifact files \<and> cs_file c \<noteq> af_operator_stop files)"

lemma snapshot_apart: "stage_files_apart files st \<Longrightarrow> files_apart files (snapshot_of reason operator_stop st)"
  by (auto simp: stage_files_apart_def files_apart_def snapshot_of_def stage_actions_def split: option.splits)

lemma reachable_calm:
  assumes "reachable files st"
  shows "rb_recorded st = rb_aborted st \<and> (\<not> rb_aborted st \<longrightarrow> calm st)"
  using assms unfolding reachable_def
proof (induction rule: rtranclp_induct)
  case base
  show ?case by (simp add: created_def calm_def running_all_def)
next
  case (step st st')
  show ?case
  proof (cases "rb_aborted st")
    case True
    then show ?thesis
      using step.IH step.hyps(2) call_aborted [of st st'] queue_after [of files st st'] by (auto simp: abort_step_def)
  next
    case False
    then have calm: "calm st" "\<not> rb_recorded st" using step.IH by auto
    from step.hyps(2) show ?thesis unfolding abort_step_def
    proof
      assume "queue_step files st st'"
      then show ?thesis using calm False calm_queue_step queue_after [of files st st'] by auto
    next
      assume "call_step st st'"
      from calm_call_step [OF calm(1) False calm(2) this] show ?thesis
        by (auto simp: mark_aborted_def enqueue_def)
    qed
  qed
qed

text \<open>C5: However the calls, the signal and the writes interleave, once the abort of a run is requested its record is
the last word on the stage that was pending: when the record is made, the stage's file holds the failure with its
reason and the signal, or the failed write was reported, and so it stays; the run has a terminal event, and in the
order of the writes no stage is begun or completed after a write of the abort.\<close>

theorem abort_record_stands:
  assumes "reachable files st" and "\<not> rb_aborted st" and "stage_files_apart files st"
    and "(abort_step files)\<^sup>*\<^sup>* (mark_aborted reason operator_stop st) st'" and "rb_settled st'" and "rb_stage st = Some p"
  shows "(last_content (ps_file p) (rb_writes st') = Some (StageFailure (p\<lparr>ps_operator_stop := operator_stop\<rparr>) reason) \<or>
      (\<exists>e. ARTIFACTS_NOT_UPDATED @ e \<in> set (rb_reports st'))) \<and> rb_terminal st' \<and>
    (\<forall>i j. i < j \<and> j < length (rb_writes st') \<and> of_stop (snd (rb_writes st' ! i)) \<longrightarrow> \<not> of_stage (snd (rb_writes st' ! j)))"
proof -
  let ?sn = "snapshot_of reason operator_stop st"
  have "calm st" "\<not> rb_recorded st" using reachable_calm [OF assms(1)] assms(2) by auto
  from stopping_steps [OF assms(4) calm_stops [OF this] snapshot_apart [OF assms(3)]]
  have "recorded files ?sn st'" using assms(5) by (auto simp: stopping_def waiting_def recording_def)
  then have r: "stands ?sn st'" "rb_terminal st'" "log_split (rb_writes st')" by (simp_all add: recorded_def)
  from r(3) obtain xs ys where split: "rb_writes st' = xs @ ys" "\<forall>w \<in> set xs. \<not> of_stop (snd w)" "\<forall>w \<in> set ys. \<not> of_stage (snd w)"
    unfolding log_split_def by blast
  have "\<not> of_stage (snd (rb_writes st' ! j))"
    if "i < j" "j < length (rb_writes st')" "of_stop (snd (rb_writes st' ! i))" for i j
  proof -
    have "length xs \<le> i" using that split(1,2) by (metis linorder_not_le nth_append nth_mem)
    then show ?thesis using that(1,2) split(1,3) by (simp add: nth_append)
  qed
  moreover have "TryPersist ARTIFACTS_NOT_UPDATED (ps_file p) (StageFailure (p\<lparr>ps_operator_stop := operator_stop\<rparr>) reason)
      \<in> set (stage_actions ?sn)"
    using assms(6) by (simp add: stage_actions_def snapshot_of_def)
  ultimately show ?thesis using r(1,2) unfolding stands_def by blast
qed

subsection \<open>The abort ends\<close>

text \<open>What the queue has still to do.\<close>

definition work :: "abort_files \<Rightarrow> run_abort \<Rightarrow> nat" where
  "work files st = sum_list (map (\<lambda>t. Suc (length (actions_of files t))) (rb_queue st)) +
     (case rb_running st of None \<Rightarrow> 0 | Some as \<Rightarrow> length as)"

lemma rest_shorter: "length (rest as) \<le> length as"
  by (simp add: rest_def length_dropWhile_le)

lemma queue_step_work: "queue_step files st st' \<Longrightarrow> work files st' < work files st"
proof (induction rule: queue_step.induct)
  case (begins st t ts)
  then show ?case using rest_shorter [of "actions_of files t"] by (simp add: work_def)
next
  case (skips st t ts)
  then show ?case by (simp add: work_def)
next
  case (writes st f c as)
  then show ?case using rest_shorter [of as] by (simp add: work_def)
next
  case (fails st f c as)
  then show ?case by (simp add: work_def)
next
  case (abort_writes st m f c as)
  then show ?case using rest_shorter [of as] by (simp add: work_def)
next
  case (abort_fails st m f c as error)
  then show ?case using rest_shorter [of as] by (simp add: work_def)
qed

definition good_running :: "action list \<Rightarrow> bool" where
  "good_running as \<longleftrightarrow> as \<noteq> [] \<and> is_write (hd as) \<and> (FinishAbort \<in> set as \<longrightarrow> (\<forall>f c. Persist f c \<notin> set as))"

definition on_its_way :: "run_abort \<Rightarrow> bool" where
  "on_its_way st \<longleftrightarrow> (\<exists>sn. RecordAbort sn \<in> set (rb_queue st)) \<or> (\<exists>as. rb_running st = Some as \<and> FinishAbort \<in> set as) \<or> rb_settled st"

definition moving :: "run_abort \<Rightarrow> bool" where
  "moving st \<longleftrightarrow> (\<forall>as. rb_running st = Some as \<longrightarrow> good_running as) \<and> (rb_aborted st \<longrightarrow> on_its_way st)"

lemma rest_head: "rest as \<noteq> [] \<Longrightarrow> is_write (hd (rest as))"
  unfolding rest_def by (induction as) (simp_all del: dropWhile_eq_Nil_conv split: if_splits)

lemma good_rest:
  "FinishAbort \<in> set as \<longrightarrow> (\<forall>f c. Persist f c \<notin> set as) \<Longrightarrow> rest as \<noteq> [] \<Longrightarrow> good_running (rest as)"
  using rest_head by (auto simp: good_running_def dest: set_rest)

lemma good_actions: "FinishAbort \<in> set (actions_of files t) \<longrightarrow> (\<forall>f c. Persist f c \<notin> set (actions_of files t))"
proof (cases t)
  case (RecordAbort sn)
  then show ?thesis using no_persist [of files sn "[]"] by simp
qed simp_all

lemma settle_finish: "FinishAbort \<in> set as \<Longrightarrow> on_its_way (settle as st)"
  unfolding on_its_way_def by (metis empty_iff empty_set outside_rest settle_running settle_settled)

lemma settle_keeps_settled: "rb_settled st \<Longrightarrow> on_its_way (settle as st)"
  by (simp add: on_its_way_def settle_settled)

lemma settle_waits: "RecordAbort sn \<in> set (rb_queue st) \<Longrightarrow> on_its_way (settle as st)"
  by (auto simp: on_its_way_def)

lemma finish_in_abort: "FinishAbort \<in> set (abort_actions files sn)"
  by (simp add: abort_actions_def)

lemma moving_settle:
  assumes "rb_aborted st \<longrightarrow> FinishAbort \<in> set as \<or> rb_settled st \<or> (\<exists>sn. RecordAbort sn \<in> set (rb_queue st))"
    and "FinishAbort \<in> set as \<longrightarrow> (\<forall>f c. Persist f c \<notin> set as)"
  shows "moving (settle as st)"
proof -
  have "rb_aborted st \<longrightarrow> on_its_way (settle as st)"
    using assms(1) settle_finish settle_keeps_settled settle_waits by blast
  then show ?thesis using good_rest [OF assms(2)] by (simp add: moving_def)
qed

lemma moving_queue_step:
  assumes "moving st" and "queue_step files st st'"
  shows "moving st'"
  using assms(2)
proof cases
  case (begins t ts)
  show ?thesis unfolding begins(1)
  proof (rule moving_settle [OF _ good_actions])
    show "rb_aborted (st\<lparr>rb_queue := ts\<rparr>) \<longrightarrow> FinishAbort \<in> set (actions_of files t) \<or> rb_settled (st\<lparr>rb_queue := ts\<rparr>) \<or>
        (\<exists>sn. RecordAbort sn \<in> set (rb_queue (st\<lparr>rb_queue := ts\<rparr>)))"
      using assms(1) begins(2,3) finish_in_abort by (auto simp: moving_def on_its_way_def)
  qed
next
  case (skips t ts)
  then show ?thesis using assms(1) by (auto simp: moving_def on_its_way_def)
next
  case (writes f c as)
  then have "good_running (Persist f c # as)" using assms(1) by (simp add: moving_def)
  then have "FinishAbort \<notin> set as" by (auto simp: good_running_def)
  then show ?thesis
    unfolding writes(1) using assms(1) writes(2) by (intro moving_settle) (auto simp: moving_def on_its_way_def)
next
  case (fails f c as)
  then have "good_running (Persist f c # as)" using assms(1) by (simp add: moving_def)
  then have "FinishAbort \<notin> set as" by (auto simp: good_running_def)
  then show ?thesis using assms(1) fails by (auto simp: moving_def on_its_way_def)
next
  case (abort_writes m f c as)
  then have "good_running (TryPersist m f c # as)" using assms(1) by (simp add: moving_def)
  then have "FinishAbort \<in> set as \<longrightarrow> (\<forall>f c. Persist f c \<notin> set as)" by (auto simp: good_running_def)
  then show ?thesis
    unfolding abort_writes(1) using assms(1) abort_writes(2) by (intro moving_settle) (auto simp: moving_def on_its_way_def)
next
  case (abort_fails m f c as error)
  then have "good_running (TryPersist m f c # as)" using assms(1) by (simp add: moving_def)
  then have "FinishAbort \<in> set as \<longrightarrow> (\<forall>f c. Persist f c \<notin> set as)" by (auto simp: good_running_def)
  then show ?thesis
    unfolding abort_fails(1) using assms(1) abort_fails(2) by (intro moving_settle) (auto simp: moving_def on_its_way_def)
qed

lemma call_moves:
  assumes "call_step st st'"
  shows "rb_running st' = rb_running st \<and> rb_settled st' = rb_settled st \<and> set (rb_queue st) \<subseteq> set (rb_queue st') \<and>
    (rb_aborted st' \<longrightarrow> rb_aborted st \<or> rb_recorded st \<or> (\<exists>sn. RecordAbort sn \<in> set (rb_queue st')))"
  using assms by cases (auto simp: call_defs split: option.splits if_splits)

lemma reachable_moving: "reachable files st \<Longrightarrow> moving st"
  unfolding reachable_def
proof (induction rule: rtranclp_induct)
  case base
  show ?case by (simp add: moving_def created_def)
next
  case (step st st')
  then have recorded: "rb_recorded st = rb_aborted st" using reachable_calm [of files st] by (simp add: reachable_def)
  from step.hyps(2) show ?case unfolding abort_step_def
  proof
    assume "queue_step files st st'"
    then show ?thesis using moving_queue_step step.IH by blast
  next
    assume "call_step st st'"
    from call_moves [OF this] show ?thesis
      using step.IH recorded unfolding moving_def on_its_way_def by (metis subsetD)
  qed
qed

lemma moving_enabled:
  assumes "moving st" and "rb_aborted st" and "\<not> rb_settled st"
  shows "\<exists>st'. queue_step files st st'"
proof (cases "rb_running st")
  case None
  then obtain t ts where "rb_queue st = t # ts"
    using assms by (auto simp: moving_def on_its_way_def neq_Nil_conv dest: list.set_cases)
  then show ?thesis using None assms(2) begins [of st t ts files] skips [of st t ts files] by (cases "is_normal t") auto
next
  case (Some as)
  then have "good_running as" using assms(1) by (simp add: moving_def)
  then obtain a bs where a: "as = a # bs" "is_write a" by (cases as) (auto simp: good_running_def)
  then show ?thesis
    using Some writes [of st _ _ bs files] abort_writes [of st _ _ _ bs files] by (cases a) auto
qed

text \<open>C38: A requested abort gets its record: in every reachable state in which it is requested and not yet recorded the
queue has a step to make, and every step, a failed write and a skipped transition included, leaves it less to do, so
that with no further calls the record is made after at most that many steps.\<close>

theorem abort_finishes:
  assumes "reachable files st" and "rb_aborted st"
  shows "(\<not> rb_settled st \<longrightarrow> (\<exists>st'. queue_step files st st')) \<and>
    (\<forall>st'. queue_step files st st' \<longrightarrow> work files st' < work files st) \<and>
    (\<exists>n st'. n \<le> work files st \<and> (queue_step files ^^ n) st st' \<and> rb_settled st')"
proof -
  have "\<exists>n st'. n \<le> work files st \<and> (queue_step files ^^ n) st st' \<and> rb_settled st'" if "moving st" "rb_aborted st" for st
    using that
  proof (induction "work files st" arbitrary: st rule: less_induct)
    case less
    show ?case
    proof (cases "rb_settled st")
      case True
      then show ?thesis by (intro exI [of _ 0] exI [of _ st]) simp
    next
      case False
      then obtain st1 where st1: "queue_step files st st1" using moving_enabled less.prems by blast
      then obtain n st' where "n \<le> work files st1" "(queue_step files ^^ n) st1 st'" "rb_settled st'"
        using less.hyps [of st1] queue_step_work moving_queue_step less.prems queue_after(1) by metis
      then show ?thesis
        using st1 queue_step_work [OF st1] relpowp_Suc_I2 [of "queue_step files" st st1 n st'] by (intro exI [of _ "Suc n"] exI [of _ st']) simp
    qed
  qed
  then show ?thesis using reachable_moving [OF assms(1)] assms(2) moving_enabled queue_step_work by blast
qed

text \<open>A trace: an abort requested while the stage waits for its Judge.\<close>

definition sample_stage :: pending_stage where
  "sample_stage = \<lparr>ps_stage = ''build'', ps_file = ''stage-1.json'', ps_transcript_cost_usd = 2, ps_ceiling_stop = None,
     ps_product_owner = None, ps_operator_stop = None, ps_details = []\<rparr>"

definition sample_files :: abort_files where
  "sample_files = \<lparr>af_artifact = ''artifact.json'', af_operator_stop = ''operator-stop.json''\<rparr>"

definition sample_pending :: run_abort where
  "sample_pending = write_pending_stage sample_stage created"

definition sample_done :: run_abort where
  "sample_done = settle [FinishAbort]
     (written ''stage-1.json'' (StageFailure sample_stage ''spend ceiling reached'')
       (settle (abort_actions sample_files (snapshot_of ''spend ceiling reached'' None sample_pending))
         ((mark_aborted ''spend ceiling reached'' None sample_pending)\<lparr>rb_queue := []\<rparr>)))"

lemmas sample_defs = sample_done_def sample_pending_def sample_stage_def sample_files_def snapshot_of_def created_def call_defs
  abort_actions_def stage_actions_def op_defs written_def aborted_spent_def

lemma sample_pending_steps: "reachable sample_files sample_pending"
  unfolding reachable_def sample_pending_def abort_step_def
  by (rule r_into_rtranclp) (simp add: call_step.intros(1))

lemma sample_steps:
  "(abort_step sample_files)\<^sup>*\<^sup>* (mark_aborted ''spend ceiling reached'' None sample_pending) sample_done"
proof -
  let ?st = "mark_aborted ''spend ceiling reached'' None sample_pending"
  let ?sn = "snapshot_of ''spend ceiling reached'' None sample_pending"
  let ?st1 = "?st\<lparr>rb_queue := [RecordAbort ?sn]\<rparr>"
  let ?st2 = "settle (abort_actions sample_files ?sn) (?st\<lparr>rb_queue := []\<rparr>)"
  have "queue_step sample_files ?st ?st1"
    by (rule skips [where t = "WriteStage sample_stage"]) (simp_all add: sample_defs)
  then have 1: "abort_step sample_files ?st ?st1" by (simp add: abort_step_def)
  have "queue_step sample_files ?st1 ?st2"
    using begins [of ?st1 "RecordAbort ?sn" "[]" sample_files] by (simp add: sample_defs)
  then have 2: "abort_step sample_files ?st1 ?st2" by (simp add: abort_step_def)
  have "queue_step sample_files ?st2 sample_done"
    unfolding sample_done_def by (rule abort_writes [where m = ARTIFACTS_NOT_UPDATED]) (simp add: sample_defs rest_def)
  then have 3: "abort_step sample_files ?st2 sample_done" by (simp add: abort_step_def)
  show ?thesis
    by (rule converse_rtranclp_into_rtranclp [where r = "abort_step sample_files", OF 1],
      rule converse_rtranclp_into_rtranclp [where r = "abort_step sample_files", OF 2], rule r_into_rtranclp, rule 3)
qed

lemma abort_record_stands_witness:
  "last_content ''stage-1.json'' (rb_writes sample_done) = Some (StageFailure sample_stage ''spend ceiling reached'') \<and>
   rb_terminal sample_done"
proof -
  have "\<not> rb_aborted sample_pending" "stage_files_apart sample_files sample_pending" "rb_settled sample_done"
    "rb_stage sample_pending = Some sample_stage" "rb_reports sample_done = []" "ps_file sample_stage = ''stage-1.json''"
    "sample_stage\<lparr>ps_operator_stop := None\<rparr> = sample_stage"
    by (simp_all add: sample_defs stage_files_apart_def)
  with abort_record_stands [OF sample_pending_steps _ _ sample_steps, of sample_stage] show ?thesis by simp
qed

lemma abort_finishes_witness:
  "\<exists>n st'. n \<le> work sample_files (mark_aborted ''spend ceiling reached'' None sample_pending) \<and>
     (queue_step sample_files ^^ n) (mark_aborted ''spend ceiling reached'' None sample_pending) st' \<and> rb_settled st'"
proof -
  let ?st = "mark_aborted ''spend ceiling reached'' None sample_pending"
  have "abort_step sample_files sample_pending ?st" by (simp add: abort_step_def call_step.intros)
  then have "reachable sample_files ?st" using sample_pending_steps unfolding reachable_def by (rule rtranclp.rtrancl_into_rtrancl [rotated])
  moreover have "rb_aborted ?st" by (simp add: sample_defs)
  ultimately show ?thesis using abort_finishes by blast
qed

text \<open>What the two stores of a run may disagree on: an abort requested while the completed artifact is being written takes
that artifact with it, so that the event of the run says it completed and its artifact that it failed.\<close>

definition interrupted_completion :: "run_artifact \<Rightarrow> run_abort" where
  "interrupted_completion a =
     settle [NoteArtifact a RunCompleted, DropArtifact]
       (written (af_artifact sample_files) (Artifact a)
         (mark_aborted ''run interrupted'' None
           (settle (actions_of sample_files (CompleteArtifact a)) (created\<lparr>rb_artifact := Some a\<rparr>))))"

definition overwritten_completion :: "run_artifact \<Rightarrow> run_abort" where
  "overwritten_completion a =
     settle [FinishAbort]
       (written (af_artifact sample_files) (Artifact (a\<lparr>ra_status := ''FAILED''\<rparr>))
         (settle (abort_actions sample_files
             \<lparr>sn_reason = ''run interrupted'', sn_stage = None, sn_ceiling = None, sn_artifact = Some a, sn_operator_stop = None\<rparr>)
           ((interrupted_completion a)\<lparr>rb_queue := []\<rparr>)))"

lemma call_goes_on: "reachable files st \<Longrightarrow> call_step st st' \<Longrightarrow> reachable files st'"
  unfolding reachable_def by (erule rtranclp.rtrancl_into_rtrancl) (simp add: abort_step_def)

lemma queue_goes_on: "reachable files st \<Longrightarrow> queue_step files st st' \<Longrightarrow> reachable files st'"
  unfolding reachable_def by (erule rtranclp.rtrancl_into_rtrancl) (simp add: abort_step_def)

lemma completed_event_failed_artifact:
  "reachable sample_files (overwritten_completion a) \<and>
   map en_kind (rb_events (overwritten_completion a)) = [RunCompleted] \<and>
   last_content ''artifact.json'' (rb_writes (overwritten_completion a)) = Some (Artifact (a\<lparr>ra_status := ''FAILED''\<rparr>))"
proof
  let ?writing = "settle (actions_of sample_files (CompleteArtifact a)) (created\<lparr>rb_artifact := Some a\<rparr>)"
  let ?sn = "\<lparr>sn_reason = ''run interrupted'', sn_stage = None, sn_ceiling = None, sn_artifact = Some a, sn_operator_stop = None\<rparr>"
  have "reachable sample_files created" by (simp add: reachable_def)
  then have "reachable sample_files (complete_artifact a created)" by (rule call_goes_on) (rule call_step.intros)
  moreover have "queue_step sample_files (complete_artifact a created) ?writing"
    using begins [of "complete_artifact a created" "CompleteArtifact a" "[]" sample_files] by (simp add: sample_defs)
  ultimately have "reachable sample_files ?writing" by (rule queue_goes_on)
  then have "reachable sample_files (mark_aborted ''run interrupted'' None ?writing)"
    by (rule call_goes_on) (rule call_step.intros)
  moreover have "queue_step sample_files (mark_aborted ''run interrupted'' None ?writing) (interrupted_completion a)"
    unfolding interrupted_completion_def by (rule writes) (simp add: sample_defs rest_def)
  ultimately have "reachable sample_files (interrupted_completion a)" by (rule queue_goes_on)
  moreover have "queue_step sample_files (interrupted_completion a)
      (settle (actions_of sample_files (RecordAbort ?sn)) ((interrupted_completion a)\<lparr>rb_queue := []\<rparr>))"
    by (rule begins) (simp_all add: interrupted_completion_def sample_defs rest_def)
  ultimately have "reachable sample_files
      (settle (actions_of sample_files (RecordAbort ?sn)) ((interrupted_completion a)\<lparr>rb_queue := []\<rparr>))" by (rule queue_goes_on)
  moreover have "queue_step sample_files
      (settle (actions_of sample_files (RecordAbort ?sn)) ((interrupted_completion a)\<lparr>rb_queue := []\<rparr>)) (overwritten_completion a)"
    unfolding overwritten_completion_def actions_of.simps
    by (rule abort_writes [where m = ARTIFACTS_NOT_UPDATED])
      (simp add: sample_defs rest_def)
  ultimately show "reachable sample_files (overwritten_completion a)" by (rule queue_goes_on)
  show "map en_kind (rb_events (overwritten_completion a)) = [RunCompleted] \<and>
      last_content ''artifact.json'' (rb_writes (overwritten_completion a)) = Some (Artifact (a\<lparr>ra_status := ''FAILED''\<rparr>))"
    by (simp add: overwritten_completion_def interrupted_completion_def sample_defs last_content_def)
qed

end
