(* ===== verification/JudgeStream.thy ===== *)
theory JudgeStream
  imports JsonValue
begin

text \<open>
  Reading a Judge's structured output while it is streamed: the scanner that follows strings and
  nesting in text that is not whole yet (\<open>structured-output-item-scanner.ts\<close>) and the reader of the
  stream's lines (\<open>judge-stream.ts\<close>).

  \<open>JSON.parse\<close> is a parameter that answers \<open>None\<close> where it throws. A listener has a state, which it
  returns with whether it threw; a throw leaves the scan past its character, as in the source, and
  what is left of the text is scanned by the next chunk.
\<close>

subsection \<open>The scanner\<close>

record closed_item =
  ci_section :: string
  ci_item :: json

record scanner =
  sc_text :: string
  sc_scanned :: nat
  sc_depth :: int
  sc_in_string :: bool
  sc_escaped :: bool
  sc_string_start :: nat
  sc_last_key :: string
  sc_section :: "string option"
  sc_item_start :: nat

datatype scan_outcome = Quiet | Closed closed_item | Threw

type_synonym json_parse = "string \<Rightarrow> json option"

type_synonym 's item_listener = "closed_item \<Rightarrow> 's \<Rightarrow> 's \<times> bool"

definition new_scanner :: scanner where
  "new_scanner = \<lparr>sc_text = [], sc_scanned = 0, sc_depth = 0, sc_in_string = False, sc_escaped = False,
     sc_string_start = 0, sc_last_key = [], sc_section = None, sc_item_start = 0\<rparr>"

definition scan_string :: "json_parse \<Rightarrow> char \<Rightarrow> nat \<Rightarrow> scanner \<Rightarrow> scanner \<times> scan_outcome" where
  "scan_string parse c position st =
     (if sc_escaped st then (st\<lparr>sc_escaped := False\<rparr>, Quiet)
      else if c = CHR 0x5C then (st\<lparr>sc_escaped := True\<rparr>, Quiet)
      else if c = CHR 0x22
      then (let st' = st\<lparr>sc_in_string := False\<rparr>
            in if sc_depth st' = 1
               then (case parse (slice (sc_text st') (sc_string_start st') (position + 1)) of
                       Some (JStr key) \<Rightarrow> (st'\<lparr>sc_last_key := key\<rparr>, Quiet)
                     | _ \<Rightarrow> (st', Threw))
               else (st', Quiet))
      else (st, Quiet))"

definition open_array :: "scanner \<Rightarrow> scanner" where
  "open_array st =
     (let st' = (if sc_depth st = 1 then st\<lparr>sc_section := Some (sc_last_key st)\<rparr> else st)
      in st'\<lparr>sc_depth := sc_depth st' + 1\<rparr>)"

definition open_object :: "nat \<Rightarrow> scanner \<Rightarrow> scanner" where
  "open_object position st =
     (let st' = (if sc_depth st = 2 \<and> sc_section st \<noteq> None then st\<lparr>sc_item_start := position\<rparr> else st)
      in st'\<lparr>sc_depth := sc_depth st' + 1\<rparr>)"

definition close_object :: "json_parse \<Rightarrow> nat \<Rightarrow> scanner \<Rightarrow> scanner \<times> scan_outcome" where
  "close_object parse position st =
     (let st' = st\<lparr>sc_depth := sc_depth st - 1\<rparr>
      in case (if sc_depth st' = 2 then sc_section st' else None) of
           None \<Rightarrow> (st', Quiet)
         | Some section \<Rightarrow>
             (case parse (slice (sc_text st') (sc_item_start st') (position + 1)) of
                None \<Rightarrow> (st', Threw)
              | Some j \<Rightarrow> (st', Closed \<lparr>ci_section = section, ci_item = j\<rparr>)))"

definition close_array :: "scanner \<Rightarrow> scanner" where
  "close_array st =
     (let st' = st\<lparr>sc_depth := sc_depth st - 1\<rparr>
      in if sc_depth st' = 1 then st'\<lparr>sc_section := None\<rparr> else st')"

definition scan_nesting :: "json_parse \<Rightarrow> char \<Rightarrow> nat \<Rightarrow> scanner \<Rightarrow> scanner \<times> scan_outcome" where
  "scan_nesting parse c position st =
     (if c = CHR ''['' then (open_array st, Quiet)
      else if c = CHR 0x7B then (open_object position st, Quiet)
      else if c = CHR 0x7D then close_object parse position st
      else if c = CHR '']'' then (close_array st, Quiet)
      else (st, Quiet))"

definition scan_char :: "json_parse \<Rightarrow> char \<Rightarrow> nat \<Rightarrow> scanner \<Rightarrow> scanner \<times> scan_outcome" where
  "scan_char parse c position st =
     (if sc_in_string st then scan_string parse c position st
      else if c = CHR 0x22 then (st\<lparr>sc_in_string := True, sc_string_start := position\<rparr>, Quiet)
      else scan_nesting parse c position st)"

text \<open>The loop of \<open>feed\<close> over the characters not scanned yet; the answer says whether it threw.\<close>

fun scan_rest :: "json_parse \<Rightarrow> 's item_listener \<Rightarrow> string \<Rightarrow> scanner \<times> 's \<Rightarrow> (scanner \<times> 's) \<times> bool" where
  "scan_rest parse listener [] p = (p, False)"
| "scan_rest parse listener (c # cs) (st, s) =
     (case scan_char parse c (sc_scanned st) (st\<lparr>sc_scanned := sc_scanned st + 1\<rparr>) of
        (st', Quiet) \<Rightarrow> scan_rest parse listener cs (st', s)
      | (st', Threw) \<Rightarrow> ((st', s), True)
      | (st', Closed x) \<Rightarrow>
          (case listener x s of
             (s', threw) \<Rightarrow> if threw then ((st', s'), True) else scan_rest parse listener cs (st', s')))"

definition feed :: "json_parse \<Rightarrow> 's item_listener \<Rightarrow> string \<Rightarrow> scanner \<times> 's \<Rightarrow> (scanner \<times> 's) \<times> bool" where
  "feed parse listener chunk p =
     (case p of (st, s) \<Rightarrow>
        let text' = sc_text st @ chunk
        in scan_rest parse listener (drop (sc_scanned st) text') (st\<lparr>sc_text := text'\<rparr>, s))"

subsection \<open>The lines of the stream\<close>

datatype stream_event = BlockStart "string option" real | BlockDelta "string option" real

text \<open>A loose object with a string \<open>type\<close> and an optional string field.\<close>

definition typed_with :: "json option \<Rightarrow> string \<Rightarrow> string option option" where
  "typed_with j field =
     (case j of
        Some (JObj kvs) \<Rightarrow>
          (case (map_of kvs ''type'', map_of kvs field) of
             (Some (JStr _), None) \<Rightarrow> Some None
           | (Some (JStr _), Some (JStr x)) \<Rightarrow> Some (Some x)
           | _ \<Rightarrow> None)
      | _ \<Rightarrow> None)"

definition event_schema :: "(string \<times> json) list \<Rightarrow> stream_event option" where
  "event_schema kvs =
     (case (map_of kvs ''type'', map_of kvs ''index'') of
        (Some (JStr kind), Some (JNum index)) \<Rightarrow>
          if kind = ''content_block_start''
          then map_option (\<lambda>name. BlockStart name index) (typed_with (map_of kvs ''content_block'') ''name'')
          else if kind = ''content_block_delta''
          then map_option (\<lambda>chunk. BlockDelta chunk index) (typed_with (map_of kvs ''delta'') ''partial_json'')
          else None
      | _ \<Rightarrow> None)"

definition stream_event_of :: "json_parse \<Rightarrow> string \<Rightarrow> stream_event option" where
  "stream_event_of parse line =
     (case parse line of
        Some (JObj kvs) \<Rightarrow>
          (case (map_of kvs ''type'', map_of kvs ''event'') of
             (Some (JStr kind), Some (JObj event)) \<Rightarrow>
               if kind = ''stream_event'' then event_schema event else None
           | _ \<Rightarrow> None)
      | _ \<Rightarrow> None)"

record 's output_listener =
  ol_item_closed :: "'s item_listener"
  ol_restarted :: "'s \<Rightarrow> 's"

record output_stream =
  os_scanner :: "scanner option"
  os_block :: "real option"

definition new_stream :: output_stream where
  "new_stream = \<lparr>os_scanner = None, os_block = None\<rparr>"

definition start_block :: "'s output_listener \<Rightarrow> string option \<Rightarrow> real \<Rightarrow> output_stream \<times> 's \<Rightarrow> output_stream \<times> 's" where
  "start_block l name index p =
     (case p of (os, s) \<Rightarrow>
        if name \<noteq> Some ''StructuredOutput'' then (os, s)
        else (\<lparr>os_scanner = Some new_scanner, os_block = Some index\<rparr>,
              if os_scanner os \<noteq> None then ol_restarted l s else s))"

definition stream_line ::
    "json_parse \<Rightarrow> 's output_listener \<Rightarrow> string \<Rightarrow> output_stream \<times> 's \<Rightarrow> (output_stream \<times> 's) \<times> bool" where
  "stream_line parse l line p =
     (case p of (os, s) \<Rightarrow>
        case stream_event_of parse line of
          None \<Rightarrow> ((os, s), False)
        | Some (BlockStart name index) \<Rightarrow> (start_block l name index (os, s), False)
        | Some (BlockDelta chunk index) \<Rightarrow>
            (case (if Some index = os_block os then chunk else None, os_scanner os) of
               (Some c, Some st) \<Rightarrow>
                 (case feed parse (ol_item_closed l) c (st, s) of
                    ((st', s'), threw) \<Rightarrow> ((os\<lparr>os_scanner := Some st'\<rparr>, s'), threw))
             | _ \<Rightarrow> ((os, s), False)))"

subsection \<open>Text that nests\<close>

text \<open>JSON text as the scanner sees it: strings, what nests, and the plain text between.\<close>

datatype doc = Plain string | Quoted string | Array "doc list" | Object "doc list"

fun doc_text :: "doc \<Rightarrow> string" where
  "doc_text (Plain s) = s"
| "doc_text (Quoted b) = CHR 0x22 # b @ [CHR 0x22]"
| "doc_text (Array ds) = ''['' @ concat (map doc_text ds) @ '']''"
| "doc_text (Object ds) = CHR 0x7B # concat (map doc_text ds) @ [CHR 0x7D]"

fun body_ok :: "bool \<Rightarrow> string \<Rightarrow> bool" where
  "body_ok esc [] \<longleftrightarrow> \<not> esc"
| "body_ok esc (c # cs) \<longleftrightarrow> (if esc then body_ok False cs else c \<noteq> CHR 0x22 \<and> body_ok (c = CHR 0x5C) cs)"

definition plain_char :: "char \<Rightarrow> bool" where
  "plain_char c \<longleftrightarrow> c \<notin> {CHR 0x22, CHR ''['', CHR '']'', CHR 0x7B, CHR 0x7D}"

fun wf_doc :: "doc \<Rightarrow> bool" where
  "wf_doc (Plain s) \<longleftrightarrow> list_all plain_char s"
| "wf_doc (Quoted b) \<longleftrightarrow> body_ok False b"
| "wf_doc (Array ds) \<longleftrightarrow> (\<forall>d \<in> set ds. wf_doc d)"
| "wf_doc (Object ds) \<longleftrightarrow> (\<forall>d \<in> set ds. wf_doc d)"

text \<open>The items of a whole output: the objects in the arrays of its top level, each under the key before
  its array.\<close>

definition element_items :: "json_parse \<Rightarrow> string \<Rightarrow> doc list \<Rightarrow> closed_item list" where
  "element_items parse key es =
     List.map_filter (\<lambda>e. case e of
        Object os \<Rightarrow> map_option (\<lambda>j. \<lparr>ci_section = key, ci_item = j\<rparr>) (parse (doc_text e))
      | _ \<Rightarrow> None) es"

fun key_after :: "json_parse \<Rightarrow> string \<Rightarrow> doc list \<Rightarrow> string" where
  "key_after parse key [] = key"
| "key_after parse key (d # ds) =
     key_after parse (case d of Quoted b \<Rightarrow> (case parse (doc_text d) of Some (JStr k) \<Rightarrow> k | _ \<Rightarrow> key) | _ \<Rightarrow> key) ds"

fun member_items :: "json_parse \<Rightarrow> string \<Rightarrow> doc list \<Rightarrow> closed_item list" where
  "member_items parse key [] = []"
| "member_items parse key (d # ds) =
     (case d of Array es \<Rightarrow> element_items parse key es | _ \<Rightarrow> []) @ member_items parse (key_after parse key [d]) ds"

definition elements_read :: "json_parse \<Rightarrow> doc list \<Rightarrow> bool" where
  "elements_read parse es \<longleftrightarrow> list_all (\<lambda>e. case e of Object os \<Rightarrow> parse (doc_text e) \<noteq> None | _ \<Rightarrow> True) es"

definition members_read :: "json_parse \<Rightarrow> doc list \<Rightarrow> bool" where
  "members_read parse ds \<longleftrightarrow>
     list_all (\<lambda>d. case d of Quoted b \<Rightarrow> (\<exists>k. parse (doc_text d) = Some (JStr k)) | Array es \<Rightarrow> elements_read parse es
       | _ \<Rightarrow> True) ds"

subsection \<open>Scanning what is quiet\<close>

definition pending :: "string \<Rightarrow> scanner \<Rightarrow> bool" where
  "pending cs st \<longleftrightarrow> sc_scanned st \<le> length (sc_text st) \<and> drop (sc_scanned st) (sc_text st) = cs"

text \<open>Between values, and not inside a string.\<close>

definition outside_string :: "scanner \<Rightarrow> bool" where
  "outside_string st \<longleftrightarrow> \<not> sc_in_string st \<and> \<not> sc_escaped st"

lemma pending_skip:
  assumes "pending (a @ cs) st" "sc_text st' = sc_text st" "sc_scanned st' = sc_scanned st + length a"
  shows "pending cs st'"
proof -
  have "length (drop (sc_scanned st) (sc_text st)) = length a + length cs" using assms(1) by (simp add: pending_def)
  moreover have "drop (length a) (drop (sc_scanned st) (sc_text st)) = cs" using assms(1) by (simp add: pending_def)
  ultimately show ?thesis using assms by (auto simp: pending_def add.commute)
qed

lemma pending_slice:
  assumes "pending (a @ cs) st" "e = sc_scanned st + length a"
  shows "slice (sc_text st) (sc_scanned st) e = a"
  using assms by (simp add: pending_def slice_def)

lemma scan_plain:
  "list_all plain_char s \<Longrightarrow> outside_string st \<Longrightarrow>
     scan_rest parse l (s @ rest) (st, \<sigma>) = scan_rest parse l rest (st\<lparr>sc_scanned := sc_scanned st + length s\<rparr>, \<sigma>)"
proof (induction s arbitrary: st)
  case (Cons c s)
  then have "scan_char parse c (sc_scanned st) (st\<lparr>sc_scanned := sc_scanned st + 1\<rparr>)
      = (st\<lparr>sc_scanned := sc_scanned st + 1\<rparr>, Quiet)"
    by (simp add: scan_char_def scan_nesting_def outside_string_def plain_char_def)
  moreover have "outside_string (st\<lparr>sc_scanned := sc_scanned st + 1\<rparr>)" using Cons.prems by (simp add: outside_string_def)
  ultimately show ?case using Cons.prems(1) Cons.IH by simp
qed simp

lemma scan_body:
  "body_ok esc b \<Longrightarrow> sc_in_string st \<Longrightarrow> sc_escaped st = esc \<Longrightarrow>
     scan_rest parse l (b @ rest) (st, \<sigma>)
     = scan_rest parse l rest (st\<lparr>sc_scanned := sc_scanned st + length b, sc_escaped := False\<rparr>, \<sigma>)"
proof (induction b arbitrary: esc st)
  case Nil
  then show ?case by (cases st) simp
next
  case (Cons c b)
  let ?st = "st\<lparr>sc_scanned := sc_scanned st + 1, sc_escaped := \<not> esc \<and> c = CHR 0x5C\<rparr>"
  have "scan_char parse c (sc_scanned st) (st\<lparr>sc_scanned := sc_scanned st + 1\<rparr>) = (?st, Quiet)"
    using Cons.prems by (cases st) (auto simp: scan_char_def scan_string_def)
  moreover have "body_ok (\<not> esc \<and> c = CHR 0x5C) b" using Cons.prems(1) by (cases esc) simp_all
  ultimately show ?case using Cons.IH [of "\<not> esc \<and> c = CHR 0x5C" ?st] Cons.prems(2) by simp
qed

lemma scan_quoted:
  assumes "body_ok False b" "outside_string st"
  shows "scan_rest parse l (doc_text (Quoted b) @ rest) (st, \<sigma>)
    = scan_rest parse l (CHR 0x22 # rest)
        (st\<lparr>sc_scanned := sc_scanned st + 1 + length b, sc_in_string := True, sc_string_start := sc_scanned st\<rparr>, \<sigma>)"
proof -
  let ?st = "st\<lparr>sc_scanned := sc_scanned st + 1, sc_in_string := True, sc_string_start := sc_scanned st\<rparr>"
  have "scan_char parse (CHR 0x22) (sc_scanned st) (st\<lparr>sc_scanned := sc_scanned st + 1\<rparr>) = (?st, Quiet)"
    using assms(2) by (simp add: scan_char_def outside_string_def)
  moreover have "?st\<lparr>sc_escaped := False\<rparr> = ?st" using assms(2) by (cases st) (simp add: outside_string_def)
  then have "?st\<lparr>sc_scanned := sc_scanned ?st + length b, sc_escaped := False\<rparr>
      = st\<lparr>sc_scanned := sc_scanned st + 1 + length b, sc_in_string := True, sc_string_start := sc_scanned st\<rparr>"
    using assms(2) by (cases st) (simp add: outside_string_def)
  ultimately show ?thesis
    using scan_body [OF assms(1), of ?st parse l "CHR 0x22 # rest" \<sigma>] assms(2) by (simp add: outside_string_def)
qed

lemma scan_quoted_deep:
  assumes "body_ok False b" "outside_string st" "sc_depth st \<noteq> 1"
  shows "scan_rest parse l (doc_text (Quoted b) @ rest) (st, \<sigma>)
    = scan_rest parse l rest
        (st\<lparr>sc_scanned := sc_scanned st + length (doc_text (Quoted b)), sc_string_start := sc_scanned st\<rparr>, \<sigma>)"
  unfolding scan_quoted [OF assms(1,2)]
  using assms(2,3) by (cases st) (simp add: scan_char_def scan_string_def outside_string_def)

text \<open>Nothing is reported of what lies deeper than an item, or at its depth but in no section.\<close>

definition quiet_at :: "scanner \<Rightarrow> bool" where
  "quiet_at st \<longleftrightarrow> outside_string st \<and> (3 \<le> sc_depth st \<or> 2 \<le> sc_depth st \<and> sc_section st = None)"

lemma quiet_list:
  assumes "\<And>d st rest. d \<in> set ds \<Longrightarrow> quiet_at st \<Longrightarrow>
      \<exists>x. scan_rest parse l (doc_text d @ rest) (st, \<sigma>)
        = scan_rest parse l rest (st\<lparr>sc_scanned := sc_scanned st + length (doc_text d), sc_string_start := x\<rparr>, \<sigma>)"
    and "quiet_at st"
  shows "\<exists>x. scan_rest parse l (concat (map doc_text ds) @ rest) (st, \<sigma>)
    = scan_rest parse l rest (st\<lparr>sc_scanned := sc_scanned st + length (concat (map doc_text ds)), sc_string_start := x\<rparr>, \<sigma>)"
  using assms
proof (induction ds arbitrary: st)
  case Nil
  then show ?case by (intro exI [of _ "sc_string_start st"]) (cases st, simp)
next
  case (Cons d ds)
  from Cons.prems(1) [of d st "concat (map doc_text ds) @ rest"] Cons.prems(2) obtain x where
    x: "scan_rest parse l (doc_text d @ concat (map doc_text ds) @ rest) (st, \<sigma>) = scan_rest parse l
      (concat (map doc_text ds) @ rest) (st\<lparr>sc_scanned := sc_scanned st + length (doc_text d), sc_string_start := x\<rparr>, \<sigma>)"
    by auto
  have "quiet_at (st\<lparr>sc_scanned := sc_scanned st + length (doc_text d), sc_string_start := x\<rparr>)"
    using Cons.prems(2) by (simp add: quiet_at_def outside_string_def)
  from Cons.IH [OF Cons.prems(1) this] obtain y where
    "scan_rest parse l (concat (map doc_text ds) @ rest)
       (st\<lparr>sc_scanned := sc_scanned st + length (doc_text d), sc_string_start := x\<rparr>, \<sigma>)
     = scan_rest parse l rest (st\<lparr>sc_scanned := sc_scanned st + length (doc_text d), sc_string_start := x\<rparr>
         \<lparr>sc_scanned := sc_scanned st + length (doc_text d) + length (concat (map doc_text ds)), sc_string_start := y\<rparr>, \<sigma>)"
    by auto
  with x show ?case by (intro exI [of _ y]) (simp add: add.assoc)
qed

lemma scan_quiet:
  "wf_doc d \<Longrightarrow> quiet_at st \<Longrightarrow>
     \<exists>x. scan_rest parse l (doc_text d @ rest) (st, \<sigma>)
       = scan_rest parse l rest (st\<lparr>sc_scanned := sc_scanned st + length (doc_text d), sc_string_start := x\<rparr>, \<sigma>)"
proof (induction d arbitrary: st rest)
  case (Plain s)
  then show ?case
    using scan_plain [of s st parse l rest \<sigma>]
    by (intro exI [of _ "sc_string_start st"]) (cases st, simp add: quiet_at_def)
next
  case (Quoted b)
  then have "outside_string st" "sc_depth st \<noteq> 1" by (auto simp: quiet_at_def)
  with scan_quoted_deep [of b st parse l rest \<sigma>] Quoted(1) show ?case by auto
next
  case (Array ds)
  let ?st = "st\<lparr>sc_scanned := sc_scanned st + 1, sc_depth := sc_depth st + 1\<rparr>"
  have o: "scan_char parse (CHR ''['') (sc_scanned st) (st\<lparr>sc_scanned := sc_scanned st + 1\<rparr>) = (?st, Quiet)"
    using Array.prems(2) by (auto simp: scan_char_def scan_nesting_def open_array_def quiet_at_def outside_string_def)
  have q: "quiet_at ?st" using Array.prems(2) by (auto simp: quiet_at_def outside_string_def)
  have wf: "\<forall>d \<in> set ds. wf_doc d" using Array.prems(1) by simp
  have IH: "\<exists>x. scan_rest parse l (doc_text d @ rest) (st, \<sigma>)
      = scan_rest parse l rest (st\<lparr>sc_scanned := sc_scanned st + length (doc_text d), sc_string_start := x\<rparr>, \<sigma>)"
    if "d \<in> set ds" "quiet_at st" for d st rest
    using Array.IH [OF that(1) _ that(2)] wf that(1) by blast
  from quiet_list [of ds parse l \<sigma>, OF IH q] obtain x where
    x: "scan_rest parse l (concat (map doc_text ds) @ CHR '']'' # rest) (?st, \<sigma>) = scan_rest parse l (CHR '']'' # rest)
      (?st\<lparr>sc_scanned := sc_scanned ?st + length (concat (map doc_text ds)), sc_string_start := x\<rparr>, \<sigma>)" by blast
  show ?case
    using o x Array.prems(2)
    by (intro exI [of _ x]) (cases st, auto simp: scan_char_def scan_nesting_def close_array_def quiet_at_def outside_string_def)
next
  case (Object ds)
  let ?st = "st\<lparr>sc_scanned := sc_scanned st + 1, sc_depth := sc_depth st + 1\<rparr>"
  have o: "scan_char parse (CHR 0x7B) (sc_scanned st) (st\<lparr>sc_scanned := sc_scanned st + 1\<rparr>) = (?st, Quiet)"
    using Object.prems(2) by (auto simp: scan_char_def scan_nesting_def open_object_def quiet_at_def outside_string_def)
  have q: "quiet_at ?st" using Object.prems(2) by (auto simp: quiet_at_def outside_string_def)
  have wf: "\<forall>d \<in> set ds. wf_doc d" using Object.prems(1) by simp
  have IH: "\<exists>x. scan_rest parse l (doc_text d @ rest) (st, \<sigma>)
      = scan_rest parse l rest (st\<lparr>sc_scanned := sc_scanned st + length (doc_text d), sc_string_start := x\<rparr>, \<sigma>)"
    if "d \<in> set ds" "quiet_at st" for d st rest
    using Object.IH [OF that(1) _ that(2)] wf that(1) by blast
  from quiet_list [of ds parse l \<sigma>, OF IH q] obtain x where
    x: "scan_rest parse l (concat (map doc_text ds) @ CHR 0x7D # rest) (?st, \<sigma>) = scan_rest parse l (CHR 0x7D # rest)
      (?st\<lparr>sc_scanned := sc_scanned ?st + length (concat (map doc_text ds)), sc_string_start := x\<rparr>, \<sigma>)" by blast
  show ?case
    using o x Object.prems(2)
    by (intro exI [of _ x]) (cases st, auto simp: scan_char_def scan_nesting_def close_object_def Let_def quiet_at_def outside_string_def)
qed

subsection \<open>Scanning a section\<close>

text \<open>A listener that does not throw.\<close>

definition steady :: "(closed_item \<Rightarrow> 's \<Rightarrow> 's) \<Rightarrow> 's item_listener" where
  "steady upd x s = (upd x s, False)"

lemma scan_quiet_list:
  assumes "\<forall>d \<in> set ds. wf_doc d" "quiet_at st"
  shows "\<exists>x. scan_rest parse l (concat (map doc_text ds) @ rest) (st, \<sigma>)
    = scan_rest parse l rest (st\<lparr>sc_scanned := sc_scanned st + length (concat (map doc_text ds)), sc_string_start := x\<rparr>, \<sigma>)"
proof -
  have "\<exists>x. scan_rest parse l (doc_text d @ rest) (st, \<sigma>)
      = scan_rest parse l rest (st\<lparr>sc_scanned := sc_scanned st + length (doc_text d), sc_string_start := x\<rparr>, \<sigma>)"
    if "d \<in> set ds" "quiet_at st" for d st rest
    using scan_quiet [of d st parse l rest \<sigma>] assms(1) that by simp
  from quiet_list [of ds parse l \<sigma>, OF this assms(2)] show ?thesis .
qed

lemma scan_array_deep:
  assumes "wf_doc (Array ds)" "outside_string st" "2 \<le> sc_depth st"
  shows "\<exists>x. scan_rest parse l (doc_text (Array ds) @ rest) (st, \<sigma>)
    = scan_rest parse l rest (st\<lparr>sc_scanned := sc_scanned st + length (doc_text (Array ds)), sc_string_start := x\<rparr>, \<sigma>)"
proof -
  let ?st = "st\<lparr>sc_scanned := sc_scanned st + 1, sc_depth := sc_depth st + 1\<rparr>"
  have o: "scan_char parse (CHR ''['') (sc_scanned st) (st\<lparr>sc_scanned := sc_scanned st + 1\<rparr>) = (?st, Quiet)"
    using assms(2,3) by (simp add: scan_char_def scan_nesting_def open_array_def outside_string_def)
  have "quiet_at ?st" "\<forall>d \<in> set ds. wf_doc d" using assms by (simp_all add: quiet_at_def outside_string_def)
  from scan_quiet_list [OF this(2,1), of parse l "CHR '']'' # rest" \<sigma>] obtain x where
    x: "scan_rest parse l (concat (map doc_text ds) @ CHR '']'' # rest) (?st, \<sigma>) = scan_rest parse l (CHR '']'' # rest)
      (?st\<lparr>sc_scanned := sc_scanned ?st + length (concat (map doc_text ds)), sc_string_start := x\<rparr>, \<sigma>)" by blast
  show ?thesis
    using o x assms(2,3)
    by (intro exI [of _ x]) (cases st, auto simp: scan_char_def scan_nesting_def close_array_def outside_string_def)
qed

definition in_section :: "string \<Rightarrow> scanner \<Rightarrow> bool" where
  "in_section key st \<longleftrightarrow> outside_string st \<and> sc_depth st = 2 \<and> sc_section st = Some key"

lemma scan_item:
  assumes "wf_doc (Object os)" "in_section key st" "pending (doc_text (Object os) @ rest) st"
    and "parse (doc_text (Object os)) = Some j"
  shows "\<exists>x y. scan_rest parse (steady upd) (doc_text (Object os) @ rest) (st, \<sigma>)
    = scan_rest parse (steady upd) rest
        (st\<lparr>sc_scanned := sc_scanned st + length (doc_text (Object os)), sc_string_start := x, sc_item_start := y\<rparr>,
         upd \<lparr>ci_section = key, ci_item = j\<rparr> \<sigma>)"
proof -
  let ?st = "st\<lparr>sc_scanned := sc_scanned st + 1, sc_item_start := sc_scanned st, sc_depth := 3\<rparr>"
  have o: "scan_char parse (CHR 0x7B) (sc_scanned st) (st\<lparr>sc_scanned := sc_scanned st + 1\<rparr>) = (?st, Quiet)"
    using assms(2) by (simp add: scan_char_def scan_nesting_def open_object_def in_section_def outside_string_def)
  have "quiet_at ?st" "\<forall>d \<in> set os. wf_doc d"
    using assms(1,2) by (simp_all add: quiet_at_def outside_string_def in_section_def)
  from scan_quiet_list [OF this(2,1), of parse "steady upd" "CHR 0x7D # rest" \<sigma>] obtain x where
    x: "scan_rest parse (steady upd) (concat (map doc_text os) @ CHR 0x7D # rest) (?st, \<sigma>)
      = scan_rest parse (steady upd) (CHR 0x7D # rest)
      (?st\<lparr>sc_scanned := sc_scanned ?st + length (concat (map doc_text os)), sc_string_start := x\<rparr>, \<sigma>)" by blast
  have "slice (sc_text st) (sc_scanned st) (sc_scanned st + length (doc_text (Object os))) = doc_text (Object os)"
    by (rule pending_slice [OF assms(3) refl])
  then have sl: "slice (sc_text st) (sc_scanned st) (Suc (Suc (sc_scanned st + length (concat (map doc_text os)))))
      = CHR 0x7B # concat (map doc_text os) @ [CHR 0x7D]" by simp
  show ?thesis
    using o x sl assms(2,4)
    by (intro exI [of _ x] exI [of _ "sc_scanned st"])
      (cases st, auto simp: scan_char_def scan_nesting_def close_object_def Let_def in_section_def outside_string_def steady_def)
qed

lemma scan_element:
  assumes "wf_doc e" "in_section key st" "pending (doc_text e @ rest) st" "elements_read parse [e]"
  shows "\<exists>x y. scan_rest parse (steady upd) (doc_text e @ rest) (st, \<sigma>)
    = scan_rest parse (steady upd) rest
        (st\<lparr>sc_scanned := sc_scanned st + length (doc_text e), sc_string_start := x, sc_item_start := y\<rparr>,
         fold upd (element_items parse key [e]) \<sigma>)"
proof -
  have o: "outside_string st" "sc_depth st = 2" using assms(2) by (simp_all add: in_section_def)
  show ?thesis
  proof (cases e)
    case (Plain s)
    have "st\<lparr>sc_scanned := n\<rparr> = st\<lparr>sc_scanned := n, sc_string_start := sc_string_start st, sc_item_start := sc_item_start st\<rparr>" for n
      by (cases st) simp
    with scan_plain [of s st parse "steady upd" rest \<sigma>] o(1) assms(1) Plain show ?thesis
      by (intro exI [of _ "sc_string_start st"] exI [of _ "sc_item_start st"])
        (simp add: element_items_def List.map_filter_simps)
  next
    case (Quoted b)
    have "sc_depth st \<noteq> 1" using o(2) by simp
    from scan_quoted_deep [OF _ o(1) this, of b parse "steady upd" rest \<sigma>] assms(1) Quoted show ?thesis
      by (intro exI [of _ "sc_scanned st"] exI [of _ "sc_item_start st"])
        (cases st, simp add: element_items_def List.map_filter_simps del: doc_text.simps)
  next
    case (Array ds)
    have "2 \<le> sc_depth st" using o(2) by simp
    from scan_array_deep [OF _ o(1) this, of ds parse "steady upd" rest \<sigma>] assms(1) Array obtain x where
      "scan_rest parse (steady upd) (doc_text e @ rest) (st, \<sigma>)
        = scan_rest parse (steady upd) rest (st\<lparr>sc_scanned := sc_scanned st + length (doc_text e), sc_string_start := x\<rparr>, \<sigma>)"
      by blast
    then show ?thesis
      by (intro exI [of _ x] exI [of _ "sc_item_start st"])
        (cases st, simp add: element_items_def List.map_filter_simps Array del: doc_text.simps)
  next
    case (Object os)
    with assms(4) obtain j where j: "parse (doc_text (Object os)) = Some j" by (auto simp: elements_read_def)
    from scan_item [of os key st rest parse j upd \<sigma>] assms(1-3) Object j show ?thesis
      by (simp add: element_items_def List.map_filter_simps del: doc_text.simps)
  qed
qed

lemma element_items_Cons: "element_items parse key (e # es) = element_items parse key [e] @ element_items parse key es"
  by (simp add: element_items_def List.map_filter_simps split: option.splits)

lemma scan_elements:
  assumes "\<forall>e \<in> set es. wf_doc e" "in_section key st" "pending (concat (map doc_text es) @ rest) st" "elements_read parse es"
  shows "\<exists>x y. scan_rest parse (steady upd) (concat (map doc_text es) @ rest) (st, \<sigma>)
    = scan_rest parse (steady upd) rest
        (st\<lparr>sc_scanned := sc_scanned st + length (concat (map doc_text es)), sc_string_start := x, sc_item_start := y\<rparr>,
         fold upd (element_items parse key es) \<sigma>)"
  using assms
proof (induction es arbitrary: st \<sigma>)
  case Nil
  then show ?case
    by (intro exI [of _ "sc_string_start st"] exI [of _ "sc_item_start st"])
      (cases st, simp add: element_items_def List.map_filter_simps)
next
  case (Cons e es)
  have w: "wf_doc e" "\<forall>e \<in> set es. wf_doc e" using Cons.prems(1) by simp_all
  have p: "pending (doc_text e @ concat (map doc_text es) @ rest) st" using Cons.prems(3) by simp
  have r: "elements_read parse [e]" "elements_read parse es" using Cons.prems(4) by (simp_all add: elements_read_def)
  from scan_element [OF w(1) Cons.prems(2) p r(1), of upd \<sigma>] obtain x y where
    one: "scan_rest parse (steady upd) (doc_text e @ concat (map doc_text es) @ rest) (st, \<sigma>)
      = scan_rest parse (steady upd) (concat (map doc_text es) @ rest)
        (st\<lparr>sc_scanned := sc_scanned st + length (doc_text e), sc_string_start := x, sc_item_start := y\<rparr>,
         fold upd (element_items parse key [e]) \<sigma>)" by blast
  let ?st = "st\<lparr>sc_scanned := sc_scanned st + length (doc_text e), sc_string_start := x, sc_item_start := y\<rparr>"
  have s: "in_section key ?st" using Cons.prems(2) by (simp add: in_section_def outside_string_def)
  have p': "pending (concat (map doc_text es) @ rest) ?st" by (rule pending_skip [OF p]) simp_all
  from Cons.IH [OF w(2) s p' r(2), of "fold upd (element_items parse key [e]) \<sigma>"] obtain x' y' where
    "scan_rest parse (steady upd) (concat (map doc_text es) @ rest) (?st, fold upd (element_items parse key [e]) \<sigma>)
      = scan_rest parse (steady upd) rest
        (?st\<lparr>sc_scanned := sc_scanned ?st + length (concat (map doc_text es)), sc_string_start := x', sc_item_start := y'\<rparr>,
         fold upd (element_items parse key es) (fold upd (element_items parse key [e]) \<sigma>))" by blast
  with one show ?case
    unfolding element_items_Cons [of parse key e es]
    by (intro exI [of _ x'] exI [of _ y']) (simp add: add.assoc)
qed

subsection \<open>Scanning an output\<close>

text \<open>Inside the output's object, and in none of its sections.\<close>

definition in_output :: "scanner \<Rightarrow> bool" where
  "in_output st \<longleftrightarrow> outside_string st \<and> sc_depth st = 1 \<and> sc_section st = None"

lemma scan_key:
  assumes "body_ok False b" "in_output st" "pending (doc_text (Quoted b) @ rest) st"
    and "parse (doc_text (Quoted b)) = Some (JStr k)"
  shows "\<exists>x. scan_rest parse l (doc_text (Quoted b) @ rest) (st, \<sigma>)
    = scan_rest parse l rest
        (st\<lparr>sc_scanned := sc_scanned st + length (doc_text (Quoted b)), sc_string_start := x, sc_last_key := k\<rparr>, \<sigma>)"
proof -
  have o: "outside_string st" "sc_depth st = 1" using assms(2) by (simp_all add: in_output_def)
  have "slice (sc_text st) (sc_scanned st) (sc_scanned st + length (doc_text (Quoted b))) = doc_text (Quoted b)"
    by (rule pending_slice [OF assms(3) refl])
  then have sl: "slice (sc_text st) (sc_scanned st) (Suc (Suc (sc_scanned st + length b))) = CHR 0x22 # b @ [CHR 0x22]"
    by simp
  show ?thesis unfolding scan_quoted [OF assms(1) o(1)]
    using o sl assms(4)
    by (intro exI [of _ "sc_scanned st"]) (cases st, simp add: scan_char_def scan_string_def outside_string_def Let_def)
qed

lemma scan_section:
  assumes "wf_doc (Array es)" "in_output st" "pending (doc_text (Array es) @ rest) st" "elements_read parse es"
  shows "\<exists>x y. scan_rest parse (steady upd) (doc_text (Array es) @ rest) (st, \<sigma>)
    = scan_rest parse (steady upd) rest
        (st\<lparr>sc_scanned := sc_scanned st + length (doc_text (Array es)), sc_string_start := x, sc_item_start := y\<rparr>,
         fold upd (element_items parse (sc_last_key st) es) \<sigma>)"
proof -
  let ?st = "st\<lparr>sc_scanned := sc_scanned st + 1, sc_section := Some (sc_last_key st), sc_depth := 2\<rparr>"
  have o: "scan_char parse (CHR ''['') (sc_scanned st) (st\<lparr>sc_scanned := sc_scanned st + 1\<rparr>) = (?st, Quiet)"
    using assms(2) by (simp add: scan_char_def scan_nesting_def open_array_def in_output_def outside_string_def)
  have wf: "\<forall>e \<in> set es. wf_doc e" using assms(1) by simp
  have s: "in_section (sc_last_key st) ?st" using assms(2) by (simp add: in_section_def in_output_def outside_string_def)
  have p: "pending (concat (map doc_text es) @ CHR '']'' # rest) ?st"
    by (rule pending_skip [of "''[''" _ st]) (use assms(3) in simp_all)
  from scan_elements [OF wf s p assms(4), of upd \<sigma>] obtain x y where
    x: "scan_rest parse (steady upd) (concat (map doc_text es) @ CHR '']'' # rest) (?st, \<sigma>)
      = scan_rest parse (steady upd) (CHR '']'' # rest)
        (?st\<lparr>sc_scanned := sc_scanned ?st + length (concat (map doc_text es)), sc_string_start := x, sc_item_start := y\<rparr>,
         fold upd (element_items parse (sc_last_key st) es) \<sigma>)" by blast
  show ?thesis
    using o x assms(2)
    by (intro exI [of _ x] exI [of _ y])
      (cases st, auto simp: scan_char_def scan_nesting_def close_array_def in_output_def outside_string_def)
qed

lemma scan_object_member:
  assumes "wf_doc (Object ds)" "in_output st"
  shows "\<exists>x. scan_rest parse l (doc_text (Object ds) @ rest) (st, \<sigma>)
    = scan_rest parse l rest (st\<lparr>sc_scanned := sc_scanned st + length (doc_text (Object ds)), sc_string_start := x\<rparr>, \<sigma>)"
proof -
  let ?st = "st\<lparr>sc_scanned := sc_scanned st + 1, sc_depth := 2\<rparr>"
  have o: "scan_char parse (CHR 0x7B) (sc_scanned st) (st\<lparr>sc_scanned := sc_scanned st + 1\<rparr>) = (?st, Quiet)"
    using assms(2) by (simp add: scan_char_def scan_nesting_def open_object_def in_output_def outside_string_def)
  have "quiet_at ?st" "\<forall>d \<in> set ds. wf_doc d"
    using assms by (simp_all add: quiet_at_def outside_string_def in_output_def)
  from scan_quiet_list [OF this(2,1), of parse l "CHR 0x7D # rest" \<sigma>] obtain x where
    x: "scan_rest parse l (concat (map doc_text ds) @ CHR 0x7D # rest) (?st, \<sigma>) = scan_rest parse l (CHR 0x7D # rest)
      (?st\<lparr>sc_scanned := sc_scanned ?st + length (concat (map doc_text ds)), sc_string_start := x\<rparr>, \<sigma>)" by blast
  show ?thesis
    using o x assms(2)
    by (intro exI [of _ x])
      (cases st, auto simp: scan_char_def scan_nesting_def close_object_def Let_def in_output_def outside_string_def)
qed

lemma scan_member:
  assumes "wf_doc d" "in_output st" "pending (doc_text d @ rest) st" "members_read parse [d]"
  shows "\<exists>x y. scan_rest parse (steady upd) (doc_text d @ rest) (st, \<sigma>)
    = scan_rest parse (steady upd) rest
        (st\<lparr>sc_scanned := sc_scanned st + length (doc_text d), sc_string_start := x, sc_item_start := y,
           sc_last_key := key_after parse (sc_last_key st) [d]\<rparr>,
         fold upd (member_items parse (sc_last_key st) [d]) \<sigma>)"
proof (cases d)
  case (Plain s)
  have "outside_string st" using assms(2) by (simp add: in_output_def)
  with scan_plain [of s st parse "steady upd" rest \<sigma>] assms(1) Plain show ?thesis
    by (intro exI [of _ "sc_string_start st"] exI [of _ "sc_item_start st"]) (cases st, simp)
next
  case (Quoted b)
  with assms(4) obtain k where k: "parse (doc_text (Quoted b)) = Some (JStr k)" by (auto simp: members_read_def)
  from scan_key [of b st rest parse k "steady upd" \<sigma>] assms(1-3) Quoted k obtain x where
    "scan_rest parse (steady upd) (doc_text d @ rest) (st, \<sigma>) = scan_rest parse (steady upd) rest
      (st\<lparr>sc_scanned := sc_scanned st + length (doc_text d), sc_string_start := x, sc_last_key := k\<rparr>, \<sigma>)" by auto
  with k Quoted show ?thesis
    by (intro exI [of _ x] exI [of _ "sc_item_start st"]) (cases st, simp)
next
  case (Array es)
  with assms(4) have r: "elements_read parse es" by (simp add: members_read_def)
  from scan_section [of es st rest parse upd \<sigma>] assms(1-3) Array r obtain x y where
    "scan_rest parse (steady upd) (doc_text d @ rest) (st, \<sigma>) = scan_rest parse (steady upd) rest
      (st\<lparr>sc_scanned := sc_scanned st + length (doc_text d), sc_string_start := x, sc_item_start := y\<rparr>,
       fold upd (element_items parse (sc_last_key st) es) \<sigma>)" by blast
  with Array show ?thesis
    by (intro exI [of _ x] exI [of _ y]) (cases st, simp del: doc_text.simps)
next
  case (Object ds)
  from scan_object_member [of ds st parse "steady upd" rest \<sigma>] assms(1,2) Object obtain x where
    "scan_rest parse (steady upd) (doc_text d @ rest) (st, \<sigma>) = scan_rest parse (steady upd) rest
      (st\<lparr>sc_scanned := sc_scanned st + length (doc_text d), sc_string_start := x\<rparr>, \<sigma>)" by blast
  with Object show ?thesis
    by (intro exI [of _ x] exI [of _ "sc_item_start st"]) (cases st, simp del: doc_text.simps)
qed

lemma key_after_Cons: "key_after parse key (d # ds) = key_after parse (key_after parse key [d]) ds"
  by simp

lemma member_items_Cons:
  "member_items parse key (d # ds) = member_items parse key [d] @ member_items parse (key_after parse key [d]) ds"
  by (cases d) simp_all

lemma scan_members:
  assumes "\<forall>d \<in> set ds. wf_doc d" "in_output st" "pending (concat (map doc_text ds) @ rest) st" "members_read parse ds"
  shows "\<exists>x y. scan_rest parse (steady upd) (concat (map doc_text ds) @ rest) (st, \<sigma>)
    = scan_rest parse (steady upd) rest
        (st\<lparr>sc_scanned := sc_scanned st + length (concat (map doc_text ds)), sc_string_start := x, sc_item_start := y,
           sc_last_key := key_after parse (sc_last_key st) ds\<rparr>,
         fold upd (member_items parse (sc_last_key st) ds) \<sigma>)"
  using assms
proof (induction ds arbitrary: st \<sigma>)
  case Nil
  then show ?case
    by (intro exI [of _ "sc_string_start st"] exI [of _ "sc_item_start st"]) (cases st, simp)
next
  case (Cons d ds)
  have w: "wf_doc d" "\<forall>d \<in> set ds. wf_doc d" using Cons.prems(1) by simp_all
  have p: "pending (doc_text d @ concat (map doc_text ds) @ rest) st" using Cons.prems(3) by simp
  have r: "members_read parse [d]" "members_read parse ds" using Cons.prems(4) by (simp_all add: members_read_def)
  from scan_member [OF w(1) Cons.prems(2) p r(1), of upd \<sigma>] obtain x y where
    one: "scan_rest parse (steady upd) (doc_text d @ concat (map doc_text ds) @ rest) (st, \<sigma>)
      = scan_rest parse (steady upd) (concat (map doc_text ds) @ rest)
        (st\<lparr>sc_scanned := sc_scanned st + length (doc_text d), sc_string_start := x, sc_item_start := y,
           sc_last_key := key_after parse (sc_last_key st) [d]\<rparr>,
         fold upd (member_items parse (sc_last_key st) [d]) \<sigma>)" by blast
  let ?st = "st\<lparr>sc_scanned := sc_scanned st + length (doc_text d), sc_string_start := x, sc_item_start := y,
    sc_last_key := key_after parse (sc_last_key st) [d]\<rparr>"
  have s: "in_output ?st" using Cons.prems(2) by (simp add: in_output_def outside_string_def)
  have p': "pending (concat (map doc_text ds) @ rest) ?st" by (rule pending_skip [OF p]) simp_all
  from Cons.IH [OF w(2) s p' r(2), of "fold upd (member_items parse (sc_last_key st) [d]) \<sigma>"] obtain x' y' where
    "scan_rest parse (steady upd) (concat (map doc_text ds) @ rest) (?st, fold upd (member_items parse (sc_last_key st) [d]) \<sigma>)
      = scan_rest parse (steady upd) rest
        (?st\<lparr>sc_scanned := sc_scanned ?st + length (concat (map doc_text ds)), sc_string_start := x', sc_item_start := y',
           sc_last_key := key_after parse (sc_last_key ?st) ds\<rparr>,
         fold upd (member_items parse (sc_last_key ?st) ds) (fold upd (member_items parse (sc_last_key st) [d]) \<sigma>))"
    by blast
  with one show ?case
    unfolding member_items_Cons [of parse "sc_last_key st" d ds] key_after_Cons [of parse "sc_last_key st" d ds]
    by (intro exI [of _ x'] exI [of _ y']) (simp add: add.assoc del: key_after.simps member_items.simps)
qed

text \<open>A whole output, and an output that has reached the end of an element of a section.\<close>

lemma scan_opening:
  assumes "list_all plain_char lead" "pending (lead @ CHR 0x7B # rest) st"
    and "outside_string st" "sc_depth st = 0" "sc_section st = None"
  shows "\<exists>st'. scan_rest parse l (lead @ CHR 0x7B # rest) (st, \<sigma>) = scan_rest parse l rest (st', \<sigma>)
    \<and> in_output st' \<and> pending rest st' \<and> sc_last_key st' = sc_last_key st \<and> sc_text st' = sc_text st"
proof -
  let ?st = "st\<lparr>sc_scanned := sc_scanned st + length lead + 1, sc_depth := 1\<rparr>"
  have "scan_rest parse l (lead @ CHR 0x7B # rest) (st, \<sigma>) = scan_rest parse l rest (?st, \<sigma>)"
    unfolding scan_plain [OF assms(1,3)]
    using assms(3-5) by (simp add: scan_char_def scan_nesting_def open_object_def outside_string_def)
  moreover have "in_output ?st" using assms(3-5) by (simp add: in_output_def outside_string_def)
  moreover have "pending rest ?st" by (rule pending_skip [of "lead @ [CHR 0x7B]" _ st]) (use assms(2) in simp_all)
  ultimately show ?thesis by (intro exI [of _ ?st]) simp
qed

lemma scan_output:
  assumes "list_all plain_char lead" "list_all wf_doc ds" "list_all plain_char trail" "members_read parse ds"
    and "pending (lead @ doc_text (Object ds) @ trail) st"
    and "outside_string st" "sc_depth st = 0" "sc_section st = None"
  shows "\<exists>st'. scan_rest parse (steady upd) (lead @ doc_text (Object ds) @ trail) (st, \<sigma>)
      = ((st', fold upd (member_items parse (sc_last_key st) ds) \<sigma>), False)
    \<and> outside_string st' \<and> sc_depth st' = 0 \<and> sc_section st' = None"
proof -
  let ?rest = "concat (map doc_text ds) @ CHR 0x7D # trail"
  have split: "lead @ doc_text (Object ds) @ trail = lead @ CHR 0x7B # ?rest" by simp
  have wf: "\<forall>d \<in> set ds. wf_doc d" using assms(2) by (simp add: list_all_iff)
  from scan_opening [of lead ?rest st parse "steady upd" \<sigma>] assms(1,5-8) split obtain st1 where
    one: "scan_rest parse (steady upd) (lead @ CHR 0x7B # ?rest) (st, \<sigma>) = scan_rest parse (steady upd) ?rest (st1, \<sigma>)"
      "in_output st1" "pending ?rest st1" "sc_last_key st1 = sc_last_key st" by auto
  from scan_members [OF wf one(2,3) assms(4), of upd \<sigma>] obtain x y where
    two: "scan_rest parse (steady upd) ?rest (st1, \<sigma>) = scan_rest parse (steady upd) (CHR 0x7D # trail)
      (st1\<lparr>sc_scanned := sc_scanned st1 + length (concat (map doc_text ds)), sc_string_start := x, sc_item_start := y,
           sc_last_key := key_after parse (sc_last_key st1) ds\<rparr>,
         fold upd (member_items parse (sc_last_key st1) ds) \<sigma>)" by blast
  let ?st2 = "st1\<lparr>sc_scanned := sc_scanned st1 + length (concat (map doc_text ds)), sc_string_start := x,
    sc_item_start := y, sc_last_key := key_after parse (sc_last_key st1) ds\<rparr>"
  let ?st3 = "?st2\<lparr>sc_scanned := sc_scanned ?st2 + 1, sc_depth := 0\<rparr>"
  have "scan_rest parse (steady upd) (CHR 0x7D # trail) (?st2, \<sigma>') = scan_rest parse (steady upd) trail (?st3, \<sigma>')" for \<sigma>'
    using one(2) by (simp add: scan_char_def scan_nesting_def close_object_def Let_def in_output_def outside_string_def)
  moreover have q: "outside_string ?st3" using one(2) by (simp add: in_output_def outside_string_def)
  moreover have "scan_rest parse (steady upd) trail (?st3, \<sigma>') = ((?st3\<lparr>sc_scanned := sc_scanned ?st3 + length trail\<rparr>, \<sigma>'), False)" for \<sigma>'
    using scan_plain [OF assms(3) q, of parse "steady upd" "[]" \<sigma>'] by simp
  ultimately show ?thesis
    using one(1,2,4) two split
    by (intro exI [of _ "?st3\<lparr>sc_scanned := sc_scanned ?st3 + length trail\<rparr>"])
      (simp add: in_output_def outside_string_def)
qed

lemma scan_partial_output:
  assumes "list_all plain_char lead" "list_all wf_doc ds" "list_all wf_doc es" "members_read parse ds" "elements_read parse es"
    and "pending (lead @ CHR 0x7B # concat (map doc_text ds) @ CHR ''['' # concat (map doc_text es)) st"
    and "outside_string st" "sc_depth st = 0" "sc_section st = None"
  shows "\<exists>st'. scan_rest parse (steady upd)
        (lead @ CHR 0x7B # concat (map doc_text ds) @ CHR ''['' # concat (map doc_text es)) (st, \<sigma>)
      = ((st', fold upd (member_items parse (sc_last_key st) (ds @ [Array es])) \<sigma>), False)"
proof -
  let ?rest = "concat (map doc_text ds) @ CHR ''['' # concat (map doc_text es)"
  have wf: "\<forall>d \<in> set ds. wf_doc d" "\<forall>e \<in> set es. wf_doc e" using assms(2,3) by (simp_all add: list_all_iff)
  have items: "member_items parse key (ds @ [Array es])
      = member_items parse key ds @ element_items parse (key_after parse key ds) es" for key
    by (induction ds arbitrary: key) simp_all
  from scan_opening [of lead ?rest st parse "steady upd" \<sigma>] assms(1,6-9) obtain st1 where
    one: "scan_rest parse (steady upd) (lead @ CHR 0x7B # ?rest) (st, \<sigma>) = scan_rest parse (steady upd) ?rest (st1, \<sigma>)"
      "in_output st1" "pending ?rest st1" "sc_last_key st1 = sc_last_key st" by auto
  from scan_members [OF wf(1) one(2,3) assms(4), of upd \<sigma>] obtain x y where
    two: "scan_rest parse (steady upd) ?rest (st1, \<sigma>) = scan_rest parse (steady upd) (CHR ''['' # concat (map doc_text es))
      (st1\<lparr>sc_scanned := sc_scanned st1 + length (concat (map doc_text ds)), sc_string_start := x, sc_item_start := y,
           sc_last_key := key_after parse (sc_last_key st1) ds\<rparr>,
         fold upd (member_items parse (sc_last_key st1) ds) \<sigma>)" by blast
  let ?st2 = "st1\<lparr>sc_scanned := sc_scanned st1 + length (concat (map doc_text ds)), sc_string_start := x,
    sc_item_start := y, sc_last_key := key_after parse (sc_last_key st1) ds\<rparr>"
  let ?st3 = "?st2\<lparr>sc_scanned := sc_scanned ?st2 + 1, sc_section := Some (sc_last_key ?st2), sc_depth := 2\<rparr>"
  have p2: "pending (CHR ''['' # concat (map doc_text es)) ?st2" by (rule pending_skip [OF one(3)]) simp_all
  have p3: "pending (concat (map doc_text es) @ []) ?st3"
    by (rule pending_skip [of "''[''" _ ?st2]) (use p2 in simp_all)
  have s3: "in_section (key_after parse (sc_last_key st1) ds) ?st3"
    using one(2) by (simp add: in_section_def in_output_def outside_string_def)
  have three: "scan_rest parse (steady upd) (CHR ''['' # concat (map doc_text es)) (?st2, \<sigma>')
      = scan_rest parse (steady upd) (concat (map doc_text es) @ []) (?st3, \<sigma>')" for \<sigma>'
    using one(2) by (simp add: scan_char_def scan_nesting_def open_array_def Let_def in_output_def outside_string_def)
  from scan_elements [OF wf(2) s3 p3 assms(5), of upd "fold upd (member_items parse (sc_last_key st1) ds) \<sigma>"]
  obtain st4 where "scan_rest parse (steady upd) (concat (map doc_text es) @ []) (?st3, fold upd (member_items parse (sc_last_key st1) ds) \<sigma>)
      = ((st4, fold upd (element_items parse (key_after parse (sc_last_key st1) ds) es)
          (fold upd (member_items parse (sc_last_key st1) ds) \<sigma>)), False)" by auto
  with one(1,4) two three items show ?thesis by (intro exI [of _ st4]) simp
qed

subsection \<open>Chunks\<close>

lemma slice_extended: "e \<le> length t \<Longrightarrow> slice (t @ u) s e = slice t s e"
  by (cases "s \<le> length t") (simp_all add: slice_def)

lemma scan_string_extended:
  assumes "position < length (sc_text st)"
  shows "scan_string parse c position (st\<lparr>sc_text := sc_text st @ u\<rparr>)
    = map_prod (\<lambda>st'. st'\<lparr>sc_text := sc_text st @ u\<rparr>) id (scan_string parse c position st)"
proof -
  have "slice (sc_text st @ u) s (Suc position) = slice (sc_text st) s (Suc position)" for s
    by (rule slice_extended) (use assms in simp)
  then show ?thesis by (cases st) (simp add: scan_string_def Let_def split: option.split json.split)
qed

lemma close_object_extended:
  assumes "position < length (sc_text st)"
  shows "close_object parse position (st\<lparr>sc_text := sc_text st @ u\<rparr>)
    = map_prod (\<lambda>st'. st'\<lparr>sc_text := sc_text st @ u\<rparr>) id (close_object parse position st)"
proof -
  have "slice (sc_text st @ u) s (Suc position) = slice (sc_text st) s (Suc position)" for s
    by (rule slice_extended) (use assms in simp)
  then show ?thesis by (cases st) (simp add: close_object_def Let_def split: option.split)
qed

lemma scan_char_extended:
  assumes "position < length (sc_text st)"
  shows "scan_char parse c position (st\<lparr>sc_text := sc_text st @ u\<rparr>)
    = map_prod (\<lambda>st'. st'\<lparr>sc_text := sc_text st @ u\<rparr>) id (scan_char parse c position st)"
proof -
  have "scan_nesting parse c position (st\<lparr>sc_text := sc_text st @ u\<rparr>)
      = map_prod (\<lambda>st'. st'\<lparr>sc_text := sc_text st @ u\<rparr>) id (scan_nesting parse c position st)"
    unfolding scan_nesting_def close_object_extended [OF assms]
    by (cases st) (auto simp: open_array_def open_object_def close_array_def Let_def)
  moreover have "st\<lparr>sc_text := t, sc_in_string := True, sc_string_start := position\<rparr>
      = st\<lparr>sc_in_string := True, sc_string_start := position, sc_text := t\<rparr>" for t
    by (cases st) simp
  ultimately show ?thesis
    using scan_string_extended [OF assms] by (simp add: scan_char_def)
qed

lemma scan_char_text: "scan_char parse c position st = (st', out) \<Longrightarrow> sc_text st' = sc_text st \<and> sc_scanned st' = sc_scanned st"
  by (auto simp: scan_char_def scan_string_def scan_nesting_def open_array_def open_object_def close_object_def
      close_array_def Let_def split: if_splits option.splits json.splits)

lemma scan_rest_append:
  "scan_rest parse l (a @ b) p
     = (case scan_rest parse l a p of (p', threw) \<Rightarrow> if threw then (p', True) else scan_rest parse l b p')"
proof (induction a arbitrary: p)
  case (Cons c a)
  then show ?case by (cases p) (auto split: prod.split scan_outcome.split)
qed simp

lemma scan_rest_extended:
  "sc_scanned st + length a \<le> length (sc_text st) \<Longrightarrow>
     scan_rest parse l a (st\<lparr>sc_text := sc_text st @ u\<rparr>, \<sigma>)
     = map_prod (map_prod (\<lambda>st'. st'\<lparr>sc_text := sc_text st @ u\<rparr>) id) id (scan_rest parse l a (st, \<sigma>))"
proof (induction a arbitrary: st \<sigma>)
  case (Cons c a)
  let ?st = "st\<lparr>sc_scanned := sc_scanned st + 1\<rparr>"
  obtain st' out where one: "scan_char parse c (sc_scanned st) ?st = (st', out)" by (cases "scan_char parse c (sc_scanned st) ?st")
  have "scan_char parse c (sc_scanned st) (?st\<lparr>sc_text := sc_text ?st @ u\<rparr>)
      = map_prod (\<lambda>st'. st'\<lparr>sc_text := sc_text ?st @ u\<rparr>) id (scan_char parse c (sc_scanned st) ?st)"
    by (rule scan_char_extended) (use Cons.prems in simp)
  then have two: "scan_char parse c (sc_scanned st) (st\<lparr>sc_text := sc_text st @ u, sc_scanned := sc_scanned st + 1\<rparr>)
      = (st'\<lparr>sc_text := sc_text st @ u\<rparr>, out)" using one by (cases st) simp
  have t: "sc_text st' = sc_text st" "sc_scanned st' = sc_scanned st + 1" using scan_char_text [OF one] by simp_all
  have IH: "scan_rest parse l a (st'\<lparr>sc_text := sc_text st @ u\<rparr>, \<sigma>')
      = map_prod (map_prod (\<lambda>st'. st'\<lparr>sc_text := sc_text st @ u\<rparr>) id) id (scan_rest parse l a (st', \<sigma>'))" for \<sigma>'
    using Cons.IH [of st' \<sigma>'] Cons.prems t by (simp add: id_def)
  show ?case using one two IH by (simp add: id_def split: scan_outcome.split prod.split)
qed simp

lemma scan_rest_text:
  "scan_rest parse l a (st, \<sigma>) = ((st', \<sigma>'), threw) \<Longrightarrow>
     sc_text st' = sc_text st \<and> (\<not> threw \<longrightarrow> sc_scanned st' = sc_scanned st + length a)"
proof (induction a arbitrary: st \<sigma>)
  case (Cons c a)
  obtain st1 out where one: "scan_char parse c (sc_scanned st) (st\<lparr>sc_scanned := sc_scanned st + 1\<rparr>) = (st1, out)"
    by fastforce
  from scan_char_text [OF one] have t: "sc_text st1 = sc_text st" "sc_scanned st1 = sc_scanned st + 1" by simp_all
  show ?case using Cons.prems one t Cons.IH [of st1] by (auto split: scan_outcome.splits prod.splits if_splits)
qed simp

text \<open>Chunk after chunk, whatever each one threw.\<close>

fun feed_all :: "json_parse \<Rightarrow> 's item_listener \<Rightarrow> string list \<Rightarrow> scanner \<times> 's \<Rightarrow> scanner \<times> 's" where
  "feed_all parse l [] p = p"
| "feed_all parse l (c # cs) p = feed_all parse l cs (fst (feed parse l c p))"

text \<open>All of the text so far has been scanned.\<close>

definition caught_up :: "scanner \<Rightarrow> bool" where
  "caught_up st \<longleftrightarrow> sc_scanned st = length (sc_text st)"

lemma feed_caught_up:
  assumes "caught_up st"
  shows "feed parse l c (st, \<sigma>) = scan_rest parse l c (st\<lparr>sc_text := sc_text st @ c\<rparr>, \<sigma>)"
  using assms by (simp add: feed_def Let_def caught_up_def)

lemma feed_keeps_caught_up:
  assumes "caught_up st" "feed parse l c (st, \<sigma>) = ((st', \<sigma>'), False)"
  shows "caught_up st'" "sc_text st' = sc_text st @ c"
  using assms scan_rest_text [of parse l c "st\<lparr>sc_text := sc_text st @ c\<rparr>" \<sigma> st' \<sigma>' False]
  by (simp_all add: feed_caught_up) (simp_all add: caught_up_def)

lemma feed_split:
  assumes "caught_up st" "feed parse l (a @ b) (st, \<sigma>) = ((st'', \<sigma>''), False)"
  shows "\<exists>st' \<sigma>'. feed parse l a (st, \<sigma>) = ((st', \<sigma>'), False) \<and> caught_up st' \<and> feed parse l b (st', \<sigma>') = ((st'', \<sigma>''), False)"
proof -
  let ?st = "st\<lparr>sc_text := sc_text st @ a\<rparr>"
  have ext: "scan_rest parse l a (st\<lparr>sc_text := sc_text st @ a @ b\<rparr>, \<sigma>)
      = map_prod (map_prod (\<lambda>st'. st'\<lparr>sc_text := sc_text st @ a @ b\<rparr>) id) id (scan_rest parse l a (?st, \<sigma>))"
    using scan_rest_extended [of ?st a parse l b \<sigma>] assms(1) by (simp add: caught_up_def)
  obtain st' \<sigma>' threw where one: "scan_rest parse l a (?st, \<sigma>) = ((st', \<sigma>'), threw)"
    by (metis surj_pair)
  have "scan_rest parse l (a @ b) (st\<lparr>sc_text := sc_text st @ a @ b\<rparr>, \<sigma>) = ((st'', \<sigma>''), False)"
    using assms by (simp add: feed_caught_up)
  then have two: "\<not> threw" "scan_rest parse l b (st'\<lparr>sc_text := sc_text st @ a @ b\<rparr>, \<sigma>') = ((st'', \<sigma>''), False)"
    using ext one by (simp_all add: scan_rest_append split: if_splits)
  have fa: "feed parse l a (st, \<sigma>) = ((st', \<sigma>'), False)" using one two(1) assms(1) by (simp add: feed_caught_up)
  from feed_keeps_caught_up [OF assms(1) fa] have "caught_up st'" "sc_text st' = sc_text st @ a" .
  with fa two(2) show ?thesis by (intro exI [of _ st'] exI [of _ \<sigma>']) (simp add: feed_caught_up)
qed

lemma feed_nothing: "caught_up st \<Longrightarrow> feed parse l [] (st, \<sigma>) = ((st, \<sigma>), False)"
  by (simp add: feed_caught_up)

lemma feed_all_concat:
  assumes "caught_up st" "feed parse l (concat cs) (st, \<sigma>) = ((st', \<sigma>'), False)"
  shows "feed_all parse l cs (st, \<sigma>) = (st', \<sigma>')"
  using assms
proof (induction cs arbitrary: st \<sigma>)
  case Nil
  then show ?case by (simp add: feed_nothing)
next
  case (Cons c cs)
  from feed_split [of st parse l c "concat cs" \<sigma> st' \<sigma>'] Cons.prems obtain st1 \<sigma>1 where
    "feed parse l c (st, \<sigma>) = ((st1, \<sigma>1), False)" "caught_up st1" "feed parse l (concat cs) (st1, \<sigma>1) = ((st', \<sigma>'), False)"
    by auto
  with Cons.IH show ?case by simp
qed

subsection \<open>The lines of one answer\<close>

text \<open>Line after line, as the caller of the stream reads them: a line that throws is left behind.\<close>

definition read_lines :: "json_parse \<Rightarrow> 's output_listener \<Rightarrow> string list \<Rightarrow> output_stream \<times> 's \<Rightarrow> output_stream \<times> 's" where
  "read_lines parse l lines p = fold (\<lambda>line p. fst (stream_line parse l line p)) lines p"

definition begins_output :: "json_parse \<Rightarrow> real \<Rightarrow> string \<Rightarrow> bool" where
  "begins_output parse index line \<longleftrightarrow> stream_event_of parse line = Some (BlockStart (Some ''StructuredOutput'') index)"

definition block_chunk :: "json_parse \<Rightarrow> real \<Rightarrow> string \<Rightarrow> string option" where
  "block_chunk parse index line =
     (case stream_event_of parse line of
        Some (BlockDelta chunk i) \<Rightarrow> if i = index then chunk else None
      | _ \<Rightarrow> None)"

lemma stream_line_chunk:
  assumes "\<nexists>i. begins_output parse i line" and "os_block os = Some index" and "os_scanner os = Some st"
  shows "fst (stream_line parse l line (os, s)) =
    (case block_chunk parse index line of
       None \<Rightarrow> (os, s)
     | Some c \<Rightarrow> (case fst (feed parse (ol_item_closed l) c (st, s)) of (st', s') \<Rightarrow> (os\<lparr>os_scanner := Some st'\<rparr>, s')))"
  using assms
  by (auto simp: stream_line_def block_chunk_def begins_output_def start_block_def split: option.split stream_event.split prod.split)

lemma read_lines_chunks:
  assumes "\<forall>line \<in> set lines. \<nexists>i. begins_output parse i line"
  shows "read_lines parse l lines (\<lparr>os_scanner = Some st, os_block = Some index\<rparr>, s) =
    (case feed_all parse (ol_item_closed l) (List.map_filter (block_chunk parse index) lines) (st, s) of
       (st', s') \<Rightarrow> (\<lparr>os_scanner = Some st', os_block = Some index\<rparr>, s'))"
  using assms
proof (induction lines arbitrary: st s)
  case Nil
  then show ?case by (simp add: read_lines_def List.map_filter_simps)
next
  case (Cons line lines)
  then have "\<nexists>i. begins_output parse i line" by simp
  note line = stream_line_chunk [OF this, of "\<lparr>os_scanner = Some st, os_block = Some index\<rparr>" index st l s]
  show ?case
  proof (cases "block_chunk parse index line")
    case None
    then show ?thesis using line Cons by (simp add: read_lines_def List.map_filter_simps)
  next
    case (Some c)
    obtain st' s' where f: "fst (feed parse (ol_item_closed l) c (st, s)) = (st', s')" by fastforce
    then show ?thesis using line Some Cons by (simp add: read_lines_def List.map_filter_simps)
  qed
qed

lemma start_line: "begins_output parse index line \<Longrightarrow>
    fst (stream_line parse l line (os, s)) =
      (\<lparr>os_scanner = Some new_scanner, os_block = Some index\<rparr>, if os_scanner os = None then s else ol_restarted l s)"
  by (simp add: begins_output_def stream_line_def start_block_def)

lemma feed_new:
  "feed parse l txt (new_scanner, s) = scan_rest parse l txt (new_scanner\<lparr>sc_text := txt\<rparr>, s)"
  by (simp add: feed_def new_scanner_def)

text \<open>What the listener keeps, the reading of the lines keeps.\<close>

lemma scan_rest_keeps:
  assumes "\<forall>x s. Q s \<longrightarrow> Q (fst (l x s))" and "Q \<sigma>"
  shows "Q (snd (fst (scan_rest parse l cs (st, \<sigma>))))"
  using assms(2)
proof (induction cs arbitrary: st \<sigma>)
  case (Cons c cs)
  obtain st' out where one: "scan_char parse c (sc_scanned st) (st\<lparr>sc_scanned := sc_scanned st + 1\<rparr>) = (st', out)" by fastforce
  show ?case
  proof (cases out)
    case (Closed x)
    obtain \<sigma>' threw where "l x \<sigma> = (\<sigma>', threw)" by fastforce
    moreover from this have "Q \<sigma>'" using assms(1) Cons.prems by (metis fst_conv)
    ultimately show ?thesis using one Closed Cons.IH by simp
  qed (use one Cons in simp_all)
qed simp

lemma stream_line_keeps:
  assumes "\<forall>x s. Q s \<longrightarrow> Q (fst (ol_item_closed l x s))" and "\<forall>s. Q s \<longrightarrow> Q (ol_restarted l s)" and "Q s"
  shows "Q (snd (fst (stream_line parse l line (os, s))))"
proof -
  have "Q (snd (fst (feed parse (ol_item_closed l) c (st, s))))" for c st
    using scan_rest_keeps [OF assms(1,3)] by (simp add: feed_def Let_def)
  then show ?thesis
    using assms(2,3) by (auto simp: stream_line_def start_block_def split: option.split stream_event.split prod.split) (metis fst_conv snd_conv)
qed

lemma read_lines_keeps:
  assumes "\<forall>x s. Q s \<longrightarrow> Q (fst (ol_item_closed l x s))" and "\<forall>s. Q s \<longrightarrow> Q (ol_restarted l s)" and "Q s"
  shows "Q (snd (read_lines parse l lines (os, s)))"
  using assms(3)
proof (induction lines arbitrary: os s)
  case Nil
  then show ?case by (simp add: read_lines_def)
next
  case (Cons line lines)
  obtain os' s' where p: "fst (stream_line parse l line (os, s)) = (os', s')" by fastforce
  then have "Q s'" using stream_line_keeps [OF assms(1,2) Cons.prems, of parse line os] by simp
  then show ?case using p Cons.IH by (simp add: read_lines_def)
qed

text \<open>Nothing is reported before the model begins its output.\<close>

lemma read_lines_unstarted:
  "read_lines parse l lines (new_stream, s) = (os', s') \<Longrightarrow> os_scanner os' = None \<Longrightarrow> s' = s"
proof -
  have line: "os_scanner (fst p) = None \<longrightarrow> snd p = s \<Longrightarrow>
      os_scanner (fst (fst (stream_line parse l line p))) = None \<longrightarrow> snd (fst (stream_line parse l line p)) = s" for line p
    by (cases p) (auto simp: stream_line_def start_block_def split: option.split stream_event.split prod.split)
  have "os_scanner (fst p) = None \<longrightarrow> snd p = s \<Longrightarrow>
      os_scanner (fst (read_lines parse l lines p)) = None \<longrightarrow> snd (read_lines parse l lines p) = s" for p
    unfolding read_lines_def by (induction lines arbitrary: p) (simp_all add: line)
  from this [of "(new_stream, s)"] show "read_lines parse l lines (new_stream, s) = (os', s') \<Longrightarrow> os_scanner os' = None \<Longrightarrow> s' = s"
    by (simp add: new_stream_def)
qed

text \<open>The items of an output, however it is cut.\<close>

lemma streamed_items:
  assumes "begins_output parse index line" and "\<forall>line \<in> set lines. \<nexists>i. begins_output parse i line"
    and "concat (List.map_filter (block_chunk parse index) lines) = lead @ doc_text (Object ds) @ trail"
    and "list_all plain_char lead" and "list_all wf_doc ds" and "list_all plain_char trail" and "members_read parse ds"
  shows "snd (read_lines parse \<lparr>ol_item_closed = steady upd, ol_restarted = restart\<rparr> (line # lines) (os, s)) =
    fold upd (member_items parse [] ds) (if os_scanner os = None then s else restart s)"
proof -
  let ?l = "\<lparr>ol_item_closed = steady upd, ol_restarted = restart\<rparr>"
  let ?txt = "lead @ doc_text (Object ds) @ trail"
  let ?s = "if os_scanner os = None then s else restart s"
  have "\<exists>st'. scan_rest parse (steady upd) ?txt (new_scanner\<lparr>sc_text := ?txt\<rparr>, ?s)
      = ((st', fold upd (member_items parse (sc_last_key (new_scanner\<lparr>sc_text := ?txt\<rparr>)) ds) ?s), False)
    \<and> outside_string st' \<and> sc_depth st' = 0 \<and> sc_section st' = None"
    by (rule scan_output [OF assms(4-7)]) (simp_all add: pending_def new_scanner_def outside_string_def del: doc_text.simps)
  then obtain st' where "feed parse (steady upd) ?txt (new_scanner, ?s) = ((st', fold upd (member_items parse [] ds) ?s), False)"
    unfolding feed_new by (auto simp: new_scanner_def simp del: doc_text.simps)
  then have "feed_all parse (steady upd) (List.map_filter (block_chunk parse index) lines) (new_scanner, ?s)
      = (st', fold upd (member_items parse [] ds) ?s)"
    by (intro feed_all_concat) (simp_all only: assms(3) caught_up_def new_scanner_def, simp)
  moreover have "fst (stream_line parse ?l line (os, s)) = (\<lparr>os_scanner = Some new_scanner, os_block = Some index\<rparr>, ?s)"
    unfolding start_line [OF assms(1)] by simp
  ultimately show ?thesis
    using read_lines_chunks [OF assms(2), of ?l new_scanner index ?s]
    by (simp add: read_lines_def split del: if_split)
qed

lemma read_lines_append: "read_lines parse l (xs @ ys) p = read_lines parse l ys (read_lines parse l xs p)"
  by (simp add: read_lines_def)

text \<open>C12: However a Judge's structured output is cut into chunks, and whatever other lines come between them, exactly the
objects in the arrays of its top level are reported, once each and in their order, under the key of their array. Nothing is
reported before an output begins, and the items of an output the model began before this one are void first.\<close>

theorem streamed_items_exact:
  assumes "begins_output parse index line" and "\<forall>line \<in> set post. \<nexists>i. begins_output parse i line"
    and "concat (List.map_filter (block_chunk parse index) post) = lead @ doc_text (Object ds) @ trail"
    and "list_all plain_char lead" and "list_all wf_doc ds" and "list_all plain_char trail" and "members_read parse ds"
    and "l = \<lparr>ol_item_closed = steady upd, ol_restarted = restart\<rparr>" and "read_lines parse l pre (new_stream, s) = (os, s')"
  shows "snd (read_lines parse l (pre @ line # post) (new_stream, s)) =
    fold upd (member_items parse [] ds) (if os_scanner os = None then s else restart s')"
proof -
  have "os_scanner os = None \<Longrightarrow> s' = s" using read_lines_unstarted [OF assms(9)] .
  then show ?thesis
    unfolding read_lines_append assms(9) unfolding assms(8) streamed_items [OF assms(1-7)] by simp
qed

text \<open>An answer in two chunks, cut inside a string, with another block's line between them.\<close>

definition delta_json :: "real \<Rightarrow> string \<Rightarrow> json" where
  "delta_json index chunk = JObj [(''type'', JStr ''stream_event''), (''event'', JObj [(''type'', JStr ''content_block_delta''),
     (''index'', JNum index), (''delta'', JObj [(''type'', JStr ''input_json_delta''), (''partial_json'', JStr chunk)])])]"

definition start_json :: "real \<Rightarrow> string \<Rightarrow> json" where
  "start_json index name = JObj [(''type'', JStr ''stream_event''), (''event'', JObj [(''type'', JStr ''content_block_start''),
     (''index'', JNum index), (''content_block'', JObj [(''type'', JStr ''tool_use''), (''name'', JStr name)])])]"

definition sample_parse :: json_parse where
  "sample_parse = map_of [(''start'', start_json 1 ''StructuredOutput''), (''one'', delta_json 1 ''{\"items\": [{\"a''),
     (''other'', delta_json 0 ''{''), (''two'', delta_json 1 ''\": 1}, {}]}''),
     (''\"items\"'', JStr ''items''), (''{\"a\": 1}'', JObj [(''a'', JNum 1)]), (''{}'', JObj [])]"

lemma streamed_items_exact_witness:
  "snd (read_lines sample_parse \<lparr>ol_item_closed = steady (\<lambda>x s. s @ [x]), ol_restarted = (\<lambda>s. [])\<rparr>
      [''other'', ''start'', ''one'', ''other'', ''two''] (new_stream, [])) =
    [\<lparr>ci_section = ''items'', ci_item = JObj [(''a'', JNum 1)]\<rparr>, \<lparr>ci_section = ''items'', ci_item = JObj []\<rparr>]"
proof -
  let ?ds = "[Quoted ''items'', Plain '': '', Array [Object [Quoted ''a'', Plain '': 1''], Plain '', '', Object []]]"
  have events: "stream_event_of sample_parse ''start'' = Some (BlockStart (Some ''StructuredOutput'') 1)"
    "stream_event_of sample_parse ''one'' = Some (BlockDelta (Some ''{\"items\": [{\"a'') 1)"
    "stream_event_of sample_parse ''other'' = Some (BlockDelta (Some ''{'') 0)"
    "stream_event_of sample_parse ''two'' = Some (BlockDelta (Some ''\": 1}, {}]}'') 1)"
    by (simp_all add: stream_event_of_def sample_parse_def start_json_def delta_json_def event_schema_def typed_with_def)
  have starts: "begins_output sample_parse 1 ''start''"
    "\<forall>line \<in> set [''one'', ''other'', ''two'']. \<nexists>i. begins_output sample_parse i line"
    by (simp_all add: begins_output_def events)
  have chunks: "concat (List.map_filter (block_chunk sample_parse 1) [''one'', ''other'', ''two'']) = [] @ doc_text (Object ?ds) @ []"
    by (simp add: List.map_filter_simps block_chunk_def events)
  have wf: "list_all wf_doc ?ds" by (simp add: plain_char_def)
  have "sample_parse ''\"items\"'' = Some (JStr ''items'')" "sample_parse ''{\"a\": 1}'' = Some (JObj [(''a'', JNum 1)])"
    "sample_parse ''{}'' = Some (JObj [])"
    by (simp_all add: sample_parse_def)
  then have read: "members_read sample_parse ?ds"
    "member_items sample_parse [] ?ds = [\<lparr>ci_section = ''items'', ci_item = JObj [(''a'', JNum 1)]\<rparr>, \<lparr>ci_section = ''items'', ci_item = JObj []\<rparr>]"
    by (simp_all add: members_read_def elements_read_def element_items_def List.map_filter_simps)
  have "read_lines sample_parse \<lparr>ol_item_closed = steady (\<lambda>x s. s @ [x]), ol_restarted = (\<lambda>s. [])\<rparr> [''other''] (new_stream, [])
      = (new_stream, [])"
    by (simp add: read_lines_def stream_line_def events new_stream_def)
  from streamed_items_exact [OF starts chunks _ wf _ read(1) refl this] read(2) show ?thesis by (simp add: new_stream_def)
qed

end
