(* ===== verification/JudgeProgress.thy ===== *)
theory JudgeProgress
  imports JudgeStream StageGrading RunEvents
begin

text \<open>
  The progress of a stage Judge, reported while its answer is streamed (\<open>stage-judge-progress.ts\<close>): each item of the
  answer is counted as soon as it closes, if it is an item of the rubric that has not been returned yet and passes the
  checks the whole answer will face. What an item must be is the schema of the answer (\<open>judge-grade-contract.ts\<close> and
  \<open>judge-evidence-contract.ts\<close>), written out over the parsed JSON.

  The class fields are the state, with the reports made so far; a report that throws changes nothing, as its error is
  dropped. A session is the lines of its output; \<open>JSON.parse\<close> is a parameter.
\<close>

subsection \<open>The schema of an answer\<close>

definition enum_of :: "('a \<Rightarrow> string) \<Rightarrow> 'a list \<Rightarrow> json option \<Rightarrow> 'a option" where
  "enum_of name values j = (case j of Some (JStr s) \<Rightarrow> List.find (\<lambda>v. name v = s) values | _ \<Rightarrow> None)"

definition nonempty_of :: "json option \<Rightarrow> string option" where
  "nonempty_of j = (case j of Some (JStr s) \<Rightarrow> if s = [] then None else Some s | _ \<Rightarrow> None)"

definition text_of :: "json option \<Rightarrow> string option" where
  "text_of j = (case j of Some (JStr s) \<Rightarrow> Some s | _ \<Rightarrow> None)"

definition array_of :: "(json \<Rightarrow> 'a option) \<Rightarrow> json option \<Rightarrow> 'a list option" where
  "array_of f j = (case j of Some (JArr xs) \<Rightarrow> those (map f xs) | _ \<Rightarrow> None)"

definition STAGE_EVIDENCE_SOURCES :: "stage_source list" where
  "STAGE_EVIDENCE_SOURCES = [Task, ProductBrief, Instructions, TaskState, Transcript, Artifact, PriorArtifact,
     BaselineContext, Diff, CommitSubjects, SourceCheckIntegrity, SourceLocalChecks, SourceHarnessFailure]"

fun status_name :: "pass_fail \<Rightarrow> string" where
  "status_name PASS = ''PASS''"
| "status_name FAIL = ''FAIL''"

fun fields_of :: "json \<Rightarrow> (string \<times> json) list option" where
  "fields_of (JObj kvs) = Some kvs"
| "fields_of _ = None"

definition judge_stage_evidence_schema :: "json \<Rightarrow> judge_evidence option" where
  "judge_stage_evidence_schema j =
     Option.bind (fields_of j) (\<lambda>kvs.
     Option.bind (nonempty_of (map_of kvs ''claim'')) (\<lambda>claim.
     Option.bind (nonempty_of (map_of kvs ''path'')) (\<lambda>path.
     Option.bind (text_of (map_of kvs ''quote'')) (\<lambda>quote.
     Option.bind (enum_of source_name STAGE_EVIDENCE_SOURCES (map_of kvs ''source'')) (\<lambda>source.
       Some \<lparr>je_claim = claim, je_path = path, je_quote = quote, je_source = source\<rparr>)))))"

definition judge_evidence_list_schema :: "json option \<Rightarrow> judge_evidence list option" where
  "judge_evidence_list_schema j = (case array_of judge_stage_evidence_schema j of Some [] \<Rightarrow> None | r \<Rightarrow> r)"

definition pass_fail_item_schema :: "json \<Rightarrow> judge_evidence graded_item option" where
  "pass_fail_item_schema j =
     Option.bind (fields_of j) (\<lambda>kvs.
     Option.bind (nonempty_of (map_of kvs ''id'')) (\<lambda>item_id.
     Option.bind (enum_of status_name [PASS, FAIL] (map_of kvs ''status'')) (\<lambda>status.
     Option.bind (judge_evidence_list_schema (map_of kvs ''evidence'')) (\<lambda>evidence.
       Some \<lparr>gi_id = item_id, gi_status = status, gi_evidence = evidence\<rparr>))))"

definition stage_judge_dimension_response_schema :: "json \<Rightarrow> judge_evidence graded_dimension option" where
  "stage_judge_dimension_response_schema j =
     Option.bind (fields_of j) (\<lambda>kvs.
     Option.bind (enum_of letter_name STAGE_LETTER_GRADES (map_of kvs ''grade'')) (\<lambda>grade.
     Option.bind (nonempty_of (map_of kvs ''id'')) (\<lambda>item_id.
     Option.bind (judge_evidence_list_schema (map_of kvs ''evidence'')) (\<lambda>evidence.
       Some \<lparr>gd_id = item_id, gd_grade = grade, gd_evidence = evidence\<rparr>))))"

definition stage_judge_response_schema :: "json \<Rightarrow> judge_evidence stage_output option" where
  "stage_judge_response_schema j =
     Option.bind (fields_of j) (\<lambda>kvs.
     Option.bind (array_of stage_judge_dimension_response_schema (map_of kvs ''dimensions'')) (\<lambda>dimensions.
     Option.bind (array_of pass_fail_item_schema (map_of kvs ''hardBlockers'')) (\<lambda>blockers.
     Option.bind (array_of pass_fail_item_schema (map_of kvs ''requirements'')) (\<lambda>requirements.
     Option.bind (nonempty_of (map_of kvs ''summary'')) (\<lambda>summary.
       Some \<lparr>so_dimensions = dimensions, so_hard_blockers = blockers, so_requirements = requirements, so_summary = summary\<rparr>)))))"

subsection \<open>The state and its reports\<close>

datatype progress_section = HardBlockers | Requirements | Dimensions

definition PROGRESS_SECTIONS :: "progress_section list" where
  "PROGRESS_SECTIONS = [HardBlockers, Requirements, Dimensions]"

fun section_name :: "progress_section \<Rightarrow> string" where
  "section_name HardBlockers = ''hardBlockers''"
| "section_name Requirements = ''requirements''"
| "section_name Dimensions = ''dimensions''"

datatype item_result = StatusResult pass_fail | GradeResult letter

definition section_results :: "progress_section \<Rightarrow> 'e stage_output \<Rightarrow> (string \<times> item_result) list" where
  "section_results sec out =
     (case sec of
        HardBlockers \<Rightarrow> map (\<lambda>b. (gi_id b, StatusResult (gi_status b))) (so_hard_blockers out)
      | Requirements \<Rightarrow> map (\<lambda>r. (gi_id r, StatusResult (gi_status r))) (so_requirements out)
      | Dimensions \<Rightarrow> map (\<lambda>d. (gd_id d, GradeResult (gd_grade d))) (so_dimensions out))"

record progress_observer =
  po_rubric :: stage_rubric
  po_accepts :: "judge_evidence stage_output \<Rightarrow> bool"

record judge_watch =
  jw_attempt :: nat
  jw_returned :: "progress_section \<Rightarrow> (string \<times> item_result) list"
  jw_reports :: "judge_progress list"

definition new_watch :: judge_watch where
  "new_watch = \<lparr>jw_attempt = 0, jw_returned = (\<lambda>_. []), jw_reports = []\<rparr>"

definition rubric_ids :: "stage_rubric \<Rightarrow> progress_section \<Rightarrow> string list" where
  "rubric_ids rubric sec =
     (case sec of
        HardBlockers \<Rightarrow> map ri_id (rb_hard_blockers rubric)
      | Requirements \<Rightarrow> map ri_id (rb_requirements rubric)
      | Dimensions \<Rightarrow> map ri_id (rb_dimensions rubric))"

definition report_safely :: "judge_progress \<Rightarrow> judge_watch \<Rightarrow> judge_watch" where
  "report_safely progress w = w\<lparr>jw_reports := jw_reports w @ [progress]\<rparr>"

definition section_count_of :: "progress_observer \<Rightarrow> judge_watch \<Rightarrow> progress_section \<Rightarrow> section_count" where
  "section_count_of obs w sec =
     \<lparr>sn_returned = length (jw_returned w sec), sn_total = length (rubric_ids (po_rubric obs) sec)\<rparr>"

definition returned_grade :: "judge_watch \<Rightarrow> string \<Rightarrow> letter option" where
  "returned_grade w i = (case map_of (jw_returned w Dimensions) i of Some (GradeResult g) \<Rightarrow> Some g | _ \<Rightarrow> None)"

definition returned_status :: "judge_watch \<Rightarrow> string \<Rightarrow> pass_fail option" where
  "returned_status w i = (case map_of (jw_returned w HardBlockers) i of Some (StatusResult s) \<Rightarrow> Some s | _ \<Rightarrow> None)"

definition returning :: "progress_observer \<Rightarrow> judge_watch \<Rightarrow> judge_progress" where
  "returning obs w =
     ProgressReturning (jw_attempt w)
       (Some \<lparr>rt_dimensions = map (\<lambda>i. (i, returned_grade w i)) (rubric_ids (po_rubric obs) Dimensions),
          rt_hard_blockers = map (\<lambda>i. (i, returned_status w i)) (rubric_ids (po_rubric obs) HardBlockers)\<rparr>)
       \<lparr>ps_dimensions = section_count_of obs w Dimensions, ps_hard_blockers = section_count_of obs w HardBlockers,
          ps_requirements = section_count_of obs w Requirements\<rparr>"

definition start_over :: "progress_observer \<Rightarrow> judge_watch \<Rightarrow> judge_watch" where
  "start_over obs w = (let w' = w\<lparr>jw_returned := (\<lambda>_. [])\<rparr> in report_safely (returning obs w') w')"

subsection \<open>An item that closes\<close>

definition partial_json :: "progress_section \<Rightarrow> json \<Rightarrow> json" where
  "partial_json sec item =
     (let array = (\<lambda>s. JArr (if s = sec then [item] else []))
      in JObj [(''dimensions'', array Dimensions), (''hardBlockers'', array HardBlockers),
           (''requirements'', array Requirements), (''summary'', JStr ''in progress'')])"

definition passed_checks ::
    "progress_observer \<Rightarrow> judge_watch \<Rightarrow> progress_section \<Rightarrow> json \<Rightarrow> (string \<times> item_result) option" where
  "passed_checks obs w sec item =
     (case stage_judge_response_schema (partial_json sec item) of
        None \<Rightarrow> None
      | Some partial \<Rightarrow>
          (case section_results sec partial of
             [] \<Rightarrow> None
           | (i, res) # _ \<Rightarrow>
               if i \<notin> set (rubric_ids (po_rubric obs) sec) \<or> map_of (jw_returned w sec) i \<noteq> None then None
               else if \<not> po_accepts obs partial then None
               else Some (i, res)))"

definition progress_item_closed :: "progress_observer \<Rightarrow> closed_item \<Rightarrow> judge_watch \<Rightarrow> judge_watch" where
  "progress_item_closed obs x w =
     (case List.find (\<lambda>s. section_name s = ci_section x) PROGRESS_SECTIONS of
        None \<Rightarrow> w
      | Some sec \<Rightarrow>
          (case passed_checks obs w sec (ci_item x) of
             None \<Rightarrow> w
           | Some r \<Rightarrow>
               let w' = w\<lparr>jw_returned := (jw_returned w)(sec := jw_returned w sec @ [r])\<rparr>
               in report_safely (returning obs w') w'))"

definition progress_listener :: "progress_observer \<Rightarrow> judge_watch output_listener" where
  "progress_listener obs = \<lparr>ol_item_closed = steady (progress_item_closed obs), ol_restarted = start_over obs\<rparr>"

definition invoke_session :: "progress_observer \<Rightarrow> json_parse \<Rightarrow> string list \<Rightarrow> judge_watch \<Rightarrow> judge_watch" where
  "invoke_session obs parse lines w =
     snd (read_lines parse (progress_listener obs) lines (new_stream, start_over obs (w\<lparr>jw_attempt := jw_attempt w + 1\<rparr>)))"

definition reject_answer :: "string \<Rightarrow> judge_watch \<Rightarrow> judge_watch" where
  "reject_answer reason w = report_safely (ProgressRejected (jw_attempt w) reason) w"

text \<open>The observer of a stage's Judge (\<open>runStageJudge\<close> of \<open>stage-grading.ts\<close>).\<close>

definition stage_observer :: "glob \<Rightarrow> stage_judge_input \<Rightarrow> stage_rubric \<Rightarrow> progress_observer" where
  "stage_observer glob i rubric = \<lparr>po_rubric = rubric, po_accepts = (\<lambda>partial. is_ok (checked_stage_evidence glob partial i))\<rparr>"

datatype watch_call = Invoke "string list" | Reject string

fun run_call :: "progress_observer \<Rightarrow> json_parse \<Rightarrow> watch_call \<Rightarrow> judge_watch \<Rightarrow> judge_watch" where
  "run_call obs parse (Invoke lines) w = invoke_session obs parse lines w"
| "run_call obs parse (Reject reason) w = reject_answer reason w"

subsection \<open>Reports stay within the rubric\<close>

fun result_of :: "progress_section \<Rightarrow> item_result \<Rightarrow> bool" where
  "result_of Dimensions r = (\<exists>g. r = GradeResult g)"
| "result_of _ r = (\<exists>s. r = StatusResult s)"

definition counted :: "progress_observer \<Rightarrow> judge_watch \<Rightarrow> bool" where
  "counted obs w \<longleftrightarrow> (\<forall>sec. distinct (map fst (jw_returned w sec)) \<and>
     set (map fst (jw_returned w sec)) \<subseteq> set (rubric_ids (po_rubric obs) sec) \<and>
     (\<forall>r \<in> set (jw_returned w sec). result_of sec (snd r)))"

text \<open>What a report of returned items says: the items of the rubric in its order, how many have been returned, and for
blockers and dimensions which, with a result for each of them and for no other.\<close>

definition section_within :: "string list \<Rightarrow> (string \<times> 'a option) list \<Rightarrow> section_count \<Rightarrow> bool" where
  "section_within ids items c \<longleftrightarrow> map fst items = ids \<and> sn_total c = length ids \<and>
     sn_returned c = length (filter (\<lambda>i. snd i \<noteq> None) items)"

definition within_rubric :: "stage_rubric \<Rightarrow> judge_progress \<Rightarrow> bool" where
  "within_rubric rubric p =
     (case p of
        ProgressReturning attempt (Some items) sections \<Rightarrow>
          section_within (rubric_ids rubric Dimensions) (rt_dimensions items) (ps_dimensions sections) \<and>
          section_within (rubric_ids rubric HardBlockers) (rt_hard_blockers items) (ps_hard_blockers sections) \<and>
          sn_total (ps_requirements sections) = length (rubric_ids rubric Requirements) \<and>
          sn_returned (ps_requirements sections) \<le> sn_total (ps_requirements sections)
      | ProgressReturning attempt None sections \<Rightarrow> False
      | ProgressRejected attempt reason \<Rightarrow> True)"

lemma filter_returned:
  assumes "distinct ids" and "distinct (map fst rs)" and "set (map fst rs) \<subseteq> set ids"
  shows "length (filter (\<lambda>i. map_of rs i \<noteq> None) ids) = length rs"
proof -
  have "set (filter (\<lambda>i. map_of rs i \<noteq> None) ids) = set (map fst rs)"
    using assms(3) by (auto simp: map_of_eq_None_iff)
  then have "card (set (filter (\<lambda>i. map_of rs i \<noteq> None) ids)) = card (set (map fst rs))" by simp
  then show ?thesis using assms(1,2) distinct_card [of "filter (\<lambda>i. map_of rs i \<noteq> None) ids"] distinct_card [of "map fst rs"] by simp
qed

lemma returned_grade_None: "counted obs w \<Longrightarrow> returned_grade w i \<noteq> None \<longleftrightarrow> map_of (jw_returned w Dimensions) i \<noteq> None"
proof -
  assume "counted obs w"
  then have "\<forall>r \<in> set (jw_returned w Dimensions). result_of Dimensions (snd r)" unfolding counted_def by blast
  then show ?thesis
    by (cases "map_of (jw_returned w Dimensions) i") (auto simp: returned_grade_def dest!: map_of_SomeD)
qed

lemma returned_status_None: "counted obs w \<Longrightarrow> returned_status w i \<noteq> None \<longleftrightarrow> map_of (jw_returned w HardBlockers) i \<noteq> None"
proof -
  assume "counted obs w"
  then have "\<forall>r \<in> set (jw_returned w HardBlockers). result_of HardBlockers (snd r)" unfolding counted_def by blast
  then show ?thesis
    by (cases "map_of (jw_returned w HardBlockers) i") (auto simp: returned_status_def dest!: map_of_SomeD)
qed

lemma section_within_returned:
  assumes "distinct ids" and "distinct (map fst rs)" and "set (map fst rs) \<subseteq> set ids"
    and "\<And>i. f i \<noteq> None \<longleftrightarrow> map_of rs i \<noteq> None"
  shows "section_within ids (map (\<lambda>i. (i, f i)) ids) \<lparr>sn_returned = length rs, sn_total = length ids\<rparr>"
  using filter_returned [OF assms(1-3)] assms(4)
  by (simp add: section_within_def filter_map comp_def)

lemma within_returning:
  assumes "\<forall>sec. distinct (rubric_ids (po_rubric obs) sec)" and "counted obs w"
  shows "within_rubric (po_rubric obs) (returning obs w)"
proof -
  have c: "distinct (map fst (jw_returned w sec))" "set (map fst (jw_returned w sec)) \<subseteq> set (rubric_ids (po_rubric obs) sec)"
    for sec using assms(2) by (simp_all add: counted_def)
  have "section_within (rubric_ids (po_rubric obs) Dimensions) (map (\<lambda>i. (i, returned_grade w i)) (rubric_ids (po_rubric obs) Dimensions))
      (section_count_of obs w Dimensions)"
    unfolding section_count_of_def using assms(1) c returned_grade_None [OF assms(2)] by (intro section_within_returned) auto
  moreover have "section_within (rubric_ids (po_rubric obs) HardBlockers) (map (\<lambda>i. (i, returned_status w i)) (rubric_ids (po_rubric obs) HardBlockers))
      (section_count_of obs w HardBlockers)"
    unfolding section_count_of_def using assms(1) c returned_status_None [OF assms(2)] by (intro section_within_returned) auto
  moreover have "length (jw_returned w Requirements) \<le> length (rubric_ids (po_rubric obs) Requirements)"
    using c [of Requirements] assms(1) by (metis card_mono distinct_card List.finite_set length_map)
  ultimately show ?thesis by (simp add: within_rubric_def returning_def section_count_of_def)
qed

definition watch_ok :: "progress_observer \<Rightarrow> judge_watch \<Rightarrow> bool" where
  "watch_ok obs w \<longleftrightarrow> counted obs w \<and> (\<forall>p \<in> set (jw_reports w). within_rubric (po_rubric obs) p)"

lemma report_ok:
  assumes "\<forall>sec. distinct (rubric_ids (po_rubric obs) sec)" and "counted obs w"
    and "\<forall>p \<in> set (jw_reports w). within_rubric (po_rubric obs) p"
  shows "watch_ok obs (report_safely (returning obs w) w)"
  using assms within_returning [OF assms(1,2)] by (simp add: watch_ok_def report_safely_def counted_def)

lemma start_over_ok:
  assumes "\<forall>sec. distinct (rubric_ids (po_rubric obs) sec)" and "watch_ok obs w"
  shows "watch_ok obs (start_over obs w)"
  unfolding start_over_def Let_def
  using assms by (intro report_ok) (simp_all add: watch_ok_def counted_def)

lemma section_results_kind: "r \<in> set (section_results sec out) \<Longrightarrow> result_of sec (snd r)"
  by (cases sec) (auto simp: section_results_def)

lemma passed_checks_Some:
  assumes "passed_checks obs w sec item = Some r"
  shows "fst r \<in> set (rubric_ids (po_rubric obs) sec)" and "fst r \<notin> set (map fst (jw_returned w sec))" and "result_of sec (snd r)"
proof -
  from assms obtain partial :: "judge_evidence stage_output" and i res rs where p: "section_results sec partial = (i, res) # rs" "r = (i, res)"
      "i \<in> set (rubric_ids (po_rubric obs) sec)" "map_of (jw_returned w sec) i = None"
    by (auto simp: passed_checks_def split: option.splits list.splits if_splits)
  then show "fst r \<in> set (rubric_ids (po_rubric obs) sec)" "fst r \<notin> set (map fst (jw_returned w sec))"
    by (simp_all add: map_of_eq_None_iff)
  show "result_of sec (snd r)" using section_results_kind [of r sec partial] p(1,2) by simp
qed

lemma item_closed_ok:
  assumes "\<forall>sec. distinct (rubric_ids (po_rubric obs) sec)" and "watch_ok obs w"
  shows "watch_ok obs (progress_item_closed obs x w)"
proof (cases "List.find (\<lambda>s. section_name s = ci_section x) PROGRESS_SECTIONS")
  case None
  then show ?thesis using assms(2) by (simp add: progress_item_closed_def)
next
  case (Some sec)
  show ?thesis
  proof (cases "passed_checks obs w sec (ci_item x)")
    case None
    then show ?thesis using assms(2) Some by (simp add: progress_item_closed_def)
  next
    case r: (Some r)
    let ?w = "w\<lparr>jw_returned := (jw_returned w)(sec := jw_returned w sec @ [r])\<rparr>"
    have "counted obs ?w" using assms(2) passed_checks_Some [OF r] by (auto simp: watch_ok_def counted_def)
    then have "watch_ok obs (report_safely (returning obs ?w) ?w)"
      using assms by (intro report_ok) (simp_all add: watch_ok_def)
    then show ?thesis using Some r by (simp add: progress_item_closed_def Let_def)
  qed
qed

lemma run_call_ok:
  assumes "\<forall>sec. distinct (rubric_ids (po_rubric obs) sec)" and "watch_ok obs w"
  shows "watch_ok obs (run_call obs parse call w)"
proof (cases call)
  case (Invoke lines)
  have "watch_ok obs (w\<lparr>jw_attempt := jw_attempt w + 1\<rparr>)" using assms(2) by (simp add: watch_ok_def counted_def)
  from start_over_ok [OF assms(1) this]
  moreover have "\<forall>x w. watch_ok obs w \<longrightarrow> watch_ok obs (fst (ol_item_closed (progress_listener obs) x w))"
    using item_closed_ok [OF assms(1)] by (simp add: progress_listener_def steady_def)
  moreover have "\<forall>w. watch_ok obs w \<longrightarrow> watch_ok obs (ol_restarted (progress_listener obs) w)"
    using start_over_ok [OF assms(1)] by (simp add: progress_listener_def)
  ultimately have "watch_ok obs (invoke_session obs parse lines w)"
    unfolding invoke_session_def by (rule read_lines_keeps [rotated 2])
  then show ?thesis using Invoke by simp
next
  case (Reject reason)
  then show ?thesis using assms(2) by (simp add: reject_answer_def report_safely_def watch_ok_def counted_def within_rubric_def)
qed

text \<open>C26: Whatever the sessions of a Judge print, every report of returned items lists the blockers and the dimensions of
the rubric in its order, counts exactly those it gives a result, and never counts more than the rubric has.\<close>

theorem progress_within_rubric:
  assumes "\<forall>sec. distinct (rubric_ids (po_rubric obs) sec)" and "p \<in> set (jw_reports (fold (run_call obs parse) calls new_watch))"
  shows "within_rubric (po_rubric obs) p"
proof -
  have "watch_ok obs (fold (run_call obs parse) calls w)" if "watch_ok obs w" for w
    using that by (induction calls arbitrary: w) (simp_all add: run_call_ok [OF assms(1)])
  moreover have "watch_ok obs new_watch" by (simp add: watch_ok_def counted_def new_watch_def)
  ultimately show ?thesis using assms(2) by (simp add: watch_ok_def)
qed

subsection \<open>An accepted answer is counted whole\<close>

definition section_items :: "progress_section \<Rightarrow> closed_item list \<Rightarrow> json list" where
  "section_items sec xs = map ci_item (filter (\<lambda>x. ci_section x = section_name sec) xs)"

text \<open>What the session answers at its end is what it streamed: \<open>JSON.parse\<close> reads a section of the whole as the items it
reads of the section's parts.\<close>

definition streamed_answer :: "json_parse \<Rightarrow> doc list \<Rightarrow> json \<Rightarrow> bool" where
  "streamed_answer parse ds j \<longleftrightarrow>
     (\<exists>kvs. fields_of j = Some kvs \<and>
       (\<forall>sec \<in> set PROGRESS_SECTIONS. map_of kvs (section_name sec) = Some (JArr (section_items sec (member_items parse [] ds)))))"

lemma those_Some: "those ys = Some zs \<longleftrightarrow> ys = map Some zs"
  by (induction ys arbitrary: zs) (auto split: option.splits)

lemma array_of_Some: "array_of f j = Some ys \<longleftrightarrow> (\<exists>xs. j = Some (JArr xs) \<and> list_all2 (\<lambda>x y. f x = Some y) xs ys)"
  by (auto simp: array_of_def those_Some list_all2_conv_all_nth list_eq_iff_nth_eq split: option.splits json.splits)

definition read_alone :: "(string \<times> judge_evidence) list \<Rightarrow> progress_section \<Rightarrow> json \<Rightarrow> string \<times> item_result \<Rightarrow> bool" where
  "read_alone evidence sec x r \<longleftrightarrow>
     (\<exists>p. stage_judge_response_schema (partial_json sec x) = Some p \<and> section_results sec p = [r] \<and> set (evidence_items p) \<subseteq> set evidence)"

lemma section_name_simps: "section_name sec = ''hardBlockers'' \<longleftrightarrow> sec = HardBlockers"
  "section_name sec = ''requirements'' \<longleftrightarrow> sec = Requirements" "section_name sec = ''dimensions'' \<longleftrightarrow> sec = Dimensions"
  by (cases sec; simp)+

lemma find_section: "List.find (\<lambda>s. section_name s = n) PROGRESS_SECTIONS = Some sec \<longleftrightarrow> section_name sec = n"
  by (cases sec) (auto simp: PROGRESS_SECTIONS_def)

lemma find_no_section: "List.find (\<lambda>s. section_name s = n) PROGRESS_SECTIONS = None \<Longrightarrow> section_name sec \<noteq> n"
  using find_section [of n sec] by auto

lemma read_alone_item:
  assumes "pass_fail_item_schema x = Some b" and "\<forall>e \<in> set (gi_evidence b). (gi_id b, e) \<in> set evidence"
    and "sec = HardBlockers \<or> sec = Requirements"
  shows "read_alone evidence sec x (gi_id b, StatusResult (gi_status b))"
proof -
  have "array_of pass_fail_item_schema (Some (JArr [x])) = Some [b]" "array_of pass_fail_item_schema (Some (JArr [])) = Some []"
    "array_of stage_judge_dimension_response_schema (Some (JArr [])) = Some []"
    using assms(1) by (simp_all add: array_of_def)
  then have "stage_judge_response_schema (partial_json sec x) = Some \<lparr>so_dimensions = [],
      so_hard_blockers = (if sec = HardBlockers then [b] else []), so_requirements = (if sec = Requirements then [b] else []),
      so_summary = ''in progress''\<rparr>"
    using assms(3) by (auto simp: stage_judge_response_schema_def partial_json_def Let_def nonempty_of_def)
  then show ?thesis
    using assms(2,3) by (auto simp: read_alone_def section_results_def evidence_items_def)
qed

lemma read_alone_dimension:
  assumes "stage_judge_dimension_response_schema x = Some d" and "\<forall>e \<in> set (gd_evidence d). (gd_id d, e) \<in> set evidence"
  shows "read_alone evidence Dimensions x (gd_id d, GradeResult (gd_grade d))"
proof -
  have "array_of stage_judge_dimension_response_schema (Some (JArr [x])) = Some [d]" "array_of pass_fail_item_schema (Some (JArr [])) = Some []"
    using assms(1) by (simp_all add: array_of_def)
  then have "stage_judge_response_schema (partial_json Dimensions x) = Some \<lparr>so_dimensions = [d],
      so_hard_blockers = [], so_requirements = [], so_summary = ''in progress''\<rparr>"
    by (simp add: stage_judge_response_schema_def partial_json_def Let_def nonempty_of_def)
  then show ?thesis using assms(2) by (auto simp: read_alone_def section_results_def evidence_items_def)
qed

text \<open>What the whole schema reads of a section, it reads of each of its items alone.\<close>

lemma sections_read_alone:
  assumes "stage_judge_response_schema j = Some out" and "fields_of j = Some kvs"
    and "map_of kvs (section_name sec) = Some (JArr xs)"
  shows "list_all2 (read_alone (evidence_items out) sec) xs (section_results sec out)"
proof -
  from assms(1,2) have arrays: "array_of stage_judge_dimension_response_schema (map_of kvs ''dimensions'') = Some (so_dimensions out)"
    "array_of pass_fail_item_schema (map_of kvs ''hardBlockers'') = Some (so_hard_blockers out)"
    "array_of pass_fail_item_schema (map_of kvs ''requirements'') = Some (so_requirements out)"
    by (auto simp: stage_judge_response_schema_def split: Option.bind_splits)
  show ?thesis
  proof (cases sec)
    case HardBlockers
    then have "list_all2 (\<lambda>x b. pass_fail_item_schema x = Some b) xs (so_hard_blockers out)"
      using arrays(2) assms(3) by (auto simp: array_of_Some)
    then have "list_all2 (\<lambda>x b. read_alone (evidence_items out) sec x (gi_id b, StatusResult (gi_status b))) xs (so_hard_blockers out)"
      using HardBlockers
      by (elim list.rel_mono_strong) (rule read_alone_item, auto simp: evidence_items_def)
    then show ?thesis using HardBlockers by (simp add: section_results_def list_all2_map2)
  next
    case Requirements
    then have "list_all2 (\<lambda>x b. pass_fail_item_schema x = Some b) xs (so_requirements out)"
      using arrays(3) assms(3) by (auto simp: array_of_Some)
    then have "list_all2 (\<lambda>x b. read_alone (evidence_items out) sec x (gi_id b, StatusResult (gi_status b))) xs (so_requirements out)"
      using Requirements
      by (elim list.rel_mono_strong) (rule read_alone_item, auto simp: evidence_items_def)
    then show ?thesis using Requirements by (simp add: section_results_def list_all2_map2)
  next
    case Dimensions
    then have "list_all2 (\<lambda>x d. stage_judge_dimension_response_schema x = Some d) xs (so_dimensions out)"
      using arrays(1) assms(3) by (auto simp: array_of_Some)
    then have "list_all2 (\<lambda>x d. read_alone (evidence_items out) Dimensions x (gd_id d, GradeResult (gd_grade d))) xs (so_dimensions out)"
      by (elim list.rel_mono_strong) (rule read_alone_dimension, auto simp: evidence_items_def)
    then show ?thesis using Dimensions by (simp add: section_results_def list_all2_map2)
  qed
qed

text \<open>Of items that are all read, new and accepted, each is counted.\<close>

definition accepts_all :: "progress_observer \<Rightarrow> (string \<times> judge_evidence) list \<Rightarrow> bool" where
  "accepts_all obs evidence \<longleftrightarrow> (\<forall>p. set (evidence_items p) \<subseteq> set evidence \<longrightarrow> po_accepts obs p)"

lemma item_counted:
  assumes "section_name sec = ci_section x" and "read_alone evidence sec (ci_item x) r" and "accepts_all obs evidence"
    and "fst r \<in> set (rubric_ids (po_rubric obs) sec)" and "fst r \<notin> set (map fst (jw_returned w sec))"
  shows "progress_item_closed obs x w =
    (let w' = w\<lparr>jw_returned := (jw_returned w)(sec := jw_returned w sec @ [r])\<rparr> in report_safely (returning obs w') w')"
proof -
  from assms(2,3) obtain p where p: "stage_judge_response_schema (partial_json sec (ci_item x)) = Some p" "section_results sec p = [r]"
      "po_accepts obs p" by (auto simp: read_alone_def accepts_all_def)
  then have "passed_checks obs w sec (ci_item x) = Some r"
    using assms(4,5) by (cases r) (auto simp: passed_checks_def map_of_eq_None_iff)
  moreover have "List.find (\<lambda>s. section_name s = ci_section x) PROGRESS_SECTIONS = Some sec" using assms(1) by (simp add: find_section)
  ultimately show ?thesis by (simp add: progress_item_closed_def)
qed

lemma items_counted:
  assumes "accepts_all obs evidence"
    and "\<forall>sec. list_all2 (read_alone evidence sec) (section_items sec xs) (rs sec)"
    and "\<forall>sec. distinct (map fst (jw_returned w sec @ rs sec)) \<and> set (map fst (rs sec)) \<subseteq> set (rubric_ids (po_rubric obs) sec)"
    and "last (jw_reports w) = returning obs w"
  shows "jw_returned (fold (progress_item_closed obs) xs w) = (\<lambda>sec. jw_returned w sec @ rs sec) \<and>
    jw_attempt (fold (progress_item_closed obs) xs w) = jw_attempt w \<and>
    last (jw_reports (fold (progress_item_closed obs) xs w)) = returning obs (fold (progress_item_closed obs) xs w)"
  using assms(2-4)
proof (induction xs arbitrary: w rs)
  case Nil
  then have "rs = (\<lambda>_. [])" by (auto simp: section_items_def)
  then show ?case using Nil by simp
next
  case (Cons x xs)
  show ?case
  proof (cases "List.find (\<lambda>s. section_name s = ci_section x) PROGRESS_SECTIONS")
    case None
    then have "section_items sec (x # xs) = section_items sec xs" for sec
      using find_no_section [OF None, of sec] by (auto simp: section_items_def)
    then show ?thesis using Cons None by (simp add: progress_item_closed_def)
  next
    case (Some sec)
    then have name: "section_name sec = ci_section x" by (simp add: find_section)
    then have others: "section_items sec' (x # xs) = (if sec' = sec then [ci_item x] else []) @ section_items sec' xs" for sec'
      by (cases sec; cases sec') (auto simp: section_items_def)
    have "list_all2 (read_alone evidence sec) (section_items sec (x # xs)) (rs sec)" using Cons.prems(1) by blast
    then have "list_all2 (read_alone evidence sec) (ci_item x # section_items sec xs) (rs sec)" using others [of sec] by simp
    then obtain r rs' where r: "rs sec = r # rs'" "read_alone evidence sec (ci_item x) r"
        "list_all2 (read_alone evidence sec) (section_items sec xs) rs'"
      unfolding list_all2_Cons1 by blast
    have p: "distinct (map fst (jw_returned w sec @ rs sec))" "set (map fst (rs sec)) \<subseteq> set (rubric_ids (po_rubric obs) sec)"
      using Cons.prems(2) by blast+
    let ?w = "w\<lparr>jw_returned := (jw_returned w)(sec := jw_returned w sec @ [r])\<rparr>"
    let ?w' = "report_safely (returning obs ?w) ?w"
    have closed: "progress_item_closed obs x w = ?w'"
      using item_counted [OF name r(2) assms(1)] p r(1) by (simp add: Let_def)
    have read: "\<forall>sec'. list_all2 (read_alone evidence sec') (section_items sec' xs) ((rs(sec := rs')) sec')"
    proof
      fix sec'
      have "list_all2 (read_alone evidence sec') (section_items sec' (x # xs)) (rs sec')" using Cons.prems(1) by blast
      then show "list_all2 (read_alone evidence sec') (section_items sec' xs) ((rs(sec := rs')) sec')"
        using others [of sec'] r(3) by (cases "sec' = sec") simp_all
    qed
    have new: "\<forall>sec'. distinct (map fst (jw_returned ?w' sec' @ (rs(sec := rs')) sec')) \<and>
        set (map fst ((rs(sec := rs')) sec')) \<subseteq> set (rubric_ids (po_rubric obs) sec')"
    proof
      fix sec'
      have "distinct (map fst (jw_returned w sec' @ rs sec')) \<and> set (map fst (rs sec')) \<subseteq> set (rubric_ids (po_rubric obs) sec')"
        using Cons.prems(2) by blast
      then show "distinct (map fst (jw_returned ?w' sec' @ (rs(sec := rs')) sec')) \<and>
          set (map fst ((rs(sec := rs')) sec')) \<subseteq> set (rubric_ids (po_rubric obs) sec')"
        using r(1) by (cases "sec' = sec") (simp_all add: report_safely_def)
    qed
    have "returning obs ?w' = returning obs ?w"
      by (simp add: returning_def report_safely_def section_count_of_def returned_grade_def returned_status_def)
    then have reported: "last (jw_reports ?w') = returning obs ?w'" by (simp add: report_safely_def)
    have same: "(\<lambda>sec'. jw_returned ?w' sec' @ (rs(sec := rs')) sec') = (\<lambda>sec'. jw_returned w sec' @ rs sec')"
    proof
      fix sec'
      show "jw_returned ?w' sec' @ (rs(sec := rs')) sec' = jw_returned w sec' @ rs sec'"
        using r(1) by (cases "sec' = sec") (simp_all add: report_safely_def)
    qed
    have attempt: "jw_attempt ?w' = jw_attempt w" by (simp add: report_safely_def)
    from Cons.IH [OF read new reported] show ?thesis
      unfolding list.simps fold.simps comp_def closed same attempt .
  qed
qed

text \<open>A graded answer has the items of the rubric.\<close>

lemma graded_ids:
  assumes "fst (read_stage_grade glob (Inr out) i rubric) = Inr g" and "\<forall>sec. distinct (rubric_ids rubric sec)"
  shows "is_ok (checked_stage_evidence glob out i) \<and> mset (map fst (section_results sec out)) = mset (rubric_ids rubric sec)"
proof -
  from assms(1) obtain out' out'' where c: "checked_stage_evidence glob out i = Inr out'"
    and a: "apply_authoritative_stage_results out' i = Inr out''" and d: "derive_stage_grade out'' rubric = Inr g"
    by (auto simp: read_stage_grade_def Let_def res_simps)
  have "distinct (map ri_id (rb_hard_blockers rubric))" "distinct (map ri_id (rb_requirements rubric))" "distinct (map ri_id (rb_dimensions rubric))"
    using assms(2) [rule_format, of HardBlockers] assms(2) [rule_format, of Requirements] assms(2) [rule_format, of Dimensions]
    by (simp_all add: rubric_ids_def)
  from derive_stage_grade_ok [OF this, of out''] d have ids: "mset (map gi_id (so_hard_blockers out'')) = mset (map ri_id (rb_hard_blockers rubric))"
    "mset (map gi_id (so_requirements out'')) = mset (map ri_id (rb_requirements rubric))"
    "mset (map gd_id (so_dimensions out'')) = mset (map ri_id (rb_dimensions rubric))" by simp_all
  have out'': "out'' = out'\<lparr>so_hard_blockers := map (force_blocker (forced_stage_failures i)) (so_hard_blockers out')\<rparr>"
    using authoritative_result [OF a] by blast
  have same: "map gi_id (so_hard_blockers out') = map gi_id (so_hard_blockers out)" "map gi_id (so_requirements out') = map gi_id (so_requirements out)"
    "map gd_id (so_dimensions out') = map gd_id (so_dimensions out)"
    using checked_stage_evidence_recorded [OF c]
    by (auto simp: list_all2_conv_all_nth recorded_item_def recorded_dimension_def intro!: nth_equalityI)
  have "map gi_id (so_hard_blockers out'') = map gi_id (so_hard_blockers out)"
    using same(1) unfolding out'' by (simp add: comp_def)
  moreover have "map gi_id (so_requirements out'') = map gi_id (so_requirements out)" "map gd_id (so_dimensions out'') = map gd_id (so_dimensions out)"
    using same(2,3) unfolding out'' by simp_all
  ultimately show ?thesis using c ids by (cases sec) (simp_all add: section_results_def rubric_ids_def comp_def)
qed

lemma stage_accepts: "is_ok (checked_stage_evidence glob out i) \<Longrightarrow> accepts_all (stage_observer glob i rubric) (evidence_items out)"
  unfolding accepts_all_def stage_observer_def by (auto simp: checked_ok_iff list_all_iff)

text \<open>The last report of an answer whose items are those of the rubric.\<close>

definition full_report :: "stage_rubric \<Rightarrow> judge_evidence stage_output \<Rightarrow> nat \<Rightarrow> judge_progress" where
  "full_report rubric out attempt =
     (let full = (\<lambda>sec. \<lparr>sn_returned = length (rubric_ids rubric sec), sn_total = length (rubric_ids rubric sec)\<rparr>)
      in ProgressReturning attempt
           (Some \<lparr>rt_dimensions = map (\<lambda>i. (i, map_of (map (\<lambda>d. (gd_id d, gd_grade d)) (so_dimensions out)) i)) (rubric_ids rubric Dimensions),
              rt_hard_blockers = map (\<lambda>i. (i, map_of (map (\<lambda>b. (gi_id b, gi_status b)) (so_hard_blockers out)) i)) (rubric_ids rubric HardBlockers)\<rparr>)
           \<lparr>ps_dimensions = full Dimensions, ps_hard_blockers = full HardBlockers, ps_requirements = full Requirements\<rparr>)"

lemma map_of_values: "map_of (map (\<lambda>x. (k x, f (v x))) xs) i = map_option f (map_of (map (\<lambda>x. (k x, v x)) xs) i)"
  by (induction xs) simp_all

lemma returned_grade_of:
  "jw_returned w Dimensions = section_results Dimensions out \<Longrightarrow>
     returned_grade w i = map_of (map (\<lambda>d. (gd_id d, gd_grade d)) (so_dimensions out)) i"
  by (simp add: returned_grade_def section_results_def map_of_values [of gd_id GradeResult gd_grade] split: option.split)

lemma returned_status_of:
  "jw_returned w HardBlockers = section_results HardBlockers out \<Longrightarrow>
     returned_status w i = map_of (map (\<lambda>b. (gi_id b, gi_status b)) (so_hard_blockers out)) i"
  by (simp add: returned_status_def section_results_def map_of_values [of gi_id StatusResult gi_status] split: option.split)

lemma started_over:
  "jw_returned (start_over obs w) = (\<lambda>_. []) \<and> jw_attempt (start_over obs w) = jw_attempt w \<and>
   last (jw_reports (start_over obs w)) = returning obs (start_over obs w)"
  by (simp add: start_over_def Let_def report_safely_def returning_def section_count_of_def returned_grade_def returned_status_def)

text \<open>C11: An answer the stage is graded by has been counted whole by the time it has been streamed: however it is cut into
chunks and whatever the session printed before, the last report has every item of the rubric returned, with the status of
each blocker and the grade of each dimension that the answer gives it.\<close>

theorem accepted_answer_counted:
  assumes "begins_output parse index line" and "\<forall>line \<in> set post. \<nexists>i. begins_output parse i line"
    and "concat (List.map_filter (block_chunk parse index) post) = lead @ doc_text (Object ds) @ trail"
    and "list_all plain_char lead" and "list_all wf_doc ds" and "list_all plain_char trail" and "members_read parse ds"
    and "streamed_answer parse ds j" and "stage_judge_response_schema j = Some out"
    and "fst (read_stage_grade glob (Inr out) i rubric) = Inr g" and "\<forall>sec. distinct (rubric_ids rubric sec)"
  shows "last (jw_reports (invoke_session (stage_observer glob i rubric) parse (pre @ line # post) w)) =
    full_report rubric out (jw_attempt w + 1)"
proof -
  let ?obs = "stage_observer glob i rubric"
  let ?l = "progress_listener ?obs"
  let ?w = "start_over ?obs (w\<lparr>jw_attempt := jw_attempt w + 1\<rparr>)"
  obtain os s where pre: "read_lines parse ?l pre (new_stream, ?w) = (os, s)" by fastforce
  let ?s = "if os_scanner os = None then s else start_over ?obs s"
  have "jw_attempt s = jw_attempt w + 1"
  proof -
    have "jw_attempt (snd (read_lines parse ?l pre (new_stream, ?w))) = jw_attempt w + 1"
      by (rule read_lines_keeps [where Q = "\<lambda>v. jw_attempt v = jw_attempt w + 1"])
        (simp_all add: progress_listener_def steady_def progress_item_closed_def report_safely_def started_over Let_def split: option.split)
    then show ?thesis using pre by simp
  qed
  then have start: "jw_returned ?s = (\<lambda>_. [])" "jw_attempt ?s = jw_attempt w + 1" "last (jw_reports ?s) = returning ?obs ?s"
    using read_lines_unstarted [OF pre] started_over [of ?obs] by auto
  let ?items = "member_items parse [] ds"
  let ?final = "fold (progress_item_closed ?obs) ?items ?s"
  have "invoke_session ?obs parse (pre @ line # post) w = ?final"
    unfolding invoke_session_def read_lines_append pre unfolding progress_listener_def streamed_items [OF assms(1-7)] by simp
  moreover have graded: "is_ok (checked_stage_evidence glob out i)" "mset (map fst (section_results sec out)) = mset (rubric_ids rubric sec)" for sec
    using graded_ids [OF assms(10,11)] by blast+
  moreover obtain kvs where kvs: "fields_of j = Some kvs"
    "\<forall>sec \<in> set PROGRESS_SECTIONS. map_of kvs (section_name sec) = Some (JArr (section_items sec ?items))"
    using assms(8) unfolding streamed_answer_def by blast
  have sections: "sec \<in> set PROGRESS_SECTIONS" for sec by (cases sec) (simp_all add: PROGRESS_SECTIONS_def)
  have read: "\<forall>sec. list_all2 (read_alone (evidence_items out) sec) (section_items sec ?items) (section_results sec out)"
    using sections_read_alone [OF assms(9) kvs(1)] kvs(2) sections by blast
  have ids: "\<forall>sec. distinct (map fst (jw_returned ?s sec @ section_results sec out)) \<and>
      set (map fst (section_results sec out)) \<subseteq> set (rubric_ids (po_rubric ?obs) sec)"
  proof
    fix sec
    have "distinct (map fst (section_results sec out))" "set (map fst (section_results sec out)) = set (rubric_ids rubric sec)"
      using graded(2) [of sec] assms(11) mset_eq_imp_distinct_iff mset_eq_setD by blast+
    then show "distinct (map fst (jw_returned ?s sec @ section_results sec out)) \<and>
        set (map fst (section_results sec out)) \<subseteq> set (rubric_ids (po_rubric ?obs) sec)"
      unfolding start(1) by (simp add: stage_observer_def)
  qed
  from items_counted [OF stage_accepts [OF graded(1)] read ids start(3)]
  have counts: "jw_returned ?final = (\<lambda>sec. section_results sec out)" "jw_attempt ?final = jw_attempt w + 1" "last (jw_reports ?final) = returning ?obs ?final"
    using start(1,2) by simp_all
  have "length (section_results sec out) = length (rubric_ids rubric sec)" for sec
    using graded(2) [of sec] by (metis length_map mset_eq_length)
  then have "returning ?obs ?final = full_report rubric out (jw_attempt w + 1)"
    using counts(1,2) returned_grade_of [of ?final out] returned_status_of [of ?final out]
    by (simp add: returning_def full_report_def section_count_of_def stage_observer_def)
  ultimately show ?thesis using counts(3) by simp
qed

text \<open>A session whose model begins its output twice, the answer cut after forty characters.\<close>

definition sample_item_doc :: doc where
  "sample_item_doc = Object [Quoted ''id'', Plain '': '', Quoted ''false-test-safety'', Plain '', '', Quoted ''status'', Plain '': '',
     Quoted ''PASS'', Plain '', '', Quoted ''evidence'', Plain '': '', Array [Object [Quoted ''claim'', Plain '': '', Quoted ''c'', Plain '', '',
       Quoted ''path'', Plain '': '', Quoted ''Task'', Plain '', '', Quoted ''quote'', Plain '': '', Quoted ''login  page'', Plain '', '',
       Quoted ''source'', Plain '': '', Quoted ''task'']]]"

definition sample_item_json :: json where
  "sample_item_json = JObj [(''id'', JStr ''false-test-safety''), (''status'', JStr ''PASS''), (''evidence'', JArr [JObj [(''claim'', JStr ''c''),
     (''path'', JStr ''Task''), (''quote'', JStr ''login  page''), (''source'', JStr ''task'')]])]"

definition sample_answer_docs :: "doc list" where
  "sample_answer_docs = [Quoted ''hardBlockers'', Plain '': '', Array [sample_item_doc], Plain '', '', Quoted ''requirements'', Plain '': '',
     Array [], Plain '', '', Quoted ''dimensions'', Plain '': '', Array [], Plain '', '', Quoted ''summary'', Plain '': '', Quoted ''s'']"

definition sample_answer_json :: json where
  "sample_answer_json = JObj [(''hardBlockers'', JArr [sample_item_json]), (''requirements'', JArr []), (''dimensions'', JArr []),
     (''summary'', JStr ''s'')]"

definition progress_parse :: json_parse where
  "progress_parse txt =
     (if txt = doc_text sample_item_doc then Some sample_item_json
      else map_of [(''start'', start_json 1 ''StructuredOutput''), (''one'', delta_json 1 (take 40 (doc_text (Object sample_answer_docs)))),
        (''two'', delta_json 1 (drop 40 (doc_text (Object sample_answer_docs)))), (''\"hardBlockers\"'', JStr ''hardBlockers''),
        (''\"requirements\"'', JStr ''requirements''), (''\"dimensions\"'', JStr ''dimensions''), (''\"summary\"'', JStr ''summary''),
        (''\"s\"'', JStr ''s'')] txt)"

lemma accepted_answer_counted_witness:
  "last (jw_reports (invoke_session (stage_observer (\<lambda>_. None) sample_input sample_rubric) progress_parse
      ([''start'', ''one''] @ ''start'' # [''one'', ''two'']) new_watch)) = full_report sample_rubric sample_response 1"
proof -
  have parts: "progress_parse ''start'' = Some (start_json 1 ''StructuredOutput'')"
    "progress_parse ''one'' = Some (delta_json 1 (take 40 (doc_text (Object sample_answer_docs))))"
    "progress_parse ''two'' = Some (delta_json 1 (drop 40 (doc_text (Object sample_answer_docs))))"
    "progress_parse ''\"hardBlockers\"'' = Some (JStr ''hardBlockers'')" "progress_parse ''\"requirements\"'' = Some (JStr ''requirements'')"
    "progress_parse ''\"dimensions\"'' = Some (JStr ''dimensions'')" "progress_parse ''\"summary\"'' = Some (JStr ''summary'')"
    "progress_parse ''\"s\"'' = Some (JStr ''s'')" "progress_parse (doc_text sample_item_doc) = Some sample_item_json"
    by (simp_all add: progress_parse_def sample_item_doc_def)
  have events: "stream_event_of progress_parse ''start'' = Some (BlockStart (Some ''StructuredOutput'') 1)"
    "stream_event_of progress_parse ''one'' = Some (BlockDelta (Some (take 40 (doc_text (Object sample_answer_docs)))) 1)"
    "stream_event_of progress_parse ''two'' = Some (BlockDelta (Some (drop 40 (doc_text (Object sample_answer_docs)))) 1)"
    by (simp_all add: stream_event_of_def parts start_json_def delta_json_def event_schema_def typed_with_def del: doc_text.simps)
  have starts: "begins_output progress_parse 1 ''start''" "\<forall>line \<in> set [''one'', ''two'']. \<nexists>i. begins_output progress_parse i line"
    by (simp_all add: begins_output_def events)
  have chunks: "concat (List.map_filter (block_chunk progress_parse 1) [''one'', ''two'']) = [] @ doc_text (Object sample_answer_docs) @ []"
    by (simp add: List.map_filter_simps block_chunk_def events del: doc_text.simps)
  have wf: "list_all wf_doc sample_answer_docs" by (simp add: sample_answer_docs_def sample_item_doc_def plain_char_def)
  obtain os where item: "sample_item_doc = Object os" by (simp add: sample_item_doc_def)
  have item_parse: "progress_parse (doc_text (Object os)) = Some sample_item_json" using parts(9) item by simp
  have read: "members_read progress_parse sample_answer_docs"
    by (simp add: members_read_def elements_read_def sample_answer_docs_def item item_parse parts(4-8) del: doc_text.simps(3,4))
  have items: "member_items progress_parse [] sample_answer_docs = [\<lparr>ci_section = ''hardBlockers'', ci_item = sample_item_json\<rparr>]"
    by (simp add: element_items_def List.map_filter_simps sample_answer_docs_def item item_parse parts(4-8) del: doc_text.simps(3,4))
  have answer: "streamed_answer progress_parse sample_answer_docs sample_answer_json"
    by (simp add: streamed_answer_def items sample_answer_json_def PROGRESS_SECTIONS_def section_items_def)
  have schema: "stage_judge_response_schema sample_answer_json = Some sample_response" by code_simp
  have "is_ok (fst (read_stage_grade (\<lambda>_. None) (Inr sample_response) sample_input sample_rubric))" by code_simp
  then obtain g where g: "fst (read_stage_grade (\<lambda>_. None) (Inr sample_response) sample_input sample_rubric) = Inr g" by (auto elim: is_okE)
  have ids: "\<forall>sec. distinct (rubric_ids sample_rubric sec)"
    by (simp add: rubric_ids_def sample_rubric_def split: progress_section.split)
  from accepted_answer_counted [OF starts chunks _ wf _ read answer schema g ids, of "[''start'', ''one'']" new_watch]
  show ?thesis by (simp add: new_watch_def)
qed

lemma progress_within_rubric_witness:
  "within_rubric sample_rubric (returning (stage_observer (\<lambda>_. None) sample_input sample_rubric) (new_watch\<lparr>jw_attempt := 1\<rparr>))"
proof -
  let ?obs = "stage_observer (\<lambda>_. None) sample_input sample_rubric"
  have "\<forall>sec. distinct (rubric_ids (po_rubric ?obs) sec)"
    by (simp add: stage_observer_def rubric_ids_def sample_rubric_def split: progress_section.split)
  moreover have "returning ?obs (new_watch\<lparr>jw_attempt := 1\<rparr>) \<in>
      set (jw_reports (fold (run_call ?obs progress_parse) [Invoke [], Reject ''no answer''] new_watch))"
    by (simp add: invoke_session_def read_lines_def start_over_def report_safely_def reject_answer_def new_watch_def)
  ultimately have "within_rubric (po_rubric ?obs) (returning ?obs (new_watch\<lparr>jw_attempt := 1\<rparr>))" by (rule progress_within_rubric)
  then show ?thesis by (simp add: stage_observer_def)
qed

end
