(* ===== verification/LaunchServer.thy ===== *)
theory LaunchServer
  imports LaunchArguments RunReadings RunEnding SpendCeiling "HOL-Library.AList"
begin

text \<open>
  The launches a server starts and stops while it also edits the corpus (\<open>server/launch-execution-routes.ts\<close>,
  \<open>launches-*.ts\<close>, \<open>launch-control-routes.ts\<close>, \<open>launch-stop-recorded.ts\<close>, \<open>corpus-edit-gate.ts\<close> and what
  \<open>launch-corpus-edit-routes.ts\<close> does behind the gate).

  A request is handled in steps: from one \<open>await\<close> to the next nothing else runs, and between them any other request, any
  process and the system may. The state is what the server keeps (the gate and the runs whose analysis starts), the launch
  records on disk and the processes of the system, with the requests in progress. A process has the text \<open>ps\<close> gives its
  start as, and what it was started for.

  Of the system the steps say what the code relies on: a process has a number no live process has, its number and start
  together are not those of an earlier process, and a number is not given again between a launch and the reading of its
  start; \<open>randomUUID\<close> does not repeat; a file handle closes. A write or a reading may fail at any time. What the records of
  runs, cases and comparisons say when a launch is planned is the argument \<open>rds\<close>, new at each planning.

  The server lets a launch record that does not read refuse nothing, so that one corrupt file cannot block every analysis and
  every edit: each listing of the live launches has a set \<open>unread\<close> of ids whose record did not read that time. The two
  history fields of the state keep what an analysis or an edit was admitted over; no step reads them.
\<close>

subsection \<open>Requests and records\<close>

datatype launch_request =
    RequestCase nat string
  | RequestReplay nat string string
  | RequestComparison string string
  | RequestExtension nat string real
  | RequestAnalysis string real

datatype launch_target =
    TargetCase nat string
  | TargetReplay nat string string
  | TargetComparison string string nat string string
  | TargetExtension nat string string string real
  | TargetAnalysis string real

record launch =
  la_argv :: "string list"
  la_target :: launch_target

record launch_record =
  lr_id :: string
  lr_launched_at :: string
  lr_pid :: int
  lr_started_at :: "string option"
  lr_stop_requested_at :: "string option"
  lr_target :: launch_target

record os_process =
  op_started :: string
  op_argv :: "string list"
  op_launch :: "(string \<times> launch_target) option"
  op_signalled :: bool

text \<open>A request in progress, by the next thing it does.\<close>

datatype launch_task =
    Planning launch_request
  | Planned launch_request launch
  | Spawned launch_request launch string string int
  | StartRead launch_request launch string string int "string option"
  | CheckingEdit
  | WritingEdit
  | Stopping launch_record

record launch_server =
  ls_applying :: bool
  ls_starting :: nat
  ls_analyses :: "string set"
  ls_tasks :: "launch_task list"
  ls_records :: "(string \<times> launch_record option) list"
  ls_processes :: "int \<Rightarrow> os_process option"
  ls_starts :: "(int \<times> string) set"
  ls_ids :: "string set"
  ls_unread :: "(string \<times> string) set"
  ls_edit_unread :: "string set"

subsection \<open>Live launches\<close>

definition is_alive :: "launch_server \<Rightarrow> int \<Rightarrow> bool" where
  "is_alive st pid \<longleftrightarrow> ls_processes st pid \<noteq> None"

definition started_at :: "launch_server \<Rightarrow> int \<Rightarrow> string option" where
  "started_at st pid = map_option op_started (ls_processes st pid)"

text \<open>A record whose reading fails, or whose text is not a record, is listed as unreadable and not among the launches.\<close>

definition listed_launch :: "string set \<Rightarrow> launch_server \<Rightarrow> string \<Rightarrow> launch_record option \<Rightarrow> launch_record option" where
  "listed_launch unread st i record =
     (if i \<in> unread then None
      else case record of None \<Rightarrow> None | Some r \<Rightarrow> if is_alive st (lr_pid r) then Some r else None)"

definition live_launches :: "string set \<Rightarrow> launch_server \<Rightarrow> launch_record list" where
  "live_launches unread st = List.map_filter (\<lambda>(i, record). listed_launch unread st i record) (ls_records st)"

subsection \<open>Planning a launch\<close>

datatype plan_failure = PlanRefused launch_refusal | PlanThrew string

record launch_reads =
  rd_roots :: "string list"
  rd_cases :: "string \<Rightarrow> (string + declared_case) option"
  rd_linked_refusal :: "string option"
  rd_runs :: recorded_runs
  rd_settings :: "string + real option"
  rd_group :: "string \<Rightarrow> bool"
  rd_comparison :: "string \<Rightarrow> string \<Rightarrow> string + (string \<times> string \<times> nat)"
  rd_report :: "string \<Rightarrow> bool"
  rd_extension :: "string \<Rightarrow> nat \<Rightarrow> string + (real \<times> string \<times> string)"
  rd_unanalyzable :: "string \<Rightarrow> string option"
  rd_number_text :: "real \<Rightarrow> string"

definition as_launch_refusal :: "launch_reads \<Rightarrow> string + 'a \<Rightarrow> plan_failure + 'a" where
  "as_launch_refusal rds r =
     (case r of Inl message \<Rightarrow> Inl (PlanRefused (RefusedConflict (redactor_for (rd_roots rds) message))) | Inr x \<Rightarrow> Inr x)"

definition refused :: "launch_refusal + 'a \<Rightarrow> plan_failure + 'a" where
  "refused r = (case r of Inl e \<Rightarrow> Inl (PlanRefused e) | Inr x \<Rightarrow> Inr x)"

definition SET_SPEND_CEILING_COMMAND :: string where
  "SET_SPEND_CEILING_COMMAND = ''rehearse settings --spend-ceiling-usd <USD>''"

definition launch_spend_ceiling :: "launch_reads \<Rightarrow> plan_failure + real" where
  "launch_spend_ceiling rds =
     bind_res (as_launch_refusal rds (rd_settings rds)) (\<lambda>ceiling.
       case ceiling of
         None \<Rightarrow> Inl (PlanRefused (RefusedConflict
           (''No spend ceiling is stored, and nothing spends without one. Set it with: '' @ SET_SPEND_CEILING_COMMAND)))
       | Some limit_usd \<Rightarrow> Inr limit_usd)"

definition DEFAULT_ANALYSIS_BUDGET_USD :: real where
  "DEFAULT_ANALYSIS_BUDGET_USD = 1"

definition browser_analysis_cap_usd :: "real \<Rightarrow> plan_failure + real" where
  "browser_analysis_cap_usd limit_usd =
     (case create_spend_ceiling [] limit_usd None of
        (st, i) \<Rightarrow>
          (case budget_for st i DEFAULT_ANALYSIS_BUDGET_USD of
             Inl _ \<Rightarrow> Inl (PlanThrew ''SpendCeilingReachedError'')
           | Inr budget \<Rightarrow> Inr budget))"

definition analysis_in_flight :: "string \<Rightarrow> launch_record list \<Rightarrow> bool" where
  "analysis_in_flight run launches = list_ex (\<lambda>r. case lr_target r of TargetAnalysis run' _ \<Rightarrow> run' = run | _ \<Rightarrow> False) launches"

definition analysis_launch :: "launch_reads \<Rightarrow> launch_record list \<Rightarrow> string \<Rightarrow> real \<Rightarrow> real \<Rightarrow> plan_failure + launch" where
  "analysis_launch rds launches run stated_usd limit_usd =
     (if run \<notin> set (ru_names (rd_runs rds)) then Inl (PlanRefused (RefusedNotFound (''No recorded run '' @ run)))
      else bind_res (as_launch_refusal rds (case rd_unanalyzable rds run of Some m \<Rightarrow> Inl m | None \<Rightarrow> Inr ())) (\<lambda>_.
        if analysis_in_flight run launches
        then Inl (PlanRefused (RefusedConflict (''An analysis of run '' @ run @ '' is already in flight; read its result when it ends'')))
        else bind_res (browser_analysis_cap_usd limit_usd) (\<lambda>cap_usd.
          if cap_usd \<noteq> stated_usd
          then Inl (PlanRefused (RefusedConflict (''An analysis can now spend at most $'' @ to_fixed_2 cap_usd @ '', not the $''
                 @ to_fixed_2 stated_usd @ '' the dialog stated; reopen it to read the current cost'')))
          else Inr \<lparr>la_argv = [''diagnose'', run, ''--model'', ''sonnet'', ''--budget-usd'', rd_number_text rds cap_usd],
                 la_target = TargetAnalysis run cap_usd\<rparr>)))"

definition comparison_launch :: "launch_reads \<Rightarrow> string \<Rightarrow> string \<Rightarrow> plan_failure + launch" where
  "comparison_launch rds arm_a arm_b =
     (case List.find (\<lambda>arm. \<not> rd_group rds arm) [arm_a, arm_b] of
        Some arm \<Rightarrow> Inl (PlanRefused (RefusedNotFound (''No recorded confirmation group '' @ arm)))
      | None \<Rightarrow>
          bind_res (as_launch_refusal rds (rd_comparison rds arm_a arm_b)) (\<lambda>(run, stage, reps).
            Inr \<lparr>la_argv = [''compare'', ''attempts'', ''--arm-a'', arm_a, ''--arm-b'', arm_b, ''--yes'', ''--approved-in-browser''],
              la_target = TargetComparison arm_a arm_b reps run stage\<rparr>))"

definition extension_launch :: "launch_reads \<Rightarrow> nat \<Rightarrow> string \<Rightarrow> real \<Rightarrow> plan_failure + launch" where
  "extension_launch rds attempts comparison stated_usd =
     (if \<not> rd_report rds comparison then Inl (PlanRefused (RefusedNotFound (''No saved comparison '' @ comparison)))
      else bind_res (as_launch_refusal rds (rd_extension rds comparison attempts)) (\<lambda>(cost, run, stage).
        if cost \<noteq> stated_usd
        then Inl (PlanRefused (RefusedConflict (''Adding '' @ show_number attempts @ '' attempts to each arm now costs about $''
               @ to_fixed_2 cost @ '', not the $'' @ to_fixed_2 stated_usd @ '' the dialog stated; reopen it to read the current cost'')))
        else Inr \<lparr>la_argv = [''compare'', ''extend'', ''--comparison'', comparison, ''--attempts'', show_number attempts, ''--yes'',
               ''--approved-in-browser''],
             la_target = TargetExtension attempts comparison run stage cost\<rparr>))"

definition plan_launch :: "launch_reads \<Rightarrow> launch_record list \<Rightarrow> launch_request \<Rightarrow> plan_failure + launch" where
  "plan_launch rds launches request =
     bind_res (launch_spend_ceiling rds) (\<lambda>limit_usd.
       case request of
         RequestCase attempts case_id \<Rightarrow>
           bind_res (refused (case_arguments (rd_roots rds) (rd_cases rds) (rd_linked_refusal rds) case_id attempts))
             (\<lambda>argv. Inr \<lparr>la_argv = argv, la_target = TargetCase attempts case_id\<rparr>)
       | RequestReplay attempts run stage \<Rightarrow>
           bind_res (refused (replay_arguments (rd_roots rds) (rd_runs rds) run stage attempts))
             (\<lambda>argv. Inr \<lparr>la_argv = argv, la_target = TargetReplay attempts run stage\<rparr>)
       | RequestComparison arm_a arm_b \<Rightarrow> comparison_launch rds arm_a arm_b
       | RequestExtension attempts comparison stated_usd \<Rightarrow> extension_launch rds attempts comparison stated_usd
       | RequestAnalysis run stated_usd \<Rightarrow> analysis_launch rds launches run stated_usd limit_usd)"

subsection \<open>Entering and leaving\<close>

fun analysed_run :: "launch_request \<Rightarrow> string option" where
  "analysed_run (RequestAnalysis run _) = Some run"
| "analysed_run _ = None"

definition enter_launch :: "launch_request \<Rightarrow> launch_server \<Rightarrow> launch_refusal + launch_server" where
  "enter_launch request st =
     (case (case analysed_run request of Some run \<Rightarrow> if run \<in> ls_analyses st then Some run else None | None \<Rightarrow> None) of
        Some run \<Rightarrow> Inl (RefusedConflict (''An analysis of run '' @ run @ '' is already starting; try again in a moment''))
      | None \<Rightarrow>
          if ls_applying st
          then Inl (RefusedConflict ''An instruction edit is being applied to the linked corpus; start the launch again in a moment'')
          else Inr (st\<lparr>ls_analyses := ls_analyses st \<union> set_option (analysed_run request), ls_starting := ls_starting st + 1,
                 ls_tasks := ls_tasks st @ [Planning request]\<rparr>))"

definition leave_launch :: "launch_request \<Rightarrow> launch_task list \<Rightarrow> launch_server \<Rightarrow> launch_server" where
  "leave_launch request tasks st =
     st\<lparr>ls_starting := ls_starting st - 1, ls_analyses := ls_analyses st - set_option (analysed_run request), ls_tasks := tasks\<rparr>"

definition enter_edit :: "launch_server \<Rightarrow> launch_refusal + launch_server" where
  "enter_edit st =
     (if ls_applying st
      then Inl (RefusedConflict ''Another instruction edit is being applied; review the edit again once it lands'')
      else if 0 < ls_starting st
      then Inl (RefusedConflict ''A launch is starting; apply the edit again once it has started'')
      else Inr (st\<lparr>ls_applying := True, ls_tasks := ls_tasks st @ [CheckingEdit]\<rparr>))"

definition leave_edit :: "launch_task list \<Rightarrow> launch_server \<Rightarrow> launch_server" where
  "leave_edit tasks st = st\<lparr>ls_applying := False, ls_tasks := tasks\<rparr>"

definition refuse_edit_under_live_launch :: "string set \<Rightarrow> launch_server \<Rightarrow> launch_refusal + unit" where
  "refuse_edit_under_live_launch unread st =
     (if live_launches unread st \<noteq> []
      then Inl (RefusedConflict (''Launch '' @ join_with '', '' (map lr_id (live_launches unread st))
             @ '' is running against the linked corpus; apply the edit once it ends''))
      else Inr ())"

subsection \<open>Processes and records\<close>

definition start_process :: "int \<Rightarrow> os_process \<Rightarrow> launch_server \<Rightarrow> launch_server" where
  "start_process pid p st =
     st\<lparr>ls_processes := (ls_processes st)(pid \<mapsto> p), ls_starts := insert (pid, op_started p) (ls_starts st)\<rparr>"

definition send_stop :: "int \<Rightarrow> launch_server \<Rightarrow> launch_server" where
  "send_stop pid st =
     (case ls_processes st pid of
        None \<Rightarrow> st
      | Some p \<Rightarrow> st\<lparr>ls_processes := (ls_processes st)(pid \<mapsto> p\<lparr>op_signalled := True\<rparr>)\<rparr>)"

definition write_launch_record :: "launch_record \<Rightarrow> launch_server \<Rightarrow> launch_server" where
  "write_launch_record r st = st\<lparr>ls_records := AList.update (lr_id r) (Some r) (ls_records st)\<rparr>"

definition launch_record_of :: "launch \<Rightarrow> string \<Rightarrow> string \<Rightarrow> int \<Rightarrow> string option \<Rightarrow> launch_record" where
  "launch_record_of la i launched_at pid started =
     \<lparr>lr_id = i, lr_launched_at = launched_at, lr_pid = pid, lr_started_at = started, lr_stop_requested_at = None, lr_target = la_target la\<rparr>"

definition running_launch :: "(string \<Rightarrow> bool) \<Rightarrow> launch_server \<Rightarrow> string \<Rightarrow> plan_failure + launch_record" where
  "running_launch is_launch_id st i =
     (case (if is_launch_id i then map_of (ls_records st) i else None) of
        None \<Rightarrow> Inl (PlanRefused (RefusedNotFound (''Unknown launch '' @ i)))
      | Some None \<Rightarrow> Inl (PlanThrew ''ZodError'')
      | Some (Some r) \<Rightarrow>
          (case lr_target r of
             TargetAnalysis _ _ \<Rightarrow>
               Inl (PlanRefused (RefusedConflict (''Launch '' @ i
                 @ '' is a root-cause analysis, one call capped at the cost it stated; stopping it from the browser is not offered'')))
           | _ \<Rightarrow>
               (case lr_started_at r of
                  None \<Rightarrow>
                    Inl (PlanRefused (RefusedConflict (''Launch '' @ i @ '' was recorded without its process start time, so its pid cannot be told from another process''
                      @ CHR 0x27 # ''s. Stop it from a terminal.'')))
                | Some started \<Rightarrow>
                    if started_at st (lr_pid r) \<noteq> Some started
                    then Inl (PlanRefused (RefusedConflict (''Launch '' @ i @ '' is no longer running'')))
                    else Inr r)))"

definition claiming_process ::
    "(string \<Rightarrow> real option) \<Rightarrow> string list \<Rightarrow> (string \<Rightarrow> target_claim option) \<Rightarrow> launch_server \<Rightarrow> string \<Rightarrow> launch_refusal + int" where
  "claiming_process date_parse runs marker st run =
     (if run \<notin> set runs then Inl (RefusedNotFound (''No recorded run '' @ run))
      else (case marker run of
              None \<Rightarrow> Inl (RefusedConflict (''Run '' @ run @ '' is not running''))
            | Some m \<Rightarrow>
                if \<not> is_alive st (tc_pid m) then Inl (RefusedConflict (''Run '' @ run @ '' is not running''))
                else (case started_at st (tc_pid m) of
                        None \<Rightarrow> Inl (RefusedConflict (''Run '' @ run @ '' is not running''))
                      | Some started \<Rightarrow>
                          (case (date_parse (started @ '' UTC''), date_parse (tc_started_at m)) of
                             (Some a, Some b) \<Rightarrow>
                               if a > b then Inl (RefusedConflict (''Run '' @ run @ '' is not running'')) else Inr (tc_pid m)
                           | _ \<Rightarrow> Inr (tc_pid m)))))"

subsection \<open>Steps\<close>

fun spawned_as :: "launch_task \<Rightarrow> (string \<times> int) option" where
  "spawned_as (Spawned _ _ i _ pid) = Some (i, pid)"
| "spawned_as (StartRead _ _ i _ pid _) = Some (i, pid)"
| "spawned_as _ = None"

definition awaits_start :: "launch_server \<Rightarrow> int \<Rightarrow> bool" where
  "awaits_start st pid \<longleftrightarrow> (\<exists>request la i launched_at. Spawned request la i launched_at pid \<in> set (ls_tasks st))"

text \<open>A process the system may start: under a number that no live process has, and not as an earlier process.\<close>

definition may_start :: "launch_server \<Rightarrow> int \<Rightarrow> string \<Rightarrow> bool" where
  "may_start st pid started \<longleftrightarrow> ls_processes st pid = None \<and> (pid, started) \<notin> ls_starts st \<and> \<not> awaits_start st pid"

inductive server_step :: "(string \<Rightarrow> bool) \<Rightarrow> (string \<Rightarrow> real option) \<Rightarrow> launch_server \<Rightarrow> launch_server \<Rightarrow> bool" for is_id date_parse where
  launch_enters: "enter_launch request st = Inr st' \<Longrightarrow> server_step is_id date_parse st st'"
| launch_planned: "ls_tasks st = xs @ Planning request # ys \<Longrightarrow> plan_launch rds (live_launches unread st) request = Inr la \<Longrightarrow>
     server_step is_id date_parse st
       (st\<lparr>ls_tasks := xs @ Planned request la # ys, ls_unread := ls_unread st \<union> set_option (analysed_run request) \<times> unread\<rparr>)"
| plan_refused: "ls_tasks st = xs @ Planning request # ys \<Longrightarrow> server_step is_id date_parse st (leave_launch request (xs @ ys) st)"
| log_fails: "ls_tasks st = xs @ Planned request la # ys \<Longrightarrow> server_step is_id date_parse st (leave_launch request (xs @ ys) st)"
| spawns: "ls_tasks st = xs @ Planned request la # ys \<Longrightarrow> may_start st pid started \<Longrightarrow> i \<notin> ls_ids st \<Longrightarrow>
     server_step is_id date_parse st
       (start_process pid \<lparr>op_started = started, op_argv = LAUNCH_OPTION # i # la_argv la, op_launch = Some (i, la_target la), op_signalled = False\<rparr>
         (st\<lparr>ls_ids := insert i (ls_ids st), ls_tasks := xs @ Spawned request la i launched_at pid # ys\<rparr>))"
| start_reads: "ls_tasks st = xs @ Spawned request la i launched_at pid # ys \<Longrightarrow>
     server_step is_id date_parse st (st\<lparr>ls_tasks := xs @ StartRead request la i launched_at pid (started_at st pid) # ys\<rparr>)"
| start_fails: "ls_tasks st = xs @ Spawned request la i launched_at pid # ys \<Longrightarrow>
     server_step is_id date_parse st (leave_launch request (xs @ ys) (send_stop pid st))"
| records: "ls_tasks st = xs @ StartRead request la i launched_at pid started # ys \<Longrightarrow>
     server_step is_id date_parse st
       (leave_launch request (xs @ ys) (write_launch_record (launch_record_of la i launched_at pid started) st))"
| record_fails: "ls_tasks st = xs @ StartRead request la i launched_at pid started # ys \<Longrightarrow>
     server_step is_id date_parse st (leave_launch request (xs @ ys) (send_stop pid st))"
| edit_enters: "enter_edit st = Inr st' \<Longrightarrow> server_step is_id date_parse st st'"
| edit_checked: "ls_tasks st = xs @ CheckingEdit # ys \<Longrightarrow> refuse_edit_under_live_launch unread st = Inr () \<Longrightarrow>
     server_step is_id date_parse st (st\<lparr>ls_tasks := xs @ WritingEdit # ys, ls_edit_unread := unread\<rparr>)"
| edit_refused: "ls_tasks st = xs @ CheckingEdit # ys \<Longrightarrow> server_step is_id date_parse st (leave_edit (xs @ ys) st)"
| edit_done: "ls_tasks st = xs @ WritingEdit # ys \<Longrightarrow> server_step is_id date_parse st (leave_edit (xs @ ys) st)"
| stop_checked: "running_launch is_id st i = Inr r \<Longrightarrow> server_step is_id date_parse st (st\<lparr>ls_tasks := ls_tasks st @ [Stopping r]\<rparr>)"
| stop_sent: "ls_tasks st = xs @ Stopping r # ys \<Longrightarrow>
     server_step is_id date_parse st
       (send_stop (lr_pid r) (write_launch_record (r\<lparr>lr_stop_requested_at := Some now\<rparr>) (st\<lparr>ls_tasks := xs @ ys\<rparr>)))"
| stop_denied: "ls_tasks st = xs @ Stopping r # ys \<Longrightarrow>
     server_step is_id date_parse st (write_launch_record (r\<lparr>lr_stop_requested_at := Some now\<rparr>) (st\<lparr>ls_tasks := xs @ ys\<rparr>))"
| stop_fails: "ls_tasks st = xs @ Stopping r # ys \<Longrightarrow> server_step is_id date_parse st (st\<lparr>ls_tasks := xs @ ys\<rparr>)"
| run_stopped: "claiming_process date_parse runs marker st run = Inr pid \<Longrightarrow> server_step is_id date_parse st (send_stop pid st)"
| other_starts: "may_start st pid started \<Longrightarrow>
     server_step is_id date_parse st
       (start_process pid \<lparr>op_started = started, op_argv = argv, op_launch = None, op_signalled = False\<rparr> st)"
| process_exits: "server_step is_id date_parse st (st\<lparr>ls_processes := (ls_processes st)(pid := None)\<rparr>)"

text \<open>A launch's target says whether it is an analysis, and of which run.\<close>

fun target_run :: "launch_target \<Rightarrow> string option" where
  "target_run (TargetAnalysis run _) = Some run"
| "target_run _ = None"

definition analyst :: "launch_server \<Rightarrow> int \<Rightarrow> string \<Rightarrow> string \<Rightarrow> bool" where
  "analyst st pid i run \<longleftrightarrow>
     (\<exists>p target. ls_processes st pid = Some p \<and> \<not> op_signalled p \<and> op_launch p = Some (i, target) \<and> target_run target = Some run)"

text \<open>A process of a launch has the number its task or its record has.\<close>

definition launch_at :: "launch_server \<Rightarrow> string \<Rightarrow> int \<Rightarrow> launch_target \<Rightarrow> bool" where
  "launch_at st i pid target \<longleftrightarrow>
     (\<forall>pid' p target'. ls_processes st pid' = Some p \<longrightarrow> op_launch p = Some (i, target') \<longrightarrow> pid' = pid \<and> target' = target)"

text \<open>A number and a start that name a launch name no other process.\<close>

definition names_launch :: "launch_server \<Rightarrow> int \<Rightarrow> string option \<Rightarrow> string \<Rightarrow> launch_target \<Rightarrow> bool" where
  "names_launch st pid started i target \<longleftrightarrow>
     (\<forall>s. started = Some s \<longrightarrow> (pid, s) \<in> ls_starts st \<and>
        (\<forall>p. ls_processes st pid = Some p \<longrightarrow> op_started p = s \<longrightarrow> op_launch p = Some (i, target)))"

text \<open>
  A server that has just started. The launches of an earlier server may still run: each that was not signalled has its
  record, and no two analyse the same run, unless one was admitted while the record of the other did not read. A server that stops while no request is in progress leaves such a state
  (\<open>restart_fresh\<close>); one killed between a spawn and the record of it does not.
\<close>

definition fresh_server :: "launch_server \<Rightarrow> bool" where
  "fresh_server st \<longleftrightarrow> \<not> ls_applying st \<and> ls_starting st = 0 \<and> ls_analyses st = {} \<and> ls_tasks st = [] \<and>
     fst ` set (ls_records st) \<subseteq> ls_ids st \<and>
     (\<forall>pid p. ls_processes st pid = Some p \<longrightarrow> (pid, op_started p) \<in> ls_starts st \<and>
        (\<forall>i target. op_launch p = Some (i, target) \<longrightarrow> i \<in> ls_ids st \<and>
           (\<not> op_signalled p \<longrightarrow> (\<exists>r. map_of (ls_records st) i = Some (Some r))))) \<and>
     (\<forall>i r. map_of (ls_records st) i = Some (Some r) \<longrightarrow> lr_id r = i \<and> launch_at st i (lr_pid r) (lr_target r) \<and>
        names_launch st (lr_pid r) (lr_started_at r) i (lr_target r)) \<and>
     (\<forall>pid pid' i i' run. analyst st pid i run \<longrightarrow> analyst st pid' i' run \<longrightarrow>
        pid = pid' \<or> (run, i) \<in> ls_unread st \<or> (run, i') \<in> ls_unread st)"

definition server_reaches :: "(string \<Rightarrow> bool) \<Rightarrow> (string \<Rightarrow> real option) \<Rightarrow> launch_server \<Rightarrow> bool" where
  "server_reaches is_id date_parse st \<longleftrightarrow> (\<exists>st0. fresh_server st0 \<and> (server_step is_id date_parse)\<^sup>*\<^sup>* st0 st)"

subsection \<open>What holds throughout\<close>

fun launching :: "launch_task \<Rightarrow> launch_request option" where
  "launching (Planning request) = Some request"
| "launching (Planned request _) = Some request"
| "launching (Spawned request _ _ _ _) = Some request"
| "launching (StartRead request _ _ _ _ _) = Some request"
| "launching _ = None"

definition analyses :: "string \<Rightarrow> launch_task \<Rightarrow> bool" where
  "analyses run t \<longleftrightarrow> (\<exists>request. launching t = Some request \<and> analysed_run request = Some run)"

fun editing :: "launch_task \<Rightarrow> bool" where
  "editing CheckingEdit = True"
| "editing WritingEdit = True"
| "editing _ = False"

definition gate_kept :: "launch_server \<Rightarrow> bool" where
  "gate_kept st \<longleftrightarrow>
     ls_starting st = length (filter (\<lambda>t. launching t \<noteq> None) (ls_tasks st)) \<and>
     length (filter editing (ls_tasks st)) = (if ls_applying st then 1 else 0) \<and>
     (ls_applying st \<longrightarrow> ls_starting st = 0) \<and>
     (\<forall>run. length (filter (analyses run) (ls_tasks st)) = (if run \<in> ls_analyses st then 1 else 0))"

lemma analyses_launching: "analyses run t \<Longrightarrow> launching t \<noteq> None"
  by (auto simp: analyses_def)

lemma analyses_simps [simp]:
  "analyses run (Planning request) \<longleftrightarrow> analysed_run request = Some run"
  "analyses run (Planned request la) \<longleftrightarrow> analysed_run request = Some run"
  "analyses run (Spawned request la i launched_at pid) \<longleftrightarrow> analysed_run request = Some run"
  "analyses run (StartRead request la i launched_at pid s) \<longleftrightarrow> analysed_run request = Some run"
  "\<not> analyses run CheckingEdit" "\<not> analyses run WritingEdit" "\<not> analyses run (Stopping r)"
  by (simp_all add: analyses_def)

lemmas step_defs = enter_launch_def leave_launch_def enter_edit_def leave_edit_def start_process_def write_launch_record_def

lemma send_stop_keeps [simp]:
  "ls_tasks (send_stop pid st) = ls_tasks st" "ls_applying (send_stop pid st) = ls_applying st"
  "ls_starting (send_stop pid st) = ls_starting st" "ls_analyses (send_stop pid st) = ls_analyses st"
  "ls_records (send_stop pid st) = ls_records st" "ls_starts (send_stop pid st) = ls_starts st" "ls_ids (send_stop pid st) = ls_ids st"
  "ls_unread (send_stop pid st) = ls_unread st" "ls_edit_unread (send_stop pid st) = ls_edit_unread st"
  by (simp_all add: send_stop_def split: option.split)

lemma gate_step:
  assumes "server_step is_id date_parse st st'" and "gate_kept st"
  shows "gate_kept st'"
  using assms
proof cases
  case (launch_enters request)
  then show ?thesis using assms(2)
    by (cases "analysed_run request") (auto simp: gate_kept_def enter_launch_def split: if_splits)
next
  case (edit_enters)
  then show ?thesis using assms(2) by (auto simp: gate_kept_def enter_edit_def split: if_splits)
qed (use assms(2) in \<open>auto simp: gate_kept_def leave_launch_def leave_edit_def start_process_def write_launch_record_def split: if_splits\<close>)

end
