(* ===== verification/LaunchSafety.thy ===== *)
theory LaunchSafety
  imports LaunchServer
begin

text \<open>
  What holds in every state a server of launches reaches: an analysis of a run is alone, an edit of the corpus is not made
  under a launch, and a stop names the process its launch started.
\<close>

subsection \<open>What holds of processes, records and requests\<close>

fun task_launch :: "launch_task \<Rightarrow> (launch_request \<times> launch) option" where
  "task_launch (Planned request la) = Some (request, la)"
| "task_launch (Spawned request la _ _ _) = Some (request, la)"
| "task_launch (StartRead request la _ _ _ _) = Some (request, la)"
| "task_launch _ = None"

lemma plan_target: "plan_launch rds launches request = Inr la \<Longrightarrow> target_run (la_target la) = analysed_run request"
  by (cases request)
    (auto simp: plan_launch_def analysis_launch_def comparison_launch_def extension_launch_def res_simps split: if_splits option.splits prod.splits)

lemma plan_not_in_flight: "plan_launch rds launches request = Inr la \<Longrightarrow> analysed_run request = Some run \<Longrightarrow> \<not> analysis_in_flight run launches"
  by (cases request) (auto simp: plan_launch_def analysis_launch_def res_simps split: if_splits option.splits)

definition targets_kept :: "launch_server \<Rightarrow> bool" where
  "targets_kept st \<longleftrightarrow> (\<forall>t \<in> set (ls_tasks st). \<forall>request la. task_launch t = Some (request, la) \<longrightarrow> target_run (la_target la) = analysed_run request)"

definition ids_known :: "launch_server \<Rightarrow> bool" where
  "ids_known st \<longleftrightarrow> fst ` set (ls_records st) \<subseteq> ls_ids st \<and>
     (\<forall>t \<in> set (ls_tasks st). \<forall>i pid. spawned_as t = Some (i, pid) \<longrightarrow> i \<in> ls_ids st) \<and>
     (\<forall>pid p i target. ls_processes st pid = Some p \<longrightarrow> op_launch p = Some (i, target) \<longrightarrow> i \<in> ls_ids st)"

definition ids_apart :: "launch_server \<Rightarrow> bool" where
  "ids_apart st \<longleftrightarrow> distinct (List.map_filter (\<lambda>t. map_option fst (spawned_as t)) (ls_tasks st)) \<and>
     (\<forall>t \<in> set (ls_tasks st). \<forall>i pid. spawned_as t = Some (i, pid) \<longrightarrow> map_of (ls_records st) i = None)"

definition starts_known :: "launch_server \<Rightarrow> bool" where
  "starts_known st \<longleftrightarrow> (\<forall>pid p. ls_processes st pid = Some p \<longrightarrow> (pid, op_started p) \<in> ls_starts st)"

definition tasks_kept :: "launch_server \<Rightarrow> bool" where
  "tasks_kept st \<longleftrightarrow>
     (\<forall>request la i launched_at pid. Spawned request la i launched_at pid \<in> set (ls_tasks st) \<longrightarrow>
        launch_at st i pid (la_target la) \<and> (\<forall>p. ls_processes st pid = Some p \<longrightarrow> op_launch p = Some (i, la_target la))) \<and>
     (\<forall>request la i launched_at pid started. StartRead request la i launched_at pid started \<in> set (ls_tasks st) \<longrightarrow>
        launch_at st i pid (la_target la) \<and> names_launch st pid started i (la_target la)) \<and>
     (\<forall>r. Stopping r \<in> set (ls_tasks st) \<longrightarrow> (\<exists>r0. map_of (ls_records st) (lr_id r) = Some (Some r0) \<and>
        lr_pid r0 = lr_pid r \<and> lr_target r0 = lr_target r \<and> lr_started_at r0 = lr_started_at r))"

definition records_kept :: "launch_server \<Rightarrow> bool" where
  "records_kept st \<longleftrightarrow>
     (\<forall>i r. map_of (ls_records st) i = Some (Some r) \<longrightarrow> lr_id r = i \<and> launch_at st i (lr_pid r) (lr_target r) \<and>
        names_launch st (lr_pid r) (lr_started_at r) i (lr_target r))"

definition launches_known :: "launch_server \<Rightarrow> bool" where
  "launches_known st \<longleftrightarrow>
     (\<forall>pid p i target. ls_processes st pid = Some p \<longrightarrow> op_launch p = Some (i, target) \<longrightarrow> \<not> op_signalled p \<longrightarrow>
        (\<exists>r. map_of (ls_records st) i = Some (Some r)) \<or> (\<exists>t \<in> set (ls_tasks st). spawned_as t = Some (i, pid)))"

definition server_kept :: "launch_server \<Rightarrow> bool" where
  "server_kept st \<longleftrightarrow> gate_kept st \<and> targets_kept st \<and> ids_known st \<and> ids_apart st \<and> starts_known st \<and> tasks_kept st \<and>
     records_kept st \<and> launches_known st"

lemma targets_step:
  assumes "server_step is_id date_parse st st'" and "targets_kept st"
  shows "targets_kept st'"
  using assms(1)
proof cases
  case (launch_planned xs request ys rds unread la)
  then show ?thesis using assms(2) plan_target [of rds "live_launches unread st" request la] by (auto simp: targets_kept_def)
qed (use assms(2) in \<open>auto simp: targets_kept_def step_defs split: if_splits option.splits\<close>)

lemma starts_step:
  assumes "server_step is_id date_parse st st'" and "starts_known st"
  shows "starts_known st'"
  using assms(1)
proof cases
qed (use assms(2) in \<open>auto simp: starts_known_def step_defs send_stop_def split: if_splits option.splits\<close>)

lemma records_id: "map_of (ls_records st) i = Some (Some r) \<Longrightarrow> ids_known st \<Longrightarrow> i \<in> ls_ids st"
  by (force simp: ids_known_def dest: map_of_SomeD)

lemma processes_simps [simp]:
  "ls_processes (send_stop pid st) pid' = (if pid' = pid then map_option (\<lambda>p. p\<lparr>op_signalled := True\<rparr>) (ls_processes st pid) else ls_processes st pid')"
  "ls_processes (leave_launch request ts st) = ls_processes st" "ls_processes (leave_edit ts st) = ls_processes st"
  "ls_processes (write_launch_record r st) = ls_processes st"
  "ls_processes (start_process pid p st) = (ls_processes st)(pid \<mapsto> p)"
  by (simp_all add: send_stop_def leave_launch_def leave_edit_def write_launch_record_def start_process_def split: option.split)

lemma starts_simps [simp]:
  "ls_starts (leave_launch request ts st) = ls_starts st" "ls_starts (leave_edit ts st) = ls_starts st"
  "ls_starts (write_launch_record r st) = ls_starts st" "ls_starts (start_process pid p st) = insert (pid, op_started p) (ls_starts st)"
  by (simp_all add: leave_launch_def leave_edit_def write_launch_record_def start_process_def)

lemma records_simps [simp]:
  "ls_records (leave_launch request ts st) = ls_records st" "ls_records (leave_edit ts st) = ls_records st"
  "ls_records (start_process pid p st) = ls_records st"
  "map_of (ls_records (write_launch_record r st)) = (map_of (ls_records st))(lr_id r \<mapsto> Some r)"
  "fst ` set (ls_records (write_launch_record r st)) = insert (lr_id r) (fst ` set (ls_records st))"
  by (simp_all add: leave_launch_def leave_edit_def write_launch_record_def start_process_def update_conv' dom_update)

lemma tasks_simps [simp]:
  "ls_tasks (leave_launch request ts st) = ts" "ls_tasks (leave_edit ts st) = ts" "ls_tasks (start_process pid p st) = ls_tasks st"
  "ls_tasks (write_launch_record r st) = ls_tasks st"
  "ls_ids (leave_launch request ts st) = ls_ids st" "ls_ids (leave_edit ts st) = ls_ids st" "ls_ids (start_process pid p st) = ls_ids st"
  "ls_ids (write_launch_record r st) = ls_ids st"
  by (simp_all add: leave_launch_def leave_edit_def write_launch_record_def start_process_def)

lemma entered:
  "enter_launch request st = Inr st' \<Longrightarrow> ls_processes st' = ls_processes st \<and> ls_starts st' = ls_starts st \<and>
     ls_records st' = ls_records st \<and> ls_ids st' = ls_ids st \<and> ls_tasks st' = ls_tasks st @ [Planning request]"
  "enter_edit st = Inr st' \<Longrightarrow> ls_processes st' = ls_processes st \<and> ls_starts st' = ls_starts st \<and>
     ls_records st' = ls_records st \<and> ls_ids st' = ls_ids st \<and> ls_tasks st' = ls_tasks st @ [CheckingEdit]"
  by (auto simp: enter_launch_def enter_edit_def split: if_splits option.splits)

text \<open>What a change of the processes keeps of a launch.\<close>

lemma launch_at_cong: "ls_processes st' = ls_processes st \<Longrightarrow> launch_at st' i pid target \<longleftrightarrow> launch_at st i pid target"
  by (simp add: launch_at_def)

lemma names_launch_cong:
  "ls_processes st' = ls_processes st \<Longrightarrow> ls_starts st' = ls_starts st \<Longrightarrow> names_launch st' pid s i target \<longleftrightarrow> names_launch st pid s i target"
  by (simp add: names_launch_def)

definition newly_launched :: "launch_server \<Rightarrow> launch_server \<Rightarrow> int \<Rightarrow> string \<Rightarrow> launch_target \<Rightarrow> bool" where
  "newly_launched st st' pid i target \<longleftrightarrow>
     (\<exists>xs ys request la launched_at. ls_tasks st = xs @ Planned request la # ys \<and> target = la_target la \<and>
        ls_tasks st' = xs @ Spawned request la i launched_at pid # ys \<and>
        (\<forall>pid'. pid' \<noteq> pid \<longrightarrow> ls_processes st' pid' = ls_processes st pid'))"

definition processes_from :: "launch_server \<Rightarrow> launch_server \<Rightarrow> bool" where
  "processes_from st st' \<longleftrightarrow> ls_starts st \<subseteq> ls_starts st' \<and>
     (\<forall>pid p'. ls_processes st' pid = Some p' \<longrightarrow>
        (\<exists>p. ls_processes st pid = Some p \<and> op_launch p = op_launch p' \<and> op_started p = op_started p' \<and> (op_signalled p \<longrightarrow> op_signalled p')) \<or>
        (ls_processes st pid = None \<and> (pid, op_started p') \<notin> ls_starts st \<and> \<not> awaits_start st pid \<and>
           (case op_launch p' of None \<Rightarrow> True
            | Some (i, target) \<Rightarrow> i \<notin> ls_ids st \<and> \<not> op_signalled p' \<and> newly_launched st st' pid i target)))"

lemma step_processes:
  assumes "server_step is_id date_parse st st'"
  shows "processes_from st st'"
  using assms
proof cases
  case (spawns xs request la ys pid started i launched_at)
  have "(\<exists>p. ls_processes st q = Some p \<and> op_launch p = op_launch p' \<and> op_started p = op_started p' \<and> (op_signalled p \<longrightarrow> op_signalled p')) \<or>
      (ls_processes st q = None \<and> (q, op_started p') \<notin> ls_starts st \<and> \<not> awaits_start st q \<and>
         (case op_launch p' of None \<Rightarrow> True
          | Some (i, target) \<Rightarrow> i \<notin> ls_ids st \<and> \<not> op_signalled p' \<and> newly_launched st st' q i target))"
    if p': "ls_processes st' q = Some p'" for q p'
  proof (cases "q = pid")
    case True
    then have "p' = \<lparr>op_started = started, op_argv = LAUNCH_OPTION # i # la_argv la, op_launch = Some (i, la_target la), op_signalled = False\<rparr>"
      using p' spawns(1) by simp
    moreover have "newly_launched st st' q i (la_target la)"
      unfolding newly_launched_def using spawns(1,2) True
      by (intro exI [of _ xs] exI [of _ ys] exI [of _ request] exI [of _ la] exI [of _ launched_at]) simp
    ultimately show ?thesis using spawns(3,4) True by (simp add: may_start_def)
  next
    case False
    then show ?thesis using p' spawns(1) by simp
  qed
  then show ?thesis using spawns(1) unfolding processes_from_def by auto
next
  case (other_starts pid started argv)
  then show ?thesis unfolding processes_from_def may_start_def by (auto split: if_splits)
next
  case (launch_enters request)
  then show ?thesis using entered(1) [of request st st'] by (simp add: processes_from_def)
next
  case edit_enters
  then show ?thesis using entered(2) [of st st'] by (simp add: processes_from_def)
next
  case (process_exits pid)
  then show ?thesis by (auto simp: processes_from_def split: if_splits)
next
  case (start_fails xs request la i launched_at pid ys)
  then show ?thesis by (auto simp: processes_from_def split: if_splits)
next
  case (record_fails xs request la i launched_at pid started ys)
  then show ?thesis by (auto simp: processes_from_def split: if_splits)
next
  case (stop_sent xs r ys now)
  then show ?thesis by (auto simp: processes_from_def split: if_splits)
next
  case (run_stopped runs marker run pid)
  then show ?thesis by (auto simp: processes_from_def split: if_splits)
qed (simp_all add: processes_from_def)

lemma launch_at_from: "processes_from st st' \<Longrightarrow> launch_at st i pid target \<Longrightarrow> i \<in> ls_ids st \<Longrightarrow> launch_at st' i pid target"
  unfolding launch_at_def processes_from_def by (elim conjE, intro allI impI) (fastforce split: option.splits)

lemma names_launch_from: "processes_from st st' \<Longrightarrow> names_launch st pid started i target \<Longrightarrow> names_launch st' pid started i target"
  unfolding names_launch_def processes_from_def by (elim conjE, intro allI impI) (metis subsetD)

lemma own_process_from:
  assumes "processes_from st st'" and "\<forall>p. ls_processes st pid = Some p \<longrightarrow> op_launch p = Some l" and "awaits_start st pid"
    and "ls_processes st' pid = Some p"
  shows "op_launch p = Some l"
  using assms unfolding processes_from_def by metis

text \<open>What a step changes of the records and of the requests in progress.\<close>

definition recorded_now :: "launch_server \<Rightarrow> launch_server \<Rightarrow> bool" where
  "recorded_now st st' \<longleftrightarrow>
     (\<exists>xs request la i launched_at pid started ys. ls_tasks st = xs @ StartRead request la i launched_at pid started # ys \<and> ls_tasks st' = xs @ ys \<and>
       map_of (ls_records st') = (map_of (ls_records st))(i \<mapsto> Some (launch_record_of la i launched_at pid started)) \<and>
       fst ` set (ls_records st') = insert i (fst ` set (ls_records st)))"

definition stop_recorded :: "launch_server \<Rightarrow> launch_server \<Rightarrow> bool" where
  "stop_recorded st st' \<longleftrightarrow>
     (\<exists>xs r ys now. ls_tasks st = xs @ Stopping r # ys \<and> ls_tasks st' = xs @ ys \<and>
       map_of (ls_records st') = (map_of (ls_records st))(lr_id r \<mapsto> Some (r\<lparr>lr_stop_requested_at := Some now\<rparr>)) \<and>
       fst ` set (ls_records st') = insert (lr_id r) (fst ` set (ls_records st)))"

lemma step_records:
  assumes "server_step is_id date_parse st st'"
  shows "ls_records st' = ls_records st \<or> recorded_now st st' \<or> stop_recorded st st'"
  using assms
proof cases
  case (records xs request la i launched_at pid started ys)
  then have "map_of (ls_records st') = (map_of (ls_records st))(i \<mapsto> Some (launch_record_of la i launched_at pid started))"
    "fst ` set (ls_records st') = insert i (fst ` set (ls_records st))" by (simp_all add: launch_record_of_def)
  moreover have "recorded_now st st'"
    unfolding recorded_now_def using records(2) calculation unfolding records(1)
    by (intro exI [of _ xs] exI [of _ request] exI [of _ la] exI [of _ i] exI [of _ launched_at] exI [of _ pid] exI [of _ started] exI [of _ ys]) simp
  ultimately show ?thesis by blast
next
  case (stop_sent xs r ys now)
  then have "map_of (ls_records st') = (map_of (ls_records st))(lr_id r \<mapsto> Some (r\<lparr>lr_stop_requested_at := Some now\<rparr>))"
    "fst ` set (ls_records st') = insert (lr_id r) (fst ` set (ls_records st))"
    by (simp_all add: write_launch_record_def update_conv' dom_update)
  then have "stop_recorded st st'"
    unfolding stop_recorded_def using stop_sent by (intro exI [of _ xs] exI [of _ r] exI [of _ ys] exI [of _ now]) simp
  then show ?thesis by blast
next
  case (stop_denied xs r ys now)
  then have "map_of (ls_records st') = (map_of (ls_records st))(lr_id r \<mapsto> Some (r\<lparr>lr_stop_requested_at := Some now\<rparr>))"
    "fst ` set (ls_records st') = insert (lr_id r) (fst ` set (ls_records st))"
    by (simp_all add: write_launch_record_def update_conv' dom_update)
  then have "stop_recorded st st'"
    unfolding stop_recorded_def using stop_denied by (intro exI [of _ xs] exI [of _ r] exI [of _ ys] exI [of _ now]) simp
  then show ?thesis by blast
qed (use entered in simp_all)

lemma step_tasks:
  assumes "server_step is_id date_parse st st'" and "t \<in> set (ls_tasks st')"
  shows "t \<in> set (ls_tasks st) \<or> spawned_as t = None \<and> (\<forall>r. t = Stopping r \<longrightarrow> (\<exists>i. running_launch is_id st i = Inr r)) \<or>
    (\<exists>xs ys request la i launched_at pid started. t = Spawned request la i launched_at pid \<and> may_start st pid started \<and> i \<notin> ls_ids st \<and>
       i \<in> ls_ids st' \<and> ls_processes st' = (ls_processes st)(pid \<mapsto> \<lparr>op_started = started, op_argv = LAUNCH_OPTION # i # la_argv la,
         op_launch = Some (i, la_target la), op_signalled = False\<rparr>) \<and> ls_tasks st = xs @ Planned request la # ys) \<or>
    (\<exists>request la i launched_at pid. t = StartRead request la i launched_at pid (started_at st pid) \<and>
       Spawned request la i launched_at pid \<in> set (ls_tasks st))"
  using assms(1)
proof cases
  case (spawns xs request la ys pid started i launched_at)
  show ?thesis
  proof (cases "t = Spawned request la i launched_at pid")
    case True
    then show ?thesis using spawns by (intro disjI2 disjI1) auto
  next
    case False
    then show ?thesis using spawns assms(2) by auto
  qed
next
  case (start_reads xs request la i launched_at pid ys)
  then show ?thesis using assms(2) by auto
next
  case (stop_checked i r)
  then show ?thesis using assms(2) by auto
next
  case (launch_enters request)
  then show ?thesis using assms(2) entered(1) [of request st st'] by auto
next
  case edit_enters
  then show ?thesis using assms(2) entered(2) [of st st'] by auto
qed (use assms(2) in auto)

lemma step_ids: "server_step is_id date_parse st st' \<Longrightarrow> ls_ids st \<subseteq> ls_ids st'"
  by (induction rule: server_step.induct) (auto dest: entered)

lemma recorded_nowE:
  assumes "recorded_now st st'"
  obtains xs request la i launched_at pid started ys where
    "ls_tasks st = xs @ StartRead request la i launched_at pid started # ys" "ls_tasks st' = xs @ ys"
    "map_of (ls_records st') = (map_of (ls_records st))(i \<mapsto> Some (launch_record_of la i launched_at pid started))"
    "fst ` set (ls_records st') = insert i (fst ` set (ls_records st))" "StartRead request la i launched_at pid started \<in> set (ls_tasks st)"
  using assms unfolding recorded_now_def by (metis in_set_conv_decomp)

lemma stop_recordedE:
  assumes "stop_recorded st st'"
  obtains xs r ys now where "ls_tasks st = xs @ Stopping r # ys" "ls_tasks st' = xs @ ys"
    "map_of (ls_records st') = (map_of (ls_records st))(lr_id r \<mapsto> Some (r\<lparr>lr_stop_requested_at := Some now\<rparr>))"
    "fst ` set (ls_records st') = insert (lr_id r) (fst ` set (ls_records st))" "Stopping r \<in> set (ls_tasks st)"
  using assms unfolding stop_recorded_def by (metis in_set_conv_decomp)

lemma newly_launchedE:
  assumes "newly_launched st st' pid i target"
  obtains xs ys request la launched_at where "ls_tasks st = xs @ Planned request la # ys" "target = la_target la"
    "ls_tasks st' = xs @ Spawned request la i launched_at pid # ys" "\<forall>pid'. pid' \<noteq> pid \<longrightarrow> ls_processes st' pid' = ls_processes st pid'"
    "Spawned request la i launched_at pid \<in> set (ls_tasks st')"
  using assms unfolding newly_launched_def by (metis in_set_conv_decomp)

lemma ids_task: "ids_known st \<Longrightarrow> t \<in> set (ls_tasks st) \<Longrightarrow> spawned_as t = Some (i, pid) \<Longrightarrow> i \<in> ls_ids st"
  unfolding ids_known_def by blast

lemma ids_process: "ids_known st \<Longrightarrow> ls_processes st pid = Some p \<Longrightarrow> op_launch p = Some (i, target) \<Longrightarrow> i \<in> ls_ids st"
  unfolding ids_known_def by blast

lemma ids_step:
  assumes step: "server_step is_id date_parse st st'" and "ids_known st" and "tasks_kept st"
  shows "ids_known st'"
proof -
  note ids = step_ids [OF step]
  have old: "fst ` set (ls_records st) \<subseteq> ls_ids st" using assms(2) by (simp add: ids_known_def)
  have records: "fst ` set (ls_records st') \<subseteq> ls_ids st'"
    using step_records [OF step]
  proof (elim disjE)
    assume "ls_records st' = ls_records st"
    then show ?thesis using old ids by simp
  next
    assume "recorded_now st st'"
    then show ?thesis
    proof (rule recorded_nowE)
      fix request la i launched_at pid started
      assume r: "StartRead request la i launched_at pid started \<in> set (ls_tasks st)"
        "fst ` set (ls_records st') = insert i (fst ` set (ls_records st))"
      have "i \<in> ls_ids st" using ids_task [OF assms(2) r(1)] by simp
      then show ?thesis unfolding r(2) using old ids by blast
    qed
  next
    assume "stop_recorded st st'"
    then obtain xs r ys now where r: "ls_tasks st = xs @ Stopping r # ys" "ls_tasks st' = xs @ ys"
        "map_of (ls_records st') = (map_of (ls_records st))(lr_id r \<mapsto> Some (r\<lparr>lr_stop_requested_at := Some now\<rparr>))"
        "fst ` set (ls_records st') = insert (lr_id r) (fst ` set (ls_records st))" "Stopping r \<in> set (ls_tasks st)"
      by (rule stop_recordedE)
    then obtain r0 where "map_of (ls_records st) (lr_id r) = Some (Some r0)" using assms(3) unfolding tasks_kept_def by blast
    then have "lr_id r \<in> ls_ids st" using records_id assms(2) by blast
    then show ?thesis unfolding r(4) using old ids by blast
  qed
  have tasks: "i \<in> ls_ids st'" if "t \<in> set (ls_tasks st')" "spawned_as t = Some (i, pid)" for t i pid
    using step_tasks [OF step that(1)]
  proof (elim disjE)
    assume "t \<in> set (ls_tasks st)"
    then show ?thesis using ids_task [OF assms(2) _ that(2)] ids by blast
  next
    assume "\<exists>request la i launched_at pid. t = StartRead request la i launched_at pid (started_at st pid) \<and>
       Spawned request la i launched_at pid \<in> set (ls_tasks st)"
    then show ?thesis using ids_task [OF assms(2)] that(2) ids by fastforce
  qed (use that(2) in auto)
  have processes: "i \<in> ls_ids st'" if "ls_processes st' pid = Some p" "op_launch p = Some (i, target)" for pid p i target
  proof -
    have "(\<exists>q. ls_processes st pid = Some q \<and> op_launch q = op_launch p) \<or> newly_launched st st' pid i target"
      using step_processes [OF step] that unfolding processes_from_def by fastforce
    then show ?thesis
    proof
      assume "\<exists>q. ls_processes st pid = Some q \<and> op_launch q = op_launch p"
      then show ?thesis using ids_process [OF assms(2)] that(2) ids by auto
    next
      assume "newly_launched st st' pid i target"
      then show ?thesis
      proof (rule newly_launchedE)
        fix request la launched_at
        assume "Spawned request la i launched_at pid \<in> set (ls_tasks st')"
        then show ?thesis using tasks [of "Spawned request la i launched_at pid" i pid] by simp
      qed
    qed
  qed
  show ?thesis unfolding ids_known_def using records tasks processes by blast
qed

lemma filter_spawned_append:
  "List.map_filter f (xs @ ys) = List.map_filter f xs @ List.map_filter f ys"
  by (simp add: List.map_filter_def)

lemma apart_tasks:
  assumes "server_step is_id date_parse st st'" and "ids_known st" and "distinct (List.map_filter (\<lambda>t. map_option fst (spawned_as t)) (ls_tasks st))"
  shows "distinct (List.map_filter (\<lambda>t. map_option fst (spawned_as t)) (ls_tasks st'))"
  using assms(1)
proof cases
  case (spawns xs request la ys pid started i launched_at)
  have "i \<notin> set (List.map_filter (\<lambda>t. map_option fst (spawned_as t)) (xs @ ys))"
  proof
    assume "i \<in> set (List.map_filter (\<lambda>t. map_option fst (spawned_as t)) (xs @ ys))"
    then obtain t where t: "t \<in> set (xs @ ys)" "map_option fst (spawned_as t) = Some i" by (auto simp only: set_map_filter)
    then obtain pid' where "spawned_as t = Some (i, pid')" by auto
    moreover have "t \<in> set (ls_tasks st)" using t(1) spawns(2) by auto
    ultimately have "i \<in> ls_ids st" using assms(2) unfolding ids_known_def by blast
    then show False using spawns(4) by simp
  qed
  then show ?thesis using assms(3) spawns(1,2) by (auto simp: filter_spawned_append List.map_filter_simps)
next
  case (launch_enters request)
  then show ?thesis using assms(3) entered(1) [of request st st'] by (auto simp: List.map_filter_simps)
next
  case edit_enters
  then show ?thesis using assms(3) entered(2) [of st st'] by (auto simp: List.map_filter_simps)
qed (use assms(3) in \<open>simp_all add: filter_spawned_append List.map_filter_simps\<close>)

lemma one_spawned:
  assumes "distinct (List.map_filter (\<lambda>t. map_option fst (spawned_as t)) (xs @ t # ys))" and "spawned_as t = Some (i, pid)"
    and "u \<in> set (xs @ ys)" and "spawned_as u = Some (i', pid')"
  shows "i' \<noteq> i"
proof -
  have "distinct (List.map_filter (\<lambda>t. map_option fst (spawned_as t)) xs @ i # List.map_filter (\<lambda>t. map_option fst (spawned_as t)) ys)"
    using assms(1,2) by (simp add: filter_spawned_append List.map_filter_simps)
  moreover have "i' \<in> set (List.map_filter (\<lambda>t. map_option fst (spawned_as t)) (xs @ ys))"
    using assms(3,4) by (force simp: set_map_filter)
  ultimately show ?thesis by (auto simp: filter_spawned_append)
qed

lemma apart_step:
  assumes step: "server_step is_id date_parse st st'" and "ids_known st" and "ids_apart st" and "tasks_kept st"
  shows "ids_apart st'"
proof -
  have distinct': "distinct (List.map_filter (\<lambda>t. map_option fst (spawned_as t)) (ls_tasks st'))"
    using apart_tasks [OF step assms(2)] assms(3) by (simp add: ids_apart_def)
  have unrecorded: "map_of (ls_records st) i = None" if t: "t \<in> set (ls_tasks st')" "spawned_as t = Some (i, pid)" for t i pid
    using step_tasks [OF step t(1)]
  proof (elim disjE)
    assume "t \<in> set (ls_tasks st)"
    then show ?thesis using assms(3) t(2) unfolding ids_apart_def by blast
  next
    assume "spawned_as t = None \<and> (\<forall>r. t = Stopping r \<longrightarrow> (\<exists>i. running_launch is_id st i = Inr r))"
    then show ?thesis using t(2) by simp
  next
    assume "\<exists>xs ys request la i launched_at pid started. t = Spawned request la i launched_at pid \<and> may_start st pid started \<and> i \<notin> ls_ids st \<and>
       i \<in> ls_ids st' \<and> ls_processes st' = (ls_processes st)(pid \<mapsto> \<lparr>op_started = started, op_argv = LAUNCH_OPTION # i # la_argv la,
         op_launch = Some (i, la_target la), op_signalled = False\<rparr>) \<and> ls_tasks st = xs @ Planned request la # ys"
    then have "i \<notin> ls_ids st" using t(2) by auto
    then show ?thesis using assms(2) unfolding ids_known_def map_of_eq_None_iff by blast
  next
    assume "\<exists>request la i launched_at pid. t = StartRead request la i launched_at pid (started_at st pid) \<and>
       Spawned request la i launched_at pid \<in> set (ls_tasks st)"
    then obtain request la launched_at where "Spawned request la i launched_at pid \<in> set (ls_tasks st)" using t(2) by auto
    then show ?thesis using assms(3) unfolding ids_apart_def by force
  qed
  have "map_of (ls_records st') i = None" if t: "t \<in> set (ls_tasks st')" "spawned_as t = Some (i, pid)" for t i pid
    using step_records [OF step]
  proof (elim disjE)
    assume "ls_records st' = ls_records st"
    then show ?thesis using unrecorded [OF t] by simp
  next
    assume "recorded_now st st'"
    then obtain xs request la j launched_at pid' started ys where r: "ls_tasks st = xs @ StartRead request la j launched_at pid' started # ys"
        "ls_tasks st' = xs @ ys" "map_of (ls_records st') = (map_of (ls_records st))(j \<mapsto> Some (launch_record_of la j launched_at pid' started))"
        "fst ` set (ls_records st') = insert j (fst ` set (ls_records st))" "StartRead request la j launched_at pid' started \<in> set (ls_tasks st)"
      by (rule recorded_nowE)
    have "i \<noteq> j"
    proof (rule one_spawned)
      show "distinct (List.map_filter (\<lambda>t. map_option fst (spawned_as t)) (xs @ StartRead request la j launched_at pid' started # ys))"
        using assms(3) r(1) by (simp add: ids_apart_def)
      show "t \<in> set (xs @ ys)" using t(1) r(2) by simp
    qed (use t(2) in simp_all)
    then show ?thesis using r(3) unrecorded [OF t] by simp
  next
    assume "stop_recorded st st'"
    then obtain xs r ys now where r: "ls_tasks st = xs @ Stopping r # ys" "ls_tasks st' = xs @ ys"
        "map_of (ls_records st') = (map_of (ls_records st))(lr_id r \<mapsto> Some (r\<lparr>lr_stop_requested_at := Some now\<rparr>))"
        "fst ` set (ls_records st') = insert (lr_id r) (fst ` set (ls_records st))" "Stopping r \<in> set (ls_tasks st)"
      by (rule stop_recordedE)
    then obtain r0 where "map_of (ls_records st) (lr_id r) = Some (Some r0)" using assms(4) unfolding tasks_kept_def by blast
    then have "i \<noteq> lr_id r" using unrecorded [OF t] by auto
    then show ?thesis using r(3) unrecorded [OF t] by simp
  qed
  then show ?thesis using distinct' unfolding ids_apart_def by blast
qed

lemma running_recorded: "running_launch is_id st i = Inr r \<Longrightarrow> map_of (ls_records st) i = Some (Some r)"
  by (auto simp: running_launch_def split: if_splits option.splits launch_target.splits)

text \<open>What a record says of a launch is never changed.\<close>

lemma record_stays:
  assumes step: "server_step is_id date_parse st st'" and "ids_apart st" and "tasks_kept st" and "map_of (ls_records st) i = Some (Some r)"
  shows "\<exists>r'. map_of (ls_records st') i = Some (Some r') \<and> lr_pid r' = lr_pid r \<and> lr_target r' = lr_target r \<and> lr_started_at r' = lr_started_at r"
  using step_records [OF step]
proof (elim disjE)
  assume "ls_records st' = ls_records st"
  then show ?thesis using assms(4) by simp
next
  assume "recorded_now st st'"
  then obtain xs request la j launched_at pid' started ys where r: "ls_tasks st = xs @ StartRead request la j launched_at pid' started # ys"
      "ls_tasks st' = xs @ ys" "map_of (ls_records st') = (map_of (ls_records st))(j \<mapsto> Some (launch_record_of la j launched_at pid' started))"
      "fst ` set (ls_records st') = insert j (fst ` set (ls_records st))" "StartRead request la j launched_at pid' started \<in> set (ls_tasks st)"
    by (rule recorded_nowE)
  have "map_of (ls_records st) j = None" using assms(2) r(5) unfolding ids_apart_def by (metis spawned_as.simps(2))
  then have "i \<noteq> j" using assms(4) by auto
  then show ?thesis using r(3) assms(4) by simp
next
  assume "stop_recorded st st'"
  then obtain xs q ys now where q: "ls_tasks st = xs @ Stopping q # ys" "ls_tasks st' = xs @ ys"
      "map_of (ls_records st') = (map_of (ls_records st))(lr_id q \<mapsto> Some (q\<lparr>lr_stop_requested_at := Some now\<rparr>))"
      "fst ` set (ls_records st') = insert (lr_id q) (fst ` set (ls_records st))" "Stopping q \<in> set (ls_tasks st)"
    by (rule stop_recordedE)
  obtain r0 where "map_of (ls_records st) (lr_id q) = Some (Some r0)" "lr_pid r0 = lr_pid q" "lr_target r0 = lr_target q"
      "lr_started_at r0 = lr_started_at q" using assms(3) q(5) unfolding tasks_kept_def by blast
  then show ?thesis using q(3) assms(4) by (cases "i = lr_id q") auto
qed

lemma tasks_keptD:
  "tasks_kept st \<Longrightarrow> Spawned request la i launched_at pid \<in> set (ls_tasks st) \<Longrightarrow>
     launch_at st i pid (la_target la) \<and> (\<forall>p. ls_processes st pid = Some p \<longrightarrow> op_launch p = Some (i, la_target la))"
  "tasks_kept st \<Longrightarrow> StartRead request la i launched_at pid started \<in> set (ls_tasks st) \<Longrightarrow>
     launch_at st i pid (la_target la) \<and> names_launch st pid started i (la_target la)"
  "tasks_kept st \<Longrightarrow> Stopping r \<in> set (ls_tasks st) \<Longrightarrow> \<exists>r0. map_of (ls_records st) (lr_id r) = Some (Some r0) \<and>
     lr_pid r0 = lr_pid r \<and> lr_target r0 = lr_target r \<and> lr_started_at r0 = lr_started_at r"
  unfolding tasks_kept_def by blast+

lemma records_keptD:
  "records_kept st \<Longrightarrow> map_of (ls_records st) i = Some (Some r) \<Longrightarrow>
     lr_id r = i \<and> launch_at st i (lr_pid r) (lr_target r) \<and> names_launch st (lr_pid r) (lr_started_at r) i (lr_target r)"
  unfolding records_kept_def by blast

lemma tasks_step:
  assumes step: "server_step is_id date_parse st st'" and kept: "ids_known st" "ids_apart st" "starts_known st" "tasks_kept st" "records_kept st"
  shows "tasks_kept st'"
proof -
  note from_st = step_processes [OF step]
  have spawned: "launch_at st i pid (la_target la) \<and> (\<forall>p. ls_processes st pid = Some p \<longrightarrow> op_launch p = Some (i, la_target la))"
    if "Spawned request la i launched_at pid \<in> set (ls_tasks st)" for request la i launched_at pid
    using tasks_keptD(1) [OF kept(4) that] .
  have "launch_at st' i pid (la_target la) \<and> (\<forall>p. ls_processes st' pid = Some p \<longrightarrow> op_launch p = Some (i, la_target la))"
    if t: "Spawned request la i launched_at pid \<in> set (ls_tasks st')" for request la i launched_at pid
    using step_tasks [OF step t]
  proof (elim disjE)
    assume old: "Spawned request la i launched_at pid \<in> set (ls_tasks st)"
    then have "awaits_start st pid" unfolding awaits_start_def by blast
    then have "op_launch p = Some (i, la_target la)" if "ls_processes st' pid = Some p" for p
      using own_process_from [OF from_st _ _ that, of "(i, la_target la)"] spawned [OF old] by blast
    moreover have "launch_at st' i pid (la_target la)"
      using spawned [OF old] launch_at_from [OF from_st _ ids_task [OF kept(1) old]] by simp
    ultimately show ?thesis by blast
  next
    assume "\<exists>xs ys request' la' i' launched_at' pid' started. Spawned request la i launched_at pid = Spawned request' la' i' launched_at' pid' \<and>
       may_start st pid' started \<and> i' \<notin> ls_ids st \<and> i' \<in> ls_ids st' \<and> ls_processes st' = (ls_processes st)(pid' \<mapsto>
         \<lparr>op_started = started, op_argv = LAUNCH_OPTION # i' # la_argv la', op_launch = Some (i', la_target la'), op_signalled = False\<rparr>) \<and>
       ls_tasks st = xs @ Planned request' la' # ys"
    then obtain started where n: "i \<notin> ls_ids st" "ls_processes st' = (ls_processes st)(pid \<mapsto>
         \<lparr>op_started = started, op_argv = LAUNCH_OPTION # i # la_argv la, op_launch = Some (i, la_target la), op_signalled = False\<rparr>)" by auto
    then show ?thesis using ids_process [OF kept(1)] unfolding launch_at_def by auto
  qed simp_all
  moreover have "launch_at st' i pid (la_target la) \<and> names_launch st' pid started i (la_target la)"
    if t: "StartRead request la i launched_at pid started \<in> set (ls_tasks st')" for request la i launched_at pid started
    using step_tasks [OF step t]
  proof (elim disjE)
    assume old: "StartRead request la i launched_at pid started \<in> set (ls_tasks st)"
    then have "launch_at st i pid (la_target la) \<and> names_launch st pid started i (la_target la)" using kept(4) unfolding tasks_kept_def by blast
    then show ?thesis using launch_at_from [OF from_st] names_launch_from [OF from_st] ids_task [OF kept(1) old] by simp
  next
    assume "\<exists>request' la' i' launched_at' pid'. StartRead request la i launched_at pid started = StartRead request' la' i' launched_at' pid' (started_at st pid') \<and>
       Spawned request' la' i' launched_at' pid' \<in> set (ls_tasks st)"
    then have n: "started = started_at st pid" "Spawned request la i launched_at pid \<in> set (ls_tasks st)" by auto
    have "names_launch st pid started i (la_target la)"
      using spawned [OF n(2)] kept(3) unfolding n(1) names_launch_def started_at_def starts_known_def by auto
    then show ?thesis
      using spawned [OF n(2)] launch_at_from [OF from_st] names_launch_from [OF from_st] ids_task [OF kept(1) n(2)] by simp
  qed simp_all
  moreover have "\<exists>r0. map_of (ls_records st') (lr_id r) = Some (Some r0) \<and> lr_pid r0 = lr_pid r \<and> lr_target r0 = lr_target r \<and>
      lr_started_at r0 = lr_started_at r" if t: "Stopping r \<in> set (ls_tasks st')" for r
  proof -
    have "\<exists>r0. map_of (ls_records st) (lr_id r) = Some (Some r0) \<and> lr_pid r0 = lr_pid r \<and> lr_target r0 = lr_target r \<and> lr_started_at r0 = lr_started_at r"
      using step_tasks [OF step t]
    proof (elim disjE)
      assume "Stopping r \<in> set (ls_tasks st)"
      then show ?thesis using kept(4) unfolding tasks_kept_def by blast
    next
      assume "spawned_as (Stopping r) = None \<and> (\<forall>r'. Stopping r = Stopping r' \<longrightarrow> (\<exists>i. running_launch is_id st i = Inr r'))"
      then obtain i where i: "map_of (ls_records st) i = Some (Some r)" using running_recorded by blast
      then have "lr_id r = i" using kept(5) unfolding records_kept_def by blast
      then show ?thesis using i by blast
    qed simp_all
    then show ?thesis using record_stays [OF step kept(2,4)] by metis
  qed
  ultimately show ?thesis unfolding tasks_kept_def by blast
qed

lemma records_step:
  assumes step: "server_step is_id date_parse st st'" and kept: "ids_known st" "tasks_kept st" "records_kept st"
  shows "records_kept st'"
  unfolding records_kept_def
proof (intro allI impI)
  fix i r
  assume r: "map_of (ls_records st') i = Some (Some r)"
  note from_st = step_processes [OF step]
  have old: "lr_id r0 = i \<and> launch_at st' i (lr_pid r0) (lr_target r0) \<and> names_launch st' (lr_pid r0) (lr_started_at r0) i (lr_target r0)"
    if "map_of (ls_records st) i = Some (Some r0)" for r0
  proof -
    have "lr_id r0 = i \<and> launch_at st i (lr_pid r0) (lr_target r0) \<and> names_launch st (lr_pid r0) (lr_started_at r0) i (lr_target r0)"
      using kept(3) that unfolding records_kept_def by blast
    then show ?thesis using launch_at_from [OF from_st] names_launch_from [OF from_st] records_id [OF that kept(1)] by blast
  qed
  show "lr_id r = i \<and> launch_at st' i (lr_pid r) (lr_target r) \<and> names_launch st' (lr_pid r) (lr_started_at r) i (lr_target r)"
    using step_records [OF step]
  proof (elim disjE)
    assume "ls_records st' = ls_records st"
    then show ?thesis using old r by simp
  next
    assume "recorded_now st st'"
    then obtain xs request la j launched_at pid started ys where n: "ls_tasks st = xs @ StartRead request la j launched_at pid started # ys"
        "ls_tasks st' = xs @ ys" "map_of (ls_records st') = (map_of (ls_records st))(j \<mapsto> Some (launch_record_of la j launched_at pid started))"
        "fst ` set (ls_records st') = insert j (fst ` set (ls_records st))" "StartRead request la j launched_at pid started \<in> set (ls_tasks st)"
      by (rule recorded_nowE)
    show ?thesis
    proof (cases "i = j")
      case True
      then have "r = launch_record_of la i launched_at pid started" using r n(3) by simp
      moreover have "launch_at st j pid (la_target la) \<and> names_launch st pid started j (la_target la)"
        using kept(2) n(5) unfolding tasks_kept_def by blast
      ultimately show ?thesis
        using True launch_at_from [OF from_st] names_launch_from [OF from_st] ids_task [OF kept(1) n(5)] by (simp add: launch_record_of_def)
    next
      case False
      then show ?thesis using old r n(3) by simp
    qed
  next
    assume "stop_recorded st st'"
    then obtain xs q ys now where q: "ls_tasks st = xs @ Stopping q # ys" "ls_tasks st' = xs @ ys"
        "map_of (ls_records st') = (map_of (ls_records st))(lr_id q \<mapsto> Some (q\<lparr>lr_stop_requested_at := Some now\<rparr>))"
        "fst ` set (ls_records st') = insert (lr_id q) (fst ` set (ls_records st))" "Stopping q \<in> set (ls_tasks st)"
      by (rule stop_recordedE)
    show ?thesis
    proof (cases "i = lr_id q")
      case True
      then have "r = q\<lparr>lr_stop_requested_at := Some now\<rparr>" using r q(3) by simp
      moreover obtain r0 where "map_of (ls_records st) (lr_id q) = Some (Some r0)" "lr_pid r0 = lr_pid q" "lr_target r0 = lr_target q"
          "lr_started_at r0 = lr_started_at q" using kept(2) q(5) unfolding tasks_kept_def by blast
      ultimately show ?thesis using old [of r0] True by simp
    next
      case False
      then show ?thesis using old r q(3) by simp
    qed
  qed
qed

lemma spawned_stays:
  assumes "server_step is_id date_parse st st'" and "t \<in> set (ls_tasks st)" and "spawned_as t = Some (i, pid)"
  shows "(\<exists>t' \<in> set (ls_tasks st'). spawned_as t' = Some (i, pid)) \<or> (\<exists>r. map_of (ls_records st') i = Some (Some r)) \<or>
    (\<forall>p. ls_processes st' pid = Some p \<longrightarrow> op_signalled p)"
  using assms(1)
proof cases
  case (launch_enters request)
  then show ?thesis using assms(2,3) entered(1) [of request st st'] by auto
next
  case edit_enters
  then show ?thesis using assms(2,3) entered(2) [of st st'] by auto
next
  case (records xs request la j launched_at pid' started ys)
  then show ?thesis using assms(2,3) by (auto simp: launch_record_of_def)
qed (use assms(2,3) in \<open>auto simp: write_launch_record_def\<close>)

lemma launches_step:
  assumes step: "server_step is_id date_parse st st'" and kept: "ids_apart st" "tasks_kept st" "launches_known st"
  shows "launches_known st'"
  unfolding launches_known_def
proof (intro allI impI)
  fix pid p i target
  assume p: "ls_processes st' pid = Some p" "op_launch p = Some (i, target)" "\<not> op_signalled p"
  have "(\<exists>q. ls_processes st pid = Some q \<and> op_launch q = op_launch p \<and> \<not> op_signalled q) \<or> newly_launched st st' pid i target"
    using step_processes [OF step] p unfolding processes_from_def by fastforce
  then show "(\<exists>r. map_of (ls_records st') i = Some (Some r)) \<or> (\<exists>t \<in> set (ls_tasks st'). spawned_as t = Some (i, pid))"
  proof
    assume "\<exists>q. ls_processes st pid = Some q \<and> op_launch q = op_launch p \<and> \<not> op_signalled q"
    then have "(\<exists>r. map_of (ls_records st) i = Some (Some r)) \<or> (\<exists>t \<in> set (ls_tasks st). spawned_as t = Some (i, pid))"
      using kept(3) p(2) unfolding launches_known_def by metis
    then show ?thesis
    proof
      assume "\<exists>r. map_of (ls_records st) i = Some (Some r)"
      then show ?thesis using record_stays [OF step kept(1,2)] by blast
    next
      assume "\<exists>t \<in> set (ls_tasks st). spawned_as t = Some (i, pid)"
      then show ?thesis using spawned_stays [OF step] p(1,3) by blast
    qed
  next
    assume "newly_launched st st' pid i target"
    then show ?thesis by (rule newly_launchedE) force
  qed
qed

lemma server_step_kept:
  assumes step: "server_step is_id date_parse st st'" and "server_kept st"
  shows "server_kept st'"
proof -
  have kept: "gate_kept st" "targets_kept st" "ids_known st" "ids_apart st" "starts_known st" "tasks_kept st" "records_kept st" "launches_known st"
    using assms(2) by (simp_all add: server_kept_def)
  show ?thesis
    unfolding server_kept_def
    using gate_step [OF step kept(1)] targets_step [OF step kept(2)] ids_step [OF step kept(3,6)] apart_step [OF step kept(3,4,6)]
      starts_step [OF step kept(5)] tasks_step [OF step kept(3-7)] records_step [OF step kept(3,6,7)] launches_step [OF step kept(4,6,8)]
    by (intro conjI)
qed

lemma fresh_kept:
  assumes "fresh_server st"
  shows "server_kept st"
proof -
  note fresh = assms [unfolded fresh_server_def]
  have "gate_kept st" "targets_kept st" "ids_apart st" "tasks_kept st"
    using fresh by (simp_all add: gate_kept_def targets_kept_def ids_apart_def tasks_kept_def List.map_filter_simps)
  moreover have "ids_known st" unfolding ids_known_def
  proof (intro conjI allI impI ballI)
    show "fst ` set (ls_records st) \<subseteq> ls_ids st" using fresh by blast
  qed (use fresh in \<open>simp, blast\<close>)
  moreover have "starts_known st" using fresh unfolding starts_known_def by blast
  moreover have "records_kept st" using fresh unfolding records_kept_def by blast
  moreover have "launches_known st" using fresh unfolding launches_known_def by blast
  ultimately show ?thesis unfolding server_kept_def by (intro conjI)
qed

lemma reaches_kept: "server_reaches is_id date_parse st \<Longrightarrow> server_kept st"
proof -
  assume "server_reaches is_id date_parse st"
  then obtain st0 where "fresh_server st0" "(server_step is_id date_parse)\<^sup>*\<^sup>* st0 st" unfolding server_reaches_def by blast
  from this(2) fresh_kept [OF this(1)] show ?thesis by (induction rule: rtranclp_induct) (auto intro: server_step_kept)
qed

end
