(* ===== verification/LaunchExclusion.thy ===== *)
theory LaunchExclusion
  imports LaunchSafety
begin

text \<open>
  The exclusions of the server's launches: an analysis of a run is alone and the corpus is not edited under a launch, as far as the
  launch records read when the analysis or the edit was admitted; and a stop names the process its launch started.
\<close>

subsection \<open>Analyses in progress\<close>

definition analyses_alone :: "launch_server \<Rightarrow> bool" where
  "analyses_alone st \<longleftrightarrow>
     (\<forall>t pid i run. t \<in> set (ls_tasks st) \<longrightarrow> task_launch t \<noteq> None \<longrightarrow> analyses run t \<longrightarrow> analyst st pid i run \<longrightarrow>
        spawned_as t = Some (i, pid) \<or> (run, i) \<in> ls_unread st) \<and>
     (\<forall>pid pid' i i' run. analyst st pid i run \<longrightarrow> analyst st pid' i' run \<longrightarrow>
        pid = pid' \<or> (run, i) \<in> ls_unread st \<or> (run, i') \<in> ls_unread st)"

definition edits_alone :: "launch_server \<Rightarrow> bool" where
  "edits_alone st \<longleftrightarrow>
     (WritingEdit \<in> set (ls_tasks st) \<longrightarrow>
        (\<forall>pid p i target. ls_processes st pid = Some p \<longrightarrow> op_launch p = Some (i, target) \<longrightarrow> op_signalled p \<or> i \<in> ls_edit_unread st))"

lemma server_keptD:
  assumes "server_kept st"
  shows "gate_kept st" "targets_kept st" "tasks_kept st" "records_kept st" "launches_known st"
  using assms by (simp_all add: server_kept_def)

lemma one_of_filter: "length (filter P (xs @ u # ys)) \<le> 1 \<Longrightarrow> P u \<Longrightarrow> t \<in> set (xs @ ys) \<Longrightarrow> \<not> P t"
  by (auto simp: filter_empty_conv)

lemma one_analysis:
  assumes "gate_kept st" and "ls_tasks st = xs @ u # ys" and "analyses run u" and "t \<in> set (xs @ ys)"
  shows "\<not> analyses run t"
proof -
  have "length (filter (analyses run) (xs @ u # ys)) \<le> 1" using assms(1) unfolding gate_kept_def assms(2) by (simp split: if_splits)
  then show ?thesis by (rule one_of_filter) (fact assms(3,4))+
qed

lemma same_analysis:
  assumes "gate_kept st" and "t \<in> set (ls_tasks st)" and "u \<in> set (ls_tasks st)" and "analyses run t" and "analyses run u"
  shows "t = u"
proof -
  obtain xs ys where "ls_tasks st = xs @ u # ys" using assms(3) by (meson split_list)
  then show ?thesis using one_analysis [OF assms(1) _ assms(5), of xs ys t] assms(2,4) by auto
qed

lemma no_launch_while_editing:
  assumes "gate_kept st" and "u \<in> set (ls_tasks st)" and "editing u" and "t \<in> set (ls_tasks st)"
  shows "launching t = None"
proof -
  have "filter editing (ls_tasks st) \<noteq> []" using assms(2,3) by (auto simp: filter_empty_conv)
  then have "ls_applying st" using assms(1) unfolding gate_kept_def by (metis length_0_conv)
  then have "length (filter (\<lambda>t. launching t \<noteq> None) (ls_tasks st)) = 0" using assms(1) unfolding gate_kept_def by metis
  then show ?thesis using assms(4) by (auto simp: filter_empty_conv)
qed

text \<open>A live process the server started, and did not signal, is one its live launches list where its record reads, or one a
request is still starting.\<close>

lemma launch_listed:
  assumes "server_kept st" and "ls_processes st pid = Some p" and "op_launch p = Some (i, target)" and "\<not> op_signalled p"
  shows "i \<in> unread \<or> (\<exists>r \<in> set (live_launches unread st). lr_target r = target) \<or> (\<exists>t \<in> set (ls_tasks st). spawned_as t = Some (i, pid))"
proof -
  note kept = server_keptD [OF assms(1)]
  have "(\<exists>r. map_of (ls_records st) i = Some (Some r)) \<or> (\<exists>t \<in> set (ls_tasks st). spawned_as t = Some (i, pid))"
    using kept(5) assms(2-4) unfolding launches_known_def by blast
  then show ?thesis
  proof
    assume "\<exists>r. map_of (ls_records st) i = Some (Some r)"
    then obtain r where r: "map_of (ls_records st) i = Some (Some r)" by blast
    then have "launch_at st i (lr_pid r) (lr_target r)" using records_keptD [OF kept(4)] by blast
    then have "pid = lr_pid r" "target = lr_target r" using assms(2,3) unfolding launch_at_def by blast+
    moreover have "(i, Some r) \<in> set (ls_records st)" using map_of_SomeD [OF r] .
    moreover have "i \<in> unread \<or> listed_launch unread st i (Some r) = Some r"
      using assms(2) \<open>pid = lr_pid r\<close> by (simp add: listed_launch_def is_alive_def)
    ultimately have "i \<in> unread \<or> r \<in> set (live_launches unread st)"
      unfolding live_launches_def set_map_filter by force
    then show ?thesis using \<open>target = lr_target r\<close> by blast
  qed blast
qed

text \<open>The launch a request has spawned is that of its process.\<close>

lemma spawned_target:
  assumes "server_kept st" and "t \<in> set (ls_tasks st)" and "spawned_as t = Some (i, pid)" and "analyst st pid' i run"
  shows "analyses run t"
proof -
  note kept = server_keptD [OF assms(1)]
  obtain p target where p: "ls_processes st pid' = Some p" "op_launch p = Some (i, target)" "target_run target = Some run"
    using assms(4) unfolding analyst_def by blast
  obtain request la where t: "task_launch t = Some (request, la)" "launch_at st i pid (la_target la)" "launching t = Some request"
    using tasks_keptD(1,2) [OF kept(3)] assms(2,3) by (cases t) auto
  have "target_run (la_target la) = analysed_run request" using kept(2) assms(2) t(1) unfolding targets_kept_def by blast
  moreover have "target = la_target la" using t(2) p unfolding launch_at_def by blast
  ultimately show ?thesis using p(3) t(3) by (simp add: analyses_def)
qed

lemma analyst_from:
  assumes "processes_from st st'" and "analyst st' pid i run"
  shows "analyst st pid i run \<or> (ls_processes st pid = None \<and> (\<exists>target. newly_launched st st' pid i target \<and> target_run target = Some run))"
  using assms unfolding processes_from_def analyst_def by fastforce

lemma newly_analysed:
  assumes "newly_launched st st' pid i target" and "targets_kept st" and "target_run target = Some run"
  obtains xs ys request la launched_at where "ls_tasks st = xs @ Planned request la # ys" "analysed_run request = Some run"
    "ls_tasks st' = xs @ Spawned request la i launched_at pid # ys" "\<forall>pid'. pid' \<noteq> pid \<longrightarrow> ls_processes st' pid' = ls_processes st pid'"
  using assms(1)
proof (rule newly_launchedE)
  fix xs ys request la launched_at
  assume n: "ls_tasks st = xs @ Planned request la # ys" "target = la_target la"
    "ls_tasks st' = xs @ Spawned request la i launched_at pid # ys" "\<forall>pid'. pid' \<noteq> pid \<longrightarrow> ls_processes st' pid' = ls_processes st pid'"
  have "Planned request la \<in> set (ls_tasks st)" "task_launch (Planned request la) = Some (request, la)" using n(1) by simp_all
  then have "target_run (la_target la) = analysed_run request" using assms(2) unfolding targets_kept_def by blast
  then show thesis using that [of xs request la ys launched_at] n assms(3) by simp
qed

text \<open>Where a request that has planned its launch comes from.\<close>

lemma planned_from:
  assumes "server_step is_id date_parse st st'" and "t \<in> set (ls_tasks st')" and "task_launch t \<noteq> None"
  shows "t \<in> set (ls_tasks st) \<or>
    (\<exists>rds unread request la. t = Planned request la \<and> Planning request \<in> set (ls_tasks st) \<and>
       plan_launch rds (live_launches unread st) request = Inr la \<and> set_option (analysed_run request) \<times> unread \<subseteq> ls_unread st') \<or>
    (\<exists>request la i launched_at pid. t = Spawned request la i launched_at pid \<and> Planned request la \<in> set (ls_tasks st)) \<or>
    (\<exists>request la i launched_at pid s. t = StartRead request la i launched_at pid s \<and> Spawned request la i launched_at pid \<in> set (ls_tasks st))"
  using assms(1)
proof cases
  case (launch_enters request)
  then show ?thesis using assms(2,3) entered(1) [of request st st'] by auto
next
  case edit_enters
  then show ?thesis using assms(2,3) entered(2) [of st st'] by auto
next
  case (launch_planned xs request ys rds unread la)
  then show ?thesis using assms(2,3) by (cases "t = Planned request la") auto
next
  case (spawns xs request la ys pid started i launched_at)
  then show ?thesis using assms(2,3) by (cases "t = Spawned request la i launched_at pid") auto
next
  case (start_reads xs request la i launched_at pid ys)
  then show ?thesis using assms(2,3) by (cases "t = StartRead request la i launched_at pid (started_at st pid)") auto
qed (use assms(2,3) in auto)

lemma entered_unread:
  "enter_launch request st = Inr st' \<Longrightarrow> ls_unread st' = ls_unread st \<and> ls_edit_unread st' = ls_edit_unread st"
  "enter_edit st = Inr st' \<Longrightarrow> ls_unread st' = ls_unread st \<and> ls_edit_unread st' = ls_edit_unread st"
  by (auto simp: enter_launch_def enter_edit_def split: if_splits option.splits)

lemma unread_grows:
  assumes "server_step is_id date_parse st st'"
  shows "ls_unread st \<subseteq> ls_unread st'"
  using assms
proof cases
  case (launch_enters request)
  then show ?thesis using entered_unread(1) [of request st st'] by simp
next
  case edit_enters
  then show ?thesis using entered_unread(2) [of st st'] by simp
qed (auto simp: leave_launch_def leave_edit_def start_process_def write_launch_record_def)

text \<open>A planning that finds no analysis of the run in flight has none to wait for, but for those whose record it did not
read.\<close>

lemma planned_alone:
  assumes "server_kept st" and "Planning request \<in> set (ls_tasks st)" and "plan_launch rds (live_launches unread st) request = Inr la"
    and "analysed_run request = Some run" and a: "analyst st pid i run"
  shows "i \<in> unread"
proof (rule ccontr)
  assume read: "i \<notin> unread"
  obtain p target where p: "ls_processes st pid = Some p" "\<not> op_signalled p" "op_launch p = Some (i, target)" "target_run target = Some run"
    using a unfolding analyst_def by blast
  have "\<not> analysis_in_flight run (live_launches unread st)" using plan_not_in_flight assms(3,4) by blast
  then have "\<not> (\<exists>r \<in> set (live_launches unread st). lr_target r = target)"
    using p(4) by (cases target) (auto simp: analysis_in_flight_def list_ex_iff)
  then obtain t where t: "t \<in> set (ls_tasks st)" "spawned_as t = Some (i, pid)" using launch_listed [OF assms(1) p(1,3,2), of unread] read by blast
  have "analyses run t" using spawned_target [OF assms(1) t a] .
  moreover have "analyses run (Planning request)" using assms(4) by simp
  ultimately have "t = Planning request" using same_analysis [OF server_keptD(1) [OF assms(1)] t(1) assms(2)] by blast
  then show False using t(2) by simp
qed

subsection \<open>Every step keeps them\<close>

lemma alone_step:
  assumes step: "server_step is_id date_parse st st'" and kept: "server_kept st" "analyses_alone st"
  shows "analyses_alone st'"
proof -
  note from_st = analyst_from [OF step_processes [OF step]]
  note targets = server_keptD(2) [OF kept(1)]
  note gate = server_keptD(1) [OF kept(1)] and gate' = server_keptD(1) [OF server_step_kept [OF step kept(1)]]
  note grows = subsetD [OF unread_grows [OF step]]
  have waits: "spawned_as t = Some (i, pid) \<or> (run, i) \<in> ls_unread st"
    if "t \<in> set (ls_tasks st)" "task_launch t \<noteq> None" "analyses run t" "analyst st pid i run" for t pid i run
    using kept(2) that unfolding analyses_alone_def by blast
  have once: "pid = pid' \<or> (run, i) \<in> ls_unread st \<or> (run, i') \<in> ls_unread st"
    if "analyst st pid i run" "analyst st pid' i' run" for pid pid' i i' run
    using kept(2) that unfolding analyses_alone_def by blast
  have "spawned_as t = Some (i, pid) \<or> (run, i) \<in> ls_unread st'"
    if t: "t \<in> set (ls_tasks st')" "task_launch t \<noteq> None" "analyses run t" and a: "analyst st' pid i run" for t pid i run
    using from_st [OF a]
  proof
    assume old: "analyst st pid i run"
    show ?thesis
      using planned_from [OF step t(1,2)]
    proof (elim disjE exE conjE)
      assume "t \<in> set (ls_tasks st)"
      then show ?thesis using waits t(2,3) old grows by blast
    next
      fix rds unread request la
      assume n: "t = Planned request la" "Planning request \<in> set (ls_tasks st)" "plan_launch rds (live_launches unread st) request = Inr la"
        "set_option (analysed_run request) \<times> unread \<subseteq> ls_unread st'"
      then have run: "analysed_run request = Some run" using t(3) by simp
      then have "i \<in> unread" using planned_alone [OF kept(1) n(2,3)] old by blast
      then show ?thesis using n(4) run by auto
    next
      fix request la j launched_at q
      assume n: "t = Spawned request la j launched_at q" "Planned request la \<in> set (ls_tasks st)"
      then have "(run, i) \<in> ls_unread st" using waits [OF n(2) _ _ old] t(3) by simp
      then show ?thesis using grows by blast
    next
      fix request la j launched_at q s
      assume n: "t = StartRead request la j launched_at q s" "Spawned request la j launched_at q \<in> set (ls_tasks st)"
      then show ?thesis using waits [OF n(2) _ _ old] t(3) grows by auto
    qed
  next
    assume "ls_processes st pid = None \<and> (\<exists>target. newly_launched st st' pid i target \<and> target_run target = Some run)"
    then obtain target where "newly_launched st st' pid i target" "target_run target = Some run" by blast
    then obtain xs ys request la launched_at where n: "analysed_run request = Some run"
        "ls_tasks st' = xs @ Spawned request la i launched_at pid # ys"
      using newly_analysed [OF _ targets] by metis
    then have "t = Spawned request la i launched_at pid" using same_analysis [OF gate' t(1) _ t(3)] by simp
    then show ?thesis by simp
  qed
  moreover have "pid = pid' \<or> (run, i) \<in> ls_unread st' \<or> (run, i') \<in> ls_unread st'"
    if a: "analyst st' pid i run" "analyst st' pid' i' run" for pid pid' i i' run
  proof (rule ccontr)
    assume other: "\<not> (pid = pid' \<or> (run, i) \<in> ls_unread st' \<or> (run, i') \<in> ls_unread st')"
    have no_new: "(run, j) \<in> ls_unread st'" if q: "analyst st' q j run" and new: "ls_processes st p = None" "newly_launched st st' p k target" "target_run target = Some run"
        and apart: "q \<noteq> p" for p q j k target
      using new(2) targets new(3)
    proof (rule newly_analysed)
      fix xs ys request la launched_at
      assume n: "ls_tasks st = xs @ Planned request la # ys" "analysed_run request = Some run"
        "\<forall>pid'. pid' \<noteq> p \<longrightarrow> ls_processes st' pid' = ls_processes st pid'"
      have "analyst st q j run" using q n(3) apart unfolding analyst_def by simp
      then show ?thesis using waits [of "Planned request la" run q j] n(1,2) grows by auto
    qed
    show False
      using from_st [OF a(1)] from_st [OF a(2)]
    proof (elim disjE conjE exE)
      assume "analyst st pid i run" "analyst st pid' i' run"
      then show False using once other grows by blast
    qed (use no_new [OF a(1)] no_new [OF a(2)] other in blast)+
  qed
  ultimately show ?thesis unfolding analyses_alone_def by blast
qed

lemma writing_from:
  assumes "server_step is_id date_parse st st'" and "WritingEdit \<in> set (ls_tasks st')"
  shows "(WritingEdit \<in> set (ls_tasks st) \<and> ls_edit_unread st' = ls_edit_unread st) \<or>
    (CheckingEdit \<in> set (ls_tasks st) \<and> live_launches (ls_edit_unread st') st = [])"
  using assms(1)
proof cases
  case (launch_enters request)
  then show ?thesis using assms(2) entered(1) [of request st st'] entered_unread(1) [of request st st'] by auto
next
  case edit_enters
  then show ?thesis using assms(2) entered(2) [of st st'] entered_unread(2) [of st st'] by auto
next
  case (edit_checked xs ys unread)
  then show ?thesis by (simp add: refuse_edit_under_live_launch_def split: if_splits)
qed (use assms(2) in \<open>auto simp: leave_launch_def leave_edit_def start_process_def write_launch_record_def\<close>)

lemma edits_step:
  assumes step: "server_step is_id date_parse st st'" and kept: "server_kept st" "edits_alone st"
  shows "edits_alone st'"
  unfolding edits_alone_def
proof (intro impI allI)
  fix pid p i target
  assume w: "WritingEdit \<in> set (ls_tasks st')" and p: "ls_processes st' pid = Some p" and l: "op_launch p = Some (i, target)"
  note gate = server_keptD(1) [OF kept(1)]
  obtain u where u: "u \<in> set (ls_tasks st)" "editing u" using writing_from [OF step w] by (metis editing.simps(1,2))
  note quiet = no_launch_while_editing [OF gate u]
  have "(\<exists>q. ls_processes st pid = Some q \<and> op_launch q = op_launch p \<and> (op_signalled q \<longrightarrow> op_signalled p)) \<or> newly_launched st st' pid i target"
    using step_processes [OF step] p l unfolding processes_from_def by fastforce
  then show "op_signalled p \<or> i \<in> ls_edit_unread st'"
  proof
    assume "newly_launched st st' pid i target"
    then show ?thesis
    proof (rule newly_launchedE)
      fix xs ys request la
      assume "ls_tasks st = xs @ Planned request la # ys"
      then show ?thesis using quiet [of "Planned request la"] by simp
    qed
  next
    assume "\<exists>q. ls_processes st pid = Some q \<and> op_launch q = op_launch p \<and> (op_signalled q \<longrightarrow> op_signalled p)"
    then obtain q where q: "ls_processes st pid = Some q" "op_launch q = Some (i, target)" "op_signalled q \<longrightarrow> op_signalled p" using l by auto
    have "op_signalled q \<or> i \<in> ls_edit_unread st'"
      using writing_from [OF step w]
    proof
      assume "WritingEdit \<in> set (ls_tasks st) \<and> ls_edit_unread st' = ls_edit_unread st"
      then show ?thesis using kept(2) q(1,2) unfolding edits_alone_def by simp
    next
      assume c: "CheckingEdit \<in> set (ls_tasks st) \<and> live_launches (ls_edit_unread st') st = []"
      show ?thesis
      proof (rule ccontr)
        assume "\<not> (op_signalled q \<or> i \<in> ls_edit_unread st')"
        then obtain t where t: "t \<in> set (ls_tasks st)" "spawned_as t = Some (i, pid)"
          using launch_listed [OF kept(1) q(1,2), of "ls_edit_unread st'"] c by auto
        then show False using quiet [OF t(1)] t(2) by (cases t rule: launch_task.exhaust) simp_all
      qed
    qed
    then show ?thesis using q(3) by blast
  qed
qed

lemma reaches_alone: "server_reaches is_id date_parse st \<Longrightarrow> server_kept st \<and> analyses_alone st \<and> edits_alone st"
proof -
  assume "server_reaches is_id date_parse st"
  then obtain st0 where f: "fresh_server st0" "(server_step is_id date_parse)\<^sup>*\<^sup>* st0 st" unfolding server_reaches_def by blast
  have "server_kept st0 \<and> analyses_alone st0 \<and> edits_alone st0"
    using fresh_kept [OF f(1)] f(1) unfolding fresh_server_def analyses_alone_def edits_alone_def by simp
  with f(2) show ?thesis
    by (induction rule: rtranclp_induct) (auto intro: server_step_kept alone_step edits_step)
qed

text \<open>A server stopped while no request is in progress leaves a state the next one may start from.\<close>

lemma restart_fresh:
  assumes "server_reaches is_id date_parse st" and "ls_tasks st = []"
  shows "fresh_server st"
proof -
  have kept: "server_kept st" "analyses_alone st" using reaches_alone [OF assms(1)] by blast+
  have idle: "\<not> ls_applying st" "ls_starting st = 0" "ls_analyses st = {}"
    using server_keptD(1) [OF kept(1)] assms(2) by (auto simp: gate_kept_def split: if_splits)
  have known: "ids_known st" "starts_known st" "records_kept st" "launches_known st" using kept(1) by (simp_all add: server_kept_def)
  have ids: "fst ` set (ls_records st) \<subseteq> ls_ids st" using known(1) unfolding ids_known_def by blast
  have processes: "(pid, op_started p) \<in> ls_starts st \<and> (\<forall>i target. op_launch p = Some (i, target) \<longrightarrow> i \<in> ls_ids st \<and>
      (\<not> op_signalled p \<longrightarrow> (\<exists>r. map_of (ls_records st) i = Some (Some r))))" if p: "ls_processes st pid = Some p" for pid p
  proof (intro conjI allI impI)
    show "(pid, op_started p) \<in> ls_starts st" using known(2) p unfolding starts_known_def by blast
  next
    fix i target
    assume l: "op_launch p = Some (i, target)"
    show "i \<in> ls_ids st" using ids_process [OF known(1) p l] .
    assume "\<not> op_signalled p"
    then show "\<exists>r. map_of (ls_records st) i = Some (Some r)" using known(4) p l assms(2) unfolding launches_known_def by fastforce
  qed
  have once: "\<forall>pid pid' i i' run. analyst st pid i run \<longrightarrow> analyst st pid' i' run \<longrightarrow>
      pid = pid' \<or> (run, i) \<in> ls_unread st \<or> (run, i') \<in> ls_unread st"
    using kept(2) unfolding analyses_alone_def by blast
  show ?thesis
    unfolding fresh_server_def using idle assms(2) ids known(3) [unfolded records_kept_def] once
    by (intro conjI) (assumption | (intro allI impI, erule processes))+
qed

subsection \<open>A launch started on an idle server\<close>

definition idle_server :: launch_server where
  "idle_server = \<lparr>ls_applying = False, ls_starting = 0, ls_analyses = {}, ls_tasks = [], ls_records = [], ls_processes = Map.empty,
     ls_starts = {}, ls_ids = {}, ls_unread = {}, ls_edit_unread = {}\<rparr>"

definition launch_process :: "launch \<Rightarrow> string \<Rightarrow> os_process" where
  "launch_process la i = \<lparr>op_started = ''12:00'', op_argv = LAUNCH_OPTION # i # la_argv la, op_launch = Some (i, la_target la),
     op_signalled = False\<rparr>"

text \<open>What a launch leaves that was planned while the records of \<open>unread\<close> did not read.\<close>

definition with_launch :: "launch_server \<Rightarrow> string set \<Rightarrow> launch_request \<Rightarrow> launch \<Rightarrow> string \<Rightarrow> int \<Rightarrow> launch_server" where
  "with_launch st unread request la i pid =
     st\<lparr>ls_unread := ls_unread st \<union> set_option (analysed_run request) \<times> unread, ls_ids := insert i (ls_ids st),
       ls_processes := (ls_processes st)(pid \<mapsto> launch_process la i), ls_starts := insert (pid, ''12:00'') (ls_starts st),
       ls_records := AList.update i (Some (launch_record_of la i ''noon'' pid (Some ''12:00''))) (ls_records st)\<rparr>"

definition example_reads :: launch_reads where
  "example_reads = \<lparr>rd_roots = [], rd_cases = (\<lambda>_. None), rd_linked_refusal = None, rd_runs = \<lparr>ru_names = [''r1''], ru_manifest = (\<lambda>_. Inl ''No manifest''), ru_checkpoint = (\<lambda>_ _. False)\<rparr>,
     rd_settings = Inr (Some 2), rd_group = (\<lambda>_. True), rd_comparison = (\<lambda>_ _. Inr (''r1'', ''spec'', 3)), rd_report = (\<lambda>_. True),
     rd_extension = (\<lambda>_ _. Inr (1, ''r1'', ''spec'')), rd_unanalyzable = (\<lambda>_. None), rd_number_text = (\<lambda>_. ''1'')\<rparr>"

lemma idle_fresh: "fresh_server idle_server"
  by (simp add: fresh_server_def idle_server_def analyst_def)

lemma launch_goes:
  assumes idle: "\<not> ls_applying st" "ls_starting st = 0" "ls_analyses st = {}" "ls_tasks st = []"
    and plan: "plan_launch rds (live_launches unread st) request = Inr la"
    and new: "ls_processes st pid = None" "(pid, ''12:00'') \<notin> ls_starts st" "i \<notin> ls_ids st"
  shows "(server_step is_id date_parse)\<^sup>*\<^sup>* st (with_launch st unread request la i pid)"
proof -
  let ?S = "server_step is_id date_parse"
  let ?entered = "st\<lparr>ls_analyses := set_option (analysed_run request), ls_starting := 1, ls_tasks := [Planning request]\<rparr>"
  let ?planned = "?entered\<lparr>ls_tasks := [Planned request la], ls_unread := ls_unread st \<union> set_option (analysed_run request) \<times> unread\<rparr>"
  let ?spawned = "start_process pid (launch_process la i) (?planned\<lparr>ls_ids := insert i (ls_ids st), ls_tasks := [Spawned request la i ''noon'' pid]\<rparr>)"
  let ?started = "?spawned\<lparr>ls_tasks := [StartRead request la i ''noon'' pid (Some ''12:00'')]\<rparr>"
  have 1: "?S st ?entered"
    by (rule server_step.launch_enters [of request]) (use idle in \<open>simp add: enter_launch_def split: option.split\<close>)
  have alive: "is_alive ?entered = is_alive st" by (simp add: is_alive_def fun_eq_iff)
  have "listed_launch unread ?entered = listed_launch unread st" unfolding listed_launch_def alive ..
  then have "live_launches unread ?entered = live_launches unread st" by (simp add: live_launches_def)
  then have 2: "?S ?entered ?planned"
    using server_step.launch_planned [of ?entered "[]" request "[]" rds unread la] plan by simp
  have 3: "?S ?planned ?spawned"
    using server_step.spawns [of ?planned "[]" request la "[]" pid "''12:00''" i is_id date_parse "''noon''"] new
    by (simp add: may_start_def awaits_start_def launch_process_def)
  have 4: "?S ?spawned ?started"
    using server_step.start_reads [of ?spawned "[]" request la i "''noon''" pid "[]" is_id date_parse]
    by (simp add: started_at_def start_process_def launch_process_def)
  let ?left = "with_launch st unread request la i pid"
  have left: "?left\<lparr>ls_starting := 0, ls_analyses := {}, ls_tasks := []\<rparr> = ?left"
    using idle by (cases st) (simp add: with_launch_def)
  have "?S ?started (?left\<lparr>ls_starting := 0, ls_analyses := {}, ls_tasks := []\<rparr>)"
    using server_step.records [of ?started "[]" request la i "''noon''" pid "Some ''12:00''" "[]" is_id date_parse] idle
    by (simp add: leave_launch_def write_launch_record_def with_launch_def start_process_def launch_record_of_def launch_process_def)
  then have 5: "?S ?started ?left" unfolding left .
  show ?thesis using 1 2 3 4 5 by (meson rtranclp.rtrancl_into_rtrancl rtranclp.rtrancl_refl)
qed

lemma launched_reaches:
  assumes plan: "plan_launch rds [] request = Inr la"
  shows "server_reaches is_id date_parse (with_launch idle_server {} request la ''L1'' 7)"
proof -
  have "live_launches {} idle_server = []" by (simp add: live_launches_def idle_server_def List.map_filter_simps)
  then have "(server_step is_id date_parse)\<^sup>*\<^sup>* idle_server (with_launch idle_server {} request la ''L1'' 7)"
    using plan by (intro launch_goes) (simp_all add: idle_server_def)
  then show ?thesis unfolding server_reaches_def using idle_fresh by blast
qed

lemma example_analysis:
  "plan_launch example_reads [] (RequestAnalysis ''r1'' 1) =
     Inr \<lparr>la_argv = [''diagnose'', ''r1'', ''--model'', ''sonnet'', ''--budget-usd'', ''1''], la_target = TargetAnalysis ''r1'' 1\<rparr>"
  by (simp add: plan_launch_def launch_spend_ceiling_def as_launch_refusal_def example_reads_def analysis_launch_def analysis_in_flight_def
      browser_analysis_cap_usd_def DEFAULT_ANALYSIS_BUDGET_USD_def create_spend_ceiling_def budget_for_unfold left_usd_def ceiling_reading_def res_simps)

definition example_analysis_launch :: launch where
  "example_analysis_launch = \<lparr>la_argv = [''diagnose'', ''r1'', ''--model'', ''sonnet'', ''--budget-usd'', ''1''], la_target = TargetAnalysis ''r1'' 1\<rparr>"

definition analysing_server :: launch_server where
  "analysing_server = with_launch idle_server {} (RequestAnalysis ''r1'' 1) example_analysis_launch ''L1'' 7"

definition comparing_server :: launch_server where
  "comparing_server =
     with_launch idle_server {} (RequestComparison ''a'' ''b'')
       \<lparr>la_argv = [''compare'', ''attempts'', ''--arm-a'', ''a'', ''--arm-b'', ''b'', ''--yes'', ''--approved-in-browser''],
         la_target = TargetComparison ''a'' ''b'' 3 ''r1'' ''spec''\<rparr> ''L1'' 7"

lemma example_comparison:
  "plan_launch example_reads [] (RequestComparison ''a'' ''b'') =
     Inr \<lparr>la_argv = [''compare'', ''attempts'', ''--arm-a'', ''a'', ''--arm-b'', ''b'', ''--yes'', ''--approved-in-browser''],
       la_target = TargetComparison ''a'' ''b'' 3 ''r1'' ''spec''\<rparr>"
  by (simp add: plan_launch_def launch_spend_ceiling_def as_launch_refusal_def example_reads_def comparison_launch_def res_simps)

subsection \<open>Properties\<close>

text \<open>C6: Of the processes the server started and did not signal, at most one is an analysis of a given run, whatever requests, exits
  and failures come in between, but for one thing: where the record of a live analysis does not read when another of that
  run is planned, it refuses nothing. So of two live analyses of a run, the record of one failed to read at such a
  planning.\<close>

theorem sole_analysis:
  assumes "server_reaches is_id date_parse st"
    and "ls_processes st pid = Some p" "\<not> op_signalled p" "op_launch p = Some (i, target)" "target_run target = Some run"
    and "ls_processes st pid' = Some p'" "\<not> op_signalled p'" "op_launch p' = Some (i', target')" "target_run target' = Some run"
  shows "pid = pid' \<or> (run, i) \<in> ls_unread st \<or> (run, i') \<in> ls_unread st"
proof -
  have "analyst st pid i run" "analyst st pid' i' run" using assms(2-9) unfolding analyst_def by blast+
  moreover have "analyses_alone st" using reaches_alone [OF assms(1)] by blast
  ultimately show ?thesis unfolding analyses_alone_def by blast
qed

lemma sole_analysis_witness:
  "server_reaches (\<lambda>_. True) (\<lambda>_. None) analysing_server \<and> ls_unread analysing_server = {} \<and>
   {pid. \<exists>p i. ls_processes analysing_server pid = Some p \<and> \<not> op_signalled p \<and> op_launch p = Some (i, TargetAnalysis ''r1'' 1)} = {7}"
proof -
  have reaches: "server_reaches (\<lambda>_. True) (\<lambda>_. None) analysing_server"
    unfolding analysing_server_def example_analysis_launch_def by (rule launched_reaches [OF example_analysis])
  have all_read: "ls_unread analysing_server = {}" by (simp add: analysing_server_def with_launch_def idle_server_def)
  obtain q where q: "ls_processes analysing_server 7 = Some q" "\<not> op_signalled q" "op_launch q = Some (''L1'', TargetAnalysis ''r1'' 1)"
    by (simp add: analysing_server_def with_launch_def launch_process_def example_analysis_launch_def)
  have one: "pid = 7" if "ls_processes analysing_server pid = Some p" "\<not> op_signalled p" "op_launch p = Some (i, TargetAnalysis ''r1'' 1)" for pid p i
    using sole_analysis [OF reaches that _ q] all_read by simp
  have "{pid. \<exists>p i. ls_processes analysing_server pid = Some p \<and> \<not> op_signalled p \<and> op_launch p = Some (i, TargetAnalysis ''r1'' 1)} = {7}"
  proof (intro equalityI subsetI)
    fix pid :: int
    assume "pid \<in> {7}"
    then show "pid \<in> {pid. \<exists>p i. ls_processes analysing_server pid = Some p \<and> \<not> op_signalled p \<and> op_launch p = Some (i, TargetAnalysis ''r1'' 1)}"
      using q by blast
  qed (use one in blast)
  then show ?thesis using reaches all_read by blast
qed

text \<open>The exception is one of the code: while the record of a live analysis does not read, a second analysis of the run starts
beside it.\<close>

lemma unread_record_admits:
  "\<exists>st. server_reaches is_id date_parse st \<and>
     (\<exists>p q i j. ls_processes st 7 = Some p \<and> ls_processes st 8 = Some q \<and> op_launch p = Some (i, TargetAnalysis ''r1'' 1) \<and>
        op_launch q = Some (j, TargetAnalysis ''r1'' 1) \<and> \<not> op_signalled p \<and> \<not> op_signalled q \<and> (''r1'', i) \<in> ls_unread st)"
proof -
  let ?again = "with_launch analysing_server {''L1''} (RequestAnalysis ''r1'' 1) example_analysis_launch ''L2'' 8"
  have fields: "\<not> ls_applying analysing_server" "ls_starting analysing_server = 0" "ls_analyses analysing_server = {}"
    "ls_tasks analysing_server = []" "ls_processes analysing_server 8 = None" "(8, ''12:00'') \<notin> ls_starts analysing_server"
    "''L2'' \<notin> ls_ids analysing_server" "live_launches {''L1''} analysing_server = []"
    by (simp_all add: analysing_server_def with_launch_def idle_server_def live_launches_def listed_launch_def List.map_filter_simps)
  have "(server_step is_id date_parse)\<^sup>*\<^sup>* analysing_server ?again"
    using fields example_analysis by (intro launch_goes [of _ example_reads]) (simp_all add: example_analysis_launch_def)
  moreover have "server_reaches is_id date_parse analysing_server"
    unfolding analysing_server_def example_analysis_launch_def by (rule launched_reaches [OF example_analysis])
  ultimately have "server_reaches is_id date_parse ?again" unfolding server_reaches_def by (meson rtranclp_trans)
  moreover have "\<exists>p q i j. ls_processes ?again 7 = Some p \<and> ls_processes ?again 8 = Some q \<and> op_launch p = Some (i, TargetAnalysis ''r1'' 1) \<and>
      op_launch q = Some (j, TargetAnalysis ''r1'' 1) \<and> \<not> op_signalled p \<and> \<not> op_signalled q \<and> (''r1'', i) \<in> ls_unread ?again"
    by (simp add: analysing_server_def with_launch_def idle_server_def launch_process_def example_analysis_launch_def)
  ultimately show ?thesis by blast
qed

text \<open>C7: while an edit is written to the linked corpus no launch is starting, and no process the server started, and did not
  signal, is alive, but for the launches whose record did not read when the edit was checked: such a record refuses
  nothing.\<close>

theorem edit_excludes_launches:
  assumes "server_reaches is_id date_parse st" and "WritingEdit \<in> set (ls_tasks st)"
  shows "ls_starting st = 0 \<and> list_all (\<lambda>t. launching t = None) (ls_tasks st) \<and>
    {i. \<exists>pid p target. ls_processes st pid = Some p \<and> op_launch p = Some (i, target) \<and> \<not> op_signalled p} \<subseteq> ls_edit_unread st"
proof -
  have kept: "server_kept st" "edits_alone st" using reaches_alone [OF assms(1)] by blast+
  note gate = server_keptD(1) [OF kept(1)]
  have quiet: "launching t = None" if "t \<in> set (ls_tasks st)" for t using no_launch_while_editing [OF gate assms(2) _ that] by simp
  then have "ls_starting st = 0" using gate by (simp add: gate_kept_def filter_empty_conv)
  moreover have "{i. \<exists>pid p target. ls_processes st pid = Some p \<and> op_launch p = Some (i, target) \<and> \<not> op_signalled p} \<subseteq> ls_edit_unread st"
    using kept(2) assms(2) unfolding edits_alone_def by blast
  ultimately show ?thesis using quiet by (simp add: list_all_iff)
qed

lemma edit_excludes_launches_witness:
  "server_reaches (\<lambda>_. True) (\<lambda>_. None) (idle_server\<lparr>ls_applying := True, ls_tasks := [WritingEdit]\<rparr>) \<and>
   ls_starting (idle_server\<lparr>ls_applying := True, ls_tasks := [WritingEdit]\<rparr>) = 0"
proof -
  let ?S = "server_step (\<lambda>_. True) (\<lambda>_. None)"
  let ?checking = "idle_server\<lparr>ls_applying := True, ls_tasks := [CheckingEdit]\<rparr>"
  let ?writing = "idle_server\<lparr>ls_applying := True, ls_tasks := [WritingEdit]\<rparr>"
  have 1: "?S idle_server ?checking" by (rule server_step.edit_enters) (simp add: enter_edit_def idle_server_def)
  have 2: "?S ?checking ?writing"
    using server_step.edit_checked [of ?checking "[]" "[]" "{}"]
    by (simp add: refuse_edit_under_live_launch_def live_launches_def idle_server_def List.map_filter_simps)
  have "?S\<^sup>*\<^sup>* idle_server ?writing" using 1 2 by (meson rtranclp.rtrancl_into_rtrancl rtranclp.rtrancl_refl)
  then have "server_reaches (\<lambda>_. True) (\<lambda>_. None) ?writing" unfolding server_reaches_def using idle_fresh by blast
  then show ?thesis using edit_excludes_launches [of "\<lambda>_. True" "\<lambda>_. None" ?writing] by simp
qed

text \<open>C16: the process a stop of a launch is about to signal is the one the server started for that launch: the check of its
  number and start admits no process that has since been given the number, and none of another launch.\<close>

theorem stop_checks_identity:
  assumes "server_reaches is_id date_parse st" and "running_launch is_id st i = Inr r"
  shows "lr_id r = i \<and> target_run (lr_target r) = None \<and>
    map_option op_launch (ls_processes st (lr_pid r)) = Some (Some (i, lr_target r))"
proof -
  have "server_kept st" using reaches_alone [OF assms(1)] by blast
  then have k: "lr_id r = i" "names_launch st (lr_pid r) (lr_started_at r) i (lr_target r)"
    using records_keptD [OF server_keptD(4) running_recorded [OF assms(2)]] by blast+
  have r: "target_run (lr_target r) = None" "started_at st (lr_pid r) = lr_started_at r" "lr_started_at r \<noteq> None"
    using assms(2) by (auto simp: running_launch_def split: if_splits option.splits launch_target.splits)
  then obtain p where "ls_processes st (lr_pid r) = Some p" "lr_started_at r = Some (op_started p)" by (auto simp: started_at_def)
  then show ?thesis using k r(1) unfolding names_launch_def by simp
qed

lemma stop_checks_identity_witness:
  "(case running_launch (\<lambda>_. True) comparing_server ''L1'' of
      Inl _ \<Rightarrow> False
    | Inr r \<Rightarrow> lr_id r = ''L1'' \<and> target_run (lr_target r) = None \<and>
        map_option op_launch (ls_processes comparing_server (lr_pid r)) = Some (Some (''L1'', lr_target r)))"
proof -
  have "server_reaches (\<lambda>_. True) (\<lambda>_. None) comparing_server"
    unfolding comparing_server_def by (rule launched_reaches [OF example_comparison])
  moreover obtain r where "running_launch (\<lambda>_. True) comparing_server ''L1'' = Inr r"
    by (simp add: running_launch_def comparing_server_def with_launch_def launch_process_def idle_server_def launch_record_of_def started_at_def)
  ultimately show ?thesis using stop_checks_identity [of "\<lambda>_. True" "\<lambda>_. None" comparing_server "''L1''" r] by simp
qed

end
