(* ===== verification/Spec2Isabelle.thy ===== *)
theory Spec2Isabelle
  imports Conversation FinalJudge JudgeAttempts RunEnding RecordCache LineDiff ShortIds ComparisonResources AgreementReader
    HistoryListing ReplayOffer MonitorReplay RequestGuard RunAbort JudgeProgress LaunchExclusion
begin

text \<open>
  The verification development of \<^verbatim>\<open>rehearse\<close>, a TypeScript program that runs a workflow of agent stages on
  a target repository, has Judges grade every stage and the delivery, records what happened, and
  compares such runs.

  \<^bold>\<open>How a run goes.\<close> A stage is a conversation with a provider session (\<^verbatim>\<open>workflow.ts\<close>): the worker is resumed
  turn after turn, its questions go to a Product Owner session, and every call is charged to a
  ceiling that may lie within the ceiling of a group. A stage Judge then grades the stage and the
  final Judge the delivery. Both must quote evidence, and a quote counts only when the program finds
  it in the source it cites; the harness's own checks override what the Judges say. Events are
  appended to a SQLite database, endings are read back from the files of a run, and runs whose
  process died are reconciled. Groups of repetitions are summarised and compared arm against arm.
  Records are named by ids and short ids on the command line.

  \<^bold>\<open>Which theory models what\<close> (files of \<^verbatim>\<open>src/src/benchmark/\<close> unless a directory is named):
  \<^item> \<open>Prelude\<close>, \<open>JsonValue\<close>, \<open>Decimal\<close>, \<open>JsNumber\<close>, \<open>Grades\<close>: results of calls that may throw, JavaScript array and
    string operations, JSON values, decimal numbers, the whole numbers a double holds and how they are written, letters
    and verdicts. Every theory below rests on them.
  \<^item> \<open>ClaudeEnvelope\<close>: what a provider call reports (\<^verbatim>\<open>claude-envelope-contract.ts\<close>, \<^verbatim>\<open>claude-metrics.ts\<close>,
    \<^verbatim>\<open>claude-response.ts\<close>).
  \<^item> \<open>SpendCeiling\<close> (\<^verbatim>\<open>spend-ceiling.ts\<close>): a store of ceilings, each within another or none, with
    \<open>budget_for\<close>, \<open>charge\<close> and the group's counter. \<open>SessionCalls\<close> (\<^verbatim>\<open>session-call-accounting.ts\<close>) states what
    its clients rely on as the locale \<open>spend_ceiling\<close> and interprets it on the store.
  \<^item> \<open>Conversation\<close> (\<^verbatim>\<open>workflow.ts\<close>, \<^verbatim>\<open>product-owner.ts\<close>): the stage loop and its errors.
  \<^item> \<open>EvidenceQuote\<close>, \<open>EvidenceDiff\<close>, \<open>EvidenceLocator\<close> (\<^verbatim>\<open>evidence-quote.ts\<close>, \<^verbatim>\<open>evidence-diff*.ts\<close>,
    \<^verbatim>\<open>evidence-locator.ts\<close>, \<^verbatim>\<open>stage-judge-evidence.ts\<close>): finding quotes.
  \<^item> \<open>StageGrading\<close>, \<open>FinalJudge\<close>, \<open>JudgeAttempts\<close> (\<^verbatim>\<open>stage-grade.ts\<close>, \<^verbatim>\<open>stage-harness-results.ts\<close>,
    \<^verbatim>\<open>judge-response.ts\<close>, \<^verbatim>\<open>judge-attempt.ts\<close>): grades, the harness over the Judge, and the retry.
  \<^item> \<open>RunEvents\<close> (\<^verbatim>\<open>run-events-*.ts\<close>): the event table, the store over it (locale \<open>run_event_store\<close>,
    interpreted on the table) and the recorder. \<open>RunEnding\<close> (\<^verbatim>\<open>run-ending.ts\<close>, \<^verbatim>\<open>run-liveness.ts\<close>,
    \<^verbatim>\<open>run-reconciliation.ts\<close> and the files they read): endings and reconciliation, proved in that locale.
  \<^item> \<open>RecordCache\<close> (\<^verbatim>\<open>record-parse-cache.ts\<close>): the cache of parsed records and its eviction.
  \<^item> \<open>LineDiff\<close> (\<^verbatim>\<open>client/src/corpus/line-diff*.ts\<close>): the line diff of the corpus editor.
  \<^item> \<open>RecordId\<close> (\<^verbatim>\<open>src/src/cli/record-id*.ts\<close>), \<open>ShortIds\<close> (\<^verbatim>\<open>short-id*.ts\<close> and the files that resolve them):
    the grammar of ids, and the registry that processes race for. The numbers of short ids are doubles (\<open>JsNumber\<close>):
    one past $2^{53}$ is rounded as it is read, and counting on from there stands still.
  \<^item> \<open>ComparisonEstimate\<close> (\<^verbatim>\<open>confirmation-report.ts\<close>, \<^verbatim>\<open>comparison-estimator.ts\<close>, \<^verbatim>\<open>comparison-quality.ts\<close>):
    reliability of repetitions, estimates and contrasts. \<open>ConfirmationResources\<close>
    (\<^verbatim>\<open>confirmation-resource-*.ts\<close>) and \<open>ComparisonResources\<close> (\<^verbatim>\<open>comparison-resource*.ts\<close>): what the
    repetitions consumed, and the contrasts of that.
  \<^item> \<open>JsonText\<close>, \<open>JudgeAgreement\<close>, \<open>AgreementReader\<close> (\<^verbatim>\<open>judge-agreement*.ts\<close>): how far the Judges agree with the
    human who calibrated them. \<open>JsonText\<close> states as the locale \<open>json_printer\<close> what a text used as a key or
    digested must satisfy, and interprets it on strings; the rubric's printers are interpreted where they
    are defined.

  \<^item> \<open>StageFigures\<close>, \<open>RunArtifacts\<close>, \<open>RunStatus\<close>, \<open>RunRecords\<close> (\<^verbatim>\<open>src/src/server/run-*.ts\<close>): the record of a run
    as the server serves it. What a file may lack is a \<open>reading\<close> with its reasons; a stage's costs and tokens
    are summed over the provider calls it keeps, its artifacts are compared checkpoint to checkpoint, and the
    run's status and outcome are read from one ending. \<open>RedactPath\<close> (\<^verbatim>\<open>redact-path.ts\<close>) takes absolute paths out
    of what is shown. \<open>StoppedStatus\<close> (\<^verbatim>\<open>stopped-status.ts\<close>): the statuses that carry a stage's name.
    \<open>GroupSummary\<close> (\<^verbatim>\<open>confirmation-group-summary.ts\<close>): the letters, counts and spend of a group.
  \<^item> \<open>RunRows\<close> (\<^verbatim>\<open>run-history-*.ts\<close> of the server): the rows the run history is answered as. What the browser
    makes of them (\<^verbatim>\<open>client/src/run-history/\<close>): \<open>RunDiscovery\<close>, \<open>StableSort\<close>, \<open>RecordedInstant\<close> search and sort
    them, \<open>InvalidatedRows\<close> and \<open>HistoryListing\<close> list them and the results an edit of the corpus invalidated,
    \<open>RunReadings\<close> write a clock and a spend, \<open>RunAnnouncements\<close> (\<^verbatim>\<open>client/src/shell/run-in-flight*\<close>) tell a screen
    reader what happened between two readings, \<open>ReplayOffer\<close> the runs that can be replayed.
  \<^item> \<open>RemainingTime\<close> (\<^verbatim>\<open>server/stage-times.ts\<close>, \<^verbatim>\<open>client/src/monitor/remaining-*\<close>): the medians of earlier runs and the
    estimate of what is left. \<open>MonitorReplay\<close> (\<^verbatim>\<open>client/src/monitor/run-record-query.ts\<close>): the replays the monitor
    offers, against the record of \<open>RunRecords\<close> and the launch of \<open>LaunchArguments\<close>.
  \<^item> \<open>CommandLine\<close>, \<open>CommandCatalog\<close>, \<open>CommandDispatch\<close> (\<^verbatim>\<open>src/src/cli/command-*.ts\<close>, \<^verbatim>\<open>commands.ts\<close>, \<^verbatim>\<open>entry.ts\<close>,
    \<^verbatim>\<open>confinement.ts\<close>): the parser, every command it knows, and the confinement of a command's process.
    \<open>LaunchArguments\<close> (\<^verbatim>\<open>server/launch-arguments.ts\<close>, \<^verbatim>\<open>configuration-options.ts\<close>): the command lines the server
    starts and the flags that read them back.
  \<^item> \<open>RequestGuard\<close> (\<^verbatim>\<open>server/request-guard.ts\<close>): the requests the server serves.
  \<^item> \<open>LaunchServer\<close>, \<open>LaunchSafety\<close>, \<open>LaunchExclusion\<close> (\<^verbatim>\<open>server/launch*.ts\<close>, \<^verbatim>\<open>server/corpus-edit-gate.ts\<close>): the launches
    a server plans, starts, records and stops while the corpus is edited. The first holds the code and the step relation
    \<open>server_step\<close>, the second what every reachable state keeps, the third the exclusions that follow.
  \<^item> \<open>RunAbort\<close> (\<^verbatim>\<open>run-abort*.ts\<close>): the abort of a run, a queue of writes behind which the signal, the stage's own failure
    and the completion of the artifact may come in any order.
  \<^item> \<open>JudgeStream\<close> (\<^verbatim>\<open>structured-output-item-scanner.ts\<close>, \<^verbatim>\<open>judge-stream.ts\<close>), \<open>JudgeProgress\<close>
    (\<^verbatim>\<open>stage-judge-progress.ts\<close>): the items of a Judge's answer, found in its output as it streams, and the
    progress reported of them.

  \<^bold>\<open>How state and effects are modelled.\<close> A handler takes the state it reads and returns it updated; what
  it throws is \<open>Inl\<close> of an error type of its component. Shared ceilings are cells of a store addressed
  by index, so that two sessions of a group charge the same cell. The database is the list of its
  rows, a directory the list of its names, and the files of a run a record of optional JSON values.
  Concurrency is explicit: \<open>group_spend_bounded\<close> takes any interleaving of the calls of a group, and
  claiming short ids is the step relation \<open>claim_step\<close> whose steps are the file system's, with a
  process killed at any point. A server that handles several requests is \<open>server_step\<close>: from one \<open>await\<close> to the next a step, and
  between two steps any other request, the exit of a process or the start of another one; a list of files is read in one
  step, in which any record may fail to read. The server's code leaves such a record out, so the state keeps, beside what
  the code has, which records each admission did not read: the exclusions are stated up to them. The writes of an abort are steps of a queue, and a streamed answer is any division of its text into chunks.

  \<^bold>\<open>What the lemmas show.\<close> Each component has an invariant or an exact description of its results, its
  operations are shown to keep or meet it on every branch, and its properties are read off that:
  money is charged exactly once and to the whole chain; a quote is found exactly when the source
  holds it; the harness always overrules, and what it does not overrule stays as judged; the store of events refines the list of a run's events;
  reconciliation interrupts exactly the dead; no two writers own a number, and a claim ends where the highest number claimed is below the last exact one;
  every printed id whose number prints in digits reads back; a diff restores both texts and keeps a longest common subsequence; a cache answers what a
  parse would; the Wilson interval is exact and the contrasts add up; the counts of Judge agreement are
  the ones read off the observations, in whatever order the disk lists them; what the roles of a group
  consumed adds up to its total; so do the figures of a run's record, the final Judge's among them, which name what they lack; a redacted
  message has no absolute path left; the history lists what its search asks for, in its order, and an
  acceptance is announced once, at whichever reading first shows it; what the monitor offers to replay the server starts,
  except the first stage of a run whose initial checkpoint is gone, and what the server starts
  the command reads back; a command that could reach other processes runs only where signals are held, unless the shell
  that typed it exports the mark of the sandbox itself, and a page of
  another site can neither write to the server nor read it under its own name; an aborted run's record is not
  overwritten by what comes later, and its abort ends; no run is analysed twice at once and the corpus is not edited under a
  launch, where the records of the live launches read, and a stop passes its check only for the process its launch started; a Judge's items are counted exactly, however its
  output is cut.

  \<^bold>\<open>Bounds and termination.\<close> Every loop but one is a total function: by structure, or by a measure (what is left
  of a text, of both sides of a diff, of the numbers a claim may still find taken, of the twenty
  turns of a stage), so no fuel is chosen anywhere. The exception is the search for a free short
  id (\<open>claim_from\<close>, a partial function): its counter is a double, which adding one to leaves where it is from $2^{53}$ on,
  and \<open>claim_stalls\<close> shows the search that never ends there; below, it is shown to end. The recursion of a ceiling to the one it is
  within is guarded by \<open>j < i\<close>, which every store the code can build satisfies. The diff's table is
  of 32-bit words; \<open>common_suffix_lengths_exact\<close> shows that none wraps, since a pair of texts past
  four million line pairs is refused. Money, rates and estimates are reals: the rounding of their doubles
  is not modelled. Characters are those up to code point 255.

  \<^bold>\<open>Parameters.\<close> Code that is not in the repository is an argument: the provider's answers, \<open>Bun.Glob\<close>,
  the digest and the schema parse of the record cache, of the calibrations and of the files of a
  run, the home and temporary directories, the clock, \<open>Date.parse\<close>, which processes
  live, and the prompts' texts.

  \<^bold>\<open>Not modelled.\<close> Spawning the provider and its sandbox, git and file copying, the HTTP routes, the React
  views, the handlers of the commands and what they print are input and output around the components above.
  Left out beside them, because most of what they do is reading files: the session history and its costs, the
  comparability of comparison arms, session checks and transcripts, the validation of pipelines, the corpus and its
  staleness, the server's builders of history rows, pausing a run. A server of launches may find launches of an
  earlier server still running, as long as each has its record: a server killed between a spawn and that record is left out.
\<close>

end
